(* ===== verification/TB_Prelude.thy ===== *)
theory TB_Prelude
  imports Complex_Main "HOL-Library.AList" "HOL-Library.List_Lexorder" "HOL-Library.Char_ord"
    "HOL-Library.Product_Lexorder" "HOL-Library.Sublist"
begin

section \<open>Python values, strings and containers shared by the components\<close>

text \<open>
  What this theory holds: the values the backend passes around (\<open>pyval\<close>, what Python's
  \<open>Any\<close> holds after a JSON or Socket.IO decode), the operations of \<open>str\<close> and \<open>dict\<close>
  the sources use, the result monad that models exceptions, and the lemmas on lists and
  association lists that the component theories share.

  Conventions.
  \<^item> A Python \<open>str\<close> is a HOL \<open>string\<close>, one \<open>char\<close> per code point; the code points of the
    model are those below 256, and the character predicates follow Python's Unicode tables
    on that range.
  \<^item> A Python \<open>dict\<close> is an association list in insertion order with distinct keys; \<open>d[k] = v\<close>
    is \<open>AList.update\<close> (in place when the key exists, at the end otherwise), \<open>del\<close> and \<open>pop\<close>
    are \<open>AList.delete\<close>, \<open>get\<close> is \<open>map_of\<close>.
  \<^item> A function that may raise returns \<open>'e + 'a\<close>, \<open>Inl\<close> for the exception.
  \<^item> A \<open>float\<close> is a rational or one of the three non-finite values; sums of a clock reading
    and a constant are exact (the rounding of IEEE addition is not modelled).
\<close>

named_theorems py_str_simps \<open>equations of the str operations\<close>
named_theorems inv_intros \<open>introduction rules for the component invariants\<close>

subsection \<open>Results\<close>

type_synonym ('e, 'a) result = "'e + 'a"

definition rbind :: "('e, 'a) result \<Rightarrow> ('a \<Rightarrow> ('e, 'b) result) \<Rightarrow> ('e, 'b) result" where
  "rbind m f = (case m of Inl e \<Rightarrow> Inl e | Inr a \<Rightarrow> f a)"

lemma rbind_simps [simp]: "rbind (Inl e) f = Inl e" "rbind (Inr a) f = f a"
  by (simp_all add: rbind_def)

lemma rbind_InrE:
  assumes "rbind m f = Inr b"
  obtains a where "m = Inr a" "f a = Inr b"
  using assms by (cases m) auto

lemma rbind_Inr_iff: "rbind m f = Inr b \<longleftrightarrow> (\<exists>a. m = Inr a \<and> f a = Inr b)"
  by (cases m) auto

lemma rbind_assoc: "rbind (rbind m f) g = rbind m (\<lambda>a. rbind (f a) g)"
  by (cases m) auto

definition is_Inl :: "('e, 'a) result \<Rightarrow> bool" where
  "is_Inl m = (case m of Inl _ \<Rightarrow> True | Inr _ \<Rightarrow> False)"

lemma is_Inl_simps [simp]: "is_Inl (Inl e)" "\<not> is_Inl (Inr a)"
  by (simp_all add: is_Inl_def)

subsection \<open>Values\<close>

datatype pyfloat = Fin rat | PInf | NInf | NaN

datatype pyval =
    PNone
  | PBool bool
  | PInt int
  | PFloat pyfloat
  | PStr string
  | PBytes string
  | PList "pyval list"
  | PTuple "pyval list"
  | PDict "(string \<times> pyval) list"

definition is_mapping :: "pyval \<Rightarrow> bool" where
  "is_mapping v = (case v of PDict _ \<Rightarrow> True | _ \<Rightarrow> False)"

definition is_str :: "pyval \<Rightarrow> bool" where
  "is_str v = (case v of PStr _ \<Rightarrow> True | _ \<Rightarrow> False)"

definition is_bool :: "pyval \<Rightarrow> bool" where
  "is_bool v = (case v of PBool _ \<Rightarrow> True | _ \<Rightarrow> False)"

lemma is_mapping_simps [simp]:
  "is_mapping (PDict d)" "\<not> is_mapping PNone" "\<not> is_mapping (PStr s)" "\<not> is_mapping (PInt i)"
  "\<not> is_mapping (PList l)" "\<not> is_mapping (PBool b)"
  by (simp_all add: is_mapping_def)

lemma is_mappingE:
  assumes "is_mapping v" obtains d where "v = PDict d"
  using assms by (cases v) (auto simp: is_mapping_def)

text \<open>The \<open>isinstance\<close> tests as projections.\<close>

definition as_dict :: "pyval \<Rightarrow> (string \<times> pyval) list option" where
  "as_dict v = (case v of PDict d \<Rightarrow> Some d | _ \<Rightarrow> None)"

definition as_str :: "pyval \<Rightarrow> string option" where
  "as_str v = (case v of PStr s \<Rightarrow> Some s | _ \<Rightarrow> None)"

definition as_bool :: "pyval \<Rightarrow> bool option" where
  "as_bool v = (case v of PBool b \<Rightarrow> Some b | _ \<Rightarrow> None)"

definition as_int :: "pyval \<Rightarrow> int option" where
  "as_int v = (case v of PInt i \<Rightarrow> Some i | _ \<Rightarrow> None)"

definition as_list :: "pyval \<Rightarrow> pyval list option" where
  "as_list v = (case v of PList l \<Rightarrow> Some l | _ \<Rightarrow> None)"

lemma as_simps [simp]:
  "as_dict (PDict d) = Some d" "as_str (PStr s) = Some s" "as_bool (PBool b) = Some b" "as_int (PInt i) = Some i"
  "as_list (PList l) = Some l" "as_dict PNone = None" "as_str PNone = None" "as_bool PNone = None"
  "as_int PNone = None" "as_list PNone = None" "as_str (PInt i) = None" "as_int (PStr s) = None"
  "as_dict (PStr s) = None" "as_bool (PInt i) = None" "as_int (PBool b) = None" "as_str (PBool b) = None"
  "as_bool (PStr s) = None" "as_dict (PInt i) = None" "as_dict (PList l) = None" "as_str (PDict d) = None"
  by (simp_all add: as_dict_def as_str_def as_bool_def as_int_def as_list_def)

lemma as_Some_iff [simp]:
  "as_dict v = Some d \<longleftrightarrow> v = PDict d" "as_str v = Some s \<longleftrightarrow> v = PStr s" "as_bool v = Some b \<longleftrightarrow> v = PBool b"
  "as_int v = Some i \<longleftrightarrow> v = PInt i" "as_list v = Some l \<longleftrightarrow> v = PList l"
  by (cases v; simp add: as_dict_def as_str_def as_bool_def as_int_def as_list_def)+

text \<open>\<open>m.get(k)\<close> on a mapping: absent keys read as \<open>None\<close>.\<close>

definition pget :: "(string \<times> pyval) list \<Rightarrow> string \<Rightarrow> pyval" where
  "pget d k = (case map_of d k of None \<Rightarrow> PNone | Some v \<Rightarrow> v)"

lemma pget_Nil [simp]: "pget [] k = PNone"
  by (simp add: pget_def)

lemma pget_Cons [simp]: "pget ((k', v) # d) k = (if k = k' then v else pget d k)"
  by (simp add: pget_def)

text \<open>\<open>set(data) == {\<dots>}\<close> on the keys of a mapping.\<close>

definition keys_eq :: "(string \<times> pyval) list \<Rightarrow> string list \<Rightarrow> bool" where
  "keys_eq d ks \<longleftrightarrow> list_all (\<lambda>k. List.member ks k) (map fst d) \<and> list_all (\<lambda>k. List.member (map fst d) k) ks"

lemma keys_eq_iff: "keys_eq d ks \<longleftrightarrow> fst ` set d = set ks"
  by (auto simp: keys_eq_def list_all_iff)

text \<open>
  Python's \<open>==\<close> between a value and an \<open>int\<close>: \<open>True == 1\<close> and \<open>1.0 == 1\<close> hold, strings and
  containers are never equal to a number.
\<close>

definition py_eq_int :: "pyval \<Rightarrow> int \<Rightarrow> bool" where
  "py_eq_int v n = (case v of
      PInt i \<Rightarrow> i = n
    | PBool b \<Rightarrow> of_bool b = n
    | PFloat (Fin r) \<Rightarrow> r = of_int n
    | _ \<Rightarrow> False)"

lemma py_eq_int_PInt [simp]: "py_eq_int (PInt i) n \<longleftrightarrow> i = n"
  by (simp add: py_eq_int_def)

definition py_eq_str :: "pyval \<Rightarrow> string \<Rightarrow> bool" where
  "py_eq_str v s = (case v of PStr t \<Rightarrow> t = s | _ \<Rightarrow> False)"

lemma py_eq_str_iff [simp]: "py_eq_str v s \<longleftrightarrow> v = PStr s"
  by (cases v) (auto simp: py_eq_str_def)

text \<open>\<open>isinstance(v, str) and v\<close>.\<close>

definition nonempty_str :: "pyval \<Rightarrow> bool" where
  "nonempty_str v = (case v of PStr s \<Rightarrow> s \<noteq> [] | _ \<Rightarrow> False)"

lemma nonempty_str_iff: "nonempty_str v \<longleftrightarrow> (\<exists>s. v = PStr s \<and> s \<noteq> [])"
  by (cases v) (auto simp: nonempty_str_def)

definition str_of :: "pyval \<Rightarrow> string" where
  "str_of v = (case v of PStr s \<Rightarrow> s | _ \<Rightarrow> [])"

lemma str_of_PStr [simp]: "str_of (PStr s) = s"
  by (simp add: str_of_def)

subsection \<open>Dictionaries as association lists\<close>

type_synonym ('k, 'v) dict = "('k \<times> 'v) list"

definition dict_ok :: "('k, 'v) dict \<Rightarrow> bool" where
  "dict_ok d = distinct (map fst d)"

definition has_key :: "('k, 'v) dict \<Rightarrow> 'k \<Rightarrow> bool" where
  "has_key d k = (map_of d k \<noteq> None)"

lemma has_key_iff: "has_key d k \<longleftrightarrow> k \<in> fst ` set d"
  by (auto simp: has_key_def map_of_eq_None_iff)

lemma dict_ok_Nil [simp]: "dict_ok []"
  by (simp add: dict_ok_def)

lemma dict_ok_update [simp, intro]: "dict_ok d \<Longrightarrow> dict_ok (AList.update k v d)"
  by (simp add: dict_ok_def distinct_update)

lemma dict_ok_delete [simp, intro]: "dict_ok d \<Longrightarrow> dict_ok (AList.delete k d)"
  by (simp add: dict_ok_def distinct_delete)

lemma dict_ok_filter [simp, intro]: "dict_ok d \<Longrightarrow> dict_ok (filter P d)"
  by (simp add: dict_ok_def distinct_map_filter)

lemma map_of_update [simp]: "map_of (AList.update k v d) = (map_of d)(k \<mapsto> v)"
  by (rule update_conv')

lemma map_of_delete [simp]: "map_of (AList.delete k d) = (map_of d)(k := None)"
  by (rule delete_conv')

lemma map_of_iff_dict_ok: "dict_ok d \<Longrightarrow> map_of d k = Some v \<longleftrightarrow> (k, v) \<in> set d"
  by (simp add: dict_ok_def)

lemma dict_ok_unique: "dict_ok d \<Longrightarrow> (k, v) \<in> set d \<Longrightarrow> (k, w) \<in> set d \<Longrightarrow> v = w"
  by (metis map_of_iff_dict_ok option.inject)

lemma set_update_dict:
  "dict_ok d \<Longrightarrow> set (AList.update k v d) = insert (k, v) {p \<in> set d. fst p \<noteq> k}"
  by (induction d) (auto simp: dict_ok_def rev_image_eqI)

lemma set_delete_dict: "set (AList.delete k d) = {p \<in> set d. fst p \<noteq> k}"
  by (induction d) (auto simp: delete_simps)

lemma length_update_new: "\<not> has_key d k \<Longrightarrow> length (AList.update k v d) = Suc (length d)"
  by (induction d) (auto simp: has_key_def)

lemma length_update_old: "has_key d k \<Longrightarrow> length (AList.update k v d) = length d"
  by (induction d) (auto simp: has_key_def split: if_splits)

lemma update_new: "\<not> has_key d k \<Longrightarrow> AList.update k v d = d @ [(k, v)]"
  by (induction d) (auto simp: has_key_def split: if_splits)

lemma length_delete_has: "dict_ok d \<Longrightarrow> has_key d k \<Longrightarrow> Suc (length (AList.delete k d)) = length d"
proof (induction d)
  case Nil
  then show ?case by (simp add: has_key_def)
next
  case (Cons p d)
  obtain a b where p: "p = (a, b)" by force
  show ?case
  proof (cases "a = k")
    case True
    with Cons.prems(1) p have "k \<notin> fst ` set d" by (auto simp: dict_ok_def)
    then have "AList.delete k d = d" by (simp add: delete_idem)
    with True p show ?thesis by (simp add: delete_simps)
  next
    case False
    with Cons p show ?thesis by (auto simp: dict_ok_def has_key_def delete_simps)
  qed
qed

lemma count_filter_delete:
  "dict_ok d \<Longrightarrow> map_of d k = Some v \<Longrightarrow>
   length (filter P d) = length (filter P (AList.delete k d)) + (if P (k, v) then 1 else 0)"
proof (induction d)
  case (Cons p d)
  obtain a b where p: "p = (a, b)" by force
  show ?case
  proof (cases "a = k")
    case True
    with Cons.prems(1) p have "k \<notin> fst ` set d" by (auto simp: dict_ok_def)
    then have "AList.delete k d = d" by (simp add: delete_idem)
    with True p Cons.prems(2) show ?thesis by (simp add: delete_simps)
  next
    case False
    with Cons p show ?thesis by (auto simp: dict_ok_def delete_simps)
  qed
qed simp

lemma map_of_filter_dict:
  "dict_ok d \<Longrightarrow>
   map_of (filter P d) k = (case map_of d k of None \<Rightarrow> None | Some v \<Rightarrow> if P (k, v) then Some v else None)"
proof (induction d)
  case (Cons p d)
  have ok: "dict_ok d" and nk: "fst p \<notin> fst ` set d" using Cons.prems by (auto simp: dict_ok_def)
  have "map_of (filter P d) (fst p) = None" using nk by (auto simp: map_of_eq_None_iff)
  with Cons.IH [OF ok] show ?case by (cases p) (auto split: option.splits)
qed simp

subsection \<open>Lists\<close>

lemma distinct_map_inj_upd:
  assumes "distinct (map f xs)" and "\<And>x. x \<in> set xs \<Longrightarrow> f (g x) = f x"
  shows "distinct (map f (map g xs))"
proof -
  have "map f (map g xs) = map f xs" using assms(2) by simp
  with assms(1) show ?thesis by (simp only:)
qed

lemma filter_pk_singleton:
  assumes "distinct (map f xs)"
  shows "length (filter (\<lambda>x. f x = k \<and> P x) xs) \<le> 1"
  using assms
proof (induction xs)
  case (Cons x xs)
  show ?case
  proof (cases "f x = k \<and> P x")
    case True
    have "filter (\<lambda>y. f y = k \<and> P y) xs = []"
      unfolding filter_empty_conv using True Cons.prems by (force simp: image_iff)
    with True show ?thesis by simp
  next
    case False
    then have "filter (\<lambda>y. f y = k \<and> P y) (x # xs) = filter (\<lambda>y. f y = k \<and> P y) xs" by simp
    with Cons show ?thesis by simp
  qed
qed simp

lemma sum_list_filter_split:
  "sum_list (map f xs) = sum_list (map f (filter P xs)) + (sum_list (map f (filter (\<lambda>x. \<not> P x) xs)) :: nat)"
  by (induction xs) auto

end
