(* ===== verification/Py_Str.thy ===== *)
theory Py_Str
  imports TB_Prelude
begin

section \<open>Operations of Python's str\<close>

text \<open>
  The methods of \<open>str\<close> the sources call, on code points below 256: \<open>lower\<close>, \<open>upper\<close>,
  \<open>strip\<close>, \<open>lstrip\<close>, \<open>split\<close>, \<open>partition\<close>, \<open>rpartition\<close>, \<open>find\<close>, \<open>in\<close>, \<open>startswith\<close>,
  and the decimal notation of f-strings. The only deviation on that range is \<open>upper\<close>, which
  leaves the three letters alone whose capital lies outside it or has two letters.
\<close>

abbreviation code :: "char \<Rightarrow> nat" where
  "code c \<equiv> of_char c"

definition lower_char :: "char \<Rightarrow> char" where
  "lower_char c = (if 65 \<le> code c \<and> code c \<le> 90 \<or> 192 \<le> code c \<and> code c \<le> 222 \<and> code c \<noteq> 215
     then char_of (code c + 32) else c)"

definition upper_char :: "char \<Rightarrow> char" where
  "upper_char c = (if 97 \<le> code c \<and> code c \<le> 122 \<or> 224 \<le> code c \<and> code c \<le> 254 \<and> code c \<noteq> 247
     then char_of (code c - 32) else c)"

definition py_lower :: "string \<Rightarrow> string" where
  "py_lower s = map lower_char s"

definition py_upper :: "string \<Rightarrow> string" where
  "py_upper s = map upper_char s"

text \<open>\<open>str.isspace\<close> (and the regular expression class \<open>\s\<close>).\<close>

definition is_space :: "char \<Rightarrow> bool" where
  "is_space c \<longleftrightarrow> 9 \<le> code c \<and> code c \<le> 13 \<or> 28 \<le> code c \<and> code c \<le> 32 \<or> code c = 133 \<or> code c = 160"

definition is_digit :: "char \<Rightarrow> bool" where
  "is_digit c \<longleftrightarrow> 48 \<le> code c \<and> code c \<le> 57"

definition is_ascii :: "char \<Rightarrow> bool" where
  "is_ascii c \<longleftrightarrow> code c < 128"

definition is_ascii_alpha :: "char \<Rightarrow> bool" where
  "is_ascii_alpha c \<longleftrightarrow> 65 \<le> code c \<and> code c \<le> 90 \<or> 97 \<le> code c \<and> code c \<le> 122"

text \<open>The class \<open>\w\<close>: letters, digits (the superscripts and fractions count) and underscore.\<close>

definition is_word :: "char \<Rightarrow> bool" where
  "is_word c \<longleftrightarrow> is_ascii_alpha c \<or> is_digit c \<or> code c = 95 \<or> code c \<in> {170, 178, 179, 181, 185, 186, 188, 189, 190}
     \<or> 192 \<le> code c \<and> code c \<noteq> 215 \<and> code c \<noteq> 247"

definition lstrip_by :: "(char \<Rightarrow> bool) \<Rightarrow> string \<Rightarrow> string" where
  "lstrip_by P s = dropWhile P s"

definition rstrip_by :: "(char \<Rightarrow> bool) \<Rightarrow> string \<Rightarrow> string" where
  "rstrip_by P s = rev (dropWhile P (rev s))"

definition strip_by :: "(char \<Rightarrow> bool) \<Rightarrow> string \<Rightarrow> string" where
  "strip_by P s = rstrip_by P (lstrip_by P s)"

definition py_strip :: "string \<Rightarrow> string" where
  "py_strip s = strip_by is_space s"

text \<open>\<open>s.split(c)\<close> for a one-character separator.\<close>

fun split_on :: "char \<Rightarrow> string \<Rightarrow> string list" where
  "split_on c [] = [[]]"
| "split_on c (x # xs) =
     (if x = c then [] # split_on c xs
      else (case split_on c xs of [] \<Rightarrow> [[x]] | y # ys \<Rightarrow> (x # y) # ys))"

text \<open>\<open>s.partition(c)\<close>: the text before, whether the separator occurs, the text after.\<close>

fun py_partition :: "char \<Rightarrow> string \<Rightarrow> string \<times> bool \<times> string" where
  "py_partition c [] = ([], False, [])"
| "py_partition c (x # xs) =
     (if x = c then ([], True, xs)
      else (case py_partition c xs of (a, f, b) \<Rightarrow> (x # a, f, b)))"

text \<open>\<open>s.rpartition(c)\<close>: without a separator the whole text is in the last place.\<close>

definition py_rpartition :: "char \<Rightarrow> string \<Rightarrow> string \<times> bool \<times> string" where
  "py_rpartition c s = (case py_partition c (rev s) of
      (a, True, b) \<Rightarrow> (rev b, True, rev a)
    | (a, False, b) \<Rightarrow> ([], False, s))"

text \<open>\<open>s.split(c, 1)\<close>.\<close>

definition split_once :: "char \<Rightarrow> string \<Rightarrow> string list" where
  "split_once c s = (case py_partition c s of (a, f, b) \<Rightarrow> if f then [a, b] else [a])"

definition startswith :: "string \<Rightarrow> string \<Rightarrow> bool" where
  "startswith p s = prefix p s"

text \<open>\<open>p in s\<close> for strings.\<close>

fun substr_in :: "string \<Rightarrow> string \<Rightarrow> bool" where
  "substr_in p [] = (p = [])"
| "substr_in p (x # xs) = (prefix p (x # xs) \<or> substr_in p xs)"

definition joined :: "string \<Rightarrow> string list \<Rightarrow> string" where
  "joined sep xs = (case xs of [] \<Rightarrow> [] | y # ys \<Rightarrow> y @ concat (map (\<lambda>z. sep @ z) ys))"

text \<open>Decimal notation.\<close>

function nat_digits :: "nat \<Rightarrow> string" where
  "nat_digits n = (if n < 10 then [char_of (48 + n)] else nat_digits (n div 10) @ [char_of (48 + n mod 10)])"
  by pat_completeness auto
termination
  by (relation "measure id") auto

declare nat_digits.simps [simp del]

definition int_str :: "int \<Rightarrow> string" where
  "int_str i = (if i < 0 then CHR ''-'' # nat_digits (nat (- i)) else nat_digits (nat i))"

text \<open>\<open>int(s)\<close> on a string of decimal digits.\<close>

definition digits_value :: "string \<Rightarrow> nat" where
  "digits_value s = foldl (\<lambda>n c. 10 * n + (code c - 48)) 0 s"

subsection \<open>Lemmas\<close>

lemma split_on_ne [simp]: "split_on c s \<noteq> []"
  by (induction s) (auto split: list.splits)

lemma joined_Cons_Cons: "joined sep (x # y # ys) = x @ sep @ joined sep (y # ys)"
  by (simp add: joined_def)

lemma split_on_notin: "c \<notin> set s \<Longrightarrow> split_on c s = [s]"
  by (induction s) auto

lemma joined_split_on: "joined [c] (split_on c s) = s"
proof (induction s)
  case (Cons x xs)
  obtain y ys where "split_on c xs = y # ys" by (cases "split_on c xs") auto
  then show ?case using Cons by (simp add: joined_def)
qed (simp add: joined_def)

lemma split_on_append: "c \<notin> set a \<Longrightarrow> split_on c (a @ c # b) = a # split_on c b"
  by (induction a) auto

lemma split_on_parts: "p \<in> set (split_on c s) \<Longrightarrow> c \<notin> set p"
  by (induction s arbitrary: p) (auto split: if_splits list.splits)

lemma py_partition_concat: "py_partition c s = (a, f, b) \<Longrightarrow> s = a @ (if f then c # b else [])"
  by (induction s arbitrary: a) (auto split: if_splits prod.splits)

lemma py_partition_found: "c \<notin> set a \<Longrightarrow> py_partition c (a @ c # b) = (a, True, b)"
  by (induction a) auto

lemma py_partition_None: "c \<notin> set s \<Longrightarrow> py_partition c s = (s, False, [])"
  by (induction s) auto

lemma py_partition_flag: "py_partition c s = (a, f, b) \<Longrightarrow> f \<longleftrightarrow> c \<in> set s"
  by (induction s arbitrary: a) (auto split: if_splits prod.splits)

lemma rstrip_by_id: "(s = [] \<or> \<not> P (last s)) \<Longrightarrow> rstrip_by P s = s"
  by (cases s rule: rev_cases) (auto simp: rstrip_by_def)

lemma lstrip_by_id: "(s = [] \<or> \<not> P (hd s)) \<Longrightarrow> lstrip_by P s = s"
  by (cases s) (auto simp: lstrip_by_def)

lemma strip_by_last: "strip_by P s \<noteq> [] \<Longrightarrow> \<not> P (last (strip_by P s))"
  unfolding strip_by_def rstrip_by_def
  by (metis hd_dropWhile hd_rev last_rev rev_is_Nil_conv)

lemma rstrip_by_Cons: "\<not> P x \<Longrightarrow> \<exists>ys. rstrip_by P (x # xs) = x # ys"
proof -
  assume "\<not> P x"
  then have "\<exists>zs. dropWhile P (rev xs @ [x]) = zs @ [x]"
    by (cases "\<forall>y \<in> set (rev xs). P y") (auto simp: dropWhile_append)
  then obtain zs where "dropWhile P (rev xs @ [x]) = zs @ [x]" by blast
  then have "rstrip_by P (x # xs) = x # rev zs" by (simp add: rstrip_by_def)
  then show ?thesis by blast
qed

lemma strip_by_hd: "strip_by P s \<noteq> [] \<Longrightarrow> \<not> P (hd (strip_by P s))"
proof (cases "dropWhile P s")
  case (Cons x xs)
  then have nP: "\<not> P x" by (metis hd_dropWhile list.sel(1) list.simps(3))
  with Cons show ?thesis
    using rstrip_by_Cons [of P x xs] by (auto simp: strip_by_def lstrip_by_def)
qed (simp add: strip_by_def lstrip_by_def rstrip_by_def)

lemma strip_by_idem [simp]: "strip_by P (strip_by P s) = strip_by P s"
proof (cases "strip_by P s = []")
  case True
  then show ?thesis by (simp add: strip_by_def [of P "[]"] lstrip_by_def rstrip_by_def)
next
  case False
  then have "lstrip_by P (strip_by P s) = strip_by P s" by (intro lstrip_by_id) (auto dest: strip_by_hd)
  then show ?thesis
    unfolding strip_by_def [of P "strip_by P s"]
    using False by (simp add: rstrip_by_id strip_by_last)
qed

lemma length_strip_by: "length (strip_by P s) \<le> length s"
  unfolding strip_by_def rstrip_by_def lstrip_by_def
  by simp (metis length_dropWhile_le length_rev order_trans)

lemma digits_value_snoc: "digits_value (s @ [c]) = 10 * digits_value s + (code c - 48)"
  by (simp add: digits_value_def)

lemma digits_value_nat_digits: "digits_value (nat_digits n) = n"
proof (induction n rule: nat_digits.induct)
  case (1 n)
  show ?case
  proof (cases "n < 10")
    case True
    then show ?thesis by (subst nat_digits.simps) (simp add: digits_value_def)
  next
    case False
    with 1 show ?thesis by (subst nat_digits.simps) (simp add: digits_value_snoc)
  qed
qed

lemma nat_digits_ne [simp]: "nat_digits n \<noteq> []"
  by (subst nat_digits.simps) auto

lemma nat_digits_digit: "c \<in> set (nat_digits n) \<Longrightarrow> is_digit c"
proof (induction n rule: nat_digits.induct)
  case (1 n)
  show ?case
  proof (cases "n < 10")
    case True
    with 1 show ?thesis by (subst (asm) nat_digits.simps) (auto simp: is_digit_def)
  next
    case False
    have "c = char_of (48 + n mod 10) \<or> c \<in> set (nat_digits (n div 10))"
      using 1(2) False by (subst (asm) nat_digits.simps) auto
    then show ?thesis
    proof
      assume "c = char_of (48 + n mod 10)"
      moreover have "48 + n mod 10 < 256" by simp
      ultimately show ?thesis by (simp add: is_digit_def)
    qed (use 1(1) False in blast)
  qed
qed

lemma nat_digits_inj: "nat_digits m = nat_digits n \<Longrightarrow> m = n"
  by (metis digits_value_nat_digits)

lemma int_str_inj: "int_str i = int_str j \<Longrightarrow> i = j"
proof -
  have minus: "CHR ''-'' \<notin> set (nat_digits n)" for n
    using nat_digits_digit [of "CHR ''-''" n] by (auto simp: is_digit_def)
  assume eq: "int_str i = int_str j"
  consider "i < 0" "j < 0" | "i < 0" "0 \<le> j" | "0 \<le> i" "j < 0" | "0 \<le> i" "0 \<le> j" by linarith
  then show "i = j"
  proof cases
    case 1
    with eq have "nat (- i) = nat (- j)" by (auto simp: int_str_def dest: nat_digits_inj)
    with 1 show ?thesis by simp
  next
    case 2
    with eq minus [of "nat j"] show ?thesis by (auto simp: int_str_def dest: sym)
  next
    case 3
    with eq minus [of "nat i"] show ?thesis by (auto simp: int_str_def)
  next
    case 4
    with eq have "nat i = nat j" by (auto simp: int_str_def dest: nat_digits_inj)
    with 4 show ?thesis by simp
  qed
qed

end
