(* ===== verification/Presence_Data.thy ===== *)
theory Presence_Data
  imports Py_Str
begin

section \<open>Companion presence: payloads, selection and the store protocol\<close>

text \<open>
  The data of \<open>socket/companion_presence.py\<close> (\<open>PresenceUpdate\<close>, \<open>PresenceState\<close>,
  \<open>PresenceExpiry\<close>), the payload validator, the rule that selects the active entry, and the
  \<open>PresenceStore\<close> protocol: a record of operations (\<open>presence_ops\<close>) and the locale
  \<open>presence_store\<close>, the contract both stores are shown to meet and the socket service relies
  on. Times are the readings of \<open>time.time()\<close>.
\<close>

record presence_update =
  clientId :: string
  chatId :: "string option"
  chatTitle :: "string option"
  deviceLabel :: string
  isFocused :: bool
  focusedAt :: rat

record presence_state =
  ps_active :: "presence_update option"
  revision :: nat

record presence_expiry =
  pe_user_id :: string
  pe_state :: presence_state

datatype validate_error = ValueError string | OverflowError

definition FIELD_LIMITS :: "(string \<times> nat) list" where
  "FIELD_LIMITS = [(''clientId'', 128), (''chatId'', 128), (''chatTitle'', 512), (''deviceLabel'', 128)]"

text \<open>\<open>_PRESENCE_FIELDS\<close> in the order \<open>sorted\<close> gives.\<close>

definition PRESENCE_FIELDS :: "string list" where
  "PRESENCE_FIELDS = [''chatId'', ''chatTitle'', ''clientId'', ''deviceLabel'', ''focusedAt'', ''isFocused'']"

text \<open>The loop over \<open>_FIELD_LIMITS\<close>.\<close>

fun validate_fields ::
  "bool \<Rightarrow> (string \<times> pyval) list \<Rightarrow> (string \<times> nat) list \<Rightarrow> (validate_error, (string \<times> string option) list) result" where
  "validate_fields clears data [] = Inr []"
| "validate_fields clears data ((field, limit) # rest) =
     (if clears \<and> field \<in> {''chatId'', ''chatTitle''} then
        rbind (validate_fields clears data rest) (\<lambda>vs. Inr ((field, None) # vs))
      else case as_str (pget data field) of
        None \<Rightarrow> Inl (ValueError (field @ '' must be a valid string''))
      | Some value \<Rightarrow>
          if field \<in> {''clientId'', ''chatId''} \<and> value = [] then
            Inl (ValueError (field @ '' must be a valid string''))
          else if length value > limit then Inl (ValueError (field @ '' is too long''))
          else rbind (validate_fields clears data rest) (\<lambda>vs. Inr ((field, Some value) # vs)))"

text \<open>
  \<open>math.isfinite\<close> converts an \<open>int\<close> to a double first, and that conversion raises
  \<open>OverflowError\<close> from half an ulp above the largest double on.
\<close>

definition float_overflow :: "int \<Rightarrow> bool" where
  "float_overflow i \<longleftrightarrow> \<bar>i\<bar> \<ge> 2 ^ 1024 - 2 ^ 970"

definition focused_at_number :: "pyval \<Rightarrow> (validate_error, rat) result" where
  "focused_at_number v = (case v of
      PInt i \<Rightarrow> if float_overflow i then Inl OverflowError
                else if i < 0 then Inl (ValueError ''focusedAt must be zero or greater'')
                else Inr (of_int i)
    | PFloat (Fin r) \<Rightarrow> if r < 0 then Inl (ValueError ''focusedAt must be zero or greater'') else Inr r
    | PFloat _ \<Rightarrow> Inl (ValueError ''focusedAt must be zero or greater'')
    | _ \<Rightarrow> Inl (ValueError ''focusedAt must be a number''))"

definition field_opt :: "(string \<times> string option) list \<Rightarrow> string \<Rightarrow> string option" where
  "field_opt vs f = (case map_of vs f of None \<Rightarrow> None | Some v \<Rightarrow> v)"

definition field_str :: "(string \<times> string option) list \<Rightarrow> string \<Rightarrow> string" where
  "field_str vs f = (case field_opt vs f of None \<Rightarrow> [] | Some v \<Rightarrow> v)"

definition validate_presence_update :: "pyval \<Rightarrow> (validate_error, presence_update) result" where
  "validate_presence_update payload = (case as_dict payload of
      None \<Rightarrow> Inl (ValueError ''payload must be an object'')
    | Some data \<Rightarrow>
        (let keys = map fst data in
         if \<exists>k \<in> set keys. k \<notin> set PRESENCE_FIELDS then Inl (ValueError ''unknown field'')
         else case filter (\<lambda>f. f \<notin> set keys) PRESENCE_FIELDS of
           missing # _ \<Rightarrow> Inl (ValueError (''missing field: '' @ missing))
         | [] \<Rightarrow>
           (let clears = (pget data ''chatId'' = PNone \<and> pget data ''chatTitle'' = PNone) in
            if (pget data ''chatId'' = PNone) \<noteq> (pget data ''chatTitle'' = PNone) then
              Inl (ValueError ''chatId and chatTitle must both be null or strings'')
            else rbind (validate_fields clears data FIELD_LIMITS) (\<lambda>values.
              case as_bool (pget data ''isFocused'') of
                None \<Rightarrow> Inl (ValueError ''isFocused must be a boolean'')
              | Some is_focused \<Rightarrow>
                  rbind (focused_at_number (pget data ''focusedAt'')) (\<lambda>focused_at.
                    Inr \<lparr>clientId = field_str values ''clientId'', chatId = field_opt values ''chatId'',
                         chatTitle = field_opt values ''chatTitle'',
                         deviceLabel = field_str values ''deviceLabel'',
                         isFocused = is_focused, focusedAt = focused_at\<rparr>)))))"

text \<open>What a validated payload guarantees.\<close>

definition presence_ok :: "presence_update \<Rightarrow> bool" where
  "presence_ok p \<longleftrightarrow>
     clientId p \<noteq> [] \<and> length (clientId p) \<le> 128 \<and> length (deviceLabel p) \<le> 128 \<and> 0 \<le> focusedAt p \<and>
     (chatId p = None \<longleftrightarrow> chatTitle p = None) \<and>
     (case chatId p of None \<Rightarrow> True | Some c \<Rightarrow> c \<noteq> [] \<and> length c \<le> 128) \<and>
     (case chatTitle p of None \<Rightarrow> True | Some t \<Rightarrow> length t \<le> 512)"

subsection \<open>Entries and the active one\<close>

record mem_entry =
  presence :: presence_update
  updated_at :: rat
  expires_at :: rat

text \<open>Python's \<open>max(xs, key=\<dots>)\<close>: the first of the maximal elements.\<close>

fun max_by :: "('a \<Rightarrow> 'k::linorder) \<Rightarrow> 'a \<Rightarrow> 'a list \<Rightarrow> 'a" where
  "max_by key best [] = best"
| "max_by key best (x # xs) = max_by key (if key best < key x then x else best) xs"

definition rank :: "bool \<Rightarrow> mem_entry \<Rightarrow> rat \<times> rat \<times> string" where
  "rank focused e = (if focused then focusedAt (presence e) else updated_at e, updated_at e, clientId (presence e))"

definition focused_entries :: "mem_entry list \<Rightarrow> mem_entry list" where
  "focused_entries es = filter (\<lambda>e. isFocused (presence e)) es"

definition candidates :: "mem_entry list \<Rightarrow> mem_entry list" where
  "candidates es = (if focused_entries es = [] then es else focused_entries es)"

text \<open>The specification of the choice: \<open>a\<close> is the presence of a candidate no candidate outranks.\<close>

definition best_active :: "mem_entry set \<Rightarrow> presence_update option \<Rightarrow> bool" where
  "best_active E a \<longleftrightarrow>
     (let F = {e \<in> E. isFocused (presence e)}; C = (if F = {} then E else F)
      in case a of
           None \<Rightarrow> E = {}
         | Some p \<Rightarrow> \<exists>e \<in> C. presence e = p \<and> (\<forall>e' \<in> C. rank (F \<noteq> {}) e' \<le> rank (F \<noteq> {}) e))"

lemma max_by_in: "max_by key b xs \<in> insert b (set xs)"
  by (induction xs arbitrary: b) auto

lemma max_by_ge: "x \<in> insert b (set xs) \<Longrightarrow> key x \<le> key (max_by key b xs)"
proof (induction xs arbitrary: b x)
  case (Cons y ys)
  let ?b = "if key b < key y then y else b"
  have "key ?b \<le> key (max_by key ?b ys)" by (rule Cons.IH) simp
  moreover have "key b \<le> key ?b" "key y \<le> key ?b" by auto
  ultimately show ?case using Cons.IH [of x ?b] Cons.prems by (auto intro: order_trans)
qed simp

lemma set_focused_entries: "set (focused_entries es) = {e \<in> set es. isFocused (presence e)}"
  by (auto simp: focused_entries_def)

lemma focused_entries_Nil: "focused_entries es = [] \<longleftrightarrow> {e \<in> set es. isFocused (presence e)} = {}"
  by (auto simp: focused_entries_def filter_empty_conv)

lemma best_active_max:
  assumes "candidates es = c # cs"
  shows "best_active (set es) (Some (presence (max_by (rank (focused_entries es \<noteq> [])) c cs)))"
proof -
  let ?F = "{e \<in> set es. isFocused (presence e)}"
  let ?m = "max_by (rank (focused_entries es \<noteq> [])) c cs"
  have C: "(if ?F = {} then set es else ?F) = set (c # cs)"
    using assms set_focused_entries [of es] focused_entries_Nil [of es]
    by (auto simp: candidates_def split: if_splits)
  have "?m \<in> set (c # cs)" using max_by_in [of _ c cs] by simp
  moreover have "\<forall>e \<in> set (c # cs). rank (?F \<noteq> {}) e \<le> rank (?F \<noteq> {}) ?m"
    using max_by_ge [of _ c cs "rank (focused_entries es \<noteq> [])"] focused_entries_Nil [of es] by simp
  ultimately show ?thesis unfolding best_active_def Let_def C by auto
qed

lemma candidates_Nil: "candidates es = [] \<longleftrightarrow> es = []"
  by (auto simp: candidates_def focused_entries_def)

lemma best_active_empty [simp]: "best_active {} None"
  by (simp add: best_active_def)

text \<open>Two choices have the same rank; they are the same presence unless one client has written two different entries at the same instant.\<close>

lemma best_active_Some:
  assumes "best_active E (Some p)"
  shows "\<exists>e \<in> E. presence e = p \<and> isFocused p = (\<exists>x \<in> E. isFocused (presence x)) \<and>
    (\<forall>x \<in> E. isFocused (presence x) = isFocused p \<longrightarrow> rank (isFocused p) x \<le> rank (isFocused p) e)"
proof (cases "\<exists>x \<in> E. isFocused (presence x)")
  case True
  then have F: "({e \<in> E. isFocused (presence e)} = {}) = False" by blast
  from assms obtain e where "e \<in> E" "isFocused (presence e)" "presence e = p"
    "\<forall>x \<in> {e \<in> E. isFocused (presence e)}. rank True x \<le> rank True e"
    unfolding best_active_def Let_def option.case F if_False not_False_eq_True by blast
  then show ?thesis by (intro bexI [of _ e]) auto
next
  case False
  then have "{e \<in> E. isFocused (presence e)} = {}" by blast
  then show ?thesis using assms False by (auto simp: best_active_def Let_def)
qed

lemma best_active_same_rank:
  assumes "best_active E (Some p)" "best_active E (Some q)"
  shows "\<exists>e \<in> E. \<exists>e' \<in> E. presence e = p \<and> presence e' = q \<and> isFocused p = isFocused q \<and> rank (isFocused p) e = rank (isFocused p) e'"
proof -
  from best_active_Some [OF assms(1)] obtain e where e: "e \<in> E" "presence e = p" "isFocused p = (\<exists>x \<in> E. isFocused (presence x))"
    "\<forall>x \<in> E. isFocused (presence x) = isFocused p \<longrightarrow> rank (isFocused p) x \<le> rank (isFocused p) e" by blast
  from best_active_Some [OF assms(2)] obtain e' where e': "e' \<in> E" "presence e' = q" "isFocused q = (\<exists>x \<in> E. isFocused (presence x))"
    "\<forall>x \<in> E. isFocused (presence x) = isFocused q \<longrightarrow> rank (isFocused q) x \<le> rank (isFocused q) e'" by blast
  have f: "isFocused p = isFocused q" using e(3) e'(3) by (rule trans [OF _ sym])
  have "rank (isFocused p) e = rank (isFocused p) e'"
    by (rule antisym) (use e(1,2,4) e'(1,2,4) f in simp_all)
  then show ?thesis using e(1,2) e'(1,2) f by blast
qed

definition one_write_per_instant :: "mem_entry set \<Rightarrow> bool" where
  "one_write_per_instant E \<longleftrightarrow>
     (\<forall>e \<in> E. \<forall>e' \<in> E. clientId (presence e) = clientId (presence e') \<and> updated_at e = updated_at e' \<longrightarrow> presence e = presence e')"

lemma best_active_unique:
  assumes "best_active E a" "best_active E b" "one_write_per_instant E"
  shows "a = b"
proof (cases "a = None \<or> b = None")
  case True
  then have "E = {}" using assms(1,2) by (auto simp: best_active_def)
  then show ?thesis using assms(1,2) by (auto simp: best_active_def split: option.splits)
next
  case False
  then obtain p q where pq: "a = Some p" "b = Some q" by auto
  from best_active_same_rank [of E p q] assms(1,2) pq obtain e e' where
    "e \<in> E" "e' \<in> E" "presence e = p" "presence e' = q" "rank (isFocused p) e = rank (isFocused p) e'" by blast
  then show ?thesis using assms(3) pq by (fastforce simp: one_write_per_instant_def rank_def split: if_splits)
qed

lemma best_active_same_client:
  assumes "best_active E a" "best_active E b"
  shows "map_option (\<lambda>p. (isFocused p, clientId p)) a = map_option (\<lambda>p. (isFocused p, clientId p)) b"
proof (cases "a = None \<or> b = None")
  case True
  then have "E = {}" using assms by (auto simp: best_active_def)
  then show ?thesis using assms by (auto simp: best_active_def split: option.splits)
next
  case False
  then obtain p q where "a = Some p" "b = Some q" by auto
  with best_active_same_rank [of E p q] assms show ?thesis by (auto simp: rank_def)
qed

subsection \<open>The PresenceStore protocol\<close>

record 's presence_ops =
  op_update :: "'s \<Rightarrow> string \<Rightarrow> string \<Rightarrow> presence_update \<Rightarrow> rat \<Rightarrow> presence_state \<times> 's"
  op_clear :: "'s \<Rightarrow> string \<Rightarrow> string \<Rightarrow> rat \<Rightarrow> presence_state \<times> 's"
  op_subscribe :: "'s \<Rightarrow> string \<Rightarrow> string \<Rightarrow> rat \<Rightarrow> presence_state \<times> 's"
  op_state :: "'s \<Rightarrow> string \<Rightarrow> rat \<Rightarrow> presence_state \<times> 's"
  op_disconnect :: "'s \<Rightarrow> string \<Rightarrow> string \<Rightarrow> rat \<Rightarrow> presence_state option \<times> 's"
  op_expire :: "'s \<Rightarrow> rat \<Rightarrow> presence_expiry list \<times> 's"

text \<open>
  One call on a store, and the store after it. The socket service makes only these calls.
\<close>

datatype store_call =
    CUpdate string string presence_update
  | CClear string string
  | CSubscribe string string
  | CState string
  | CDisconnect string string
  | CExpire

fun run_call :: "'s presence_ops \<Rightarrow> 's \<Rightarrow> rat \<Rightarrow> store_call \<Rightarrow> 's" where
  "run_call ops s now (CUpdate u sid p) = snd (op_update ops s u sid p now)"
| "run_call ops s now (CClear u sid) = snd (op_clear ops s u sid now)"
| "run_call ops s now (CSubscribe u sid) = snd (op_subscribe ops s u sid now)"
| "run_call ops s now (CState u) = snd (op_state ops s u now)"
| "run_call ops s now (CDisconnect u sid) = snd (op_disconnect ops s u sid now)"
| "run_call ops s now CExpire = snd (op_expire ops s now)"

fun run_calls :: "'s presence_ops \<Rightarrow> 's \<Rightarrow> (rat \<times> store_call) list \<Rightarrow> 's" where
  "run_calls ops s [] = s"
| "run_calls ops s ((now, c) # cs) = run_calls ops (run_call ops s now c) cs"

text \<open>The states a call hands back, each with the user it is about: what the service emits.\<close>

fun call_emits :: "'s presence_ops \<Rightarrow> 's \<Rightarrow> rat \<Rightarrow> store_call \<Rightarrow> (string \<times> presence_state) list" where
  "call_emits ops s now (CUpdate u sid p) = [(u, fst (op_update ops s u sid p now))]"
| "call_emits ops s now (CClear u sid) = [(u, fst (op_clear ops s u sid now))]"
| "call_emits ops s now (CSubscribe u sid) = [(u, fst (op_subscribe ops s u sid now))]"
| "call_emits ops s now (CState u) = []"
| "call_emits ops s now (CDisconnect u sid) =
     (case fst (op_disconnect ops s u sid now) of None \<Rightarrow> [] | Some st \<Rightarrow> [(u, st)])"
| "call_emits ops s now CExpire = map (\<lambda>c. (pe_user_id c, pe_state c)) (fst (op_expire ops s now))"

text \<open>The user is watched after every call of a sequence.\<close>

fun stays_watched ::
  "'s presence_ops \<Rightarrow> ('s \<Rightarrow> rat \<Rightarrow> string \<Rightarrow> bool) \<Rightarrow> 's \<Rightarrow> string \<Rightarrow> (rat \<times> store_call) list \<Rightarrow> bool" where
  "stays_watched ops watched s u [] = True"
| "stays_watched ops watched s u ((now, c) # cs) =
     (watched (run_call ops s now c) now u \<and> stays_watched ops watched (run_call ops s now c) u cs)"

text \<open>What the service guarantees of a call: the clock and the focus time are not negative.\<close>

definition call_ok :: "rat \<Rightarrow> store_call \<Rightarrow> bool" where
  "call_ok now c \<longleftrightarrow> 0 \<le> now \<and> (case c of CUpdate u sid p \<Rightarrow> 0 \<le> focusedAt p | _ \<Rightarrow> True)"

text \<open>
  The contract. \<open>vis s now u\<close> is the map from socket ids to the entries of user \<open>u\<close> that have
  not expired at \<open>now\<close>, \<open>rv s u\<close> the user's revision, \<open>watched s now u\<close> whether a subscription
  of \<open>u\<close> is still valid at \<open>now\<close>. An update is visible and advances the revision by one, a
  read reports a best entry among the visible ones, and no call lowers the revision of a user
  that is watched after it or hands back a state newer than that.
\<close>

locale presence_store =
  fixes ops :: "'s presence_ops"
    and inv :: "'s \<Rightarrow> bool"
    and vis :: "'s \<Rightarrow> rat \<Rightarrow> string \<Rightarrow> string \<rightharpoonup> mem_entry"
    and rv :: "'s \<Rightarrow> string \<Rightarrow> nat"
    and watched :: "'s \<Rightarrow> rat \<Rightarrow> string \<Rightarrow> bool"
    and ttl :: rat
  assumes call_inv: "inv s \<Longrightarrow> call_ok now c \<Longrightarrow> inv (run_call ops s now c)"
    and update_vis: "inv s \<Longrightarrow> vis (snd (op_update ops s u sid p now)) now u =
      (vis s now u)(sid \<mapsto> \<lparr>presence = p, updated_at = now, expires_at = now + ttl\<rparr>)"
    and update_rev: "inv s \<Longrightarrow> rv (snd (op_update ops s u sid p now)) u = rv s u + 1"
    and update_result: "inv s \<Longrightarrow> revision (fst (op_update ops s u sid p now)) = rv s u + 1"
    and update_active: "inv s \<Longrightarrow> call_ok now (CUpdate u sid p) \<Longrightarrow>
      best_active (ran (vis (snd (op_update ops s u sid p now)) now u)) (ps_active (fst (op_update ops s u sid p now)))"
    and clear_vis: "inv s \<Longrightarrow> vis (snd (op_clear ops s u sid now)) now u = (vis s now u)(sid := None)"
    and state_rev: "inv s \<Longrightarrow> revision (fst (op_state ops s u now)) = rv s u"
    and state_active: "inv s \<Longrightarrow> best_active (ran (vis s now u)) (ps_active (fst (op_state ops s u now)))"
    and state_vis: "inv s \<Longrightarrow> vis (snd (op_state ops s u now)) now v = vis s now v"
    and subscribe_watched: "inv s \<Longrightarrow> watched (snd (op_subscribe ops s u sid now)) now u"
    and subscribe_result: "inv s \<Longrightarrow> revision (fst (op_subscribe ops s u sid now)) = rv s u"
    and disconnect_vis: "inv s \<Longrightarrow> vis (snd (op_disconnect ops s u sid now)) now u = (vis s now u)(sid := None)"
    and expire_vis: "inv s \<Longrightarrow> vis (snd (op_expire ops s now)) now u = vis s now u"
    and emits_rev: "inv s \<Longrightarrow> watched (run_call ops s now c) now u \<Longrightarrow> (u, st) \<in> set (call_emits ops s now c) \<Longrightarrow>
      revision st \<le> rv (run_call ops s now c) u"
    and watched_rev: "inv s \<Longrightarrow> watched (run_call ops s now c) now u \<Longrightarrow> rv s u \<le> rv (run_call ops s now c) u"
begin

lemma calls_inv: "inv s \<Longrightarrow> \<forall>(now, c) \<in> set cs. call_ok now c \<Longrightarrow> inv (run_calls ops s cs)"
  by (induction cs arbitrary: s) (auto simp: call_inv)

text \<open>Along any sequence of calls after each of which the user is watched, revisions never fall.\<close>

lemma calls_rev_mono:
  "inv s \<Longrightarrow> \<forall>(now, c) \<in> set cs. call_ok now c \<Longrightarrow> stays_watched ops watched s u cs \<Longrightarrow> rv s u \<le> rv (run_calls ops s cs) u"
proof (induction cs arbitrary: s)
  case (Cons x cs)
  obtain now c where x: "x = (now, c)" by force
  let ?s = "run_call ops s now c"
  have "rv s u \<le> rv ?s u" using Cons.prems x by (intro watched_rev) auto
  also have "\<dots> \<le> rv (run_calls ops ?s cs) u" using Cons x by (auto intro: call_inv)
  finally show ?case using x by simp
qed simp

text \<open>A read right after an update shows the revision of that update.\<close>

lemma update_then_state:
  assumes "inv s" and "call_ok now (CUpdate u sid p)"
  shows "revision (fst (op_state ops (snd (op_update ops s u sid p now)) u now')) = revision (fst (op_update ops s u sid p now))"
proof -
  have "inv (run_call ops s now (CUpdate u sid p))" using assms by (rule call_inv)
  then show ?thesis using assms by (simp add: state_rev update_rev update_result)
qed

end

subsection \<open>The validator accepts only well-formed payloads\<close>

lemma validate_fields_ConsE:
  assumes "validate_fields clears data ((g, lim') # rest) = Inr vs"
  obtains x ws where "validate_fields clears data rest = Inr ws" "vs = (g, x) # ws"
    "if clears \<and> g \<in> {''chatId'', ''chatTitle''} then x = None
     else \<exists>v. pget data g = PStr v \<and> x = Some v \<and> length v \<le> lim' \<and> (g \<in> {''clientId'', ''chatId''} \<longrightarrow> v \<noteq> [])"
  using assms by (auto simp: rbind_Inr_iff split: if_splits option.splits)

text \<open>What the value of field \<open>f\<close> with limit \<open>n\<close> is after validation.\<close>

definition field_valid :: "bool \<Rightarrow> (string \<times> pyval) list \<Rightarrow> (string \<times> string option) list \<Rightarrow> string \<Rightarrow> nat \<Rightarrow> bool" where
  "field_valid clears data vs f n \<longleftrightarrow>
     (if clears \<and> f \<in> {''chatId'', ''chatTitle''} then map_of vs f = Some None
      else \<exists>v. pget data f = PStr v \<and> map_of vs f = Some (Some v) \<and> length v \<le> n \<and>
               (f \<in> {''clientId'', ''chatId''} \<longrightarrow> v \<noteq> []))"

lemma validate_fields_values:
  "validate_fields clears data fs = Inr vs \<Longrightarrow> distinct (map fst fs) \<Longrightarrow> (f, n) \<in> set fs \<Longrightarrow>
   field_valid clears data vs f n"
proof (induction fs arbitrary: vs)
  case (Cons p rest)
  obtain g lim' where p: "p = (g, lim')" by force
  from Cons.prems(1) [unfolded p] show ?case
  proof (rule validate_fields_ConsE)
    fix x ws
    assume rest: "validate_fields clears data rest = Inr ws" and vs: "vs = (g, x) # ws"
      and x: "if clears \<and> g \<in> {''chatId'', ''chatTitle''} then x = None
        else \<exists>v. pget data g = PStr v \<and> x = Some v \<and> length v \<le> lim' \<and> (g \<in> {''clientId'', ''chatId''} \<longrightarrow> v \<noteq> [])"
    show ?thesis
    proof (cases "f = g")
      case True
      then have "n = lim'" using Cons.prems(2,3) p by (auto simp: rev_image_eqI)
      with True x vs show ?thesis by (auto simp: field_valid_def split: if_splits)
    next
      case False
      then have "field_valid clears data ws f n" using Cons rest p by auto
      moreover have "map_of vs f = map_of ws f" using False vs by simp
      ultimately show ?thesis by (simp only: field_valid_def)
    qed
  qed
qed simp

lemma focused_at_number_nonneg: "focused_at_number v = Inr r \<Longrightarrow> 0 \<le> r"
  by (auto simp: focused_at_number_def split: pyval.splits pyfloat.splits if_splits)

text \<open>C22: A payload the validator accepts is well formed: the client id is non-empty, every
  text field respects its limit, the focus time is finite and not negative, and the chat id
  and title are given together or cleared together.\<close>

theorem validate_presence_sound:
  assumes "validate_presence_update v = Inr p"
  shows "presence_ok p"
proof -
  obtain data vs f c t where vs: "validate_fields c data FIELD_LIMITS = Inr vs"
    and t: "focused_at_number (pget data ''focusedAt'') = Inr t"
    and p: "p = \<lparr>clientId = field_str vs ''clientId'', chatId = field_opt vs ''chatId'',
       chatTitle = field_opt vs ''chatTitle'', deviceLabel = field_str vs ''deviceLabel'', isFocused = f,
       focusedAt = t\<rparr>"
    using assms
    by (auto simp: validate_presence_update_def Let_def rbind_Inr_iff split: option.splits if_splits list.splits)
  have valid: "(g, n) \<in> set FIELD_LIMITS \<Longrightarrow> field_valid c data vs g n" for g n
    using vs by (rule validate_fields_values) (simp add: FIELD_LIMITS_def)
  note fs = valid [of "''clientId''" 128] valid [of "''chatId''" 128] valid [of "''chatTitle''" 512]
    valid [of "''deviceLabel''" 128]
  show ?thesis
    using fs focused_at_number_nonneg [OF t]
    by (auto simp: p presence_ok_def field_valid_def field_str_def field_opt_def FIELD_LIMITS_def
        split: if_splits)
qed

definition sample_payload :: "pyval \<Rightarrow> pyval" where
  "sample_payload t = PDict [(''clientId'', PStr ''c1''), (''chatId'', PStr ''x''), (''chatTitle'', PStr ''T''),
     (''deviceLabel'', PStr ''L''), (''isFocused'', PBool True), (''focusedAt'', t)]"

theorem validate_presence_sound_witness:
  "presence_ok \<lparr>clientId = ''c1'', chatId = Some ''x'', chatTitle = Some ''T'', deviceLabel = ''L'',
     isFocused = True, focusedAt = 5\<rparr>"
proof (rule validate_presence_sound)
  show "validate_presence_update (sample_payload (PInt 5)) = Inr \<lparr>clientId = ''c1'', chatId = Some ''x'',
     chatTitle = Some ''T'', deviceLabel = ''L'', isFocused = True, focusedAt = 5\<rparr>"
    by (simp add: validate_presence_update_def sample_payload_def PRESENCE_FIELDS_def FIELD_LIMITS_def
        focused_at_number_def float_overflow_def field_str_def field_opt_def)
qed

text \<open>The validator does not turn every bad payload into \<open>ValueError\<close>: an integer focus time
  from half an ulp above the largest double on makes \<open>math.isfinite\<close> raise
  \<open>OverflowError\<close>, which the socket handler does not catch.\<close>

theorem validate_presence_overflow:
  "validate_presence_update (sample_payload (PInt i)) = Inl OverflowError \<longleftrightarrow> float_overflow i"
  by (auto simp: validate_presence_update_def sample_payload_def PRESENCE_FIELDS_def FIELD_LIMITS_def
      focused_at_number_def field_str_def field_opt_def)

end
