(* ===== verification/Presence_Memory.thy ===== *)
theory Presence_Memory
  imports Presence_Data
begin

section \<open>The in-process presence store (class MemoryPresenceStore)\<close>

text \<open>
  The store of a single-worker server: three dictionaries keyed by user id. Every method runs
  under the store's \<open>asyncio.Lock\<close>, so each operation is one atomic step, a function from the
  store to its result and the new store. The locale \<open>presence_store\<close> states what the socket
  service may rely on; \<open>mempres\<close> interprets it on these operations.
\<close>

definition PRESENCE_TTL_SECONDS :: rat where
  "PRESENCE_TTL_SECONDS = 30"

record mem_presence =
  mp_entries :: "(string, (string, mem_entry) dict) dict"
  mp_revisions :: "(string, nat) dict"
  mp_subscribers :: "(string, (string, rat) dict) dict"

definition mem_presence_init :: mem_presence where
  "mem_presence_init = \<lparr>mp_entries = [], mp_revisions = [], mp_subscribers = []\<rparr>"

text \<open>\<open>d.get(u, {})\<close>, and a \<open>defaultdict\<close> read that is followed by a write.\<close>

definition getd :: "(string, 'a list) dict \<Rightarrow> string \<Rightarrow> 'a list" where
  "getd d u = (case map_of d u of None \<Rightarrow> [] | Some x \<Rightarrow> x)"

definition rev_of :: "mem_presence \<Rightarrow> string \<Rightarrow> nat" where
  "rev_of s u = (case map_of (mp_revisions s) u of None \<Rightarrow> 0 | Some n \<Rightarrow> n)"

definition active_of :: "(string, mem_entry) dict \<Rightarrow> presence_update option" where
  "active_of entries = (case candidates (map snd entries) of
      [] \<Rightarrow> None
    | c # cs \<Rightarrow> Some (presence (max_by (rank (focused_entries (map snd entries) \<noteq> [])) c cs)))"

definition state_of :: "mem_presence \<Rightarrow> string \<Rightarrow> presence_state" where
  "state_of s u = \<lparr>ps_active = active_of (getd (mp_entries s) u), revision = rev_of s u\<rparr>"

definition drop_idle_user :: "mem_presence \<Rightarrow> string \<Rightarrow> mem_presence" where
  "drop_idle_user s u =
     (if getd (mp_entries s) u \<noteq> [] \<or> getd (mp_subscribers s) u \<noteq> [] then s
      else \<lparr>mp_entries = AList.delete u (mp_entries s), mp_revisions = AList.delete u (mp_revisions s),
            mp_subscribers = AList.delete u (mp_subscribers s)\<rparr>)"

definition prune_subscribers :: "mem_presence \<Rightarrow> string \<Rightarrow> rat \<Rightarrow> mem_presence" where
  "prune_subscribers s u now =
     (if getd (mp_subscribers s) u = [] then s
      else s\<lparr>mp_subscribers :=
        AList.update u (filter (\<lambda>(sid, exp). \<not> exp \<le> now) (getd (mp_subscribers s) u)) (mp_subscribers s)\<rparr>)"

definition bump_revision :: "mem_presence \<Rightarrow> string \<Rightarrow> mem_presence" where
  "bump_revision s u = s\<lparr>mp_revisions := AList.update u (rev_of s u + 1) (mp_revisions s)\<rparr>"

definition fresh_entries :: "rat \<Rightarrow> (string, mem_entry) dict \<Rightarrow> (string, mem_entry) dict" where
  "fresh_entries now es = filter (\<lambda>(sid, e). \<not> expires_at e \<le> now) es"

definition mem_update ::
  "mem_presence \<Rightarrow> string \<Rightarrow> string \<Rightarrow> presence_update \<Rightarrow> rat \<Rightarrow> presence_state \<times> mem_presence" where
  "mem_update s u sid p now =
     (let entries = AList.update sid \<lparr>presence = p, updated_at = now, expires_at = now + PRESENCE_TTL_SECONDS\<rparr>
            (fresh_entries now (getd (mp_entries s) u));
          s1 = bump_revision (s\<lparr>mp_entries := AList.update u entries (mp_entries s)\<rparr>) u
      in (state_of s1 u, s1))"

text \<open>\<open>del entries[sid]; self._revisions[user_id] += 1\<close> when the entry exists.\<close>

definition remove_entry :: "mem_presence \<Rightarrow> string \<Rightarrow> string \<Rightarrow> mem_presence" where
  "remove_entry s u sid =
     (if has_key (getd (mp_entries s) u) sid then
        bump_revision (s\<lparr>mp_entries := AList.update u (AList.delete sid (getd (mp_entries s) u)) (mp_entries s)\<rparr>) u
      else s)"

definition mem_clear :: "mem_presence \<Rightarrow> string \<Rightarrow> string \<Rightarrow> rat \<Rightarrow> presence_state \<times> mem_presence" where
  "mem_clear s u sid now =
     (let s1 = remove_entry (prune_subscribers s u now) u sid
      in (state_of s1 u, drop_idle_user s1 u))"

definition visible_state :: "mem_presence \<Rightarrow> string \<Rightarrow> rat \<Rightarrow> presence_state" where
  "visible_state s u now =
     \<lparr>ps_active = active_of (fresh_entries now (getd (mp_entries s) u)), revision = rev_of s u\<rparr>"

definition mem_subscribe :: "mem_presence \<Rightarrow> string \<Rightarrow> string \<Rightarrow> rat \<Rightarrow> presence_state \<times> mem_presence" where
  "mem_subscribe s u sid now =
     (let s1 = prune_subscribers s u now;
          s2 = s1\<lparr>mp_subscribers :=
            AList.update u (AList.update sid (now + PRESENCE_TTL_SECONDS) (getd (mp_subscribers s1) u)) (mp_subscribers s1)\<rparr>
      in (visible_state s2 u now, s2))"

definition mem_state :: "mem_presence \<Rightarrow> string \<Rightarrow> rat \<Rightarrow> presence_state \<times> mem_presence" where
  "mem_state s u now =
     (let s1 = prune_subscribers s u now in (visible_state s1 u now, drop_idle_user s1 u))"

definition mem_disconnect ::
  "mem_presence \<Rightarrow> string \<Rightarrow> string \<Rightarrow> rat \<Rightarrow> presence_state option \<times> mem_presence" where
  "mem_disconnect s u sid now =
     (let s1 = prune_subscribers s u now;
          had_entry = has_key (getd (mp_entries s1) u) sid;
          s2 = remove_entry s1 u sid;
          s3 = (if getd (mp_subscribers s2) u = [] then s2
                else s2\<lparr>mp_subscribers :=
                  AList.update u (AList.delete sid (getd (mp_subscribers s2) u)) (mp_subscribers s2)\<rparr>)
      in (if had_entry then Some (state_of s3 u) else None, drop_idle_user s3 u))"

text \<open>The body of the loop of \<open>expire\<close>.\<close>

definition mem_expire_user :: "mem_presence \<Rightarrow> string \<Rightarrow> rat \<Rightarrow> presence_expiry list \<times> mem_presence" where
  "mem_expire_user s u now =
     (let s1 = prune_subscribers s u now;
          entries = getd (mp_entries s1) u;
          stale = filter (\<lambda>(sid, e). expires_at e \<le> now) entries
      in if stale \<noteq> [] then
           (let s2 = bump_revision (s1\<lparr>mp_entries := AList.update u (fresh_entries now entries) (mp_entries s1)\<rparr>) u
            in ([\<lparr>pe_user_id = u, pe_state = state_of s2 u\<rparr>], drop_idle_user s2 u))
         else ([], drop_idle_user s1 u))"

fun mem_expire_users :: "mem_presence \<Rightarrow> string list \<Rightarrow> rat \<Rightarrow> presence_expiry list \<times> mem_presence" where
  "mem_expire_users s [] now = ([], s)"
| "mem_expire_users s (u # us) now =
     (let (c, s1) = mem_expire_user s u now; (cs, s2) = mem_expire_users s1 us now in (c @ cs, s2))"

definition mem_expire :: "mem_presence \<Rightarrow> rat \<Rightarrow> presence_expiry list \<times> mem_presence" where
  "mem_expire s now = mem_expire_users s (remdups (map fst (mp_entries s) @ map fst (mp_subscribers s))) now"

definition mem_ops :: "mem_presence presence_ops" where
  "mem_ops = \<lparr>op_update = mem_update, op_clear = mem_clear, op_subscribe = mem_subscribe, op_state = mem_state,
     op_disconnect = mem_disconnect, op_expire = mem_expire\<rparr>"

subsection \<open>Invariant and views\<close>

definition mem_inv :: "mem_presence \<Rightarrow> bool" where
  "mem_inv s \<longleftrightarrow> (\<forall>u. dict_ok (getd (mp_entries s) u)) \<and> (\<forall>u. dict_ok (getd (mp_subscribers s) u))"

text \<open>The unexpired entries of a user, and whether an unexpired subscriber watches the user.\<close>

definition mem_vis :: "mem_presence \<Rightarrow> rat \<Rightarrow> string \<Rightarrow> string \<rightharpoonup> mem_entry" where
  "mem_vis s now u = map_of (fresh_entries now (getd (mp_entries s) u))"

definition mem_watched :: "mem_presence \<Rightarrow> rat \<Rightarrow> string \<Rightarrow> bool" where
  "mem_watched s now u \<longleftrightarrow> (\<exists>(sid, exp) \<in> set (getd (mp_subscribers s) u). now < exp)"

lemma getd_simps [simp]:
  "getd (AList.update u x d) v = (if u = v then x else getd d v)"
  "getd (AList.delete u d) v = (if u = v then [] else getd d v)"
  by (auto simp: getd_def)

lemma rev_of_bump [simp]: "rev_of (bump_revision s u) v = (if u = v then rev_of s u + 1 else rev_of s v)"
  by (auto simp: rev_of_def bump_revision_def)

lemma bump_revision_fields [simp]:
  "mp_entries (bump_revision s u) = mp_entries s" "mp_subscribers (bump_revision s u) = mp_subscribers s"
  by (simp_all add: bump_revision_def)

lemma rev_of_frame [simp]:
  "rev_of (s\<lparr>mp_entries := x\<rparr>) u = rev_of s u" "rev_of (s\<lparr>mp_subscribers := y\<rparr>) u = rev_of s u"
  by (simp_all add: rev_of_def)

lemma dict_ok_fresh [simp]: "dict_ok es \<Longrightarrow> dict_ok (fresh_entries now es)"
  by (simp add: fresh_entries_def)

lemma fresh_fresh [simp]: "fresh_entries now (fresh_entries now es) = fresh_entries now es"
  by (simp add: fresh_entries_def)

lemma map_of_fresh:
  "dict_ok es \<Longrightarrow>
   map_of (fresh_entries now es) sid = (case map_of es sid of None \<Rightarrow> None | Some e \<Rightarrow> if now < expires_at e then Some e else None)"
  by (auto simp: fresh_entries_def map_of_filter_dict split: option.splits)

lemma ran_map_of_dict: "dict_ok d \<Longrightarrow> ran (map_of d) = snd ` set d"
  by (simp add: dict_ok_def ran_map_of ran_distinct)

lemma active_of_best: "dict_ok es \<Longrightarrow> best_active (ran (map_of es)) (active_of es)"
proof (cases "candidates (map snd es)")
  case Nil
  then have "es = []" by (simp add: candidates_Nil)
  with Nil show ?thesis by (simp add: active_of_def)
next
  case (Cons c cs)
  assume "dict_ok es"
  with best_active_max [OF Cons] Cons show ?thesis by (simp add: active_of_def ran_map_of_dict)
qed

text \<open>Dropping an idle user changes no view but the revision of that unwatched user.\<close>

lemma drop_idle_user_frame:
  "getd (mp_entries (drop_idle_user s u)) v = getd (mp_entries s) v"
  "getd (mp_subscribers (drop_idle_user s u)) v = getd (mp_subscribers s) v"
  "v \<noteq> u \<Longrightarrow> rev_of (drop_idle_user s u) v = rev_of s v"
  "getd (mp_subscribers s) u \<noteq> [] \<or> getd (mp_entries s) u \<noteq> [] \<Longrightarrow> rev_of (drop_idle_user s u) u = rev_of s u"
  by (auto simp: drop_idle_user_def rev_of_def)

lemma prune_subscribers_frame:
  "mp_entries (prune_subscribers s u now) = mp_entries s"
  "rev_of (prune_subscribers s u now) v = rev_of s v"
  "getd (mp_subscribers (prune_subscribers s u now)) v =
     (if v = u then filter (\<lambda>(sid, exp). \<not> exp \<le> now) (getd (mp_subscribers s) u) else getd (mp_subscribers s) v)"
  by (auto simp: prune_subscribers_def)

lemma remove_entry_frame:
  "getd (mp_entries (remove_entry s u sid)) v = (if v = u then AList.delete sid (getd (mp_entries s) u) else getd (mp_entries s) v)"
  "mp_subscribers (remove_entry s u sid) = mp_subscribers s"
  "rev_of (remove_entry s u sid) v = (if v = u \<and> has_key (getd (mp_entries s) u) sid then rev_of s u + 1 else rev_of s v)"
  by (auto simp: remove_entry_def has_key_iff delete_idem)

lemmas mem_frames = drop_idle_user_frame prune_subscribers_frame remove_entry_frame


subsection \<open>The contract holds\<close>

lemma mem_update_laws:
  assumes "mem_inv s"
  shows "mem_inv (snd (mem_update s u sid p now))"
    "mem_vis (snd (mem_update s u sid p now)) now u =
       (mem_vis s now u)(sid \<mapsto> \<lparr>presence = p, updated_at = now, expires_at = now + PRESENCE_TTL_SECONDS\<rparr>)"
    "rev_of (snd (mem_update s u sid p now)) u = rev_of s u + 1"
    "revision (fst (mem_update s u sid p now)) = rev_of s u + 1"
    "best_active (ran (mem_vis (snd (mem_update s u sid p now)) now u)) (ps_active (fst (mem_update s u sid p now)))"
proof -
  let ?e = "\<lparr>presence = p, updated_at = now, expires_at = now + PRESENCE_TTL_SECONDS\<rparr>"
  let ?es = "AList.update sid ?e (fresh_entries now (getd (mp_entries s) u))"
  have ok: "dict_ok (getd (mp_entries s) u)" using assms by (simp add: mem_inv_def)
  have fresh: "fresh_entries now ?es = ?es"
    unfolding fresh_entries_def [of now ?es] filter_id_conv
    using ok by (auto simp: set_update_dict fresh_entries_def PRESENCE_TTL_SECONDS_def)
  show "mem_inv (snd (mem_update s u sid p now))"
    using assms ok by (auto simp: mem_update_def mem_inv_def Let_def)
  show vis: "mem_vis (snd (mem_update s u sid p now)) now u = (mem_vis s now u)(sid \<mapsto> ?e)"
    using fresh by (simp add: mem_update_def mem_vis_def Let_def)
  show "best_active (ran (mem_vis (snd (mem_update s u sid p now)) now u)) (ps_active (fst (mem_update s u sid p now)))"
    using active_of_best [of ?es] ok fresh
    by (simp add: mem_update_def mem_vis_def Let_def state_of_def)
qed (simp_all add: mem_update_def Let_def state_of_def)

lemma getd_set_entries [simp]: "getd (mp_entries (s\<lparr>mp_entries := x\<rparr>)) v = getd x v"
  by simp

lemma mem_inv_step:
  assumes "mem_inv s"
  shows "mem_inv (drop_idle_user s u)" "mem_inv (prune_subscribers s u now)" "mem_inv (remove_entry s u sid)"
    "mem_inv (bump_revision s u)"
  using assms by (auto simp: mem_inv_def mem_frames)

lemma mem_vis_drop [simp]: "mem_vis (drop_idle_user s u) t v = mem_vis s t v"
  by (simp add: mem_vis_def mem_frames)

lemma mem_vis_prune [simp]: "mem_vis (prune_subscribers s u now) t v = mem_vis s t v"
  by (simp add: mem_vis_def mem_frames)

lemma mem_vis_subscribers [simp]: "mem_vis (s\<lparr>mp_subscribers := x\<rparr>) t v = mem_vis s t v"
  by (simp add: mem_vis_def)

lemma mem_vis_bump [simp]: "mem_vis (bump_revision s u) t v = mem_vis s t v"
  by (simp add: mem_vis_def)

lemma mem_vis_remove:
  assumes "mem_inv s"
  shows "mem_vis (remove_entry s u sid) t v = (if v = u then (mem_vis s t u)(sid := None) else mem_vis s t v)"
proof -
  have "dict_ok (getd (mp_entries s) u)" using assms by (simp add: mem_inv_def)
  then show ?thesis by (auto simp: mem_vis_def mem_frames map_of_fresh fun_eq_iff split: option.splits)
qed

lemma visible_state_laws:
  assumes "mem_inv s"
  shows "revision (visible_state s u now) = rev_of s u"
    "best_active (ran (mem_vis s now u)) (ps_active (visible_state s u now))"
  using assms active_of_best [of "fresh_entries now (getd (mp_entries s) u)"]
  by (simp_all add: visible_state_def mem_vis_def mem_inv_def)

text \<open>A watched user is never dropped.\<close>

lemma mem_watched_nonempty: "mem_watched s now u \<Longrightarrow> getd (mp_subscribers s) u \<noteq> []"
  by (auto simp: mem_watched_def)

lemma rev_of_drop_watched: "mem_watched s now u \<Longrightarrow> rev_of (drop_idle_user s v) u = rev_of s u"
  by (cases "v = u") (auto simp: mem_frames dest: mem_watched_nonempty)

lemma mem_watched_drop [simp]: "mem_watched (drop_idle_user s u) t v = mem_watched s t v"
  by (simp add: mem_watched_def mem_frames)

lemma mem_watched_bump [simp]: "mem_watched (bump_revision s u) t v = mem_watched s t v"
  by (simp add: mem_watched_def)

lemma mem_watched_remove [simp]: "mem_watched (remove_entry s u sid) t v = mem_watched s t v"
  by (simp add: mem_watched_def mem_frames)

lemma mem_watched_entries [simp]: "mem_watched (s\<lparr>mp_entries := x\<rparr>) t v = mem_watched s t v"
  by (simp add: mem_watched_def)

lemma mem_watched_prune: "mem_watched (prune_subscribers s u now) now v = mem_watched s now v"
  by (auto simp: mem_watched_def mem_frames not_le)

lemma mem_clear_laws:
  assumes "mem_inv s"
  shows "mem_inv (snd (mem_clear s u sid now))"
    "mem_vis (snd (mem_clear s u sid now)) now u = (mem_vis s now u)(sid := None)"
    "mem_watched (snd (mem_clear s u sid now)) now v \<Longrightarrow> rev_of s v \<le> rev_of (snd (mem_clear s u sid now)) v"
  using assms
  by (auto simp: mem_clear_def Let_def mem_inv_step mem_vis_remove rev_of_drop_watched mem_frames)

lemma mem_subscribe_laws:
  assumes "mem_inv s"
  shows "mem_inv (snd (mem_subscribe s u sid now))"
    "mem_watched (snd (mem_subscribe s u sid now)) now u"
    "revision (fst (mem_subscribe s u sid now)) = rev_of s u"
    "rev_of (snd (mem_subscribe s u sid now)) v = rev_of s v"
proof -
  let ?d = "getd (mp_subscribers (prune_subscribers s u now)) u"
  have inv: "mem_inv (prune_subscribers s u now)" using assms by (rule mem_inv_step)
  then have ok: "dict_ok ?d" by (simp add: mem_inv_def)
  show "mem_inv (snd (mem_subscribe s u sid now))" using inv by (auto simp: mem_subscribe_def Let_def mem_inv_def)
  have "(sid, now + PRESENCE_TTL_SECONDS) \<in> set (AList.update sid (now + PRESENCE_TTL_SECONDS) ?d)"
    using ok by (simp add: set_update_dict)
  moreover have "now < now + PRESENCE_TTL_SECONDS" by (simp add: PRESENCE_TTL_SECONDS_def)
  ultimately show "mem_watched (snd (mem_subscribe s u sid now)) now u"
    by (auto simp: mem_subscribe_def Let_def mem_watched_def intro!: bexI [rotated])
qed (simp_all add: mem_subscribe_def Let_def visible_state_def mem_frames)

lemma mem_state_laws:
  assumes "mem_inv s"
  shows "mem_inv (snd (mem_state s u now))" "revision (fst (mem_state s u now)) = rev_of s u"
    "best_active (ran (mem_vis s now u)) (ps_active (fst (mem_state s u now)))"
    "mem_vis (snd (mem_state s u now)) now v = mem_vis s now v"
    "mem_watched (snd (mem_state s u now)) now v \<Longrightarrow> rev_of s v \<le> rev_of (snd (mem_state s u now)) v"
  using assms visible_state_laws [of "prune_subscribers s u now"]
  by (auto simp: mem_state_def Let_def mem_inv_step rev_of_drop_watched mem_frames)

lemma mem_disconnect_laws:
  assumes "mem_inv s"
  shows "mem_inv (snd (mem_disconnect s u sid now))"
    "mem_vis (snd (mem_disconnect s u sid now)) now u = (mem_vis s now u)(sid := None)"
    "mem_watched (snd (mem_disconnect s u sid now)) now v \<Longrightarrow> rev_of s v \<le> rev_of (snd (mem_disconnect s u sid now)) v"
proof -
  let ?s2 = "remove_entry (prune_subscribers s u now) u sid"
  have inv2: "mem_inv ?s2" using assms by (simp add: mem_inv_step)
  then show "mem_inv (snd (mem_disconnect s u sid now))"
    by (auto simp: mem_disconnect_def Let_def mem_inv_step mem_inv_def drop_idle_user_frame)
  show "mem_vis (snd (mem_disconnect s u sid now)) now u = (mem_vis s now u)(sid := None)"
    using assms by (auto simp: mem_disconnect_def Let_def mem_inv_step mem_vis_remove)
  show "rev_of s v \<le> rev_of (snd (mem_disconnect s u sid now)) v"
    if "mem_watched (snd (mem_disconnect s u sid now)) now v"
    using that by (auto simp: mem_disconnect_def Let_def rev_of_drop_watched mem_frames)
qed

lemma mem_expire_user_laws:
  assumes "mem_inv s"
  shows "mem_inv (snd (mem_expire_user s u now))"
    "mem_vis (snd (mem_expire_user s u now)) now v = mem_vis s now v"
    "mem_watched (snd (mem_expire_user s u now)) now v = mem_watched s now v"
    "mem_watched s now v \<Longrightarrow> rev_of s v \<le> rev_of (snd (mem_expire_user s u now)) v"
proof -
  let ?s1 = "prune_subscribers s u now"
  have inv1: "mem_inv ?s1" using assms by (rule mem_inv_step)
  let ?s2 = "bump_revision (?s1\<lparr>mp_entries := AList.update u (fresh_entries now (getd (mp_entries ?s1) u)) (mp_entries ?s1)\<rparr>) u"
  have inv2: "mem_inv ?s2" using inv1 by (auto simp: mem_inv_def)
  have w: "mem_watched ?s2 now v = mem_watched s now v" "mem_watched ?s1 now v = mem_watched s now v" for v
    by (simp_all add: mem_watched_prune)
  have vis: "mem_vis ?s2 now v = mem_vis s now v"
    by (simp add: mem_vis_def mem_frames)
  show "mem_inv (snd (mem_expire_user s u now))"
    using inv1 inv2 by (auto simp: mem_expire_user_def Let_def mem_inv_step)
  show "mem_vis (snd (mem_expire_user s u now)) now v = mem_vis s now v"
    using vis by (auto simp: mem_expire_user_def Let_def)
  show "mem_watched (snd (mem_expire_user s u now)) now v = mem_watched s now v"
    using w by (auto simp: mem_expire_user_def Let_def)
  show "rev_of s v \<le> rev_of (snd (mem_expire_user s u now)) v" if "mem_watched s now v"
    using that w rev_of_drop_watched [of ?s1 now v u] rev_of_drop_watched [of ?s2 now v u]
    by (auto simp: mem_expire_user_def Let_def mem_frames)
qed

lemma mem_expire_users_laws:
  assumes "mem_inv s"
  shows "mem_inv (snd (mem_expire_users s us now)) \<and>
    (\<forall>v. mem_vis (snd (mem_expire_users s us now)) now v = mem_vis s now v \<and>
         mem_watched (snd (mem_expire_users s us now)) now v = mem_watched s now v \<and>
         (mem_watched s now v \<longrightarrow> rev_of s v \<le> rev_of (snd (mem_expire_users s us now)) v))"
  using assms
proof (induction us arbitrary: s)
  case (Cons u us)
  let ?s1 = "snd (mem_expire_user s u now)"
  have laws: "mem_inv ?s1" "\<And>v. mem_vis ?s1 now v = mem_vis s now v"
    "\<And>v. mem_watched ?s1 now v = mem_watched s now v"
    "\<And>v. mem_watched s now v \<Longrightarrow> rev_of s v \<le> rev_of ?s1 v"
    using mem_expire_user_laws [OF Cons.prems] by auto
  from Cons.IH [OF laws(1)] laws show ?case
    by (auto simp: Let_def split_beta intro: order_trans [OF laws(4)])
qed simp

text \<open>No call hands back a state newer than the revision it leaves behind for a watched user.\<close>

lemma mem_clear_emits:
  "mem_watched (snd (mem_clear s u sid now)) now u \<Longrightarrow> revision (fst (mem_clear s u sid now)) = rev_of (snd (mem_clear s u sid now)) u"
  by (auto simp: mem_clear_def Let_def state_of_def rev_of_drop_watched [where now = now])

lemma mem_disconnect_emits:
  "mem_watched (snd (mem_disconnect s u sid now)) now u \<Longrightarrow> fst (mem_disconnect s u sid now) = Some st \<Longrightarrow>
   revision st = rev_of (snd (mem_disconnect s u sid now)) u"
  by (auto simp: mem_disconnect_def Let_def state_of_def rev_of_drop_watched [where now = now] split: if_splits)

lemma mem_expire_user_emits:
  assumes "mem_watched s now v" and "c \<in> set (fst (mem_expire_user s u now))" and "pe_user_id c = v"
  shows "revision (pe_state c) \<le> rev_of (snd (mem_expire_user s u now)) v"
  using assms by (auto simp: mem_expire_user_def Let_def state_of_def rev_of_drop_watched [where now = now] mem_watched_prune split: if_splits)

lemma mem_expire_users_emits:
  assumes "mem_inv s" and "mem_watched s now v" and "c \<in> set (fst (mem_expire_users s us now))" and "pe_user_id c = v"
  shows "revision (pe_state c) \<le> rev_of (snd (mem_expire_users s us now)) v"
  using assms
proof (induction us arbitrary: s)
  case (Cons u us)
  let ?s1 = "snd (mem_expire_user s u now)"
  have inv1: "mem_inv ?s1" and w1: "mem_watched ?s1 now v"
    using mem_expire_user_laws [OF Cons.prems(1), where u = u and now = now] Cons.prems(2) by simp_all
  have "revision (pe_state c) \<le> rev_of (snd (mem_expire_users ?s1 us now)) v"
  proof (cases "c \<in> set (fst (mem_expire_user s u now))")
    case True
    with Cons.prems have "revision (pe_state c) \<le> rev_of ?s1 v" by (intro mem_expire_user_emits)
    also have "\<dots> \<le> rev_of (snd (mem_expire_users ?s1 us now)) v"
      using mem_expire_users_laws [OF inv1, of us now] w1 by blast
    finally show ?thesis .
  next
    case False
    then have "c \<in> set (fst (mem_expire_users ?s1 us now))" using Cons.prems(3) by (simp add: split_beta Let_def)
    then show ?thesis using Cons.IH [OF inv1 w1] Cons.prems(4) by simp
  qed
  then show ?case by (simp add: split_beta Let_def)
qed simp

lemma mem_frame_update: "rev_of (snd (mem_update s u sid p now)) v = (if v = u then rev_of s u + 1 else rev_of s v)"
  by (auto simp: mem_update_def Let_def)

interpretation mempres: presence_store mem_ops mem_inv mem_vis rev_of mem_watched PRESENCE_TTL_SECONDS
proof (unfold_locales, goal_cases)
  case (1 s now c)
  then show ?case
    by (cases c) (simp_all add: mem_ops_def mem_update_laws mem_clear_laws mem_subscribe_laws mem_state_laws
        mem_disconnect_laws mem_expire_def mem_expire_users_laws)
next
  case (5 s u sid p now)
  then show ?case using mem_update_laws(5) by (simp add: mem_ops_def)
next
  case (14 s now c u st)
  then show ?case
    by (cases c) (auto simp: mem_ops_def mem_update_laws mem_clear_emits mem_disconnect_emits mem_subscribe_laws
        mem_expire_def mem_expire_users_laws intro: mem_expire_users_emits split: option.splits)
next
  case (15 s now c u)
  then show ?case
    by (cases c) (auto simp: mem_ops_def mem_frame_update mem_clear_laws mem_subscribe_laws mem_state_laws
        mem_disconnect_laws mem_expire_def mem_expire_users_laws)
qed (simp_all add: mem_ops_def mem_update_laws mem_clear_laws mem_subscribe_laws mem_state_laws
        mem_disconnect_laws mem_expire_def mem_expire_users_laws)

text \<open>The memory store keeps the promise the companion relies on (it drops a state whose revision
  is not newer than the last one it saw): along any calls after each of which the user has a
  valid subscription, the revision of the user never falls.\<close>

theorem mem_revision_monotone:
  assumes "mem_inv s" and "\<forall>(now, c) \<in> set cs. call_ok now c" and "stays_watched mem_ops mem_watched s u cs"
  shows "rev_of s u \<le> rev_of (run_calls mem_ops s cs) u"
  using assms by (rule mempres.calls_rev_mono)

definition sample_update :: presence_update where
  "sample_update = \<lparr>clientId = ''c'', chatId = Some ''x'', chatTitle = Some ''T'', deviceLabel = ''L'', isFocused = True, focusedAt = 1\<rparr>"

definition sample_calls :: "(rat \<times> store_call) list" where
  "sample_calls = [(1, CSubscribe ''u'' ''s''), (2, CUpdate ''u'' ''s'' sample_update), (3, CClear ''u'' ''s'')]"

lemmas mem_eval = mem_ops_def mem_subscribe_def mem_update_def mem_clear_def mem_presence_init_def prune_subscribers_def
  drop_idle_user_def remove_entry_def bump_revision_def fresh_entries_def getd_def has_key_def mem_watched_def Let_def
  PRESENCE_TTL_SECONDS_def state_of_def active_of_def candidates_def focused_entries_def rev_of_def

theorem mem_revision_monotone_witness:
  "rev_of mem_presence_init ''u'' \<le> rev_of (run_calls mem_ops mem_presence_init sample_calls) ''u''"
proof (rule mem_revision_monotone)
  show "mem_inv mem_presence_init" by (simp add: mem_inv_def mem_presence_init_def getd_def)
  show "\<forall>(now, c) \<in> set sample_calls. call_ok now c" by (simp add: sample_calls_def call_ok_def sample_update_def)
  show "stays_watched mem_ops mem_watched mem_presence_init ''u'' sample_calls"
    by (simp add: sample_calls_def mem_eval sample_update_def)
qed

text \<open>The state \<open>clear\<close> and \<open>disconnect\<close> of the memory store hand back is computed from every stored
  entry, expired ones included: thirty seconds after its last update and before the next
  expiry sweep a device is still reported as the active one.\<close>

theorem mem_clear_reports_expired:
  "mem_vis (run_calls mem_ops mem_presence_init [(2, CUpdate ''u'' ''s'' sample_update)]) 100 ''u'' = Map.empty \<and>
   ps_active (fst (mem_clear (run_calls mem_ops mem_presence_init [(2, CUpdate ''u'' ''s'' sample_update)]) ''u'' ''t'' 100)) =
     Some sample_update"
proof -
  have "run_calls mem_ops mem_presence_init [(2, CUpdate ''u'' ''s'' sample_update)] =
    \<lparr>mp_entries = [(''u'', [(''s'', \<lparr>presence = sample_update, updated_at = 2, expires_at = 32\<rparr>)])],
     mp_revisions = [(''u'', 1)], mp_subscribers = []\<rparr>"
    by (simp add: mem_eval)
  then show ?thesis by (simp add: mem_vis_def mem_eval rank_def)
qed

end
