(* ===== verification/Presence_Redis.thy ===== *)
theory Presence_Redis
  imports Presence_Memory
begin

section \<open>The Redis presence store (class RedisPresenceStore and its Lua scripts)\<close>

text \<open>
  With several workers the presence of a user is one Redis value under \<open>_key(user_id)\<close>,
  changed only by Lua scripts, which Redis runs atomically. A script is modelled as a function
  of the decoded value (\<open>None\<close> when the key is absent); storing \<open>None\<close> is \<open>DEL\<close>. The order of
  Lua's \<open>pairs\<close> is the order of the association list, about which nothing is assumed. The
  number formatting of \<open>cjson\<close> is not modelled.
\<close>

record redis_state =
  rs_revision :: nat
  rs_entries :: "(string, mem_entry) dict"
  rs_subscribers :: "(string, rat) dict"

definition empty_redis_state :: redis_state where
  "empty_redis_state = \<lparr>rs_revision = 0, rs_entries = [], rs_subscribers = []\<rparr>"

text \<open>\<open>_REDIS_SELECT_ACTIVE\<close>: two passes, then the loop over the candidates.\<close>

record lua_best =
  lb_active :: "presence_update option"
  bestPrimary :: rat
  bestUpdated :: rat
  bestClient :: string

definition lua_visit :: "bool \<Rightarrow> mem_entry \<Rightarrow> lua_best \<Rightarrow> lua_best" where
  "lua_visit some_focused entry b =
     (let primary = (if some_focused then focusedAt (presence entry) else updated_at entry);
          client = clientId (presence entry)
      in if primary > bestPrimary b \<or>
            (primary = bestPrimary b \<and> updated_at entry > bestUpdated b) \<or>
            (primary = bestPrimary b \<and> updated_at entry = bestUpdated b \<and> client > bestClient b)
         then \<lparr>lb_active = Some (presence entry), bestPrimary = primary, bestUpdated = updated_at entry, bestClient = client\<rparr>
         else b)"

definition lua_select_active :: "redis_state \<Rightarrow> rat \<Rightarrow> presence_update option" where
  "lua_select_active st now =
     (let valid = filter (\<lambda>e. expires_at e > now) (map snd (rs_entries st));
          focused = filter (\<lambda>e. isFocused (presence e)) valid;
          unfocused = filter (\<lambda>e. \<not> isFocused (presence e)) valid;
          cands = (if focused = [] then unfocused else focused)
      in lb_active (fold (lua_visit (focused \<noteq> [])) cands
           \<lparr>lb_active = None, bestPrimary = -1, bestUpdated = -1, bestClient = []\<rparr>))"

definition lua_prune_subscribers :: "redis_state \<Rightarrow> rat \<Rightarrow> bool \<times> redis_state" where
  "lua_prune_subscribers st now =
     (\<exists>(sid, exp) \<in> set (rs_subscribers st). exp \<le> now,
      st\<lparr>rs_subscribers := filter (\<lambda>(sid, exp). \<not> exp \<le> now) (rs_subscribers st)\<rparr>)"

text \<open>The common tail: \<open>DEL\<close> when no entry and no subscriber is left, \<open>SET\<close> otherwise.\<close>

definition lua_store :: "redis_state \<Rightarrow> redis_state option" where
  "lua_store st = (if rs_entries st = [] \<and> rs_subscribers st = [] then None else Some st)"

definition lua_result :: "redis_state \<Rightarrow> rat \<Rightarrow> presence_state" where
  "lua_result st now = \<lparr>ps_active = lua_select_active st now, revision = rs_revision st\<rparr>"

definition lua_load :: "redis_state option \<Rightarrow> redis_state" where
  "lua_load raw = (case raw of None \<Rightarrow> empty_redis_state | Some st \<Rightarrow> st)"

definition lua_update ::
  "redis_state option \<Rightarrow> rat \<Rightarrow> rat \<Rightarrow> string \<Rightarrow> presence_update \<Rightarrow> presence_state \<times> redis_state option" where
  "lua_update raw now ttl sid p =
     (let st1 = snd (lua_prune_subscribers (lua_load raw) now);
          st2 = st1\<lparr>rs_entries := AList.update sid \<lparr>presence = p, updated_at = now, expires_at = now + ttl\<rparr>
                      (fresh_entries now (rs_entries st1)),
                    rs_revision := rs_revision st1 + 1\<rparr>
      in (lua_result st2 now, lua_store st2))"

definition lua_remove :: "redis_state \<Rightarrow> string \<Rightarrow> redis_state" where
  "lua_remove st sid =
     (if has_key (rs_entries st) sid
      then st\<lparr>rs_entries := AList.delete sid (rs_entries st), rs_revision := rs_revision st + 1\<rparr> else st)"

definition lua_clear :: "redis_state option \<Rightarrow> rat \<Rightarrow> string \<Rightarrow> presence_state \<times> redis_state option" where
  "lua_clear raw now sid = (case raw of
      None \<Rightarrow> (\<lparr>ps_active = None, revision = 0\<rparr>, None)
    | Some st \<Rightarrow>
        (let st2 = lua_remove (snd (lua_prune_subscribers st now)) sid in (lua_result st2 now, lua_store st2)))"

definition lua_subscribe :: "redis_state option \<Rightarrow> rat \<Rightarrow> rat \<Rightarrow> string \<Rightarrow> presence_state \<times> redis_state option" where
  "lua_subscribe raw now ttl sid =
     (let st1 = snd (lua_prune_subscribers (lua_load raw) now);
          st2 = st1\<lparr>rs_subscribers := AList.update sid (now + ttl) (rs_subscribers st1)\<rparr>
      in (lua_result st2 now, Some st2))"

definition lua_state :: "redis_state option \<Rightarrow> rat \<Rightarrow> presence_state \<times> redis_state option" where
  "lua_state raw now = (case raw of
      None \<Rightarrow> (\<lparr>ps_active = None, revision = 0\<rparr>, None)
    | Some st \<Rightarrow>
        (let (changed, st1) = lua_prune_subscribers st now
         in (lua_result st1 now, if changed then lua_store st1 else Some st)))"

definition lua_disconnect :: "redis_state option \<Rightarrow> rat \<Rightarrow> string \<Rightarrow> presence_state option \<times> redis_state option" where
  "lua_disconnect raw now sid = (case raw of
      None \<Rightarrow> (None, None)
    | Some st \<Rightarrow>
        (let st1 = snd (lua_prune_subscribers st now);
             hadEntry = has_key (rs_entries st1) sid;
             st2 = lua_remove st1 sid;
             st3 = st2\<lparr>rs_subscribers := AList.delete sid (rs_subscribers st2)\<rparr>
         in (if hadEntry then Some (lua_result st3 now) else None, lua_store st3)))"

definition lua_expire :: "redis_state option \<Rightarrow> rat \<Rightarrow> presence_state option \<times> redis_state option" where
  "lua_expire raw now = (case raw of
      None \<Rightarrow> (None, None)
    | Some st \<Rightarrow>
        (let (subscribersChanged, st1) = lua_prune_subscribers st now;
             entriesChanged = (\<exists>(sid, e) \<in> set (rs_entries st1). expires_at e \<le> now);
             st2 = st1\<lparr>rs_entries := fresh_entries now (rs_entries st1)\<rparr>
         in if \<not> entriesChanged \<and> \<not> subscribersChanged then (None, Some st)
            else let st3 = (if entriesChanged then st2\<lparr>rs_revision := rs_revision st2 + 1\<rparr> else st2)
                 in (if entriesChanged then Some (lua_result st3 now) else None, lua_store st3)))"

subsection \<open>The store: one key per user\<close>

type_synonym redis_presence = "(string, redis_state) dict"

text \<open>\<open>self.key_prefix\<close> of \<open>__init__\<close>, and \<open>_key\<close>.\<close>

definition redis_key_prefix :: "string \<Rightarrow> string" where
  "redis_key_prefix key_prefix =
     key_prefix @ (if key_prefix \<noteq> [] \<and> last key_prefix = CHR '':'' then [] else '':'') @ ''companion_presence:user:''"

definition redis_key :: "string \<Rightarrow> string \<Rightarrow> string" where
  "redis_key pre u = pre @ u"

definition put_key :: "redis_presence \<Rightarrow> string \<Rightarrow> redis_state option \<Rightarrow> redis_presence" where
  "put_key db k v = (case v of None \<Rightarrow> AList.delete k db | Some st \<Rightarrow> AList.update k st db)"

definition redis_update ::
  "string \<Rightarrow> redis_presence \<Rightarrow> string \<Rightarrow> string \<Rightarrow> presence_update \<Rightarrow> rat \<Rightarrow> presence_state \<times> redis_presence" where
  "redis_update pre db u sid p now =
     (let (r, v) = lua_update (map_of db (redis_key pre u)) now PRESENCE_TTL_SECONDS sid p
      in (r, put_key db (redis_key pre u) v))"

definition redis_clear :: "string \<Rightarrow> redis_presence \<Rightarrow> string \<Rightarrow> string \<Rightarrow> rat \<Rightarrow> presence_state \<times> redis_presence" where
  "redis_clear pre db u sid now =
     (let (r, v) = lua_clear (map_of db (redis_key pre u)) now sid in (r, put_key db (redis_key pre u) v))"

definition redis_subscribe :: "string \<Rightarrow> redis_presence \<Rightarrow> string \<Rightarrow> string \<Rightarrow> rat \<Rightarrow> presence_state \<times> redis_presence" where
  "redis_subscribe pre db u sid now =
     (let (r, v) = lua_subscribe (map_of db (redis_key pre u)) now PRESENCE_TTL_SECONDS sid
      in (r, put_key db (redis_key pre u) v))"

definition redis_state_op :: "string \<Rightarrow> redis_presence \<Rightarrow> string \<Rightarrow> rat \<Rightarrow> presence_state \<times> redis_presence" where
  "redis_state_op pre db u now =
     (let (r, v) = lua_state (map_of db (redis_key pre u)) now in (r, put_key db (redis_key pre u) v))"

definition redis_disconnect ::
  "string \<Rightarrow> redis_presence \<Rightarrow> string \<Rightarrow> string \<Rightarrow> rat \<Rightarrow> presence_state option \<times> redis_presence" where
  "redis_disconnect pre db u sid now =
     (let (r, v) = lua_disconnect (map_of db (redis_key pre u)) now sid in (r, put_key db (redis_key pre u) v))"

text \<open>\<open>expire\<close>: one script per key that \<open>scan_iter\<close> yields.\<close>

fun redis_expire_keys :: "string \<Rightarrow> redis_presence \<Rightarrow> string list \<Rightarrow> rat \<Rightarrow> presence_expiry list \<times> redis_presence" where
  "redis_expire_keys pre db [] now = ([], db)"
| "redis_expire_keys pre db (k # ks) now =
     (let (r, v) = lua_expire (map_of db k) now;
          (cs, db') = redis_expire_keys pre (put_key db k v) ks now
      in (case r of None \<Rightarrow> (cs, db')
          | Some st \<Rightarrow> (\<lparr>pe_user_id = drop (length pre) k, pe_state = st\<rparr> # cs, db')))"

definition redis_expire :: "string \<Rightarrow> redis_presence \<Rightarrow> rat \<Rightarrow> presence_expiry list \<times> redis_presence" where
  "redis_expire pre db now = redis_expire_keys pre db (filter (prefix pre) (map fst db)) now"

definition redis_presence_ops :: "string \<Rightarrow> redis_presence presence_ops" where
  "redis_presence_ops pre = \<lparr>op_update = redis_update pre, op_clear = redis_clear pre, op_subscribe = redis_subscribe pre,
     op_state = redis_state_op pre, op_disconnect = redis_disconnect pre, op_expire = redis_expire pre\<rparr>"

text \<open>
  The per-user emission lock. \<open>SET key token NX PX 30000\<close> succeeds when the key is absent or
  has passed its deadline; the release script deletes the key only while it still holds the
  caller's token.
\<close>

type_synonym redis_locks = "(string, string \<times> rat) dict"

definition lock_owner :: "redis_locks \<Rightarrow> string \<Rightarrow> rat \<Rightarrow> string option" where
  "lock_owner locks key now = (case map_of locks key of
      None \<Rightarrow> None | Some (token, deadline) \<Rightarrow> if now < deadline then Some token else None)"

definition redis_lock_try :: "redis_locks \<Rightarrow> string \<Rightarrow> string \<Rightarrow> rat \<Rightarrow> bool \<times> redis_locks" where
  "redis_lock_try locks key token now = (case lock_owner locks key now of
      None \<Rightarrow> (True, AList.update key (token, now + 30) locks) | Some _ \<Rightarrow> (False, locks))"

definition redis_lock_release :: "redis_locks \<Rightarrow> string \<Rightarrow> string \<Rightarrow> rat \<Rightarrow> redis_locks" where
  "redis_lock_release locks key token now =
     (if lock_owner locks key now = Some token then AList.delete key locks else locks)"

text \<open>
  \<open>emission_lock\<close> polls until the lock is taken or five seconds have passed; \<open>polls\<close> holds, for
  each attempt, the lock table the attempt finds and the time it reads.
\<close>

fun emission_lock_wait :: "string \<Rightarrow> string \<Rightarrow> rat \<Rightarrow> (redis_locks \<times> rat) list \<Rightarrow> (string, redis_locks) result option" where
  "emission_lock_wait key token deadline [] = None"
| "emission_lock_wait key token deadline ((locks, now) # polls) =
     (let (got, locks') = redis_lock_try locks key token now
      in if got then Some (Inr locks')
         else if now \<ge> deadline then Some (Inl ''Timed out ordering companion presence state emission'')
         else emission_lock_wait key token deadline polls)"

subsection \<open>The Lua selection is the Python selection\<close>

definition entry_ok :: "mem_entry \<Rightarrow> bool" where
  "entry_ok e \<longleftrightarrow> 0 \<le> updated_at e \<and> 0 \<le> focusedAt (presence e)"

definition lua_best_of :: "bool \<Rightarrow> mem_entry \<Rightarrow> lua_best" where
  "lua_best_of f e = \<lparr>lb_active = Some (presence e), bestPrimary = fst (rank f e), bestUpdated = updated_at e,
     bestClient = clientId (presence e)\<rparr>"

lemma lua_visit_best: "lua_visit f x (lua_best_of f b) = lua_best_of f (if rank f b < rank f x then x else b)"
  by (auto simp: lua_visit_def lua_best_of_def rank_def Let_def less_prod_def')

lemma fold_lua_visit: "fold (lua_visit f) cs (lua_best_of f c) = lua_best_of f (max_by (rank f) c cs)"
  by (induction cs arbitrary: c) (simp_all add: lua_visit_best)

lemma fold_lua_visit_init:
  assumes "entry_ok c"
  shows "lb_active (fold (lua_visit f) cs (lua_visit f c \<lparr>lb_active = None, bestPrimary = -1, bestUpdated = -1, bestClient = []\<rparr>))
    = Some (presence (max_by (rank f) c cs))"
proof -
  have "lua_visit f c \<lparr>lb_active = None, bestPrimary = -1, bestUpdated = -1, bestClient = []\<rparr> = lua_best_of f c"
    using assms by (auto simp: lua_visit_def lua_best_of_def entry_ok_def rank_def Let_def)
  then show ?thesis by (simp add: fold_lua_visit) (simp add: lua_best_of_def)
qed

lemma snd_fresh_entries: "map snd (fresh_entries now es) = filter (\<lambda>e. expires_at e > now) (map snd es)"
  by (induction es) (auto simp: fresh_entries_def)

lemma lua_select_active_eq:
  assumes "\<forall>e \<in> snd ` set (rs_entries st). entry_ok e"
  shows "lua_select_active st now = active_of (fresh_entries now (rs_entries st))"
proof -
  let ?v = "map snd (fresh_entries now (rs_entries st))"
  let ?f = "focused_entries ?v"
  have unf: "filter (\<lambda>e. \<not> isFocused (presence e)) ?v = ?v" if "?f = []"
    using that by (auto simp: focused_entries_def filter_empty_conv)
  have cand: "(if ?f = [] then filter (\<lambda>e. \<not> isFocused (presence e)) ?v else ?f) = candidates ?v"
    using unf by (simp add: candidates_def)
  have ok: "\<forall>e \<in> set (candidates ?v). entry_ok e"
    using assms by (auto simp: candidates_def focused_entries_def fresh_entries_def)
  have "lua_select_active st now = lb_active (fold (lua_visit (?f \<noteq> [])) (candidates ?v)
      \<lparr>lb_active = None, bestPrimary = -1, bestUpdated = -1, bestClient = []\<rparr>)"
    unfolding lua_select_active_def Let_def snd_fresh_entries [symmetric] focused_entries_def [symmetric] cand ..
  then show ?thesis
    using ok by (cases "candidates ?v") (auto simp: active_of_def fold_lua_visit_init)
qed

subsection \<open>The contract holds\<close>

definition state_ok :: "redis_state \<Rightarrow> bool" where
  "state_ok st \<longleftrightarrow> dict_ok (rs_entries st) \<and> dict_ok (rs_subscribers st) \<and> (\<forall>e \<in> snd ` set (rs_entries st). entry_ok e)"

definition redis_inv :: "redis_presence \<Rightarrow> bool" where
  "redis_inv db \<longleftrightarrow> (\<forall>k st. map_of db k = Some st \<longrightarrow> state_ok st)"

definition redis_user :: "string \<Rightarrow> redis_presence \<Rightarrow> string \<Rightarrow> redis_state" where
  "redis_user pre db u = lua_load (map_of db (redis_key pre u))"

definition state_vis :: "redis_state \<Rightarrow> rat \<Rightarrow> string \<rightharpoonup> mem_entry" where
  "state_vis st now = map_of (fresh_entries now (rs_entries st))"

definition state_watched :: "redis_state \<Rightarrow> rat \<Rightarrow> bool" where
  "state_watched st now \<longleftrightarrow> (\<exists>(sid, exp) \<in> set (rs_subscribers st). now < exp)"

abbreviation redis_vis :: "string \<Rightarrow> redis_presence \<Rightarrow> rat \<Rightarrow> string \<Rightarrow> string \<rightharpoonup> mem_entry" where
  "redis_vis pre db now u \<equiv> state_vis (redis_user pre db u) now"

abbreviation redis_rev :: "string \<Rightarrow> redis_presence \<Rightarrow> string \<Rightarrow> nat" where
  "redis_rev pre db u \<equiv> rs_revision (redis_user pre db u)"

abbreviation redis_watched :: "string \<Rightarrow> redis_presence \<Rightarrow> rat \<Rightarrow> string \<Rightarrow> bool" where
  "redis_watched pre db now u \<equiv> state_watched (redis_user pre db u) now"

text \<open>A script step on a user, read through \<open>lua_load\<close>.\<close>

lemma redis_user_put:
  "redis_user pre (put_key db (redis_key pre u) v) w = (if w = u then lua_load v else redis_user pre db w)"
  by (auto simp: redis_user_def put_key_def redis_key_def split: option.splits)

lemma redis_inv_put: "redis_inv db \<Longrightarrow> (\<And>st. v = Some st \<Longrightarrow> state_ok st) \<Longrightarrow> redis_inv (put_key db k v)"
  by (auto simp: redis_inv_def put_key_def split: option.splits)

lemma state_ok_empty [simp]: "state_ok empty_redis_state"
  by (simp add: state_ok_def empty_redis_state_def)

lemma redis_inv_load: "redis_inv db \<Longrightarrow> state_ok (lua_load (map_of db k))"
  by (auto simp: redis_inv_def lua_load_def split: option.splits)

lemma lua_load_store: "lua_store st = Some st \<or> lua_load (lua_store st) = empty_redis_state \<and> rs_entries st = [] \<and> rs_subscribers st = []"
  by (auto simp: lua_store_def lua_load_def)

lemma state_vis_store [simp]: "state_vis (lua_load (lua_store st)) t = state_vis st t"
  by (auto simp: lua_store_def lua_load_def state_vis_def empty_redis_state_def)

lemma state_watched_store [simp]: "state_watched (lua_load (lua_store st)) t = state_watched st t"
  by (auto simp: lua_store_def lua_load_def state_watched_def empty_redis_state_def)

lemma rs_revision_store: "state_watched st t \<Longrightarrow> rs_revision (lua_load (lua_store st)) = rs_revision st"
  by (auto simp: lua_store_def lua_load_def state_watched_def)

lemma state_ok_store: "state_ok st \<Longrightarrow> lua_store st = Some st' \<Longrightarrow> state_ok st'"
  by (auto simp: lua_store_def split: if_splits)

lemma lua_prune_laws [simp]:
  "state_ok st \<Longrightarrow> state_ok (snd (lua_prune_subscribers st now))"
  "rs_entries (snd (lua_prune_subscribers st now)) = rs_entries st"
  "rs_revision (snd (lua_prune_subscribers st now)) = rs_revision st"
  "state_vis (snd (lua_prune_subscribers st now)) t = state_vis st t"
  "state_watched (snd (lua_prune_subscribers st now)) now = state_watched st now"
  by (auto simp: lua_prune_subscribers_def state_ok_def state_vis_def state_watched_def not_le)

lemma lua_remove_laws [simp]:
  "state_ok st \<Longrightarrow> state_ok (lua_remove st sid)"
  "rs_subscribers (lua_remove st sid) = rs_subscribers st"
  "rs_revision st \<le> rs_revision (lua_remove st sid)"
  "state_watched (lua_remove st sid) t = state_watched st t"
  by (auto simp: lua_remove_def state_ok_def state_watched_def set_delete_dict)

lemma lua_remove_vis: "state_ok st \<Longrightarrow> state_vis (lua_remove st sid) t = (state_vis st t)(sid := None)"
  by (auto simp: lua_remove_def state_vis_def state_ok_def map_of_fresh has_key_def fun_eq_iff split: option.splits)

lemma lua_result_best:
  assumes "state_ok st"
  shows "best_active (ran (state_vis st now)) (ps_active (lua_result st now))"
proof -
  have "dict_ok (fresh_entries now (rs_entries st))" using assms by (simp add: state_ok_def)
  from active_of_best [OF this] show ?thesis
    using assms by (simp add: lua_result_def lua_select_active_eq state_ok_def state_vis_def)
qed

lemma lua_update_laws:
  fixes now :: rat and sid :: string and p :: presence_update and raw :: "redis_state option"
  assumes "state_ok (lua_load raw)" (is "state_ok ?st")
  defines "r \<equiv> lua_update raw now PRESENCE_TTL_SECONDS sid p"
  shows "state_vis (lua_load (snd r)) now =
      (state_vis ?st now)(sid \<mapsto> \<lparr>presence = p, updated_at = now, expires_at = now + PRESENCE_TTL_SECONDS\<rparr>)"
    "rs_revision (lua_load (snd r)) = rs_revision ?st + 1" "revision (fst r) = rs_revision ?st + 1"
    "0 \<le> now \<Longrightarrow> 0 \<le> focusedAt p \<Longrightarrow> state_ok (lua_load (snd r))"
    "0 \<le> now \<Longrightarrow> 0 \<le> focusedAt p \<Longrightarrow> best_active (ran (state_vis (lua_load (snd r)) now)) (ps_active (fst r))"
proof -
  let ?e = "\<lparr>presence = p, updated_at = now, expires_at = now + PRESENCE_TTL_SECONDS\<rparr>"
  let ?es = "AList.update sid ?e (fresh_entries now (rs_entries ?st))"
  let ?st1 = "snd (lua_prune_subscribers ?st now)"
  let ?st2 = "?st1\<lparr>rs_entries := ?es, rs_revision := rs_revision ?st1 + 1\<rparr>"
  have r: "r = (lua_result ?st2 now, lua_store ?st2)" by (simp add: r_def lua_update_def Let_def)
  have ne: "?es \<noteq> []" by (cases "fresh_entries now (rs_entries ?st)") auto
  then have load: "lua_load (snd r) = ?st2" by (simp add: r lua_store_def lua_load_def)
  have ok: "dict_ok (fresh_entries now (rs_entries ?st))" using assms by (simp add: state_ok_def)
  have fresh: "fresh_entries now ?es = ?es"
    unfolding fresh_entries_def [of now ?es] filter_id_conv
    using ok by (auto simp: set_update_dict fresh_entries_def PRESENCE_TTL_SECONDS_def)
  show "state_vis (lua_load (snd r)) now = (state_vis ?st now)(sid \<mapsto> ?e)"
    using fresh by (simp add: load state_vis_def)
  show "rs_revision (lua_load (snd r)) = rs_revision ?st + 1" by (simp add: load)
  show "revision (fst r) = rs_revision ?st + 1" by (simp add: r lua_result_def)
  show ok2: "state_ok (lua_load (snd r))" if "0 \<le> now" "0 \<le> focusedAt p"
  proof -
    have "dict_ok ?es" using ok by (rule dict_ok_update)
    moreover have "state_ok ?st1" using assms by simp
    moreover have "\<forall>e \<in> snd ` set ?es. entry_ok e"
      using that assms ok by (auto simp: set_update_dict state_ok_def entry_ok_def fresh_entries_def)
    ultimately show ?thesis by (simp add: load state_ok_def)
  qed
  show "best_active (ran (state_vis (lua_load (snd r)) now)) (ps_active (fst r))" if "0 \<le> now" "0 \<le> focusedAt p"
  proof -
    have "state_ok ?st2" using ok2 [OF that] by (simp only: load)
    from lua_result_best [OF this, of now] show ?thesis unfolding load by (simp only: r fst_conv)
  qed
qed

lemma lua_load_None [simp]: "lua_load None = empty_redis_state"
  by (simp add: lua_load_def)

lemma lua_load_Some [simp]: "lua_load (Some st) = st"
  by (simp add: lua_load_def)

lemma state_vis_empty [simp]: "state_vis empty_redis_state t = Map.empty"
  by (simp add: state_vis_def empty_redis_state_def fresh_entries_def)

lemma state_watched_empty [simp]: "\<not> state_watched empty_redis_state t"
  by (simp add: state_watched_def empty_redis_state_def)

lemma rs_revision_empty [simp]: "rs_revision empty_redis_state = 0"
  by (simp add: empty_redis_state_def)

lemma lua_load_store_ok: "state_ok st \<Longrightarrow> state_ok (lua_load (lua_store st))"
  by (auto simp: lua_store_def)

lemma lua_remove_prune_rev: "rs_revision st \<le> rs_revision (lua_remove (snd (lua_prune_subscribers st now)) sid)"
  using lua_remove_laws(3) [of "snd (lua_prune_subscribers st now)" sid] by simp

lemma lua_clear_laws:
  fixes now :: rat and sid :: string and raw :: "redis_state option"
  assumes "state_ok (lua_load raw)"
  defines "v \<equiv> lua_load (snd (lua_clear raw now sid))"
  shows "state_ok v" "state_vis v now = (state_vis (lua_load raw) now)(sid := None)"
    "state_watched v now \<Longrightarrow> rs_revision (lua_load raw) \<le> rs_revision v"
proof -
  let ?st2 = "\<lambda>st. lua_remove (snd (lua_prune_subscribers st now)) sid"
  have v: "v = (case raw of None \<Rightarrow> empty_redis_state | Some st \<Rightarrow> lua_load (lua_store (?st2 st)))"
    by (simp add: v_def lua_clear_def Let_def split: option.splits)
  show "state_ok v" "state_vis v now = (state_vis (lua_load raw) now)(sid := None)"
    using assms(1) by (cases raw; simp add: v lua_load_store_ok lua_remove_vis)+
  show "state_watched v now \<Longrightarrow> rs_revision (lua_load raw) \<le> rs_revision v"
    by (cases raw) (auto simp: v rs_revision_store [where t = now] lua_remove_prune_rev)
qed

lemma lua_subscribe_laws:
  fixes now :: rat and sid :: string and raw :: "redis_state option"
  assumes "state_ok (lua_load raw)"
  defines "v \<equiv> lua_load (snd (lua_subscribe raw now PRESENCE_TTL_SECONDS sid))"
  shows "state_ok v" "state_vis v t = state_vis (lua_load raw) t" "rs_revision v = rs_revision (lua_load raw)"
    "state_watched v now" "revision (fst (lua_subscribe raw now PRESENCE_TTL_SECONDS sid)) = rs_revision (lua_load raw)"
proof -
  let ?st1 = "snd (lua_prune_subscribers (lua_load raw) now)"
  have ok: "state_ok ?st1" using assms(1) by simp
  then have d: "dict_ok (rs_subscribers ?st1)" by (simp add: state_ok_def)
  show "state_ok v" using ok by (simp add: v_def lua_subscribe_def Let_def state_ok_def)
  show "state_vis v t = state_vis (lua_load raw) t" by (simp add: v_def lua_subscribe_def Let_def state_vis_def)
  show "rs_revision v = rs_revision (lua_load raw)" by (simp add: v_def lua_subscribe_def Let_def)
  show "state_watched v now"
    using d by (auto simp: v_def lua_subscribe_def Let_def state_watched_def set_update_dict PRESENCE_TTL_SECONDS_def)
  show "revision (fst (lua_subscribe raw now PRESENCE_TTL_SECONDS sid)) = rs_revision (lua_load raw)"
    by (simp add: lua_subscribe_def Let_def lua_result_def)
qed

lemma lua_state_laws:
  fixes now :: rat and sid :: string and raw :: "redis_state option"
  assumes "state_ok (lua_load raw)"
  defines "v \<equiv> lua_load (snd (lua_state raw now))"
  shows "state_ok v" "state_vis v t = state_vis (lua_load raw) t"
    "state_watched v now \<Longrightarrow> rs_revision (lua_load raw) \<le> rs_revision v"
    "revision (fst (lua_state raw now)) = rs_revision (lua_load raw)"
    "best_active (ran (state_vis (lua_load raw) now)) (ps_active (fst (lua_state raw now)))"
proof -
  let ?st1 = "\<lambda>st. lua_prune_subscribers st now"
  have v: "v = (case raw of None \<Rightarrow> empty_redis_state
      | Some st \<Rightarrow> if fst (?st1 st) then lua_load (lua_store (snd (?st1 st))) else st)"
    by (simp add: v_def lua_state_def case_prod_beta split: option.splits)
  show "state_ok v" "state_vis v t = state_vis (lua_load raw) t"
    using assms(1) by (cases raw; simp add: v lua_load_store_ok)+
  show "state_watched v now \<Longrightarrow> rs_revision (lua_load raw) \<le> rs_revision v"
    by (cases raw) (auto simp: v rs_revision_store [where t = now] split: if_splits)
  show "revision (fst (lua_state raw now)) = rs_revision (lua_load raw)"
    by (cases raw) (simp_all add: lua_state_def lua_result_def case_prod_beta)
  show "best_active (ran (state_vis (lua_load raw) now)) (ps_active (fst (lua_state raw now)))"
  proof (cases raw)
    case (Some st)
    with assms have "state_ok (snd (lua_prune_subscribers st now))" by simp
    from lua_result_best [OF this, of now] Some show ?thesis
      by (simp add: lua_state_def case_prod_beta)
  qed (simp add: lua_state_def)
qed

lemma drop_subscriber_laws:
  "state_ok st \<Longrightarrow> state_ok (st\<lparr>rs_subscribers := AList.delete sid (rs_subscribers st)\<rparr>)"
  "state_vis (st\<lparr>rs_subscribers := ss\<rparr>) t = state_vis st t"
  by (auto simp: state_ok_def state_vis_def)

lemma lua_disconnect_laws:
  fixes now :: rat and sid :: string and raw :: "redis_state option"
  assumes "state_ok (lua_load raw)"
  defines "v \<equiv> lua_load (snd (lua_disconnect raw now sid))"
  shows "state_ok v" "state_vis v now = (state_vis (lua_load raw) now)(sid := None)"
    "state_watched v now \<Longrightarrow> rs_revision (lua_load raw) \<le> rs_revision v"
proof -
  let ?st2 = "\<lambda>st. lua_remove (snd (lua_prune_subscribers st now)) sid"
  let ?st3 = "\<lambda>st. (?st2 st)\<lparr>rs_subscribers := AList.delete sid (rs_subscribers (?st2 st))\<rparr>"
  have v: "v = (case raw of None \<Rightarrow> empty_redis_state | Some st \<Rightarrow> lua_load (lua_store (?st3 st)))"
    by (simp add: v_def lua_disconnect_def Let_def split: option.splits)
  have "state_ok st \<Longrightarrow> state_ok (?st3 st)" for st by (intro drop_subscriber_laws) simp
  with assms(1) show "state_ok v" by (cases raw) (simp_all add: v lua_load_store_ok)
  show "state_vis v now = (state_vis (lua_load raw) now)(sid := None)"
    using assms(1) by (cases raw) (simp_all add: v lua_remove_vis drop_subscriber_laws(2))
  show "state_watched v now \<Longrightarrow> rs_revision (lua_load raw) \<le> rs_revision v"
    by (cases raw) (auto simp: v rs_revision_store [where t = now] lua_remove_prune_rev)
qed

lemma fresh_entries_idem: "fresh_entries now (fresh_entries now es) = fresh_entries now es"
  by (simp add: fresh_entries_def)

lemma lua_expire_laws:
  fixes now :: rat and sid :: string and raw :: "redis_state option"
  assumes "state_ok (lua_load raw)"
  defines "v \<equiv> lua_load (snd (lua_expire raw now))"
  shows "state_ok v" "state_vis v now = state_vis (lua_load raw) now"
    "state_watched v now \<Longrightarrow> rs_revision (lua_load raw) \<le> rs_revision v"
    "state_watched v now = state_watched (lua_load raw) now"
proof -
  let ?st1 = "\<lambda>st. snd (lua_prune_subscribers st now)"
  let ?st2 = "\<lambda>st n. (?st1 st)\<lparr>rs_entries := fresh_entries now (rs_entries st), rs_revision := n\<rparr>"
  have ok: "state_ok st \<Longrightarrow> state_ok (?st2 st n)" for st n
    using lua_prune_laws(1) [of st now] by (auto simp: state_ok_def fresh_entries_def)
  have vis: "state_vis (?st2 st n) now = state_vis st now" for st n
    by (simp add: state_vis_def fresh_entries_idem)
  have watched: "state_watched (?st2 st n) now = state_watched st now" for st n
    using lua_prune_laws(5) [of st now] by (simp add: state_watched_def)
  have "\<exists>n \<ge> rs_revision st. v = lua_load (lua_store (?st2 st n)) \<or> v = st" if "raw = Some st" for st
  proof -
    have same: "(?st1 st)\<lparr>rs_entries := fresh_entries now (rs_entries st)\<rparr> = ?st2 st (rs_revision st)"
      by (simp add: lua_prune_subscribers_def)
    have "v = st \<or> v = lua_load (lua_store (?st2 st (rs_revision st))) \<or>
        v = lua_load (lua_store (?st2 st (rs_revision st + 1)))"
      unfolding same [symmetric] v_def lua_expire_def Let_def case_prod_beta by (simp add: that)
    then show ?thesis by (elim disjE) (auto intro: exI [of _ "rs_revision st"] exI [of _ "Suc (rs_revision st)"])
  qed
  then consider "raw = None" | st n where "raw = Some st" "rs_revision st \<le> n" "v = lua_load (lua_store (?st2 st n)) \<or> v = st"
    by (cases raw) blast+
  then show "state_ok v" "state_vis v now = state_vis (lua_load raw) now"
    "state_watched v now \<Longrightarrow> rs_revision (lua_load raw) \<le> rs_revision v"
    "state_watched v now = state_watched (lua_load raw) now"
    using assms(1) vis ok watched
    by (cases; auto simp: v_def lua_expire_def lua_load_store_ok rs_revision_store [where t = now])+
qed

subsection \<open>The store meets the contract\<close>

lemma redis_op_snd [simp]:
  "snd (redis_update pre db u sid p now) =
     put_key db (redis_key pre u) (snd (lua_update (map_of db (redis_key pre u)) now PRESENCE_TTL_SECONDS sid p))"
  "snd (redis_clear pre db u sid now) = put_key db (redis_key pre u) (snd (lua_clear (map_of db (redis_key pre u)) now sid))"
  "snd (redis_subscribe pre db u sid now) =
     put_key db (redis_key pre u) (snd (lua_subscribe (map_of db (redis_key pre u)) now PRESENCE_TTL_SECONDS sid))"
  "snd (redis_state_op pre db u now) = put_key db (redis_key pre u) (snd (lua_state (map_of db (redis_key pre u)) now))"
  "snd (redis_disconnect pre db u sid now) =
     put_key db (redis_key pre u) (snd (lua_disconnect (map_of db (redis_key pre u)) now sid))"
  by (simp_all add: redis_update_def redis_clear_def redis_subscribe_def redis_state_op_def redis_disconnect_def case_prod_beta)

lemma redis_op_fst [simp]:
  "fst (redis_update pre db u sid p now) = fst (lua_update (map_of db (redis_key pre u)) now PRESENCE_TTL_SECONDS sid p)"
  "fst (redis_subscribe pre db u sid now) = fst (lua_subscribe (map_of db (redis_key pre u)) now PRESENCE_TTL_SECONDS sid)"
  "fst (redis_state_op pre db u now) = fst (lua_state (map_of db (redis_key pre u)) now)"
  by (simp_all add: redis_update_def redis_subscribe_def redis_state_op_def case_prod_beta)

lemma map_of_put_key [simp]: "map_of (put_key db k v) k' = (if k' = k then v else map_of db k')"
  by (simp add: put_key_def split: option.splits)

lemma redis_key_inj [simp]: "redis_key pre u = redis_key pre w \<longleftrightarrow> u = w"
  by (simp add: redis_key_def)

lemma redis_user_put_key:
  "redis_user pre (put_key db k v) w = (if redis_key pre w = k then lua_load v else redis_user pre db w)"
  by (auto simp: redis_user_def put_key_def split: option.splits)

lemma redis_inv_put_load: "redis_inv db \<Longrightarrow> state_ok (lua_load v) \<Longrightarrow> redis_inv (put_key db k v)"
  by (rule redis_inv_put) auto

lemma snd_redis_expire_keys_Cons:
  "snd (redis_expire_keys pre db (k # ks) now) =
   snd (redis_expire_keys pre (put_key db k (snd (lua_expire (map_of db k) now))) ks now)"
  by (simp add: case_prod_beta split: option.splits)

lemma redis_expire_key_inv: "redis_inv db \<Longrightarrow> redis_inv (put_key db k (snd (lua_expire (map_of db k) now)))"
  by (simp add: redis_inv_put_load lua_expire_laws(1) redis_inv_load)

lemma redis_expire_key_laws:
  assumes "redis_inv db"
  defines "db' \<equiv> \<lambda>k now. put_key db k (snd (lua_expire (map_of db k) now))"
  shows "redis_vis pre (db' k now) now u = redis_vis pre db now u"
    "redis_watched pre (db' k now) now u = redis_watched pre db now u"
    "redis_watched pre db now u \<Longrightarrow> redis_rev pre db u \<le> redis_rev pre (db' k now) u"
proof -
  note laws = lua_expire_laws [OF redis_inv_load [OF assms(1)], of k now]
  show "redis_vis pre (db' k now) now u = redis_vis pre db now u"
    "redis_watched pre (db' k now) now u = redis_watched pre db now u"
    "redis_watched pre db now u \<Longrightarrow> redis_rev pre db u \<le> redis_rev pre (db' k now) u"
    using laws by (auto simp: db'_def redis_user_def)
qed

lemma redis_expire_keys_laws:
  "redis_inv db \<Longrightarrow> redis_inv (snd (redis_expire_keys pre db ks now))"
  "redis_inv db \<Longrightarrow> redis_vis pre (snd (redis_expire_keys pre db ks now)) now u = redis_vis pre db now u"
  "redis_inv db \<Longrightarrow> redis_watched pre (snd (redis_expire_keys pre db ks now)) now u = redis_watched pre db now u"
  by (induction ks arbitrary: db)
    (simp_all add: snd_redis_expire_keys_Cons redis_expire_key_inv redis_expire_key_laws del: redis_expire_keys.simps(2))

lemma redis_expire_keys_rev:
  "redis_inv db \<Longrightarrow> redis_watched pre db now u \<Longrightarrow>
   redis_rev pre db u \<le> redis_rev pre (snd (redis_expire_keys pre db ks now)) u"
proof (induction ks arbitrary: db)
  case (Cons k ks)
  note step = redis_expire_key_laws [OF Cons.prems(1), where pre = pre and k = k and now = now and u = u] redis_expire_key_inv [OF Cons.prems(1), of k now]
  show ?case
    unfolding snd_redis_expire_keys_Cons using step Cons.prems
    by (intro order_trans [OF step(3) Cons.IH]) auto
qed simp

lemma redis_call_inv: "redis_inv db \<Longrightarrow> call_ok now c \<Longrightarrow> redis_inv (run_call (redis_presence_ops pre) db now c)"
  using redis_inv_load [of db]
  by (cases c) (simp_all add: redis_presence_ops_def call_ok_def redis_expire_def redis_expire_keys_laws redis_inv_put_load
      lua_update_laws(4) lua_clear_laws(1) lua_subscribe_laws(1) lua_state_laws(1) lua_disconnect_laws(1))

lemma redis_watched_rev:
  assumes "redis_inv db" and "redis_watched pre (run_call (redis_presence_ops pre) db now c) now u"
  shows "redis_rev pre db u \<le> redis_rev pre (run_call (redis_presence_ops pre) db now c) u"
proof (cases c)
  case CExpire
  then show ?thesis using assms
    by (simp add: redis_presence_ops_def redis_expire_def redis_expire_keys_laws redis_expire_keys_rev)
qed (use assms redis_inv_load [OF assms(1)] in
  \<open>auto simp: redis_presence_ops_def redis_user_def lua_update_laws(2) lua_clear_laws(3)
     lua_subscribe_laws(3) lua_state_laws(3) lua_disconnect_laws(3) split: if_splits\<close>)

text \<open>No script hands back a state newer than the revision it leaves behind for a watched user.\<close>

lemma lua_emits:
  "state_watched (lua_load (snd (lua_clear raw now sid))) now \<Longrightarrow>
     revision (fst (lua_clear raw now sid)) \<le> rs_revision (lua_load (snd (lua_clear raw now sid)))"
  "state_watched (lua_load (snd (lua_disconnect raw now sid))) now \<Longrightarrow> fst (lua_disconnect raw now sid) = Some st \<Longrightarrow>
     revision st \<le> rs_revision (lua_load (snd (lua_disconnect raw now sid)))"
  "state_watched (lua_load (snd (lua_expire raw now))) now \<Longrightarrow> fst (lua_expire raw now) = Some st \<Longrightarrow>
     revision st \<le> rs_revision (lua_load (snd (lua_expire raw now)))"
  by (auto simp: lua_clear_def lua_disconnect_def lua_expire_def Let_def lua_result_def case_prod_beta
      rs_revision_store [where t = now] split: option.splits if_splits)

lemma redis_expire_keys_emits:
  assumes "redis_inv db" and "redis_watched pre db now u" and "\<forall>k \<in> set ks. prefix pre k"
    and "c \<in> set (fst (redis_expire_keys pre db ks now))" and "pe_user_id c = u"
  shows "revision (pe_state c) \<le> redis_rev pre (snd (redis_expire_keys pre db ks now)) u"
  using assms
proof (induction ks arbitrary: db)
  case (Cons k ks)
  let ?r = "lua_expire (map_of db k) now"
  let ?db = "put_key db k (snd ?r)"
  note step = redis_expire_key_inv [OF Cons.prems(1), of k now] redis_expire_key_laws(2) [OF Cons.prems(1), of pre k now u]
  show ?case
  proof (cases "c \<in> set (fst (redis_expire_keys pre ?db ks now))")
    case True
    then show ?thesis using Cons.IH [of ?db] Cons.prems step by (simp only: snd_redis_expire_keys_Cons) simp
  next
    case False
    then obtain st where st: "fst ?r = Some st" and c: "c = \<lparr>pe_user_id = drop (length pre) k, pe_state = st\<rparr>"
      using Cons.prems(4) by (auto simp: case_prod_beta split: option.splits)
    obtain w where w: "k = pre @ w" using Cons.prems(3) by (auto elim: prefixE)
    then have key: "k = redis_key pre u" using c Cons.prems(5) by (simp add: redis_key_def)
    have "state_watched (lua_load (snd ?r)) now" using step(2) Cons.prems(2) key by (simp add: redis_user_def)
    then have "revision st \<le> redis_rev pre ?db u" using lua_emits(3) st key by (simp add: redis_user_def)
    also have "\<dots> \<le> redis_rev pre (snd (redis_expire_keys pre ?db ks now)) u"
      using step Cons.prems(2) by (intro redis_expire_keys_rev) simp_all
    finally show ?thesis using c by (simp only: snd_redis_expire_keys_Cons) simp
  qed
qed simp

lemma redis_emits_rev:
  assumes "redis_inv db" and "redis_watched pre (run_call (redis_presence_ops pre) db now c) now u"
    and "(u, st) \<in> set (call_emits (redis_presence_ops pre) db now c)"
  shows "revision st \<le> redis_rev pre (run_call (redis_presence_ops pre) db now c) u"
proof (cases c)
  case CExpire
  then show ?thesis using assms
    by (auto simp: redis_presence_ops_def redis_expire_def redis_expire_keys_laws intro!: redis_expire_keys_emits)
qed (use assms redis_inv_load [OF assms(1)] in
  \<open>auto simp: redis_presence_ops_def redis_user_def lua_update_laws(2,3) lua_subscribe_laws(3,5) lua_emits
     redis_clear_def redis_disconnect_def case_prod_beta split: option.splits\<close>)

interpretation redispres: presence_store "redis_presence_ops pre" redis_inv "redis_vis pre" "redis_rev pre"
  "redis_watched pre" PRESENCE_TTL_SECONDS for pre
proof (unfold_locales, goal_cases)
  case 1 then show ?case by (rule redis_call_inv)
next
  case 14 then show ?case by (rule redis_emits_rev)
next
  case 15 then show ?case by (rule redis_watched_rev)
next
  case (5 s now u sid p)
  have "lua_load (snd (lua_update (map_of s (redis_key pre u)) now PRESENCE_TTL_SECONDS sid p)) =
    redis_user pre (snd (op_update (redis_presence_ops pre) s u sid p now)) u"
    by (simp add: redis_presence_ops_def redis_user_put_key)
  then show ?case
    using lua_update_laws(5) [OF redis_inv_load [OF 5(1)], of now p "redis_key pre u" sid] 5(2)
    by (simp add: redis_presence_ops_def call_ok_def)
qed (simp_all add: redis_presence_ops_def redis_user_def redis_inv_load lua_update_laws(1,2,3)
  lua_clear_laws(2) lua_subscribe_laws(4,5) lua_state_laws lua_disconnect_laws(2) redis_expire_def redis_expire_keys_laws
  [unfolded redis_user_def])

subsection \<open>Lock safety\<close>

lemma redis_lock_try_owner:
  "redis_lock_try locks key token now = (True, locks') \<Longrightarrow> lock_owner locks key now = None \<and> lock_owner locks' key now = Some token"
  by (auto simp: redis_lock_try_def lock_owner_def split: option.splits if_splits)

text \<open>The emission lock is exclusive and a release touches only the caller's own lock: while
  an unexpired token holds the key no attempt succeeds, and a release with another token
  (one whose lock has timed out and was taken over) leaves the owner in place.\<close>

theorem redis_lock_exclusive:
  assumes "lock_owner locks key now = Some owner"
  shows "redis_lock_try locks key token now = (False, locks) \<and>
    (token \<noteq> owner \<longrightarrow> lock_owner (redis_lock_release locks key token now) key now = Some owner) \<and>
    lock_owner (redis_lock_release locks key owner now) key now = None"
  using assms by (auto simp: redis_lock_try_def redis_lock_release_def lock_owner_def split: option.splits if_splits)

theorem redis_lock_exclusive_witness:
  "redis_lock_try [(''k'', ''b'', 40)] ''k'' ''a'' 12 = (False, [(''k'', ''b'', 40)]) \<and>
   lock_owner (redis_lock_release [(''k'', ''b'', 40)] ''k'' ''a'' 12) ''k'' 12 = Some ''b''"
proof -
  have "lock_owner [(''k'', ''b'', 40)] ''k'' 12 = Some ''b''" by (simp add: lock_owner_def)
  from redis_lock_exclusive [OF this, of "''a''"] show ?thesis by simp
qed

text \<open>C21: The active entry that the Lua scripts of the Redis store select and the one the Python
  code of the memory store selects from the same unexpired entries, in whatever order Lua's
  \<open>pairs\<close> visits them: both are presences of a candidate that no candidate outranks, or both are missing, with the same client and
  the same focus; and they are the same presence unless one client has written two different entries (of two sockets) at the very same
  instant. Client ids are compared by code point on both sides, which is how a Redis server in the C locale compares them.\<close>

theorem lua_selection_is_python_selection:
  assumes "state_ok st" and "dict_ok es" and "set es = set (rs_entries st)"
  shows "best_active (snd ` set (fresh_entries now es)) (lua_select_active st now)
    \<and> best_active (snd ` set (fresh_entries now es)) (active_of (fresh_entries now es))
    \<and> map_option (\<lambda>p. (isFocused p, clientId p)) (lua_select_active st now) = map_option (\<lambda>p. (isFocused p, clientId p)) (active_of (fresh_entries now es))
    \<and> (one_write_per_instant (snd ` set (fresh_entries now es)) \<longrightarrow> lua_select_active st now = active_of (fresh_entries now es))"
proof -
  have ran: "ran (map_of (fresh_entries now xs)) = snd ` set (fresh_entries now xs)" if "dict_ok xs" for xs
    using that by (simp add: ran_distinct dict_ok_def [symmetric])
  have same: "set (fresh_entries now es) = set (fresh_entries now (rs_entries st))"
    using assms(3) by (simp add: fresh_entries_def)
  have "dict_ok (rs_entries st)" using assms(1) by (simp add: state_ok_def)
  then have lua: "best_active (snd ` set (fresh_entries now es)) (lua_select_active st now)"
    using lua_result_best [OF assms(1), of now] ran by (simp add: state_vis_def lua_result_def same)
  have py: "best_active (snd ` set (fresh_entries now es)) (active_of (fresh_entries now es))"
    using active_of_best [of "fresh_entries now es"] ran assms(2) by simp
  show ?thesis using lua py best_active_same_client [OF lua py] best_active_unique [OF lua py] by blast
qed

definition sample_entry :: "string \<Rightarrow> rat \<Rightarrow> mem_entry" where
  "sample_entry c t = \<lparr>presence = \<lparr>clientId = c, chatId = Some ''x'', chatTitle = Some ''T'', deviceLabel = ''L'',
     isFocused = True, focusedAt = t\<rparr>, updated_at = 1, expires_at = 31\<rparr>"

text \<open>A client that has reconnected has two entries, one per socket.\<close>

theorem lua_selection_witness:
  "lua_select_active \<lparr>rs_revision = 2, rs_entries = [(''s1'', sample_entry ''a'' 3), (''s2'', (sample_entry ''a'' 3)\<lparr>updated_at := 2\<rparr>)],
     rs_subscribers = []\<rparr> 5 =
   active_of (fresh_entries 5 [(''s2'', (sample_entry ''a'' 3)\<lparr>updated_at := 2\<rparr>), (''s1'', sample_entry ''a'' 3)])"
  using lua_selection_is_python_selection [of "\<lparr>rs_revision = 2, rs_entries = [(''s1'', sample_entry ''a'' 3), (''s2'', (sample_entry ''a'' 3)\<lparr>updated_at := 2\<rparr>)],
     rs_subscribers = []\<rparr>" "[(''s2'', (sample_entry ''a'' 3)\<lparr>updated_at := 2\<rparr>), (''s1'', sample_entry ''a'' 3)]" 5]
  by (auto simp: state_ok_def entry_ok_def sample_entry_def one_write_per_instant_def dict_ok_def fresh_entries_def)

text \<open>The Redis store keeps the same promise across all workers: along any calls after each of
  which the user has a valid subscription, the revision of the user never falls.\<close>

theorem redis_revision_monotone:
  assumes "redis_inv db" and "\<forall>(now, c) \<in> set cs. call_ok now c"
    and "stays_watched (redis_presence_ops pre) (redis_watched pre) db u cs"
  shows "redis_rev pre db u \<le> redis_rev pre (run_calls (redis_presence_ops pre) db cs) u"
  using assms by (rule redispres.calls_rev_mono)

theorem redis_revision_monotone_witness:
  "redis_rev ''p:'' [] ''u'' \<le> redis_rev ''p:'' (run_calls (redis_presence_ops ''p:'') []
     [(1, CSubscribe ''u'' ''s''), (2, CUpdate ''u'' ''s'' (presence (sample_entry ''a'' 3))), (3, CClear ''u'' ''s'')]) ''u''"
  by (rule redis_revision_monotone)
    (simp_all add: redis_inv_def call_ok_def sample_entry_def redis_presence_ops_def redis_user_def lua_subscribe_def
      lua_update_def lua_clear_def lua_prune_subscribers_def empty_redis_state_def Let_def lua_store_def lua_remove_def
      has_key_def state_watched_def PRESENCE_TTL_SECONDS_def fresh_entries_def)

end
