(* ===== verification/Presence_Service.thy ===== *)
theory Presence_Service
  imports Presence_Redis
begin

section \<open>The companion presence socket service\<close>

text \<open>
  \<open>CompanionPresenceSocketService\<close> over any store that offers the operations of
  \<open>presence_ops\<close>. Socket.IO, the chat database and the clock are parameters: \<open>readable\<close> is
  \<open>get_readable_chat\<close> (the title of the chat when the user may read it), \<open>clock i\<close> the \<open>i\<close>-th
  reading of \<open>self.clock()\<close>, \<open>enters\<close> whether \<open>sio.enter_room\<close> succeeds. Each handler is the
  part up to its \<open>_emit\<close> followed by \<open>_emit\<close>; between the two other handlers may run, which the
  step relation \<open>emission_step\<close> covers. The session pool holds what \<open>model_dump\<close> of a user
  gives, whose id and role are strings.
\<close>

definition PRESENCE_RATE_LIMIT :: nat where
  "PRESENCE_RATE_LIMIT = 30"

definition PRESENCE_RATE_WINDOW_SECONDS :: rat where
  "PRESENCE_RATE_WINDOW_SECONDS = 60"

datatype service_error = Raised validate_error | EnterRoomFailed

datatype service_reply = Ok_revision nat | Rejected string

record 's presence_service =
  svc_store :: 's
  svc_windows :: "(string, rat list) dict"
  svc_tick :: nat
  svc_emitted :: "(string \<times> presence_state) list"
  svc_rooms :: "(string \<times> string) list"

text \<open>\<open>_session\<close>: the id and role of the user behind a socket.\<close>

definition service_session :: "(string, pyval) dict \<Rightarrow> string \<Rightarrow> (string \<times> string) option" where
  "service_session pool sid = (case map_of pool sid of
      None \<Rightarrow> None
    | Some v \<Rightarrow> (case as_dict v of
        None \<Rightarrow> None
      | Some d \<Rightarrow> if nonempty_str (pget d ''id'') \<and> nonempty_str (pget d ''role'')
                  then Some (str_of (pget d ''id''), str_of (pget d ''role'')) else None))"

definition consume_window :: "rat list \<Rightarrow> rat \<Rightarrow> bool \<times> rat list" where
  "consume_window window now =
     (let w = dropWhile (\<lambda>t. t \<le> now - PRESENCE_RATE_WINDOW_SECONDS) window
      in if length w \<ge> PRESENCE_RATE_LIMIT then (False, w) else (True, w @ [now]))"

definition consume_rate_limit :: "'s presence_service \<Rightarrow> string \<Rightarrow> rat \<Rightarrow> bool \<times> 's presence_service" where
  "consume_rate_limit svc sid now =
     (let (ok, w) = consume_window (getd (svc_windows svc) sid) now
      in (ok, svc\<lparr>svc_windows := AList.update sid w (svc_windows svc)\<rparr>))"

definition read_clock :: "(nat \<Rightarrow> rat) \<Rightarrow> 's presence_service \<Rightarrow> rat \<times> 's presence_service" where
  "read_clock clock svc = (clock (svc_tick svc), svc\<lparr>svc_tick := svc_tick svc + 1\<rparr>)"

text \<open>\<open>ordered_state\<close> of \<open>_emit\<close>: the newer of the state to emit and the latest one.\<close>

definition ordered_state :: "presence_state \<Rightarrow> presence_state \<Rightarrow> presence_state" where
  "ordered_state latest state = (if revision latest > revision state then latest else state)"

definition user_room :: "string \<Rightarrow> string" where
  "user_room user_id = ''user:'' @ user_id"

definition emit_presence ::
  "'s presence_ops \<Rightarrow> (nat \<Rightarrow> rat) \<Rightarrow> 's presence_service \<Rightarrow> string \<Rightarrow> presence_state \<Rightarrow> 's presence_service" where
  "emit_presence ops clock svc user_id state =
     (let (now, svc1) = read_clock clock svc;
          (latest, store) = op_state ops (svc_store svc1) user_id now
      in svc1\<lparr>svc_store := store, svc_emitted := svc_emitted svc1 @ [(user_room user_id, ordered_state latest state)]\<rparr>)"

text \<open>\<open>update\<close> up to its \<open>_emit\<close>: the reply, the state to emit for which user, the service.\<close>

definition service_update_begin ::
  "'s presence_ops \<Rightarrow> (nat \<Rightarrow> rat) \<Rightarrow> (string, pyval) dict \<Rightarrow> (string \<Rightarrow> string \<Rightarrow> string \<Rightarrow> string option) \<Rightarrow>
   's presence_service \<Rightarrow> string \<Rightarrow> pyval \<Rightarrow>
   (service_error, service_reply \<times> (string \<times> presence_state) option \<times> 's presence_service) result" where
  "service_update_begin ops clock pool readable svc sid payload = (case service_session pool sid of
      None \<Rightarrow> Inr (Rejected ''authentication_required'', None, svc)
    | Some (user_id, role) \<Rightarrow> (case validate_presence_update payload of
        Inl (ValueError _) \<Rightarrow> Inr (Rejected ''invalid_payload'', None, svc)
      | Inl OverflowError \<Rightarrow> Inl (Raised OverflowError)
      | Inr pr \<Rightarrow>
          (let (now, svc1) = read_clock clock svc; (ok, svc2) = consume_rate_limit svc1 sid now
           in if \<not> ok then Inr (Rejected ''rate_limited'', None, svc2)
              else case chatId pr of
                None \<Rightarrow>
                  (let (state, store) = op_clear ops (svc_store svc2) user_id sid now
                   in Inr (Ok_revision (revision state), Some (user_id, state), svc2\<lparr>svc_store := store\<rparr>))
              | Some chat_id \<Rightarrow> (case readable user_id role chat_id of
                  None \<Rightarrow> Inr (Rejected ''chat_access_denied'', None, svc2)
                | Some title \<Rightarrow>
                    (let (state, store) = op_update ops (svc_store svc2) user_id sid (pr\<lparr>chatTitle := Some title\<rparr>) now
                     in Inr (Ok_revision (revision state), Some (user_id, state), svc2\<lparr>svc_store := store\<rparr>))))))"

definition emit_opt ::
  "'s presence_ops \<Rightarrow> (nat \<Rightarrow> rat) \<Rightarrow> (string \<times> presence_state) option \<Rightarrow> 's presence_service \<Rightarrow> 's presence_service" where
  "emit_opt ops clock e svc = (case e of None \<Rightarrow> svc | Some (u, st) \<Rightarrow> emit_presence ops clock svc u st)"

definition service_update ::
  "'s presence_ops \<Rightarrow> (nat \<Rightarrow> rat) \<Rightarrow> (string, pyval) dict \<Rightarrow> (string \<Rightarrow> string \<Rightarrow> string \<Rightarrow> string option) \<Rightarrow>
   's presence_service \<Rightarrow> string \<Rightarrow> pyval \<Rightarrow> (service_error, service_reply \<times> 's presence_service) result" where
  "service_update ops clock pool readable svc sid payload =
     rbind (service_update_begin ops clock pool readable svc sid payload)
       (\<lambda>(reply, e, svc'). Inr (reply, emit_opt ops clock e svc'))"

text \<open>\<open>subscribe\<close>: when \<open>enter_room\<close> raises, the subscription is undone and the error re-raised.\<close>

definition service_subscribe ::
  "'s presence_ops \<Rightarrow> (nat \<Rightarrow> rat) \<Rightarrow> (string, pyval) dict \<Rightarrow> (string \<Rightarrow> string \<Rightarrow> bool) \<Rightarrow> 's presence_service \<Rightarrow> string \<Rightarrow>
   (service_error, service_reply) result \<times> 's presence_service" where
  "service_subscribe ops clock pool enters svc sid = (case service_session pool sid of
      None \<Rightarrow> (Inr (Rejected ''authentication_required''), svc)
    | Some (user_id, role) \<Rightarrow>
        (let (now, svc1) = read_clock clock svc;
             (state, store) = op_subscribe ops (svc_store svc1) user_id sid now;
             svc2 = svc1\<lparr>svc_store := store\<rparr>
         in if enters sid (user_room user_id) then
              (Inr (Ok_revision (revision state)),
               emit_presence ops clock (svc2\<lparr>svc_rooms := (sid, user_room user_id) # svc_rooms svc2\<rparr>) user_id state)
            else (let (now', svc3) = read_clock clock svc2;
                      (_, store') = op_disconnect ops (svc_store svc3) user_id sid now'
                  in (Inl EnterRoomFailed, svc3\<lparr>svc_store := store'\<rparr>))))"

definition service_disconnect ::
  "'s presence_ops \<Rightarrow> (nat \<Rightarrow> rat) \<Rightarrow> (string, pyval) dict \<Rightarrow> 's presence_service \<Rightarrow> string \<Rightarrow>
   presence_state option \<times> 's presence_service" where
  "service_disconnect ops clock pool svc sid =
     (let svc0 = svc\<lparr>svc_windows := AList.delete sid (svc_windows svc)\<rparr>
      in case service_session pool sid of
           None \<Rightarrow> (None, svc0)
         | Some (user_id, role) \<Rightarrow>
             (let (now, svc1) = read_clock clock svc0;
                  (state, store) = op_disconnect ops (svc_store svc1) user_id sid now;
                  svc2 = svc1\<lparr>svc_store := store\<rparr>
              in (state, emit_opt ops clock (map_option (\<lambda>st. (user_id, st)) state) svc2)))"

fun emit_changes ::
  "'s presence_ops \<Rightarrow> (nat \<Rightarrow> rat) \<Rightarrow> presence_expiry list \<Rightarrow> 's presence_service \<Rightarrow> 's presence_service" where
  "emit_changes ops clock [] svc = svc"
| "emit_changes ops clock (c # cs) svc = emit_changes ops clock cs (emit_presence ops clock svc (pe_user_id c) (pe_state c))"

definition service_expire ::
  "'s presence_ops \<Rightarrow> (nat \<Rightarrow> rat) \<Rightarrow> 's presence_service \<Rightarrow> presence_expiry list \<times> 's presence_service" where
  "service_expire ops clock svc =
     (let (now, svc1) = read_clock clock svc; (changes, store) = op_expire ops (svc_store svc1) now
      in (changes, emit_changes ops clock changes (svc1\<lparr>svc_store := store\<rparr>)))"

text \<open>\<open>reap_presence_session\<close>: the session leaves the pool whatever the disconnect does.\<close>

definition reap_presence_session ::
  "'s presence_ops \<Rightarrow> (nat \<Rightarrow> rat) \<Rightarrow> (string, pyval) dict \<Rightarrow> 's presence_service option \<Rightarrow> string \<Rightarrow>
   (string, pyval) dict \<times> 's presence_service option" where
  "reap_presence_session ops clock pool svc sid =
     (AList.delete sid pool, map_option (\<lambda>s. snd (service_disconnect ops clock pool s sid)) svc)"

datatype store_choice = MemoryStore | RedisStore string

definition create_presence_store :: "int \<Rightarrow> string \<Rightarrow> bool \<Rightarrow> string \<Rightarrow> (string, store_choice) result" where
  "create_presence_store worker_count websocket_manager has_redis key_prefix =
     (if websocket_manager = ''redis'' then
        (if has_redis then Inr (RedisStore (redis_key_prefix key_prefix))
         else Inl ''Redis-backed companion presence requires Redis'')
      else if worker_count \<noteq> 1 then Inl ''Ted-Bot companion presence with multiple workers requires Redis''
      else Inr MemoryStore)"

subsection \<open>The rate limit\<close>

text \<open>The times accepted by a run of requests of one socket, and the window it leaves.\<close>

fun consume_run :: "rat list \<Rightarrow> rat list \<Rightarrow> rat list \<times> rat list" where
  "consume_run w [] = ([], w)"
| "consume_run w (t # ts) =
     (let (ok, w') = consume_window w t; (acc, w'') = consume_run w' ts in (if ok then t # acc else acc, w''))"

definition in_window :: "rat \<Rightarrow> rat list \<Rightarrow> rat list" where
  "in_window now ts = filter (\<lambda>t. now - PRESENCE_RATE_WINDOW_SECONDS < t \<and> t \<le> now) ts"

text \<open>The specification: a request passes iff fewer than the limit passed within the last minute.\<close>

fun sliding_run :: "rat list \<Rightarrow> rat list \<Rightarrow> rat list" where
  "sliding_run past [] = []"
| "sliding_run past (t # ts) =
     (if length (in_window t past) < PRESENCE_RATE_LIMIT then t # sliding_run (past @ [t]) ts else sliding_run past ts)"

lemma dropWhile_sorted: "sorted w \<Longrightarrow> dropWhile (\<lambda>t. t \<le> c) w = filter (\<lambda>t. c < t) (w :: rat list)"
proof (induction w)
  case (Cons a w)
  then have "c < a \<Longrightarrow> filter ((<) c) w = w" by (auto simp: filter_id_conv)
  with Cons show ?case by auto
qed simp

lemma consume_run_sliding:
  assumes "sorted (past @ ts)" and "w = filter (\<lambda>t. c < t) past" and "\<forall>t \<in> set ts. c \<le> t - PRESENCE_RATE_WINDOW_SECONDS"
  shows "fst (consume_run w ts) = sliding_run past ts"
  using assms
proof (induction ts arbitrary: past w c)
  case (Cons t ts)
  let ?c = "t - PRESENCE_RATE_WINDOW_SECONDS"
  have c: "c \<le> ?c" using Cons.prems(3) by simp
  have le: "\<forall>x \<in> set past. x \<le> t" using Cons.prems(1) by (auto simp: sorted_append)
  have "sorted w" using Cons.prems(1,2) by (simp add: sorted_append sorted_wrt_filter)
  then have "dropWhile (\<lambda>x. x \<le> ?c) w = filter (\<lambda>x. ?c < x) w" by (rule dropWhile_sorted)
  also have "\<dots> = filter (\<lambda>x. ?c < x) past"
    using Cons.prems(2) c by (auto intro: filter_cong)
  finally have drop: "dropWhile (\<lambda>x. x \<le> ?c) w = filter (\<lambda>x. ?c < x) past" .
  have win: "in_window t past = filter (\<lambda>x. ?c < x) past" unfolding in_window_def using le by (auto intro: filter_cong)
  have later: "\<forall>x \<in> set ts. ?c \<le> x - PRESENCE_RATE_WINDOW_SECONDS" using Cons.prems(1) by (auto simp: sorted_append)
  have "?c < t" by (simp add: PRESENCE_RATE_WINDOW_SECONDS_def)
  then have ih1: "fst (consume_run (filter (\<lambda>x. ?c < x) past @ [t]) ts) = sliding_run (past @ [t]) ts"
    using Cons.prems(1) later by (intro Cons.IH [of _ _ ?c]) auto
  have ih2: "fst (consume_run (filter (\<lambda>x. ?c < x) past) ts) = sliding_run past ts"
    using Cons.prems(1) later by (intro Cons.IH [of _ _ ?c]) (auto simp: sorted_append)
  show ?case
    by (simp add: consume_window_def drop win ih1 ih2 Let_def split_beta not_less)
qed simp

lemma in_window_append: "in_window t (xs @ ys) = in_window t xs @ in_window t ys"
  by (simp add: in_window_def)

lemma sliding_run_bound:
  assumes "sorted (past @ ts)" and "\<forall>now. length (in_window now past) \<le> PRESENCE_RATE_LIMIT"
  shows "length (in_window now (past @ sliding_run past ts)) \<le> PRESENCE_RATE_LIMIT"
  using assms
proof (induction past ts rule: sliding_run.induct)
  case (2 past t ts)
  show ?case
  proof (cases "length (in_window t past) < PRESENCE_RATE_LIMIT")
    case True
    have "length (in_window n (past @ [t])) \<le> PRESENCE_RATE_LIMIT" for n
    proof (cases "n - PRESENCE_RATE_WINDOW_SECONDS < t \<and> t \<le> n")
      case True
      have "in_window n past = filter (\<lambda>x. n - PRESENCE_RATE_WINDOW_SECONDS < x) (in_window t past)"
        unfolding in_window_def filter_filter using 2(3) True by (intro filter_cong) (auto simp: sorted_append)
      then have "length (in_window n past) \<le> length (in_window t past)" by simp
      then show ?thesis using \<open>length (in_window t past) < PRESENCE_RATE_LIMIT\<close> by (simp add: in_window_def)
    next
      case False
      then show ?thesis using 2(4) by (auto simp: in_window_append) (auto simp: in_window_def)
    qed
    then show ?thesis using 2(1) [OF True] 2(3) True by simp
  qed (use 2 in \<open>auto simp: sorted_append\<close>)
qed simp

text \<open>The per-socket rate limiter, whose window drops old entries from its front only, is the
  sliding-window specification: as long as the clock does not run backwards a presence update
  passes exactly when fewer than 30 passed in the 60 seconds before it, so no 60 seconds see
  more than 30.\<close>

theorem presence_rate_limit:
  assumes "sorted ts"
  shows "fst (consume_run [] ts) = sliding_run [] ts \<and>
    length (in_window now (fst (consume_run [] ts))) \<le> PRESENCE_RATE_LIMIT"
proof -
  define c where "c = Min (insert 0 (set ts)) - PRESENCE_RATE_WINDOW_SECONDS"
  have "fst (consume_run [] ts) = sliding_run [] ts"
    by (rule consume_run_sliding [of _ _ _ c]) (use assms in \<open>auto simp: c_def\<close>)
  moreover have "length (in_window now ([] @ sliding_run [] ts)) \<le> PRESENCE_RATE_LIMIT"
    by (rule sliding_run_bound) (use assms in \<open>auto simp: in_window_def\<close>)
  ultimately show ?thesis by simp
qed

theorem presence_rate_limit_witness:
  "length (in_window 40 (fst (consume_run [] (map of_nat [0..<40])))) \<le> PRESENCE_RATE_LIMIT"
proof -
  have "sorted (map of_nat [0..<40] :: rat list)" by (simp add: sorted_map sorted_wrt_upt)
  from presence_rate_limit [OF this, of 40] show ?thesis by (rule conjunct2)
qed

subsection \<open>What an update may store\<close>

lemma consume_rate_limit_store [simp]: "svc_store (snd (consume_rate_limit svc sid now)) = svc_store svc"
  by (simp add: consume_rate_limit_def split_beta)

lemma read_clock_simps [simp]:
  "fst (read_clock clock svc) = clock (svc_tick svc)" "svc_store (snd (read_clock clock svc)) = svc_store svc"
  by (simp_all add: read_clock_def)

text \<open>A presence update touches the store only for the authenticated user of the socket and only
  after the payload was validated; an entry is stored only for a chat this user may read, and
  carries the title the database holds, not the one the client sent.\<close>

lemma service_update_authorised:
  assumes "service_update_begin ops clock pool readable svc sid payload = Inr (reply, e, svc')"
    and "svc_store svc' \<noteq> svc_store svc"
  shows "\<exists>user_id role p. service_session pool sid = Some (user_id, role) \<and> validate_presence_update payload = Inr p \<and>
    (chatId p = None \<and> svc_store svc' = snd (op_clear ops (svc_store svc) user_id sid (clock (svc_tick svc))) \<or>
     (\<exists>chat_id title. chatId p = Some chat_id \<and> readable user_id role chat_id = Some title \<and>
        svc_store svc' = snd (op_update ops (svc_store svc) user_id sid (p\<lparr>chatTitle := Some title\<rparr>) (clock (svc_tick svc)))))"
  using assms unfolding service_update_begin_def Let_def split_beta
  by (auto split: option.splits sum.splits validate_error.splits if_splits)

definition sample_pool :: "(string, pyval) dict" where
  "sample_pool = [(''s'', PDict [(''id'', PStr ''u''), (''role'', PStr ''user'')])]"

definition sample_service :: "mem_presence presence_service" where
  "sample_service = \<lparr>svc_store = mem_presence_init, svc_windows = [], svc_tick = 0, svc_emitted = [], svc_rooms = []\<rparr>"

lemma sample_payload_valid:
  "validate_presence_update (sample_payload (PInt 5)) = Inr \<lparr>clientId = ''c1'', chatId = Some ''x'',
     chatTitle = Some ''T'', deviceLabel = ''L'', isFocused = True, focusedAt = 5\<rparr>"
  by (simp add: validate_presence_update_def sample_payload_def PRESENCE_FIELDS_def FIELD_LIMITS_def
      focused_at_number_def float_overflow_def field_str_def field_opt_def)

subsection \<open>Emissions are ordered\<close>

text \<open>
  Handlers interleave at their \<open>await\<close>s. An \<open>_emit\<close> waits for the emission lock of its user (\<open>ec_waiting\<close>), takes it with
  a token of its own (\<open>ec_locked\<close>), reads the latest state (\<open>ec_holding\<close>), sends (\<open>ec_sent\<close> is what Socket.IO was handed, in order) and
  releases the lock (\<open>ec_leaving\<close>). The lock is the key in Redis that expires 30 seconds after it was taken; nothing stops
  a handler that has been stalled for longer from sending without it. A handler may fail instead: waiting too long, reading or sending; a
  lock it has taken is then released too. \<open>uuid4\<close> never repeats a token.
\<close>

record 's emission_conf =
  ec_store :: 's
  ec_locks :: redis_locks
  ec_tokens :: "string list"
  ec_waiting :: "(string \<times> presence_state) list"
  ec_locked :: "(string, string \<times> presence_state) dict"
  ec_holding :: "(string, string \<times> presence_state) dict"
  ec_leaving :: "(string, string) dict"
  ec_sent :: "(string \<times> presence_state) list"

definition emission_key :: "string \<Rightarrow> string \<Rightarrow> string" where
  "emission_key namespace user_id = namespace @ ''emit_lock:'' @ user_id"

text \<open>A step, labelled with the token and the user of the emission it sends.\<close>

inductive emission_step ::
  "'s presence_ops \<Rightarrow> string \<Rightarrow> rat \<Rightarrow> (string \<times> string) option \<Rightarrow> 's emission_conf \<Rightarrow> 's emission_conf \<Rightarrow> bool" for ops ns where
  call: "call_ok now c \<Longrightarrow>
    emission_step ops ns now None cf (cf\<lparr>ec_store := run_call ops (ec_store cf) now c,
      ec_waiting := ec_waiting cf @ call_emits ops (ec_store cf) now c\<rparr>)"
| lock: "(u, st) \<in> set (ec_waiting cf) \<Longrightarrow> t \<notin> set (ec_tokens cf) \<Longrightarrow>
    redis_lock_try (ec_locks cf) (emission_key ns u) t now = (True, locks) \<Longrightarrow>
    emission_step ops ns now None cf (cf\<lparr>ec_locks := locks, ec_tokens := t # ec_tokens cf,
      ec_waiting := remove1 (u, st) (ec_waiting cf), ec_locked := AList.update t (u, st) (ec_locked cf)\<rparr>)"
| read: "map_of (ec_locked cf) t = Some (u, st) \<Longrightarrow> 0 \<le> now \<Longrightarrow>
    emission_step ops ns now None cf (cf\<lparr>ec_store := snd (op_state ops (ec_store cf) u now),
      ec_locked := AList.delete t (ec_locked cf),
      ec_holding := AList.update t (u, ordered_state (fst (op_state ops (ec_store cf) u now)) st) (ec_holding cf)\<rparr>)"
| send: "map_of (ec_holding cf) t = Some (u, st) \<Longrightarrow>
    emission_step ops ns now (Some (t, u)) cf (cf\<lparr>ec_holding := AList.delete t (ec_holding cf),
      ec_leaving := AList.update t u (ec_leaving cf), ec_sent := ec_sent cf @ [(u, st)]\<rparr>)"
| release: "map_of (ec_leaving cf) t = Some u \<Longrightarrow>
    emission_step ops ns now None cf (cf\<lparr>ec_locks := redis_lock_release (ec_locks cf) (emission_key ns u) t now,
      ec_leaving := AList.delete t (ec_leaving cf)\<rparr>)"
| give_up: "(u, st) \<in> set (ec_waiting cf) \<Longrightarrow>
    emission_step ops ns now None cf (cf\<lparr>ec_waiting := remove1 (u, st) (ec_waiting cf)\<rparr>)"
| fail_read: "map_of (ec_locked cf) t = Some (u, st) \<Longrightarrow>
    emission_step ops ns now None cf (cf\<lparr>ec_locked := AList.delete t (ec_locked cf), ec_leaving := AList.update t u (ec_leaving cf)\<rparr>)"
| fail_send: "map_of (ec_holding cf) t = Some (u, st) \<Longrightarrow>
    emission_step ops ns now None cf (cf\<lparr>ec_holding := AList.delete t (ec_holding cf), ec_leaving := AList.update t u (ec_leaving cf)\<rparr>)"

inductive_cases emission_stepE: "emission_step ops ns now ev cf cf'"

text \<open>Runs after each step of which user \<open>u\<close> has a valid subscription, and in which whatever is sent to \<open>u\<close> is sent before
  the lock taken for it has expired.\<close>

inductive watched_run ::
  "'s presence_ops \<Rightarrow> string \<Rightarrow> ('s \<Rightarrow> rat \<Rightarrow> string \<Rightarrow> bool) \<Rightarrow> string \<Rightarrow> 's emission_conf \<Rightarrow> 's emission_conf \<Rightarrow> bool" for ops ns watched u where
  refl: "watched_run ops ns watched u cf cf"
| step: "watched_run ops ns watched u cf cf' \<Longrightarrow> emission_step ops ns now ev cf' cf'' \<Longrightarrow> watched (ec_store cf'') now u \<Longrightarrow>
    (\<forall>t. ev = Some (t, u) \<longrightarrow> lock_owner (ec_locks cf') (emission_key ns u) now = Some t) \<Longrightarrow>
    watched_run ops ns watched u cf cf''"

definition sent_to :: "string \<Rightarrow> 's emission_conf \<Rightarrow> nat list" where
  "sent_to u cf = map (\<lambda>(_, st). revision st) (filter (\<lambda>(v, _). v = u) (ec_sent cf))"

lemma sent_to_frame [simp]:
  "sent_to u (cf\<lparr>ec_store := s\<rparr>) = sent_to u cf" "sent_to u (cf\<lparr>ec_waiting := w\<rparr>) = sent_to u cf"
  "sent_to u (cf\<lparr>ec_holding := h\<rparr>) = sent_to u cf" "sent_to u (cf\<lparr>ec_locked := l\<rparr>) = sent_to u cf"
  "sent_to u (cf\<lparr>ec_locks := r\<rparr>) = sent_to u cf" "sent_to u (cf\<lparr>ec_tokens := ts\<rparr>) = sent_to u cf"
  "sent_to u (cf\<lparr>ec_leaving := d\<rparr>) = sent_to u cf"
  by (simp_all add: sent_to_def)

lemma sent_to_send [simp]:
  "sent_to u (cf\<lparr>ec_sent := ec_sent cf' @ [(v, st)]\<rparr>) = sent_to u cf' @ (if v = u then [revision st] else [])"
  by (simp add: sent_to_def)

lemma emission_key_inj [simp]: "emission_key ns u = emission_key ns v \<longleftrightarrow> u = v"
  by (simp add: emission_key_def)

text \<open>Which token the key of a user holds, expired or not.\<close>

definition key_token :: "redis_locks \<Rightarrow> string \<Rightarrow> string option" where
  "key_token locks key = map_option fst (map_of locks key)"

lemma lock_owner_key_token: "lock_owner locks key now = Some t \<Longrightarrow> key_token locks key = Some t"
  by (auto simp: lock_owner_def key_token_def split: option.splits if_splits)

lemma key_token_try: "redis_lock_try locks key t now = (True, locks') \<Longrightarrow> key_token locks' k = (if k = key then Some t else key_token locks k)"
  by (auto simp: redis_lock_try_def key_token_def update_conv' split: option.splits)

lemma key_token_release: "key_token (redis_lock_release locks key t now) k \<in> {None, key_token locks k}"
  by (auto simp: redis_lock_release_def key_token_def delete_conv')

context presence_store
begin

text \<open>No revision sent to the user is newer than the store's, nor than the state that the owner of the lock is about to send.\<close>

definition emission_inv :: "string \<Rightarrow> string \<Rightarrow> 's emission_conf \<Rightarrow> bool" where
  "emission_inv ns u cf \<longleftrightarrow> inv (ec_store cf) \<and>
     (\<forall>st. (u, st) \<in> set (ec_waiting cf) \<longrightarrow> revision st \<le> rv (ec_store cf) u) \<and>
     (\<forall>t st. map_of (ec_locked cf) t = Some (u, st) \<longrightarrow> revision st \<le> rv (ec_store cf) u) \<and>
     (\<forall>t st. map_of (ec_holding cf) t = Some (u, st) \<longrightarrow> t \<in> set (ec_tokens cf) \<and>
        revision st \<le> rv (ec_store cf) u \<and>
        (key_token (ec_locks cf) (emission_key ns u) = Some t \<longrightarrow> (\<forall>r \<in> set (sent_to u cf). r \<le> revision st))) \<and>
     (\<forall>t. map_of (ec_locked cf) t \<noteq> None \<longrightarrow> t \<in> set (ec_tokens cf)) \<and>
     (\<forall>r \<in> set (sent_to u cf). r \<le> rv (ec_store cf) u) \<and> sorted (sent_to u cf)"

lemma emission_inv_call:
  assumes i: "emission_inv ns u cf" and "call_ok now c" and w: "watched (run_call ops (ec_store cf) now c) now u"
  shows "emission_inv ns u (cf\<lparr>ec_store := run_call ops (ec_store cf) now c,
      ec_waiting := ec_waiting cf @ call_emits ops (ec_store cf) now c\<rparr>)"
proof -
  let ?s = "ec_store cf"
  have inv: "inv ?s" using i by (simp add: emission_inv_def)
  have le: "rv ?s u \<le> rv (run_call ops ?s now c) u" using inv w by (rule watched_rev)
  have new: "(u, st) \<in> set (call_emits ops ?s now c) \<Longrightarrow> revision st \<le> rv (run_call ops ?s now c) u" for st
    using inv w by (rule emits_rev)
  show ?thesis using i le new call_inv [OF inv assms(2)]
    by (fastforce simp: emission_inv_def)
qed

lemma emission_inv_lock:
  assumes i: "emission_inv ns u cf" and "(v, st) \<in> set (ec_waiting cf)" "t \<notin> set (ec_tokens cf)"
    and "redis_lock_try (ec_locks cf) (emission_key ns v) t now = (True, locks)"
  shows "emission_inv ns u (cf\<lparr>ec_locks := locks, ec_tokens := t # ec_tokens cf,
      ec_waiting := remove1 (v, st) (ec_waiting cf), ec_locked := AList.update t (v, st) (ec_locked cf)\<rparr>)"
  using i assms(2,3) unfolding emission_inv_def
  by (auto simp: update_conv' key_token_try [OF assms(4)] dest!: set_remove1_subset [THEN subsetD])

lemma emission_inv_read:
  assumes i: "emission_inv ns u cf" and "map_of (ec_locked cf) t = Some (v, st)" "0 \<le> now"
    and w: "watched (snd (op_state ops (ec_store cf) v now)) now u"
  shows "emission_inv ns u (cf\<lparr>ec_store := snd (op_state ops (ec_store cf) v now),
      ec_locked := AList.delete t (ec_locked cf),
      ec_holding := AList.update t (v, ordered_state (fst (op_state ops (ec_store cf) v now)) st) (ec_holding cf)\<rparr>)"
proof -
  let ?s = "ec_store cf" and ?s' = "snd (op_state ops (ec_store cf) v now)"
  have inv: "inv ?s" using i by (simp add: emission_inv_def)
  have le: "rv ?s u \<le> rv ?s' u" using watched_rev [OF inv, of now "CState v" u] w by simp
  have inv': "inv ?s'" using call_inv [OF inv, of now "CState v"] assms(3) by (simp add: call_ok_def)
  have hold: "revision (ordered_state (fst (op_state ops ?s v now)) st) = rv ?s u" if "v = u"
  proof -
    have "revision st \<le> rv ?s u" using i assms(2) that by (auto simp: emission_inv_def)
    then show ?thesis using that state_rev [OF inv, of v now] by (simp add: ordered_state_def)
  qed
  show ?thesis unfolding emission_inv_def
    using i le inv' hold assms(2) by (auto simp: emission_inv_def update_conv' delete_conv' intro: order_trans [OF _ le] split: if_splits)
qed

lemma emission_inv_send:
  assumes i: "emission_inv ns u cf" and "map_of (ec_holding cf) t = Some (v, st)"
    and "v = u \<Longrightarrow> key_token (ec_locks cf) (emission_key ns u) = Some t"
  shows "emission_inv ns u (cf\<lparr>ec_holding := AList.delete t (ec_holding cf),
      ec_leaving := AList.update t v (ec_leaving cf), ec_sent := ec_sent cf @ [(v, st)]\<rparr>)"
  using i assms(2,3) unfolding emission_inv_def by (auto simp: sorted_append delete_conv' split: if_splits)

lemma emission_inv_release:
  "emission_inv ns u cf \<Longrightarrow> emission_inv ns u (cf\<lparr>ec_locks := redis_lock_release (ec_locks cf) k t now, ec_leaving := d\<rparr>)"
  using key_token_release [of "ec_locks cf" k t now "emission_key ns u"] by (auto simp: emission_inv_def)

lemma emission_inv_fail:
  "emission_inv ns u cf \<Longrightarrow> emission_inv ns u (cf\<lparr>ec_waiting := remove1 x (ec_waiting cf)\<rparr>)"
  "emission_inv ns u cf \<Longrightarrow> emission_inv ns u (cf\<lparr>ec_locked := AList.delete t (ec_locked cf), ec_leaving := d\<rparr>)"
  "emission_inv ns u cf \<Longrightarrow> emission_inv ns u (cf\<lparr>ec_holding := AList.delete t (ec_holding cf), ec_leaving := d\<rparr>)"
  by (auto simp: emission_inv_def delete_conv' dest!: set_remove1_subset [THEN subsetD] split: if_splits)

lemma emission_inv_step:
  assumes "emission_step ops ns now ev cf cf'" "emission_inv ns u cf" "watched (ec_store cf') now u"
    and "\<forall>t. ev = Some (t, u) \<longrightarrow> lock_owner (ec_locks cf) (emission_key ns u) now = Some t"
  shows "emission_inv ns u cf'"
  using assms(1)
proof cases
  case (send t v st)
  have "key_token (ec_locks cf) (emission_key ns u) = Some t" if "v = u"
    using assms(4) send(1) that by (auto intro: lock_owner_key_token)
  with emission_inv_send [OF assms(2) send(3)] send(2) show ?thesis by simp
qed (use assms(2,3) in \<open>auto intro: emission_inv_call emission_inv_lock emission_inv_read emission_inv_release emission_inv_fail\<close>)

lemma watched_run_inv: "watched_run ops ns watched u cf cf' \<Longrightarrow> emission_inv ns u cf \<Longrightarrow> emission_inv ns u cf'"
proof (induction rule: watched_run.induct)
  case (step cf cf' now ev cf'')
  then show ?case using emission_inv_step by blast
qed

end

text \<open>No handler is emitting yet.\<close>

definition idle_conf :: "'s \<Rightarrow> redis_locks \<Rightarrow> 's emission_conf" where
  "idle_conf s locks = \<lparr>ec_store = s, ec_locks = locks, ec_tokens = map (fst \<circ> snd) locks, ec_waiting = [], ec_locked = [],
     ec_holding = [], ec_leaving = [], ec_sent = []\<rparr>"

text \<open>C10: With the Redis store, however update, clear, subscribe, disconnect, expiry and their emissions interleave across
  handlers and workers, fail, give up or let their locks expire, the states sent to a user carry non-decreasing
  revisions, as long as the user stays subscribed and each emission to the user is sent before the lock it took expires (30 seconds after it was taken).\<close>

theorem emissions_ordered:
  assumes "redis_inv db"
    and "watched_run (redis_presence_ops pre) ns (redis_watched pre) u (idle_conf db locks) cf"
  shows "sorted (sent_to u cf)"
proof -
  have "redispres.emission_inv pre ns u (idle_conf db locks)"
    using assms(1) by (simp add: redispres.emission_inv_def idle_conf_def sent_to_def)
  with redispres.watched_run_inv [OF assms(2)] show ?thesis by (simp add: redispres.emission_inv_def)
qed

theorem emissions_ordered_witness:
  "\<exists>cf. watched_run (redis_presence_ops ''p:'') ''n:'' (redis_watched ''p:'') ''u'' (idle_conf [] []) cf \<and>
      ec_sent cf \<noteq> [] \<and> sorted (sent_to ''u'' cf)"
proof -
  let ?ops = "redis_presence_ops ''p:''" and ?w = "redis_watched ''p:''" and ?key = "emission_key ''n:'' ''u''"
  let ?st = "\<lparr>ps_active = None, revision = 0\<rparr>"
  let ?db = "[(''p:u'', \<lparr>rs_revision = 0, rs_entries = [], rs_subscribers = [(''s'', 31)]\<rparr>)] :: redis_presence"
  note ev = redis_presence_ops_def redis_subscribe_def redis_state_op_def lua_subscribe_def lua_state_def
    lua_prune_subscribers_def empty_redis_state_def Let_def put_key_def redis_key_def PRESENCE_TTL_SECONDS_def
    lua_result_def lua_select_active_def redis_user_def state_watched_def lua_load_def ordered_state_def call_ok_def
  let ?c0 = "idle_conf [] [] :: redis_presence emission_conf"
  let ?c1 = "?c0\<lparr>ec_store := ?db, ec_waiting := [(''u'', ?st)]\<rparr>"
  let ?c2 = "?c1\<lparr>ec_locks := [(?key, ''t'', 32)], ec_tokens := [''t''], ec_waiting := [], ec_locked := [(''t'', ''u'', ?st)]\<rparr>"
  let ?c3 = "?c2\<lparr>ec_locked := [], ec_holding := [(''t'', ''u'', ?st)]\<rparr>"
  let ?c4 = "?c3\<lparr>ec_holding := [], ec_leaving := [(''t'', ''u'')], ec_sent := [(''u'', ?st)]\<rparr>"
  have s1: "emission_step ?ops ''n:'' 1 None ?c0 ?c1"
    using emission_step.call [of 1 "CSubscribe ''u'' ''s''" ?ops "''n:''" ?c0] by (simp add: ev idle_conf_def)
  have s2: "emission_step ?ops ''n:'' 2 None ?c1 ?c2"
    using emission_step.lock [of "''u''" ?st ?c1 "''t''" "''n:''" 2 "[(?key, ''t'', 32)]" ?ops]
    by (simp add: idle_conf_def redis_lock_try_def lock_owner_def)
  have s3: "emission_step ?ops ''n:'' 3 None ?c2 ?c3"
    using emission_step.read [of ?c2 "''t''" "''u''" ?st 3 ?ops "''n:''"] by (simp add: ev idle_conf_def)
  have s4: "emission_step ?ops ''n:'' 4 (Some (''t'', ''u'')) ?c3 ?c4"
    using emission_step.send [of ?c3 "''t''" "''u''" ?st ?ops "''n:''" 4] by (simp add: idle_conf_def)
  have w: "?w ?db t ''u''" if "t < 31" for t using that by (simp add: ev)
  have run: "watched_run ?ops ''n:'' ?w ''u'' ?c0 ?c4"
    by (rule watched_run.step [OF watched_run.step [OF watched_run.step [OF watched_run.step [OF watched_run.refl s1] s2] s3] s4])
      (simp_all add: w idle_conf_def lock_owner_def)
  moreover have "sorted (sent_to ''u'' ?c4)" by (rule emissions_ordered [OF _ run]) (simp add: redis_inv_def)
  ultimately show ?thesis by (intro exI [of _ ?c4]) simp
qed

end
