(* ===== verification/Py_Regex.thy ===== *)
theory Py_Regex
  imports Py_Str
begin

section \<open>The part of Python's re module the sources use\<close>

text \<open>
  A backtracking matcher in the manner of \<open>re\<close>: \<open>rx_run r s (i, g)\<close> lists the ways \<open>r\<close>
  matches \<open>s\<close> from position \<open>i\<close>, best first, each with its end position and the span of the
  one capture group the patterns have. Greedy repetition tries more iterations first, and an
  iteration that consumes nothing ends it. On top of it stand \<open>match\<close> at a position,
  \<open>search\<close>, \<open>fullmatch\<close> and \<open>sub\<close>.
\<close>

datatype regex =
    Cls "char \<Rightarrow> bool"
  | RxSeq regex regex
  | RxAlt regex regex
  | RxOpt regex
  | RxStar regex
  | RxGroup regex
  | WordB
  | NotBehind "char \<Rightarrow> bool"
  | NotAhead "char \<Rightarrow> bool"
  | RxEmpty

type_synonym rx_state = "nat \<times> (nat \<times> nat) option"

fun star_run :: "nat \<Rightarrow> (rx_state \<Rightarrow> rx_state list) \<Rightarrow> rx_state \<Rightarrow> rx_state list" where
  "star_run 0 f st = [st]"
| "star_run (Suc n) f st = concat (map (\<lambda>st'. if fst st < fst st' then star_run n f st' else []) (f st)) @ [st]"

definition word_at :: "string \<Rightarrow> nat \<Rightarrow> bool" where
  "word_at s i \<longleftrightarrow> i < length s \<and> is_word (s ! i)"

definition word_boundary :: "string \<Rightarrow> nat \<Rightarrow> bool" where
  "word_boundary s i \<longleftrightarrow> word_at s i \<noteq> (0 < i \<and> word_at s (i - 1))"

primrec rx_run :: "regex \<Rightarrow> string \<Rightarrow> rx_state \<Rightarrow> rx_state list" where
  "rx_run (Cls P) s st = (if fst st < length s \<and> P (s ! fst st) then [(fst st + 1, snd st)] else [])"
| "rx_run (RxSeq a b) s st = concat (map (rx_run b s) (rx_run a s st))"
| "rx_run (RxAlt a b) s st = rx_run a s st @ rx_run b s st"
| "rx_run (RxOpt a) s st = rx_run a s st @ [st]"
| "rx_run (RxStar a) s st = star_run (length s - fst st) (rx_run a s) st"
| "rx_run (RxGroup a) s st = map (\<lambda>st'. (fst st', Some (fst st, fst st'))) (rx_run a s st)"
| "rx_run WordB s st = (if word_boundary s (fst st) then [st] else [])"
| "rx_run (NotBehind P) s st = (if 0 < fst st \<and> P (s ! (fst st - 1)) then [] else [st])"
| "rx_run (NotAhead P) s st = (if fst st < length s \<and> P (s ! fst st) then [] else [st])"
| "rx_run RxEmpty s st = [st]"

definition rx_match_at :: "regex \<Rightarrow> string \<Rightarrow> nat \<Rightarrow> rx_state option" where
  "rx_match_at r s i = (case rx_run r s (i, None) of [] \<Rightarrow> None | st # _ \<Rightarrow> Some st)"

text \<open>\<open>search\<close> from position \<open>i\<close>: the start and the result of the leftmost match.\<close>

fun rx_search_at :: "regex \<Rightarrow> string \<Rightarrow> nat list \<Rightarrow> (nat \<times> rx_state) option" where
  "rx_search_at r s [] = None"
| "rx_search_at r s (i # is) = (case rx_match_at r s i of Some st \<Rightarrow> Some (i, st) | None \<Rightarrow> rx_search_at r s is)"

definition rx_search_from :: "regex \<Rightarrow> string \<Rightarrow> nat \<Rightarrow> (nat \<times> rx_state) option" where
  "rx_search_from r s i = rx_search_at r s [i..<length s + 1]"

definition rx_search :: "regex \<Rightarrow> string \<Rightarrow> bool" where
  "rx_search r s \<longleftrightarrow> rx_search_from r s 0 \<noteq> None"

definition rx_match :: "regex \<Rightarrow> string \<Rightarrow> bool" where
  "rx_match r s \<longleftrightarrow> rx_match_at r s 0 \<noteq> None"

definition rx_fullmatch :: "regex \<Rightarrow> string \<Rightarrow> rx_state option" where
  "rx_fullmatch r s = List.find (\<lambda>st. fst st = length s) (rx_run r s (0, None))"

definition slice :: "string \<Rightarrow> nat \<Rightarrow> nat \<Rightarrow> string" where
  "slice s i j = take (j - i) (drop i s)"

text \<open>
  \<open>sub\<close>, with the replacement computed from the match state. No pattern of the sources
  matches the empty string; an empty match ends the substitution here.
\<close>

function rx_sub_from :: "regex \<Rightarrow> (rx_state \<Rightarrow> string) \<Rightarrow> string \<Rightarrow> nat \<Rightarrow> string" where
  "rx_sub_from r f s i = (case rx_search_from r s i of
      None \<Rightarrow> drop i s
    | Some (j, st) \<Rightarrow> if i \<le> j \<and> j < fst st \<and> fst st \<le> length s then slice s i j @ f st @ rx_sub_from r f s (fst st)
                      else drop i s)"
  by pat_completeness auto
termination
  by (relation "measure (\<lambda>(r, f, s, i). length s - i)") auto

declare rx_sub_from.simps [simp del]

definition rx_sub :: "regex \<Rightarrow> (rx_state \<Rightarrow> string) \<Rightarrow> string \<Rightarrow> string" where
  "rx_sub r f s = rx_sub_from r f s 0"

subsection \<open>Building patterns\<close>

definition lit :: "string \<Rightarrow> regex" where
  "lit s = foldr (\<lambda>c r. RxSeq (Cls ((=) c)) r) s RxEmpty"

text \<open>A literal under \<open>(?i)\<close>, given in lower case.\<close>

definition ilit :: "string \<Rightarrow> regex" where
  "ilit s = foldr (\<lambda>c r. RxSeq (Cls (\<lambda>x. lower_char x = c)) r) s RxEmpty"

fun alts :: "regex list \<Rightarrow> regex" where
  "alts [] = RxEmpty"
| "alts [r] = r"
| "alts (r # r' # rs) = RxAlt r (alts (r' # rs))"

fun seqs :: "regex list \<Rightarrow> regex" where
  "seqs [] = RxEmpty"
| "seqs (r # rs) = RxSeq r (seqs rs)"

definition plus :: "regex \<Rightarrow> regex" where
  "plus r = RxSeq r (RxStar r)"

text \<open>\<open>r{m,m+n}\<close>.\<close>

fun upto_times :: "nat \<Rightarrow> regex \<Rightarrow> regex" where
  "upto_times 0 r = RxEmpty"
| "upto_times (Suc n) r = RxOpt (RxSeq r (upto_times n r))"

fun times :: "nat \<Rightarrow> nat \<Rightarrow> regex \<Rightarrow> regex" where
  "times 0 n r = upto_times n r"
| "times (Suc m) n r = RxSeq r (times m n r)"

subsection \<open>Matches move forward inside the string\<close>

text \<open>Matches only ever move forward and stay inside the string.\<close>

lemma star_run_bound:
  assumes "\<And>st st'. fst st \<le> n \<Longrightarrow> st' \<in> set (f st) \<Longrightarrow> fst st \<le> fst st' \<and> fst st' \<le> n"
  shows "st' \<in> set (star_run k f st) \<Longrightarrow> fst st \<le> n \<Longrightarrow> fst st \<le> fst st' \<and> fst st' \<le> n"
proof (induction k arbitrary: st)
  case (Suc k)
  then consider "st' = st" | st1 where "st1 \<in> set (f st)" "fst st < fst st1" "st' \<in> set (star_run k f st1)"
    by (auto split: if_splits)
  then show ?case
  proof cases
    case 2
    with assms [of st st1] Suc.prems(2) have "fst st1 \<le> n" by simp
    with Suc.IH [of st1] 2 show ?thesis by auto
  qed (use Suc in auto)
qed simp

lemma rx_run_bound:
  "st' \<in> set (rx_run r s st) \<Longrightarrow> fst st \<le> length s \<Longrightarrow> fst st \<le> fst st' \<and> fst st' \<le> length s"
proof (induction r arbitrary: st st')
  case (RxSeq a b)
  then obtain st1 where "st1 \<in> set (rx_run a s st)" "st' \<in> set (rx_run b s st1)" by auto
  with RxSeq.IH(1) [of st1 st] RxSeq.IH(2) [of st' st1] RxSeq.prems(2) show ?case by auto
next
  case (RxStar a)
  show ?case
    by (rule star_run_bound [of "length s" "rx_run a s" st' "length s - fst st" st])
      (use RxStar.prems RxStar.IH in auto)
qed (fastforce split: if_splits)+

lemma rx_search_at_Some: "rx_search_at r s is = Some (j, st) \<Longrightarrow> j \<in> set is \<and> rx_match_at r s j = Some st"
  by (induction "is") (auto split: option.splits)

lemma rx_search_at_None: "rx_search_at r s is = None \<longleftrightarrow> (\<forall>j \<in> set is. rx_match_at r s j = None)"
  by (induction "is") (auto split: option.splits)

lemma rx_search_from_Some:
  assumes "rx_search_from r s i = Some (j, st)"
  shows "i \<le> j \<and> j \<le> fst st \<and> fst st \<le> length s"
proof -
  from rx_search_at_Some [OF assms [unfolded rx_search_from_def]]
  have j: "i \<le> j" "j \<le> length s" and "st \<in> set (rx_run r s (j, None))"
    by (auto simp: rx_match_at_def split: list.splits)
  with rx_run_bound [of st r s "(j, None)"] show ?thesis by simp
qed

end
