(* ===== verification/Py_Url.thy ===== *)
theory Py_Url
  imports Py_Regex
begin

section \<open>URLs and IP addresses: urllib.parse.urlsplit, ipaddress, the idna codec\<close>

text \<open>
  The parts of the standard library that decide what server origin a browser extension may
  talk to, as Python 3.11 has them. The check of non-ASCII network locations under NFKC
  never fires on code points below 256; the IDNA encoding of a non-ASCII host is a parameter.
\<close>

subsection \<open>IP addresses\<close>

definition is_hex :: "char \<Rightarrow> bool" where
  "is_hex c \<longleftrightarrow> is_digit c \<or> 65 \<le> code c \<and> code c \<le> 70 \<or> 97 \<le> code c \<and> code c \<le> 102"

definition hex_digit :: "char \<Rightarrow> nat" where
  "hex_digit c = (if is_digit c then code c - 48 else if code c \<le> 70 then code c - 55 else code c - 87)"

definition hex_value :: "string \<Rightarrow> nat" where
  "hex_value s = foldl (\<lambda>n c. 16 * n + hex_digit c) 0 s"

definition parse_octet :: "string \<Rightarrow> nat option" where
  "parse_octet s =
     (if s = [] \<or> \<not> list_all is_digit s \<or> length s > 3 \<or> (s \<noteq> ''0'' \<and> hd s = CHR ''0'') \<or> digits_value s > 255 then None
      else Some (digits_value s))"

definition parse_ipv4 :: "string \<Rightarrow> nat option" where
  "parse_ipv4 s =
     (if s = [] \<or> CHR ''/'' \<in> set s then None
      else case map parse_octet (split_on (CHR ''.'') s) of
        [Some a, Some b, Some c, Some d] \<Rightarrow> Some (((a * 256 + b) * 256 + c) * 256 + d)
      | _ \<Rightarrow> None)"

definition parse_hextet :: "string \<Rightarrow> nat option" where
  "parse_hextet s = (if s = [] \<or> \<not> list_all is_hex s \<or> length s > 4 then None else Some (hex_value s))"

text \<open>The groups of an IPv6 address, an IPv4 suffix standing for two; \<open>None\<close> is an empty group.\<close>

definition ipv6_groups :: "string \<Rightarrow> (string + nat) list option" where
  "ipv6_groups s =
     (let parts = split_on (CHR '':'') s
      in if length parts < 3 then None
         else if CHR ''.'' \<in> set (last parts) then
           (case parse_ipv4 (last parts) of
              None \<Rightarrow> None
            | Some v \<Rightarrow> Some (map Inl (butlast parts) @ [Inr (v div 65536), Inr (v mod 65536)]))
         else Some (map Inl parts))"

definition group_value :: "string + nat \<Rightarrow> nat option" where
  "group_value g = (case g of Inl s \<Rightarrow> parse_hextet s | Inr v \<Rightarrow> Some v)"

definition groups_value :: "(string + nat) list \<Rightarrow> nat \<Rightarrow> nat option" where
  "groups_value gs acc =
     foldl (\<lambda>a g. case (a, group_value g) of (Some n, Some v) \<Rightarrow> Some (n * 65536 + v) | _ \<Rightarrow> None) (Some acc) gs"

definition ipv6_value :: "(string + nat) list \<Rightarrow> nat option" where
  "ipv6_value parts =
     (let n = length parts; skips = filter (\<lambda>i. parts ! i = Inl []) [1..<n - 1]
      in if n > 9 \<or> length skips > 1 then None
         else case skips of
           [] \<Rightarrow> if n \<noteq> 8 \<or> hd parts = Inl [] \<or> last parts = Inl [] then None else groups_value parts 0
         | skip # _ \<Rightarrow>
             (let lead = (hd parts = Inl []); trail = (last parts = Inl []);
                  parts_hi = (if lead then skip - 1 else skip);
                  parts_lo = (if trail then n - skip - 2 else n - skip - 1)
              in if (lead \<and> parts_hi \<noteq> 0) \<or> (trail \<and> parts_lo \<noteq> 0) \<or> parts_hi + parts_lo > 7 then None
                 else case groups_value (take parts_hi parts) 0 of
                   None \<Rightarrow> None
                 | Some hi \<Rightarrow> groups_value (drop (n - parts_lo) parts) (hi * 65536 ^ (8 - (parts_hi + parts_lo)))))"

definition parse_ipv6 :: "string \<Rightarrow> nat option" where
  "parse_ipv6 s =
     (if CHR ''/'' \<in> set s then None
      else case py_partition (CHR ''%'') s of (addr, sep, scope) \<Rightarrow>
        if sep \<and> (scope = [] \<or> CHR ''%'' \<in> set scope) then None
        else if addr = [] then None
        else case ipv6_groups addr of None \<Rightarrow> None | Some parts \<Rightarrow> ipv6_value parts)"

text \<open>\<open>ipaddress.ip_address(host).is_loopback\<close>, \<open>None\<close> for the \<open>ValueError\<close>.\<close>

definition ip_is_loopback :: "string \<Rightarrow> bool option" where
  "ip_is_loopback host = (case parse_ipv4 host of
      Some v \<Rightarrow> Some (v div 16777216 = 127)
    | None \<Rightarrow> (case parse_ipv6 host of Some v \<Rightarrow> Some (v = 1) | None \<Rightarrow> None))"

subsection \<open>urlsplit\<close>

record split_result =
  u_scheme :: string
  netloc :: string
  u_path :: string
  u_query :: string
  u_fragment :: string

definition c0_or_space :: "char \<Rightarrow> bool" where
  "c0_or_space c \<longleftrightarrow> code c \<le> 32"

definition scheme_char :: "char \<Rightarrow> bool" where
  "scheme_char c \<longleftrightarrow> is_ascii_alpha c \<or> is_digit c \<or> c \<in> set ''+-.''"

definition split_scheme :: "string \<Rightarrow> string \<times> string" where
  "split_scheme url = (case py_partition (CHR '':'') url of (a, found, b) \<Rightarrow>
     if found \<and> a \<noteq> [] \<and> is_ascii_alpha (hd a) \<and> list_all scheme_char a then (py_lower a, b) else ([], url))"

definition ends_netloc :: "char \<Rightarrow> bool" where
  "ends_netloc c \<longleftrightarrow> c = CHR ''/'' \<or> c = CHR ''?'' \<or> c = CHR ''#''"

definition check_bracketed_host :: "string \<Rightarrow> bool" where
  "check_bracketed_host h =
     (if startswith ''v'' h then
        rx_match (seqs [lit ''v'', plus (Cls is_hex), lit ''.'', plus (Cls (\<lambda>c. code c \<noteq> 10)), NotAhead (\<lambda>_. True)]) h
      else parse_ipv4 h = None \<and> parse_ipv6 h \<noteq> None)"

definition urlsplit :: "string \<Rightarrow> split_result option" where
  "urlsplit raw =
     (let url = filter (\<lambda>c. code c \<noteq> 9 \<and> code c \<noteq> 10 \<and> code c \<noteq> 13) (lstrip_by c0_or_space raw);
          (sch, url1) = split_scheme url;
          has_netloc = startswith ''//'' url1;
          loc = (if has_netloc then takeWhile (\<lambda>c. \<not> ends_netloc c) (drop 2 url1) else []);
          url2 = (if has_netloc then dropWhile (\<lambda>c. \<not> ends_netloc c) (drop 2 url1) else url1);
          opens = (CHR ''['' \<in> set loc); closes = (CHR '']'' \<in> set loc);
          bracketed = fst (py_partition (CHR '']'') (snd (snd (py_partition (CHR ''['') loc))));
          (url3, _, frag) = py_partition (CHR ''#'') url2;
          (path, _, qry) = py_partition (CHR ''?'') url3
      in if opens \<noteq> closes \<or> (opens \<and> closes \<and> \<not> check_bracketed_host bracketed) then None
         else Some \<lparr>u_scheme = sch, netloc = loc, u_path = path, u_query = qry, u_fragment = frag\<rparr>)"

definition has_credentials :: "split_result \<Rightarrow> bool" where
  "has_credentials u = (CHR ''@'' \<in> set (netloc u))"

definition hostinfo :: "split_result \<Rightarrow> string \<times> string option" where
  "hostinfo u =
     (let (_, _, info) = py_rpartition (CHR ''@'') (netloc u);
          (_, open_br, bracketed) = py_partition (CHR ''['') info;
          (host, port) = (if open_br then
             (let (h, _, p) = py_partition (CHR '']'') bracketed; (_, _, p') = py_partition (CHR '':'') p in (h, p'))
           else (let (h, _, p) = py_partition (CHR '':'') info in (h, p)))
      in (host, if port = [] then None else Some port))"

definition url_hostname :: "split_result \<Rightarrow> string option" where
  "url_hostname u =
     (let h = fst (hostinfo u)
      in if h = [] then None
         else case py_partition (CHR ''%'') h of (a, pc, zone) \<Rightarrow> Some (py_lower a @ (if pc then ''%'' else []) @ zone))"

text \<open>\<open>Inl ()\<close> is the \<open>ValueError\<close> of the \<open>port\<close> property.\<close>

definition url_port :: "split_result \<Rightarrow> (unit, nat option) result" where
  "url_port u = (case snd (hostinfo u) of
      None \<Rightarrow> Inr None
    | Some p \<Rightarrow> if list_all is_digit p \<and> digits_value p \<le> 65535 then Inr (Some (digits_value p)) else Inl ())"

text \<open>\<open>host.encode('idna').decode('ascii')\<close>; \<open>idna\<close> encodes what is not ASCII.\<close>

definition idna_encode :: "(string \<Rightarrow> string option) \<Rightarrow> string \<Rightarrow> string option" where
  "idna_encode idna host =
     (if host = [] then Some []
      else if list_all is_ascii host then
        (let labels = split_on (CHR ''.'') host
         in if list_all (\<lambda>l. 0 < length l \<and> length l < 64) (butlast labels) \<and> length (last labels) < 64 then Some host else None)
      else idna host)"

end
