(* ===== verification/Py_Json.thy ===== *)
theory Py_Json
  imports Py_Url
begin

section \<open>json.dumps and json.loads\<close>

text \<open>
  The encoder with the options the sources pass (\<open>ensure_ascii\<close>, \<open>separators\<close>, \<open>sort_keys\<close>) and
  the decoder, on text of code points below 256. \<open>float_repr\<close> stands for \<open>float.__repr__\<close>; a
  number with a fraction or an exponent is read as its exact decimal value. An escape
  beyond \<open>\u00ff\<close> is outside the model and read as an error. The decoder runs on fuel, of which
  \<open>json_loads\<close> gives it twice the length of the text: reading a character costs at most two
  units, one for an element and one for its value.
\<close>

record json_opts =
  ensure_ascii :: bool
  item_space :: string
  key_space :: string
  sort_keys :: bool
  float_repr :: "rat \<Rightarrow> string"

definition hex_char :: "nat \<Rightarrow> char" where
  "hex_char n = char_of (if n < 10 then 48 + n else 87 + n)"

definition json_char :: "bool \<Rightarrow> char \<Rightarrow> string" where
  "json_char ascii c =
     (if c = CHR 0x22 then [CHR 0x5C, c] else if c = CHR 0x5C then [c, c]
      else if c = CHR 0x0A then [CHR 0x5C, CHR ''n''] else if c = CHR 0x0D then [CHR 0x5C, CHR ''r'']
      else if c = CHR 0x09 then [CHR 0x5C, CHR ''t''] else if c = CHR 0x0C then [CHR 0x5C, CHR ''f'']
      else if c = CHR 0x08 then [CHR 0x5C, CHR ''b'']
      else if code c < 32 \<or> ascii \<and> 126 < code c
           then [CHR 0x5C, CHR ''u'', CHR ''0'', CHR ''0'', hex_char (code c div 16), hex_char (code c mod 16)]
      else [c])"

definition json_str :: "bool \<Rightarrow> string \<Rightarrow> string" where
  "json_str ascii s = CHR 0x22 # concat (map (json_char ascii) s) @ [CHR 0x22]"

definition json_float :: "json_opts \<Rightarrow> pyfloat \<Rightarrow> string" where
  "json_float o' f = (case f of Fin r \<Rightarrow> float_repr o' r | PInf \<Rightarrow> ''Infinity'' | NInf \<Rightarrow> ''-Infinity'' | NaN \<Rightarrow> ''NaN'')"

definition json_sorted :: "json_opts \<Rightarrow> (string \<times> 'a) list \<Rightarrow> (string \<times> 'a) list" where
  "json_sorted o' d = (if sort_keys o' then sort_key fst d else d)"

fun json_text :: "json_opts \<Rightarrow> pyval \<Rightarrow> string" where
  "json_text o' PNone = ''null''"
| "json_text o' (PBool b) = (if b then ''true'' else ''false'')"
| "json_text o' (PInt i) = int_str i"
| "json_text o' (PFloat f) = json_float o' f"
| "json_text o' (PStr s) = json_str (ensure_ascii o') s"
| "json_text o' (PBytes s) = []"
| "json_text o' (PList l) = ''['' @ joined ('','' @ item_space o') (map (json_text o') l) @ '']''"
| "json_text o' (PTuple l) = ''['' @ joined ('','' @ item_space o') (map (json_text o') l) @ '']''"
| "json_text o' (PDict d) = ''{'' @ joined ('','' @ item_space o')
     (map (\<lambda>(k, t). json_str (ensure_ascii o') k @ '':'' @ key_space o' @ t)
       (json_sorted o' (map (\<lambda>(k, v). (k, json_text o' v)) d))) @ ''}''"

fun json_serializable :: "pyval \<Rightarrow> bool" where
  "json_serializable (PBytes s) = False"
| "json_serializable (PList l) = list_all json_serializable l"
| "json_serializable (PTuple l) = list_all json_serializable l"
| "json_serializable (PDict d) = list_all (\<lambda>(k, v). json_serializable v) d"
| "json_serializable v = True"

text \<open>\<open>None\<close> is the \<open>TypeError\<close> of \<open>dumps\<close>.\<close>

definition json_dumps :: "json_opts \<Rightarrow> pyval \<Rightarrow> string option" where
  "json_dumps o' v = (if json_serializable v then Some (json_text o' v) else None)"

subsection \<open>The decoder\<close>

definition json_ws :: "char \<Rightarrow> bool" where
  "json_ws c \<longleftrightarrow> code c = 32 \<or> code c = 9 \<or> code c = 10 \<or> code c = 13"

definition skip_ws :: "string \<Rightarrow> string" where
  "skip_ws s = dropWhile json_ws s"

definition unescape :: "char \<Rightarrow> char option" where
  "unescape e =
     (if e = CHR 0x22 \<or> e = CHR 0x5C \<or> e = CHR ''/'' then Some e else if e = CHR ''b'' then Some (CHR 0x08)
      else if e = CHR ''f'' then Some (CHR 0x0C) else if e = CHR ''n'' then Some (CHR 0x0A)
      else if e = CHR ''r'' then Some (CHR 0x0D) else if e = CHR ''t'' then Some (CHR 0x09) else None)"

text \<open>\<open>scanstring\<close>, after the opening quote: the text and what follows the closing quote.\<close>

fun scan_string :: "string \<Rightarrow> (string \<times> string) option" where
  "scan_string [] = None"
| "scan_string (c # cs) =
     (if c = CHR 0x22 then Some ([], cs)
      else if c = CHR 0x5C then
        (case cs of
           [] \<Rightarrow> None
         | e # r \<Rightarrow>
             if e = CHR ''u'' then
               (case r of
                  a # b # x # y # r' \<Rightarrow>
                    if list_all is_hex [a, b, x, y] \<and> hex_value [a, b, x, y] < 256
                    then map_option (\<lambda>(t, u). (char_of (hex_value [a, b, x, y]) # t, u)) (scan_string r') else None
                | _ \<Rightarrow> None)
             else (case unescape e of None \<Rightarrow> None | Some k \<Rightarrow> map_option (\<lambda>(t, u). (k # t, u)) (scan_string r)))
      else if code c < 32 then None
      else map_option (\<lambda>(t, u). (c # t, u)) (scan_string cs))"

definition scan_int :: "string \<Rightarrow> (string \<times> string) option" where
  "scan_int s = (case s of
      [] \<Rightarrow> None
    | c # cs \<Rightarrow> if c = CHR ''0'' then Some (''0'', cs)
               else if is_digit c then Some (takeWhile is_digit s, dropWhile is_digit s) else None)"

definition scan_fraction :: "string \<Rightarrow> string \<times> string" where
  "scan_fraction s = (case s of
      c # cs \<Rightarrow> if c = CHR ''.'' \<and> cs \<noteq> [] \<and> is_digit (hd cs) then (takeWhile is_digit cs, dropWhile is_digit cs) else ([], s)
    | [] \<Rightarrow> ([], s))"

definition scan_exponent :: "string \<Rightarrow> int option \<times> string" where
  "scan_exponent s = (case s of
      c # cs \<Rightarrow>
        (let neg = (cs \<noteq> [] \<and> hd cs = CHR ''-''); ds = (if cs \<noteq> [] \<and> (hd cs = CHR ''-'' \<or> hd cs = CHR ''+'') then tl cs else cs)
         in if (c = CHR ''e'' \<or> c = CHR ''E'') \<and> ds \<noteq> [] \<and> is_digit (hd ds)
            then (Some ((if neg then - 1 else 1) * int (digits_value (takeWhile is_digit ds))), dropWhile is_digit ds) else (None, s))
    | [] \<Rightarrow> (None, s))"

definition number_value :: "bool \<Rightarrow> string \<Rightarrow> string \<Rightarrow> int option \<Rightarrow> pyval" where
  "number_value neg ds fr ex =
     (if fr = [] \<and> ex = None then PInt ((if neg then - 1 else 1) * int (digits_value ds))
      else PFloat (Fin ((if neg then - 1 else 1) * of_nat (digits_value (ds @ fr)) / 10 ^ length fr *
             (case ex of None \<Rightarrow> 1 | Some e \<Rightarrow> if 0 \<le> e then 10 ^ nat e else 1 / 10 ^ nat (- e)))))"

definition scan_number :: "string \<Rightarrow> (pyval \<times> string) option" where
  "scan_number s =
     (let neg = (s \<noteq> [] \<and> hd s = CHR ''-''); s1 = (if neg then tl s else s)
      in case scan_int s1 of
           None \<Rightarrow> None
         | Some (ds, s2) \<Rightarrow>
             (let (fr, s3) = scan_fraction s2; (ex, s4) = scan_exponent s3 in Some (number_value neg ds fr ex, s4)))"

definition scan_word :: "string \<Rightarrow> (pyval \<times> string) option" where
  "scan_word s =
     (if startswith ''null'' s then Some (PNone, drop 4 s) else if startswith ''true'' s then Some (PBool True, drop 4 s)
      else if startswith ''false'' s then Some (PBool False, drop 5 s) else if startswith ''NaN'' s then Some (PFloat NaN, drop 3 s)
      else if startswith ''Infinity'' s then Some (PFloat PInf, drop 8 s)
      else if startswith ''-Infinity'' s then Some (PFloat NInf, drop 9 s) else scan_number s)"

text \<open>
  \<open>scan_once\<close>, and the loops of arrays and objects. A later duplicate of a key replaces the
  value of the first.
\<close>

fun json_value :: "nat \<Rightarrow> string \<Rightarrow> (pyval \<times> string) option"
and json_items :: "nat \<Rightarrow> string \<Rightarrow> (pyval list \<times> string) option"
and json_members :: "nat \<Rightarrow> string \<Rightarrow> ((string \<times> pyval) list \<times> string) option" where
  "json_value 0 s = None"
| "json_value (Suc n) s = (case s of
      [] \<Rightarrow> None
    | c # cs \<Rightarrow>
        if c = CHR 0x22 then map_option (\<lambda>(t, r). (PStr t, r)) (scan_string cs)
        else if c = CHR ''['' then
          (case skip_ws cs of
             x # r \<Rightarrow> if x = CHR '']'' then Some (PList [], r) else map_option (\<lambda>(l, r'). (PList l, r')) (json_items n (skip_ws cs))
           | [] \<Rightarrow> None)
        else if c = CHR ''{'' then
          (case skip_ws cs of
             x # r \<Rightarrow> if x = CHR ''}'' then Some (PDict [], r)
                      else map_option (\<lambda>(d, r'). (PDict (foldl (\<lambda>m (k, v). AList.update k v m) [] d), r')) (json_members n (skip_ws cs))
           | [] \<Rightarrow> None)
        else scan_word s)"
| "json_items 0 s = None"
| "json_items (Suc n) s = (case json_value n s of
      None \<Rightarrow> None
    | Some (v, r) \<Rightarrow> (case skip_ws r of
        x # r' \<Rightarrow> if x = CHR '']'' then Some ([v], r')
                  else if x = CHR '','' then map_option (\<lambda>(l, r''). (v # l, r'')) (json_items n (skip_ws r')) else None
      | [] \<Rightarrow> None))"
| "json_members 0 s = None"
| "json_members (Suc n) s = (case s of
      [] \<Rightarrow> None
    | c # cs \<Rightarrow> if c \<noteq> CHR 0x22 then None else (case scan_string cs of
        None \<Rightarrow> None
      | Some (k, r) \<Rightarrow> (case skip_ws r of
          [] \<Rightarrow> None
        | x # r1 \<Rightarrow> if x \<noteq> CHR '':'' then None else (case json_value n (skip_ws r1) of
            None \<Rightarrow> None
          | Some (v, r2) \<Rightarrow> (case skip_ws r2 of
              [] \<Rightarrow> None
            | y # r3 \<Rightarrow> if y = CHR ''}'' then Some ([(k, v)], r3)
                       else if y = CHR '','' then map_option (\<lambda>(d, r4). ((k, v) # d, r4)) (json_members n (skip_ws r3)) else None)))))"

text \<open>\<open>None\<close> is \<open>JSONDecodeError\<close>.\<close>

definition json_loads :: "string \<Rightarrow> pyval option" where
  "json_loads s = (case json_value (2 * length s) (skip_ws s) of
      Some (v, r) \<Rightarrow> if skip_ws r = [] then Some v else None
    | None \<Rightarrow> None)"

subsection \<open>Round trip\<close>

text \<open>What may follow a value: not a character that continues a number.\<close>

definition ends_value :: "string \<Rightarrow> bool" where
  "ends_value s \<longleftrightarrow> (s = [] \<or> \<not> is_digit (hd s) \<and> hd s \<notin> set ''.eE'')"

text \<open>The text of the float is a number that reads back as the float; \<open>NaN\<close> is not equal to itself.\<close>

definition float_reads_back :: "json_opts \<Rightarrow> pyfloat \<Rightarrow> bool" where
  "float_reads_back o' f \<longleftrightarrow> (case f of
      Fin r \<Rightarrow> (\<exists>c cs. float_repr o' r = c # cs \<and> (is_digit c \<or> c = CHR ''-'' \<and> cs \<noteq> [] \<and> is_digit (hd cs))) \<and>
        (\<forall>rest. ends_value rest \<longrightarrow> scan_number (float_repr o' r @ rest) = Some (PFloat f, rest))
    | NaN \<Rightarrow> False
    | _ \<Rightarrow> True)"

text \<open>
  Values that JSON can represent: no bytes or tuples, floats that read back, and dictionaries with
  distinct keys. \<open>json_plain\<close>: with all dictionaries in the order the encoder writes them.
\<close>

fun json_data :: "json_opts \<Rightarrow> pyval \<Rightarrow> bool" where
  "json_data o' (PList l) = list_all (json_data o') l"
| "json_data o' (PDict d) \<longleftrightarrow> distinct (map fst d) \<and> list_all (\<lambda>(k, v). json_data o' v) d"
| "json_data o' (PFloat f) = float_reads_back o' f"
| "json_data o' (PBytes b) = False"
| "json_data o' (PTuple l) = False"
| "json_data o' v = True"

fun json_plain :: "json_opts \<Rightarrow> pyval \<Rightarrow> bool" where
  "json_plain o' (PList l) = list_all (json_plain o') l"
| "json_plain o' (PDict d) \<longleftrightarrow> distinct (map fst d) \<and> (sort_keys o' \<longrightarrow> sorted (map fst d)) \<and> list_all (\<lambda>(k, v). json_plain o' v) d"
| "json_plain o' (PFloat f) = float_reads_back o' f"
| "json_plain o' (PBytes b) = False"
| "json_plain o' (PTuple l) = False"
| "json_plain o' v = True"

definition opts_ok :: "json_opts \<Rightarrow> bool" where
  "opts_ok o' \<longleftrightarrow> list_all json_ws (item_space o') \<and> list_all json_ws (key_space o')"

lemma hex_char_laws: "n < 16 \<Longrightarrow> is_hex (hex_char n) \<and> hex_digit (hex_char n) = n"
  by (auto simp: is_hex_def hex_char_def hex_digit_def is_digit_def)

lemma scan_string_char:
  "scan_string (json_char a c @ cs) = map_option (\<lambda>(t, u). (c # t, u)) (scan_string cs)"
proof -
  have lt: "code c div 16 < 16" "code c mod 16 < 16" by (simp_all add: div_less_iff_less_mult)
  have hv: "hex_value [CHR ''0'', CHR ''0'', hex_char (code c div 16), hex_char (code c mod 16)] = code c"
    using hex_char_laws [OF lt(1)] hex_char_laws [OF lt(2)] by (simp add: hex_value_def hex_digit_def is_digit_def)
  have hx: "list_all is_hex [CHR ''0'', CHR ''0'', hex_char (code c div 16), hex_char (code c mod 16)]"
    using hex_char_laws [OF lt(1)] hex_char_laws [OF lt(2)] by (simp add: is_hex_def is_digit_def)
  consider "c \<in> {CHR 0x22, CHR 0x5C, CHR 0x0A, CHR 0x0D, CHR 0x09, CHR 0x0C, CHR 0x08}"
    | "c \<notin> {CHR 0x22, CHR 0x5C, CHR 0x0A, CHR 0x0D, CHR 0x09, CHR 0x0C, CHR 0x08}" "code c < 32 \<or> a \<and> 126 < code c"
    | "c \<notin> {CHR 0x22, CHR 0x5C, CHR 0x0A, CHR 0x0D, CHR 0x09, CHR 0x0C, CHR 0x08}" "\<not> (code c < 32 \<or> a \<and> 126 < code c)"
    by blast
  then show ?thesis
  proof cases
    case 1
    then show ?thesis by (elim insertE emptyE) (simp_all add: json_char_def unescape_def)
  next
    case 2
    then show ?thesis using hv hx by (simp add: json_char_def)
  next
    case 3
    then show ?thesis by (auto simp: json_char_def)
  qed
qed

lemma scan_string_json: "scan_string (concat (map (json_char a) s) @ CHR 0x22 # rest) = Some (s, rest)"
  by (induction s) (simp_all add: scan_string_char del: scan_string.simps(2), simp)

lemma skip_ws_append: "list_all json_ws ws \<Longrightarrow> skip_ws (ws @ s) = skip_ws s"
  by (induction ws) (auto simp: skip_ws_def)

lemma skip_ws_Cons: "\<not> json_ws c \<Longrightarrow> skip_ws (c # s) = c # s"
  by (simp add: skip_ws_def)

lemma takeWhile_digits:
  assumes "list_all is_digit ds" "ends_value rest"
  shows "takeWhile is_digit (ds @ rest) = ds" "dropWhile is_digit (ds @ rest) = rest"
  using assms by (induction ds) (cases rest; auto simp: ends_value_def)+

lemma nat_digits_zero: "hd (nat_digits n) = CHR ''0'' \<Longrightarrow> n = 0"
proof (induction n rule: nat_digits.induct)
  case (1 n)
  show ?case
  proof (cases "n < 10")
    case True
    then have "nat_digits n = [char_of (48 + n)]" by (subst nat_digits.simps) simp
    then have "code (char_of (48 + n)) = code (CHR ''0'')" using 1(2) by simp
    then show ?thesis using True by simp
  next
    case False
    then have "hd (nat_digits n) = hd (nat_digits (n div 10))" by (subst nat_digits.simps) simp
    then have "n div 10 = 0" using 1 False by simp
    then show ?thesis using False by (simp add: div_eq_0_iff)
  qed
qed

lemma scan_int_digits:
  assumes "ends_value rest"
  shows "scan_int (nat_digits n @ rest) = Some (nat_digits n, rest)"
proof -
  have dig: "list_all is_digit (nat_digits n)" using nat_digits_digit by (auto simp: list_all_iff)
  obtain c cs where c: "nat_digits n = c # cs" by (cases "nat_digits n") auto
  have "c = CHR ''0'' \<Longrightarrow> cs = []"
  proof -
    assume "c = CHR ''0''"
    then have "n = 0" using nat_digits_zero [of n] c by simp
    moreover have "char_of (48 :: nat) = CHR ''0''"
    proof -
      have "code (char_of (48 :: nat)) = code (CHR ''0'')" by simp
      then show ?thesis by (simp only: of_char_eq_iff)
    qed
    ultimately have "nat_digits n = ''0''" by (subst nat_digits.simps) simp
    then show "cs = []" using c by simp
  qed
  then show ?thesis
    using dig takeWhile_digits [OF dig assms] unfolding c by (auto simp: scan_int_def)
qed

lemma scan_number_int: "ends_value rest \<Longrightarrow> scan_number (int_str i @ rest) = Some (PInt i, rest)"
proof -
  assume rest: "ends_value rest"
  have fr: "scan_fraction rest = ([], rest)" using rest by (cases rest) (auto simp: scan_fraction_def ends_value_def)
  have ex: "scan_exponent rest = (None, rest)" using rest by (cases rest) (auto simp: scan_exponent_def ends_value_def Let_def)
  have nm: "hd (nat_digits n @ rest) \<noteq> CHR ''-''" for n
    using nat_digits_digit [of "hd (nat_digits n)" n] by (auto simp: hd_append is_digit_def)
  show ?thesis
    using nm scan_int_digits [OF rest]
    by (simp add: scan_number_def int_str_def fr ex number_value_def digits_value_nat_digits Let_def)
qed

lemma scan_word_digit: "is_digit d \<Longrightarrow> scan_word (d # s) = scan_number (d # s)"
proof -
  assume "is_digit d"
  then have "d \<noteq> CHR ''n''" "d \<noteq> CHR ''t''" "d \<noteq> CHR ''f''" "d \<noteq> CHR ''N''" "d \<noteq> CHR ''I''" "d \<noteq> CHR ''-''"
    by (auto simp: is_digit_def)
  then show ?thesis by (simp add: scan_word_def startswith_def)
qed

lemma scan_word_minus: "is_digit d \<Longrightarrow> scan_word (CHR ''-'' # d # s) = scan_number (CHR ''-'' # d # s)"
proof -
  assume "is_digit d"
  then have "d \<noteq> CHR ''I''" by (auto simp: is_digit_def)
  then show ?thesis by (simp add: scan_word_def startswith_def)
qed

lemma scan_word_int: "ends_value rest \<Longrightarrow> scan_word (int_str i @ rest) = Some (PInt i, rest)"
proof -
  assume rest: "ends_value rest"
  have "scan_word (int_str i @ rest) = scan_number (int_str i @ rest)"
  proof (cases "i < 0")
    case True
    then obtain d ds where "int_str i = CHR ''-'' # d # ds" "is_digit d"
      using nat_digits_digit [of _ "nat (- i)"] by (cases "nat_digits (nat (- i))") (auto simp: int_str_def)
    then show ?thesis by (simp add: scan_word_minus)
  next
    case False
    then obtain d ds where "int_str i = d # ds" "is_digit d"
      using nat_digits_digit [of _ "nat i"] by (cases "nat_digits (nat i)") (auto simp: int_str_def)
    then show ?thesis by (simp add: scan_word_digit)
  qed
  then show ?thesis using scan_number_int [OF rest, of i] by simp
qed

text \<open>How the text of a value starts.\<close>

definition value_start :: "char \<Rightarrow> bool" where
  "value_start c \<longleftrightarrow> \<not> json_ws c \<and> c \<noteq> CHR '']'' \<and> c \<noteq> CHR ''}''"

lemma int_str_start: "\<exists>c cs. int_str i = c # cs \<and> (c = CHR ''-'' \<or> is_digit c)"
  using nat_digits_digit [of _ "nat i"] by (cases "nat_digits (nat i)") (auto simp: int_str_def)

lemma json_text_start: "json_plain o' v \<Longrightarrow> \<exists>c cs. json_text o' v = c # cs \<and> value_start c"
proof (cases v)
  case (PInt i)
  then show ?thesis using int_str_start [of i] by (auto simp: value_start_def json_ws_def is_digit_def)
next
  case (PFloat f)
  moreover assume "json_plain o' v"
  ultimately show ?thesis
    by (auto simp: float_reads_back_def json_float_def value_start_def json_ws_def is_digit_def split: pyfloat.splits)
qed (auto simp: value_start_def json_ws_def json_str_def)

text \<open>The text of an element parses back with fuel for twice its length.\<close>

definition parses_back :: "json_opts \<Rightarrow> pyval \<Rightarrow> bool" where
  "parses_back o' v \<longleftrightarrow> (\<forall>n rest. 2 * length (json_text o' v) \<le> n \<longrightarrow> ends_value rest \<longrightarrow>
     json_value n (json_text o' v @ rest) = Some (v, rest))"

lemma joined_text_length:
  "length (joined (CHR '','' # ws) (t # t' # ts)) = length t + 1 + length ws + length (joined (CHR '','' # ws) (t' # ts))"
  by (simp add: joined_Cons_Cons)

lemma ends_value_close [simp]: "ends_value (CHR '']'' # r)" "ends_value (CHR '','' # r)" "ends_value (CHR ''}'' # r)" "ends_value []"
  by (simp_all add: ends_value_def is_digit_def)

lemma json_items_text:
  assumes "opts_ok o'" and "vs \<noteq> []" and "\<forall>v \<in> set vs. parses_back o' v \<and> json_plain o' v"
    and "2 * length (joined (CHR '','' # item_space o') (map (json_text o') vs)) + 1 \<le> n"
  shows "json_items n (joined (CHR '','' # item_space o') (map (json_text o') vs) @ CHR '']'' # rest) = Some (vs, rest)"
  using assms
proof (induction vs arbitrary: n)
  case (Cons v vs)
  let ?sep = "CHR '','' # item_space o'"
  obtain m where n: "n = Suc m" using Cons.prems(4) by (cases n) auto
  show ?case
  proof (cases vs)
    case Nil
    then have "json_value m (json_text o' v @ CHR '']'' # rest) = Some (v, CHR '']'' # rest)"
      using Cons.prems n by (simp add: parses_back_def joined_def)
    then show ?thesis using Nil n by (simp add: joined_def skip_ws_Cons json_ws_def)
  next
    case (Cons v' vs')
    let ?tail = "joined ?sep (map (json_text o') vs) @ CHR '']'' # rest"
    have split: "joined ?sep (map (json_text o') (v # vs)) @ CHR '']'' # rest = json_text o' v @ CHR '','' # item_space o' @ ?tail"
      using Cons by (simp add: joined_Cons_Cons)
    have len: "2 * length (json_text o' v) \<le> m" "2 * length (joined ?sep (map (json_text o') vs)) + 1 \<le> m"
      using Cons.prems(4) n local.Cons joined_text_length [of "item_space o'" "json_text o' v" "json_text o' v'" "map (json_text o') vs'"]
      by simp_all
    have val: "json_value m (json_text o' v @ CHR '','' # item_space o' @ ?tail) = Some (v, CHR '','' # item_space o' @ ?tail)"
      using Cons.prems(3) len(1) by (simp add: parses_back_def)
    obtain c cs where start: "json_text o' v' = c # cs" "value_start c"
      using json_text_start [of o' v'] Cons.prems(3) local.Cons by auto
    have "?tail \<noteq> []" "hd ?tail = c" using start local.Cons by (cases vs'; simp add: joined_def)+
    then have skip: "skip_ws (item_space o' @ ?tail) = ?tail"
      using assms(1) start(2) by (simp add: opts_ok_def skip_ws_append) (cases ?tail; simp add: skip_ws_def value_start_def)
    have "json_items m ?tail = Some (vs, rest)"
      using Cons.IH [OF assms(1), of m] Cons.prems(3) len(2) local.Cons by simp
    then show ?thesis
      unfolding split n by (simp add: val skip skip_ws_Cons json_ws_def)
  qed
qed simp

definition member_text :: "json_opts \<Rightarrow> string \<times> pyval \<Rightarrow> string" where
  "member_text o' m = json_str (ensure_ascii o') (fst m) @ CHR '':'' # key_space o' @ json_text o' (snd m)"

lemma json_value_start:
  assumes "json_plain o' v" and "list_all json_ws ws"
  shows "skip_ws (ws @ json_text o' v @ r) = json_text o' v @ r"
proof -
  obtain c cs where "json_text o' v = c # cs" "value_start c" using json_text_start [OF assms(1)] by auto
  then show ?thesis using assms(2) by (simp add: skip_ws_append skip_ws_Cons value_start_def)
qed

text \<open>One member, up to the character that follows it.\<close>

lemma json_member_text:
  assumes "opts_ok o'" and "parses_back o' v" and "json_plain o' v" and "2 * length (member_text o' (k, v)) \<le> m" and "ends_value (x # r)"
    and "\<not> json_ws x"
  shows "json_members (Suc m) (member_text o' (k, v) @ x # r) =
     (if x = CHR ''}'' then Some ([(k, v)], r)
      else if x = CHR '','' then map_option (\<lambda>(d, r4). ((k, v) # d, r4)) (json_members m (skip_ws r)) else None)"
proof -
  have val: "json_value m (json_text o' v @ x # r) = Some (v, x # r)"
    using assms(2,4,5) by (simp add: parses_back_def member_text_def)
  have "skip_ws (key_space o' @ json_text o' v @ x # r) = json_text o' v @ x # r"
    using assms(1,3) by (simp add: json_value_start opts_ok_def)
  then show ?thesis
    using val assms(6) by (simp add: member_text_def json_str_def scan_string_json skip_ws_Cons json_ws_def)
qed

lemma json_members_text:
  assumes "opts_ok o'" and "d \<noteq> []" and "\<forall>m \<in> set d. parses_back o' (snd m) \<and> json_plain o' (snd m)"
    and "2 * length (joined (CHR '','' # item_space o') (map (member_text o') d)) + 1 \<le> n"
  shows "json_members n (joined (CHR '','' # item_space o') (map (member_text o') d) @ CHR ''}'' # rest) = Some (d, rest)"
  using assms
proof (induction d arbitrary: n)
  case (Cons p d)
  let ?sep = "CHR '','' # item_space o'"
  obtain k v where p: "p = (k, v)" by force
  obtain m where n: "n = Suc m" using Cons.prems(4) by (cases n) auto
  show ?case
  proof (cases d)
    case Nil
    then show ?thesis using Cons.prems n p json_member_text [OF assms(1), of v k m "CHR ''}''" rest]
      by (simp add: joined_def json_ws_def)
  next
    case (Cons p' d')
    let ?tail = "joined ?sep (map (member_text o') d) @ CHR ''}'' # rest"
    have split: "joined ?sep (map (member_text o') (p # d)) @ CHR ''}'' # rest = member_text o' p @ CHR '','' # item_space o' @ ?tail"
      using Cons by (simp add: joined_Cons_Cons)
    have len: "2 * length (member_text o' p) \<le> m" "2 * length (joined ?sep (map (member_text o') d)) + 1 \<le> m"
      using Cons.prems(4) n local.Cons joined_text_length [of "item_space o'" "member_text o' p" "member_text o' p'" "map (member_text o') d'"]
      by simp_all
    have "?tail \<noteq> []" "hd ?tail = CHR 0x22" using local.Cons by (cases d'; simp add: joined_def member_text_def json_str_def)+
    then have skip: "skip_ws (item_space o' @ ?tail) = ?tail"
      using assms(1) by (simp add: opts_ok_def skip_ws_append) (cases ?tail; simp add: skip_ws_def json_ws_def)
    have "json_members m ?tail = Some (d, rest)"
      using Cons.IH [OF assms(1), of m] Cons.prems(3) len(2) local.Cons by simp
    then show ?thesis
      unfolding split n using json_member_text [OF assms(1), of v k m "CHR '',''" "item_space o' @ ?tail"] Cons.prems(3) len(1) p
      by (simp add: skip json_ws_def del: json_members.simps(2))
  qed
qed simp

lemma foldl_update_distinct:
  "distinct (map fst (acc @ d)) \<Longrightarrow> foldl (\<lambda>m (k, v). AList.update k v m) acc d = acc @ d"
proof (induction d arbitrary: acc)
  case (Cons p d)
  obtain k v where p: "p = (k, v)" by force
  then have "AList.update k v acc = acc @ [(k, v)]" using Cons.prems by (intro update_new) (force simp: has_key_def)
  then show ?case using Cons.IH [of "acc @ [(k, v)]"] Cons.prems p by simp
qed simp

lemma json_text_dict:
  assumes "json_plain o' (PDict d)"
  shows "json_text o' (PDict d) = CHR ''{'' # joined (CHR '','' # item_space o') (map (member_text o') d) @ ''}''"
proof -
  have "json_sorted o' (map (\<lambda>(k, v). (k, json_text o' v)) d) = map (\<lambda>(k, v). (k, json_text o' v)) d"
    using assms by (auto simp: json_sorted_def sort_key_id_if_sorted comp_def split_beta)
  then show ?thesis by (simp add: member_text_def [abs_def] comp_def split_beta)
qed

lemma json_scalar_parses:
  "parses_back o' PNone" "parses_back o' (PBool b)" "parses_back o' (PInt i)" "parses_back o' (PStr t)"
proof -
  have suc: "P n" if "\<And>m. P (Suc m)" and "0 < n" for P and n :: nat using that by (cases n) auto
  show "parses_back o' PNone" unfolding parses_back_def
    by (intro allI impI, rule suc) (auto simp: scan_word_def startswith_def)
  show "parses_back o' (PBool b)" unfolding parses_back_def
    by (cases b; intro allI impI, rule suc) (auto simp: scan_word_def startswith_def)
  show "parses_back o' (PInt i)" unfolding parses_back_def
  proof (intro allI impI)
    fix n rest assume n: "2 * length (json_text o' (PInt i)) \<le> n" and rest: "ends_value rest"
    obtain c cs where c: "int_str i = c # cs" "c = CHR ''-'' \<or> is_digit c" using int_str_start by blast
    then obtain m where m: "n = Suc m" using n by (cases n) auto
    have "c \<noteq> CHR 0x22" "c \<noteq> CHR ''[''" "c \<noteq> CHR ''{''" using c(2) by (auto simp: is_digit_def)
    then have "json_value n (int_str i @ rest) = scan_word (int_str i @ rest)" using c(1) m by simp
    then show "json_value n (json_text o' (PInt i) @ rest) = Some (PInt i, rest)" using scan_word_int [OF rest] by simp
  qed
  show "parses_back o' (PStr t)" unfolding parses_back_def
    by (intro allI impI, rule suc) (auto simp: json_str_def scan_string_json)
qed

lemma scan_word_float:
  assumes "float_reads_back o' f" "ends_value rest"
  shows "scan_word (json_float o' f @ rest) = Some (PFloat f, rest)"
proof (cases f)
  case (Fin r)
  then obtain c cs where c: "float_repr o' r = c # cs" "is_digit c \<or> c = CHR ''-'' \<and> cs \<noteq> [] \<and> is_digit (hd cs)"
    and r: "scan_number (float_repr o' r @ rest) = Some (PFloat f, rest)"
    using assms by (auto simp: float_reads_back_def)
  have "scan_word (float_repr o' r @ rest) = scan_number (float_repr o' r @ rest)"
    using c by (cases cs) (auto simp: scan_word_digit scan_word_minus)
  then show ?thesis using r Fin by (simp add: json_float_def)
qed (use assms in \<open>simp_all add: float_reads_back_def json_float_def scan_word_def startswith_def\<close>)

lemma json_float_parses:
  assumes "float_reads_back o' f"
  shows "parses_back o' (PFloat f)"
  unfolding parses_back_def
proof (intro allI impI)
  fix n rest assume n: "2 * length (json_text o' (PFloat f)) \<le> n" and rest: "ends_value rest"
  have d: "is_digit x \<Longrightarrow> x \<noteq> CHR 0x22 \<and> x \<noteq> CHR ''['' \<and> x \<noteq> CHR ''{''" for x by (auto simp: is_digit_def)
  obtain c cs where c: "json_float o' f = c # cs" "c \<noteq> CHR 0x22" "c \<noteq> CHR ''[''" "c \<noteq> CHR ''{''"
    using assms by (fastforce simp: float_reads_back_def json_float_def split: pyfloat.splits dest: d)
  then obtain m where m: "n = Suc m" using n by (cases n) auto
  then have "json_value n (json_float o' f @ rest) = scan_word (json_float o' f @ rest)" using c by simp
  then show "json_value n (json_text o' (PFloat f) @ rest) = Some (PFloat f, rest)" using scan_word_float [OF assms rest] by simp
qed

lemma json_plain_parses: "opts_ok o' \<Longrightarrow> json_plain o' v \<Longrightarrow> parses_back o' v"
proof (induction v)
  case (PList l)
  show ?case unfolding parses_back_def
  proof (intro allI impI)
    fix n rest assume n: "2 * length (json_text o' (PList l)) \<le> n"
    then obtain m where m: "n = Suc m" by (cases n) auto
    show "json_value n (json_text o' (PList l) @ rest) = Some (PList l, rest)"
    proof (cases l)
      case Nil
      then show ?thesis using m by (simp add: joined_def skip_ws_def json_ws_def)
    next
      case (Cons v l')
      let ?txt = "joined (CHR '','' # item_space o') (map (json_text o') l)"
      have plain: "\<forall>x \<in> set l. json_plain o' x" using PList.prems(2) by (simp add: list_all_iff)
      obtain c cs where "json_text o' v = c # cs" and c: "value_start c" using json_text_start [of o' v] plain Cons by auto
      then obtain ds where tx: "?txt = c # ds" using Cons by (cases l') (auto simp: joined_def)
      have "json_items m (?txt @ CHR '']'' # rest) = Some (l, rest)"
        using PList plain n m Cons by (intro json_items_text) auto
      then show ?thesis using m tx c by (simp add: skip_ws_Cons value_start_def)
    qed
  qed
next
  case (PDict d)
  show ?case unfolding parses_back_def
  proof (intro allI impI)
    fix n rest assume n: "2 * length (json_text o' (PDict d)) \<le> n"
    then obtain m where m: "n = Suc m" by (cases n) auto
    show "json_value n (json_text o' (PDict d) @ rest) = Some (PDict d, rest)"
    proof (cases d)
      case Nil
      then show ?thesis using m by (simp add: json_sorted_def joined_def skip_ws_def json_ws_def)
    next
      case (Cons p d')
      let ?txt = "joined (CHR '','' # item_space o') (map (member_text o') d)"
      have plain: "\<forall>x \<in> set d. parses_back o' (snd x) \<and> json_plain o' (snd x)"
        using PDict by (fastforce simp: list_all_iff snds.simps)
      obtain ds where tx: "?txt = CHR 0x22 # ds" using Cons by (cases d') (auto simp: joined_def member_text_def json_str_def)
      have "json_members m (?txt @ CHR ''}'' # rest) = Some (d, rest)"
      proof (rule json_members_text [OF PDict.prems(1) _ plain])
        show "2 * length ?txt + 1 \<le> m" using n unfolding m json_text_dict [OF PDict.prems(2)] by simp
      qed (simp add: Cons)
      moreover have "foldl (\<lambda>m (k, v). AList.update k v m) [] d = d" using PDict.prems(2) by (simp add: foldl_update_distinct)
      ultimately show ?thesis unfolding json_text_dict [OF PDict.prems(2)] using m tx by (simp add: skip_ws_Cons json_ws_def)
    qed
  qed
qed (simp_all add: json_scalar_parses json_float_parses)

text \<open>The round trip: what \<open>dumps\<close> writes \<open>loads\<close> reads back.\<close>

lemma json_loads_text:
  assumes "opts_ok o'" and "json_plain o' v"
  shows "json_loads (json_text o' v) = Some v"
proof -
  have "json_value (2 * length (json_text o' v)) (json_text o' v @ []) = Some (v, [])"
    using json_plain_parses [OF assms] ends_value_close(4) unfolding parses_back_def by blast
  moreover have "skip_ws (json_text o' v) = json_text o' v" using json_value_start [OF assms(2), of "[]" "[]"] by simp
  ultimately show ?thesis by (simp add: json_loads_def skip_ws_def)
qed

text \<open>With \<open>sort_keys\<close> the dictionary comes back in key order.\<close>

lemma json_text_sort:
  "sort_keys o' \<Longrightarrow> json_text o' (PDict (sort_key fst d)) = json_text o' (PDict d)"
proof -
  have "sort_key fst (map (\<lambda>(k, v). (k, json_text o' v)) (sort_key fst d)) =
      sort_key fst (map (\<lambda>(k, v). (k, json_text o' v)) d)"
  proof -
    have "map (\<lambda>(k, v). (k, f v)) (insort_key fst x xs) = insort_key fst ((\<lambda>(k, v). (k, f v)) x) (map (\<lambda>(k, v). (k, f v)) xs)"
      for f :: "pyval \<Rightarrow> string" and x :: "string \<times> pyval" and xs
      by (induction xs) (auto simp: split_beta)
    then have "map (\<lambda>(k, v). (k, f v)) (sort_key fst xs) = sort_key fst (map (\<lambda>(k, v). (k, f v)) xs)"
      for f :: "pyval \<Rightarrow> string" and xs :: "(string \<times> pyval) list"
      by (induction xs) simp_all
    then show ?thesis by (simp add: sort_key_id_if_sorted)
  qed
  then show "sort_keys o' \<Longrightarrow> ?thesis" by (simp add: json_sorted_def)
qed

text \<open>The value that comes back: every dictionary in the order it was written.\<close>

fun json_order :: "json_opts \<Rightarrow> pyval \<Rightarrow> pyval" where
  "json_order o' (PList l) = PList (map (json_order o') l)"
| "json_order o' (PDict d) = PDict (json_sorted o' (map (\<lambda>(k, v). (k, json_order o' v)) d))"
| "json_order o' v = v"

lemma json_sorted_laws [simp]:
  "set (json_sorted o' d) = set d" "length (json_sorted o' d) = length d" "distinct (map fst (json_sorted o' d)) = distinct (map fst d)"
proof -
  have "distinct (map fst e) \<longleftrightarrow> card (fst ` set e) = length e" for e :: "(string \<times> 'a) list"
    using distinct_card [of "map fst e"] card_distinct [of "map fst e"] by auto
  then show "distinct (map fst (json_sorted o' d)) = distinct (map fst d)" by (simp add: json_sorted_def)
qed (simp_all add: json_sorted_def)

lemma json_text_dict_cong:
  "(\<And>k v. (k, v) \<in> set d \<Longrightarrow> json_text o' (f v) = json_text o' v) \<Longrightarrow>
   json_text o' (PDict (map (\<lambda>(k, v). (k, f v)) d)) = json_text o' (PDict d)"
proof -
  assume "\<And>k v. (k, v) \<in> set d \<Longrightarrow> json_text o' (f v) = json_text o' v"
  then have "map (\<lambda>(k, v). (k, json_text o' v)) (map (\<lambda>(k, v). (k, f v)) d) = map (\<lambda>(k, v). (k, json_text o' v)) d" by auto
  then show ?thesis by (simp only: json_text.simps)
qed

lemma json_text_order: "json_text o' (json_order o' v) = json_text o' v"
proof (induction v)
  case (PDict d)
  let ?d = "map (\<lambda>(k, v). (k, json_order o' v)) d"
  have "json_text o' (PDict (json_sorted o' ?d)) = json_text o' (PDict ?d)"
    by (cases "sort_keys o'") (simp_all add: json_sorted_def json_text_sort del: json_text.simps)
  also have "\<dots> = json_text o' (PDict d)" by (rule json_text_dict_cong) (use PDict in \<open>fastforce simp: snds.simps\<close>)
  finally show ?case by simp
qed (simp_all add: comp_def cong: map_cong)

lemma json_order_plain: "json_data o' v \<Longrightarrow> json_plain o' (json_order o' v)"
proof (induction v)
  case (PDict d)
  let ?d = "map (\<lambda>(k, v). (k, json_order o' v)) d"
  have "\<forall>(k, v) \<in> set ?d. json_plain o' v" using PDict by (fastforce simp: list_all_iff snds.simps)
  moreover have "sort_keys o' \<longrightarrow> sorted (map fst (json_sorted o' ?d))" by (simp add: json_sorted_def)
  moreover have "map fst ?d = map fst d" by (induction d) auto
  ultimately show ?case using PDict.prems by (simp add: list_all_iff del: map_map)
qed (auto simp: list_all_iff)

text \<open>The round trip of any such value.\<close>

lemma json_loads_data: "opts_ok o' \<Longrightarrow> json_data o' v \<Longrightarrow> json_loads (json_text o' v) = Some (json_order o' v)"
  using json_loads_text [of o' "json_order o' v"] json_order_plain [of o' v] by (simp add: json_text_order)

lemma json_data_serializable: "json_data o' v \<Longrightarrow> json_serializable v"
  by (induction v) (fastforce simp: list_all_iff)+

end
