(* ===== verification/Browser_Forms.thy ===== *)
theory Browser_Forms
  imports Py_Json
begin

section \<open>What the browser extension endpoints accept (routers/browser\_extension.py)\<close>

text \<open>
  The validators of schedule rules, recorded workflow definitions and navigation URLs, with the
  part of \<open>urllib.parse\<close> they use: user info, query strings and percent-decoding. Decoded
  text is a list of code points, since an escape can decode to any character.
\<close>

subsection \<open>Query strings\<close>

text \<open>\<open>unquote_to_bytes\<close> on ASCII text.\<close>

fun pct_bytes :: "string \<Rightarrow> nat list" where
  "pct_bytes [] = []"
| "pct_bytes (c # a # b # s) =
     (if c = CHR ''%'' \<and> is_hex a \<and> is_hex b then (16 * hex_digit a + hex_digit b) # pct_bytes s else code c # pct_bytes (a # b # s))"
| "pct_bytes (c # s) = code c # pct_bytes s"

definition cont_byte :: "nat \<Rightarrow> bool" where
  "cont_byte b \<longleftrightarrow> 128 \<le> b \<and> b < 192"

definition second_ok :: "nat \<Rightarrow> nat \<Rightarrow> bool" where
  "second_ok b c \<longleftrightarrow> cont_byte c \<and> (b = 224 \<longrightarrow> 160 \<le> c) \<and> (b = 237 \<longrightarrow> c < 160) \<and> (b = 240 \<longrightarrow> 144 \<le> c) \<and> (b = 244 \<longrightarrow> c < 144)"

text \<open>\<open>bytes.decode('utf-8', 'replace')\<close>: one U+FFFD for each maximal ill-formed part.\<close>

fun utf8_replace :: "nat list \<Rightarrow> nat list" where
  "utf8_replace [] = []"
| "utf8_replace (b # bs) =
     (if b < 128 then b # utf8_replace bs
      else if 194 \<le> b \<and> b < 224 then
        (case bs of
           c # cs \<Rightarrow> if cont_byte c then ((b - 192) * 64 + (c - 128)) # utf8_replace cs else 65533 # utf8_replace bs
         | [] \<Rightarrow> [65533])
      else if 224 \<le> b \<and> b < 240 then
        (case bs of
           c # cs \<Rightarrow>
             if \<not> second_ok b c then 65533 # utf8_replace bs
             else (case cs of
               d # ds \<Rightarrow> if cont_byte d then ((b - 224) * 4096 + (c - 128) * 64 + (d - 128)) # utf8_replace ds else 65533 # utf8_replace cs
             | [] \<Rightarrow> [65533])
         | [] \<Rightarrow> [65533])
      else if 240 \<le> b \<and> b < 245 then
        (case bs of
           c # cs \<Rightarrow>
             if \<not> second_ok b c then 65533 # utf8_replace bs
             else (case cs of
               d # ds \<Rightarrow>
                 if \<not> cont_byte d then 65533 # utf8_replace cs
                 else (case ds of
                   e # es \<Rightarrow>
                     if cont_byte e then ((b - 240) * 262144 + (c - 128) * 4096 + (d - 128) * 64 + (e - 128)) # utf8_replace es
                     else 65533 # utf8_replace ds
                 | [] \<Rightarrow> [65533])
             | [] \<Rightarrow> [65533])
         | [] \<Rightarrow> [65533])
      else 65533 # utf8_replace bs)"

text \<open>\<open>unquote\<close>: the runs of ASCII text are decoded, other characters stay.\<close>

function unquote :: "string \<Rightarrow> nat list" where
  "unquote [] = []"
| "unquote (c # s) =
     (if is_ascii c then utf8_replace (pct_bytes (c # takeWhile is_ascii s)) @ unquote (dropWhile is_ascii s)
      else code c # unquote s)"
  by pat_completeness auto
termination
  by (relation "measure length") (auto simp: le_imp_less_Suc length_dropWhile_le)

definition unquote_plus :: "string \<Rightarrow> nat list" where
  "unquote_plus s = unquote (map (\<lambda>c. if c = CHR ''+'' then CHR '' '' else c) s)"

text \<open>\<open>parse_qsl(qs, keep_blank_values=True)\<close>.\<close>

definition parse_qsl :: "string \<Rightarrow> (nat list \<times> nat list) list" where
  "parse_qsl qs = map (\<lambda>nv. case py_partition (CHR ''='') nv of (name, _, value) \<Rightarrow> (unquote_plus name, unquote_plus value))
     (filter (\<lambda>nv. nv \<noteq> []) (split_on (CHR ''&'') qs))"

definition url_userinfo :: "split_result \<Rightarrow> string \<times> string" where
  "url_userinfo u = (case py_rpartition (CHR ''@'') (netloc u) of (userinfo, found, _) \<Rightarrow>
     if found then (case py_partition (CHR '':'') userinfo of (user, _, password) \<Rightarrow> (user, password)) else ([], []))"

subsection \<open>Schedule rules\<close>

definition RRULE_FREQUENCIES :: "string list" where
  "RRULE_FREQUENCIES = [''MINUTELY'', ''HOURLY'', ''DAILY'', ''WEEKLY'']"

definition RRULE_KEYS :: "string list" where
  "RRULE_KEYS = [''FREQ'', ''INTERVAL'', ''BYDAY'', ''BYHOUR'', ''BYMINUTE'']"

definition digit_range :: "nat \<Rightarrow> nat \<Rightarrow> char \<Rightarrow> bool" where
  "digit_range a b c \<longleftrightarrow> 48 + a \<le> code c \<and> code c \<le> 48 + b"

definition INTERVAL_PATTERN :: regex where
  "INTERVAL_PATTERN = seqs [Cls (digit_range 1 9), times 0 2 (Cls (digit_range 0 9))]"

definition DAY_PATTERN :: regex where
  "DAY_PATTERN = alts (map lit [''MO'', ''TU'', ''WE'', ''TH'', ''FR'', ''SA'', ''SU''])"

definition BYDAY_PATTERN :: regex where
  "BYDAY_PATTERN = seqs [DAY_PATTERN, RxStar (seqs [lit '','', DAY_PATTERN])]"

definition BYHOUR_PATTERN :: regex where
  "BYHOUR_PATTERN = alts [Cls (digit_range 0 9), seqs [lit ''1'', Cls (digit_range 0 9)], seqs [lit ''2'', Cls (digit_range 0 3)]]"

definition BYMINUTE_PATTERN :: regex where
  "BYMINUTE_PATTERN = alts [Cls (digit_range 0 9), seqs [Cls (digit_range 1 5), Cls (digit_range 0 9)]]"

text \<open>\<open>key in rule and not re.fullmatch(pattern, rule[key])\<close> does not hold.\<close>

definition optional_match :: "(string, string) dict \<Rightarrow> string \<Rightarrow> regex \<Rightarrow> bool" where
  "optional_match rule key pattern = (case map_of rule key of None \<Rightarrow> True | Some v \<Rightarrow> rx_fullmatch pattern v \<noteq> None)"

definition rrule_parts :: "string \<Rightarrow> (string, string) dict option" where
  "rrule_parts value =
     (let parts = map (py_partition (CHR ''='')) (split_on (CHR '';'') value)
      in if list_all (\<lambda>(_, found, _). found) parts then Some (map (\<lambda>(k, _, v). (k, v)) parts) else None)"

definition valid_rrule :: "string \<Rightarrow> bool" where
  "valid_rrule value = (case rrule_parts value of
      None \<Rightarrow> False
    | Some rule \<Rightarrow>
        if \<not> distinct (map fst rule) \<or> \<not> list_all (\<lambda>(k, _). List.member RRULE_KEYS k) rule then False
        else if \<not> (case map_of rule ''FREQ'' of None \<Rightarrow> False | Some f \<Rightarrow> List.member RRULE_FREQUENCIES f) then False
        else (let interval = (case map_of rule ''INTERVAL'' of None \<Rightarrow> ''1'' | Some v \<Rightarrow> v) in
          if rx_fullmatch INTERVAL_PATTERN interval = None \<or> digits_value interval > 365 then False
          else optional_match rule ''BYDAY'' BYDAY_PATTERN \<and> optional_match rule ''BYHOUR'' BYHOUR_PATTERN \<and>
               optional_match rule ''BYMINUTE'' BYMINUTE_PATTERN))"

subsection \<open>Workflow definitions\<close>

definition TARGET_KEYS :: "string list" where
  "TARGET_KEYS = [''role'', ''name'', ''tag'', ''type'', ''testId'']"

definition short_str :: "nat \<Rightarrow> pyval \<Rightarrow> bool" where
  "short_str n v = (case as_str v of None \<Rightarrow> False | Some s \<Rightarrow> length s \<le> n)"

definition valid_target :: "pyval \<Rightarrow> bool" where
  "valid_target value = (case as_dict value of
      None \<Rightarrow> False
    | Some d \<Rightarrow>
        list_all (\<lambda>(k, _). List.member TARGET_KEYS k) d \<and>
        list_all (\<lambda>key. short_str 256 (pget d key)) [''role'', ''name'', ''tag''] \<and>
        list_all (\<lambda>(key, n). \<not> has_key d key \<or> short_str n (pget d key)) [(''type'', 64), (''testId'', 128)])"

text \<open>
  \<open>re.search\<close> for a literal under \<open>re.IGNORECASE\<close> on code points: the Kelvin sign matches \<open>k\<close>, the
  long s matches \<open>s\<close>, the dotted and the dotless i match \<open>i\<close>.
\<close>

definition same_ignoring_case :: "char \<Rightarrow> nat \<Rightarrow> bool" where
  "same_ignoring_case c x \<longleftrightarrow>
     x = code c \<or> x + 32 = code c \<or> c = CHR ''k'' \<and> x = 8490 \<or> c = CHR ''s'' \<and> x = 383 \<or> c = CHR ''i'' \<and> (x = 304 \<or> x = 305)"

fun occurs_ignoring_case :: "string \<Rightarrow> nat list \<Rightarrow> bool" where
  "occurs_ignoring_case w [] = (w = [])"
| "occurs_ignoring_case w (x # xs) \<longleftrightarrow>
     length w \<le> length (x # xs) \<and> list_all2 same_ignoring_case w (take (length w) (x # xs)) \<or> occurs_ignoring_case w xs"

definition secret_key_name :: "nat list \<Rightarrow> bool" where
  "secret_key_name key \<longleftrightarrow>
     list_ex (\<lambda>w. occurs_ignoring_case w key) [''token'', ''secret'', ''password'', ''passcode'', ''auth'', ''key'', ''session'']"

definition redacted_item :: "nat list \<Rightarrow> bool" where
  "redacted_item item \<longleftrightarrow> item = map code ''%5BREDACTED%5D'' \<or> item = map code ''[REDACTED]''"

definition valid_navigation_url :: "pyval \<Rightarrow> bool" where
  "valid_navigation_url value = (case as_str value of
      None \<Rightarrow> False
    | Some s \<Rightarrow>
        if length s > 4096 then False
        else case urlsplit s of
          None \<Rightarrow> False
        | Some parsed \<Rightarrow>
            if u_scheme parsed \<notin> {''http'', ''https''} \<or> url_hostname parsed = None \<or> fst (url_userinfo parsed) \<noteq> [] \<or>
               snd (url_userinfo parsed) \<noteq> [] then False
            else list_all (\<lambda>(key, item). secret_key_name key \<longrightarrow> redacted_item item) (parse_qsl (u_query parsed)))"

definition valid_workflow_origin :: "pyval \<Rightarrow> bool" where
  "valid_workflow_origin value \<longleftrightarrow> valid_navigation_url value \<and>
     (case urlsplit (str_of value) of
        None \<Rightarrow> False
      | Some parsed \<Rightarrow> u_path parsed \<in> {[], ''/''} \<and> u_query parsed = [] \<and> u_fragment parsed = [])"

definition step_keys :: "(string \<times> pyval) list \<Rightarrow> string list \<Rightarrow> bool" where
  "step_keys step ks \<longleftrightarrow> set (map fst step) = set ks"

definition valid_step :: "pyval \<Rightarrow> bool" where
  "valid_step v = (case as_dict v of
      None \<Rightarrow> False
    | Some step \<Rightarrow> (case as_str (pget step ''action'') of
        None \<Rightarrow> False
      | Some action \<Rightarrow>
          if action = ''navigate'' then step_keys step [''action'', ''url''] \<and> valid_navigation_url (pget step ''url'')
          else if action = ''click'' then step_keys step [''action'', ''target''] \<and> valid_target (pget step ''target'')
          else if action = ''type-intent'' then
            step_keys step [''action'', ''target'', ''sensitive''] \<and> valid_target (pget step ''target'') \<and>
            as_bool (pget step ''sensitive'') \<noteq> None
          else if action = ''select'' then
            step_keys step [''action'', ''target'', ''values''] \<and> valid_target (pget step ''target'') \<and>
            (case as_list (pget step ''values'') of None \<Rightarrow> False | Some vs \<Rightarrow> length vs \<le> 20 \<and> list_all (short_str 256) vs)
          else action = ''wait'' \<and> step_keys step [''action'', ''condition''] \<and> py_eq_str (pget step ''condition'') ''load''))"

definition size_json :: "(rat \<Rightarrow> string) \<Rightarrow> json_opts" where
  "size_json frepr = \<lparr>ensure_ascii = True, item_space = [], key_space = [], sort_keys = False, float_repr = frepr\<rparr>"

definition encoded_size :: "(rat \<Rightarrow> string) \<Rightarrow> pyval \<Rightarrow> nat" where
  "encoded_size frepr value = (case json_dumps (size_json frepr) value of None \<Rightarrow> 1000000 | Some t \<Rightarrow> length t)"

text \<open>\<open>False\<close> is the HTTP error 422 \<open>invalid_workflow_definition\<close>.\<close>

definition validated_workflow_definition :: "(rat \<Rightarrow> string) \<Rightarrow> (string \<times> pyval) list \<Rightarrow> bool" where
  "validated_workflow_definition frepr value \<longleftrightarrow>
     step_keys value [''schemaVersion'', ''origin'', ''steps''] \<and> py_eq_int (pget value ''schemaVersion'') 1 \<and>
     short_str 512 (pget value ''origin'') \<and> valid_workflow_origin (pget value ''origin'') \<and>
     (case as_list (pget value ''steps'') of
        None \<Rightarrow> False
      | Some steps \<Rightarrow> 0 < length steps \<and> length steps \<le> 500 \<and> encoded_size frepr (PDict value) \<le> 128000 \<and> list_all valid_step steps)"

end
