(* ===== verification/Browser_Broker.thy ===== *)
theory Browser_Broker
  imports Py_Json
begin

section \<open>The browser command broker (utils/browser\_extension\_broker.py)\<close>

text \<open>
  \<open>BrowserCommandBroker\<close>: the registry of connected devices and open tab sessions, and the
  commands in flight. The broker runs on one event loop, so the code between two \<open>await\<close>s is
  one step; \<open>dispatch\<close> is split at its only \<open>await\<close> into \<open>dispatch_begin\<close> and the ways it can
  be woken up. A future is a key of \<open>b_futures\<close>, absent while not done. Command ids and nonces
  (\<open>uuid4\<close>) and the clock are arguments, the transport is the environment.
\<close>

datatype broker_error = BrowserCommandError string "string option" | UnhashableTypeError

abbreviation bce :: "string \<Rightarrow> broker_error" where
  "bce c \<equiv> BrowserCommandError c None"

definition PROTOCOL_VERSION :: int where
  "PROTOCOL_VERSION = 1"

definition MAX_REGISTERED_DEVICES :: nat where
  "MAX_REGISTERED_DEVICES = 10000"

definition MAX_REGISTERED_SESSIONS :: nat where
  "MAX_REGISTERED_SESSIONS = 10000"

record broker_device =
  bd_user_id :: string
  bd_device_id :: string
  bd_sid :: string
  bd_token_family_id :: string
  bd_origin :: string
  bd_last_seen_at :: rat

record broker_session =
  bs_user_id :: string
  bs_device_id :: string
  bs_sid :: string
  bs_session_id :: string
  bs_tab_id :: int
  bs_tab_origin :: string
  bs_action_mode :: string
  bs_tab_policy :: string
  bs_opened_at :: rat

record pending_command =
  p_command_id :: string
  p_user_id :: string
  p_device_id :: string
  p_session_id :: string
  p_sid :: string
  p_nonce :: string
  p_sequence :: int
  p_mutating :: bool

datatype outcome = Resolved pyval | Failed broker_error | Cancelled

record broker =
  b_devices :: "(string, broker_device) dict"
  b_sessions :: "(string, broker_session) dict"
  b_pending :: "(string, pending_command) dict"
  b_mutating :: "string set"
  b_reading :: "(string, int) dict"
  b_sequences :: "(string, int) dict"
  b_futures :: "(string, outcome) dict"
  b_default_timeout :: rat
  b_max_result_bytes :: nat
  b_max_pending :: nat

definition get_or :: "('k, 'v) dict \<Rightarrow> 'k \<Rightarrow> 'v \<Rightarrow> 'v" where
  "get_or d k x = (case map_of d k of None \<Rightarrow> x | Some v \<Rightarrow> v)"

subsection \<open>Devices and sessions\<close>

definition device_for_sid :: "broker \<Rightarrow> string \<Rightarrow> (broker_error, broker_device) result" where
  "device_for_sid b sid = (case filter (\<lambda>d. bd_sid d = sid) (map snd (b_devices b)) of
      [d] \<Rightarrow> Inr d
    | _ \<Rightarrow> Inl (bce ''device_authentication_required''))"

definition register_device ::
  "rat \<Rightarrow> string \<Rightarrow> string \<Rightarrow> string \<Rightarrow> string \<Rightarrow> string \<Rightarrow> broker \<Rightarrow> (broker_error, broker_device \<times> broker) result" where
  "register_device now user_id device_id sid family origin b =
     (if user_id = [] \<or> device_id = [] \<or> sid = [] \<or> family = [] \<or> origin = [] then Inl (bce ''invalid_device_registration'')
      else if \<not> has_key (b_devices b) device_id \<and> length (b_devices b) \<ge> MAX_REGISTERED_DEVICES
      then Inl (bce ''device_registry_full'')
      else (let r = \<lparr>bd_user_id = user_id, bd_device_id = device_id, bd_sid = sid, bd_token_family_id = family,
                     bd_origin = origin, bd_last_seen_at = now\<rparr>
            in Inr (r, b\<lparr>b_devices := AList.update device_id r (b_devices b)\<rparr>)))"

definition broker_heartbeat :: "rat \<Rightarrow> string \<Rightarrow> broker \<Rightarrow> (broker_error, broker_device \<times> broker) result" where
  "broker_heartbeat now sid b =
     rbind (device_for_sid b sid) (\<lambda>d.
       let d' = d\<lparr>bd_last_seen_at := now\<rparr> in Inr (d', b\<lparr>b_devices := AList.update (bd_device_id d') d' (b_devices b)\<rparr>))"

text \<open>Membership in a set display: lists and dictionaries are not hashable.\<close>

definition in_display :: "pyval \<Rightarrow> string list \<Rightarrow> (broker_error, bool) result" where
  "in_display v names = (case v of
      PList _ \<Rightarrow> Inl UnhashableTypeError
    | PDict _ \<Rightarrow> Inl UnhashableTypeError
    | PStr s \<Rightarrow> Inr (List.member names s)
    | _ \<Rightarrow> Inr False)"

definition same_device_conflict :: "broker \<Rightarrow> string \<Rightarrow> string \<Rightarrow> int \<Rightarrow> bool" where
  "same_device_conflict b device_id session_id tab_id =
     list_ex (\<lambda>(existing_id, s). bs_device_id s = device_id \<and> (existing_id \<noteq> session_id \<or> bs_tab_id s \<noteq> tab_id)) (b_sessions b)"

definition broker_open_session ::
  "rat \<Rightarrow> string \<Rightarrow> pyval \<Rightarrow> pyval \<Rightarrow> pyval \<Rightarrow> pyval \<Rightarrow> pyval \<Rightarrow> broker \<Rightarrow> (broker_error, broker_session \<times> broker) result" where
  "broker_open_session now sid session_id tab_id tab_origin action_mode tab_policy b =
     rbind (device_for_sid b sid) (\<lambda>device.
       if \<not> nonempty_str session_id then Inl (bce ''invalid_session'')
       else case as_int tab_id of
         None \<Rightarrow> Inl (bce ''invalid_tab'')
       | Some tab \<Rightarrow>
           if tab < 0 then Inl (bce ''invalid_tab'')
           else if \<not> nonempty_str tab_origin then Inl (bce ''invalid_tab_origin'')
           else rbind (in_display action_mode [''autonomous'', ''consequential-approval'', ''manual-approval'']) (\<lambda>mode_ok.
             if \<not> mode_ok then Inl (bce ''invalid_action_mode'')
             else rbind (in_display tab_policy [''locked'', ''follow-active'']) (\<lambda>policy_ok.
               if \<not> policy_ok then Inl (bce ''invalid_tab_policy'')
               else if same_device_conflict b (bd_device_id device) (str_of session_id) tab then Inl (bce ''single_tab_only'')
               else if \<not> has_key (b_sessions b) (str_of session_id) \<and> length (b_sessions b) \<ge> MAX_REGISTERED_SESSIONS
               then Inl (bce ''session_registry_full'')
               else (let r = \<lparr>bs_user_id = bd_user_id device, bs_device_id = bd_device_id device, bs_sid = sid,
                        bs_session_id = str_of session_id, bs_tab_id = tab, bs_tab_origin = str_of tab_origin,
                        bs_action_mode = str_of action_mode, bs_tab_policy = str_of tab_policy, bs_opened_at = now\<rparr>
                     in Inr (r, b\<lparr>b_sessions := AList.update (str_of session_id) r (b_sessions b)\<rparr>)))))"

definition session_is_live :: "broker \<Rightarrow> string \<Rightarrow> string \<Rightarrow> bool" where
  "session_is_live b user_id session_id = (case map_of (b_sessions b) session_id of
      None \<Rightarrow> False
    | Some s \<Rightarrow> bs_user_id s = user_id \<and> (case map_of (b_devices b) (bs_device_id s) of
        None \<Rightarrow> False
      | Some d \<Rightarrow> bd_user_id d = user_id \<and> bd_sid d = bs_sid s))"

subsection \<open>Commands in flight\<close>

text \<open>\<open>future.set_result\<close>, \<open>set_exception\<close> and \<open>cancel\<close>, guarded by \<open>done()\<close>.\<close>

definition settle :: "string \<Rightarrow> outcome \<Rightarrow> broker \<Rightarrow> broker" where
  "settle cid out b = (if has_key (b_futures b) cid then b else b\<lparr>b_futures := AList.update cid out (b_futures b)\<rparr>)"

definition remove_pending :: "string \<Rightarrow> broker \<Rightarrow> broker" where
  "remove_pending cid b = (case map_of (b_pending b) cid of
      None \<Rightarrow> b
    | Some p \<Rightarrow>
        (let b1 = b\<lparr>b_pending := AList.delete cid (b_pending b)\<rparr>; d = p_device_id p
         in if p_mutating p then b1\<lparr>b_mutating := b_mutating b1 - {d}\<rparr>
            else (let remaining = get_or (b_reading b1) d 1 - 1
                  in b1\<lparr>b_reading := (if remaining > 0 then AList.update d remaining (b_reading b1) else AList.delete d (b_reading b1))\<rparr>)))"

definition fail_pending :: "string \<Rightarrow> broker_error \<Rightarrow> broker \<Rightarrow> broker" where
  "fail_pending cid e b =
     (if has_key (b_pending b) cid then settle cid (Failed e) (remove_pending cid b) else b)"

fun fail_matching :: "(pending_command \<Rightarrow> bool) \<Rightarrow> broker_error \<Rightarrow> (string \<times> pending_command) list \<Rightarrow> broker \<Rightarrow> broker" where
  "fail_matching P e [] b = b"
| "fail_matching P e ((cid, p) # ps) b =
     fail_matching P e ps (if P p then settle cid (Failed e) (remove_pending cid b) else b)"

definition py_trunc :: "rat \<Rightarrow> int" where
  "py_trunc r = (if 0 \<le> r then \<lfloor>r\<rfloor> else \<lceil>r\<rceil>)"

definition command_request ::
  "pending_command \<Rightarrow> rat \<Rightarrow> rat \<Rightarrow> string \<Rightarrow> (string \<times> pyval) list \<Rightarrow> pyval" where
  "command_request p now command_timeout name args =
     PDict [(''version'', PInt PROTOCOL_VERSION), (''id'', PStr (p_command_id p)), (''type'', PStr ''command.request''),
       (''deviceId'', PStr (p_device_id p)), (''userId'', PStr (p_user_id p)), (''sessionId'', PStr (p_session_id p)),
       (''timestamp'', PInt (py_trunc (now * 1000))), (''deadlineAt'', PInt (py_trunc ((now + command_timeout) * 1000))),
       (''nonce'', PStr (p_nonce p)), (''sequence'', PInt (p_sequence p)),
       (''payload'', PDict [(''name'', PStr name), (''args'', PDict args), (''mutating'', PBool (p_mutating p))])]"

definition add_pending :: "pending_command \<Rightarrow> broker \<Rightarrow> broker" where
  "add_pending p b =
     (let d = p_device_id p; b1 = b\<lparr>b_pending := AList.update (p_command_id p) p (b_pending b)\<rparr>
      in if p_mutating p then b1\<lparr>b_mutating := insert d (b_mutating b1)\<rparr>
         else b1\<lparr>b_reading := AList.update d (get_or (b_reading b1) d 0 + 1) (b_reading b1)\<rparr>)"

text \<open>\<open>dispatch\<close> up to the \<open>await\<close>; \<open>command_id\<close> and \<open>nonce\<close> are the two fresh UUIDs.\<close>

definition dispatch_begin ::
  "string \<Rightarrow> string \<Rightarrow> rat \<Rightarrow> string \<Rightarrow> string \<Rightarrow> string \<Rightarrow> (string \<times> pyval) list \<Rightarrow> bool \<Rightarrow> rat option \<Rightarrow> broker \<Rightarrow>
   (broker_error, pyval \<times> broker) result" where
  "dispatch_begin command_id nonce now user_id session_id name args mutating timeout b =
     (case map_of (b_sessions b) session_id of
        None \<Rightarrow> Inl (bce ''session_access_denied'')
      | Some s \<Rightarrow>
          if bs_user_id s \<noteq> user_id then Inl (bce ''session_access_denied'')
          else case map_of (b_devices b) (bs_device_id s) of
            None \<Rightarrow> Inl (bce ''device_unavailable'')
          | Some d \<Rightarrow>
              if bd_user_id d \<noteq> user_id \<or> bd_sid d \<noteq> bs_sid s then Inl (bce ''device_unavailable'')
              else if name = [] then Inl (bce ''invalid_command'')
              else if length (b_pending b) \<ge> b_max_pending b then Inl (bce ''command_registry_full'')
              else if bs_device_id s \<in> b_mutating b \<or> (mutating \<and> get_or (b_reading b) (bs_device_id s) 0 > 0)
              then Inl (bce ''device_busy'')
              else (let t = (case timeout of None \<Rightarrow> b_default_timeout b | Some x \<Rightarrow> x) in
                if t \<le> 0 \<or> t > b_default_timeout b then Inl (bce ''invalid_timeout'')
                else (let sequence = get_or (b_sequences b) (bs_device_id s) 0 + 1;
                          p = \<lparr>p_command_id = command_id, p_user_id = user_id, p_device_id = bs_device_id s,
                               p_session_id = session_id, p_sid = bd_sid d, p_nonce = nonce, p_sequence = sequence,
                               p_mutating = mutating\<rparr>;
                          b1 = b\<lparr>b_sequences := AList.update (bs_device_id s) sequence (b_sequences b)\<rparr>
                      in Inr (command_request p now t name args, add_pending p b1))))"

text \<open>\<open>dispatch\<close> woken up by the timeout or by the cancellation of its task.\<close>

definition dispatch_abandon :: "string \<Rightarrow> broker \<Rightarrow> broker" where
  "dispatch_abandon cid b =
     (if has_key (b_pending b) cid then settle cid Cancelled (remove_pending cid b) else b)"

definition result_json :: "(rat \<Rightarrow> string) \<Rightarrow> json_opts" where
  "result_json frepr = \<lparr>ensure_ascii = False, item_space = [], key_space = [], sort_keys = False, float_repr = frepr\<rparr>"

text \<open>The size in bytes of the UTF-8 encoding.\<close>

definition utf8_length :: "string \<Rightarrow> nat" where
  "utf8_length s = sum_list (map (\<lambda>c. if code c < 128 then 1 else 2) s)"

text \<open>The checks both kinds of envelopes start with.\<close>

definition check_envelope :: "(rat \<Rightarrow> string) \<Rightarrow> broker \<Rightarrow> pyval \<Rightarrow> (broker_error, (string \<times> pyval) list) result" where
  "check_envelope frepr b envelope = (case json_dumps (result_json frepr) envelope of
      None \<Rightarrow> Inl (bce ''invalid_result'')
    | Some encoded \<Rightarrow>
        if utf8_length encoded > b_max_result_bytes b then Inl (bce ''result_too_large'')
        else case as_dict envelope of None \<Rightarrow> Inl (bce ''invalid_result'') | Some e \<Rightarrow> Inr e)"

definition result_identity :: "string \<Rightarrow> string option \<Rightarrow> pending_command \<Rightarrow> (string \<times> pyval) list \<Rightarrow> (string \<times> pyval) list \<Rightarrow> bool" where
  "result_identity ty expected_device p e payload \<longleftrightarrow>
     py_eq_int (pget e ''version'') PROTOCOL_VERSION \<and> py_eq_str (pget e ''type'') ty \<and>
     py_eq_str (pget e ''deviceId'') (p_device_id p) \<and> py_eq_str (pget e ''userId'') (p_user_id p) \<and>
     py_eq_str (pget e ''sessionId'') (p_session_id p) \<and>
     (case expected_device of None \<Rightarrow> True | Some d \<Rightarrow> py_eq_str (pget e ''deviceId'') d) \<and>
     py_eq_str (pget payload ''nonce'') (p_nonce p) \<and> py_eq_int (pget payload ''sequence'') (p_sequence p)"

text \<open>The error of a failed command as the device reports it.\<close>

definition reported_error :: "pyval \<Rightarrow> broker_error" where
  "reported_error err = (case as_dict err of
      None \<Rightarrow> bce ''command_failed''
    | Some d \<Rightarrow> BrowserCommandError (if nonempty_str (pget d ''code'') then str_of (pget d ''code'') else ''command_failed'')
        (if nonempty_str (pget d ''message'') then Some (str_of (pget d ''message'')) else None))"

definition accept_result ::
  "(rat \<Rightarrow> string) \<Rightarrow> string option \<Rightarrow> pyval \<Rightarrow> broker \<Rightarrow> (broker_error, pyval \<times> broker) result" where
  "accept_result frepr expected_device envelope b =
     rbind (check_envelope frepr b envelope) (\<lambda>e.
       if \<not> nonempty_str (pget e ''id'') then Inl (bce ''invalid_result'')
       else case map_of (b_pending b) (str_of (pget e ''id'')) of
         None \<Rightarrow> Inl (bce ''late_result'')
       | Some p \<Rightarrow> (case as_dict (pget e ''payload'') of
           None \<Rightarrow> Inl (bce ''result_identity_mismatch'')
         | Some payload \<Rightarrow>
             if \<not> result_identity ''command.result'' expected_device p e payload then Inl (bce ''result_identity_mismatch'')
             else case as_bool (pget payload ''ok'') of
               None \<Rightarrow> Inl (bce ''invalid_result'')
             | Some ok \<Rightarrow>
                 (let cid = str_of (pget e ''id''); b1 = remove_pending cid b
                  in if ok then Inr (pget payload ''value'', settle cid (Resolved (pget payload ''value'')) b1)
                     else Inr (PNone, settle cid (Failed (reported_error (pget payload ''error''))) b1))))"

definition accept_approval_result ::
  "(rat \<Rightarrow> string) \<Rightarrow> string \<Rightarrow> pyval \<Rightarrow> broker \<Rightarrow> (broker_error, (string \<times> pyval) list) result" where
  "accept_approval_result frepr expected_device envelope b =
     rbind (check_envelope frepr b envelope) (\<lambda>e.
       case as_str (pget e ''id'') of
         None \<Rightarrow> Inl (bce ''late_result'')
       | Some cid \<Rightarrow> (case map_of (b_pending b) cid of
           None \<Rightarrow> Inl (bce ''late_result'')
         | Some p \<Rightarrow> (case as_dict (pget e ''payload'') of
             None \<Rightarrow> Inl (bce ''result_identity_mismatch'')
           | Some payload \<Rightarrow>
               if result_identity ''approval.result'' (Some expected_device) p e payload \<and> as_bool (pget payload ''approved'') \<noteq> None
               then Inr payload else Inl (bce ''result_identity_mismatch''))))"

text \<open>\<open>_run_transport\<close>: what happens when \<open>send_command\<close> returns a value or raises.\<close>

datatype transport_outcome = Returned pyval | TransportCommandError broker_error | TransportTimeout | TransportException

definition run_transport :: "(rat \<Rightarrow> string) \<Rightarrow> string \<Rightarrow> string \<Rightarrow> transport_outcome \<Rightarrow> broker \<Rightarrow> broker" where
  "run_transport frepr cid device_id out b = (case out of
      Returned v \<Rightarrow>
        if v = PNone \<or> \<not> has_key (b_pending b) cid then b
        else (case accept_result frepr (Some device_id) v b of Inr (_, b') \<Rightarrow> b' | Inl e \<Rightarrow> fail_pending cid e b)
    | TransportCommandError e \<Rightarrow> fail_pending cid e b
    | TransportTimeout \<Rightarrow> fail_pending cid (bce ''command_timeout'') b
    | TransportException \<Rightarrow> fail_pending cid (bce ''transport_error'') b)"

definition broker_cancel :: "string \<Rightarrow> string \<Rightarrow> broker \<Rightarrow> (broker_error, broker) result" where
  "broker_cancel user_id cid b = (case map_of (b_pending b) cid of
      None \<Rightarrow> Inl (bce ''command_not_found'')
    | Some p \<Rightarrow> if p_user_id p \<noteq> user_id then Inl (bce ''command_access_denied'')
               else Inr (settle cid (Failed (bce ''command_cancelled'')) (remove_pending cid b)))"

definition broker_close_session :: "string \<Rightarrow> string \<Rightarrow> broker \<Rightarrow> (broker_error, broker) result" where
  "broker_close_session sid session_id b = (case map_of (b_sessions b) session_id of
      None \<Rightarrow> Inr b
    | Some s \<Rightarrow> if bs_sid s \<noteq> sid then Inl (bce ''session_access_denied'')
               else Inr (fail_matching (\<lambda>p. p_session_id p = session_id) (bce ''session_closed'') (b_pending b)
                      (b\<lparr>b_sessions := AList.delete session_id (b_sessions b)\<rparr>)))"

definition broker_disconnect :: "string \<Rightarrow> broker \<Rightarrow> broker" where
  "broker_disconnect sid b =
     (let gone = map fst (filter (\<lambda>(i, d). bd_sid d = sid) (b_devices b))
      in fail_matching (\<lambda>p. List.member gone (p_device_id p)) (bce ''device_disconnected'') (b_pending b)
           (b\<lparr>b_devices := filter (\<lambda>(i, d). bd_sid d \<noteq> sid) (b_devices b),
              b_sessions := filter (\<lambda>(i, s). bs_sid s \<noteq> sid) (b_sessions b)\<rparr>))"

text \<open>\<open>_notify_cancel\<close>: the envelope sent to the device.\<close>

definition cancel_envelope :: "pending_command \<Rightarrow> rat \<Rightarrow> pyval" where
  "cancel_envelope p now =
     PDict [(''version'', PInt PROTOCOL_VERSION), (''id'', PStr (p_command_id p)), (''type'', PStr ''command.cancel''),
       (''deviceId'', PStr (p_device_id p)), (''userId'', PStr (p_user_id p)), (''sessionId'', PStr (p_session_id p)),
       (''timestamp'', PInt (py_trunc (now * 1000))), (''nonce'', PStr (p_nonce p)), (''sequence'', PInt (p_sequence p)),
       (''payload'', PDict [])]"

section \<open>The invariant of the broker\<close>

text \<open>The reads in flight on a device, and the devices with a mutation in flight.\<close>

definition reads :: "(string, pending_command) dict \<Rightarrow> string \<Rightarrow> nat" where
  "reads ps d = length (filter (\<lambda>(c, p). \<not> p_mutating p \<and> p_device_id p = d) ps)"

definition mutated :: "(string, pending_command) dict \<Rightarrow> string set" where
  "mutated ps = {d. \<exists>c p. (c, p) \<in> set ps \<and> p_mutating p \<and> p_device_id p = d}"

text \<open>A mutation is alone on its device.\<close>

definition exclusive :: "(string, pending_command) dict \<Rightarrow> bool" where
  "exclusive ps \<longleftrightarrow> (\<forall>c p c' p'. (c, p) \<in> set ps \<longrightarrow> (c', p') \<in> set ps \<longrightarrow> p_mutating p \<longrightarrow> p_device_id p' = p_device_id p \<longrightarrow> c' = c)"

definition broker_inv :: "broker \<Rightarrow> bool" where
  "broker_inv b \<longleftrightarrow>
     dict_ok (b_pending b) \<and> (\<forall>c p. (c, p) \<in> set (b_pending b) \<longrightarrow> p_command_id p = c) \<and> exclusive (b_pending b) \<and>
     b_mutating b = mutated (b_pending b) \<and> (\<forall>d. get_or (b_reading b) d 0 = int (reads (b_pending b) d)) \<and>
     length (b_pending b) \<le> b_max_pending b \<and> (\<forall>c. has_key (b_pending b) c \<longrightarrow> \<not> has_key (b_futures b) c)"

lemma get_or_update [simp]: "get_or (AList.update k v d) k' x = (if k' = k then v else get_or d k' x)"
  by (simp add: get_or_def)

lemma get_or_delete [simp]: "get_or (AList.delete k d) k' x = (if k' = k then x else get_or d k' x)"
  by (simp add: get_or_def)

lemma get_or_default: "get_or d k 0 \<noteq> (0::int) \<Longrightarrow> get_or d k x = get_or d k 0"
  by (auto simp: get_or_def split: option.splits)

lemma remove_pending_frame [simp]:
  "b_futures (remove_pending cid b) = b_futures b" "b_max_pending (remove_pending cid b) = b_max_pending b"
  "b_pending (remove_pending cid b) = AList.delete cid (b_pending b)"
  "b_devices (remove_pending cid b) = b_devices b" "b_sessions (remove_pending cid b) = b_sessions b"
  "b_sequences (remove_pending cid b) = b_sequences b"
  by (auto simp: remove_pending_def Let_def delete_conv map_of_eq_None_iff delete_idem image_iff split: option.splits)

lemma settle_frame [simp]:
  "b_pending (settle c o' b) = b_pending b" "b_mutating (settle c o' b) = b_mutating b" "b_reading (settle c o' b) = b_reading b"
  "b_max_pending (settle c o' b) = b_max_pending b" "b_devices (settle c o' b) = b_devices b"
  "b_sessions (settle c o' b) = b_sessions b" "b_sequences (settle c o' b) = b_sequences b"
  by (simp_all add: settle_def)

lemma mutated_delete:
  assumes "dict_ok ps" "exclusive ps" "map_of ps cid = Some p"
  shows "mutated (AList.delete cid ps) = (if p_mutating p then mutated ps - {p_device_id p} else mutated ps)"
proof -
  have in_ps: "(cid, p) \<in> set ps" using assms(3) by (rule map_of_SomeD)
  have uniq: "(cid, q) \<in> set ps \<Longrightarrow> q = p" for q using dict_ok_unique [OF assms(1) _ in_ps] .
  have excl: "(c, q) \<in> set ps \<Longrightarrow> p_mutating q \<Longrightarrow> p_device_id p = p_device_id q \<Longrightarrow> c = cid" for c q
    using assms(2) in_ps unfolding exclusive_def by metis
  have "d \<in> mutated (AList.delete cid ps) \<longleftrightarrow> d \<in> mutated ps \<and> \<not> (p_mutating p \<and> p_device_id p = d)" for d
  proof
    assume "d \<in> mutated (AList.delete cid ps)"
    then obtain c q where q: "(c, q) \<in> set ps" "c \<noteq> cid" "p_mutating q" "p_device_id q = d"
      by (auto simp: mutated_def set_delete_dict)
    then show "d \<in> mutated ps \<and> \<not> (p_mutating p \<and> p_device_id p = d)"
      using excl [of c q] by (auto simp: mutated_def)
  next
    assume d: "d \<in> mutated ps \<and> \<not> (p_mutating p \<and> p_device_id p = d)"
    then obtain c q where q: "(c, q) \<in> set ps" "p_mutating q" "p_device_id q = d" by (auto simp: mutated_def)
    moreover have "c \<noteq> cid" using d q uniq [of q] by blast
    ultimately show "d \<in> mutated (AList.delete cid ps)" by (auto simp: mutated_def set_delete_dict)
  qed
  then show ?thesis by auto
qed

lemma reads_delete:
  assumes "dict_ok ps" "map_of ps cid = Some p"
  shows "reads ps d = reads (AList.delete cid ps) d + (if \<not> p_mutating p \<and> p_device_id p = d then 1 else 0)"
  using count_filter_delete [OF assms, of "\<lambda>(c, p). \<not> p_mutating p \<and> p_device_id p = d"] by (simp add: reads_def)

lemma remove_pending_locks:
  assumes inv: "broker_inv b"
  shows "b_mutating (remove_pending cid b) = mutated (AList.delete cid (b_pending b))"
    and "get_or (b_reading (remove_pending cid b)) d 0 = int (reads (AList.delete cid (b_pending b)) d)"
proof -
  have ok: "dict_ok (b_pending b)" "exclusive (b_pending b)" "b_mutating b = mutated (b_pending b)"
    "\<And>d. get_or (b_reading b) d 0 = int (reads (b_pending b) d)" using inv by (auto simp: broker_inv_def)
  have "b_mutating (remove_pending cid b) = mutated (AList.delete cid (b_pending b)) \<and>
    get_or (b_reading (remove_pending cid b)) d 0 = int (reads (AList.delete cid (b_pending b)) d)"
  proof (cases "map_of (b_pending b) cid")
    case None
    then have "AList.delete cid (b_pending b) = b_pending b" by (simp add: delete_idem map_of_eq_None_iff)
    then show ?thesis using None ok by (simp add: remove_pending_def)
  next
    case (Some p)
    note rd = reads_delete [OF ok(1) Some] and md = mutated_delete [OF ok(1,2) Some]
    show ?thesis
    proof (cases "p_mutating p")
      case True
      then show ?thesis using Some ok rd md by (simp add: remove_pending_def Let_def)
    next
      case False
      let ?d = "p_device_id p"
      have pos: "get_or (b_reading b) ?d 0 = int (reads (AList.delete cid (b_pending b)) ?d) + 1"
        using ok(4) [of ?d] rd [of ?d] False by simp
      then have "get_or (b_reading b) ?d 1 - 1 = int (reads (AList.delete cid (b_pending b)) ?d)"
        using get_or_default [of "b_reading b" ?d 1] by simp
      then show ?thesis using Some ok rd [of d] md False by (auto simp: remove_pending_def Let_def)
    qed
  qed
  then show "b_mutating (remove_pending cid b) = mutated (AList.delete cid (b_pending b))"
    "get_or (b_reading (remove_pending cid b)) d 0 = int (reads (AList.delete cid (b_pending b)) d)" by auto
qed

lemma broker_inv_remove [intro]: "broker_inv b \<Longrightarrow> broker_inv (remove_pending cid b)"
  unfolding broker_inv_def [of "remove_pending cid b"]
  using remove_pending_locks [of b cid] length_delete_le [of cid "b_pending b"]
  by (auto simp: broker_inv_def exclusive_def set_delete_dict has_key_def intro: order_trans split: if_splits)

lemma broker_inv_settle [intro]: "broker_inv b \<Longrightarrow> \<not> has_key (b_pending b) cid \<Longrightarrow> broker_inv (settle cid o' b)"
  by (auto simp: broker_inv_def settle_def has_key_def)

lemma broker_inv_finish: "broker_inv b \<Longrightarrow> broker_inv (settle cid o' (remove_pending cid b))"
  by (intro broker_inv_settle broker_inv_remove) (simp_all add: has_key_def)

lemma broker_inv_fail_matching: "broker_inv b \<Longrightarrow> broker_inv (fail_matching P e ps b)"
  by (induction P e ps b rule: fail_matching.induct) (simp add: broker_inv_finish)+

lemma broker_inv_registries:
  "broker_inv (b\<lparr>b_devices := x\<rparr>) = broker_inv b" "broker_inv (b\<lparr>b_sessions := y\<rparr>) = broker_inv b"
  "broker_inv (b\<lparr>b_sequences := z\<rparr>) = broker_inv b"
  by (simp_all add: broker_inv_def)

section \<open>Runs of the broker\<close>

definition broker_init :: "rat \<Rightarrow> nat \<Rightarrow> nat \<Rightarrow> broker" where
  "broker_init default_timeout max_result_bytes max_pending =
     \<lparr>b_devices = [], b_sessions = [], b_pending = [], b_mutating = {}, b_reading = [], b_sequences = [], b_futures = [],
      b_default_timeout = default_timeout, b_max_result_bytes = max_result_bytes, b_max_pending = max_pending\<rparr>"

text \<open>
  One step of the event loop: a call of the broker that does not raise, a wake-up of \<open>dispatch\<close>
  or the end of a transport. A call that raises before any write leaves the state as it is. The
  id of a dispatched command is a fresh UUID.
\<close>

inductive broker_step :: "broker \<Rightarrow> broker \<Rightarrow> bool" where
  step_register: "register_device now u d sid fam orig b = Inr (r, b') \<Longrightarrow> broker_step b b'"
| step_heartbeat: "broker_heartbeat now sid b = Inr (r, b') \<Longrightarrow> broker_step b b'"
| step_open: "broker_open_session now sid s tab orig mode pol b = Inr (r', b') \<Longrightarrow> broker_step b b'"
| step_close: "broker_close_session sid s b = Inr b' \<Longrightarrow> broker_step b b'"
| step_disconnect: "broker_step b (broker_disconnect sid b)"
| step_dispatch: "dispatch_begin cid nonce now u s name args m t b = Inr (req, b') \<Longrightarrow>
    \<not> has_key (b_pending b) cid \<Longrightarrow> \<not> has_key (b_futures b) cid \<Longrightarrow> broker_step b b'"
| step_abandon: "broker_step b (dispatch_abandon cid b)"
| step_result: "accept_result frepr expected env b = Inr (v, b') \<Longrightarrow> broker_step b b'"
| step_cancel: "broker_cancel u cid b = Inr b' \<Longrightarrow> broker_step b b'"
| step_transport: "broker_step b (run_transport frepr cid d out b)"

inductive broker_run :: "broker \<Rightarrow> broker \<Rightarrow> bool" where
  run_refl: "broker_run b b"
| run_step: "broker_run b b' \<Longrightarrow> broker_step b' b'' \<Longrightarrow> broker_run b b''"

lemma broker_run_invariant:
  assumes "broker_run b b'" "I b" "\<And>x y. I x \<Longrightarrow> broker_step x y \<Longrightarrow> I y"
  shows "I b'"
  using assms(1,2) by (induction rule: broker_run.induct) (auto intro: assms(3))

subsection \<open>What each operation does to the commands in flight\<close>

text \<open>
  All operations but \<open>dispatch\<close> change the commands in flight only by finishing some of them:
  \<open>finishes b b'\<close> is the closure of removing a command and settling its future.
\<close>

inductive finishes :: "broker \<Rightarrow> broker \<Rightarrow> bool" where
  fin_same: "b_pending b' = b_pending b \<Longrightarrow> b_mutating b' = b_mutating b \<Longrightarrow> b_reading b' = b_reading b \<Longrightarrow>
    b_sequences b' = b_sequences b \<Longrightarrow> b_futures b' = b_futures b \<Longrightarrow> b_max_pending b' = b_max_pending b \<Longrightarrow> finishes b b'"
| fin_one: "finishes b b' \<Longrightarrow> finishes b (settle cid out (remove_pending cid b'))"

lemma finishes_invariant:
  assumes "finishes b b'" "I b"
    and "\<And>x y. I x \<Longrightarrow> b_pending y = b_pending x \<Longrightarrow> b_mutating y = b_mutating x \<Longrightarrow> b_reading y = b_reading x \<Longrightarrow>
      b_sequences y = b_sequences x \<Longrightarrow> b_futures y = b_futures x \<Longrightarrow> b_max_pending y = b_max_pending x \<Longrightarrow> I y"
    and "\<And>x cid out. I x \<Longrightarrow> I (settle cid out (remove_pending cid x))"
  shows "I b'"
  using assms(1,2) by (induction rule: finishes.induct) (blast intro: assms(3,4))+

lemma finishes_refl: "finishes b b"
  by (rule fin_same) simp_all

lemma finishes_fail_matching: "finishes b b' \<Longrightarrow> finishes b (fail_matching P e ps b')"
  by (induction P e ps b' rule: fail_matching.induct) (simp_all add: fin_one)

lemma finishes_fail_pending: "finishes b (fail_pending cid e b)"
  by (simp add: fail_pending_def fin_one finishes_refl)

lemma accept_resultE:
  assumes "accept_result frepr expected env b = Inr (v, b')"
  obtains e p payload out where "check_envelope frepr b env = Inr e" "nonempty_str (pget e ''id'')"
    "map_of (b_pending b) (str_of (pget e ''id'')) = Some p" "as_dict (pget e ''payload'') = Some payload"
    "result_identity ''command.result'' expected p e payload"
    "b' = settle (str_of (pget e ''id'')) out (remove_pending (str_of (pget e ''id'')) b)"
    "out = Resolved v \<or> v = PNone \<and> out = Failed (reported_error (pget payload ''error''))"
proof -
  from assms obtain e where e: "check_envelope frepr b env = Inr e" and r: "nonempty_str (pget e ''id'')"
    "(case map_of (b_pending b) (str_of (pget e ''id'')) of
         None \<Rightarrow> Inl (bce ''late_result'')
       | Some p \<Rightarrow> (case as_dict (pget e ''payload'') of
           None \<Rightarrow> Inl (bce ''result_identity_mismatch'')
         | Some payload \<Rightarrow>
             if \<not> result_identity ''command.result'' expected p e payload then Inl (bce ''result_identity_mismatch'')
             else case as_bool (pget payload ''ok'') of
               None \<Rightarrow> Inl (bce ''invalid_result'')
             | Some ok \<Rightarrow>
                 (let cid = str_of (pget e ''id''); b1 = remove_pending cid b
                  in if ok then Inr (pget payload ''value'', settle cid (Resolved (pget payload ''value'')) b1)
                     else Inr (PNone, settle cid (Failed (reported_error (pget payload ''error''))) b1)))) = Inr (v, b')"
    by (auto simp: accept_result_def rbind_Inr_iff split: if_splits)
  from r(2) obtain p where p: "map_of (b_pending b) (str_of (pget e ''id'')) = Some p" by (cases "map_of (b_pending b) (str_of (pget e ''id''))") auto
  from r(2) p obtain payload where pl: "as_dict (pget e ''payload'') = Some payload" by (cases "as_dict (pget e ''payload'')") auto
  from r(2) p pl have id: "result_identity ''command.result'' expected p e payload" by (auto split: if_splits)
  from r(2) p pl id obtain ok where ok: "as_bool (pget payload ''ok'') = Some ok" by (cases "as_bool (pget payload ''ok'')") auto
  from r(2) p pl id ok show thesis
    by (cases ok) (auto simp: Let_def intro: that [OF e r(1) p pl id])
qed

lemma finishes_result: "accept_result frepr expected env b = Inr (v, b') \<Longrightarrow> finishes b b'"
  by (elim accept_resultE) (simp add: fin_one finishes_refl)

lemma finishes_transport: "finishes b (run_transport frepr cid d out b)"
  using finishes_result
  by (auto simp: run_transport_def finishes_fail_pending finishes_refl split: transport_outcome.splits sum.splits)

lemma broker_step_cases:
  assumes "broker_step b b'"
  obtains (finish) "finishes b b'"
  | (dispatch) cid nonce now u s name args m t req
    where "dispatch_begin cid nonce now u s name args m t b = Inr (req, b')" "\<not> has_key (b_pending b) cid" "\<not> has_key (b_futures b) cid"
  using assms
proof cases
  case step_register
  then show ?thesis by (intro finish fin_same) (auto simp: register_device_def Let_def split: if_splits)
next
  case step_heartbeat
  then show ?thesis by (intro finish fin_same) (auto simp: broker_heartbeat_def rbind_Inr_iff Let_def)
next
  case step_open
  then show ?thesis
    by (intro finish fin_same) (auto simp: broker_open_session_def rbind_Inr_iff Let_def split: if_splits option.splits)
next
  case (step_close sid s)
  then show ?thesis
    by (intro finish) (auto simp: broker_close_session_def intro!: finishes_refl finishes_fail_matching fin_same
        split: if_splits option.splits)
next
  case step_disconnect
  then show ?thesis by (intro finish) (auto simp: broker_disconnect_def Let_def intro!: finishes_fail_matching fin_same)
next
  case step_abandon
  then show ?thesis by (intro finish) (simp add: dispatch_abandon_def fin_one finishes_refl)
next
  case step_cancel
  then show ?thesis
    by (intro finish) (auto simp: broker_cancel_def fin_one finishes_refl split: if_splits option.splits)
qed (auto intro: finish dispatch finishes_result finishes_transport)

text \<open>What \<open>dispatch\<close> has checked of the command it puts in flight.\<close>

definition admissible :: "broker \<Rightarrow> pending_command \<Rightarrow> bool" where
  "admissible b p \<longleftrightarrow> (\<exists>ss d. map_of (b_sessions b) (p_session_id p) = Some ss \<and> bs_user_id ss = p_user_id p \<and>
     bs_device_id ss = p_device_id p \<and> map_of (b_devices b) (p_device_id p) = Some d \<and> bd_user_id d = p_user_id p \<and>
     bd_sid d = bs_sid ss \<and> p_sid p = bd_sid d) \<and>
     length (b_pending b) < b_max_pending b \<and> p_device_id p \<notin> b_mutating b \<and>
     (p_mutating p \<longrightarrow> get_or (b_reading b) (p_device_id p) 0 \<le> 0) \<and>
     p_sequence p = get_or (b_sequences b) (p_device_id p) 0 + 1"

lemma dispatch_beginE:
  assumes "dispatch_begin cid nonce now u s name args m t b = Inr (req, b')"
  obtains p t' where "admissible b p" "p_command_id p = cid" "p_user_id p = u" "p_session_id p = s" "p_nonce p = nonce"
    "p_mutating p = m" "0 < t'" "t' \<le> b_default_timeout b" "req = command_request p now t' name args"
    "b' = add_pending p (b\<lparr>b_sequences := AList.update (p_device_id p) (p_sequence p) (b_sequences b)\<rparr>)"
proof -
  from assms obtain ss d where s: "map_of (b_sessions b) s = Some ss" and d: "map_of (b_devices b) (bs_device_id ss) = Some d"
    by (auto simp: dispatch_begin_def split: option.splits if_splits)
  define p where "p = \<lparr>p_command_id = cid, p_user_id = u, p_device_id = bs_device_id ss, p_session_id = s, p_sid = bd_sid d,
    p_nonce = nonce, p_sequence = get_or (b_sequences b) (bs_device_id ss) 0 + 1, p_mutating = m\<rparr>"
  define t' where "t' = (case t of None \<Rightarrow> b_default_timeout b | Some x \<Rightarrow> x)"
  have r: "admissible b p" "0 < t'" "t' \<le> b_default_timeout b" "req = command_request p now t' name args"
    "b' = add_pending p (b\<lparr>b_sequences := AList.update (p_device_id p) (p_sequence p) (b_sequences b)\<rparr>)"
    using assms s d unfolding dispatch_begin_def Let_def
    by (simp_all add: p_def t'_def admissible_def not_le not_less split: if_splits option.splits)
  show thesis by (rule that [of p t']) (simp_all add: r, simp_all add: p_def)
qed

lemma add_pending_frame [simp]:
  "b_pending (add_pending p b) = AList.update (p_command_id p) p (b_pending b)"
  "b_futures (add_pending p b) = b_futures b" "b_max_pending (add_pending p b) = b_max_pending b"
  "b_devices (add_pending p b) = b_devices b" "b_sessions (add_pending p b) = b_sessions b"
  "b_sequences (add_pending p b) = b_sequences b"
  by (simp_all add: add_pending_def Let_def)

lemma exclusive_snoc:
  assumes "exclusive ps" "p_device_id p \<notin> mutated ps" "p_mutating p \<longrightarrow> reads ps (p_device_id p) = 0"
  shows "exclusive (ps @ [(c, p)])"
proof -
  have "p_device_id q \<noteq> p_device_id p" if "(c', q) \<in> set ps" "p_mutating q \<or> p_mutating p" for c' q
    using that assms(2,3) by (cases "p_mutating q") (auto simp: mutated_def reads_def filter_empty_conv)
  then show ?thesis using assms(1) unfolding exclusive_def by auto metis+
qed

lemma locks_snoc:
  "mutated (ps @ [(c, p)]) = (if p_mutating p then insert (p_device_id p) (mutated ps) else mutated ps)"
  "reads (ps @ [(c, p)]) d = reads ps d + (if \<not> p_mutating p \<and> p_device_id p = d then 1 else 0)"
  by (auto simp: mutated_def reads_def)

lemma broker_inv_add:
  assumes inv: "broker_inv b" and new: "\<not> has_key (b_pending b) (p_command_id p)" "\<not> has_key (b_futures b) (p_command_id p)"
    and free: "length (b_pending b) < b_max_pending b" "p_device_id p \<notin> b_mutating b"
      "p_mutating p \<longrightarrow> get_or (b_reading b) (p_device_id p) 0 \<le> 0"
  shows "broker_inv (add_pending p b)"
proof -
  have ok: "dict_ok (b_pending b)" "\<And>c q. (c, q) \<in> set (b_pending b) \<Longrightarrow> p_command_id q = c" "exclusive (b_pending b)"
    "b_mutating b = mutated (b_pending b)" "\<And>d. get_or (b_reading b) d 0 = int (reads (b_pending b) d)"
    "\<And>c. has_key (b_pending b) c \<Longrightarrow> \<not> has_key (b_futures b) c"
    using inv by (auto simp: broker_inv_def)
  note upd = update_new [OF new(1), of p]
  have excl: "exclusive (b_pending b @ [(p_command_id p, p)])" using free ok by (intro exclusive_snoc) auto
  have locks: "b_mutating (add_pending p b) = mutated (b_pending b @ [(p_command_id p, p)])"
    "\<And>d. get_or (b_reading (add_pending p b)) d 0 = int (reads (b_pending b @ [(p_command_id p, p)]) d)"
    using ok by (auto simp: add_pending_def Let_def locks_snoc)
  have "dict_ok (AList.update (p_command_id p) p (b_pending b))" using ok(1) by (simp add: dict_ok_def distinct_update)
  moreover have "has_key (b_pending b @ [(p_command_id p, p)]) c \<Longrightarrow> \<not> has_key (b_futures b) c" for c
    using ok(6) [of c] new by (cases "c = p_command_id p") (simp_all add: has_key_iff)
  ultimately show ?thesis
    using excl locks ok(2) free(1) unfolding broker_inv_def by (auto simp: upd)
qed

lemma broker_inv_step:
  assumes "broker_inv b" "broker_step b b'"
  shows "broker_inv b'"
  using assms(2)
proof (cases rule: broker_step_cases)
  case finish
  then show ?thesis using assms(1)
  proof (rule finishes_invariant)
    fix x y :: broker
    assume "broker_inv x" "b_pending y = b_pending x" "b_mutating y = b_mutating x" "b_reading y = b_reading x"
      "b_futures y = b_futures x" "b_max_pending y = b_max_pending x"
    then show "broker_inv y" unfolding broker_inv_def by simp
  qed (rule broker_inv_finish)
next
  case (dispatch cid nonce now u s name args m t req)
  from dispatch(1) show ?thesis
  proof (rule dispatch_beginE)
    fix p
    assume "admissible b p" "p_command_id p = cid"
      "b' = add_pending p (b\<lparr>b_sequences := AList.update (p_device_id p) (p_sequence p) (b_sequences b)\<rparr>)"
    then show ?thesis
      using dispatch(2,3) assms(1) by (auto intro!: broker_inv_add simp: broker_inv_registries admissible_def)
  qed
qed

lemma broker_inv_init: "broker_inv (broker_init t n m)"
  by (simp add: broker_inv_def broker_init_def exclusive_def mutated_def reads_def get_or_def dict_ok_def has_key_def)

lemma broker_inv_reachable: "broker_run (broker_init t n m) b \<Longrightarrow> broker_inv b"
  using broker_run_invariant broker_inv_init broker_inv_step by blast

subsection \<open>Commands are neither lost nor settled twice\<close>

text \<open>The command \<open>c\<close> is still in flight as \<open>p\<close>, or it has an outcome.\<close>

definition accounted :: "string \<Rightarrow> pending_command \<Rightarrow> broker \<Rightarrow> bool" where
  "accounted c p b \<longleftrightarrow> map_of (b_pending b) c = Some p \<or> has_key (b_futures b) c"

definition outcome_is :: "string \<Rightarrow> outcome \<Rightarrow> broker \<Rightarrow> bool" where
  "outcome_is c out b \<longleftrightarrow> map_of (b_futures b) c = Some out"

lemma settle_has: "has_key (b_futures (settle c out b)) c' \<longleftrightarrow> c' = c \<or> has_key (b_futures b) c'"
  by (auto simp: settle_def has_key_def)

lemma accounted_finish: "accounted c p b \<Longrightarrow> accounted c p (settle cid out (remove_pending cid b))"
  by (cases "c = cid") (auto simp: accounted_def settle_has)

lemma outcome_finish: "outcome_is c out b \<Longrightarrow> outcome_is c out (settle cid out' (remove_pending cid b))"
  by (auto simp: outcome_is_def settle_def has_key_def)

lemma accounted_step: "accounted c p b \<Longrightarrow> broker_step b b' \<Longrightarrow> accounted c p b'"
proof (erule broker_step_cases)
  assume a: "accounted c p b" and f: "finishes b b'"
  show "accounted c p b'" by (rule finishes_invariant [where I = "accounted c p", OF f a]) (simp add: accounted_def, rule accounted_finish)
next
  fix cid nonce now u s name args m t req
  assume a: "accounted c p b" "dispatch_begin cid nonce now u s name args m t b = Inr (req, b')" "\<not> has_key (b_pending b) cid"
  then have "c = cid \<Longrightarrow> has_key (b_futures b) c" by (auto simp: accounted_def has_key_def)
  then show "accounted c p b'" using a by (elim dispatch_beginE) (auto simp: accounted_def)
qed

lemma outcome_step: "outcome_is c out b \<Longrightarrow> broker_step b b' \<Longrightarrow> outcome_is c out b'"
proof (erule broker_step_cases)
  assume a: "outcome_is c out b" and f: "finishes b b'"
  show "outcome_is c out b'" by (rule finishes_invariant [where I = "outcome_is c out", OF f a]) (simp add: outcome_is_def, rule outcome_finish)
next
  fix cid nonce now u s name args m t req
  assume "outcome_is c out b" "dispatch_begin cid nonce now u s name args m t b = Inr (req, b')"
  then show "outcome_is c out b'" by (elim dispatch_beginE) (auto simp: outcome_is_def)
qed

lemma broker_run_trans: "broker_run b' b'' \<Longrightarrow> broker_run b b' \<Longrightarrow> broker_run b b''"
  by (induction rule: broker_run.induct) (auto intro: run_step)

subsection \<open>Sequence numbers\<close>

lemma finishes_sequences: "finishes b b' \<Longrightarrow> b_sequences b' = b_sequences b"
  by (induction rule: finishes.induct) simp_all

lemma sequences_step: "broker_step b b' \<Longrightarrow> get_or (b_sequences b) d 0 \<le> get_or (b_sequences b') d 0"
proof (erule broker_step_cases)
  fix cid nonce now u s name args m t req
  assume "dispatch_begin cid nonce now u s name args m t b = Inr (req, b')"
  then show "get_or (b_sequences b) d 0 \<le> get_or (b_sequences b') d 0"
    by (elim dispatch_beginE) (auto simp: admissible_def)
qed (simp add: finishes_sequences)

lemma sequences_run: "broker_run b b' \<Longrightarrow> get_or (b_sequences b) d 0 \<le> get_or (b_sequences b') d 0"
  by (induction rule: broker_run.induct) (auto intro: order_trans sequences_step)

lemma dispatch_sequence:
  assumes "dispatch_begin cid nonce now u s name args m t b = Inr (req, b')"
  shows "\<exists>p. map_of (b_pending b') cid = Some p \<and> p_sequence p = get_or (b_sequences b) (p_device_id p) 0 + 1 \<and>
    get_or (b_sequences b') (p_device_id p) 0 = p_sequence p \<and> p_user_id p = u \<and> p_session_id p = s"
  using assms by (elim dispatch_beginE) (auto simp: admissible_def)

subsection \<open>The registries\<close>

definition registry_inv :: "broker \<Rightarrow> bool" where
  "registry_inv b \<longleftrightarrow> dict_ok (b_devices b) \<and> dict_ok (b_sessions b) \<and>
     (\<forall>i d. (i, d) \<in> set (b_devices b) \<longrightarrow> bd_device_id d = i) \<and> (\<forall>i s. (i, s) \<in> set (b_sessions b) \<longrightarrow> bs_session_id s = i) \<and>
     (\<forall>i s i' s'. (i, s) \<in> set (b_sessions b) \<longrightarrow> (i', s') \<in> set (b_sessions b) \<longrightarrow> bs_device_id s' = bs_device_id s \<longrightarrow> i' = i) \<and>
     length (b_devices b) \<le> MAX_REGISTERED_DEVICES \<and> length (b_sessions b) \<le> MAX_REGISTERED_SESSIONS"

lemma fail_matching_registries [simp]:
  "b_devices (fail_matching P e ps b) = b_devices b" "b_sessions (fail_matching P e ps b) = b_sessions b"
  by (induction P e ps b rule: fail_matching.induct) simp_all

lemma device_for_sid_in: "device_for_sid b sid = Inr d \<Longrightarrow> \<exists>i. (i, d) \<in> set (b_devices b) \<and> bd_sid d = sid"
proof -
  assume "device_for_sid b sid = Inr d"
  then have "filter (\<lambda>d. bd_sid d = sid) (map snd (b_devices b)) = [d]"
    by (auto simp: device_for_sid_def split: list.splits)
  then have "d \<in> set (filter (\<lambda>d. bd_sid d = sid) (map snd (b_devices b)))" by simp
  then show ?thesis by auto
qed

lemma length_update_dict: "length (AList.update k v d) = (if has_key d k then length d else Suc (length d))"
  by (simp add: length_update_new length_update_old)

lemma registry_inv_devices:
  assumes "registry_inv b" "bd_device_id r = i" "has_key (b_devices b) i \<or> length (b_devices b) < MAX_REGISTERED_DEVICES"
  shows "registry_inv (b\<lparr>b_devices := AList.update i r (b_devices b)\<rparr>)"
  using assms unfolding registry_inv_def by (auto simp: set_update_dict length_update_dict)

lemma registry_inv_sessions:
  assumes "registry_inv b" "bs_session_id r = i" "has_key (b_sessions b) i \<or> length (b_sessions b) < MAX_REGISTERED_SESSIONS"
    and "\<And>j s. (j, s) \<in> set (b_sessions b) \<Longrightarrow> bs_device_id s = bs_device_id r \<Longrightarrow> j = i"
  shows "registry_inv (b\<lparr>b_sessions := AList.update i r (b_sessions b)\<rparr>)"
proof -
  let ?ss = "AList.update i r (b_sessions b)"
  have ok: "dict_ok (b_sessions b)" using assms(1) by (simp add: registry_inv_def)
  have mem: "(j, s) \<in> set ?ss \<longleftrightarrow> j = i \<and> s = r \<or> (j, s) \<in> set (b_sessions b) \<and> j \<noteq> i" for j s
    by (auto simp: set_update_dict [OF ok])
  have old: "\<And>j s. (j, s) \<in> set (b_sessions b) \<Longrightarrow> bs_session_id s = j"
    "\<And>j s k s'. (j, s) \<in> set (b_sessions b) \<Longrightarrow> (k, s') \<in> set (b_sessions b) \<Longrightarrow> bs_device_id s' = bs_device_id s \<Longrightarrow> k = j"
    using assms(1) unfolding registry_inv_def by blast+
  have "\<forall>j s. (j, s) \<in> set ?ss \<longrightarrow> bs_session_id s = j"
  proof (intro allI impI)
    fix j s
    assume "(j, s) \<in> set ?ss"
    then consider "j = i" "s = r" | "(j, s) \<in> set (b_sessions b)" using mem by blast
    then show "bs_session_id s = j" using old(1) assms(2) by cases simp_all
  qed
  moreover have "j = k" if h: "(j, s) \<in> set ?ss" "(k, s') \<in> set ?ss" "bs_device_id s' = bs_device_id s" for j s k s'
  proof -
    consider "j = i" "s = r" "k = i" | "j = i" "s = r" "(k, s') \<in> set (b_sessions b)"
      | "(j, s) \<in> set (b_sessions b)" "k = i" "s' = r" | "(j, s) \<in> set (b_sessions b)" "(k, s') \<in> set (b_sessions b)"
      using h(1,2) unfolding mem by argo
    then show ?thesis using h(3) assms(4) old(2) by cases auto
  qed
  moreover have "length ?ss \<le> MAX_REGISTERED_SESSIONS"
    using assms(1,3) by (auto simp: registry_inv_def length_update_dict)
  moreover have "dict_ok ?ss" using ok by simp
  moreover have "b_sessions (b\<lparr>b_sessions := ?ss\<rparr>) = ?ss" "b_devices (b\<lparr>b_sessions := ?ss\<rparr>) = b_devices b" by simp_all
  ultimately show ?thesis using assms(1) unfolding registry_inv_def by metis
qed

lemma registry_inv_frame: "registry_inv b \<Longrightarrow> b_devices b' = b_devices b \<Longrightarrow> b_sessions b' = b_sessions b \<Longrightarrow> registry_inv b'"
  by (simp add: registry_inv_def)

lemma open_sessionE:
  assumes "broker_open_session now sid s tab orig mode pol b = Inr (r, b')"
  obtains d where "device_for_sid b sid = Inr d" "\<not> same_device_conflict b (bd_device_id d) (str_of s) (bs_tab_id r)"
    "has_key (b_sessions b) (str_of s) \<or> length (b_sessions b) < MAX_REGISTERED_SESSIONS"
    "bs_session_id r = str_of s" "bs_device_id r = bd_device_id d" "bs_user_id r = bd_user_id d" "bs_sid r = sid"
    "b' = b\<lparr>b_sessions := AList.update (str_of s) r (b_sessions b)\<rparr>"
proof -
  from assms obtain d where d: "device_for_sid b sid = Inr d" by (auto simp: broker_open_session_def rbind_Inr_iff)
  moreover from assms d obtain i where "as_int tab = Some i" by (auto simp: broker_open_session_def split: if_splits option.splits)
  ultimately show thesis using assms
    by (intro that [OF d]) (auto simp: broker_open_session_def rbind_Inr_iff Let_def not_le split: if_splits)
qed

lemma open_session_registry:
  assumes "broker_open_session now sid s tab orig mode pol b = Inr (r, b')" and inv: "registry_inv b"
  shows "registry_inv b'"
  using assms(1)
proof (rule open_sessionE)
  fix d
  assume c: "\<not> same_device_conflict b (bd_device_id d) (str_of s) (bs_tab_id r)" and "bs_device_id r = bd_device_id d"
    "bs_session_id r = str_of s" "has_key (b_sessions b) (str_of s) \<or> length (b_sessions b) < MAX_REGISTERED_SESSIONS"
    and b': "b' = b\<lparr>b_sessions := AList.update (str_of s) r (b_sessions b)\<rparr>"
  moreover have "j = str_of s" if "(j, x) \<in> set (b_sessions b)" "bs_device_id x = bd_device_id d" for j x
    using c that by (auto simp: same_device_conflict_def list_ex_iff)
  ultimately show ?thesis unfolding b' by (intro registry_inv_sessions [OF inv]) simp_all
qed

lemma registry_inv_step:
  assumes inv: "registry_inv b" and "broker_step b b'"
  shows "registry_inv b'"
  using assms(2)
proof cases
  case step_register
  then show ?thesis
    by (auto simp: register_device_def Let_def split: if_splits intro!: registry_inv_devices [OF inv])
next
  case (step_heartbeat now sid r)
  then obtain d where d: "device_for_sid b sid = Inr d"
    and b': "b' = b\<lparr>b_devices := AList.update (bd_device_id d) (d\<lparr>bd_last_seen_at := now\<rparr>) (b_devices b)\<rparr>"
    by (auto simp: broker_heartbeat_def rbind_Inr_iff Let_def)
  from device_for_sid_in [OF d] obtain i where i: "(i, d) \<in> set (b_devices b)" by blast
  moreover have "bd_device_id d = i" using inv i unfolding registry_inv_def by blast
  ultimately have "has_key (b_devices b) (bd_device_id d)" by (metis has_key_iff image_eqI fst_conv)
  then show ?thesis unfolding b' by (intro registry_inv_devices [OF inv]) simp_all
next
  case step_open
  then show ?thesis using inv by (rule open_session_registry)
next
  case step_close
  then show ?thesis using inv
    by (auto simp: broker_close_session_def registry_inv_def set_delete_dict split: if_splits option.splits
        intro: order_trans [OF length_delete_le])
next
  case step_disconnect
  then show ?thesis using inv
    by (auto simp: broker_disconnect_def Let_def registry_inv_def intro: order_trans [OF length_filter_le])
next
  case step_dispatch
  then show ?thesis by (elim dispatch_beginE) (simp add: registry_inv_frame [OF inv])
next
  case step_abandon
  then show ?thesis by (intro registry_inv_frame [OF inv]) (auto simp: dispatch_abandon_def)
next
  case step_result
  then show ?thesis by (elim accept_resultE) (simp add: registry_inv_frame [OF inv])
next
  case step_cancel
  then show ?thesis
    by (intro registry_inv_frame [OF inv]) (auto simp: broker_cancel_def split: option.splits if_splits)
next
  case (step_transport frepr cid d out)
  have "accept_result frepr x y b = Inr z \<Longrightarrow> b_devices (snd z) = b_devices b \<and> b_sessions (snd z) = b_sessions b" for x y z
    by (cases z) (auto elim!: accept_resultE)
  then show ?thesis unfolding step_transport
    by (intro registry_inv_frame [OF inv])
      (auto simp: run_transport_def fail_pending_def split: transport_outcome.splits sum.splits)
qed

lemma registry_inv_init: "registry_inv (broker_init t n m)"
  by (simp add: registry_inv_def broker_init_def)

lemma registry_inv_reachable: "broker_run (broker_init t n m) b \<Longrightarrow> registry_inv b"
  using broker_run_invariant registry_inv_init registry_inv_step by blast

subsection \<open>A run: one device, one session, one mutating command in flight\<close>

definition live_device :: broker_device where
  "live_device = \<lparr>bd_user_id = ''u'', bd_device_id = ''d'', bd_sid = ''k'', bd_token_family_id = ''f'', bd_origin = ''o'', bd_last_seen_at = 0\<rparr>"

definition live_session :: broker_session where
  "live_session = \<lparr>bs_user_id = ''u'', bs_device_id = ''d'', bs_sid = ''k'', bs_session_id = ''s'', bs_tab_id = 3, bs_tab_origin = ''t'',
     bs_action_mode = ''autonomous'', bs_tab_policy = ''locked'', bs_opened_at = 0\<rparr>"

definition live_command :: pending_command where
  "live_command = \<lparr>p_command_id = ''c'', p_user_id = ''u'', p_device_id = ''d'', p_session_id = ''s'', p_sid = ''k'', p_nonce = ''n'',
     p_sequence = 1, p_mutating = True\<rparr>"

definition live_open :: broker where
  "live_open = (broker_init 30 1000 256)\<lparr>b_devices := [(''d'', live_device)], b_sessions := [(''s'', live_session)]\<rparr>"

definition live_busy :: broker where
  "live_busy = live_open\<lparr>b_pending := [(''c'', live_command)], b_mutating := {''d''}, b_sequences := [(''d'', 1)]\<rparr>"

lemmas live_defs = live_device_def live_session_def live_command_def live_open_def live_busy_def

lemma live_register:
  "register_device 0 ''u'' ''d'' ''k'' ''f'' ''o'' (broker_init 30 1000 256) =
     Inr (live_device, (broker_init 30 1000 256)\<lparr>b_devices := [(''d'', live_device)]\<rparr>)"
  by (simp add: register_device_def broker_init_def live_device_def Let_def MAX_REGISTERED_DEVICES_def)

lemma live_opens:
  "broker_open_session 0 ''k'' (PStr ''s'') (PInt 3) (PStr ''t'') (PStr ''autonomous'') (PStr ''locked'')
     ((broker_init 30 1000 256)\<lparr>b_devices := [(''d'', live_device)]\<rparr>) = Inr (live_session, live_open)"
  by (simp add: broker_open_session_def device_for_sid_def nonempty_str_def Let_def in_display_def same_device_conflict_def
      broker_init_def live_defs MAX_REGISTERED_SESSIONS_def)

lemma live_run_open: "broker_run (broker_init 30 1000 256) live_open"
  by (rule run_step [OF run_step [OF run_refl step_register [OF live_register]] step_open [OF live_opens]])

lemma live_dispatch:
  "dispatch_begin ''c'' ''n'' 0 ''u'' ''s'' ''click'' [] True None live_open =
     Inr (command_request live_command 0 30 ''click'' [], live_busy)"
  by (simp add: dispatch_begin_def live_defs broker_init_def get_or_def add_pending_def Let_def)

lemma live_run_busy: "broker_run (broker_init 30 1000 256) live_busy"
  by (rule run_step [OF live_run_open step_dispatch [OF live_dispatch]]) (simp_all add: live_defs broker_init_def has_key_def)

lemma fail_matching_other:
  "c \<notin> fst ` set ps \<Longrightarrow> map_of (b_futures (fail_matching P e ps b)) c = map_of (b_futures b) c \<and>
     has_key (b_pending (fail_matching P e ps b)) c = has_key (b_pending b) c"
  by (induction P e ps b rule: fail_matching.induct) (auto simp: settle_def has_key_def)

lemma fail_matching_settles:
  assumes "dict_ok ps" "(c, p) \<in> set ps" "P p" "\<not> has_key (b_futures b) c"
  shows "map_of (b_futures (fail_matching P e ps b)) c = Some (Failed e) \<and> \<not> has_key (b_pending (fail_matching P e ps b)) c"
  using assms
proof (induction P e ps b rule: fail_matching.induct)
  case (2 P e cid q ps b)
  show ?case
  proof (cases "c = cid")
    case True
    then have "q = p" "c \<notin> fst ` set ps" using 2(2,3) by (auto simp: dict_ok_def rev_image_eqI)
    then show ?thesis using True 2(4,5) by (simp add: fail_matching_other settle_def) (simp add: has_key_def)
  next
    case False
    have "\<not> has_key (b_futures (if P q then settle cid (Failed e) (remove_pending cid b) else b)) c"
      using 2(5) False by (simp add: settle_has)
    then show ?thesis using 2(1) 2(2-4) False by (simp add: dict_ok_def)
  qed
qed simp

lemma max_pending_run: "broker_run b b' \<Longrightarrow> b_max_pending b' = b_max_pending b"
proof (induction rule: broker_run.induct)
  case (run_step b b' b'')
  have "finishes x y \<Longrightarrow> b_max_pending y = b_max_pending x" for x y by (induction rule: finishes.induct) simp_all
  with run_step show ?case by (elim broker_step_cases) (auto elim!: dispatch_beginE)
qed simp

section \<open>Properties\<close>

text \<open>C3: In every state the broker of a worker can reach, at most \<open>max_pending_commands\<close> of its commands are in flight, and
  a mutating command is alone on its device: no other command the worker has sent to that device, reading or
  mutating, is in flight with it.
\<close>

theorem broker_mutual_exclusion:
  assumes "broker_run (broker_init t n m) b"
  shows "length (b_pending b) \<le> m \<and>
    (\<forall>c p c' p'. (c, p) \<in> set (b_pending b) \<and> p_mutating p \<and> (c', p') \<in> set (b_pending b) \<and> p_device_id p' = p_device_id p
       \<longrightarrow> c' = c \<and> p' = p)"
proof -
  have inv: "dict_ok (b_pending b)" "exclusive (b_pending b)" "length (b_pending b) \<le> b_max_pending b"
    using broker_inv_reachable [OF assms] by (simp_all add: broker_inv_def)
  have "b_max_pending b = m" using max_pending_run [OF assms] by (simp add: broker_init_def)
  moreover have "c' = c \<and> p' = p" if "(c, p) \<in> set (b_pending b)" "p_mutating p" "(c', p') \<in> set (b_pending b)" "p_device_id p' = p_device_id p" for c p c' p'
  proof -
    have "c' = c" using inv(2) that unfolding exclusive_def by blast
    then show ?thesis using dict_ok_unique [OF inv(1), of c p' p] that(1,3) by simp
  qed
  ultimately show ?thesis using inv(3) by blast
qed

theorem broker_mutual_exclusion_witness:
  "broker_run (broker_init 30 1000 256) live_busy \<and> p_mutating live_command \<and> length (b_pending live_busy) \<le> 256"
  using broker_mutual_exclusion [OF live_run_busy] live_run_busy by (simp add: live_defs)

text \<open>No lock leaks: when \<open>dispatch\<close> answers \<open>device_busy\<close> there is a command in flight on the
  device of that session that conflicts with the new one.
\<close>

theorem device_busy_means_in_flight:
  assumes run: "broker_run (broker_init t n m) b"
    and busy: "dispatch_begin cid nonce now u s name args mut timeout b = Inl (bce ''device_busy'')"
  shows "\<exists>ss c p. map_of (b_sessions b) s = Some ss \<and> (c, p) \<in> set (b_pending b) \<and> p_device_id p = bs_device_id ss \<and>
    (p_mutating p \<or> mut)"
proof -
  obtain ss where s: "map_of (b_sessions b) s = Some ss"
    and lock: "bs_device_id ss \<in> b_mutating b \<or> mut \<and> get_or (b_reading b) (bs_device_id ss) 0 > 0"
    using busy by (auto simp: dispatch_begin_def Let_def split: option.splits if_splits)
  have inv: "b_mutating b = mutated (b_pending b)" "\<And>d. get_or (b_reading b) d 0 = int (reads (b_pending b) d)"
    using broker_inv_reachable [OF run] by (simp_all add: broker_inv_def)
  from lock have "\<exists>c p. (c, p) \<in> set (b_pending b) \<and> p_device_id p = bs_device_id ss \<and> (p_mutating p \<or> mut)"
    using length_pos_if_in_set by (auto simp: inv mutated_def reads_def filter_empty_conv)
  with s show ?thesis by blast
qed

theorem device_busy_means_in_flight_witness:
  "dispatch_begin ''x'' ''y'' 0 ''u'' ''s'' ''snapshot'' [] False None live_busy = Inl (bce ''device_busy'') \<and>
   (\<exists>ss c p. map_of (b_sessions live_busy) ''s'' = Some ss \<and> (c, p) \<in> set (b_pending live_busy) \<and>
      p_device_id p = bs_device_id ss \<and> (p_mutating p \<or> False))"
proof -
  have "dispatch_begin ''x'' ''y'' 0 ''u'' ''s'' ''snapshot'' [] False None live_busy = Inl (bce ''device_busy'')"
    by (simp add: dispatch_begin_def live_defs broker_init_def)
  then show ?thesis using device_busy_means_in_flight [OF live_run_busy] by blast
qed

text \<open>C15: A dispatched command is never lost and never answered twice: in every later state it is
  still in flight, without an outcome, or it has an outcome that no further step changes and it is
  in flight no more, now and ever after.
\<close>

theorem command_outcome_final:
  assumes "broker_run (broker_init t n m) b" "map_of (b_pending b) c = Some p" "broker_run b b'"
  shows "map_of (b_pending b') c = Some p \<and> \<not> has_key (b_futures b') c \<or>
    (\<exists>out. \<forall>b''. broker_run b' b'' \<longrightarrow> map_of (b_futures b'') c = Some out \<and> \<not> has_key (b_pending b'') c)"
proof -
  have reach: "broker_inv x" if "broker_run b' x" for x
    using broker_inv_reachable broker_run_trans [OF that broker_run_trans [OF assms(3,1)]] .
  have acc: "accounted c p b'"
    using broker_run_invariant [of b b' "accounted c p"] assms(2,3) accounted_step by (auto simp: accounted_def)
  show ?thesis
  proof (cases "map_of (b_futures b') c")
    case None
    then show ?thesis using acc by (simp add: accounted_def has_key_def)
  next
    case (Some out)
    have "map_of (b_futures x) c = Some out \<and> \<not> has_key (b_pending x) c" if "broker_run b' x" for x
    proof -
      have "outcome_is c out x"
        by (rule broker_run_invariant [OF that]) (use Some in \<open>simp add: outcome_is_def\<close>, rule outcome_step)
      then show ?thesis using reach [OF that] by (auto simp: outcome_is_def broker_inv_def has_key_def)
    qed
    then show ?thesis by blast
  qed
qed

theorem command_outcome_final_witness:
  "map_of (b_pending live_busy) ''c'' = Some live_command \<and>
   (\<exists>out. map_of (b_futures (broker_disconnect ''z'' (dispatch_abandon ''c'' live_busy))) ''c'' = Some out)"
proof -
  let ?b = "dispatch_abandon ''c'' live_busy"
  have p: "map_of (b_pending live_busy) ''c'' = Some live_command" by (simp add: live_defs)
  moreover have "\<not> map_of (b_pending ?b) ''c'' = Some live_command" by (simp add: dispatch_abandon_def live_defs has_key_def)
  moreover have "broker_run ?b (broker_disconnect ''z'' ?b)" by (rule run_step [OF run_refl step_disconnect])
  ultimately show ?thesis
    using command_outcome_final [OF live_run_busy p run_step [OF run_refl step_abandon]] by blast
qed

text \<open>C16: A result is only accepted for a command in flight whose device, user, session, nonce and
  sequence number it repeats (and for the device whose socket sent it); it settles that command
  and nothing else.
\<close>

theorem accept_result_authentic:
  assumes "accept_result frepr expected env b = Inr (v, b')"
  shows "\<exists>e cid p payload. env = PDict e \<and> pget e ''id'' = PStr cid \<and> map_of (b_pending b) cid = Some p \<and>
    pget e ''payload'' = PDict payload \<and> pget e ''deviceId'' = PStr (p_device_id p) \<and> (\<forall>d. expected = Some d \<longrightarrow> p_device_id p = d) \<and>
    pget e ''userId'' = PStr (p_user_id p) \<and> pget e ''sessionId'' = PStr (p_session_id p) \<and>
    pget payload ''nonce'' = PStr (p_nonce p) \<and> py_eq_int (pget payload ''sequence'') (p_sequence p) \<and>
    b_pending b' = AList.delete cid (b_pending b) \<and> (\<forall>c. c \<noteq> cid \<longrightarrow> map_of (b_futures b') c = map_of (b_futures b) c) \<and>
    b_devices b' = b_devices b \<and> b_sessions b' = b_sessions b \<and> b_sequences b' = b_sequences b"
proof -
  obtain e p payload out where e: "check_envelope frepr b env = Inr e" "nonempty_str (pget e ''id'')"
    "map_of (b_pending b) (str_of (pget e ''id'')) = Some p" "as_dict (pget e ''payload'') = Some payload"
    and id: "result_identity ''command.result'' expected p e payload"
    and b': "b' = settle (str_of (pget e ''id'')) out (remove_pending (str_of (pget e ''id'')) b)"
    and "out = Resolved v \<or> v = PNone \<and> out = Failed (reported_error (pget payload ''error''))"
    using assms by (rule accept_resultE)
  from e(1) have env: "env = PDict e" by (auto simp: check_envelope_def split: option.splits if_splits)
  from e(2) obtain cid where cid: "pget e ''id'' = PStr cid" by (auto simp: nonempty_str_iff)
  have "\<forall>c. c \<noteq> cid \<longrightarrow> map_of (b_futures b') c = map_of (b_futures b) c" by (simp add: b' cid settle_def)
  then show ?thesis using env e(3,4) id cid
    by (intro exI [of _ e] exI [of _ cid] exI [of _ p] exI [of _ payload])
      (auto simp: result_identity_def b' split: option.splits)
qed

definition live_result :: pyval where
  "live_result = PDict [(''version'', PInt 1), (''type'', PStr ''command.result''), (''id'', PStr ''c''), (''deviceId'', PStr ''d''),
     (''userId'', PStr ''u''), (''sessionId'', PStr ''s''),
     (''payload'', PDict [(''nonce'', PStr ''n''), (''sequence'', PInt 1), (''ok'', PBool True), (''value'', PInt 7)])]"

lemma live_result_accepted:
  "case accept_result (\<lambda>_. []) (Some ''d'') live_result live_busy of Inl _ \<Rightarrow> False | Inr (v, b') \<Rightarrow> v = PInt 7"
  by code_simp

theorem accept_result_authentic_witness:
  "\<exists>v b' e cid p payload. accept_result (\<lambda>_. []) (Some ''d'') live_result live_busy = Inr (v, b') \<and> v = PInt 7 \<and> live_result = PDict e \<and>
     map_of (b_pending live_busy) cid = Some p \<and> pget e ''payload'' = PDict payload \<and> pget payload ''nonce'' = PStr (p_nonce p)"
proof -
  obtain b' where r: "accept_result (\<lambda>_. []) (Some ''d'') live_result live_busy = Inr (PInt 7, b')"
    using live_result_accepted by (auto split: sum.splits)
  from accept_result_authentic [OF r] show ?thesis using r by metis
qed

text \<open>The sequence numbers a device sees grow strictly: of two commands dispatched to the same
  device the later one has the larger number, whatever happened in between.
\<close>

theorem sequence_numbers_grow:
  assumes "dispatch_begin cid nonce now u s name args m t b = Inr (req, b1)" "map_of (b_pending b1) cid = Some p"
    and "broker_run b1 b2" "dispatch_begin cid' nonce' now' u' s' name' args' m' t' b2 = Inr (req', b3)"
    and "map_of (b_pending b3) cid' = Some q" "p_device_id q = p_device_id p"
  shows "p_sequence p < p_sequence q"
  using dispatch_sequence [OF assms(1)] dispatch_sequence [OF assms(4)] sequences_run [OF assms(3), of "p_device_id p"] assms(2,5,6)
  by auto

theorem sequence_numbers_grow_witness:
  "\<exists>req b3 q. dispatch_begin ''x'' ''y'' 0 ''u'' ''s'' ''click'' [] True None (dispatch_abandon ''c'' live_busy) = Inr (req, b3) \<and>
     map_of (b_pending b3) ''x'' = Some q \<and> p_sequence live_command < p_sequence q"
proof -
  let ?b2 = "dispatch_abandon ''c'' live_busy"
  have step: "broker_run live_busy ?b2" by (rule run_step [OF run_refl step_abandon])
  have p: "map_of (b_pending live_busy) ''c'' = Some live_command" by (simp add: live_defs)
  obtain req b3 where d: "dispatch_begin ''x'' ''y'' 0 ''u'' ''s'' ''click'' [] True None ?b2 = Inr (req, b3)"
    by (simp add: dispatch_begin_def dispatch_abandon_def remove_pending_def settle_def live_defs broker_init_def get_or_def has_key_def Let_def)
  obtain q where q: "map_of (b_pending b3) ''x'' = Some q" "p_device_id q = ''d''"
    using d by (auto simp: dispatch_begin_def dispatch_abandon_def remove_pending_def settle_def live_defs broker_init_def
        get_or_def has_key_def Let_def)
  have "p_device_id q = p_device_id live_command" using q(2) by (simp add: live_command_def)
  from sequence_numbers_grow [OF live_dispatch p step d q(1) this] d q(1) show ?thesis by blast
qed

text \<open>A device has at most one open session, so all commands of a device go to one tab.
\<close>

theorem one_session_per_device:
  assumes "broker_run (broker_init t n m) b" "map_of (b_sessions b) i = Some s" "map_of (b_sessions b) j = Some s'"
    and "bs_device_id s = bs_device_id s'"
  shows "i = j \<and> s = s'"
proof -
  have "(i, s) \<in> set (b_sessions b)" "(j, s') \<in> set (b_sessions b)" using assms(2,3) by (auto dest: map_of_SomeD)
  then have "i = j" using registry_inv_reachable [OF assms(1)] assms(4) unfolding registry_inv_def by metis
  then show ?thesis using assms(2,3) by simp
qed

theorem one_session_per_device_witness:
  "map_of (b_sessions live_open) ''s'' = Some live_session \<and> ''s'' = ''s'' \<and> live_session = live_session"
proof -
  have "map_of (b_sessions live_open) ''s'' = Some live_session" by (simp add: live_open_def)
  then show ?thesis using one_session_per_device [OF live_run_open] by blast
qed

text \<open>When a socket goes away, its devices and sessions leave the registries and every command
  in flight on one of these devices fails at once with \<open>device_disconnected\<close>: no caller is left
  waiting for its timeout.
\<close>

theorem disconnect_fails_commands:
  assumes "broker_run (broker_init t n m) b" "map_of (b_devices b) d = Some r" "bd_sid r = sid"
    and "map_of (b_pending b) c = Some p" "p_device_id p = d"
  shows "map_of (b_futures (broker_disconnect sid b)) c = Some (Failed (bce ''device_disconnected'')) \<and>
    \<not> has_key (b_pending (broker_disconnect sid b)) c \<and>
    (\<forall>i x. (i, x) \<in> set (b_devices (broker_disconnect sid b)) \<longrightarrow> bd_sid x \<noteq> sid) \<and>
    (\<forall>i x. (i, x) \<in> set (b_sessions (broker_disconnect sid b)) \<longrightarrow> bs_sid x \<noteq> sid)"
proof -
  have inv: "dict_ok (b_pending b)" "\<not> has_key (b_futures b) c"
    using broker_inv_reachable [OF assms(1)] assms(4) by (auto simp: broker_inv_def has_key_def)
  have "(d, r) \<in> set (b_devices b)" using assms(2) by (rule map_of_SomeD)
  then have "List.member (map fst (filter (\<lambda>(i, d). bd_sid d = sid) (b_devices b))) (p_device_id p)"
    using assms(3,5) by (force simp: List.member_iff)
  then show ?thesis
    using fail_matching_settles [OF inv(1) map_of_SomeD [OF assms(4)], where e = "bce ''device_disconnected''"] inv(2)
    by (simp add: broker_disconnect_def Let_def)
qed

theorem disconnect_fails_commands_witness:
  "map_of (b_futures (broker_disconnect ''k'' live_busy)) ''c'' = Some (Failed (bce ''device_disconnected''))"
  using disconnect_fails_commands [OF live_run_busy, of "''d''" live_device "''k''" "''c''" live_command]
  by (simp add: live_defs)

text \<open>The session registry is keyed by an id the client chooses and \<open>open_session\<close> does not look at
  who owns an existing entry: a device that has no session of its own can open one under the id
  of another user's live session. The entry is replaced, and the other user can neither
  dispatch to it nor close it any more.
\<close>

theorem open_session_takes_over:
  assumes "device_for_sid b sid = Inr d" "\<forall>(i, x) \<in> set (b_sessions b). bs_device_id x \<noteq> bd_device_id d"
    and "map_of (b_sessions b) s = Some old" "bs_user_id old \<noteq> bd_user_id d" "bs_sid old \<noteq> sid"
    and "s \<noteq> []" "0 \<le> tab" "orig \<noteq> []"
  shows "\<exists>r b'. broker_open_session now sid (PStr s) (PInt tab) (PStr orig) (PStr ''autonomous'') (PStr ''locked'') b = Inr (r, b') \<and>
    map_of (b_sessions b') s = Some r \<and> bs_user_id r = bd_user_id d \<and>
    dispatch_begin cid nonce now (bs_user_id old) s name args mut t b' = Inl (bce ''session_access_denied'') \<and>
    broker_close_session (bs_sid old) s b' = Inl (bce ''session_access_denied'')"
proof -
  have "\<not> same_device_conflict b (bd_device_id d) s tab" using assms(2) by (auto simp: same_device_conflict_def list_ex_iff)
  moreover have "has_key (b_sessions b) s" using assms(3) by (simp add: has_key_def)
  ultimately show ?thesis using assms
    by (auto simp: broker_open_session_def in_display_def nonempty_str_def Let_def dispatch_begin_def broker_close_session_def)
qed

definition live_two_users :: broker where
  "live_two_users = live_open\<lparr>b_devices := [(''d'', live_device),
     (''d2'', live_device\<lparr>bd_user_id := ''u2'', bd_device_id := ''d2'', bd_sid := ''k2''\<rparr>)]\<rparr>"

theorem open_session_takes_over_witness:
  "\<exists>r b'. broker_open_session 0 ''k2'' (PStr ''s'') (PInt 0) (PStr ''t'') (PStr ''autonomous'') (PStr ''locked'') live_two_users = Inr (r, b') \<and>
    map_of (b_sessions b') ''s'' = Some r \<and> bs_user_id r = ''u2'' \<and>
    dispatch_begin ''c'' ''n'' 0 ''u'' ''s'' ''click'' [] True None b' = Inl (bce ''session_access_denied'')"
  using open_session_takes_over [of live_two_users "''k2''" "live_device\<lparr>bd_user_id := ''u2'', bd_device_id := ''d2'', bd_sid := ''k2''\<rparr>"
      "''s''" live_session 0 "''t''" 0 "''c''" "''n''" "''click''" "[]" True None]
  by (auto simp: live_two_users_def live_defs broker_init_def device_for_sid_def)

end
