(* ===== verification/Config_Store.thy ===== *)
theory Config_Store
  imports Py_Str
begin

section \<open>Configuration (models/config.py)\<close>

text \<open>
  The \<open>Config\<close> table, one row per key, with the class attributes that decide whether the table or
  the process-wide defaults answer for a key. Each method is one transaction. \<open>fastapi\<close>'s
  \<open>jsonable_encoder\<close> and \<open>str\<close> of a value that is not a string are parameters, and so is how the database
  folds letters in \<open>LIKE\<close> (SQLite ignores the case of ASCII letters, PostgreSQL does not). The
  sessions do not flush by themselves (\<open>autoflush=False\<close>): queries see the rows of the last
  commit. A column is written only when the new value differs from the loaded one under
  Python's \<open>==\<close>; the loaded value is compared by reference, so a change made inside it is not seen.
\<close>

record config_row =
  c_key :: string
  c_value :: pyval
  c_updated_at :: "int option"

record config_state =
  DEFAULTS :: "(string, pyval) dict"
  PERSISTENT_ENABLED :: bool
  OAUTH_PERSISTENT_ENABLED :: bool
  c_rows :: "config_row list"

datatype config_error = DuplicateKey

subsection \<open>What the methods use of Python and SQL\<close>

text \<open>Python's \<open>==\<close> on JSON values: numbers compare by value, dictionaries without their order.\<close>

definition py_number :: "pyval \<Rightarrow> pyfloat option" where
  "py_number v = (case v of
      PBool b \<Rightarrow> Some (Fin (of_bool b)) | PInt i \<Rightarrow> Some (Fin (of_int i)) | PFloat f \<Rightarrow> Some f | _ \<Rightarrow> None)"

definition number_eq :: "pyval \<Rightarrow> pyval \<Rightarrow> bool" where
  "number_eq v w = (case (py_number v, py_number w) of (Some a, Some b) \<Rightarrow> a = b \<and> a \<noteq> NaN | _ \<Rightarrow> False)"

fun py_eq :: "pyval \<Rightarrow> pyval \<Rightarrow> bool" where
  "py_eq PNone w = (w = PNone)"
| "py_eq (PBool b) w = number_eq (PBool b) w"
| "py_eq (PInt i) w = number_eq (PInt i) w"
| "py_eq (PFloat f) w = number_eq (PFloat f) w"
| "py_eq (PStr s) w = (w = PStr s)"
| "py_eq (PBytes s) w = (w = PBytes s)"
| "py_eq (PList l) w = (case w of PList m \<Rightarrow> list_all2 py_eq l m | _ \<Rightarrow> False)"
| "py_eq (PTuple l) w = (case w of PTuple m \<Rightarrow> list_all2 py_eq l m | _ \<Rightarrow> False)"
| "py_eq (PDict d) w = (case w of
      PDict e \<Rightarrow> length d = length e \<and> list_all (\<lambda>(k, v). case map_of e k of None \<Rightarrow> False | Some u \<Rightarrow> py_eq v u) d
    | _ \<Rightarrow> False)"

text \<open>\<open>LIKE\<close>: a percent sign stands for any text, an underscore for any character.\<close>

fun sql_like :: "(char \<Rightarrow> char) \<Rightarrow> string \<Rightarrow> string \<Rightarrow> bool" where
  "sql_like lc [] s = (s = [])"
| "sql_like lc (p # ps) [] = (p = CHR ''%'' \<and> sql_like lc ps [])"
| "sql_like lc (p # ps) (c # s) =
     (if p = CHR ''%'' then sql_like lc ps (c # s) \<or> sql_like lc (p # ps) s
      else (p = CHR ''_'' \<or> lc p = lc c) \<and> sql_like lc ps s)"

definition under_prefix :: "(char \<Rightarrow> char) \<Rightarrow> string \<Rightarrow> config_row list \<Rightarrow> config_row list" where
  "under_prefix lc p rows = filter (\<lambda>r. sql_like lc (p @ ''.%'') (c_key r)) rows"

text \<open>\<open>s.removeprefix(p)\<close>, \<open>s.rfind(p)\<close> and \<open>s.isdigit()\<close>; the superscripts are digits for \<open>isdigit\<close>.\<close>

definition removeprefix :: "string \<Rightarrow> string \<Rightarrow> string" where
  "removeprefix p s = (if startswith p s then drop (length p) s else s)"

fun py_rfind :: "string \<Rightarrow> string \<Rightarrow> nat option" where
  "py_rfind p [] = (if p = [] then Some 0 else None)"
| "py_rfind p (c # s) = (case py_rfind p s of Some i \<Rightarrow> Some (Suc i) | None \<Rightarrow> if startswith p (c # s) then Some 0 else None)"

definition str_isdigit :: "string \<Rightarrow> bool" where
  "str_isdigit s \<longleftrightarrow> s \<noteq> [] \<and> list_all (\<lambda>c. is_digit c \<or> code c \<in> {178, 179, 185}) s"

text \<open>\<open>db.get(Config, key)\<close> and the dictionary of the rows.\<close>

definition get_row :: "config_row list \<Rightarrow> string \<Rightarrow> config_row option" where
  "get_row rows key = find (\<lambda>r. c_key r = key) rows"

definition row_values :: "config_row list \<Rightarrow> (string, pyval) dict" where
  "row_values rows = map (\<lambda>r. (c_key r, c_value r)) rows"

text \<open>\<open>row.value = v; row.updated_at = now\<close>, flushed.\<close>

definition assign_value :: "int \<Rightarrow> pyval \<Rightarrow> config_row \<Rightarrow> config_row" where
  "assign_value now v r = r\<lparr>c_value := (if py_eq v (c_value r) then c_value r else v), c_updated_at := Some now\<rparr>"

definition update_key :: "string \<Rightarrow> (config_row \<Rightarrow> config_row) \<Rightarrow> config_row list \<Rightarrow> config_row list" where
  "update_key key f rows = map (\<lambda>r. if c_key r = key then f r else r) rows"

subsection \<open>Reading\<close>

definition configure :: "(string, pyval) dict option \<Rightarrow> bool \<Rightarrow> bool \<Rightarrow> config_state \<Rightarrow> config_state" where
  "configure defaults persistent oauth s =
     s\<lparr>DEFAULTS := (case defaults of None \<Rightarrow> [] | Some d \<Rightarrow> d), PERSISTENT_ENABLED := persistent, OAUTH_PERSISTENT_ENABLED := oauth\<rparr>"

definition default_value :: "config_state \<Rightarrow> string \<Rightarrow> pyval \<Rightarrow> pyval" where
  "default_value s key d = (case map_of (DEFAULTS s) key of None \<Rightarrow> d | Some v \<Rightarrow> v)"

definition persistent_enabled_for :: "config_state \<Rightarrow> string \<Rightarrow> bool" where
  "persistent_enabled_for s key =
     (if \<not> PERSISTENT_ENABLED s then False
      else if startswith ''oauth.'' key \<and> \<not> OAUTH_PERSISTENT_ENABLED s then False
      else True)"

definition config_get :: "config_state \<Rightarrow> string \<Rightarrow> pyval \<Rightarrow> pyval" where
  "config_get s key d =
     (if \<not> persistent_enabled_for s key then default_value s key d
      else case get_row (c_rows s) key of Some row \<Rightarrow> c_value row | None \<Rightarrow> default_value s key d)"

text \<open>A dictionary comprehension over keys.\<close>

definition dict_over :: "string list \<Rightarrow> (string \<Rightarrow> pyval) \<Rightarrow> (string, pyval) dict" where
  "dict_over keys f = fold (\<lambda>k d. AList.update k (f k) d) keys []"

definition get_many :: "config_state \<Rightarrow> string list \<Rightarrow> (string, pyval) dict" where
  "get_many s keys =
     (let disabled_values = dict_over (filter (\<lambda>k. \<not> persistent_enabled_for s k \<and> has_key (DEFAULTS s) k) keys) (\<lambda>k. default_value s k PNone);
          enabled_keys = filter (persistent_enabled_for s) keys
      in if enabled_keys = [] then disabled_values
         else let values = row_values (filter (\<lambda>r. List.member enabled_keys (c_key r)) (c_rows s))
              in dict_over (filter (\<lambda>k. has_key values k \<or> has_key (DEFAULTS s) k \<or> has_key disabled_values k) keys)
                   (\<lambda>k. case map_of values k of Some v \<Rightarrow> v | None \<Rightarrow> default_value s k PNone))"

definition dict_update :: "(string, pyval) dict \<Rightarrow> (string, pyval) dict \<Rightarrow> (string, pyval) dict" where
  "dict_update d e = fold (\<lambda>(k, v). AList.update k v) e d"

definition get_namespace :: "(char \<Rightarrow> char) \<Rightarrow> config_state \<Rightarrow> string \<Rightarrow> (string, pyval) dict" where
  "get_namespace lc s namespace =
     (let default_values = filter (\<lambda>(k, v). startswith (namespace @ ''.'') k \<and> \<not> persistent_enabled_for s k) (DEFAULTS s)
      in if \<not> PERSISTENT_ENABLED s then default_values
         else dict_update (row_values (under_prefix lc namespace (c_rows s))) default_values)"

definition get_all :: "config_state \<Rightarrow> (string, pyval) dict" where
  "get_all s =
     (if \<not> PERSISTENT_ENABLED s then DEFAULTS s
      else if \<not> OAUTH_PERSISTENT_ENABLED s
      then dict_update (row_values (c_rows s)) (filter (\<lambda>(k, v). startswith ''oauth.'' k) (DEFAULTS s))
      else row_values (c_rows s))"

subsection \<open>Writing\<close>

text \<open>The loop of \<open>upsert\<close> over the updates, first in memory and then on the table.\<close>

definition put_row :: "int \<Rightarrow> config_row list \<Rightarrow> string \<Rightarrow> pyval \<Rightarrow> config_row list" where
  "put_row now rows key v = (case get_row rows key of
      Some _ \<Rightarrow> update_key key (assign_value now v) rows
    | None \<Rightarrow> rows @ [\<lparr>c_key = key, c_value = v, c_updated_at = Some now\<rparr>])"

fun upsert :: "(pyval \<Rightarrow> pyval) \<Rightarrow> int \<Rightarrow> (string, pyval) dict \<Rightarrow> config_state \<Rightarrow> config_state" where
  "upsert enc now [] s = s"
| "upsert enc now ((key, value) # updates) s =
     upsert enc now updates
       (if persistent_enabled_for s key then s\<lparr>c_rows := put_row now (c_rows s) key (enc value)\<rparr>
        else s\<lparr>DEFAULTS := AList.update key (enc value) (DEFAULTS s)\<rparr>)"

definition config_delete :: "string \<Rightarrow> config_state \<Rightarrow> bool \<times> config_state" where
  "config_delete key s = (case get_row (c_rows s) key of
      Some _ \<Rightarrow> (True, s\<lparr>c_rows := filter (\<lambda>r. c_key r \<noteq> key) (c_rows s)\<rparr>)
    | None \<Rightarrow> (False, s))"

definition config_clear :: "config_state \<Rightarrow> config_state" where
  "config_clear s = s\<lparr>c_rows := []\<rparr>"

fun seed_defaults :: "(pyval \<Rightarrow> pyval) \<Rightarrow> int \<Rightarrow> (string, pyval) dict \<Rightarrow> config_state \<Rightarrow> config_state" where
  "seed_defaults enc now [] s = s"
| "seed_defaults enc now ((key, value) # defaults) s =
     seed_defaults enc now defaults
       (if \<not> persistent_enabled_for s key then s
        else if get_row (c_rows s) key \<noteq> None then s
        else s\<lparr>c_rows := c_rows s @ [\<lparr>c_key = key, c_value = enc value, c_updated_at = Some now\<rparr>]\<rparr>)"

text \<open>
  \<open>rename_prefix\<close>: the rows added stay pending until the commit, which refuses two of the same
  key.
\<close>

definition renamed_key :: "string \<Rightarrow> string \<Rightarrow> string \<Rightarrow> string" where
  "renamed_key old_prefix new_prefix key = new_prefix @ ''.'' @ removeprefix (old_prefix @ ''.'') key"

definition rename_prefix ::
  "(char \<Rightarrow> char) \<Rightarrow> int \<Rightarrow> string \<Rightarrow> string \<Rightarrow> config_state \<Rightarrow> (config_error, config_state) result" where
  "rename_prefix lc now old_prefix new_prefix s =
     (if \<not> PERSISTENT_ENABLED s then Inr s
      else let rows = under_prefix lc old_prefix (c_rows s);
               added = map (\<lambda>r. \<lparr>c_key = renamed_key old_prefix new_prefix (c_key r), c_value = c_value r, c_updated_at = Some now\<rparr>)
                         (filter (\<lambda>r. get_row (c_rows s) (renamed_key old_prefix new_prefix (c_key r)) = None) rows)
           in if \<not> distinct (map c_key added) then Inl DuplicateKey
              else Inr (s\<lparr>c_rows := filter (\<lambda>r. \<not> sql_like lc (old_prefix @ ''.%'') (c_key r)) (c_rows s) @ added\<rparr>))"

subsection \<open>Repairing rows that hold one field of a dictionary each\<close>

definition API_CONFIG_KEYS :: "string list" where
  "API_CONFIG_KEYS = [''openai.api_configs'', ''ollama.api_configs'']"

definition DICT_CONFIG_KEY_ALIASES :: "(string \<times> string list) list" where
  "DICT_CONFIG_KEY_ALIASES =
    [(''openai.api_configs'', [''OPENAI_API_CONFIGS'']),
     (''ollama.api_configs'', [''OLLAMA_API_CONFIGS'']),
     (''rag.mineru_params'', [''MINERU_PARAMS'']),
     (''rag.docling_params'', [''DOCLING_PARAMS'']),
     (''web.search.linkup_search_params'', [''LINKUP_SEARCH_PARAMS'']),
     (''image_generation.automatic1111.api_params'', [''AUTOMATIC1111_PARAMS'']),
     (''image_generation.openai.params'', [''IMAGES_OPENAI_API_PARAMS'']),
     (''audio.tts.openai.params'', [''AUDIO_TTS_OPENAI_PARAMS'']),
     (''models.default_metadata'', [''DEFAULT_MODEL_METADATA'']),
     (''models.default_params'', [''DEFAULT_MODEL_PARAMS'']),
     (''task.model.params'', [''TASK_MODEL_PARAMS'']),
     (''ui.default_interface_settings'', [''DEFAULT_INTERFACE_SETTINGS'']),
     (''user.permissions'', [''USER_PERMISSIONS''])]"

definition API_CONFIG_FIELDS :: "string list" where
  "API_CONFIG_FIELDS = [''enable'', ''key'', ''prefix_id'', ''tags'', ''model_ids'', ''connection_type'', ''provider'', ''auth_type'',
     ''headers'', ''azure'', ''api_type'', ''api_version'', ''extra_params'', ''passthrough_params'']"

text \<open>The marker that starts last, the first of them in the order of the fields.\<close>

fun last_marker :: "string \<Rightarrow> string list \<Rightarrow> nat option \<Rightarrow> nat option" where
  "last_marker fragment [] m = m"
| "last_marker fragment (field # rest) m =
     last_marker fragment rest (case py_rfind (''.'' @ field) fragment of
         None \<Rightarrow> m
       | Some i \<Rightarrow> (case m of None \<Rightarrow> Some i | Some j \<Rightarrow> if i > j then Some i else m))"

definition split_api_config_fragment :: "string \<Rightarrow> (string \<times> string list) option" where
  "split_api_config_fragment fragment =
     (if fragment = [] then None
      else case py_partition (CHR ''.'') fragment of (first, _, rest) \<Rightarrow>
        if str_isdigit first \<and> rest \<noteq> [] then Some (first, split_on (CHR ''.'') rest)
        else case last_marker fragment API_CONFIG_FIELDS None of
            None \<Rightarrow> None
          | Some i \<Rightarrow> if take i fragment \<noteq> [] then Some (take i fragment, split_on (CHR ''.'') (drop (i + 1) fragment)) else None)"

text \<open>\<open>_assign_path\<close> on the first part of the path and the rest; \<open>split\<close> never returns an empty path.\<close>

fun assign_path :: "(string, pyval) dict \<Rightarrow> string \<Rightarrow> string list \<Rightarrow> pyval \<Rightarrow> (string, pyval) dict" where
  "assign_path target part [] value = AList.update part value target"
| "assign_path target part (next # path) value =
     AList.update part (PDict (assign_path (case as_dict (pget target part) of Some d \<Rightarrow> d | None \<Rightarrow> []) next path value)) target"

definition assign_parts :: "(string, pyval) dict \<Rightarrow> string list \<Rightarrow> pyval \<Rightarrow> (string, pyval) dict" where
  "assign_parts target path value = assign_path target (hd path) (tl path) value"

text \<open>One row of the inner loop: the dictionary with the field put back, if the row has a place in it.\<close>

definition row_fragment :: "string list \<Rightarrow> string \<Rightarrow> string option" where
  "row_fragment key_prefixes key =
     map_option (\<lambda>p. removeprefix (p @ ''.'') key) (find (\<lambda>p. startswith (p @ ''.'') key) key_prefixes)"

definition repair_row :: "string \<Rightarrow> string list \<Rightarrow> (string, pyval) dict \<Rightarrow> config_row \<Rightarrow> (string, pyval) dict option" where
  "repair_row config_key key_prefixes repaired row = (case row_fragment key_prefixes (c_key row) of
      None \<Rightarrow> None
    | Some fragment \<Rightarrow>
        if List.member API_CONFIG_KEYS config_key
        then (case split_api_config_fragment fragment of
            None \<Rightarrow> None
          | Some (object_key, field_path) \<Rightarrow>
              (case (case map_of repaired object_key of None \<Rightarrow> PDict [] | Some v \<Rightarrow> v) of
                 PDict target \<Rightarrow> Some (AList.update object_key (PDict (assign_parts target field_path (c_value row))) repaired)
               | _ \<Rightarrow> None))
        else Some (assign_parts repaired (split_on (CHR ''.'') fragment) (c_value row)))"

fun repair_rows :: "string \<Rightarrow> string list \<Rightarrow> (string, pyval) dict \<Rightarrow> config_row list \<Rightarrow> (string, pyval) dict \<times> string list" where
  "repair_rows config_key key_prefixes repaired [] = (repaired, [])"
| "repair_rows config_key key_prefixes repaired (row # rows) = (case repair_row config_key key_prefixes repaired row of
      None \<Rightarrow> repair_rows config_key key_prefixes repaired rows
    | Some d \<Rightarrow> (case repair_rows config_key key_prefixes d rows of (r, orphans) \<Rightarrow> (r, c_key row # orphans)))"

text \<open>
  One setting: what it contributes to the transaction. \<open>repaired\<close> starts as the dictionary object
  that the row of the setting has loaded, so assigning it back to the row writes no value.
\<close>

datatype repair = Touch string | Overwrite string pyval | Add string pyval

definition repair_setting :: "(char \<Rightarrow> char) \<Rightarrow> config_row list \<Rightarrow> string \<times> string list \<Rightarrow> repair list \<times> string list" where
  "repair_setting lc table setting = (case setting of (config_key, aliases) \<Rightarrow>
     let key_prefixes = config_key # aliases;
         rows = concat (map (\<lambda>p. under_prefix lc p table) key_prefixes);
         existing = get_row table config_key;
         repaired = (case existing of Some row \<Rightarrow> (case as_dict (c_value row) of Some d \<Rightarrow> d | None \<Rightarrow> []) | None \<Rightarrow> [])
     in (case repair_rows config_key key_prefixes repaired rows of (r, orphans) \<Rightarrow>
          if orphans = [] then ([], [])
          else ([case existing of
                   None \<Rightarrow> Add config_key (PDict r)
                 | Some row \<Rightarrow> if is_mapping (c_value row) then Touch config_key else Overwrite config_key (PDict r)], orphans)))"

definition apply_repair :: "int \<Rightarrow> repair \<Rightarrow> config_row list \<Rightarrow> config_row list" where
  "apply_repair now c rows = (case c of
      Touch k \<Rightarrow> update_key k (\<lambda>r. r\<lparr>c_updated_at := Some now\<rparr>) rows
    | Overwrite k v \<Rightarrow> update_key k (assign_value now v) rows
    | Add k v \<Rightarrow> rows @ [\<lparr>c_key = k, c_value = v, c_updated_at = Some now\<rparr>])"

text \<open>A list of model ids becomes the comma-separated text of its non-blank items.\<close>

definition model_list :: "(pyval \<Rightarrow> string) \<Rightarrow> pyval list \<Rightarrow> string" where
  "model_list py_str items = joined '','' (filter (\<lambda>m. m \<noteq> []) (map (\<lambda>v. py_strip (py_str v)) items))"

definition repair_models :: "(pyval \<Rightarrow> string) \<Rightarrow> int \<Rightarrow> string \<Rightarrow> config_row list \<Rightarrow> config_row list" where
  "repair_models py_str now key rows = (case get_row rows key of
      None \<Rightarrow> rows
    | Some row \<Rightarrow> (case as_list (c_value row) of
        None \<Rightarrow> rows
      | Some items \<Rightarrow> update_key key (assign_value now (PStr (model_list py_str items))) rows))"

definition repair_config_rows :: "(char \<Rightarrow> char) \<Rightarrow> (pyval \<Rightarrow> string) \<Rightarrow> int \<Rightarrow> config_state \<Rightarrow> config_state" where
  "repair_config_rows lc py_str now s =
     (if \<not> PERSISTENT_ENABLED s then s
      else let repairs = map (repair_setting lc (c_rows s)) DICT_CONFIG_KEY_ALIASES;
               orphan_keys = concat (map snd repairs);
               kept = filter (\<lambda>r. \<not> List.member orphan_keys (c_key r)) (c_rows s);
               repaired = fold (apply_repair now) (concat (map fst repairs)) kept
           in s\<lparr>c_rows := repair_models py_str now ''ui.default_pinned_models'' (repair_models py_str now ''ui.default_models'' repaired)\<rparr>)"

text \<open>\<open>seed_registered_defaults\<close> of \<open>config.py\<close>.\<close>

definition seed_registered_defaults ::
  "(char \<Rightarrow> char) \<Rightarrow> (pyval \<Rightarrow> string) \<Rightarrow> (pyval \<Rightarrow> pyval) \<Rightarrow> int \<Rightarrow> (string, pyval) dict \<Rightarrow> config_state \<Rightarrow> (config_error, config_state) result" where
  "seed_registered_defaults lc py_str enc now defaults s =
     rbind (rename_prefix lc now ''rag.web'' ''web'' s) (\<lambda>s1. Inr (seed_defaults enc now defaults (repair_config_rows lc py_str now s1)))"

subsection \<open>Rows and keys\<close>

lemma get_row_Nil [simp]: "get_row [] k = None"
  by (simp add: get_row_def)

lemma get_row_Cons [simp]: "get_row (r # rows) k = (if c_key r = k then Some r else get_row rows k)"
  by (simp add: get_row_def)

lemma get_row_append [simp]: "get_row (a @ b) k = (case get_row a k of Some r \<Rightarrow> Some r | None \<Rightarrow> get_row b k)"
  by (induction a) auto

lemma get_row_update_key [simp]:
  assumes "\<And>r. c_key (f r) = c_key r"
  shows "get_row (update_key key f rows) k = (if k = key then map_option f (get_row rows k) else get_row rows k)"
  unfolding update_key_def by (induction rows) (auto simp: assms)

lemma get_row_filter:
  "get_row (filter P rows) k = None" if "\<And>r. c_key r = k \<Longrightarrow> \<not> P r"
  using that by (induction rows) auto

lemma get_row_filter_other: "get_row (filter P rows) k = get_row rows k" if "\<And>r. c_key r = k \<Longrightarrow> P r"
  using that by (induction rows) auto

lemma get_row_None_iff: "get_row rows k = None \<longleftrightarrow> k \<notin> c_key ` set rows"
  by (induction rows) auto

lemma get_row_SomeD: "get_row rows k = Some r \<Longrightarrow> r \<in> set rows \<and> c_key r = k"
  by (induction rows) (auto split: if_splits)

lemma c_key_assign [simp]: "c_key (assign_value now v r) = c_key r"
  by (simp add: assign_value_def)

lemma c_value_assign: "c_value (assign_value now v r) = v \<or> py_eq v (c_value (assign_value now v r))"
  by (simp add: assign_value_def)

lemma keys_update_key [simp]: "(\<And>r. c_key (f r) = c_key r) \<Longrightarrow> map c_key (update_key key f rows) = map c_key rows"
  by (auto simp: update_key_def)

lemma get_row_put_row [simp]:
  "get_row (put_row now rows key v) k =
     (if k = key then Some (case get_row rows k of Some r \<Rightarrow> assign_value now v r | None \<Rightarrow> \<lparr>c_key = k, c_value = v, c_updated_at = Some now\<rparr>)
      else get_row rows k)"
  by (auto simp: put_row_def split: option.splits)

text \<open>The primary key of the table.\<close>

definition keys_unique :: "config_state \<Rightarrow> bool" where
  "keys_unique s \<longleftrightarrow> distinct (map c_key (c_rows s))"

lemma upsert_flags [simp]:
  "PERSISTENT_ENABLED (upsert enc now u s) = PERSISTENT_ENABLED s" "OAUTH_PERSISTENT_ENABLED (upsert enc now u s) = OAUTH_PERSISTENT_ENABLED s"
  by (induction enc now u s rule: upsert.induct) simp_all

lemma seed_flags [simp]:
  "PERSISTENT_ENABLED (seed_defaults enc now u s) = PERSISTENT_ENABLED s"
  "OAUTH_PERSISTENT_ENABLED (seed_defaults enc now u s) = OAUTH_PERSISTENT_ENABLED s"
  by (induction enc now u s rule: seed_defaults.induct) simp_all

lemma persistent_enabled_cong:
  "PERSISTENT_ENABLED s = PERSISTENT_ENABLED t \<Longrightarrow> OAUTH_PERSISTENT_ENABLED s = OAUTH_PERSISTENT_ENABLED t \<Longrightarrow>
   persistent_enabled_for s k = persistent_enabled_for t k"
  by (simp add: persistent_enabled_for_def)

subsection \<open>Reading what was written\<close>

text \<open>
  The contract of a settings store, as its clients use it: a value written is the value read, up to
  the equality \<open>same\<close> under which the store skips a write, and nothing else changes.
\<close>

locale settings_store =
  fixes get :: "'s \<Rightarrow> string \<Rightarrow> pyval \<Rightarrow> pyval"
    and put :: "string \<Rightarrow> pyval \<Rightarrow> 's \<Rightarrow> 's"
    and enc :: "pyval \<Rightarrow> pyval"
    and same :: "pyval \<Rightarrow> pyval \<Rightarrow> bool"
  assumes get_put: "get (put k v s) k d = enc v \<or> same (enc v) (get (put k v s) k d)"
    and get_put_other: "k' \<noteq> k \<Longrightarrow> get (put k v s) k' d = get s k' d"
begin

text \<open>What a client reads through a test that does not tell equal values apart.\<close>

lemma read_back: "(\<And>w. same (enc v) w \<Longrightarrow> f w = f (enc v)) \<Longrightarrow> f (get (put k v s) k d) = f (enc v)"
  using get_put [of k v s d] by auto

end

lemma config_get_upsert_one:
  "config_get (upsert enc now [(k, v)] s) k d = enc v \<or> py_eq (enc v) (config_get (upsert enc now [(k, v)] s) k d)"
proof (cases "get_row (c_rows s) k")
  case (Some r)
  then show ?thesis using c_value_assign [of now "enc v" r]
    by (auto simp: config_get_def persistent_enabled_for_def default_value_def)
qed (auto simp: config_get_def persistent_enabled_for_def default_value_def)

lemma config_get_upsert_other: "k' \<notin> fst ` set updates \<Longrightarrow> config_get (upsert enc now updates s) k' d = config_get s k' d"
proof (induction enc now updates s rule: upsert.induct)
  case (2 enc now key v updates s)
  let ?s = "if persistent_enabled_for s key then s\<lparr>c_rows := put_row now (c_rows s) key (enc v)\<rparr>
        else s\<lparr>DEFAULTS := AList.update key (enc v) (DEFAULTS s)\<rparr>"
  have "config_get ?s k' d = config_get s k' d"
    using 2(2) by (auto simp: config_get_def persistent_enabled_for_def default_value_def split: option.splits)
  then show ?case using 2 by auto
qed simp

interpretation config: settings_store config_get "\<lambda>k v. upsert enc now [(k, v)]" enc py_eq for enc now
  by unfold_locales (rule config_get_upsert_one, rule config_get_upsert_other, simp)

lemma upsert_append: "upsert enc now (a @ b) s = upsert enc now b (upsert enc now a s)"
  by (induction enc now a s rule: upsert.induct) simp_all

text \<open>C19: A setting that is written is the one read back, with the database in charge of it or
  not, and no other setting changes: after an upsert of any number of settings each of them reads
  as its encoded value, or as the stored value Python holds equal to it.\<close>

theorem config_upsert_get:
  assumes "dict_ok updates"
  shows "(\<forall>(k, v) \<in> set updates. config_get (upsert enc now updates s) k d = enc v \<or> py_eq (enc v) (config_get (upsert enc now updates s) k d)) \<and>
    (\<forall>k. k \<notin> fst ` set updates \<longrightarrow> config_get (upsert enc now updates s) k d = config_get s k d)"
proof -
  have "config_get (upsert enc now updates s) k d = enc v \<or> py_eq (enc v) (config_get (upsert enc now updates s) k d)"
    if kv: "(k, v) \<in> set updates" for k v
  proof -
    obtain a b where u: "updates = a @ (k, v) # b" using split_list [OF kv] by blast
    then have b: "k \<notin> fst ` set b" using assms by (auto simp: dict_ok_def)
    have "upsert enc now updates s = upsert enc now b (upsert enc now [(k, v)] (upsert enc now a s))"
      unfolding u by (simp only: upsert_append [symmetric]) simp
    then show ?thesis using config_get_upsert_other [OF b] config_get_upsert_one [of enc now k v "upsert enc now a s" d] by simp
  qed
  then show ?thesis using config_get_upsert_other by blast
qed

theorem config_upsert_get_witness:
  "config_get (upsert id 7 [(''a'', PBool True), (''b'', PInt 2)] \<lparr>DEFAULTS = [(''c'', PInt 9)], PERSISTENT_ENABLED = True,
      OAUTH_PERSISTENT_ENABLED = False, c_rows = [\<lparr>c_key = ''a'', c_value = PInt 1, c_updated_at = None\<rparr>]\<rparr>) ''c'' PNone = PInt 9"
  using config_upsert_get [of "[(''a'', PBool True), (''b'', PInt 2)]" id 7 "\<lparr>DEFAULTS = [(''c'', PInt 9)], PERSISTENT_ENABLED = True,
      OAUTH_PERSISTENT_ENABLED = False, c_rows = [\<lparr>c_key = ''a'', c_value = PInt 1, c_updated_at = None\<rparr>]\<rparr>" PNone]
  by (simp add: dict_ok_def) (simp add: config_get_def persistent_enabled_for_def default_value_def startswith_def)

subsection \<open>Many settings at once\<close>

lemma map_of_dict_over: "map_of (dict_over keys f) k = (if k \<in> set keys then Some (f k) else None)"
proof -
  have "map_of (fold (\<lambda>k d. AList.update k (f k) d) keys d) k = (if k \<in> set keys then Some (f k) else map_of d k)" for d
    by (induction keys arbitrary: d) auto
  then show ?thesis by (simp add: dict_over_def)
qed

lemma map_of_row_values: "map_of (row_values rows) k = map_option c_value (get_row rows k)"
  by (induction rows) (auto simp: row_values_def)

text \<open>Reading many settings is reading each of them: a key is in the answer if and only if the
  database, where it is in charge of the key, or the defaults have it, with the value a single read gives.\<close>

theorem get_many_is_get:
  "map_of (get_many s keys) k =
     (if k \<in> set keys \<and> (persistent_enabled_for s k \<and> get_row (c_rows s) k \<noteq> None \<or> has_key (DEFAULTS s) k)
      then Some (config_get s k PNone) else None)"
proof -
  let ?en = "filter (persistent_enabled_for s) keys"
  have row: "get_row (filter (\<lambda>r. List.member ?en (c_key r)) (c_rows s)) k =
      (if k \<in> set keys \<and> persistent_enabled_for s k then get_row (c_rows s) k else None)"
    by (cases "k \<in> set keys \<and> persistent_enabled_for s k") (auto intro: get_row_filter get_row_filter_other)
  show ?thesis
  proof (cases "?en = []")
    case True
    then show ?thesis by (auto simp: get_many_def map_of_dict_over config_get_def filter_empty_conv)
  next
    case False
    then show ?thesis using row
      by (auto simp: get_many_def Let_def map_of_dict_over has_key_def map_of_row_values config_get_def default_value_def split: option.splits)
  qed
qed

text \<open>With \<open>oauth.*\<close> not persistent, \<open>get_all\<close> still shows a stored row that has no default.\<close>

lemma map_of_dict_update: "map_of (dict_update d e) k = (case map_of (rev e) k of Some v \<Rightarrow> Some v | None \<Rightarrow> map_of d k)"
  unfolding dict_update_def by (induction e arbitrary: d) (auto simp: map_add_def split: option.splits)

lemma get_all_shows_disabled_row:
  assumes "PERSISTENT_ENABLED s" "\<not> OAUTH_PERSISTENT_ENABLED s" "startswith ''oauth.'' k" "get_row (c_rows s) k = Some r"
    and "k \<notin> fst ` set (DEFAULTS s)"
  shows "config_get s k d = d" "map_of (get_all s) k = Some (c_value r)"
proof -
  have "map_of (rev (filter (\<lambda>(k, v). startswith ''oauth.'' k) (DEFAULTS s))) k = None"
    using assms(5) by (force simp: map_of_eq_None_iff)
  then show "map_of (get_all s) k = Some (c_value r)"
    using assms(1,2,4) by (simp add: get_all_def map_of_dict_update map_of_row_values)
  have "map_of (DEFAULTS s) k = None" using assms(5) by (simp add: map_of_eq_None_iff)
  then show "config_get s k d = d" using assms(2,3) by (simp add: config_get_def persistent_enabled_for_def default_value_def)
qed

subsection \<open>Startup\<close>

lemma seed_defaults_row:
  "get_row (c_rows (seed_defaults enc now defaults s)) k =
     (case get_row (c_rows s) k of
        Some r \<Rightarrow> Some r
      | None \<Rightarrow> if persistent_enabled_for s k
                then map_option (\<lambda>v. \<lparr>c_key = k, c_value = enc v, c_updated_at = Some now\<rparr>) (map_of defaults k) else None)"
proof (induction enc now defaults s rule: seed_defaults.induct)
  case (2 enc now key v defaults s)
  let ?s = "if \<not> persistent_enabled_for s key then s
        else if get_row (c_rows s) key \<noteq> None then s
        else s\<lparr>c_rows := c_rows s @ [\<lparr>c_key = key, c_value = enc v, c_updated_at = Some now\<rparr>]\<rparr>"
  have e: "persistent_enabled_for ?s k = persistent_enabled_for s k" by (simp add: persistent_enabled_for_def)
  show ?case unfolding seed_defaults.simps(2) 2 e by (auto split: option.splits)
qed (simp split: option.splits)

text \<open>Starting the server never overrides what an administrator stored and leaves no registered
  setting without a value: a stored row stays as it is, and every default of a setting the database
  is in charge of is stored when it had no row.\<close>

theorem seed_keeps_stored:
  "(get_row (c_rows s) k = Some r \<longrightarrow> get_row (c_rows (seed_defaults enc now defaults s)) k = Some r) \<and>
   (get_row (c_rows s) k = None \<longrightarrow> persistent_enabled_for s k \<longrightarrow> map_of defaults k = Some v \<longrightarrow>
      config_get (seed_defaults enc now defaults s) k d = enc v)"
proof -
  have "persistent_enabled_for (seed_defaults enc now defaults s) k = persistent_enabled_for s k"
    by (rule persistent_enabled_cong) simp_all
  then show ?thesis by (simp add: seed_defaults_row config_get_def)
qed

theorem seed_keeps_stored_witness:
  "config_get (seed_defaults id 7 [(''a'', PInt 1), (''b'', PInt 2)] \<lparr>DEFAULTS = [], PERSISTENT_ENABLED = True, OAUTH_PERSISTENT_ENABLED = False,
      c_rows = [\<lparr>c_key = ''a'', c_value = PInt 5, c_updated_at = None\<rparr>]\<rparr>) ''b'' PNone = PInt 2"
  using seed_keeps_stored [of "\<lparr>DEFAULTS = [], PERSISTENT_ENABLED = True, OAUTH_PERSISTENT_ENABLED = False,
      c_rows = [\<lparr>c_key = ''a'', c_value = PInt 5, c_updated_at = None\<rparr>]\<rparr>" "''b''" _ id 7 "[(''a'', PInt 1), (''b'', PInt 2)]" "PInt 2" PNone]
  by (simp add: persistent_enabled_for_def startswith_def)

subsection \<open>The repair of flattened settings\<close>

lemma sql_like_percent: "sql_like lc ''%'' s"
  by (induction s) simp_all

lemma sql_like_skip: "sql_like lc ps s \<Longrightarrow> sql_like lc (CHR ''%'' # ps) s"
  by (cases s) simp_all

lemma sql_like_literal: "sql_like lc q s \<Longrightarrow> sql_like lc (p @ q) (p @ s)"
  by (induction p) (auto intro: sql_like_skip)

lemma under_prefix_literal: "r \<in> set rows \<Longrightarrow> c_key r = p @ ''.'' @ f \<Longrightarrow> r \<in> set (under_prefix lc p rows)"
  using sql_like_literal [OF sql_like_percent, of lc "p @ ''.''" f] by (simp add: under_prefix_def)

lemma row_fragment_iff: "row_fragment ps k \<noteq> None \<longleftrightarrow> (\<exists>p \<in> set ps. startswith (p @ ''.'') k)"
  by (auto simp: row_fragment_def find_None_iff)

lemma repair_row_literal: "repair_row K ps d row = Some e \<Longrightarrow> \<exists>p \<in> set ps. startswith (p @ ''.'') (c_key row)"
  using row_fragment_iff by (fastforce simp: repair_row_def split: option.splits)

lemma repair_rows_literal: "k \<in> set (snd (repair_rows K ps d rows)) \<Longrightarrow> \<exists>p \<in> set ps. startswith (p @ ''.'') k"
  by (induction K ps d rows rule: repair_rows.induct) (auto split: option.splits prod.splits dest: repair_row_literal)

lemma repair_rows_orphan:
  assumes "K \<notin> set API_CONFIG_KEYS" "row \<in> set rows" "row_fragment ps (c_key row) \<noteq> None"
  shows "c_key row \<in> set (snd (repair_rows K ps d rows))"
  using assms
proof (induction K ps d rows rule: repair_rows.induct)
  case (2 K ps d r rows)
  then show ?case
    by (cases "r = row") (auto simp: repair_row_def split: option.splits prod.splits)
qed simp

text \<open>No setting lies below another one or its alias.\<close>

lemma settings_flat:
  assumes "K \<in> fst ` set DICT_CONFIG_KEY_ALIASES" "(k, as) \<in> set DICT_CONFIG_KEY_ALIASES" "p \<in> set (k # as)"
  shows "\<not> startswith (p @ ''.'') K" "K \<noteq> ''ui.default_models'' \<and> K \<noteq> ''ui.default_pinned_models''"
proof -
  have "list_all (\<lambda>K. list_all (\<lambda>(k, as). list_all (\<lambda>p. \<not> prefix (p @ ''.'') K) (k # as)) DICT_CONFIG_KEY_ALIASES \<and>
      K \<noteq> ''ui.default_models'' \<and> K \<noteq> ''ui.default_pinned_models'') (map fst DICT_CONFIG_KEY_ALIASES)"
    by (simp add: DICT_CONFIG_KEY_ALIASES_def)
  with assms show "\<not> startswith (p @ ''.'') K" "K \<noteq> ''ui.default_models'' \<and> K \<noteq> ''ui.default_pinned_models''"
    by (fastforce simp: list_all_iff startswith_def)+
qed

lemma settings_distinct: "distinct (map fst DICT_CONFIG_KEY_ALIASES)"
  by (simp add: DICT_CONFIG_KEY_ALIASES_def)

primrec repair_key :: "repair \<Rightarrow> string" where
  "repair_key (Touch k) = k"
| "repair_key (Overwrite k v) = k"
| "repair_key (Add k v) = k"

lemma repair_setting_cases:
  "fst (repair_setting lc table (k, as)) = [] \<or>
   (case get_row table k of
      None \<Rightarrow> \<exists>v. fst (repair_setting lc table (k, as)) = [Add k v]
    | Some r \<Rightarrow> if is_mapping (c_value r) then fst (repair_setting lc table (k, as)) = [Touch k]
                else \<exists>v. fst (repair_setting lc table (k, as)) = [Overwrite k v])"
  by (auto simp: repair_setting_def Let_def split: option.splits prod.splits)

lemma repair_setting_key: "c \<in> set (fst (repair_setting lc table (k, as))) \<Longrightarrow> repair_key c = k"
  using repair_setting_cases [of lc table k as] by (auto split: option.splits if_splits)

lemma apply_repair_other:
  "repair_key c \<noteq> K \<Longrightarrow> get_row (apply_repair now c rows) K = get_row rows K"
  by (cases c) (auto simp: apply_repair_def split: option.splits)

lemma fold_repair_other:
  "\<forall>c \<in> set cs. repair_key c \<noteq> K \<Longrightarrow> get_row (fold (apply_repair now) cs rows) K = get_row rows K"
  by (induction cs arbitrary: rows) (simp_all add: apply_repair_other)

lemma fold_repair_touch:
  "\<forall>c \<in> set cs. c = Touch K \<or> repair_key c \<noteq> K \<Longrightarrow>
   map_option c_value (get_row (fold (apply_repair now) cs rows) K) = map_option c_value (get_row rows K)"
proof (induction cs arbitrary: rows)
  case (Cons c cs)
  have "map_option c_value (get_row (apply_repair now c rows) K) = map_option c_value (get_row rows K)"
  proof (cases "repair_key c = K")
    case True
    then have "c = Touch K" using Cons.prems by simp
    then show ?thesis by (simp add: apply_repair_def option.map_comp comp_def)
  qed (simp add: apply_repair_other)
  then show ?case using Cons by simp
qed simp

lemma repair_models_other: "k \<noteq> K \<Longrightarrow> get_row (repair_models py_str now k rows) K = get_row rows K"
  by (auto simp: repair_models_def split: option.splits)

lemma repair_models_None: "get_row rows K = None \<Longrightarrow> get_row (repair_models py_str now k rows) K = None"
  by (auto simp: repair_models_def split: option.splits)

definition repair_orphans :: "(char \<Rightarrow> char) \<Rightarrow> config_row list \<Rightarrow> string list" where
  "repair_orphans lc table = concat (map snd (map (repair_setting lc table) DICT_CONFIG_KEY_ALIASES))"

definition repair_changes :: "(char \<Rightarrow> char) \<Rightarrow> config_row list \<Rightarrow> repair list" where
  "repair_changes lc table = concat (map fst (map (repair_setting lc table) DICT_CONFIG_KEY_ALIASES))"

lemma repair_config_rows_alt:
  "PERSISTENT_ENABLED s \<Longrightarrow> c_rows (repair_config_rows lc py_str now s) =
     repair_models py_str now ''ui.default_pinned_models'' (repair_models py_str now ''ui.default_models''
       (fold (apply_repair now) (repair_changes lc (c_rows s)) (filter (\<lambda>r. c_key r \<notin> set (repair_orphans lc (c_rows s))) (c_rows s))))"
  by (simp add: repair_config_rows_def Let_def repair_orphans_def repair_changes_def)

lemma repair_orphans_literal:
  assumes "k \<in> set (repair_orphans lc table)"
  shows "\<exists>(K, as) \<in> set DICT_CONFIG_KEY_ALIASES. \<exists>p \<in> set (K # as). startswith (p @ ''.'') k"
proof -
  from assms obtain K as where m: "(K, as) \<in> set DICT_CONFIG_KEY_ALIASES" and k: "k \<in> set (snd (repair_setting lc table (K, as)))"
    by (auto simp: repair_orphans_def)
  from k have "\<exists>d rows. k \<in> set (snd (repair_rows K (K # as) d rows))"
    by (auto simp: repair_setting_def Let_def split: prod.splits if_splits) (metis snd_conv)+
  with m show ?thesis using repair_rows_literal by fastforce
qed

lemma repair_changes_key: "c \<in> set (repair_changes lc table) \<Longrightarrow> repair_key c \<in> fst ` set DICT_CONFIG_KEY_ALIASES"
  by (force simp: repair_changes_def dest: repair_setting_key)

lemma repair_changes_touch:
  assumes "get_row table K = Some r" "is_mapping (c_value r)" "c \<in> set (repair_changes lc table)"
  shows "c = Touch K \<or> repair_key c \<noteq> K"
proof -
  from assms(3) obtain k as where c: "c \<in> set (fst (repair_setting lc table (k, as)))" by (auto simp: repair_changes_def)
  then have k: "repair_key c = k" by (rule repair_setting_key)
  then show ?thesis using repair_setting_cases [of lc table k as] assms(1,2) c by auto
qed

text \<open>The repair of a setting that already has a dictionary loses the fields it set out to restore:
  the rows that hold the fields are deleted, while the dictionary of the setting stays as it was, since the merged
  dictionary is the loaded object itself and assigning it back is no change for the session.\<close>

theorem repair_loses_fields:
  assumes "PERSISTENT_ENABLED s" and "K \<in> fst ` set DICT_CONFIG_KEY_ALIASES" and "K \<notin> set API_CONFIG_KEYS"
    and "get_row (c_rows s) K = Some r" and "is_mapping (c_value r)" and "get_row (c_rows s) (K @ ''.'' @ f) = Some r'"
  shows "map_option c_value (get_row (c_rows (repair_config_rows lc py_str now s)) K) = Some (c_value r) \<and>
    get_row (c_rows (repair_config_rows lc py_str now s)) (K @ ''.'' @ f) = None"
proof -
  let ?t = "c_rows s" and ?F = "K @ ''.'' @ f"
  from assms(2) obtain as where m: "(K, as) \<in> set DICT_CONFIG_KEY_ALIASES" by force
  have flat: "\<not> startswith (p @ ''.'') k" if "k \<in> fst ` set DICT_CONFIG_KEY_ALIASES" "(k', as') \<in> set DICT_CONFIG_KEY_ALIASES" "p \<in> set (k' # as')"
    for k k' as' p using settings_flat(1) [OF that] .
  have K: "K \<notin> set (repair_orphans lc ?t)" using repair_orphans_literal [of K lc ?t] flat [OF assms(2)] by fastforce
  have "r' \<in> set (under_prefix lc K ?t)" "c_key r' = ?F"
    using get_row_SomeD [OF assms(6)] under_prefix_literal by auto
  moreover have "row_fragment (K # as) ?F \<noteq> None" unfolding row_fragment_iff by (simp add: startswith_def)
  ultimately have orphan: "?F \<in> set (snd (repair_rows K (K # as) d (concat (map (\<lambda>p. under_prefix lc p ?t) (K # as)))))" for d
    using repair_rows_orphan [OF assms(3), of r'] by fastforce
  have "?F \<in> set (snd (repair_setting lc ?t (K, as)))"
    using orphan [of "case as_dict (c_value r) of Some d \<Rightarrow> d | None \<Rightarrow> []"] assms(4)
    by (auto simp: repair_setting_def Let_def split: prod.splits)
  then have F: "?F \<in> set (repair_orphans lc ?t)" using m by (force simp: repair_orphans_def)
  have notF: "\<forall>c \<in> set (repair_changes lc ?t). repair_key c \<noteq> ?F"
    using repair_changes_key flat [OF _ m, of _ K] by (fastforce simp: startswith_def)
  have ui: "''ui.default_models'' \<noteq> K" "''ui.default_pinned_models'' \<noteq> K" using settings_flat(2) [OF assms(2) m] by auto
  let ?kept = "filter (\<lambda>r. c_key r \<notin> set (repair_orphans lc ?t)) ?t"
  have "get_row ?kept K = Some r" using K assms(4) by (subst get_row_filter_other) auto
  then have "map_option c_value (get_row (fold (apply_repair now) (repair_changes lc ?t) ?kept) K) = Some (c_value r)"
    using fold_repair_touch [of "repair_changes lc ?t" K now ?kept] repair_changes_touch [OF assms(4,5)] by simp
  moreover have "get_row (fold (apply_repair now) (repair_changes lc ?t) ?kept) ?F = None"
    using fold_repair_other [OF notF] F by (simp add: get_row_filter)
  ultimately show ?thesis
    unfolding repair_config_rows_alt [OF assms(1)] using ui by (simp add: repair_models_other repair_models_None)
qed

theorem repair_loses_fields_witness:
  "get_row (c_rows (repair_config_rows id str_of 7 \<lparr>DEFAULTS = [], PERSISTENT_ENABLED = True, OAUTH_PERSISTENT_ENABLED = False,
      c_rows = [\<lparr>c_key = ''task.model.params'', c_value = PDict [], c_updated_at = None\<rparr>,
                \<lparr>c_key = ''task.model.params.seed'', c_value = PInt 3, c_updated_at = None\<rparr>]\<rparr>)) ''task.model.params.seed'' = None"
  using repair_loses_fields [of "\<lparr>DEFAULTS = [], PERSISTENT_ENABLED = True, OAUTH_PERSISTENT_ENABLED = False,
      c_rows = [\<lparr>c_key = ''task.model.params'', c_value = PDict [], c_updated_at = None\<rparr>,
                \<lparr>c_key = ''task.model.params.seed'', c_value = PInt 3, c_updated_at = None\<rparr>]\<rparr>" "''task.model.params''" _ "''seed''" _ id str_of 7]
  by (simp add: DICT_CONFIG_KEY_ALIASES_def API_CONFIG_KEYS_def)

subsection \<open>One row per key\<close>

definition add_keys :: "repair list \<Rightarrow> string list" where
  "add_keys cs = concat (map (\<lambda>c. case c of Add k v \<Rightarrow> [k] | _ \<Rightarrow> []) cs)"

lemma keys_apply_repair: "map c_key (apply_repair now c rows) = map c_key rows @ add_keys [c]"
  by (cases c) (simp_all add: apply_repair_def add_keys_def)

lemma keys_fold_repair: "map c_key (fold (apply_repair now) cs rows) = map c_key rows @ add_keys cs"
  by (induction cs arbitrary: rows) (simp_all add: keys_apply_repair, simp_all add: add_keys_def)

lemma add_keys_setting: "add_keys (fst (repair_setting lc table (k, as))) = [] \<or>
    add_keys (fst (repair_setting lc table (k, as))) = [k] \<and> get_row table k = None"
  using repair_setting_cases [of lc table k as] by (auto simp: add_keys_def split: option.splits if_splits)

lemma add_keys_settings:
  "distinct (map fst settings) \<Longrightarrow> distinct (add_keys (concat (map fst (map (repair_setting lc table) settings)))) \<and>
     set (add_keys (concat (map fst (map (repair_setting lc table) settings)))) \<subseteq> {k \<in> fst ` set settings. get_row table k = None}"
proof (induction settings)
  case (Cons st settings)
  obtain k as where st: "st = (k, as)" by force
  let ?rest = "add_keys (concat (map fst (map (repair_setting lc table) settings)))"
  have "add_keys (concat (map fst (map (repair_setting lc table) (st # settings)))) = add_keys (fst (repair_setting lc table (k, as))) @ ?rest"
    by (simp add: st add_keys_def)
  then show ?case using Cons add_keys_setting [of lc table k as] st by auto
qed (simp add: add_keys_def)

lemma keys_repair_models [simp]: "map c_key (repair_models py_str now key rows) = map c_key rows"
  by (auto simp: repair_models_def split: option.splits)

lemma unique_repair: "keys_unique s \<Longrightarrow> keys_unique (repair_config_rows lc py_str now s)"
proof (cases "PERSISTENT_ENABLED s")
  case True
  assume u: "keys_unique s"
  let ?kept = "filter (\<lambda>r. c_key r \<notin> set (repair_orphans lc (c_rows s))) (c_rows s)"
  have "distinct (map c_key ?kept)" using u by (simp add: keys_unique_def distinct_map_filter)
  moreover have "distinct (add_keys (repair_changes lc (c_rows s)))"
    "set (add_keys (repair_changes lc (c_rows s))) \<subseteq> {k. get_row (c_rows s) k = None}"
    using add_keys_settings [OF settings_distinct, of lc "c_rows s"] by (auto simp: repair_changes_def)
  ultimately show ?thesis
    unfolding keys_unique_def repair_config_rows_alt [OF True] keys_repair_models keys_fold_repair by (auto simp: get_row_None_iff)
qed (simp add: repair_config_rows_def)

lemma unique_put_row: "distinct (map c_key rows) \<Longrightarrow> distinct (map c_key (put_row now rows key v))"
  by (auto simp: put_row_def get_row_None_iff split: option.splits)

lemma unique_upsert: "keys_unique s \<Longrightarrow> keys_unique (upsert enc now updates s)"
  by (induction enc now updates s rule: upsert.induct) (auto simp: keys_unique_def unique_put_row)

lemma unique_seed: "keys_unique s \<Longrightarrow> keys_unique (seed_defaults enc now defaults s)"
  by (induction enc now defaults s rule: seed_defaults.induct) (auto simp: keys_unique_def get_row_None_iff)

lemma unique_rename: "rename_prefix lc now old new s = Inr s' \<Longrightarrow> keys_unique s \<Longrightarrow> keys_unique s'"
  by (auto simp: rename_prefix_def keys_unique_def Let_def distinct_map_filter get_row_None_iff split: if_splits) (metis imageI)

text \<open>The table changes by the methods only.\<close>

inductive config_step :: "(char \<Rightarrow> char) \<Rightarrow> (pyval \<Rightarrow> string) \<Rightarrow> (pyval \<Rightarrow> pyval) \<Rightarrow> config_state \<Rightarrow> config_state \<Rightarrow> bool"
  for lc py_str enc where
  "config_step lc py_str enc s (upsert enc now updates s)"
| "config_step lc py_str enc s (snd (config_delete key s))"
| "config_step lc py_str enc s (config_clear s)"
| "config_step lc py_str enc s (seed_defaults enc now defaults s)"
| "rename_prefix lc now old new s = Inr s' \<Longrightarrow> config_step lc py_str enc s s'"
| "config_step lc py_str enc s (repair_config_rows lc py_str now s)"
| "config_step lc py_str enc s (configure defaults p o' s)"

text \<open>However the methods of the configuration follow each other, every setting has at most one row.\<close>

theorem config_keys_unique:
  assumes "(config_step lc py_str enc)\<^sup>*\<^sup>* s s'" "keys_unique s"
  shows "keys_unique s'"
  using assms
proof (induction rule: rtranclp_induct)
  case (step s1 s2)
  from step.hyps(2) show ?case using step.IH [OF step.prems]
    by cases (auto simp: unique_upsert unique_seed unique_repair unique_rename, auto simp: keys_unique_def config_delete_def config_clear_def
        configure_def distinct_map_filter split: option.splits)
qed simp

theorem config_keys_unique_witness:
  "keys_unique (upsert id 7 [(''a'', PInt 1), (''a'', PInt 2)] \<lparr>DEFAULTS = [], PERSISTENT_ENABLED = True, OAUTH_PERSISTENT_ENABLED = False, c_rows = []\<rparr>)"
proof -
  let ?s = "\<lparr>DEFAULTS = [], PERSISTENT_ENABLED = True, OAUTH_PERSISTENT_ENABLED = False, c_rows = []\<rparr>"
  have "(config_step id str_of id)\<^sup>*\<^sup>* ?s (upsert id 7 [(''a'', PInt 1), (''a'', PInt 2)] ?s)"
    by (rule r_into_rtranclp) (rule config_step.intros(1))
  from config_keys_unique [OF this] show ?thesis by (simp add: keys_unique_def)
qed

end
