(* ===== verification/Browser_Crypto.thy ===== *)
theory Browser_Crypto
  imports Py_Json Config_Store
begin

section \<open>Browser extension cryptography and redaction (utils/browser\_extension\_crypto.py)\<close>

text \<open>
  Key derivation and token hashing over parameters for HKDF and HMAC (\<open>hkdf secret info\<close>,
  \<open>hmac_hex key message\<close>), the unpadded URL-safe Base64 of \<open>_encode\<close> and \<open>_decode\<close> down to the
  bits, the encryption of workflow definitions (over parameters for AES-GCM and the random
  nonce), and the redaction of secrets from nested values and from text. Byte strings are
  lists of characters.
\<close>

definition REDACTED :: string where
  "REDACTED = ''[REDACTED]''"

definition WORKFLOW_INFO :: string where
  "WORKFLOW_INFO = ''tide-bot/browser-extension/workflow-encryption/v1''"

definition TOKEN_INFO :: string where
  "TOKEN_INFO = ''tide-bot/browser-extension/token-hashing/v1''"

definition ACCESS_SIGNING_INFO :: string where
  "ACCESS_SIGNING_INFO = ''tide-bot/browser-extension/access-signing/v1''"

definition REFRESH_SIGNING_INFO :: string where
  "REFRESH_SIGNING_INFO = ''tide-bot/browser-extension/refresh-signing/v1''"

definition SENSITIVE_KEYS :: "string list" where
  "SENSITIVE_KEYS = [''access_token'', ''api_key'', ''apikey'', ''authorization'', ''bearer'', ''card_number'',
     ''client_secret'', ''cookie'', ''credit_card'', ''credit_card_number'', ''cvc'', ''cvv'', ''device_code'',
     ''id_token'', ''passcode'', ''passphrase'', ''password'', ''passwd'', ''proxy_authorization'',
     ''refresh_token'', ''secret'', ''set_cookie'', ''token'', ''verifier'', ''x_api_key'']"

record browser_keys =
  workflow_encryption :: string
  token_hashing :: string
  access_signing :: string
  refresh_signing :: string

datatype crypto_error = CryptoValueError string | Base64Error | NotSerializable | InvalidTag | DecodeError

definition derive_key :: "(string \<Rightarrow> string \<Rightarrow> string) \<Rightarrow> string \<Rightarrow> string \<Rightarrow> (crypto_error, string) result" where
  "derive_key hkdf secret_key info =
     (if secret_key = [] then Inl (CryptoValueError ''WEBUI_SECRET_KEY is required for browser extension cryptography'')
      else Inr (hkdf secret_key info))"

definition derive_browser_extension_keys ::
  "(string \<Rightarrow> string \<Rightarrow> string) \<Rightarrow> string option \<Rightarrow> (crypto_error, browser_keys) result" where
  "derive_browser_extension_keys hkdf secret_key = (case secret_key of
      None \<Rightarrow> Inl (CryptoValueError ''WEBUI_SECRET_KEY is required for browser extension cryptography'')
    | Some k \<Rightarrow>
        if k = [] then Inl (CryptoValueError ''WEBUI_SECRET_KEY is required for browser extension cryptography'')
        else rbind (derive_key hkdf k WORKFLOW_INFO) (\<lambda>w.
             rbind (derive_key hkdf k TOKEN_INFO) (\<lambda>t.
             rbind (derive_key hkdf k ACCESS_SIGNING_INFO) (\<lambda>a.
             rbind (derive_key hkdf k REFRESH_SIGNING_INFO) (\<lambda>r.
             Inr \<lparr>workflow_encryption = w, token_hashing = t, access_signing = a, refresh_signing = r\<rparr>)))))"

definition hash_browser_token ::
  "(string \<Rightarrow> string \<Rightarrow> string) \<Rightarrow> (string \<Rightarrow> string \<Rightarrow> string) \<Rightarrow> string \<Rightarrow> string \<Rightarrow> (crypto_error, string) result" where
  "hash_browser_token hkdf hmac_hex token secret_key =
     (if token = [] then Inl (CryptoValueError ''Browser extension token must not be empty'')
      else rbind (derive_browser_extension_keys hkdf (Some secret_key)) (\<lambda>ks. Inr (hmac_hex (token_hashing ks) token)))"

subsection \<open>Base64\<close>

text \<open>The URL-safe alphabet, and its inverse.\<close>

definition b64_char :: "nat \<Rightarrow> char" where
  "b64_char v = (if v < 26 then char_of (65 + v) else if v < 52 then char_of (71 + v) else if v < 62 then char_of (v - 4)
     else if v = 62 then CHR ''-'' else CHR ''_'')"

text \<open>
  \<open>urlsafe_b64decode\<close> maps \<open>-\<close> and \<open>_\<close> to \<open>+\<close> and \<open>/\<close> and decodes with \<open>binascii\<close>, which skips
  characters outside the standard alphabet.
\<close>

definition b64_value :: "char \<Rightarrow> nat option" where
  "b64_value c = (let v = code c in
     if 65 \<le> v \<and> v \<le> 90 then Some (v - 65) else if 97 \<le> v \<and> v \<le> 122 then Some (v - 71)
     else if 48 \<le> v \<and> v \<le> 57 then Some (v + 4) else if v = 45 \<or> v = 43 then Some 62 else if v = 95 \<or> v = 47 then Some 63 else None)"

fun b64_encode_bytes :: "string \<Rightarrow> string" where
  "b64_encode_bytes [] = []"
| "b64_encode_bytes [a] = [b64_char (code a div 4), b64_char (code a mod 4 * 16), CHR ''='', CHR ''='']"
| "b64_encode_bytes [a, b] =
     [b64_char (code a div 4), b64_char (code a mod 4 * 16 + code b div 16), b64_char (code b mod 16 * 4), CHR ''='']"
| "b64_encode_bytes (a # b # c # rest) =
     b64_char (code a div 4) # b64_char (code a mod 4 * 16 + code b div 16) #
     b64_char (code b mod 16 * 4 + code c div 64) # b64_char (code c mod 64) # b64_encode_bytes rest"

text \<open>
  \<open>binascii.a2b_base64\<close>: the position in the quad, the bits left over, the pads seen in a row,
  and in strict mode whether padding has started.
\<close>

fun b64_decode_run :: "bool \<Rightarrow> bool \<Rightarrow> nat \<Rightarrow> nat \<Rightarrow> nat \<Rightarrow> string \<Rightarrow> (crypto_error, string) result" where
  "b64_decode_run strict started quad left pads [] = (if quad = 0 then Inr [] else Inl Base64Error)"
| "b64_decode_run strict started quad left pads (x # xs) =
     (if x = CHR ''='' then
        (if 2 \<le> quad then
           (if 4 \<le> quad + (pads + 1) then (if strict \<and> xs \<noteq> [] then Inl Base64Error else Inr [])
            else b64_decode_run strict True quad left (pads + 1) xs)
         else if strict then Inl Base64Error else b64_decode_run strict True quad left pads xs)
      else case b64_value x of
        None \<Rightarrow> if strict then Inl Base64Error else b64_decode_run strict started quad left pads xs
      | Some v \<Rightarrow>
          if strict \<and> started then Inl Base64Error
          else if quad = 0 then b64_decode_run strict started 1 v 0 xs
          else if quad = 1 then rbind (b64_decode_run strict started 2 (v mod 16) 0 xs) (\<lambda>out. Inr (char_of (left * 4 + v div 16) # out))
          else if quad = 2 then rbind (b64_decode_run strict started 3 (v mod 4) 0 xs) (\<lambda>out. Inr (char_of (left * 16 + v div 4) # out))
          else rbind (b64_decode_run strict started 0 0 0 xs) (\<lambda>out. Inr (char_of (left * 64 + v) # out)))"

definition b64_pad :: "string \<Rightarrow> string" where
  "b64_pad value = value @ replicate (nat ((- int (length value)) mod 4)) (CHR ''='')"

definition b64_encode :: "string \<Rightarrow> string" where
  "b64_encode value = rstrip_by ((=) (CHR ''='')) (b64_encode_bytes value)"

definition b64_decode :: "string \<Rightarrow> (crypto_error, string) result" where
  "b64_decode value = b64_decode_run False False 0 0 0 (b64_pad value)"

definition workflow_aad :: "string \<Rightarrow> string \<Rightarrow> int \<Rightarrow> string" where
  "workflow_aad user_id workflow_id version = user_id @ '':'' @ workflow_id @ '':'' @ int_str version"

subsection \<open>Workflow definitions\<close>

text \<open>UTF-8 of code points below 256; \<open>None\<close> is \<open>UnicodeDecodeError\<close>, or text outside the model.\<close>

definition utf8_encode :: "string \<Rightarrow> string" where
  "utf8_encode s = concat (map (\<lambda>c. if code c < 128 then [c] else [char_of (192 + code c div 64), char_of (128 + code c mod 64)]) s)"

fun utf8_decode :: "string \<Rightarrow> string option" where
  "utf8_decode [] = Some []"
| "utf8_decode (c # cs) =
     (if code c < 128 then map_option ((#) c) (utf8_decode cs)
      else case cs of
        [] \<Rightarrow> None
      | e # r \<Rightarrow> if (code c = 194 \<or> code c = 195) \<and> 128 \<le> code e \<and> code e < 192
                 then map_option ((#) (char_of ((code c - 192) * 64 + (code e - 128)))) (utf8_decode r) else None)"

text \<open>The options of \<open>encrypt_workflow_definition\<close>.\<close>

definition workflow_json :: json_opts where
  "workflow_json = \<lparr>ensure_ascii = False, item_space = [], key_space = [], sort_keys = True, float_repr = \<lambda>_. ''0.0''\<rparr>"

record encrypted_workflow =
  ew_ciphertext :: string
  ew_nonce :: string

type_synonym aead = "string \<Rightarrow> string \<Rightarrow> string \<Rightarrow> string \<Rightarrow> string"

definition encrypt_workflow_definition ::
  "(string \<Rightarrow> string \<Rightarrow> string) \<Rightarrow> aead \<Rightarrow> json_opts \<Rightarrow> string \<Rightarrow> pyval \<Rightarrow> string \<Rightarrow> string \<Rightarrow> string \<Rightarrow> int \<Rightarrow>
   (crypto_error, encrypted_workflow) result" where
  "encrypt_workflow_definition hkdf aes_encrypt opts nonce wdef secret_key user_id workflow_id version =
     (case json_dumps opts wdef of
        None \<Rightarrow> Inl NotSerializable
      | Some plaintext \<Rightarrow>
          rbind (derive_browser_extension_keys hkdf (Some secret_key)) (\<lambda>ks.
            Inr \<lparr>ew_ciphertext = b64_encode (aes_encrypt (workflow_encryption ks) nonce (utf8_encode plaintext)
                   (utf8_encode (workflow_aad user_id workflow_id version))),
                 ew_nonce = b64_encode nonce\<rparr>))"

text \<open>\<open>json.loads\<close> of bytes; text that starts with an ASCII character is read as UTF-8.\<close>

definition json_loads_bytes :: "string \<Rightarrow> pyval option" where
  "json_loads_bytes b = (case utf8_decode b of None \<Rightarrow> None | Some t \<Rightarrow> json_loads t)"

definition decrypt_workflow_definition ::
  "(string \<Rightarrow> string \<Rightarrow> string) \<Rightarrow> (string \<Rightarrow> string \<Rightarrow> string \<Rightarrow> string \<Rightarrow> string option) \<Rightarrow> string \<Rightarrow> string \<Rightarrow> string \<Rightarrow> string \<Rightarrow>
   string \<Rightarrow> int \<Rightarrow> (crypto_error, (string \<times> pyval) list) result" where
  "decrypt_workflow_definition hkdf aes_decrypt ciphertext nonce secret_key user_id workflow_id version =
     rbind (derive_browser_extension_keys hkdf (Some secret_key)) (\<lambda>ks.
     rbind (b64_decode nonce) (\<lambda>n.
     rbind (b64_decode ciphertext) (\<lambda>c.
     case aes_decrypt (workflow_encryption ks) n c (utf8_encode (workflow_aad user_id workflow_id version)) of
       None \<Rightarrow> Inl InvalidTag
     | Some plaintext \<Rightarrow> (case json_loads_bytes plaintext of
         None \<Rightarrow> Inl DecodeError
       | Some v \<Rightarrow> (case as_dict v of
           None \<Rightarrow> Inl (CryptoValueError ''Workflow definition must be a JSON object'')
         | Some d \<Rightarrow> Inr d)))))"

subsection \<open>Redaction\<close>

definition is_lower_alnum :: "char \<Rightarrow> bool" where
  "is_lower_alnum c \<longleftrightarrow> 97 \<le> code c \<and> code c \<le> 122 \<or> is_digit c"

definition normalize_key :: "string \<Rightarrow> string" where
  "normalize_key key =
     strip_by ((=) (CHR ''_'')) (rx_sub (plus (Cls (\<lambda>c. \<not> is_lower_alnum c))) (\<lambda>_. ''_'') (py_lower (py_strip key)))"

definition bearer_char :: "char \<Rightarrow> bool" where
  "bearer_char c \<longleftrightarrow> is_ascii_alpha c \<or> is_digit c \<or> c \<in> set ''._~+/=-''"

definition BEARER_PATTERN :: regex where
  "BEARER_PATTERN = seqs [WordB, ilit ''bearer'', plus (Cls is_space), plus (Cls bearer_char)]"

definition COOKIE_PATTERN :: regex where
  "COOKIE_PATTERN = seqs [WordB, alts [ilit ''cookie'', ilit ''set-cookie''], RxStar (Cls is_space), Cls ((=) (CHR '':'')),
     RxStar (Cls is_space), plus (Cls (\<lambda>c. code c \<noteq> 13 \<and> code c \<noteq> 10))]"

definition dash_opt :: regex where
  "dash_opt = RxOpt (Cls (\<lambda>c. c = CHR ''_'' \<or> c = CHR ''-''))"

definition ASSIGNMENT_PATTERN :: regex where
  "ASSIGNMENT_PATTERN = seqs [WordB, RxGroup (alts [ilit ''password'', ilit ''passwd'', ilit ''passcode'',
       seqs [ilit ''api'', dash_opt, ilit ''key''], seqs [ilit ''access'', dash_opt, ilit ''token''],
       seqs [ilit ''refresh'', dash_opt, ilit ''token''], ilit ''token'',
       seqs [ilit ''client'', dash_opt, ilit ''secret''], ilit ''secret'', ilit ''verifier'',
       seqs [ilit ''device'', dash_opt, ilit ''code'']]),
     RxStar (Cls is_space), Cls (\<lambda>c. c = CHR '':'' \<or> c = CHR ''=''), RxStar (Cls is_space),
     alts [seqs [Cls (\<lambda>c. code c = 34), RxStar (Cls (\<lambda>c. code c \<noteq> 34)), Cls (\<lambda>c. code c = 34)],
           seqs [Cls (\<lambda>c. code c = 39), RxStar (Cls (\<lambda>c. code c \<noteq> 39)), Cls (\<lambda>c. code c = 39)],
           plus (Cls (\<lambda>c. \<not> is_space c \<and> c \<noteq> CHR '','' \<and> c \<noteq> CHR '';''))]]"

definition CARD_PATTERN :: regex where
  "CARD_PATTERN = seqs [NotBehind is_digit, times 12 6 (RxSeq (Cls is_digit) (RxOpt (Cls (\<lambda>c. c = CHR '' '' \<or> c = CHR ''-'')))),
     Cls is_digit, NotAhead is_digit]"

definition group1 :: "string \<Rightarrow> rx_state \<Rightarrow> string" where
  "group1 s st = (case snd st of None \<Rightarrow> [] | Some (i, j) \<Rightarrow> slice s i j)"

definition redact_string :: "string \<Rightarrow> string" where
  "redact_string value =
     (let v1 = rx_sub BEARER_PATTERN (\<lambda>_. ''Bearer '' @ REDACTED) value;
          v2 = rx_sub COOKIE_PATTERN (\<lambda>_. ''Cookie: '' @ REDACTED) v1;
          v3 = rx_sub ASSIGNMENT_PATTERN (\<lambda>m. group1 v2 m @ ''='' @ REDACTED) v2
      in rx_sub CARD_PATTERN (\<lambda>_. REDACTED) v3)"

definition is_sensitive :: "string \<Rightarrow> bool" where
  "is_sensitive key = List.member SENSITIVE_KEYS (normalize_key key)"

fun redact_sensitive_data :: "pyval \<Rightarrow> pyval" where
  "redact_sensitive_data (PDict d) =
     PDict (map (\<lambda>(key, item). (key, if is_sensitive key then PStr REDACTED else redact_sensitive_data item)) d)"
| "redact_sensitive_data (PList l) = PList (map redact_sensitive_data l)"
| "redact_sensitive_data (PTuple l) = PTuple (map redact_sensitive_data l)"
| "redact_sensitive_data (PStr s) = PStr (redact_string s)"
| "redact_sensitive_data v = v"

subsection \<open>Base64 round trip\<close>

lemma b64_value_char: "v < 64 \<Longrightarrow> b64_value (b64_char v) = Some v \<and> b64_char v \<noteq> CHR ''=''"
proof -
  assume "v < 64"
  then have "b64_value (b64_char v) = Some v" by (auto simp: b64_value_def b64_char_def Let_def)
  moreover have "b64_value (CHR ''='') = None" by (simp add: b64_value_def)
  ultimately show ?thesis by auto
qed

lemma b64_char_ne: "v < 64 \<Longrightarrow> CHR ''='' \<noteq> b64_char v"
  using b64_value_char [of v] by auto

lemma b64_step:
  assumes "v < 64"
  shows "b64_decode_run strict False 0 l p (b64_char v # xs) = b64_decode_run strict False 1 v 0 xs"
    "b64_decode_run strict False (Suc 0) l p (b64_char v # xs) =
       rbind (b64_decode_run strict False 2 (v mod 16) 0 xs) (\<lambda>out. Inr (char_of (l * 4 + v div 16) # out))"
    "b64_decode_run strict False 2 l p (b64_char v # xs) =
       rbind (b64_decode_run strict False 3 (v mod 4) 0 xs) (\<lambda>out. Inr (char_of (l * 16 + v div 4) # out))"
    "b64_decode_run strict False 3 l p (b64_char v # xs) =
       rbind (b64_decode_run strict False 0 0 0 xs) (\<lambda>out. Inr (char_of (l * 64 + v) # out))"
  using b64_value_char [OF assms] by simp_all

lemma b64_sextets:
  fixes a b c :: nat
  assumes "a < 256" "b < 256" "c < 256"
  shows "a div 4 < 64" "a mod 4 * 16 < 64" "a mod 4 * 16 + b div 16 < 64" "b mod 16 * 4 < 64" "b mod 16 * 4 + c div 64 < 64"
    "c mod 64 < 64" "a div 4 * 4 + (a mod 4 * 16 + b div 16) div 16 = a" "a div 4 * 4 + (a mod 4 * 16) div 16 = a"
    "(a mod 4 * 16 + b div 16) mod 16 * 16 + (b mod 16 * 4 + c div 64) div 4 = b"
    "(a mod 4 * 16 + b div 16) mod 16 * 16 + (b mod 16 * 4) div 4 = b"
    "(b mod 16 * 4 + c div 64) mod 4 * 64 + c mod 64 = c"
  using assms by (auto simp: div_less_iff_less_mult; presburger)+

lemma b64_decode_encode_bytes: "b64_decode_run strict False 0 0 0 (b64_encode_bytes bs) = Inr bs"
proof (induction bs rule: b64_encode_bytes.induct)
  case (2 a)
  show ?case using b64_sextets [of "code a" 0 0] by (simp add: b64_step del: b64_decode_run.simps(2)) simp
next
  case (3 a b)
  show ?case using b64_sextets [of "code a" "code b" 0] by (simp add: b64_step del: b64_decode_run.simps(2)) simp
next
  case (4 a b c rest)
  then show ?case using b64_sextets [of "code a" "code b" "code c"] by (simp add: b64_step del: b64_decode_run.simps(2))
qed simp

text \<open>The padding that \<open>_encode\<close> strips is the padding that \<open>_decode\<close> restores.\<close>

lemma b64_encode_bytes_shape:
  "\<exists>body n. b64_encode_bytes bs = body @ replicate n (CHR ''='') \<and> CHR ''='' \<notin> set body \<and> n < 4 \<and> (length body + n) mod 4 = 0"
proof (induction bs rule: b64_encode_bytes.induct)
  case 1
  show ?case by (intro exI [of _ "[]"] exI [of _ 0]) simp
next
  case (2 a)
  let ?body = "[b64_char (code a div 4), b64_char (code a mod 4 * 16)]"
  have "b64_encode_bytes [a] = ?body @ replicate 2 (CHR ''='')" by (simp add: numeral_2_eq_2)
  moreover have "CHR ''='' \<notin> set ?body" using b64_sextets [of "code a" 0 0] by (simp add: b64_char_ne)
  ultimately show ?case by (intro exI [of _ ?body] exI [of _ 2]) simp
next
  case (3 a b)
  let ?body = "[b64_char (code a div 4), b64_char (code a mod 4 * 16 + code b div 16), b64_char (code b mod 16 * 4)]"
  have "b64_encode_bytes [a, b] = ?body @ replicate 1 (CHR ''='')" by simp
  moreover have "CHR ''='' \<notin> set ?body" using b64_sextets [of "code a" "code b" 0] by (simp add: b64_char_ne)
  ultimately show ?case by (intro exI [of _ ?body] exI [of _ 1]) simp
next
  case (4 a b c rest)
  let ?quad = "[b64_char (code a div 4), b64_char (code a mod 4 * 16 + code b div 16),
     b64_char (code b mod 16 * 4 + code c div 64), b64_char (code c mod 64)]"
  obtain body n where ih: "b64_encode_bytes rest = body @ replicate n (CHR ''='')" "CHR ''='' \<notin> set body" "n < 4"
    "(length body + n) mod 4 = 0" using 4 by - (elim exE conjE, rule that)
  have "CHR ''='' \<notin> set ?quad" using b64_sextets [of "code a" "code b" "code c"] by (simp add: b64_char_ne)
  with ih have "b64_encode_bytes (a # b # c # rest) = (?quad @ body) @ replicate n (CHR ''='')" "CHR ''='' \<notin> set (?quad @ body)"
    "(length (?quad @ body) + n) mod 4 = 0"
    by (auto simp: mod_Suc)
  with ih(3) show ?case by (intro exI [of _ "?quad @ body"] exI [of _ n] conjI)
qed

lemma rstrip_by_replicate: "c \<notin> set body \<Longrightarrow> rstrip_by ((=) c) (body @ replicate n c) = body"
proof -
  assume "c \<notin> set body"
  then have "dropWhile ((=) c) (rev body) = rev body" by (cases "rev body") (auto simp: rev_eq_Cons_iff)
  moreover have "dropWhile ((=) c) (replicate n c @ rev body) = dropWhile ((=) c) (rev body)"
    by (rule dropWhile_append2) simp
  ultimately show ?thesis by (simp add: rstrip_by_def)
qed

lemma b64_pad_encode: "b64_pad (b64_encode bs) = b64_encode_bytes bs"
proof -
  obtain body n where e: "b64_encode_bytes bs = body @ replicate n (CHR ''='')" and "CHR ''='' \<notin> set body"
    and n: "n < 4" "(length body + n) mod 4 = 0"
    using b64_encode_bytes_shape [of bs] by - (elim exE conjE, rule that)
  then have body: "b64_encode bs = body" by (simp add: b64_encode_def rstrip_by_replicate)
  have "(- int (length body)) mod 4 = int n"
    using n by presburger
  then show ?thesis by (simp add: b64_pad_def body e)
qed

text \<open>\<open>_decode\<close> inverts \<open>_encode\<close> on every byte string: stripping the padding of URL-safe Base64
  loses nothing.\<close>

theorem b64_roundtrip: "b64_decode (b64_encode bs) = Inr bs"
  by (simp add: b64_decode_def b64_pad_encode b64_decode_encode_bytes)

text \<open>The alphabet of encoded text.\<close>

lemma b64_char_ascii: "b64_char v \<noteq> CHR ''.'' \<and> is_ascii (b64_char v)"
proof -
  have "code (b64_char v) \<noteq> 46 \<and> code (b64_char v) < 128" by (auto simp: b64_char_def)
  then show ?thesis by (auto simp: is_ascii_def)
qed

lemma b64_encode_bytes_alphabet: "c \<in> set (b64_encode_bytes bs) \<Longrightarrow> c \<noteq> CHR ''.'' \<and> is_ascii c"
  by (induction bs rule: b64_encode_bytes.induct) (use b64_char_ascii in \<open>auto simp: is_ascii_def\<close>)

lemma b64_encode_alphabet: "c \<in> set (b64_encode bs) \<Longrightarrow> c \<noteq> CHR ''.'' \<and> is_ascii c"
proof -
  assume "c \<in> set (b64_encode bs)"
  then have "c \<in> set (b64_encode_bytes bs)" unfolding b64_encode_def rstrip_by_def by (auto dest: set_dropWhileD)
  then show ?thesis by (rule b64_encode_bytes_alphabet)
qed

subsection \<open>Redaction reaches every secret key\<close>

text \<open>No mapping inside the value keeps anything but the marker under a sensitive key.\<close>

fun secrets_hidden :: "pyval \<Rightarrow> bool" where
  "secrets_hidden (PDict d) =
     list_all (\<lambda>(key, item). if is_sensitive key then item = PStr REDACTED else secrets_hidden item) d"
| "secrets_hidden (PList l) = list_all secrets_hidden l"
| "secrets_hidden (PTuple l) = list_all secrets_hidden l"
| "secrets_hidden v = True"

text \<open>Redaction reaches every level of a nested value: afterwards no dictionary in it, however
  deep inside lists, tuples and dictionaries, holds anything but the marker under a key
  that normalises to a sensitive one.\<close>

theorem redact_hides_secrets: "secrets_hidden (redact_sensitive_data v)"
  by (induction v rule: redact_sensitive_data.induct) (auto simp: list_all_iff)

subsection \<open>Encrypted workflows are read back, and only in their place\<close>

lemma latin1_split:
  fixes n :: nat
  assumes "128 \<le> n" "n < 256"
  shows "192 + n div 64 = 194 \<or> 192 + n div 64 = 195" "128 + n mod 64 < 192" "(192 + n div 64 - 192) * 64 + (128 + n mod 64 - 128) = n"
proof -
  have "128 div 64 \<le> n div 64" using assms(1) by (rule div_le_mono)
  moreover have "n div 64 < 4" using assms(2) by (simp add: div_less_iff_less_mult)
  ultimately show "192 + n div 64 = 194 \<or> 192 + n div 64 = 195" by simp linarith
  show "128 + n mod 64 < 192" using mod_less_divisor [of 64 n] by simp
qed (simp add: div_mult_mod_eq)

lemma utf8_roundtrip: "utf8_decode (utf8_encode s) = Some s"
proof (induction s)
  case (Cons c s)
  show ?case
  proof (cases "code c < 128")
    case False
    let ?a = "192 + code c div 64" and ?b = "128 + code c mod 64"
    have n: "128 \<le> code c" "code c < 256" using False by simp_all
    note s = latin1_split [OF n]
    have codes: "code (char_of ?a) = ?a" "code (char_of ?b) = ?b" using s(1,2) by auto
    have "utf8_decode (char_of ?a # char_of ?b # utf8_encode s) =
        map_option ((#) (char_of ((?a - 192) * 64 + (?b - 128)))) (utf8_decode (utf8_encode s))"
      using s(1,2) unfolding utf8_decode.simps(2) list.case codes by auto
    also have "\<dots> = Some (c # s)" unfolding s(3) using Cons by simp
    finally show ?thesis using False by (simp add: utf8_encode_def)
  qed (use Cons in \<open>simp add: utf8_encode_def\<close>)
qed (simp add: utf8_encode_def)

lemma utf8_encode_inj: "utf8_encode s = utf8_encode t \<Longrightarrow> s = t"
  by (metis option.inject utf8_roundtrip)

lemma append_sep_inj: "c \<notin> set a \<Longrightarrow> c \<notin> set a' \<Longrightarrow> a @ c # b = a' @ c # b' \<longleftrightarrow> a = a' \<and> b = b'"
proof (induction a arbitrary: a')
  case Nil
  then show ?case by (cases a') auto
next
  case (Cons x a)
  then show ?case by (cases a') auto
qed

lemma workflow_aad_inj:
  assumes "CHR '':'' \<notin> set (u @ w @ u' @ w')" and "workflow_aad u w v = workflow_aad u' w' v'"
  shows "u = u' \<and> w = w' \<and> v = v'"
proof -
  have e: "u @ CHR '':'' # (w @ CHR '':'' # int_str v) = u' @ CHR '':'' # (w' @ CHR '':'' # int_str v')"
    using assms(2) by (simp add: workflow_aad_def)
  then have "u = u'" "w @ CHR '':'' # int_str v = w' @ CHR '':'' # int_str v'" using assms(1) by (simp_all add: append_sep_inj)
  then show ?thesis using assms(1) by (simp add: append_sep_inj) (blast dest: int_str_inj)
qed

lemma derive_keys_ok: "k \<noteq> [] \<Longrightarrow> \<exists>ks. derive_browser_extension_keys hkdf (Some k) = Inr ks"
  by (simp add: derive_browser_extension_keys_def derive_key_def)

lemma py_eq_json_order: "json_data o' v \<Longrightarrow> py_eq v (json_order o' v)"
proof (induction v)
  case (PList l)
  then show ?case by (auto simp: list_all2_conv_all_nth list_all_iff)
next
  case (PDict d)
  let ?d = "map (\<lambda>(k, v). (k, json_order o' v)) d"
  have "map fst ?d = map fst d" by (induction d) auto
  then have dist: "distinct (map fst (json_sorted o' ?d))" using PDict.prems by (simp del: map_map)
  have "map_of (json_sorted o' ?d) k = Some (json_order o' v) \<and> py_eq v (json_order o' v)" if "(k, v) \<in> set d" for k v
  proof
    have "(k, json_order o' v) \<in> set (json_sorted o' ?d)" using that by force
    then show "map_of (json_sorted o' ?d) k = Some (json_order o' v)" using dist by simp
    show "py_eq v (json_order o' v)" using PDict that by (fastforce simp: list_all_iff snds.simps)
  qed
  then show ?case by (auto simp: list_all_iff)
qed (auto simp: number_eq_def py_number_def float_reads_back_def split: pyfloat.splits)

text \<open>C23: A workflow definition survives encryption: what was encrypted for a user, workflow and version
  decrypts there to the dictionary with all its keys in order (\<open>sort_keys\<close>), which is equal to the original one in Python; and the ciphertext is
  bound to its place, since under any other user, workflow or version it is rejected. AES-GCM is assumed to decrypt what it
  encrypted, and only under the same associated data; ids hold no colon; the definition is JSON data, with distinct keys and
  floats whose text reads back as the float.\<close>

theorem workflow_encryption_roundtrip:
  assumes dec: "\<And>k n p a. aes_decrypt k n (aes_encrypt k n p a) a = Some p"
    and auth: "\<And>k n p a a'. a' \<noteq> a \<Longrightarrow> aes_decrypt k n (aes_encrypt k n p a) a' = None"
    and key: "secret_key \<noteq> []" and opts: "opts_ok opts" and data: "json_data opts (PDict d)"
    and enc: "encrypt_workflow_definition hkdf aes_encrypt opts nonce (PDict d) secret_key u w v = Inr e"
    and ids: "CHR '':'' \<notin> set (u @ w @ u' @ w')"
  shows "\<exists>d'. PDict d' = json_order opts (PDict d) \<and> py_eq (PDict d) (PDict d') \<and>
    decrypt_workflow_definition hkdf aes_decrypt (ew_ciphertext e) (ew_nonce e) secret_key u' w' v' =
      (if (u', w', v') = (u, w, v) then Inr d' else Inl InvalidTag)"
proof -
  obtain ks where ks: "derive_browser_extension_keys hkdf (Some secret_key) = Inr ks" using derive_keys_ok [OF key] by blast
  let ?a = "utf8_encode (workflow_aad u w v)" and ?a' = "utf8_encode (workflow_aad u' w' v')"
  have e: "e = \<lparr>ew_ciphertext = b64_encode (aes_encrypt (workflow_encryption ks) nonce (utf8_encode (json_text opts (PDict d))) ?a),
      ew_nonce = b64_encode nonce\<rparr>"
    using enc json_data_serializable [OF data]
    by (simp add: encrypt_workflow_definition_def json_dumps_def ks del: json_text.simps json_serializable.simps)
  have same: "?a' = ?a \<longleftrightarrow> (u', w', v') = (u, w, v)"
    using workflow_aad_inj [of u' w' u w v' v] ids by (auto dest: utf8_encode_inj)
  obtain d' where d': "PDict d' = json_order opts (PDict d)" by simp
  have "json_loads_bytes (utf8_encode (json_text opts (PDict d))) = Some (PDict d')"
    unfolding d' by (simp add: json_loads_bytes_def utf8_roundtrip json_loads_data [OF opts data] del: json_text.simps json_order.simps)
  then have "decrypt_workflow_definition hkdf aes_decrypt (ew_ciphertext e) (ew_nonce e) secret_key u' w' v' =
      (if (u', w', v') = (u, w, v) then Inr d' else Inl InvalidTag)"
    using same dec auth by (simp add: decrypt_workflow_definition_def ks e b64_decode_def b64_pad_encode b64_decode_encode_bytes del: json_text.simps)
  then show ?thesis using d' py_eq_json_order [OF data] by metis
qed

text \<open>A toy cipher that carries its associated data in the clear.\<close>

fun tag_data :: "string \<Rightarrow> string \<Rightarrow> string" where
  "tag_data [] p = CHR ''y'' # p"
| "tag_data (a # as) p = CHR ''x'' # a # tag_data as p"

fun untag_data :: "string \<Rightarrow> string \<Rightarrow> string option" where
  "untag_data [] (c # p) = (if c = CHR ''y'' then Some p else None)"
| "untag_data (a # as) (c # b # p) = (if c = CHR ''x'' \<and> a = b then untag_data as p else None)"
| "untag_data _ _ = None"

lemma untag_tag: "untag_data a' (tag_data a p) = (if a' = a then Some p else None)"
proof (induction a arbitrary: a')
  case Nil
  then show ?case by (cases "(a', tag_data [] p)" rule: untag_data.cases) auto
next
  case (Cons b as)
  then show ?case by (cases a') auto
qed

text \<open>A definition whose keys are not in order.\<close>

definition sample_workflow :: "(string \<times> pyval) list" where
  "sample_workflow = [(''schemaVersion'', PInt 1), (''origin'', PStr ''o''), (''steps'', PList [])]"

theorem workflow_encryption_roundtrip_witness:
  "\<exists>e. encrypt_workflow_definition (\<lambda>k i. i) (\<lambda>k n p a. tag_data a p) workflow_json ''nonce'' (PDict sample_workflow) ''k'' ''u'' ''w'' 1 = Inr e \<and>
     decrypt_workflow_definition (\<lambda>k i. i) (\<lambda>k n c a. untag_data a c) (ew_ciphertext e) (ew_nonce e) ''k'' ''u'' ''w'' 1 =
       Inr [(''origin'', PStr ''o''), (''schemaVersion'', PInt 1), (''steps'', PList [])] \<and>
     decrypt_workflow_definition (\<lambda>k i. i) (\<lambda>k n c a. untag_data a c) (ew_ciphertext e) (ew_nonce e) ''k'' ''z'' ''w'' 1 = Inl InvalidTag"
proof -
  let ?enc = "\<lambda>k n p a. tag_data a p" and ?dec = "\<lambda>k n c a. untag_data a c"
  have opts: "opts_ok workflow_json" by (simp add: opts_ok_def workflow_json_def)
  have data: "json_data workflow_json (PDict sample_workflow)" by (simp add: sample_workflow_def)
  have order: "json_order workflow_json (PDict sample_workflow) = PDict [(''origin'', PStr ''o''), (''schemaVersion'', PInt 1), (''steps'', PList [])]"
    by (simp add: sample_workflow_def workflow_json_def json_sorted_def less_char_def)
  obtain e where e: "encrypt_workflow_definition (\<lambda>k i. i) ?enc workflow_json ''nonce'' (PDict sample_workflow) ''k'' ''u'' ''w'' 1 = Inr e"
    by (simp add: encrypt_workflow_definition_def json_dumps_def derive_browser_extension_keys_def derive_key_def sample_workflow_def)
  have "\<exists>d'. PDict d' = json_order workflow_json (PDict sample_workflow) \<and> py_eq (PDict sample_workflow) (PDict d') \<and>
      decrypt_workflow_definition (\<lambda>k i. i) ?dec (ew_ciphertext e) (ew_nonce e) ''k'' u' ''w'' 1 =
      (if (u', ''w'', 1) = (''u'', ''w'', 1 :: int) then Inr d' else Inl InvalidTag)" if "CHR '':'' \<notin> set u'" for u'
    using that by (intro workflow_encryption_roundtrip [OF _ _ _ opts data e]) (simp_all add: untag_tag)
  from this [of "''u''"] this [of "''z''"] e order show ?thesis by auto
qed

end
