(* ===== verification/Browser_Auth.thy ===== *)
theory Browser_Auth
  imports Browser_Crypto
begin

section \<open>Browser extension authentication (utils/browser\_extension\_auth.py)\<close>

text \<open>
  The request allowlist of extension tokens, the check of server origins, access tokens and
  refresh credentials. HKDF, HMAC-SHA256, JWT encoding and decoding, the random choices and
  the clock are parameters.
\<close>

definition ACCESS_TOKEN_AUDIENCE :: string where
  "ACCESS_TOKEN_AUDIENCE = ''tide-bot-browser-extension''"

definition ACCESS_TOKEN_SCOPE :: string where
  "ACCESS_TOKEN_SCOPE = ''browser-extension''"

definition ACCESS_TOKEN_TTL_SECONDS :: int where
  "ACCESS_TOKEN_TTL_SECONDS = 600"

definition REFRESH_CREDENTIAL_PREFIX :: string where
  "REFRESH_CREDENTIAL_PREFIX = ''tbx1''"

definition PAIRING_ALPHABET :: string where
  "PAIRING_ALPHABET = ''ABCDEFGHJKLMNPQRSTUVWXYZ23456789''"

subsection \<open>The request allowlist\<close>

text \<open>A pattern that is a fixed sequence of character classes, such as a literal path with a UUID.\<close>

definition cls_seq :: "(char \<Rightarrow> bool) list \<Rightarrow> regex" where
  "cls_seq ps = foldr (\<lambda>p r. RxSeq (Cls p) r) ps RxEmpty"

text \<open>Under \<open>re.IGNORECASE\<close>.\<close>

definition same_letter :: "char \<Rightarrow> char \<Rightarrow> bool" where
  "same_letter c x \<longleftrightarrow> lower_char x = lower_char c"

definition RESOURCE_ID :: "(char \<Rightarrow> bool) list" where
  "RESOURCE_ID = replicate 8 is_hex @ [(=) (CHR ''-'')] @ replicate 4 is_hex @ [(=) (CHR ''-'')] @ replicate 4 is_hex @
     [(=) (CHR ''-'')] @ replicate 4 is_hex @ [(=) (CHR ''-'')] @ replicate 12 is_hex"

definition resource_path :: "string \<Rightarrow> string \<Rightarrow> regex" where
  "resource_path pre post = cls_seq (map same_letter pre @ RESOURCE_ID @ map same_letter post)"

definition CHAT_ID_PATH :: regex where
  "CHAT_ID_PATH = resource_path ''/api/v1/chats/'' []"

definition WORKFLOW_PATH :: regex where
  "WORKFLOW_PATH = resource_path ''/api/v1/browser-extension/workflows/'' []"

definition SCHEDULE_PATH :: regex where
  "SCHEDULE_PATH = resource_path ''/api/v1/browser-extension/schedules/'' []"

definition SCHEDULE_RUN_PATH :: regex where
  "SCHEDULE_RUN_PATH = resource_path ''/api/v1/browser-extension/schedules/'' ''/runs''"

definition is_browser_extension_http_request_allowed :: "string \<Rightarrow> string \<Rightarrow> bool" where
  "is_browser_extension_http_request_allowed method0 path =
     (let method = py_upper method0 in
      if substr_in ''..'' path then False
      else if method = ''GET'' \<and> path = ''/api/models'' then True
      else if method = ''GET'' \<and> path \<in> {''/api/v1/chats'', ''/api/v1/chats/''} then True
      else if method = ''POST'' \<and> path = ''/api/v1/chats/new'' then True
      else if method \<in> {''GET'', ''POST''} \<and> rx_fullmatch CHAT_ID_PATH path \<noteq> None then True
      else if method = ''POST'' \<and> path \<in> {''/api/chat/completions'', ''/api/v1/chat/completions'',
             ''/api/v1/audio/transcriptions'', ''/api/v1/audio/speech''} then True
      else if path = ''/api/v1/browser-extension/workflows'' \<and> method \<in> {''GET'', ''POST''} then True
      else if rx_fullmatch WORKFLOW_PATH path \<noteq> None \<and> method \<in> {''GET'', ''PUT'', ''DELETE''} then True
      else if path = ''/api/v1/browser-extension/schedules'' \<and> method \<in> {''GET'', ''POST''} then True
      else if rx_fullmatch SCHEDULE_PATH path \<noteq> None \<and> method \<in> {''PUT'', ''DELETE''} then True
      else if rx_fullmatch SCHEDULE_RUN_PATH path \<noteq> None \<and> method = ''POST'' then True
      else False)"

subsection \<open>Pairing secrets and strict Base64\<close>

record pairing_secrets =
  device_code :: string
  verifier :: string

text \<open>\<open>picks\<close> are the eight random indices into the alphabet, \<open>token\<close> the random verifier.\<close>

definition create_pairing_secrets :: "nat list \<Rightarrow> string \<Rightarrow> pairing_secrets" where
  "create_pairing_secrets picks token =
     (let pc = map (\<lambda>i. PAIRING_ALPHABET ! (i mod length PAIRING_ALPHABET)) picks
      in \<lparr>device_code = take 4 pc @ ''-'' @ drop 4 pc, verifier = token\<rparr>)"

datatype auth_error =
    RefreshCredentialError
  | UnicodeEncodeError
  | BrowserAccessTokenError string
  | OriginError string
  | KeyError crypto_error

definition auth_decode :: "string \<Rightarrow> (auth_error, string) result" where
  "auth_decode value = (case b64_decode_run True False 0 0 0 (b64_pad value) of
      Inl _ \<Rightarrow> Inl RefreshCredentialError
    | Inr decoded \<Rightarrow> if b64_encode decoded = value then Inr decoded else Inl RefreshCredentialError)"

subsection \<open>Server origins\<close>

definition normalize_origin :: "(string \<Rightarrow> string option) \<Rightarrow> string \<Rightarrow> (auth_error, string \<times> string \<times> string) result" where
  "normalize_origin idna origin =
     (if py_strip origin = [] then Inl (OriginError ''Server origin is required'')
      else case urlsplit (py_strip origin) of
        None \<Rightarrow> Inl (OriginError ''Invalid IPv6 URL'')
      | Some parsed \<Rightarrow>
          (let scheme = py_lower (u_scheme parsed) in
           if scheme \<notin> {''http'', ''https''} \<or> url_hostname parsed = None
           then Inl (OriginError ''Server origin must use HTTP or HTTPS'')
           else if has_credentials parsed then Inl (OriginError ''Server origin must not contain credentials'')
           else if u_path parsed \<notin> {[], ''/''} \<or> u_query parsed \<noteq> [] \<or> u_fragment parsed \<noteq> []
           then Inl (OriginError ''Server origin must not contain a path, query, or fragment'')
           else case url_port parsed of
             Inl _ \<Rightarrow> Inl (OriginError ''Server origin contains an invalid port'')
           | Inr port \<Rightarrow> (case idna_encode idna (the (url_hostname parsed)) of
               None \<Rightarrow> Inl (OriginError ''idna'')
             | Some encoded \<Rightarrow>
                 (let host = py_lower encoded;
                      display_host = (if CHR '':'' \<in> set host then ''['' @ host @ '']'' else host);
                      default_port = (\<lambda>p. scheme = ''https'' \<and> p = 443 \<or> scheme = ''http'' \<and> p = 80);
                      display = (case port of
                          None \<Rightarrow> display_host
                        | Some p \<Rightarrow> if default_port p then display_host else display_host @ '':'' @ nat_digits p)
                  in Inr (scheme @ ''://'' @ display, scheme, host)))))"

definition is_loopback :: "string \<Rightarrow> bool" where
  "is_loopback host = (host = ''localhost'' \<or> ip_is_loopback host = Some True)"

definition validate_server_origin ::
  "(string \<Rightarrow> string option) \<Rightarrow> string \<Rightarrow> string \<Rightarrow> bool \<Rightarrow> string \<Rightarrow> (auth_error, string) result" where
  "validate_server_origin idna default_origin environment custom_origins_unlocked origin =
     rbind (normalize_origin idna origin) (\<lambda>(normalized, scheme, host).
     rbind (normalize_origin idna default_origin) (\<lambda>(normalized_default, _, _).
       if normalized = normalized_default then Inr normalized
       else if py_lower environment \<in> {''dev'', ''development'', ''test''} \<and> is_loopback host then Inr normalized
       else if \<not> custom_origins_unlocked then Inl (OriginError ''Custom server origin is locked by the Tide-Bot administrator'')
       else if scheme \<noteq> ''https'' then Inl (OriginError ''Custom server origin must use HTTPS'')
       else Inr normalized))"

subsection \<open>Access tokens\<close>

definition lift_key :: "(crypto_error, 'a) result \<Rightarrow> (auth_error, 'a) result" where
  "lift_key r = (case r of Inl e \<Rightarrow> Inl (KeyError e) | Inr x \<Rightarrow> Inr x)"

definition access_claims :: "string \<Rightarrow> string \<Rightarrow> string \<Rightarrow> string \<Rightarrow> int \<Rightarrow> string \<Rightarrow> (string \<times> pyval) list" where
  "access_claims user_id device_id token_family origin issued_at jti =
     [(''id'', PStr user_id), (''device_id'', PStr device_id), (''token_family_id'', PStr token_family),
      (''scope'', PStr ACCESS_TOKEN_SCOPE), (''aud'', PStr ACCESS_TOKEN_AUDIENCE), (''origin'', PStr origin),
      (''iat'', PInt issued_at), (''exp'', PInt (issued_at + ACCESS_TOKEN_TTL_SECONDS)), (''jti'', PStr jti)]"

definition create_browser_access_token ::
  "(string \<Rightarrow> string \<Rightarrow> string) \<Rightarrow> ((string \<times> pyval) list \<Rightarrow> string \<Rightarrow> string) \<Rightarrow> string \<Rightarrow> string \<Rightarrow> string \<Rightarrow> string \<Rightarrow> string \<Rightarrow> int \<Rightarrow>
   string \<Rightarrow> (auth_error, string) result" where
  "create_browser_access_token hkdf jwt_encode user_id device_id token_family origin secret_key issued_at jti =
     rbind (lift_key (derive_browser_extension_keys hkdf (Some secret_key))) (\<lambda>ks.
       Inr (jwt_encode (access_claims user_id device_id token_family origin issued_at jti) (access_signing ks)))"

definition REQUIRED_CLAIMS :: "string list" where
  "REQUIRED_CLAIMS = [''id'', ''device_id'', ''token_family_id'', ''scope'', ''aud'', ''origin'', ''iat'', ''exp'', ''jti'']"

text \<open>
  \<open>jwt_decode token key audience required\<close> is \<open>jwt.decode\<close> with HS256 at the time of the call,
  \<open>None\<close> for a \<open>PyJWTError\<close>; \<open>py_str\<close> is \<open>str\<close>.
\<close>

definition decode_browser_access_token ::
  "(string \<Rightarrow> string \<Rightarrow> string) \<Rightarrow> (string \<Rightarrow> string \<Rightarrow> string \<Rightarrow> string list \<Rightarrow> (string \<times> pyval) list option) \<Rightarrow> (pyval \<Rightarrow> string) \<Rightarrow>
   string \<Rightarrow> string \<Rightarrow> string option \<Rightarrow> (auth_error, (string \<times> pyval) list) result" where
  "decode_browser_access_token hkdf jwt_decode py_str token secret_key expected_origin =
     rbind (lift_key (derive_browser_extension_keys hkdf (Some secret_key))) (\<lambda>ks.
       case jwt_decode token (access_signing ks) ACCESS_TOKEN_AUDIENCE REQUIRED_CLAIMS of
         None \<Rightarrow> Inl (BrowserAccessTokenError ''Invalid browser access token'')
       | Some claims \<Rightarrow>
           if pget claims ''scope'' \<noteq> PStr ACCESS_TOKEN_SCOPE
           then Inl (BrowserAccessTokenError ''Invalid browser access token scope'')
           else case expected_origin of
             None \<Rightarrow> Inr claims
           | Some o' \<Rightarrow>
               if py_str (case map_of claims ''origin'' of None \<Rightarrow> PStr [] | Some v \<Rightarrow> v) \<noteq> o'
               then Inl (BrowserAccessTokenError ''Browser access token origin mismatch'') else Inr claims)"

subsection \<open>Refresh credentials\<close>

definition refresh_json :: json_opts where
  "refresh_json = \<lparr>ensure_ascii = True, item_space = [], key_space = [], sort_keys = True, float_repr = \<lambda>_. ''0.0''\<rparr>"

definition refresh_payload :: "string \<Rightarrow> string \<Rightarrow> string \<Rightarrow> string" where
  "refresh_payload device_id token_family nonce =
     b64_encode (utf8_encode (json_text refresh_json
       (PDict [(''v'', PInt 1), (''d'', PStr device_id), (''f'', PStr token_family), (''n'', PStr nonce)])))"

definition create_refresh_credential ::
  "(string \<Rightarrow> string \<Rightarrow> string) \<Rightarrow> (string \<Rightarrow> string \<Rightarrow> string) \<Rightarrow> string \<Rightarrow> string \<Rightarrow> string \<Rightarrow> string \<Rightarrow> (auth_error, string) result" where
  "create_refresh_credential hkdf hmac_raw nonce device_id token_family secret_key =
     (let payload = refresh_payload device_id token_family nonce
      in rbind (lift_key (derive_browser_extension_keys hkdf (Some secret_key))) (\<lambda>ks.
           Inr (REFRESH_CREDENTIAL_PREFIX @ ''.'' @ payload @ ''.'' @ b64_encode (hmac_raw (refresh_signing ks) payload))))"

record refresh_identity =
  ri_device_id :: string
  ri_token_family_id :: string

definition identity_of :: "pyval \<Rightarrow> (auth_error, refresh_identity) result" where
  "identity_of v = (case as_dict v of
      None \<Rightarrow> Inl RefreshCredentialError
    | Some data \<Rightarrow>
        if \<not> py_eq_int (pget data ''v'') 1 \<or> \<not> nonempty_str (pget data ''d'') \<or> \<not> nonempty_str (pget data ''f'') \<or>
           (case as_str (pget data ''n'') of None \<Rightarrow> True | Some n \<Rightarrow> length n < 32)
        then Inl RefreshCredentialError
        else Inr \<lparr>ri_device_id = str_of (pget data ''d''), ri_token_family_id = str_of (pget data ''f'')\<rparr>)"

definition decode_refresh_credential ::
  "(string \<Rightarrow> string \<Rightarrow> string) \<Rightarrow> (string \<Rightarrow> string \<Rightarrow> string) \<Rightarrow> string \<Rightarrow> string \<Rightarrow> (auth_error, refresh_identity) result" where
  "decode_refresh_credential hkdf hmac_raw credential secret_key = (case split_on (CHR ''.'') credential of
      [pre, payload, signature] \<Rightarrow>
        if pre \<noteq> REFRESH_CREDENTIAL_PREFIX then Inl RefreshCredentialError
        else rbind (lift_key (derive_browser_extension_keys hkdf (Some secret_key))) (\<lambda>ks.
          if \<not> list_all is_ascii payload then Inl UnicodeEncodeError
          else rbind (auth_decode signature) (\<lambda>sig.
            if sig \<noteq> hmac_raw (refresh_signing ks) payload then Inl RefreshCredentialError
            else rbind (auth_decode payload) (\<lambda>text.
              case json_loads_bytes text of None \<Rightarrow> Inl RefreshCredentialError | Some v \<Rightarrow> identity_of v)))
    | _ \<Rightarrow> Inl RefreshCredentialError)"

subsection \<open>The allowlist as a table\<close>

lemma cls_seq_Cons: "cls_seq (P # ps) = RxSeq (Cls P) (cls_seq ps)"
  by (simp add: cls_seq_def)

lemma rx_run_cls_seq:
  "i \<le> length s \<Longrightarrow> rx_run (cls_seq ps) s (i, g) =
     (if i + length ps \<le> length s \<and> list_all2 (\<lambda>P c. P c) ps (take (length ps) (drop i s)) then [(i + length ps, g)] else [])"
proof (induction ps arbitrary: i)
  case Nil
  then show ?case by (simp add: cls_seq_def)
next
  case (Cons P ps)
  show ?case
  proof (cases "i < length s")
    case True
    then have "take (length (P # ps)) (drop i s) = s ! i # take (length ps) (drop (i + 1) s)"
      by (simp add: Cons_nth_drop_Suc [symmetric])
    then show ?thesis using Cons.IH [of "Suc i"] True by (simp add: cls_seq_Cons)
  qed (simp add: cls_seq_Cons)
qed

lemma fullmatch_cls_seq: "rx_fullmatch (cls_seq ps) s \<noteq> None \<longleftrightarrow> list_all2 (\<lambda>P c. P c) ps s"
  by (auto simp: rx_fullmatch_def rx_run_cls_seq dest: list_all2_lengthD)

lemma list_all2_same_letter: "list_all2 (\<lambda>P c. P c) (map same_letter pre) s \<longleftrightarrow> py_lower s = py_lower pre"
  by (induction pre arbitrary: s) (auto simp: list_all2_Cons1 same_letter_def py_lower_def Cons_eq_map_conv)

definition is_uuid :: "string \<Rightarrow> bool" where
  "is_uuid s \<longleftrightarrow> list_all2 (\<lambda>P c. P c) RESOURCE_ID s"

lemma list_all2_append2_iff:
  "list_all2 P (A @ B) s \<longleftrightarrow> (\<exists>a b. s = a @ b \<and> list_all2 P A a \<and> list_all2 P B b)"
proof
  assume "list_all2 P (A @ B) s"
  then show "\<exists>a b. s = a @ b \<and> list_all2 P A a \<and> list_all2 P B b" unfolding list_all2_append1 by blast
qed (elim exE conjE, simp only: list_all2_appendI)

lemma list_all2_append3:
  "list_all2 P (A @ B @ C) s \<longleftrightarrow> (\<exists>a i b. s = a @ i @ b \<and> list_all2 P A a \<and> list_all2 P B i \<and> list_all2 P C b)"
  unfolding list_all2_append2_iff by blast

lemma fullmatch_resource_path:
  "rx_fullmatch (resource_path pre post) s \<noteq> None \<longleftrightarrow>
   (\<exists>a i b. s = a @ i @ b \<and> py_lower a = py_lower pre \<and> is_uuid i \<and> py_lower b = py_lower post)"
  unfolding resource_path_def fullmatch_cls_seq list_all2_append3 list_all2_same_letter is_uuid_def by blast

definition FIXED_REQUESTS :: "(string \<times> string) list" where
  "FIXED_REQUESTS = [(''GET'', ''/api/models''), (''GET'', ''/api/v1/chats''), (''GET'', ''/api/v1/chats/''),
     (''POST'', ''/api/v1/chats/new''), (''POST'', ''/api/chat/completions''), (''POST'', ''/api/v1/chat/completions''),
     (''POST'', ''/api/v1/audio/transcriptions''), (''POST'', ''/api/v1/audio/speech''),
     (''GET'', ''/api/v1/browser-extension/workflows''), (''POST'', ''/api/v1/browser-extension/workflows''),
     (''GET'', ''/api/v1/browser-extension/schedules''), (''POST'', ''/api/v1/browser-extension/schedules'')]"

definition RESOURCE_REQUESTS :: "(string list \<times> string \<times> string) list" where
  "RESOURCE_REQUESTS = [([''GET'', ''POST''], ''/api/v1/chats/'', []),
     ([''GET'', ''PUT'', ''DELETE''], ''/api/v1/browser-extension/workflows/'', []),
     ([''PUT'', ''DELETE''], ''/api/v1/browser-extension/schedules/'', []),
     ([''POST''], ''/api/v1/browser-extension/schedules/'', ''/runs'')]"

text \<open>The allowlist of extension tokens is exactly a table of twelve fixed requests and four
  families of resource paths: a request is allowed iff it holds no \<open>..\<close> and is in the table, where
  a resource path is a prefix and suffix of the table, in any case, around a UUID.\<close>

theorem allowlist_is_table:
  "is_browser_extension_http_request_allowed m path \<longleftrightarrow>
     \<not> substr_in ''..'' path \<and>
     ((py_upper m, path) \<in> set FIXED_REQUESTS \<or>
      (\<exists>(methods, pre, post) \<in> set RESOURCE_REQUESTS. py_upper m \<in> set methods \<and>
         (\<exists>a i b. path = a @ i @ b \<and> py_lower a = py_lower pre \<and> is_uuid i \<and> py_lower b = py_lower post)))"
  unfolding fullmatch_resource_path [symmetric] is_browser_extension_http_request_allowed_def Let_def CHAT_ID_PATH_def
    WORKFLOW_PATH_def SCHEDULE_PATH_def SCHEDULE_RUN_PATH_def RESOURCE_REQUESTS_def FIXED_REQUESTS_def
  by (simp only: list.set insert_iff empty_iff prod.inject bex_simps prod.case simp_thms if_True if_False) argo

subsection \<open>Refresh credentials\<close>

lemma auth_decode_encode [simp]: "auth_decode (b64_encode bs) = Inr bs"
  by (simp add: auth_decode_def b64_pad_encode b64_decode_encode_bytes)

lemma auth_decode_Inr: "auth_decode value = Inr bs \<Longrightarrow> value = b64_encode bs"
  by (auto simp: auth_decode_def split: sum.splits if_splits)

lemma split_three:
  assumes "CHR ''.'' \<notin> set a" "CHR ''.'' \<notin> set b" "CHR ''.'' \<notin> set c"
  shows "split_on (CHR ''.'') (a @ ''.'' @ b @ ''.'' @ c) = [a, b, c]"
  using assms by (simp add: split_on_append split_on_notin)

lemma refresh_text:
  "json_loads (json_text refresh_json (PDict [(''v'', PInt 1), (''d'', PStr d), (''f'', PStr f), (''n'', PStr n)])) =
   Some (PDict [(''d'', PStr d), (''f'', PStr f), (''n'', PStr n), (''v'', PInt 1)])"
proof -
  let ?d = "[(''v'', PInt 1), (''d'', PStr d), (''f'', PStr f), (''n'', PStr n)]"
  have sorted: "sort_key fst ?d = [(''d'', PStr d), (''f'', PStr f), (''n'', PStr n), (''v'', PInt 1)]"
    by (simp add: less_char_def)
  have "json_text refresh_json (PDict ?d) = json_text refresh_json (PDict (sort_key fst ?d))"
    by (rule json_text_sort [symmetric]) (simp add: refresh_json_def)
  then show ?thesis unfolding sorted
    by (simp only:) (intro json_loads_text; simp add: opts_ok_def refresh_json_def less_char_def)
qed

lemma decode_created_credential:
  assumes "create_refresh_credential hkdf hmac_raw nonce d f secret_key = Inr credential"
    and "d \<noteq> []" and "f \<noteq> []" and "32 \<le> length nonce"
  shows "decode_refresh_credential hkdf hmac_raw credential secret_key = Inr \<lparr>ri_device_id = d, ri_token_family_id = f\<rparr>"
proof -
  obtain ks where ks: "derive_browser_extension_keys hkdf (Some secret_key) = Inr ks"
    and c: "credential = REFRESH_CREDENTIAL_PREFIX @ ''.'' @ refresh_payload d f nonce @ ''.'' @
      b64_encode (hmac_raw (refresh_signing ks) (refresh_payload d f nonce))"
    using assms(1) by (auto simp: create_refresh_credential_def Let_def lift_key_def rbind_Inr_iff split: sum.splits)
  have "split_on (CHR ''.'') credential =
      [REFRESH_CREDENTIAL_PREFIX, refresh_payload d f nonce, b64_encode (hmac_raw (refresh_signing ks) (refresh_payload d f nonce))]"
    unfolding c by (rule split_three) (auto simp: REFRESH_CREDENTIAL_PREFIX_def refresh_payload_def dest: b64_encode_alphabet)
  moreover have "list_all is_ascii (refresh_payload d f nonce)"
    by (auto simp: list_all_iff refresh_payload_def dest: b64_encode_alphabet)
  moreover have "auth_decode (refresh_payload d f nonce) =
      Inr (utf8_encode (json_text refresh_json (PDict [(''v'', PInt 1), (''d'', PStr d), (''f'', PStr f), (''n'', PStr nonce)])))"
    by (simp only: refresh_payload_def auth_decode_encode)
  ultimately show ?thesis
    using assms(2-4)
    by (simp add: decode_refresh_credential_def ks lift_key_def json_loads_bytes_def utf8_roundtrip refresh_text identity_of_def
        nonempty_str_def del: json_text.simps)
qed

lemma sample_credential:
  "\<exists>c. create_refresh_credential (\<lambda>k i. i) (\<lambda>k m. k @ m) (replicate 32 (CHR ''n'')) ''dev'' ''fam'' ''s'' = Inr c"
  by (simp add: create_refresh_credential_def Let_def derive_browser_extension_keys_def derive_key_def lift_key_def)

text \<open>A refresh credential the server issues is read back: decoding it with the same secret gives
  the device and token family it was created for (ids are not empty and the random part has
  at least 32 characters, as \<open>token_urlsafe(32)\<close> gives).\<close>

theorem refresh_credential_roundtrip:
  assumes "create_refresh_credential hkdf hmac_raw nonce d f secret_key = Inr credential"
    and "d \<noteq> []" and "f \<noteq> []" and "32 \<le> length nonce"
  shows "decode_refresh_credential hkdf hmac_raw credential secret_key = Inr \<lparr>ri_device_id = d, ri_token_family_id = f\<rparr>"
  using assms by (rule decode_created_credential)

theorem refresh_credential_roundtrip_witness:
  "\<exists>c. create_refresh_credential (\<lambda>k i. i) (\<lambda>k m. k @ m) (replicate 32 (CHR ''n'')) ''dev'' ''fam'' ''s'' = Inr c \<and>
     decode_refresh_credential (\<lambda>k i. i) (\<lambda>k m. k @ m) c ''s'' = Inr \<lparr>ri_device_id = ''dev'', ri_token_family_id = ''fam''\<rparr>"
proof -
  obtain c where c: "create_refresh_credential (\<lambda>k i. i) (\<lambda>k m. k @ m) (replicate 32 (CHR ''n'')) ''dev'' ''fam'' ''s'' = Inr c"
    using sample_credential by blast
  from refresh_credential_roundtrip [OF c] c show ?thesis by simp
qed

text \<open>No credential is accepted that the refresh key did not sign, and every accepted credential
  has one spelling: it is the prefix, a canonical Base64 payload and the canonical Base64 of
  the MAC of exactly this payload, which names the device and the family returned.\<close>

theorem refresh_credential_authentic:
  assumes "decode_refresh_credential hkdf hmac_raw credential secret_key = Inr identity"
  shows "\<exists>ks text v. derive_browser_extension_keys hkdf (Some secret_key) = Inr ks \<and>
    credential = REFRESH_CREDENTIAL_PREFIX @ ''.'' @ b64_encode text @ ''.'' @ b64_encode (hmac_raw (refresh_signing ks) (b64_encode text)) \<and>
    json_loads_bytes text = Some v \<and> identity_of v = Inr identity"
proof -
  obtain pre payload signature where sp: "split_on (CHR ''.'') credential = [pre, payload, signature]"
    using assms by (auto simp: decode_refresh_credential_def split: list.splits)
  obtain ks bs v where ks: "derive_browser_extension_keys hkdf (Some secret_key) = Inr ks" and pre: "pre = REFRESH_CREDENTIAL_PREFIX"
    and sig: "auth_decode signature = Inr (hmac_raw (refresh_signing ks) payload)" and dec: "auth_decode payload = Inr bs"
    and v: "json_loads_bytes bs = Some v" "identity_of v = Inr identity"
    using assms sp by (auto simp: decode_refresh_credential_def lift_key_def rbind_Inr_iff split: sum.splits if_splits option.splits)
  have "credential = joined ''.'' [pre, payload, signature]" using joined_split_on [of "CHR ''.''" credential] sp by simp
  then have "credential = pre @ ''.'' @ payload @ ''.'' @ signature" by (simp add: joined_def)
  then show ?thesis using ks pre v auth_decode_Inr [OF sig] auth_decode_Inr [OF dec] by blast
qed

theorem refresh_credential_authentic_witness:
  "\<exists>credential ks text. decode_refresh_credential (\<lambda>k i. i) (\<lambda>k m. k @ m) credential ''s'' = Inr \<lparr>ri_device_id = ''dev'', ri_token_family_id = ''fam''\<rparr> \<and>
     derive_browser_extension_keys (\<lambda>k i. i) (Some ''s'') = Inr ks \<and>
     credential = REFRESH_CREDENTIAL_PREFIX @ ''.'' @ b64_encode text @ ''.'' @ b64_encode (refresh_signing ks @ b64_encode text)"
proof -
  obtain c where c: "create_refresh_credential (\<lambda>k i. i) (\<lambda>k m. k @ m) (replicate 32 (CHR ''n'')) ''dev'' ''fam'' ''s'' = Inr c"
    using sample_credential by blast
  then have d: "decode_refresh_credential (\<lambda>k i. i) (\<lambda>k m. k @ m) c ''s'' = Inr \<lparr>ri_device_id = ''dev'', ri_token_family_id = ''fam''\<rparr>"
    by (rule decode_created_credential) simp_all
  from refresh_credential_authentic [OF d] d show ?thesis by blast
qed

text \<open>A credential with a non-ASCII payload is not answered with the credential error: the payload is
  encoded as ASCII outside any \<open>try\<close>, so \<open>UnicodeEncodeError\<close> escapes the decoder.\<close>

theorem refresh_credential_non_ascii:
  assumes "secret_key \<noteq> []" and "CHR ''.'' \<notin> set payload" and "CHR ''.'' \<notin> set signature" and "\<not> list_all is_ascii payload"
  shows "decode_refresh_credential hkdf hmac_raw (''tbx1.'' @ payload @ ''.'' @ signature) secret_key = Inl UnicodeEncodeError"
  using assms split_three [of "''tbx1''" payload signature] derive_keys_ok [OF assms(1), of hkdf]
  by (auto simp: decode_refresh_credential_def REFRESH_CREDENTIAL_PREFIX_def lift_key_def)

theorem refresh_credential_non_ascii_witness:
  "decode_refresh_credential (\<lambda>k i. i) (\<lambda>k m. m) (''tbx1.'' @ [CHR 0xE9] @ ''.'' @ ''x'') ''s'' = Inl UnicodeEncodeError"
  by (rule refresh_credential_non_ascii) (simp_all add: is_ascii_def)

subsection \<open>Origins\<close>

text \<open>With custom origins locked, an extension can only be pointed at the configured server, or in
  a development environment at the machine itself; unlocked, at most at HTTPS origins.\<close>

theorem origin_lock:
  assumes "validate_server_origin idna default_origin environment unlocked origin = Inr normalized"
  shows "\<exists>scheme host n s h. normalize_origin idna origin = Inr (normalized, scheme, host) \<and>
    normalize_origin idna default_origin = Inr (n, s, h) \<and>
    (normalized = n \<or> py_lower environment \<in> {''dev'', ''development'', ''test''} \<and> is_loopback host \<or>
     unlocked \<and> scheme = ''https'')"
  using assms by (auto simp: validate_server_origin_def rbind_Inr_iff split: if_splits)

lemma normalize_tide_bot:
  "normalize_origin idna ''https://tide-bot.com'' = Inr (''https://tide-bot.com'', ''https'', ''tide-bot.com'')"
  by (simp add: normalize_origin_def py_strip_def strip_by_def lstrip_by_def rstrip_by_def is_space_def urlsplit_def c0_or_space_def
      split_scheme_def is_ascii_alpha_def scheme_char_def is_digit_def py_lower_def lower_char_def startswith_def ends_netloc_def
      url_hostname_def hostinfo_def py_rpartition_def has_credentials_def url_port_def idna_encode_def is_ascii_def Let_def)

theorem origin_lock_witness:
  "validate_server_origin (\<lambda>_. None) ''https://tide-bot.com'' ''prod'' False ''https://tide-bot.com'' = Inr ''https://tide-bot.com'' \<and>
   (\<exists>n s h. normalize_origin (\<lambda>_. None) ''https://tide-bot.com'' = Inr (n, s, h) \<and> ''https://tide-bot.com'' = n)"
proof -
  have ok: "validate_server_origin (\<lambda>_. None) ''https://tide-bot.com'' ''prod'' False ''https://tide-bot.com'' = Inr ''https://tide-bot.com''"
    by (simp add: validate_server_origin_def normalize_tide_bot)
  from origin_lock [OF ok] ok show ?thesis by auto
qed

subsection \<open>Access tokens\<close>

text \<open>An access token carries its user, device, family and origin to the server and is good for
  its origin only: decoding what was issued returns exactly the claims issued when the caller
  expects the token's origin, and is an origin mismatch for any other expected origin. JWT is
  assumed to decode, while the token has not expired, what it encoded under the same key.\<close>

theorem access_token_origin_bound:
  assumes jwt: "\<And>key. jwt_decode (jwt_encode (access_claims user_id device_id fam origin now jti) key) key ACCESS_TOKEN_AUDIENCE
      REQUIRED_CLAIMS = Some (access_claims user_id device_id fam origin now jti)"
    and str: "\<And>s. py_str (PStr s) = s"
    and token: "create_browser_access_token hkdf jwt_encode user_id device_id fam origin secret_key now jti = Inr token"
  shows "decode_browser_access_token hkdf jwt_decode py_str token secret_key (Some expected) =
    (if expected = origin then Inr (access_claims user_id device_id fam origin now jti)
     else Inl (BrowserAccessTokenError ''Browser access token origin mismatch''))"
proof -
  let ?claims = "access_claims user_id device_id fam origin now jti"
  obtain ks where ks: "derive_browser_extension_keys hkdf (Some secret_key) = Inr ks"
    and t: "token = jwt_encode ?claims (access_signing ks)"
    using token by (auto simp: create_browser_access_token_def lift_key_def rbind_Inr_iff split: sum.splits)
  have "jwt_decode token (access_signing ks) ACCESS_TOKEN_AUDIENCE REQUIRED_CLAIMS = Some ?claims"
    unfolding t by (rule jwt)
  then show ?thesis
    using str by (simp add: decode_browser_access_token_def ks lift_key_def) (simp add: access_claims_def)
qed

theorem access_token_origin_bound_witness:
  "\<exists>token. create_browser_access_token (\<lambda>k i. i) (\<lambda>c k. json_text refresh_json (PDict c)) ''u'' ''d'' ''f'' ''https://a'' ''s'' 5 ''j'' = Inr token \<and>
     decode_browser_access_token (\<lambda>k i. i) (\<lambda>t k a r. Some (access_claims ''u'' ''d'' ''f'' ''https://a'' 5 ''j'')) str_of token ''s'' (Some ''https://b'') =
       Inl (BrowserAccessTokenError ''Browser access token origin mismatch'')"
proof -
  obtain token where t: "create_browser_access_token (\<lambda>k i. i) (\<lambda>c k. json_text refresh_json (PDict c)) ''u'' ''d'' ''f'' ''https://a'' ''s'' 5 ''j'' = Inr token"
    by (simp add: create_browser_access_token_def derive_browser_extension_keys_def derive_key_def lift_key_def)
  then show ?thesis
    using access_token_origin_bound [OF _ _ t, of "\<lambda>t k a r. Some (access_claims ''u'' ''d'' ''f'' ''https://a'' 5 ''j'')" str_of "''https://b''"] by simp
qed

end
