(* ===== verification/Browser_Store.thy ===== *)
theory Browser_Store
  imports Browser_Crypto
begin

section \<open>The tables of the browser extension (models/browser\_extension.py)\<close>

text \<open>
  The five tables as lists of rows in a record, each table method as one transaction: it
  returns its result and the database it commits, or an error, in which case nothing is
  committed. \<open>UPDATE \<dots> WHERE \<dots> RETURNING\<close> is \<open>update_where\<close>; \<open>scalar_one_or_none\<close> and
  the unique constraints are checked as SQLAlchemy and the database do. Fresh ids (\<open>uuid4\<close>)
  and the time in nanoseconds are arguments. Rows that an \<open>ORDER BY\<close> leaves tied stay in
  table order, on which no lemma depends.
\<close>

datatype db_error = IntegrityError | MultipleResultsFound | NotOwned string | InvalidRequestError

definition scalar_one_or_none :: "'r list \<Rightarrow> (db_error, 'r option) result" where
  "scalar_one_or_none rows = (case rows of [] \<Rightarrow> Inr None | [r] \<Rightarrow> Inr (Some r) | _ \<Rightarrow> Inl MultipleResultsFound)"

definition update_where :: "('r \<Rightarrow> bool) \<Rightarrow> ('r \<Rightarrow> 'r) \<Rightarrow> 'r list \<Rightarrow> 'r list" where
  "update_where P f rows = map (\<lambda>r. if P r then f r else r) rows"

text \<open>One guarded update: the rows it returns, the constraints of the table, the commit.\<close>

definition update_one ::
  "('r list \<Rightarrow> bool) \<Rightarrow> ('r \<Rightarrow> bool) \<Rightarrow> ('r \<Rightarrow> 'r) \<Rightarrow> 'r list \<Rightarrow> (db_error, 'r option \<times> 'r list) result" where
  "update_one unique P f rows =
     (if \<not> unique (update_where P f rows) then Inl IntegrityError
      else rbind (scalar_one_or_none (map f (filter P rows))) (\<lambda>row. Inr (row, update_where P f rows)))"

definition insert_one :: "('r list \<Rightarrow> bool) \<Rightarrow> 'r \<Rightarrow> 'r list \<Rightarrow> (db_error, 'r \<times> 'r list) result" where
  "insert_one unique row rows = (if unique (rows @ [row]) then Inr (row, rows @ [row]) else Inl IntegrityError)"

text \<open>\<open>ORDER BY key DESC\<close>.\<close>

definition order_desc :: "('r \<Rightarrow> 'k::linorder) \<Rightarrow> 'r list \<Rightarrow> 'r list" where
  "order_desc key rows = rev (sort_key key (rev rows))"

subsection \<open>Pairing grants\<close>

record pairing_grant =
  g_id :: string
  g_user_id :: "string option"
  device_code_hash :: string
  verifier_hash :: string
  requested_origin :: string
  g_device_label :: string
  g_extension_version :: string
  g_status :: string
  g_expires_at :: int
  consumed_at :: "int option"
  g_created_at :: int

definition grants_unique :: "pairing_grant list \<Rightarrow> bool" where
  "grants_unique rows \<longleftrightarrow> distinct (map g_id rows) \<and> distinct (map device_code_hash rows) \<and> distinct (map verifier_hash rows)"

definition grant_insert ::
  "string \<Rightarrow> int \<Rightarrow> string \<Rightarrow> string \<Rightarrow> string \<Rightarrow> int \<Rightarrow> string \<Rightarrow> string \<Rightarrow> string option \<Rightarrow> pairing_grant list \<Rightarrow>
   (db_error, pairing_grant \<times> pairing_grant list) result" where
  "grant_insert uuid now dch vh origin expires label version user rows =
     insert_one grants_unique \<lparr>g_id = uuid, g_user_id = user, device_code_hash = dch, verifier_hash = vh,
       requested_origin = origin, g_device_label = label, g_extension_version = version, g_status = ''pending'',
       g_expires_at = expires, consumed_at = None, g_created_at = now\<rparr> rows"

definition grant_get_by_id :: "pairing_grant list \<Rightarrow> string \<Rightarrow> pairing_grant option" where
  "grant_get_by_id rows grant_id = List.find (\<lambda>g. g_id g = grant_id) rows"

definition grant_get_by_device_code_hash :: "pairing_grant list \<Rightarrow> string \<Rightarrow> (db_error, pairing_grant option) result" where
  "grant_get_by_device_code_hash rows h = scalar_one_or_none (filter (\<lambda>g. device_code_hash g = h) rows)"

definition approve_guard :: "string \<Rightarrow> int \<Rightarrow> pairing_grant \<Rightarrow> bool" where
  "approve_guard grant_id now g \<longleftrightarrow> g_id g = grant_id \<and> g_status g = ''pending'' \<and> g_user_id g = None \<and> g_expires_at g > now"

definition grant_approve ::
  "string \<Rightarrow> string \<Rightarrow> int \<Rightarrow> pairing_grant list \<Rightarrow> (db_error, pairing_grant option \<times> pairing_grant list) result" where
  "grant_approve grant_id user_id now rows =
     update_one grants_unique (approve_guard grant_id now) (\<lambda>g. g\<lparr>g_user_id := Some user_id, g_status := ''approved''\<rparr>) rows"

definition deny_guard :: "string \<Rightarrow> int \<Rightarrow> pairing_grant \<Rightarrow> bool" where
  "deny_guard grant_id now g \<longleftrightarrow> g_id g = grant_id \<and> g_status g = ''pending'' \<and> g_expires_at g > now"

definition grant_deny ::
  "string \<Rightarrow> int \<Rightarrow> pairing_grant list \<Rightarrow> (db_error, pairing_grant option \<times> pairing_grant list) result" where
  "grant_deny grant_id now rows =
     update_one grants_unique (deny_guard grant_id now) (\<lambda>g. g\<lparr>g_status := ''denied''\<rparr>) rows"

definition consume_guard :: "string \<Rightarrow> string \<Rightarrow> int \<Rightarrow> pairing_grant \<Rightarrow> bool" where
  "consume_guard grant_id vh now g \<longleftrightarrow>
     g_id g = grant_id \<and> verifier_hash g = vh \<and> g_status g = ''approved'' \<and> consumed_at g = None \<and> g_expires_at g > now"

definition grant_consume ::
  "string \<Rightarrow> string \<Rightarrow> int \<Rightarrow> pairing_grant list \<Rightarrow> (db_error, pairing_grant option \<times> pairing_grant list) result" where
  "grant_consume grant_id vh now rows =
     update_one grants_unique (consume_guard grant_id vh now) (\<lambda>g. g\<lparr>g_status := ''consumed'', consumed_at := Some now\<rparr>) rows"

subsection \<open>Paired devices\<close>

record paired_device =
  d_id :: string
  d_user_id :: string
  d_label :: string
  refresh_token_hash :: string
  previous_refresh_token_hash :: "string option"
  rotated_at :: "int option"
  token_family_id :: string
  allowed_origin :: string
  d_extension_version :: string
  last_seen_at :: "int option"
  revoked_at :: "int option"
  d_created_at :: int
  d_updated_at :: int

definition devices_unique :: "paired_device list \<Rightarrow> bool" where
  "devices_unique rows \<longleftrightarrow>
     distinct (map d_id rows) \<and> distinct (map refresh_token_hash rows) \<and> distinct (map (\<lambda>d. (d_user_id d, d_label d)) rows)"

text \<open>\<open>device_id or str(uuid4())\<close>.\<close>

definition id_or_uuid :: "string option \<Rightarrow> string \<Rightarrow> string" where
  "id_or_uuid i uuid = (case i of None \<Rightarrow> uuid | Some s \<Rightarrow> if s = [] then uuid else s)"

definition device_insert ::
  "string \<Rightarrow> int \<Rightarrow> string option \<Rightarrow> string \<Rightarrow> string \<Rightarrow> string \<Rightarrow> string \<Rightarrow> string \<Rightarrow> string \<Rightarrow> paired_device list \<Rightarrow>
   (db_error, paired_device \<times> paired_device list) result" where
  "device_insert uuid now device_id user label token_hash family origin version rows =
     insert_one devices_unique \<lparr>d_id = id_or_uuid device_id uuid, d_user_id = user, d_label = label,
       refresh_token_hash = token_hash, previous_refresh_token_hash = None, rotated_at = None, token_family_id = family,
       allowed_origin = origin, d_extension_version = version, last_seen_at = Some now, revoked_at = None,
       d_created_at = now, d_updated_at = now\<rparr> rows"

definition device_get :: "paired_device list \<Rightarrow> string \<Rightarrow> string \<Rightarrow> (db_error, paired_device option) result" where
  "device_get rows device_id user_id = scalar_one_or_none (filter (\<lambda>d. d_id d = device_id \<and> d_user_id d = user_id) rows)"

definition device_get_active :: "paired_device list \<Rightarrow> string \<Rightarrow> (db_error, paired_device option) result" where
  "device_get_active rows device_id = scalar_one_or_none (filter (\<lambda>d. d_id d = device_id \<and> revoked_at d = None) rows)"

definition device_get_by_hash :: "paired_device list \<Rightarrow> string \<Rightarrow> (db_error, paired_device option) result" where
  "device_get_by_hash rows h = scalar_one_or_none (filter (\<lambda>d. refresh_token_hash d = h \<and> revoked_at d = None) rows)"

definition device_list :: "paired_device list \<Rightarrow> string \<Rightarrow> paired_device list" where
  "device_list rows user_id = order_desc d_created_at (filter (\<lambda>d. d_user_id d = user_id) rows)"

definition rotate_guard :: "string \<Rightarrow> string \<Rightarrow> string \<Rightarrow> paired_device \<Rightarrow> bool" where
  "rotate_guard device_id family current d \<longleftrightarrow>
     d_id d = device_id \<and> token_family_id d = family \<and> refresh_token_hash d = current \<and> revoked_at d = None"

definition rotated :: "string \<Rightarrow> string \<Rightarrow> string option \<Rightarrow> int \<Rightarrow> paired_device \<Rightarrow> paired_device" where
  "rotated current new version now d =
     d\<lparr>refresh_token_hash := new, previous_refresh_token_hash := Some current, rotated_at := Some now,
       last_seen_at := Some now, d_updated_at := now,
       d_extension_version := (case version of None \<Rightarrow> d_extension_version d | Some v \<Rightarrow> v)\<rparr>"

definition device_rotate ::
  "string \<Rightarrow> string \<Rightarrow> string \<Rightarrow> string \<Rightarrow> string option \<Rightarrow> int \<Rightarrow> paired_device list \<Rightarrow>
   (db_error, paired_device option \<times> paired_device list) result" where
  "device_rotate device_id family current new version now rows =
     update_one devices_unique (rotate_guard device_id family current) (rotated current new version now) rows"

definition owned_active :: "string \<Rightarrow> string \<Rightarrow> paired_device \<Rightarrow> bool" where
  "owned_active device_id user_id d \<longleftrightarrow> d_id d = device_id \<and> d_user_id d = user_id \<and> revoked_at d = None"

definition device_revoke ::
  "string \<Rightarrow> string \<Rightarrow> int \<Rightarrow> paired_device list \<Rightarrow> (db_error, paired_device option \<times> paired_device list) result" where
  "device_revoke device_id user_id now rows =
     update_one devices_unique (owned_active device_id user_id) (\<lambda>d. d\<lparr>revoked_at := Some now, d_updated_at := now\<rparr>) rows"

definition device_rename ::
  "string \<Rightarrow> string \<Rightarrow> string \<Rightarrow> int \<Rightarrow> paired_device list \<Rightarrow> (db_error, paired_device option \<times> paired_device list) result" where
  "device_rename device_id user_id label now rows =
     update_one devices_unique (owned_active device_id user_id) (\<lambda>d. d\<lparr>d_label := label, d_updated_at := now\<rparr>) rows"

definition restore_guard :: "string \<Rightarrow> string \<Rightarrow> string \<Rightarrow> int \<Rightarrow> paired_device \<Rightarrow> bool" where
  "restore_guard device_id family previous not_before d \<longleftrightarrow>
     d_id d = device_id \<and> token_family_id d = family \<and> previous_refresh_token_hash d = Some previous \<and>
     (case rotated_at d of None \<Rightarrow> False | Some t \<Rightarrow> t \<ge> not_before) \<and> revoked_at d = None"

definition device_restore ::
  "string \<Rightarrow> string \<Rightarrow> string \<Rightarrow> int \<Rightarrow> int \<Rightarrow> paired_device list \<Rightarrow>
   (db_error, paired_device option \<times> paired_device list) result" where
  "device_restore device_id family previous not_before now rows =
     update_one devices_unique (restore_guard device_id family previous not_before)
       (\<lambda>d. d\<lparr>refresh_token_hash := previous, previous_refresh_token_hash := None, rotated_at := None,
              last_seen_at := Some now, d_updated_at := now\<rparr>) rows"

definition in_family :: "string \<Rightarrow> paired_device \<Rightarrow> bool" where
  "in_family family d \<longleftrightarrow> token_family_id d = family \<and> revoked_at d = None"

definition device_revoke_family :: "string \<Rightarrow> int \<Rightarrow> paired_device list \<Rightarrow> nat \<times> paired_device list" where
  "device_revoke_family family now rows =
     (length (filter (in_family family) rows),
      update_where (in_family family) (\<lambda>d. d\<lparr>revoked_at := Some now, d_updated_at := now\<rparr>) rows)"

subsection \<open>Workflows\<close>

record workflow =
  w_id :: string
  w_user_id :: string
  w_name :: string
  encrypted_definition :: string
  definition_nonce :: string
  w_version :: int
  w_created_at :: int
  w_updated_at :: int

record schedule =
  s_id :: string
  s_user_id :: string
  s_workflow_id :: string
  s_device_id :: string
  s_name :: string
  rrule :: string
  timezone :: string
  is_active :: bool
  last_run_at :: "int option"
  next_run_at :: "int option"
  catch_up_pending :: bool
  s_created_at :: int
  s_updated_at :: int

record action_audit =
  a_id :: string
  a_user_id :: string
  a_device_id :: string
  a_session_id :: string
  a_chat_id :: "string option"
  a_command_id :: string
  a_action :: string
  a_origin :: string
  a_outcome :: string
  a_risk :: string
  a_summary :: string
  a_created_at :: int

record browser_db =
  grants :: "pairing_grant list"
  devices :: "paired_device list"
  workflows :: "workflow list"
  schedules :: "schedule list"
  audits :: "action_audit list"

definition workflows_unique :: "workflow list \<Rightarrow> bool" where
  "workflows_unique rows \<longleftrightarrow> distinct (map w_id rows)"

definition workflow_insert ::
  "string \<Rightarrow> int \<Rightarrow> string option \<Rightarrow> string \<Rightarrow> string \<Rightarrow> string \<Rightarrow> string \<Rightarrow> int \<Rightarrow> workflow list \<Rightarrow>
   (db_error, workflow \<times> workflow list) result" where
  "workflow_insert uuid now workflow_id user name enc nonce version rows =
     insert_one workflows_unique \<lparr>w_id = id_or_uuid workflow_id uuid, w_user_id = user, w_name = name,
       encrypted_definition = enc, definition_nonce = nonce, w_version = version, w_created_at = now, w_updated_at = now\<rparr> rows"

definition workflow_get :: "workflow list \<Rightarrow> string \<Rightarrow> string \<Rightarrow> (db_error, workflow option) result" where
  "workflow_get rows workflow_id user_id = scalar_one_or_none (filter (\<lambda>w. w_id w = workflow_id \<and> w_user_id w = user_id) rows)"

definition workflow_list :: "workflow list \<Rightarrow> string \<Rightarrow> workflow list" where
  "workflow_list rows user_id = order_desc w_updated_at (filter (\<lambda>w. w_user_id w = user_id) rows)"

definition version_guard :: "string \<Rightarrow> string \<Rightarrow> int \<Rightarrow> workflow \<Rightarrow> bool" where
  "version_guard workflow_id user_id expected w \<longleftrightarrow> w_id w = workflow_id \<and> w_user_id w = user_id \<and> w_version w = expected"

definition workflow_update ::
  "string \<Rightarrow> string \<Rightarrow> int \<Rightarrow> string \<Rightarrow> string \<Rightarrow> string \<Rightarrow> int \<Rightarrow> workflow list \<Rightarrow>
   (db_error, workflow option \<times> workflow list) result" where
  "workflow_update workflow_id user_id expected name enc nonce now rows =
     update_one workflows_unique (version_guard workflow_id user_id expected)
       (\<lambda>w. w\<lparr>w_name := name, encrypted_definition := enc, definition_nonce := nonce, w_version := expected + 1,
              w_updated_at := now\<rparr>) rows"

definition workflow_delete :: "string \<Rightarrow> string \<Rightarrow> browser_db \<Rightarrow> bool \<times> browser_db" where
  "workflow_delete workflow_id user_id db =
     (let owned = (\<lambda>w. w_id w = workflow_id \<and> w_user_id w = user_id)
      in (filter owned (workflows db) \<noteq> [],
          db\<lparr>schedules := filter (\<lambda>s. \<not> (s_workflow_id s = workflow_id \<and> s_user_id s = user_id)) (schedules db),
             workflows := filter (\<lambda>w. \<not> owned w) (workflows db)\<rparr>))"

subsection \<open>Schedules\<close>

definition schedules_unique :: "schedule list \<Rightarrow> bool" where
  "schedules_unique rows \<longleftrightarrow> distinct (map s_id rows)"

text \<open>The ownership test both \<open>insert\<close> and \<open>update\<close> make (\<open>session.scalar\<close> takes a first row).\<close>

definition owns_workflow_and_device :: "browser_db \<Rightarrow> string \<Rightarrow> string \<Rightarrow> string \<Rightarrow> bool" where
  "owns_workflow_and_device db user_id workflow_id device_id \<longleftrightarrow>
     list_ex (\<lambda>w. w_id w = workflow_id \<and> w_user_id w = user_id) (workflows db) \<and>
     list_ex (owned_active device_id user_id) (devices db)"

definition schedule_insert ::
  "string \<Rightarrow> int \<Rightarrow> string \<Rightarrow> string \<Rightarrow> string \<Rightarrow> string \<Rightarrow> string \<Rightarrow> string \<Rightarrow> int option \<Rightarrow> bool \<Rightarrow> bool \<Rightarrow> browser_db \<Rightarrow>
   (db_error, schedule \<times> browser_db) result" where
  "schedule_insert uuid now user_id workflow_id device_id name rule tz next_run active catch_up db =
     (if \<not> owns_workflow_and_device db user_id workflow_id device_id
      then Inl (NotOwned ''Workflow and active device must be owned by the user'')
      else rbind (insert_one schedules_unique \<lparr>s_id = uuid, s_user_id = user_id, s_workflow_id = workflow_id,
             s_device_id = device_id, s_name = name, rrule = rule, timezone = tz, is_active = active, last_run_at = None,
             next_run_at = next_run, catch_up_pending = catch_up, s_created_at = now, s_updated_at = now\<rparr> (schedules db))
           (\<lambda>(row, rows). Inr (row, db\<lparr>schedules := rows\<rparr>)))"

definition owned_schedule :: "string \<Rightarrow> string \<Rightarrow> schedule \<Rightarrow> bool" where
  "owned_schedule schedule_id user_id s \<longleftrightarrow> s_id s = schedule_id \<and> s_user_id s = user_id"

definition schedule_get :: "schedule list \<Rightarrow> string \<Rightarrow> string \<Rightarrow> (db_error, schedule option) result" where
  "schedule_get rows schedule_id user_id = scalar_one_or_none (filter (owned_schedule schedule_id user_id) rows)"

definition schedule_list :: "schedule list \<Rightarrow> string \<Rightarrow> schedule list" where
  "schedule_list rows user_id = order_desc s_created_at (filter (\<lambda>s. s_user_id s = user_id) rows)"

definition schedule_due :: "int \<Rightarrow> string option \<Rightarrow> schedule \<Rightarrow> bool" where
  "schedule_due now device_id s \<longleftrightarrow>
     is_active s \<and> (case next_run_at s of None \<Rightarrow> False | Some t \<Rightarrow> t \<le> now) \<and>
     (case device_id of None \<Rightarrow> True | Some d \<Rightarrow> s_device_id s = d)"

definition list_due :: "schedule list \<Rightarrow> int \<Rightarrow> string option \<Rightarrow> nat \<Rightarrow> schedule list" where
  "list_due rows now device_id n =
     take n (sort_key (\<lambda>s. case next_run_at s of None \<Rightarrow> 0 | Some t \<Rightarrow> t) (filter (schedule_due now device_id) rows))"

definition schedule_update ::
  "string \<Rightarrow> string \<Rightarrow> string \<Rightarrow> string \<Rightarrow> string \<Rightarrow> string \<Rightarrow> string \<Rightarrow> bool \<Rightarrow> int option \<Rightarrow> int \<Rightarrow> browser_db \<Rightarrow>
   (db_error, schedule option \<times> browser_db) result" where
  "schedule_update schedule_id user_id workflow_id device_id name rule tz active next_run now db =
     (if \<not> owns_workflow_and_device db user_id workflow_id device_id
      then Inl (NotOwned ''Workflow and active device must be owned by the user'')
      else rbind (update_one schedules_unique (owned_schedule schedule_id user_id)
             (\<lambda>s. s\<lparr>s_workflow_id := workflow_id, s_device_id := device_id, s_name := name, rrule := rule, timezone := tz,
                    is_active := active, next_run_at := next_run, catch_up_pending := False, s_updated_at := now\<rparr>) (schedules db))
           (\<lambda>(row, rows). Inr (row, db\<lparr>schedules := rows\<rparr>)))"

definition mark_run_guard :: "string \<Rightarrow> string \<Rightarrow> int \<Rightarrow> schedule \<Rightarrow> bool" where
  "mark_run_guard schedule_id user_id run_at s \<longleftrightarrow>
     s_id s = schedule_id \<and> s_user_id s = user_id \<and> is_active s \<and>
     (case last_run_at s of None \<Rightarrow> True | Some t \<Rightarrow> t < run_at)"

definition schedule_mark_run ::
  "string \<Rightarrow> string \<Rightarrow> int \<Rightarrow> int \<Rightarrow> int \<Rightarrow> schedule list \<Rightarrow> (db_error, schedule option \<times> schedule list) result" where
  "schedule_mark_run schedule_id user_id run_at next now rows =
     update_one schedules_unique (mark_run_guard schedule_id user_id run_at)
       (\<lambda>s. s\<lparr>last_run_at := Some run_at, next_run_at := Some next, catch_up_pending := False, s_updated_at := now\<rparr>) rows"

definition schedule_delete :: "string \<Rightarrow> string \<Rightarrow> schedule list \<Rightarrow> bool \<times> schedule list" where
  "schedule_delete schedule_id user_id rows =
     (filter (owned_schedule schedule_id user_id) rows \<noteq> [], filter (\<lambda>s. \<not> owned_schedule schedule_id user_id s) rows)"

subsection \<open>The audit log\<close>

definition audits_unique :: "action_audit list \<Rightarrow> bool" where
  "audits_unique rows \<longleftrightarrow> distinct (map a_id rows)"

text \<open>The ids \<open>ORDER BY created_at DESC, id DESC OFFSET keep\<close> selects.\<close>

definition stale_audit_ids :: "string \<Rightarrow> nat \<Rightarrow> action_audit list \<Rightarrow> string list" where
  "stale_audit_ids user_id keep rows =
     map a_id (drop keep (order_desc (\<lambda>a. (a_created_at a, a_id a)) (filter (\<lambda>a. a_user_id a = user_id) rows)))"

text \<open>
  \<open>session.refresh(row)\<close> after the commit fails when the pruning deleted the new row itself,
  which stays committed as deleted.
\<close>

definition audit_insert ::
  "string \<Rightarrow> int \<Rightarrow> string \<Rightarrow> string \<Rightarrow> string \<Rightarrow> string option \<Rightarrow> string \<Rightarrow> string \<Rightarrow> string \<Rightarrow> string \<Rightarrow> string \<Rightarrow> string \<Rightarrow> int \<Rightarrow>
   action_audit list \<Rightarrow> (db_error, action_audit) result \<times> action_audit list" where
  "audit_insert uuid now user device session chat command action origin outcome risk summary retention rows =
     (let row = \<lparr>a_id = uuid, a_user_id = user, a_device_id = device, a_session_id = session, a_chat_id = chat,
            a_command_id = command, a_action = redact_string action, a_origin = redact_string origin, a_outcome = outcome,
            a_risk = risk, a_summary = redact_string summary, a_created_at = now\<rparr>
      in case insert_one audits_unique row rows of
           Inl e \<Rightarrow> (Inl e, rows)
         | Inr (_, rows1) \<Rightarrow>
             (let stale = stale_audit_ids user (nat (max 1 retention)) rows1;
                  rows2 = filter (\<lambda>a. \<not> List.member stale (a_id a)) rows1
              in (if List.member stale uuid then Inl InvalidRequestError else Inr row, rows2)))"

definition audit_list :: "action_audit list \<Rightarrow> string \<Rightarrow> nat \<Rightarrow> action_audit list" where
  "audit_list rows user_id n = take n (order_desc (\<lambda>a. (a_created_at a, a_id a)) (filter (\<lambda>a. a_user_id a = user_id) rows))"

section \<open>Guarded updates of one row\<close>

text \<open>
  What the clients of the tables rely on when they race on a row: an update whose guard pins
  the primary key changes at most that row and never finds several (\<open>row_update\<close>), and when
  the update switches its own guard off it succeeds at most once (\<open>once_update\<close>).
\<close>

lemma set_update_where: "set (update_where P f rows) = f ` {r \<in> set rows. P r} \<union> {r \<in> set rows. \<not> P r}"
  by (auto simp: update_where_def)

lemma map_update_where: "(\<And>r. P r \<Longrightarrow> k (f r) = k r) \<Longrightarrow> map k (update_where P f rows) = map k rows"
  by (auto simp: update_where_def)

lemma update_where_none: "filter P rows = [] \<Longrightarrow> update_where P f rows = rows"
  by (induction rows) (auto simp: update_where_def split: if_splits)

lemma update_one_InrD:
  "update_one unique P f rows = Inr (res, rows') \<Longrightarrow> unique rows' \<and> rows' = update_where P f rows"
  by (auto simp: update_one_def rbind_Inr_iff split: if_splits)

lemma insert_one_InrD: "insert_one unique r rows = Inr (x, rows') \<Longrightarrow> unique rows' \<and> rows' = rows @ [r] \<and> x = r"
  by (auto simp: insert_one_def split: if_splits)

locale row_update =
  fixes unique :: "'r list \<Rightarrow> bool" and key :: "'r \<Rightarrow> string"
    and guard :: "'a \<Rightarrow> 'r \<Rightarrow> bool" and upd :: "'a \<Rightarrow> 'r \<Rightarrow> 'r" and target :: "'a \<Rightarrow> string"
  assumes unique_key: "unique rows \<Longrightarrow> distinct (map key rows)"
    and guard_target: "guard a r \<Longrightarrow> key r = target a"
    and upd_key: "key (upd a r) = key r"
begin

lemma filter_guard:
  assumes "unique rows"
  shows "filter (guard a) rows = [] \<or> (\<exists>r \<in> set rows. guard a r \<and> filter (guard a) rows = [r])"
proof (cases "\<exists>r \<in> set rows. guard a r")
  case True
  then obtain r where r: "r \<in> set rows" "guard a r" by blast
  have "filter (guard a) rows = filter (\<lambda>x. key x = target a \<and> guard a x) rows"
    by (rule filter_cong) (auto simp: guard_target)
  then have "length (filter (guard a) rows) \<le> 1"
    using filter_pk_singleton [OF unique_key [OF assms]] by simp
  moreover have "r \<in> set (filter (guard a) rows)" using r by simp
  ultimately have "filter (guard a) rows = [r]" by (cases "filter (guard a) rows") auto
  with r show ?thesis by blast
qed (auto simp: filter_empty_conv)

text \<open>The four outcomes of an update collapse to three: several rows are never found.\<close>

lemma outcomes:
  assumes "unique rows"
  shows "update_one unique (guard a) (upd a) rows = Inl IntegrityError \<or>
    update_one unique (guard a) (upd a) rows = Inr (None, rows) \<and> (\<forall>r \<in> set rows. \<not> guard a r) \<or>
    (\<exists>r \<in> set rows. guard a r \<and>
       update_one unique (guard a) (upd a) rows = Inr (Some (upd a r), update_where (guard a) (upd a) rows))"
  using filter_guard [OF assms, of a] assms
  by (auto simp: update_one_def scalar_one_or_none_def update_where_none filter_empty_conv)

lemma success:
  assumes "unique rows" "update_one unique (guard a) (upd a) rows = Inr (Some x, rows')"
  obtains r where "r \<in> set rows" "guard a r" "x = upd a r" "x \<in> set rows'"
proof -
  from outcomes [OF assms(1), of a] assms(2) obtain r where "r \<in> set rows" "guard a r" "x = upd a r"
    "rows' = update_where (guard a) (upd a) rows" by auto
  then show thesis by (intro that) (auto simp: set_update_where)
qed

text \<open>Rows with other keys are untouched.\<close>

lemma frame:
  "update_one unique (guard a) (upd a) rows = Inr (res, rows') \<Longrightarrow> key r \<noteq> target a \<Longrightarrow> r \<in> set rows' \<longleftrightarrow> r \<in> set rows"
  by (auto dest!: update_one_InrD guard_target simp: set_update_where upd_key)

end

locale once_update = row_update +
  assumes upd_off: "guard a r \<Longrightarrow> target b = target a \<Longrightarrow> \<not> guard b (upd a r)"
begin

lemma once:
  assumes "unique rows" "update_one unique (guard a) (upd a) rows = Inr (Some x, rows')" "target b = target a"
  shows "update_one unique (guard b) (upd b) rows' = Inr (None, rows')"
proof -
  have u: "unique rows'" using update_one_InrD [OF assms(2)] ..
  obtain r where r: "r \<in> set rows" "guard a r" "x = upd a r" "x \<in> set rows'" using success [OF assms(1,2)] .
  have "\<not> guard b y" if "y \<in> set rows'" for y
  proof
    assume g: "guard b y"
    then have "key y = key x" using r assms(3) by (simp add: guard_target upd_key)
    then have "y = x" using that r(4) unique_key [OF u] by (auto simp: distinct_map dest: inj_onD)
    with g r assms(3) show False by (simp add: upd_off)
  qed
  then have "filter (guard b) rows' = []" by (simp add: filter_empty_conv)
  then show ?thesis using u by (simp add: update_one_def update_where_none scalar_one_or_none_def)
qed

end

interpretation approve: once_update grants_unique g_id "\<lambda>(g, u, now). approve_guard g now"
  "\<lambda>(g, u, now) r. r\<lparr>g_user_id := Some u, g_status := ''approved''\<rparr>" "\<lambda>(g, u, now). g"
  by unfold_locales (auto simp: grants_unique_def approve_guard_def)

interpretation deny: once_update grants_unique g_id "\<lambda>(g, now). deny_guard g now"
  "\<lambda>(g, now) r. r\<lparr>g_status := ''denied''\<rparr>" "\<lambda>(g, now). g"
  by unfold_locales (auto simp: grants_unique_def deny_guard_def)

interpretation consume: once_update grants_unique g_id "\<lambda>(g, vh, now). consume_guard g vh now"
  "\<lambda>(g, vh, now) r. r\<lparr>g_status := ''consumed'', consumed_at := Some now\<rparr>" "\<lambda>(g, vh, now). g"
  by unfold_locales (auto simp: grants_unique_def consume_guard_def)

interpretation revoke: once_update devices_unique d_id "\<lambda>(d, u, now). owned_active d u"
  "\<lambda>(d, u, now) r. r\<lparr>revoked_at := Some now, d_updated_at := now\<rparr>" "\<lambda>(d, u, now). d"
  by unfold_locales (auto simp: devices_unique_def owned_active_def)

interpretation rename: row_update devices_unique d_id "\<lambda>(d, u, label, now). owned_active d u"
  "\<lambda>(d, u, label, now) r. r\<lparr>d_label := label, d_updated_at := now\<rparr>" "\<lambda>(d, u, label, now). d"
  by unfold_locales (auto simp: devices_unique_def owned_active_def)

interpretation rotate: row_update devices_unique d_id "\<lambda>(d, fam, cur, new, v, now). rotate_guard d fam cur"
  "\<lambda>(d, fam, cur, new, v, now). rotated cur new v now" "\<lambda>(d, fam, cur, new, v, now). d"
  by unfold_locales (auto simp: devices_unique_def rotate_guard_def rotated_def)

interpretation restore: row_update devices_unique d_id "\<lambda>(d, fam, prev, nb, now). restore_guard d fam prev nb"
  "\<lambda>(d, fam, prev, nb, now) r. r\<lparr>refresh_token_hash := prev, previous_refresh_token_hash := None, rotated_at := None,
              last_seen_at := Some now, d_updated_at := now\<rparr>" "\<lambda>(d, fam, prev, nb, now). d"
  by unfold_locales (auto simp: devices_unique_def restore_guard_def)

interpretation wf_update: row_update workflows_unique w_id "\<lambda>(w, u, v, name, enc, nonce, now). version_guard w u v"
  "\<lambda>(w, u, v, name, enc, nonce, now) r. r\<lparr>w_name := name, encrypted_definition := enc, definition_nonce := nonce,
     w_version := v + 1, w_updated_at := now\<rparr>" "\<lambda>(w, u, v, name, enc, nonce, now). w"
  by unfold_locales (auto simp: workflows_unique_def version_guard_def)

interpretation mark_run: row_update schedules_unique s_id "\<lambda>(s, u, run_at, next, now). mark_run_guard s u run_at"
  "\<lambda>(s, u, run_at, next, now) r. r\<lparr>last_run_at := Some run_at, next_run_at := Some next, catch_up_pending := False,
     s_updated_at := now\<rparr>" "\<lambda>(s, u, run_at, next, now). s"
  by unfold_locales (auto simp: schedules_unique_def mark_run_guard_def)

section \<open>Histories of the grant table\<close>

text \<open>
  Every call the server makes on the grant table. A call that raises commits nothing. Calls
  of concurrent requests are serialised by the database, in any order.
\<close>

datatype grant_call =
    GInsert string int string string string int string string
  | GApprove string string int
  | GDeny string int
  | GConsume string string int

fun grant_exec :: "grant_call \<Rightarrow> pairing_grant list \<Rightarrow> (db_error, pairing_grant option \<times> pairing_grant list) result" where
  "grant_exec (GInsert uuid now dch vh origin expires label version) rows =
     rbind (grant_insert uuid now dch vh origin expires label version None rows) (\<lambda>(r, rows'). Inr (Some r, rows'))"
| "grant_exec (GApprove g u now) rows = grant_approve g u now rows"
| "grant_exec (GDeny g now) rows = grant_deny g now rows"
| "grant_exec (GConsume g vh now) rows = grant_consume g vh now rows"

text \<open>The calls of a history that returned a row, with the row, and the table they leave.\<close>

fun grant_history :: "pairing_grant list \<Rightarrow> grant_call list \<Rightarrow> (grant_call \<times> pairing_grant) list \<times> pairing_grant list" where
  "grant_history rows [] = ([], rows)"
| "grant_history rows (c # cs) = (case grant_exec c rows of
      Inl _ \<Rightarrow> grant_history rows cs
    | Inr (res, rows') \<Rightarrow>
        (let (h, rows'') = grant_history rows' cs in (case res of None \<Rightarrow> h | Some r \<Rightarrow> (c, r) # h, rows'')))"

definition consumes :: "string \<Rightarrow> grant_call \<times> pairing_grant \<Rightarrow> bool" where
  "consumes gid e = (case fst e of GConsume g vh now \<Rightarrow> g = gid | _ \<Rightarrow> False)"

definition is_consumed :: "string \<Rightarrow> pairing_grant list \<Rightarrow> bool" where
  "is_consumed gid rows \<longleftrightarrow> (\<exists>r \<in> set rows. g_id r = gid \<and> g_status r = ''consumed'')"

lemmas grant_ops = grant_insert_def grant_approve_def grant_deny_def grant_consume_def
lemmas grant_guards = approve_guard_def deny_guard_def consume_guard_def

lemma grant_exec_unique: "grant_exec c rows = Inr (res, rows') \<Longrightarrow> grants_unique rows'"
  by (cases c) (auto simp: grant_ops rbind_Inr_iff dest: update_one_InrD insert_one_InrD)

text \<open>A consumed grant stays as it is.\<close>

lemma grant_exec_keeps:
  assumes "grant_exec c rows = Inr (res, rows')" and "r \<in> set rows" and "g_status r = ''consumed''"
  shows "r \<in> set rows'"
  using assms by (cases c)
    (auto simp: grant_ops grant_guards rbind_Inr_iff set_update_where dest!: update_one_InrD insert_one_InrD)

lemma grant_exec_consume:
  assumes "grants_unique rows" and "grant_exec (GConsume gid vh now) rows = Inr (Some r, rows')"
  shows "\<not> is_consumed gid rows" and "is_consumed gid rows'"
proof -
  from consume.success [OF assms(1), of "(gid, vh, now)" r rows'] assms(2)
  obtain r0 where r0: "r0 \<in> set rows" "consume_guard gid vh now r0" "r \<in> set rows'"
    "r = r0\<lparr>g_status := ''consumed'', consumed_at := Some now\<rparr>"
    by (auto simp: grant_consume_def)
  then show "is_consumed gid rows'" unfolding is_consumed_def
    by (intro bexI [of _ r]) (simp_all add: consume_guard_def)
  show "\<not> is_consumed gid rows"
  proof
    assume "is_consumed gid rows"
    then obtain q where q: "q \<in> set rows" "g_id q = gid" "g_status q = ''consumed''" by (auto simp: is_consumed_def)
    have "g_id r0 = gid" using r0(2) by (simp add: consume_guard_def)
    then have "q = r0" using q r0(1) assms(1) by (auto simp: grants_unique_def distinct_map dest: inj_onD)
    then show False using q(3) r0(2) by (simp add: consume_guard_def)
  qed
qed

lemma consume_count:
  "grants_unique rows \<Longrightarrow>
   length (filter (consumes gid) (fst (grant_history rows cs))) \<le> (if is_consumed gid rows then 0 else 1)"
proof (induction cs arbitrary: rows)
  case (Cons c cs)
  show ?case
  proof (cases "grant_exec c rows")
    case (Inl e)
    then show ?thesis using Cons by simp
  next
    case (Inr p)
    obtain res rows' where p: "grant_exec c rows = Inr (res, rows')" using Inr by (cases p) simp
    note ih = Cons.IH [OF grant_exec_unique [OF p]]
    have keep: "is_consumed gid rows \<Longrightarrow> is_consumed gid rows'"
      using grant_exec_keeps [OF p] by (auto simp: is_consumed_def)
    show ?thesis
    proof (cases "\<exists>r. res = Some r \<and> consumes gid (c, r)")
      case True
      then obtain r vh now where r: "res = Some r" "c = GConsume gid vh now"
        by (auto simp: consumes_def split: grant_call.splits)
      have "\<not> is_consumed gid rows" "is_consumed gid rows'"
        using grant_exec_consume [OF Cons.prems p [unfolded r]] by auto
      then show ?thesis using ih p r by (simp add: split_beta consumes_def)
    next
      case False
      then have "filter (consumes gid) (fst (grant_history rows (c # cs))) = filter (consumes gid) (fst (grant_history rows' cs))"
        using p by (simp add: split_beta split: option.splits)
      then show ?thesis using ih keep by (auto split: if_splits)
    qed
  qed
qed simp

text \<open>A pairing grant is redeemed at most once: in every history of calls on the grant table, by
  any number of racing requests, at most one \<open>consume\<close> of a grant returns it.\<close>

theorem grant_consumed_once:
  assumes "grants_unique rows"
  shows "length (filter (consumes gid) (fst (grant_history rows cs))) \<le> 1"
  using consume_count [OF assms, of gid cs] by (auto split: if_splits)

definition sample_grant_calls :: "grant_call list" where
  "sample_grant_calls = [GInsert ''g'' 1 ''d'' ''v'' ''o'' 100 ''l'' ''1'', GApprove ''g'' ''u'' 2,
     GConsume ''g'' ''v'' 3, GConsume ''g'' ''v'' 4]"

lemmas grant_eval = grant_ops grant_guards insert_one_def update_one_def update_where_def grants_unique_def
  scalar_one_or_none_def

theorem grant_consumed_once_witness:
  "length (filter (consumes ''g'') (fst (grant_history [] sample_grant_calls))) \<le> 1 \<and>
   filter (consumes ''g'') (fst (grant_history [] sample_grant_calls)) \<noteq> []"
  using grant_consumed_once [of "[]" "''g''" sample_grant_calls]
  by (simp add: grants_unique_def) (simp add: sample_grant_calls_def grant_eval consumes_def)

text \<open>Approved and consumed grants carry the user of an approval in the history.\<close>

definition approvals_known :: "grant_call list \<Rightarrow> pairing_grant list \<Rightarrow> bool" where
  "approvals_known cs rows \<longleftrightarrow>
     (\<forall>r \<in> set rows. g_status r \<in> {''approved'', ''consumed''} \<longrightarrow>
        (\<exists>u now. g_user_id r = Some u \<and> GApprove (g_id r) u now \<in> set cs \<and> now < g_expires_at r))"

lemma approvals_known_step:
  assumes "approvals_known cs rows" and "grant_exec c rows = Inr (res, rows')"
  shows "approvals_known (cs @ [c]) rows'"
  using assms by (cases c)
    (fastforce simp: approvals_known_def grant_ops grant_guards rbind_Inr_iff set_update_where dest!: update_one_InrD insert_one_InrD)+

lemma approvals_known_more: "approvals_known cs rows \<Longrightarrow> approvals_known (cs @ [c]) rows"
  by (fastforce simp: approvals_known_def)

lemma history_approved:
  assumes "approvals_known done rows" and "grants_unique rows"
    and "(GConsume gid vh now, r) \<in> set (fst (grant_history rows cs))"
  shows "\<exists>u t. g_user_id r = Some u \<and> GApprove gid u t \<in> set (done @ cs) \<and> t < g_expires_at r \<and> now < g_expires_at r \<and>
    verifier_hash r = vh"
  using assms
proof (induction cs arbitrary: rows "done")
  case (Cons c cs)
  show ?case
  proof (cases "grant_exec c rows")
    case (Inl e)
    then show ?thesis using Cons.IH [OF approvals_known_more [OF Cons.prems(1), of c] Cons.prems(2)] Cons.prems(3) by simp
  next
    case (Inr p)
    obtain res rows' where p: "grant_exec c rows = Inr (res, rows')" using Inr by (cases p) simp
    note ih = Cons.IH [OF approvals_known_step [OF Cons.prems(1) p] grant_exec_unique [OF p]]
    show ?thesis
    proof (cases "res = Some r \<and> c = GConsume gid vh now")
      case True
      then obtain r0 where r0: "r0 \<in> set rows" "consume_guard gid vh now r0"
        "r = r0\<lparr>g_status := ''consumed'', consumed_at := Some now\<rparr>"
        using consume.success [OF Cons.prems(2), of "(gid, vh, now)" r rows'] p by (auto simp: grant_consume_def)
      then show ?thesis using Cons.prems(1) by (fastforce simp: approvals_known_def consume_guard_def)
    next
      case False
      then have "(GConsume gid vh now, r) \<in> set (fst (grant_history rows' cs))"
        using Cons.prems(3) p by (auto simp: split_beta split: option.splits)
      then show ?thesis using ih by auto
    qed
  qed
qed simp

text \<open>A device is paired only after a user approved the very grant: from an empty table, whenever
  \<open>consume\<close> returns a grant, the history holds an approval of this grant by the user the
  grant carries, made before it expired, and the caller proved the verifier in time.\<close>

theorem consume_needs_approval:
  assumes "(GConsume gid vh now, r) \<in> set (fst (grant_history [] cs))"
  shows "\<exists>u t. g_user_id r = Some u \<and> GApprove gid u t \<in> set cs \<and> t < g_expires_at r \<and> now < g_expires_at r \<and>
    verifier_hash r = vh"
  using history_approved [of "[]" "[]" gid vh now r cs] assms by (simp add: approvals_known_def grants_unique_def)

theorem consume_needs_approval_witness:
  "\<exists>r. (GConsume ''g'' ''v'' 3, r) \<in> set (fst (grant_history [] sample_grant_calls)) \<and> g_user_id r = Some ''u''"
proof -
  obtain r where r: "(GConsume ''g'' ''v'' 3, r) \<in> set (fst (grant_history [] sample_grant_calls))"
    by (simp add: sample_grant_calls_def grant_eval)
  from consume_needs_approval [OF this] have "g_user_id r = Some ''u''" by (auto simp: sample_grant_calls_def)
  with r show ?thesis by blast
qed

section \<open>Histories of the device table\<close>

datatype device_call =
    DInsert string int "string option" string string string string string string
  | DRotate string string string string "string option" int
  | DRevoke string string int
  | DRename string string string int
  | DRestore string string string int int
  | DRevokeFamily string int

fun device_exec :: "device_call \<Rightarrow> paired_device list \<Rightarrow> (db_error, paired_device list) result" where
  "device_exec (DInsert uuid now i user label h fam origin v) rows =
     rbind (device_insert uuid now i user label h fam origin v rows) (\<lambda>(_, rows'). Inr rows')"
| "device_exec (DRotate d fam cur new v now) rows = rbind (device_rotate d fam cur new v now rows) (\<lambda>(_, rows'). Inr rows')"
| "device_exec (DRevoke d u now) rows = rbind (device_revoke d u now rows) (\<lambda>(_, rows'). Inr rows')"
| "device_exec (DRename d u label now) rows = rbind (device_rename d u label now rows) (\<lambda>(_, rows'). Inr rows')"
| "device_exec (DRestore d fam prev nb now) rows = rbind (device_restore d fam prev nb now rows) (\<lambda>(_, rows'). Inr rows')"
| "device_exec (DRevokeFamily fam now) rows = Inr (snd (device_revoke_family fam now rows))"

fun device_history :: "paired_device list \<Rightarrow> device_call list \<Rightarrow> paired_device list" where
  "device_history rows [] = rows"
| "device_history rows (c # cs) =
     (case device_exec c rows of Inl _ \<Rightarrow> device_history rows cs | Inr rows' \<Rightarrow> device_history rows' cs)"

lemmas device_ops = device_insert_def device_rotate_def device_revoke_def device_rename_def device_restore_def
  device_revoke_family_def
lemmas device_guards = rotate_guard_def owned_active_def restore_guard_def in_family_def

lemma device_revoke_family_unique: "devices_unique rows \<Longrightarrow> devices_unique (snd (device_revoke_family fam now rows))"
  by (simp add: device_revoke_family_def devices_unique_def map_update_where)

lemma device_exec_unique: "devices_unique rows \<Longrightarrow> device_exec c rows = Inr rows' \<Longrightarrow> devices_unique rows'"
proof (cases c)
  case (DRevokeFamily fam now)
  then show "devices_unique rows \<Longrightarrow> device_exec c rows = Inr rows' \<Longrightarrow> devices_unique rows'"
    using device_revoke_family_unique by auto
qed (auto simp: device_ops rbind_Inr_iff dest: update_one_InrD insert_one_InrD)

lemma device_exec_revoked:
  "device_exec c rows = Inr rows' \<Longrightarrow> d \<in> set rows \<Longrightarrow> revoked_at d \<noteq> None \<Longrightarrow> d \<in> set rows'"
  by (cases c) (auto simp: device_ops device_guards rbind_Inr_iff set_update_where dest!: update_one_InrD insert_one_InrD)

lemma device_history_laws:
  "devices_unique rows \<Longrightarrow> devices_unique (device_history rows cs)"
  "d \<in> set rows \<Longrightarrow> revoked_at d \<noteq> None \<Longrightarrow> d \<in> set (device_history rows cs)"
  by (induction cs arbitrary: rows) (auto split: sum.splits dest: device_exec_unique device_exec_revoked)

text \<open>Revocation is final: a revoked device row is never changed again by any sequence of
  insertions, rotations, renames, restores and revocations, so the device is never found as
  active and its refresh credential never authenticates.\<close>

theorem revoked_device_is_final:
  assumes "devices_unique rows" and "d \<in> set rows" and "revoked_at d \<noteq> None"
  shows "d \<in> set (device_history rows cs) \<and> device_get_active (device_history rows cs) (d_id d) = Inr None \<and>
    device_get_by_hash (device_history rows cs) (refresh_token_hash d) = Inr None"
proof -
  let ?rows = "device_history rows cs"
  have u: "devices_unique ?rows" and d: "d \<in> set ?rows" using assms device_history_laws by auto
  have "e = d" if "e \<in> set ?rows" "d_id e = d_id d \<or> refresh_token_hash e = refresh_token_hash d" for e
    using that d u by (auto simp: devices_unique_def distinct_map dest: inj_onD)
  then have "filter (\<lambda>e. d_id e = d_id d \<and> revoked_at e = None) ?rows = []"
    "filter (\<lambda>e. refresh_token_hash e = refresh_token_hash d \<and> revoked_at e = None) ?rows = []"
    using assms(3) by (fastforce simp: filter_empty_conv)+
  then show ?thesis using d by (simp add: device_get_active_def device_get_by_hash_def scalar_one_or_none_def)
qed

definition sample_device :: paired_device where
  "sample_device = \<lparr>d_id = ''d'', d_user_id = ''u'', d_label = ''l'', refresh_token_hash = ''h'',
     previous_refresh_token_hash = Some ''p'', rotated_at = Some 1, token_family_id = ''f'', allowed_origin = ''o'',
     d_extension_version = ''1'', last_seen_at = Some 1, revoked_at = Some 5, d_created_at = 0, d_updated_at = 5\<rparr>"

theorem revoked_device_is_final_witness:
  "sample_device \<in> set (device_history [sample_device] [DRestore ''d'' ''f'' ''p'' 0 6, DRotate ''d'' ''f'' ''h'' ''n'' None 7])"
  using revoked_device_is_final [of "[sample_device]" sample_device "[DRestore ''d'' ''f'' ''p'' 0 6, DRotate ''d'' ''f'' ''h'' ''n'' None 7]"]
  by (simp add: devices_unique_def) (simp add: sample_device_def)

section \<open>Schedules belong to workflows\<close>

text \<open>Every schedule names a workflow of its own user.\<close>

definition schedules_owned :: "browser_db \<Rightarrow> bool" where
  "schedules_owned db \<longleftrightarrow>
     (\<forall>s \<in> set (schedules db). (s_workflow_id s, s_user_id s) \<in> (\<lambda>w. (w_id w, w_user_id w)) ` set (workflows db))"

datatype plan_call =
    PWorkflowInsert string int "string option" string string string string int
  | PWorkflowUpdate string string int string string string int
  | PWorkflowDelete string string
  | PScheduleInsert string int string string string string string string "int option" bool bool
  | PScheduleUpdate string string string string string string string bool "int option" int
  | PMarkRun string string int int int
  | PScheduleDelete string string

fun plan_exec :: "plan_call \<Rightarrow> browser_db \<Rightarrow> (db_error, browser_db) result" where
  "plan_exec (PWorkflowInsert uuid now i u name enc nonce v) db =
     rbind (workflow_insert uuid now i u name enc nonce v (workflows db)) (\<lambda>(_, rows). Inr (db\<lparr>workflows := rows\<rparr>))"
| "plan_exec (PWorkflowUpdate w u v name enc nonce now) db =
     rbind (workflow_update w u v name enc nonce now (workflows db)) (\<lambda>(_, rows). Inr (db\<lparr>workflows := rows\<rparr>))"
| "plan_exec (PWorkflowDelete w u) db = Inr (snd (workflow_delete w u db))"
| "plan_exec (PScheduleInsert uuid now u w d name rule tz next active catch_up) db =
     rbind (schedule_insert uuid now u w d name rule tz next active catch_up db) (\<lambda>(_, db'). Inr db')"
| "plan_exec (PScheduleUpdate s u w d name rule tz active next now) db =
     rbind (schedule_update s u w d name rule tz active next now db) (\<lambda>(_, db'). Inr db')"
| "plan_exec (PMarkRun s u run_at next now) db =
     rbind (schedule_mark_run s u run_at next now (schedules db)) (\<lambda>(_, rows). Inr (db\<lparr>schedules := rows\<rparr>))"
| "plan_exec (PScheduleDelete s u) db = Inr (db\<lparr>schedules := snd (schedule_delete s u (schedules db))\<rparr>)"

lemmas workflow_ops = workflow_insert_def workflow_update_def workflow_delete_def
lemmas schedule_ops = schedule_insert_def schedule_update_def schedule_mark_run_def schedule_delete_def

text \<open>No schedule is left behind: every successful call on workflows and schedules keeps each
  schedule attached to an existing workflow of the same user; deleting a workflow takes its
  schedules along.\<close>

theorem schedules_stay_owned:
  assumes "schedules_owned db" and "plan_exec c db = Inr db'"
  shows "schedules_owned db'"
proof (cases c)
  case (PWorkflowUpdate w u v name enc nonce now)
  with assms(2) have eq: "schedules db' = schedules db"
    and rows: "workflows db' = update_where (version_guard w u v)
      (\<lambda>x. x\<lparr>w_name := name, encrypted_definition := enc, definition_nonce := nonce, w_version := v + 1, w_updated_at := now\<rparr>) (workflows db)"
    by (auto simp: workflow_update_def rbind_Inr_iff dest!: update_one_InrD)
  have "(\<lambda>x. (w_id x, w_user_id x)) ` set (workflows db') = (\<lambda>x. (w_id x, w_user_id x)) ` set (workflows db)"
    unfolding rows set_map [symmetric] by (simp add: map_update_where)
  then show ?thesis using assms(1) by (simp add: schedules_owned_def eq)
qed (use assms in \<open>fastforce simp: schedules_owned_def workflow_ops schedule_ops rbind_Inr_iff set_update_where Let_def
      owns_workflow_and_device_def list_ex_iff owned_schedule_def mark_run_guard_def split: if_splits
      dest!: update_one_InrD insert_one_InrD\<close>)+

definition sample_workflow :: workflow where
  "sample_workflow = \<lparr>w_id = ''w'', w_user_id = ''u'', w_name = ''n'', encrypted_definition = ''e'', definition_nonce = ''c'',
     w_version = 1, w_created_at = 0, w_updated_at = 0\<rparr>"

definition sample_schedule :: schedule where
  "sample_schedule = \<lparr>s_id = ''s'', s_user_id = ''u'', s_workflow_id = ''w'', s_device_id = ''d'', s_name = ''n'', rrule = ''r'',
     timezone = ''UTC'', is_active = True, last_run_at = None, next_run_at = Some 5, catch_up_pending = False,
     s_created_at = 0, s_updated_at = 0\<rparr>"

definition sample_db :: browser_db where
  "sample_db = \<lparr>grants = [], devices = [sample_device\<lparr>revoked_at := None\<rparr>], workflows = [sample_workflow],
     schedules = [sample_schedule], audits = []\<rparr>"

theorem schedules_stay_owned_witness:
  "schedules_owned (snd (workflow_delete ''w'' ''u'' sample_db)) \<and> schedules_owned sample_db"
proof -
  have "schedules_owned sample_db"
    by (simp add: schedules_owned_def sample_db_def sample_schedule_def sample_workflow_def)
  then show ?thesis using schedules_stay_owned [of sample_db "PWorkflowDelete ''w'' ''u''"] by simp
qed

text \<open>Concurrent edits of a workflow are never lost silently: after an update with the expected
  version succeeded, the version is one higher and every further update that expects the old
  version finds nothing and changes nothing.\<close>

theorem workflow_no_lost_update:
  assumes "workflows_unique rows"
    and "workflow_update w u v name enc nonce now rows = Inr (Some x, rows')"
  shows "w_version x = v + 1 \<and> workflow_get rows' w u = Inr (Some x) \<and>
    workflow_update w u v name' enc' nonce' now' rows' = Inr (None, rows')"
proof -
  have uniq: "workflows_unique rows'" using assms(2) by (auto simp: workflow_update_def dest: update_one_InrD)
  obtain r where r: "r \<in> set rows" "version_guard w u v r" "x \<in> set rows'"
    and x: "x = r\<lparr>w_name := name, encrypted_definition := enc, definition_nonce := nonce, w_version := v + 1, w_updated_at := now\<rparr>"
    using wf_update.success [OF assms(1), of "(w, u, v, name, enc, nonce, now)" x rows'] assms(2)
    by (auto simp: workflow_update_def)
  have id: "w_id x = w" "w_user_id x = u" using r(2) x by (auto simp: version_guard_def)
  have only: "y = x" if "y \<in> set rows'" "w_id y = w" for y
    using that r(3) id uniq by (auto simp: workflows_unique_def distinct_map dest: inj_onD)
  have "filter (\<lambda>y. w_id y = w \<and> w_user_id y = u) rows' = [x]"
  proof -
    have "length (filter (\<lambda>y. w_id y = w \<and> w_user_id y = u) rows') \<le> 1"
      using uniq unfolding workflows_unique_def by (rule filter_pk_singleton)
    moreover have "x \<in> set (filter (\<lambda>y. w_id y = w \<and> w_user_id y = u) rows')" using r(3) id by simp
    ultimately show ?thesis by (cases "filter (\<lambda>y. w_id y = w \<and> w_user_id y = u) rows'") auto
  qed
  moreover have version: "w_version x = v + 1" by (simp add: x)
  moreover have "filter (version_guard w u v) rows' = []"
    using only version by (fastforce simp: filter_empty_conv version_guard_def)
  ultimately show ?thesis
    using uniq by (simp add: workflow_get_def workflow_update_def update_one_def update_where_none scalar_one_or_none_def)
qed

theorem workflow_no_lost_update_witness:
  "\<exists>x rows'. workflow_update ''w'' ''u'' 1 ''a'' ''e1'' ''c1'' 7 [sample_workflow] = Inr (Some x, rows') \<and>
     workflow_update ''w'' ''u'' 1 ''b'' ''e2'' ''c2'' 8 rows' = Inr (None, rows')"
proof -
  have u: "workflows_unique [sample_workflow]" by (simp add: workflows_unique_def)
  obtain x rows' where upd: "workflow_update ''w'' ''u'' 1 ''a'' ''e1'' ''c1'' 7 [sample_workflow] = Inr (Some x, rows')"
    by (simp add: workflow_update_def update_one_def version_guard_def sample_workflow_def update_where_def
        workflows_unique_def scalar_one_or_none_def)
  from workflow_no_lost_update [OF u this, of "''b''" "''e2''" "''c2''" 8] upd show ?thesis by blast
qed

section \<open>Audit retention\<close>

lemma order_desc_facts:
  "set (order_desc key rows) = set rows" "distinct (map f (order_desc key rows)) = distinct (map f rows)"
  "sorted_wrt (\<lambda>x y. key y \<le> key x) (order_desc key rows)"
proof -
  show "distinct (map f (order_desc key rows)) = distinct (map f rows)" by (simp add: order_desc_def distinct_map)
  show "sorted_wrt (\<lambda>x y. key y \<le> key x) (order_desc key rows)"
    using sorted_sort_key [of key "rev rows"] by (simp add: order_desc_def sorted_wrt_rev sorted_map)
qed (simp add: order_desc_def)

text \<open>The split of a user's rows into the newest \<open>keep\<close> and the stale rest.\<close>

lemma stale_split:
  fixes user :: string
  assumes "audits_unique rows"
  defines "L \<equiv> order_desc (\<lambda>a. (a_created_at a, a_id a)) (filter (\<lambda>a. a_user_id a = user) rows)"
  shows "List.member (stale_audit_ids user n rows) (a_id a) \<Longrightarrow> a \<in> set rows \<Longrightarrow> a \<in> set (drop n L)"
    and "a \<in> set (drop n L) \<Longrightarrow> a \<in> set rows \<and> a_user_id a = user"
    and "a \<in> set rows \<Longrightarrow> a_user_id a = user \<Longrightarrow> a \<notin> set (drop n L) \<Longrightarrow> a \<in> set (take n L)"
proof -
  have L: "set L = {a \<in> set rows. a_user_id a = user}" by (simp add: L_def order_desc_facts(1))
  have split: "set L = set (take n L) \<union> set (drop n L)" by (metis append_take_drop_id set_append)
  show "a \<in> set (drop n L) \<Longrightarrow> a \<in> set rows \<and> a_user_id a = user" using L split by blast
  show "a \<in> set rows \<Longrightarrow> a_user_id a = user \<Longrightarrow> a \<notin> set (drop n L) \<Longrightarrow> a \<in> set (take n L)" using L split by blast
  assume "List.member (stale_audit_ids user n rows) (a_id a)" and a: "a \<in> set rows"
  then obtain b where b: "b \<in> set (drop n L)" "a_id b = a_id a" by (auto simp: stale_audit_ids_def L_def)
  have "b \<in> set rows" using L split b(1) by blast
  then have "b = a" using a b(2) assms(1) by (auto simp: audits_unique_def distinct_map dest: inj_onD)
  with b(1) show "a \<in> set (drop n L)" by simp
qed

lemma stale_member: "a \<in> set (drop n (order_desc (\<lambda>a. (a_created_at a, a_id a)) (filter (\<lambda>a. a_user_id a = user) rows)))
  \<Longrightarrow> List.member (stale_audit_ids user n rows) (a_id a)"
  by (auto simp: stale_audit_ids_def)

lemma prune_audits:
  fixes user :: string and n :: nat
  assumes u: "audits_unique rows"
  defines "kept \<equiv> filter (\<lambda>a. \<not> List.member (stale_audit_ids user n rows) (a_id a)) rows"
  shows "length (filter (\<lambda>a. a_user_id a = user) kept) \<le> n"
    and "filter (\<lambda>a. a_user_id a \<noteq> user) kept = filter (\<lambda>a. a_user_id a \<noteq> user) rows"
    and "x \<in> set kept \<Longrightarrow> a_user_id x = user \<Longrightarrow> y \<in> set rows \<Longrightarrow> y \<notin> set kept \<Longrightarrow> a_created_at y \<le> a_created_at x"
proof -
  let ?key = "\<lambda>a. (a_created_at a, a_id a)"
  let ?L = "order_desc ?key (filter (\<lambda>a. a_user_id a = user) rows)"
  note stale = stale_split [OF u, where user = user and n = n]
  have keep: "x \<in> set (take n ?L)" if "x \<in> set kept" "a_user_id x = user" for x
    using that stale(3) [of x] stale_member [of x n user rows] by (auto simp: kept_def)
  have "distinct (filter (\<lambda>a. a_user_id a = user) kept)"
    using u by (auto simp: kept_def audits_unique_def distinct_map)
  then have "length (filter (\<lambda>a. a_user_id a = user) kept) = card (set (filter (\<lambda>a. a_user_id a = user) kept))"
    by (rule distinct_card [symmetric])
  also have "\<dots> \<le> card (set (take n ?L))" using keep by (intro card_mono) auto
  also have "\<dots> \<le> n" using card_length [of "take n ?L"] by simp
  finally show "length (filter (\<lambda>a. a_user_id a = user) kept) \<le> n" .
  show "filter (\<lambda>a. a_user_id a \<noteq> user) kept = filter (\<lambda>a. a_user_id a \<noteq> user) rows"
    unfolding kept_def filter_filter
  proof (rule filter_cong [OF refl])
    fix a assume a: "a \<in> set rows"
    show "(\<not> List.member (stale_audit_ids user n rows) (a_id a) \<and> a_user_id a \<noteq> user) = (a_user_id a \<noteq> user)"
      using stale(1) [OF _ a] stale(2) by blast
  qed
  show "a_created_at y \<le> a_created_at x" if "x \<in> set kept" "a_user_id x = user" "y \<in> set rows" "y \<notin> set kept"
  proof -
    have "y \<in> set (drop n ?L)" using that stale(1) [of y] by (auto simp: kept_def)
    moreover have "x \<in> set (take n ?L)" using keep that by blast
    moreover have "sorted_wrt (\<lambda>x y. ?key y \<le> ?key x) (take n ?L @ drop n ?L)"
      unfolding append_take_drop_id by (rule order_desc_facts(3))
    ultimately have "?key y \<le> ?key x" unfolding sorted_wrt_append by blast
    then show ?thesis by auto
  qed
qed

text \<open>The audit log is bounded per user and prunes the right rows: after an entry with a fresh id
  was written at most \<open>max 1 retention_limit\<close> rows of the user remain, no row of another user is
  touched, and no row that was dropped is newer than a row of the user that was kept.\<close>

theorem audit_retention:
  assumes "audits_unique rows" and "uuid \<notin> a_id ` set rows"
    and "audit_insert uuid now user device session chat command action origin outcome risk summary retention rows = (res, rows')"
  shows "length (filter (\<lambda>a. a_user_id a = user) rows') \<le> nat (max 1 retention) \<and>
    filter (\<lambda>a. a_user_id a \<noteq> user) rows' = filter (\<lambda>a. a_user_id a \<noteq> user) rows \<and>
    (\<forall>x \<in> set rows'. \<forall>y \<in> set rows. a_user_id x = user \<and> y \<notin> set rows' \<longrightarrow> a_created_at y \<le> a_created_at x)"
proof -
  define row where "row = \<lparr>a_id = uuid, a_user_id = user, a_device_id = device, a_session_id = session, a_chat_id = chat,
    a_command_id = command, a_action = redact_string action, a_origin = redact_string origin, a_outcome = outcome,
    a_risk = risk, a_summary = redact_string summary, a_created_at = now\<rparr>"
  have row: "a_user_id row = user" "a_id row = uuid" by (simp_all add: row_def)
  then have u: "audits_unique (rows @ [row])" using assms(1,2) by (simp add: audits_unique_def)
  then have rows': "rows' = filter (\<lambda>a. \<not> List.member (stale_audit_ids user (nat (max 1 retention)) (rows @ [row])) (a_id a)) (rows @ [row])"
    using assms(3) unfolding audit_insert_def Let_def row_def [symmetric] by (simp add: insert_one_def)
  note p = prune_audits [OF u, where user = user and n = "nat (max 1 retention)"]
  have other: "filter (\<lambda>a. a_user_id a \<noteq> user) (rows @ [row]) = filter (\<lambda>a. a_user_id a \<noteq> user) rows" using row by simp
  show ?thesis
  proof (intro conjI ballI impI)
    show "length (filter (\<lambda>a. a_user_id a = user) rows') \<le> nat (max 1 retention)" unfolding rows' by (rule p(1))
    show "filter (\<lambda>a. a_user_id a \<noteq> user) rows' = filter (\<lambda>a. a_user_id a \<noteq> user) rows"
      unfolding rows' p(2) by (rule other)
    fix x y assume "x \<in> set rows'" "y \<in> set rows" "a_user_id x = user \<and> y \<notin> set rows'"
    then show "a_created_at y \<le> a_created_at x"
      using p(3) [of x y] unfolding rows' [symmetric] by simp
  qed
qed

definition sample_audit :: "string \<Rightarrow> int \<Rightarrow> action_audit" where
  "sample_audit i t = \<lparr>a_id = i, a_user_id = ''u'', a_device_id = ''d'', a_session_id = ''s'', a_chat_id = None, a_command_id = ''c'',
     a_action = ''click'', a_origin = ''o'', a_outcome = ''succeeded'', a_risk = ''low'', a_summary = [], a_created_at = t\<rparr>"

theorem audit_retention_witness:
  "length (filter (\<lambda>a. a_user_id a = ''u'') (snd (audit_insert ''n'' 9 ''u'' ''d'' ''s'' None ''c'' ''x'' ''o'' ''ok'' ''low'' [] 2
     [sample_audit ''a'' 1, sample_audit ''b'' 2]))) \<le> 2"
proof -
  let ?r = "audit_insert ''n'' 9 ''u'' ''d'' ''s'' None ''c'' ''x'' ''o'' ''ok'' ''low'' [] 2 [sample_audit ''a'' 1, sample_audit ''b'' 2]"
  have "audits_unique [sample_audit ''a'' 1, sample_audit ''b'' 2]" "''n'' \<notin> a_id ` set [sample_audit ''a'' 1, sample_audit ''b'' 2]"
    by (simp_all add: audits_unique_def sample_audit_def)
  from audit_retention [OF this, of 9 "''u''" "''d''" "''s''" None "''c''" "''x''" "''o''" "''ok''" "''low''" "[]" 2 "fst ?r" "snd ?r"]
  show ?thesis by simp
qed

text \<open>An audit entry can vanish as it is written: when the clock reads earlier than the newest
  \<open>retention_limit\<close> rows of the user, the pruning deletes the new row itself and
  \<open>session.refresh\<close> raises after the commit.\<close>

theorem audit_insert_can_drop_itself:
  "audit_insert ''n'' 1 ''u'' ''d'' ''s'' None ''c'' [] [] ''ok'' ''low'' [] 1 [sample_audit ''a'' 5] =
     (Inl InvalidRequestError, [sample_audit ''a'' 5])"
  by (simp add: audit_insert_def insert_one_def audits_unique_def sample_audit_def stale_audit_ids_def order_desc_def)


end
