(* ===== verification/Browser_Permissions.thy ===== *)
theory Browser_Permissions
  imports TB_Prelude
begin

section \<open>Who may control a browser (utils/browser\_extension\_permissions.py)\<close>

text \<open>
  The permission check of browser control. The groups of the user come from the database
  (\<open>Groups.get_groups_by_member_id\<close>), here the list \<open>stored\<close> of their \<open>permissions\<close> columns.
\<close>

definition py_truthy :: "pyval \<Rightarrow> bool" where
  "py_truthy v = (case v of
      PNone \<Rightarrow> False | PBool b \<Rightarrow> b | PInt i \<Rightarrow> i \<noteq> 0 | PFloat f \<Rightarrow> f \<noteq> Fin 0 | PStr s \<Rightarrow> s \<noteq> [] | PBytes s \<Rightarrow> s \<noteq> []
    | PList l \<Rightarrow> l \<noteq> [] | PTuple l \<Rightarrow> l \<noteq> [] | PDict d \<Rightarrow> d \<noteq> [])"

datatype permission_error = AttributeError

definition stored_group_permissions :: "pyval list \<Rightarrow> pyval list" where
  "stored_group_permissions stored = filter is_mapping stored"

text \<open>The loop body: the explicit setting of one group.\<close>

definition explicit_setting :: "pyval \<Rightarrow> bool option" where
  "explicit_setting permissions = (case as_dict permissions of
      None \<Rightarrow> None
    | Some p \<Rightarrow> (case as_dict (pget p ''features'') of
        None \<Rightarrow> None
      | Some features \<Rightarrow> as_bool (pget features ''browser_extension'')))"

definition py_or :: "pyval \<Rightarrow> pyval \<Rightarrow> pyval" where
  "py_or a b = (if py_truthy a then a else b)"

definition default_setting :: "pyval \<Rightarrow> (permission_error, bool) result" where
  "default_setting default_permissions = (case as_dict (py_or default_permissions (PDict [])) of
      None \<Rightarrow> Inl AttributeError
    | Some d \<Rightarrow> (case as_dict (py_or (pget d ''features'') (PDict [])) of
        None \<Rightarrow> Inl AttributeError
      | Some features \<Rightarrow>
          Inr (case map_of features ''browser_extension'' of None \<Rightarrow> True | Some v \<Rightarrow> py_truthy v)))"

definition has_browser_extension_permission ::
  "string option \<Rightarrow> pyval \<Rightarrow> pyval list \<Rightarrow> (permission_error, bool) result" where
  "has_browser_extension_permission user_role default_permissions group_permissions =
     (if user_role = Some ''admin'' then Inr True
      else let explicit = List.map_filter explicit_setting group_permissions
           in if List.member explicit False then Inr False
              else if List.member explicit True then Inr True
              else default_setting default_permissions)"

lemma member_explicit: "List.member (List.map_filter explicit_setting gs) b \<longleftrightarrow> (\<exists>g \<in> set gs. explicit_setting g = Some b)"
  by (induction gs) (auto simp: map_filter_simps split: option.splits)

text \<open>Group overrides of browser control are deny-wins, whatever order the groups come in and
  whatever the other groups and the default say: one explicit denial refuses every user who is
  not an admin, and without a denial one explicit grant is enough.\<close>

theorem browser_permission_deny_wins:
  assumes "user_role \<noteq> Some ''admin''" and "g \<in> set gs" and "explicit_setting g = Some b"
    and "b \<Longrightarrow> \<forall>h \<in> set gs. explicit_setting h \<noteq> Some False"
  shows "has_browser_extension_permission user_role dflt gs = Inr b"
proof (cases b)
  case True
  with assms(3) have "explicit_setting g = Some True" by simp
  then show ?thesis
    using assms(1,2,4) True unfolding has_browser_extension_permission_def Let_def member_explicit by auto
next
  case False
  with assms(3) have "explicit_setting g = Some False" by simp
  then show ?thesis
    using assms(1,2) False unfolding has_browser_extension_permission_def Let_def member_explicit by auto
qed

definition sample_group :: "bool \<Rightarrow> pyval" where
  "sample_group b = PDict [(''features'', PDict [(''browser_extension'', PBool b)])]"

theorem browser_permission_deny_wins_witness:
  "has_browser_extension_permission (Some ''user'') PNone [sample_group True, sample_group False] = Inr False"
  by (rule browser_permission_deny_wins [of _ "sample_group False"]) (simp_all add: sample_group_def explicit_setting_def)

end
