(* ===== verification/Browser_Socket.thy ===== *)
theory Browser_Socket
  imports Browser_Broker Browser_Auth Browser_Store Browser_Permissions
begin

section \<open>The socket service of the browser extension (socket/browser\_extension.py)\<close>

text \<open>
  \<open>BrowserExtensionSocketService\<close>: the handlers that authenticate an extension socket and pass
  its events to the broker. The collaborators a service is built with (\<open>decode_access_token\<close>,
  \<open>get_device\<close>, \<open>get_user\<close>, \<open>has_permission\<close>) are a record of functions, with the defaults of the
  module defined after it. A handler returns its reply, or the exception that escapes it, the broker
  after it and the rooms the socket was put into.
\<close>

record sock_user =
  su_id :: string
  su_role :: string

record sock_deps =
  decode_access_token :: "string \<Rightarrow> string \<Rightarrow> pyval option"
  get_device :: "string \<Rightarrow> paired_device option"
  get_user :: "string \<Rightarrow> sock_user option"
  has_permission :: "sock_user \<Rightarrow> (permission_error, bool) result"

text \<open>The exceptions that escape a handler.\<close>

datatype sock_exn = EscapesTypeError | EscapesPermission permission_error

type_synonym sock_reply = "(sock_exn, pyval) result"

definition sock_error :: "string \<Rightarrow> sock_reply" where
  "sock_error c = Inr (PDict [(''ok'', PBool False), (''error'', PStr c)])"

text \<open>\<open>except BrowserCommandError as exc: return self._error(exc.code)\<close>; other exceptions escape.\<close>

definition caught :: "broker_error \<Rightarrow> sock_reply" where
  "caught e = (case e of BrowserCommandError c m \<Rightarrow> sock_error c | UnhashableTypeError \<Rightarrow> Inl EscapesTypeError)"

definition keys_are :: "(string \<times> pyval) list \<Rightarrow> string list \<Rightarrow> bool" where
  "keys_are d ks \<longleftrightarrow> set (map fst d) = set ks"

definition device_matches :: "paired_device \<Rightarrow> string \<Rightarrow> string \<Rightarrow> string \<Rightarrow> string \<Rightarrow> string \<Rightarrow> bool" where
  "device_matches row device_id user_id family_id claim_origin origin \<longleftrightarrow>
     d_id row = device_id \<and> d_user_id row = user_id \<and> token_family_id row = family_id \<and>
     allowed_origin row = claim_origin \<and> claim_origin = origin"

text \<open>The part of \<open>join\<close> that talks to the broker: a socket the device had before is disconnected first.\<close>

definition join_broker ::
  "rat \<Rightarrow> string \<Rightarrow> string \<Rightarrow> string \<Rightarrow> string \<Rightarrow> string \<Rightarrow> broker \<Rightarrow> sock_reply \<times> broker \<times> string list" where
  "join_broker now sid user_id device_id family_id origin b =
     (let b1 = (case map_of (b_devices b) device_id of
            None \<Rightarrow> b
          | Some existing \<Rightarrow> if bd_sid existing \<noteq> sid then broker_disconnect (bd_sid existing) b else b)
      in case register_device now user_id device_id sid family_id origin b1 of
           Inl e \<Rightarrow> (caught e, b1, [])
         | Inr (_, b2) \<Rightarrow>
             (Inr (PDict [(''ok'', PBool True), (''userId'', PStr user_id), (''deviceId'', PStr device_id)]), b2,
              [''browser:user:'' @ user_id, ''browser:device:'' @ device_id]))"

text \<open>The part of \<open>join\<close> before it: \<open>Inl\<close> is the early return.\<close>

definition join_claims :: "sock_deps \<Rightarrow> pyval \<Rightarrow> (sock_reply, string \<times> (string \<times> pyval) list) result" where
  "join_claims D data = (case as_dict data of
      None \<Rightarrow> Inl (sock_error ''invalid_payload'')
    | Some d \<Rightarrow>
        if \<not> keys_are d [''accessToken'', ''origin''] \<or> \<not> nonempty_str (pget d ''accessToken'') \<or> \<not> nonempty_str (pget d ''origin'')
        then Inl (sock_error ''invalid_payload'')
        else (let origin = str_of (pget d ''origin'') in
          case decode_access_token D (str_of (pget d ''accessToken'')) origin of
            None \<Rightarrow> Inl (sock_error ''invalid_access_token'')
          | Some v \<Rightarrow> (case as_dict v of
              None \<Rightarrow> Inl (sock_error ''invalid_access_token'')
            | Some claims \<Rightarrow>
                if list_all (\<lambda>k. nonempty_str (pget claims k)) [''id'', ''device_id'', ''token_family_id'', ''origin'']
                then Inr (origin, claims) else Inl (sock_error ''invalid_access_token''))))"

definition join_device :: "sock_deps \<Rightarrow> string \<Rightarrow> string \<Rightarrow> string \<Rightarrow> string \<Rightarrow> string \<Rightarrow> (sock_reply, paired_device) result" where
  "join_device D device_id user_id family_id claim_origin origin = (case get_device D device_id of
      None \<Rightarrow> Inl (sock_error ''device_revoked'')
    | Some row \<Rightarrow>
        if revoked_at row \<noteq> None then Inl (sock_error ''device_revoked'')
        else if \<not> device_matches row device_id user_id family_id claim_origin origin then Inl (sock_error ''device_identity_mismatch'')
        else Inr row)"

definition join_user :: "sock_deps \<Rightarrow> string \<Rightarrow> (sock_reply, sock_user) result" where
  "join_user D user_id = (case get_user D user_id of
      None \<Rightarrow> Inl (sock_error ''browser_extension_not_allowed'')
    | Some u \<Rightarrow>
        if su_role u \<notin> {''user'', ''admin''} then Inl (sock_error ''browser_extension_not_allowed'')
        else case has_permission D u of
          Inl e \<Rightarrow> Inl (Inl (EscapesPermission e))
        | Inr allowed \<Rightarrow> if allowed then Inr u else Inl (sock_error ''browser_extension_not_allowed''))"

definition join_authenticate :: "sock_deps \<Rightarrow> pyval \<Rightarrow> (sock_reply, string \<times> string \<times> string \<times> string) result" where
  "join_authenticate D data = rbind (join_claims D data) (\<lambda>(origin, claims).
     let user_id = str_of (pget claims ''id''); device_id = str_of (pget claims ''device_id'');
         family_id = str_of (pget claims ''token_family_id''); claim_origin = str_of (pget claims ''origin'')
     in rbind (join_device D device_id user_id family_id claim_origin origin) (\<lambda>_.
        rbind (join_user D user_id) (\<lambda>_. Inr (user_id, device_id, family_id, origin))))"

definition sock_join :: "sock_deps \<Rightarrow> rat \<Rightarrow> string \<Rightarrow> pyval \<Rightarrow> broker \<Rightarrow> sock_reply \<times> broker \<times> string list" where
  "sock_join D now sid data b = (case join_authenticate D data of
      Inl reply \<Rightarrow> (reply, b, [])
    | Inr (user_id, device_id, family_id, origin) \<Rightarrow> join_broker now sid user_id device_id family_id origin b)"

definition sock_heartbeat :: "rat \<Rightarrow> string \<Rightarrow> pyval \<Rightarrow> broker \<Rightarrow> sock_reply \<times> broker" where
  "sock_heartbeat now sid data b =
     (if data \<noteq> PNone \<and> data \<noteq> PDict [] then (sock_error ''invalid_payload'', b)
      else case broker_heartbeat now sid b of
        Inl e \<Rightarrow> (caught e, b)
      | Inr (_, b') \<Rightarrow> (Inr (PDict [(''ok'', PBool True)]), b'))"

definition sock_open_session :: "rat \<Rightarrow> string \<Rightarrow> pyval \<Rightarrow> broker \<Rightarrow> sock_reply \<times> broker" where
  "sock_open_session now sid data b = (case as_dict data of
      None \<Rightarrow> (sock_error ''invalid_payload'', b)
    | Some d \<Rightarrow>
        if \<not> keys_are d [''sessionId'', ''tabId'', ''tabOrigin'', ''actionMode'', ''tabPolicy''] then (sock_error ''invalid_payload'', b)
        else case broker_open_session now sid (pget d ''sessionId'') (pget d ''tabId'') (pget d ''tabOrigin'') (pget d ''actionMode'')
               (pget d ''tabPolicy'') b of
          Inl e \<Rightarrow> (caught e, b)
        | Inr (s, b') \<Rightarrow> (Inr (PDict [(''ok'', PBool True), (''sessionId'', PStr (bs_session_id s))]), b'))"

definition sock_close_session :: "string \<Rightarrow> pyval \<Rightarrow> broker \<Rightarrow> sock_reply \<times> broker" where
  "sock_close_session sid data b = (case as_dict data of
      None \<Rightarrow> (sock_error ''invalid_payload'', b)
    | Some d \<Rightarrow>
        if \<not> keys_are d [''sessionId''] \<or> \<not> nonempty_str (pget d ''sessionId'') then (sock_error ''invalid_payload'', b)
        else case broker_close_session sid (str_of (pget d ''sessionId'')) b of
          Inl e \<Rightarrow> (caught e, b)
        | Inr b' \<Rightarrow> (Inr (PDict [(''ok'', PBool True)]), b'))"

definition sock_command_result :: "(rat \<Rightarrow> string) \<Rightarrow> string \<Rightarrow> pyval \<Rightarrow> broker \<Rightarrow> sock_reply \<times> broker" where
  "sock_command_result frepr sid data b = (case device_for_sid b sid of
      Inl e \<Rightarrow> (caught e, b)
    | Inr device \<Rightarrow> (case accept_result frepr (Some (bd_device_id device)) data b of
        Inl e \<Rightarrow> (caught e, b)
      | Inr (_, b') \<Rightarrow> (Inr (PDict [(''ok'', PBool True)]), b')))"

definition sock_approval_result :: "(rat \<Rightarrow> string) \<Rightarrow> string \<Rightarrow> pyval \<Rightarrow> broker \<Rightarrow> sock_reply" where
  "sock_approval_result frepr sid data b = (case device_for_sid b sid of
      Inl e \<Rightarrow> caught e
    | Inr device \<Rightarrow> (case accept_approval_result frepr (bd_device_id device) data b of
        Inl e \<Rightarrow> caught e
      | Inr _ \<Rightarrow> Inr (PDict [(''ok'', PBool True)])))"

definition sock_disconnect :: "string \<Rightarrow> broker \<Rightarrow> broker" where
  "sock_disconnect sid b = broker_disconnect sid b"

subsection \<open>The collaborators the service has by default\<close>

text \<open>
  \<open>_decode_access_token\<close>, \<open>_get_device\<close> and \<open>_has_permission\<close> on the tables; \<open>users\<close>, \<open>groups\<close>
  (the permissions of a user's groups) and \<open>permissions\<close> (\<open>Config.get('user.permissions')\<close>) come from other parts
  of the server. The id of a device is its primary key, so the lookup finds at most one row.
\<close>

definition default_decode ::
  "(string \<Rightarrow> string \<Rightarrow> string) \<Rightarrow> (string \<Rightarrow> string \<Rightarrow> string \<Rightarrow> string list \<Rightarrow> (string \<times> pyval) list option) \<Rightarrow> (pyval \<Rightarrow> string) \<Rightarrow>
   string \<Rightarrow> string \<Rightarrow> string \<Rightarrow> pyval option" where
  "default_decode hkdf jwt_decode py_str secret_key token origin =
     (case decode_browser_access_token hkdf jwt_decode py_str token secret_key (Some origin) of
        Inl _ \<Rightarrow> None | Inr claims \<Rightarrow> Some (PDict claims))"

definition default_get_device :: "paired_device list \<Rightarrow> string \<Rightarrow> paired_device option" where
  "default_get_device rows device_id = (case device_get_active rows device_id of Inl _ \<Rightarrow> None | Inr r \<Rightarrow> r)"

definition default_has_permission :: "pyval \<Rightarrow> (string \<Rightarrow> pyval list) \<Rightarrow> sock_user \<Rightarrow> (permission_error, bool) result" where
  "default_has_permission permissions groups u =
     has_browser_extension_permission (Some (su_role u)) permissions (stored_group_permissions (groups (su_id u)))"

section \<open>Properties\<close>

lemma register_device_in:
  assumes "register_device now u d sid fam orig b = Inr (r, b')"
  shows "b_devices b' = AList.update d r (b_devices b) \<and> r = \<lparr>bd_user_id = u, bd_device_id = d, bd_sid = sid,
    bd_token_family_id = fam, bd_origin = orig, bd_last_seen_at = now\<rparr>"
  using assms by (auto simp: register_device_def Let_def split: if_splits)

text \<open>What \<open>join\<close> has established when a device enters the registry.\<close>

definition join_evidence :: "sock_deps \<Rightarrow> pyval \<Rightarrow> string \<Rightarrow> string \<Rightarrow> string \<Rightarrow> string \<Rightarrow> bool" where
  "join_evidence D data user_id device_id family_id origin \<longleftrightarrow> (\<exists>e claims row u. data = PDict e \<and>
     decode_access_token D (str_of (pget e ''accessToken'')) origin = Some (PDict claims) \<and>
     pget claims ''id'' = PStr user_id \<and> pget claims ''device_id'' = PStr device_id \<and>
     pget claims ''token_family_id'' = PStr family_id \<and> pget claims ''origin'' = PStr origin \<and>
     get_device D device_id = Some row \<and> revoked_at row = None \<and> d_user_id row = user_id \<and>
     token_family_id row = family_id \<and> allowed_origin row = origin \<and>
     get_user D user_id = Some u \<and> su_role u \<in> {''user'', ''admin''} \<and> has_permission D u = Inr True)"

lemma nonempty_str_of: "nonempty_str v \<Longrightarrow> v = PStr (str_of v)"
  by (auto simp: nonempty_str_iff)

lemma join_claims_Inr:
  assumes "join_claims D data = Inr (origin, claims)"
  shows "\<exists>e. data = PDict e \<and> decode_access_token D (str_of (pget e ''accessToken'')) origin = Some (PDict claims) \<and>
    nonempty_str (pget claims ''id'') \<and> nonempty_str (pget claims ''device_id'') \<and> nonempty_str (pget claims ''token_family_id'') \<and>
    nonempty_str (pget claims ''origin'')"
  using assms by (auto simp: join_claims_def Let_def split: option.splits if_splits)

lemma join_authenticate_evidence:
  assumes "join_authenticate D data = Inr (u, d, f, orig)"
  shows "join_evidence D data u d f orig"
proof -
  from assms obtain claims row usr where c: "join_claims D data = Inr (orig, claims)"
    and u: "u = str_of (pget claims ''id'')" "d = str_of (pget claims ''device_id'')" "f = str_of (pget claims ''token_family_id'')"
    and row: "join_device D d u f (str_of (pget claims ''origin'')) orig = Inr row" and usr: "join_user D u = Inr usr"
    by (auto simp: join_authenticate_def rbind_Inr_iff Let_def)
  from row have r: "get_device D d = Some row \<and> revoked_at row = None \<and> d_user_id row = u \<and> token_family_id row = f \<and>
      allowed_origin row = orig \<and> str_of (pget claims ''origin'') = orig"
    by (auto simp: join_device_def device_matches_def split: option.splits if_splits)
  from usr have us: "get_user D u = Some usr \<and> su_role usr \<in> {''user'', ''admin''} \<and> has_permission D usr = Inr True"
    by (auto simp: join_user_def split: option.splits if_splits sum.splits)
  from join_claims_Inr [OF c] obtain e where e: "data = PDict e"
    "decode_access_token D (str_of (pget e ''accessToken'')) orig = Some (PDict claims)"
    "pget claims ''id'' = PStr u" "pget claims ''device_id'' = PStr d" "pget claims ''token_family_id'' = PStr f" "pget claims ''origin'' = PStr orig"
    using u r by (auto dest!: nonempty_str_of)
  then show ?thesis using r us unfolding join_evidence_def by blast
qed

subsection \<open>Runs of the service\<close>

text \<open>
  The steps of the server on one broker: events of sockets, with the collaborators as they are at
  that moment (any that satisfy \<open>P\<close>), and the broker's own steps.
\<close>

inductive sock_step :: "(sock_deps \<Rightarrow> bool) \<Rightarrow> broker \<Rightarrow> broker \<Rightarrow> bool" for P where
  ss_join: "P D \<Longrightarrow> sock_join D now sid data b = (reply, b', rooms) \<Longrightarrow> sock_step P b b'"
| ss_heartbeat: "sock_heartbeat now sid data b = (reply, b') \<Longrightarrow> sock_step P b b'"
| ss_open: "sock_open_session now sid data b = (reply, b') \<Longrightarrow> sock_step P b b'"
| ss_close: "sock_close_session sid data b = (reply, b') \<Longrightarrow> sock_step P b b'"
| ss_result: "sock_command_result frepr sid data b = (reply, b') \<Longrightarrow> sock_step P b b'"
| ss_disconnect: "sock_step P b (sock_disconnect sid b)"
| ss_dispatch: "dispatch_begin cid nonce now u s name args m t b = Inr (req, b') \<Longrightarrow>
    \<not> has_key (b_pending b) cid \<Longrightarrow> \<not> has_key (b_futures b) cid \<Longrightarrow> sock_step P b b'"
| ss_abandon: "sock_step P b (dispatch_abandon cid b)"
| ss_cancel: "broker_cancel u cid b = Inr b' \<Longrightarrow> sock_step P b b'"
| ss_transport: "sock_step P b (run_transport frepr cid d out b)"

definition authenticated :: "(sock_deps \<Rightarrow> bool) \<Rightarrow> broker_device \<Rightarrow> bool" where
  "authenticated P d \<longleftrightarrow>
     (\<exists>D data. P D \<and> join_evidence D data (bd_user_id d) (bd_device_id d) (bd_token_family_id d) (bd_origin d))"

lemma set_update_subset: "set (AList.update k v d) \<subseteq> insert (k, v) (set d)"
  by (induction d) auto

lemma join_broker_authenticated:
  assumes "join_broker now sid u dev fam orig b = (reply, b', rooms)" "(i, d) \<in> set (b_devices b')"
  shows "(i, d) \<in> set (b_devices b) \<or>
    bd_user_id d = u \<and> bd_device_id d = dev \<and> bd_token_family_id d = fam \<and> bd_origin d = orig \<and> bd_sid d = sid"
proof -
  define b1 where "b1 = (case map_of (b_devices b) dev of
            None \<Rightarrow> b
          | Some existing \<Rightarrow> if bd_sid existing \<noteq> sid then broker_disconnect (bd_sid existing) b else b)"
  have sub: "set (b_devices b1) \<subseteq> set (b_devices b)"
    by (auto simp: b1_def broker_disconnect_def Let_def split: option.splits)
  show ?thesis
  proof (cases "register_device now u dev sid fam orig b1")
    case (Inl e)
    then have "b' = b1" using assms(1) by (simp add: join_broker_def b1_def [symmetric])
    then show ?thesis using assms(2) sub by blast
  next
    case (Inr z)
    then obtain r b2 where z: "register_device now u dev sid fam orig b1 = Inr (r, b2)" by (cases z) simp
    then have "b' = b2" using assms(1) by (simp add: join_broker_def b1_def [symmetric])
    then have "(i, d) \<in> insert (dev, r) (set (b_devices b1))"
      using assms(2) register_device_in [OF z] set_update_subset [of dev r "b_devices b1"] by auto
    then show ?thesis using sub register_device_in [OF z] by auto
  qed
qed

lemma accept_result_devices: "accept_result frepr x y b = Inr (v, b') \<Longrightarrow> b_devices b' = b_devices b"
  by (elim accept_resultE) simp

lemma sock_step_devices:
  assumes "sock_step P b b'" "(i, d') \<in> set (b_devices b')"
  shows "authenticated P d' \<or> (\<exists>j d t. (j, d) \<in> set (b_devices b) \<and> d' = d\<lparr>bd_last_seen_at := t\<rparr>)"
proof -
  have same: "(i, d') \<in> set (b_devices b) \<Longrightarrow> ?thesis"
    by (intro disjI2 exI [of _ i] exI [of _ d'] exI [of _ "bd_last_seen_at d'"]) simp
  from assms(1) show ?thesis
  proof cases
    case (ss_join D now sid data reply rooms)
    show ?thesis
    proof (cases "join_authenticate D data")
      case (Inl r)
      then show ?thesis using ss_join assms(2) same by (simp add: sock_join_def)
    next
      case (Inr z)
      then obtain u dv f orig where z: "join_authenticate D data = Inr (u, dv, f, orig)" by (cases z) simp
      then have "join_broker now sid u dv f orig b = (reply, b', rooms)" using ss_join by (simp add: sock_join_def)
      from join_broker_authenticated [OF this assms(2)] show ?thesis
        using join_authenticate_evidence [OF z] ss_join(1) same by (auto simp: authenticated_def)
    qed
  next
    case (ss_heartbeat now sid data reply)
    then consider "b' = b" | d where "device_for_sid b sid = Inr d"
      "b_devices b' = AList.update (bd_device_id d) (d\<lparr>bd_last_seen_at := now\<rparr>) (b_devices b)"
      by (auto simp: sock_heartbeat_def broker_heartbeat_def rbind_def Let_def split: if_splits sum.splits)
    then show ?thesis
    proof cases
      case 2
      then have "(i, d') \<in> insert (bd_device_id d, d\<lparr>bd_last_seen_at := now\<rparr>) (set (b_devices b))"
        using assms(2) set_update_subset by fastforce
      then show ?thesis using device_for_sid_in [OF 2(1)] same by auto
    qed (use assms(2) same in simp)
  next
    case ss_open
    then have "b_devices b' = b_devices b"
      by (auto simp: sock_open_session_def split: option.splits if_splits sum.splits elim!: open_sessionE)
    then show ?thesis using same assms(2) by simp
  next
    case ss_close
    then have "b_devices b' = b_devices b"
      by (auto simp: sock_close_session_def broker_close_session_def split: option.splits if_splits sum.splits)
    then show ?thesis using same assms(2) by simp
  next
    case ss_result
    then have "b_devices b' = b_devices b"
      by (auto simp: sock_command_result_def dest: accept_result_devices split: sum.splits)
    then show ?thesis using same assms(2) by simp
  next
    case ss_disconnect
    then show ?thesis using same assms(2) by (auto simp: sock_disconnect_def broker_disconnect_def Let_def)
  next
    case ss_dispatch
    then have "b_devices b' = b_devices b" by (elim dispatch_beginE) simp
    then show ?thesis using same assms(2) by simp
  next
    case ss_abandon
    then show ?thesis using same assms(2) by (simp add: dispatch_abandon_def split: if_splits)
  next
    case ss_cancel
    then have "b_devices b' = b_devices b" by (auto simp: broker_cancel_def split: option.splits if_splits)
    then show ?thesis using same assms(2) by simp
  next
    case ss_transport
    then have "b_devices b' = b_devices b"
      by (auto simp: run_transport_def fail_pending_def dest: accept_result_devices split: transport_outcome.splits sum.splits)
    then show ?thesis using same assms(2) by simp
  qed
qed

text \<open>The service adds nothing to what the broker can do, so the broker's invariants hold in its runs.\<close>

lemma run_one: "broker_step b b' \<Longrightarrow> broker_run b b'"
  by (rule run_step [OF run_refl])

lemma join_broker_steps:
  assumes "join_broker now sid u dev fam orig b = (reply, b', rooms)"
  shows "b' = b \<or> broker_step b b' \<or> (\<exists>x. broker_step b x \<and> set (b_devices x) \<subseteq> set (b_devices b) \<and> broker_step x b')"
proof -
  define b1 where "b1 = (case map_of (b_devices b) dev of
            None \<Rightarrow> b
          | Some existing \<Rightarrow> if bd_sid existing \<noteq> sid then broker_disconnect (bd_sid existing) b else b)"
  have "set (b_devices (broker_disconnect s b)) \<subseteq> set (b_devices b)" for s by (auto simp: broker_disconnect_def Let_def)
  then have r1: "b1 = b \<or> broker_step b b1 \<and> set (b_devices b1) \<subseteq> set (b_devices b)"
    unfolding b1_def using step_disconnect by (auto split: option.splits)
  show ?thesis
  proof (cases "register_device now u dev sid fam orig b1")
    case (Inl e)
    then have "b' = b1" using assms by (simp add: join_broker_def b1_def [symmetric])
    then show ?thesis using r1 by blast
  next
    case (Inr z)
    then obtain r b2 where z: "register_device now u dev sid fam orig b1 = Inr (r, b2)" by (cases z) simp
    then have "b' = b2" using assms by (simp add: join_broker_def b1_def [symmetric])
    then show ?thesis using r1 step_register [OF z] by blast
  qed
qed

lemma sock_step_steps:
  assumes "sock_step P b b'"
  shows "b' = b \<or> broker_step b b' \<or> (\<exists>x. broker_step b x \<and> set (b_devices x) \<subseteq> set (b_devices b) \<and> broker_step x b')"
  using assms
proof (rule sock_step.cases, goal_cases)
  case 1
  then show ?case using join_broker_steps by (auto simp: sock_join_def split: sum.splits prod.splits)
next
  case 2
  then show ?case by (auto simp: sock_heartbeat_def intro: step_heartbeat split: if_splits sum.splits)
next
  case 3
  then show ?case by (auto simp: sock_open_session_def intro: step_open split: option.splits if_splits sum.splits)
next
  case 4
  then show ?case by (auto simp: sock_close_session_def intro: step_close split: option.splits if_splits sum.splits)
next
  case 5
  then show ?case by (auto simp: sock_command_result_def intro: step_result split: sum.splits)
qed (auto simp: sock_disconnect_def intro: step_disconnect step_dispatch step_abandon step_cancel step_transport)

lemma sock_step_broker: "sock_step P b b' \<Longrightarrow> broker_run b b'"
  using sock_step_steps [of P b b'] by (auto intro: run_refl run_one run_step)

text \<open>A command that is in flight after a step was in flight before it, or is one for a device registered for its user.\<close>

lemma broker_step_pending:
  assumes "broker_step b b'" "(c, p) \<in> set (b_pending b')"
  shows "(c, p) \<in> set (b_pending b) \<or> (\<exists>d. (p_device_id p, d) \<in> set (b_devices b) \<and> bd_user_id d = p_user_id p)"
  using assms(1)
proof (cases rule: broker_step_cases)
  case finish
  then have "set (b_pending b') \<subseteq> set (b_pending b)"
    by (rule finishes_invariant) (auto simp: AList.delete_eq)
  then show ?thesis using assms(2) by blast
next
  case (dispatch cid nonce now u s name args m t req)
  from dispatch(1) obtain q where q: "admissible b q" "b_pending b' = AList.update (p_command_id q) q (b_pending b)"
    by (auto elim!: dispatch_beginE)
  then have "(c, p) = (p_command_id q, q) \<or> (c, p) \<in> set (b_pending b)" using assms(2) set_update_subset by fastforce
  then show ?thesis using q(1) by (auto simp: admissible_def dest: map_of_SomeD)
qed

lemma sock_step_pending:
  assumes "sock_step P b b'" "(c, p) \<in> set (b_pending b')"
  shows "(c, p) \<in> set (b_pending b) \<or> (\<exists>d. (p_device_id p, d) \<in> set (b_devices b) \<and> bd_user_id d = p_user_id p)"
  using sock_step_steps [OF assms(1)] broker_step_pending assms(2) by blast

subsection \<open>Rooms\<close>

text \<open>
  A command is sent to the Socket.IO room of its device. A socket enters the rooms of a join after the broker has registered it
  (other handlers may run in between: \<open>rc_entering\<close>) and leaves all rooms when it disconnects; a socket that another one has replaced stays in them. \<open>rc_joins\<close>
  logs the joins that got as far as entering rooms. Handlers of other parts of the server put sockets only into rooms with other prefixes.
\<close>

definition command_room :: "string \<Rightarrow> string" where
  "command_room device_id = ''browser:device:'' @ device_id"

record room_conf =
  rc_broker :: broker
  rc_entering :: "(string \<times> string) list"
  rc_rooms :: "(string \<times> string) list"
  rc_joins :: "(string \<times> sock_deps \<times> pyval) list"

inductive room_step :: "(sock_deps \<Rightarrow> bool) \<Rightarrow> room_conf \<Rightarrow> room_conf \<Rightarrow> bool" for P where
  room_join: "P D \<Longrightarrow> sock_join D now sid data (rc_broker cf) = (reply, b', rooms) \<Longrightarrow>
    room_step P cf (cf\<lparr>rc_broker := b', rc_entering := map (Pair sid) rooms @ rc_entering cf, rc_joins := (sid, D, data) # rc_joins cf\<rparr>)"
| room_enter: "x \<in> set (rc_entering cf) \<Longrightarrow>
    room_step P cf (cf\<lparr>rc_entering := remove1 x (rc_entering cf), rc_rooms := x # rc_rooms cf\<rparr>)"
| room_gone: "room_step P cf (cf\<lparr>rc_broker := sock_disconnect sid (rc_broker cf), rc_rooms := filter (\<lambda>(s, r). s \<noteq> sid) (rc_rooms cf)\<rparr>)"
| room_other: "sock_step P (rc_broker cf) b' \<Longrightarrow> room_step P cf (cf\<lparr>rc_broker := b'\<rparr>)"

inductive room_run :: "(sock_deps \<Rightarrow> bool) \<Rightarrow> room_conf \<Rightarrow> room_conf \<Rightarrow> bool" for P where
  rooms_refl: "room_run P cf cf"
| rooms_step: "room_run P cf cf' \<Longrightarrow> room_step P cf' cf'' \<Longrightarrow> room_run P cf cf''"

definition no_rooms :: "broker \<Rightarrow> room_conf" where
  "no_rooms b = \<lparr>rc_broker = b, rc_entering = [], rc_rooms = [], rc_joins = []\<rparr>"

text \<open>The socket has joined for this user and device.\<close>

definition joined_as :: "(sock_deps \<Rightarrow> bool) \<Rightarrow> room_conf \<Rightarrow> string \<Rightarrow> string \<Rightarrow> string \<Rightarrow> bool" where
  "joined_as P cf sid u dev \<longleftrightarrow> (\<exists>D data fam orig. (sid, D, data) \<in> set (rc_joins cf) \<and> P D \<and> join_evidence D data u dev fam orig)"

definition rooms_ok :: "(sock_deps \<Rightarrow> bool) \<Rightarrow> room_conf \<Rightarrow> bool" where
  "rooms_ok P cf \<longleftrightarrow> (\<forall>(sid, r) \<in> set (rc_entering cf) \<union> set (rc_rooms cf).
     \<exists>u dev. joined_as P cf sid u dev \<and> r \<in> {''browser:user:'' @ u, command_room dev})"

definition pending_ok :: "(sock_deps \<Rightarrow> bool) \<Rightarrow> broker \<Rightarrow> bool" where
  "pending_ok P b \<longleftrightarrow> (\<forall>(c, p) \<in> set (b_pending b).
     \<exists>D data fam orig. P D \<and> join_evidence D data (p_user_id p) (p_device_id p) fam orig)"

definition devices_ok :: "(sock_deps \<Rightarrow> bool) \<Rightarrow> broker \<Rightarrow> bool" where
  "devices_ok P b \<longleftrightarrow> (\<forall>(i, d) \<in> set (b_devices b). authenticated P d)"

lemma join_rooms:
  assumes "sock_join D now sid data b = (reply, b', rooms)"
  shows "rooms = [] \<or> (\<exists>u dev fam orig. join_evidence D data u dev fam orig \<and> set rooms = {''browser:user:'' @ u, command_room dev})"
proof (cases "join_authenticate D data")
  case (Inr z)
  then obtain u dv f orig where z: "join_authenticate D data = Inr (u, dv, f, orig)" by (cases z) simp
  then have "join_broker now sid u dv f orig b = (reply, b', rooms)" using assms by (simp add: sock_join_def)
  then have "rooms = [] \<or> set rooms = {''browser:user:'' @ u, command_room dv}"
    by (auto simp: join_broker_def command_room_def Let_def split: sum.splits)
  then show ?thesis using join_authenticate_evidence [OF z] by blast
qed (use assms in \<open>simp add: sock_join_def\<close>)

lemma rooms_ok_subset:
  assumes "rooms_ok P cf" "set (rc_joins cf) \<subseteq> set (rc_joins cf')"
    and "set (rc_entering cf') \<union> set (rc_rooms cf') \<subseteq> set (rc_entering cf) \<union> set (rc_rooms cf)"
  shows "rooms_ok P cf'"
proof -
  have "joined_as P cf s u dev \<Longrightarrow> joined_as P cf' s u dev" for s u dev using assms(2) unfolding joined_as_def by blast
  then show ?thesis using assms(1,3) unfolding rooms_ok_def by blast
qed

lemma rooms_ok_step:
  assumes "room_step P cf cf'" "rooms_ok P cf"
  shows "rooms_ok P cf'"
  using assms(1)
proof cases
  case (room_join D now sid data reply b' rooms)
  have old: "joined_as P cf s u dev \<Longrightarrow> joined_as P cf' s u dev" for s u dev using room_join(1) by (auto simp: joined_as_def)
  have new: "\<exists>u dev. joined_as P cf' sid u dev \<and> r \<in> {''browser:user:'' @ u, command_room dev}" if "r \<in> set rooms" for r
  proof -
    from join_rooms [OF room_join(3)] that obtain u dev fam orig where
      "join_evidence D data u dev fam orig" "set rooms = {''browser:user:'' @ u, command_room dev}" by fastforce
    moreover have "(sid, D, data) \<in> set (rc_joins cf')" using room_join(1) by simp
    ultimately have "joined_as P cf' sid u dev" using room_join(2) unfolding joined_as_def by blast
    then show ?thesis using that \<open>set rooms = _\<close> by blast
  qed
  have "\<exists>u dev. joined_as P cf' s u dev \<and> r \<in> {''browser:user:'' @ u, command_room dev}"
    if "(s, r) \<in> set (rc_entering cf') \<union> set (rc_rooms cf')" for s r
  proof (cases "s = sid \<and> r \<in> set rooms")
    case True
    then show ?thesis using new by blast
  next
    case False
    then have "(s, r) \<in> set (rc_entering cf) \<union> set (rc_rooms cf)" using that room_join(1) by auto
    then show ?thesis using old assms(2) unfolding rooms_ok_def by blast
  qed
  then show ?thesis unfolding rooms_ok_def by blast
qed (rule rooms_ok_subset [OF assms(2)]; use set_remove1_subset in fastforce)+

lemma devices_ok_step:
  assumes "sock_step P b b'" "registry_inv b" "devices_ok P b" "pending_ok P b"
  shows "devices_ok P b' \<and> pending_ok P b'"
proof
  have "authenticated P d'" if "(i, d') \<in> set (b_devices b')" for i d'
    using sock_step_devices [OF assms(1) that] assms(3) by (auto simp: authenticated_def devices_ok_def)
  then show "devices_ok P b'" by (auto simp: devices_ok_def)
  have "\<exists>D data fam orig. P D \<and> join_evidence D data (p_user_id p) (p_device_id p) fam orig" if "(c, p) \<in> set (b_pending b')" for c p
    using sock_step_pending [OF assms(1) that]
  proof (elim disjE exE conjE)
    fix d
    assume d: "(p_device_id p, d) \<in> set (b_devices b)" "bd_user_id d = p_user_id p"
    then have "authenticated P d" "bd_device_id d = p_device_id p" using assms(2,3) by (auto simp: devices_ok_def registry_inv_def)
    then show ?thesis using d(2) by (auto simp: authenticated_def)
  qed (use assms(4) in \<open>auto simp: pending_ok_def\<close>)
  then show "pending_ok P b'" by (auto simp: pending_ok_def)
qed

lemma room_step_sock: "room_step P cf cf' \<Longrightarrow> rc_broker cf' = rc_broker cf \<or> sock_step P (rc_broker cf) (rc_broker cf')"
  by (erule room_step.cases) (auto intro: ss_join ss_disconnect)

lemma room_run_ok:
  assumes "room_run P (no_rooms (broker_init t n m)) cf"
  shows "broker_run (broker_init t n m) (rc_broker cf) \<and> devices_ok P (rc_broker cf) \<and> pending_ok P (rc_broker cf) \<and> rooms_ok P cf"
  using assms
proof (induction "no_rooms (broker_init t n m)" cf rule: room_run.induct)
  case rooms_refl
  then show ?case by (simp add: no_rooms_def run_refl devices_ok_def pending_ok_def rooms_ok_def broker_init_def)
next
  case (rooms_step cf' cf'')
  then have b: "broker_run (broker_init t n m) (rc_broker cf')" "devices_ok P (rc_broker cf')" "pending_ok P (rc_broker cf')" by blast+
  from room_step_sock [OF rooms_step(3)] show ?case
  proof
    assume s: "sock_step P (rc_broker cf') (rc_broker cf'')"
    then show ?thesis using devices_ok_step [OF s registry_inv_reachable [OF b(1)] b(2,3)] rooms_ok_step [OF rooms_step(3)] rooms_step(2)
        broker_run_trans [OF sock_step_broker [OF s] b(1)] by blast
  qed (use b rooms_ok_step [OF rooms_step(3)] rooms_step(2) in simp)
qed

text \<open>C14: A command only ever goes to browsers of the user it was dispatched for. In every state of the service of one worker, for every command
  in flight, its device had joined for this very user when the command was dispatched, and every socket that is in the room the
  command is sent to has joined as this device of this user; each of these joins showed a valid access token for the
  origin the device is paired with, an active, unrevoked row of the device, and a user who exists and may control browsers. The row of a device is
  assumed to keep its owner, which is part of the life cycle of devices.\<close>

theorem commands_reach_own_browser:
  assumes run: "room_run P (no_rooms (broker_init t n m)) cf"
    and owner: "\<And>D i row. P D \<Longrightarrow> get_device D i = Some row \<Longrightarrow> d_user_id row = owner i"
    and pending: "map_of (b_pending (rc_broker cf)) cid = Some p"
  shows "(\<exists>D data fam orig. P D \<and> join_evidence D data (p_user_id p) (p_device_id p) fam orig) \<and>
    (\<forall>sid. (sid, command_room (p_device_id p)) \<in> set (rc_rooms cf) \<longrightarrow>
       (\<exists>D data fam orig. (sid, D, data) \<in> set (rc_joins cf) \<and> P D \<and> join_evidence D data (p_user_id p) (p_device_id p) fam orig))"
proof -
  have ev: "u = owner dev" if "P D" "join_evidence D data u dev fam orig" for D data u dev fam orig
    using owner that by (auto simp: join_evidence_def)
  have ok: "pending_ok P (rc_broker cf)" "rooms_ok P cf" using room_run_ok [OF run] by blast+
  have own: "\<exists>D data fam orig. P D \<and> join_evidence D data (p_user_id p) (p_device_id p) fam orig"
    using ok(1) map_of_SomeD [OF pending] by (auto simp: pending_ok_def)
  then have u: "p_user_id p = owner (p_device_id p)" using ev by blast
  have "joined_as P cf sid (p_user_id p) (p_device_id p)" if "(sid, command_room (p_device_id p)) \<in> set (rc_rooms cf)" for sid
  proof -
    from ok(2) that obtain v dev where "joined_as P cf sid v dev" "command_room (p_device_id p) \<in> {''browser:user:'' @ v, command_room dev}"
      unfolding rooms_ok_def by blast
    then have j: "joined_as P cf sid v (p_device_id p)" by (simp add: command_room_def)
    then have "v = p_user_id p" using ev u unfolding joined_as_def by metis
    with j show ?thesis by simp
  qed
  then show ?thesis using own unfolding joined_as_def by blast
qed

definition live_row :: paired_device where
  "live_row = \<lparr>d_id = ''d'', d_user_id = ''u'', d_label = ''l'', refresh_token_hash = ''h'', previous_refresh_token_hash = None,
     rotated_at = None, token_family_id = ''f'', allowed_origin = ''o'', d_extension_version = ''1'', last_seen_at = None,
     revoked_at = None, d_created_at = 0, d_updated_at = 0\<rparr>"

definition live_deps :: sock_deps where
  "live_deps = \<lparr>
     decode_access_token = (\<lambda>token origin. Some (PDict [(''id'', PStr ''u''), (''device_id'', PStr ''d''), (''token_family_id'', PStr ''f''),
       (''origin'', PStr ''o'')])),
     get_device = default_get_device [live_row], get_user = (\<lambda>i. Some \<lparr>su_id = i, su_role = ''user''\<rparr>),
     has_permission = default_has_permission (PDict []) (\<lambda>i. [])\<rparr>"

lemma live_room_run:
  "\<exists>cf. room_run (\<lambda>D. D = live_deps) (no_rooms (broker_init 30 1000 256)) cf \<and> rc_broker cf = live_busy \<and>
     (''k'', command_room ''d'') \<in> set (rc_rooms cf)"
proof -
  let ?b1 = "(broker_init 30 1000 256)\<lparr>b_devices := [(''d'', live_device)]\<rparr>"
  have auth: "join_authenticate live_deps (PDict [(''accessToken'', PStr ''x''), (''origin'', PStr ''o'')]) = Inr (''u'', ''d'', ''f'', ''o'')"
    by (simp add: join_authenticate_def join_claims_def keys_are_def live_deps_def nonempty_str_def join_device_def default_get_device_def
        device_get_active_def scalar_one_or_none_def live_row_def device_matches_def join_user_def default_has_permission_def
        has_browser_extension_permission_def stored_group_permissions_def default_setting_def py_or_def py_truthy_def map_filter_simps)
  let ?data = "PDict [(''accessToken'', PStr ''x''), (''origin'', PStr ''o'')]" and ?c0 = "no_rooms (broker_init 30 1000 256)"
  let ?rooms = "[(''k'', ''browser:user:u''), (''k'', command_room ''d'')]"
  obtain reply where j: "sock_join live_deps 0 ''k'' ?data (broker_init 30 1000 256) = (reply, ?b1, [''browser:user:u'', command_room ''d''])"
    using live_register by (simp add: sock_join_def auth join_broker_def command_room_def) (simp add: broker_init_def Let_def)
  obtain reply' where o: "sock_open_session 0 ''k'' (PDict [(''sessionId'', PStr ''s''), (''tabId'', PInt 3), (''tabOrigin'', PStr ''t''),
    (''actionMode'', PStr ''autonomous''), (''tabPolicy'', PStr ''locked'')]) ?b1 = (reply', live_open)"
    by (simp add: sock_open_session_def keys_are_def live_opens insert_commute)
  let ?c1 = "?c0\<lparr>rc_broker := ?b1, rc_entering := ?rooms, rc_joins := [(''k'', live_deps, ?data)]\<rparr>"
  let ?c2 = "?c1\<lparr>rc_entering := [(''k'', ''browser:user:u'')], rc_rooms := [(''k'', command_room ''d'')]\<rparr>"
  have s1: "room_step (\<lambda>D. D = live_deps) ?c0 ?c1"
    using room_join [of "\<lambda>D. D = live_deps" live_deps 0 "''k''" ?data ?c0] j by (simp add: no_rooms_def)
  have s2: "room_step (\<lambda>D. D = live_deps) ?c1 ?c2"
    using room_enter [of "(''k'', command_room ''d'')" ?c1] by (simp add: no_rooms_def command_room_def)
  have s3: "room_step (\<lambda>D. D = live_deps) ?c2 (?c2\<lparr>rc_broker := live_open\<rparr>)"
    using ss_open [OF o] by (intro room_other) simp
  have "sock_step (\<lambda>D. D = live_deps) live_open live_busy"
    by (rule ss_dispatch [OF live_dispatch]) (simp_all add: live_defs broker_init_def has_key_def)
  then have s4: "room_step (\<lambda>D. D = live_deps) (?c2\<lparr>rc_broker := live_open\<rparr>) (?c2\<lparr>rc_broker := live_busy\<rparr>)"
    using room_other [of "\<lambda>D. D = live_deps" "?c2\<lparr>rc_broker := live_open\<rparr>" live_busy] by simp
  have "room_run (\<lambda>D. D = live_deps) ?c0 (?c2\<lparr>rc_broker := live_busy\<rparr>)"
    by (rule rooms_step [OF rooms_step [OF rooms_step [OF rooms_step [OF rooms_refl s1] s2] s3] s4])
  then show ?thesis by (intro exI [of _ "?c2\<lparr>rc_broker := live_busy\<rparr>"]) simp
qed

theorem commands_reach_own_browser_witness:
  "\<exists>cf p D data fam orig. room_run (\<lambda>D. D = live_deps) (no_rooms (broker_init 30 1000 256)) cf \<and>
     map_of (b_pending (rc_broker cf)) ''c'' = Some p \<and> (''k'', D, data) \<in> set (rc_joins cf) \<and> join_evidence D data ''u'' ''d'' fam orig"
proof -
  obtain cf where cf: "room_run (\<lambda>D. D = live_deps) (no_rooms (broker_init 30 1000 256)) cf" "rc_broker cf = live_busy"
    "(''k'', command_room ''d'') \<in> set (rc_rooms cf)" using live_room_run by blast
  have p: "map_of (b_pending (rc_broker cf)) ''c'' = Some live_command" by (simp add: cf(2) live_defs)
  have "d_user_id row = ''u''" if "D = live_deps" "get_device D i = Some row" for D i row
    using that by (auto simp: live_deps_def default_get_device_def device_get_active_def scalar_one_or_none_def live_row_def split: if_splits)
  from commands_reach_own_browser [OF cf(1) this p] cf p show ?thesis by (fastforce simp: live_command_def)
qed

text \<open>A socket can only answer for its own device: the commands a result event removes are
  commands of the one device registered for the socket it came from.\<close>

theorem results_from_own_socket:
  assumes "sock_command_result frepr sid data b = (reply, b')"
    and "map_of (b_pending b) c = Some p" "\<not> has_key (b_pending b') c"
  shows "\<exists>d. device_for_sid b sid = Inr d \<and> bd_device_id d = p_device_id p \<and> bd_sid d = sid"
proof -
  have "b' \<noteq> b" using assms(2,3) by (auto simp: has_key_def)
  then obtain d v where d: "device_for_sid b sid = Inr d" and a: "accept_result frepr (Some (bd_device_id d)) data b = Inr (v, b')"
    using assms(1) by (auto simp: sock_command_result_def split: sum.splits)
  from a show ?thesis
  proof (rule accept_resultE)
    fix e q payload out
    assume "map_of (b_pending b) (str_of (pget e ''id'')) = Some q" "result_identity ''command.result'' (Some (bd_device_id d)) q e payload"
      "b' = settle (str_of (pget e ''id'')) out (remove_pending (str_of (pget e ''id'')) b)"
    moreover from this(3) assms(2,3) have "c = str_of (pget e ''id'')" by (auto simp: has_key_def split: if_splits)
    ultimately show ?thesis using assms(2) d device_for_sid_in [OF d] by (auto simp: result_identity_def)
  qed
qed

theorem results_from_own_socket_witness:
  "\<exists>reply b' d. sock_command_result (\<lambda>_. []) ''k'' live_result live_busy = (reply, b') \<and> \<not> has_key (b_pending b') ''c'' \<and>
     device_for_sid live_busy ''k'' = Inr d \<and> bd_device_id d = ''d''"
proof -
  have p: "map_of (b_pending live_busy) ''c'' = Some live_command" by (simp add: live_defs)
  obtain reply b' where r: "sock_command_result (\<lambda>_. []) ''k'' live_result live_busy = (reply, b')" by fastforce
  have "case sock_command_result (\<lambda>_. []) ''k'' live_result live_busy of (r, b') \<Rightarrow> \<not> has_key (b_pending b') ''c''" by code_simp
  then have gone: "\<not> has_key (b_pending b') ''c''" using r by simp
  from results_from_own_socket [OF r p gone] gone r show ?thesis by (auto simp: live_command_def)
qed

text \<open>An \<open>open_session\<close> event whose \<open>actionMode\<close> is a list, and whose other fields are fine, is not
  answered with \<open>invalid_action_mode\<close>: the membership test in a set display raises
  \<open>TypeError\<close>, which the handler does not catch.\<close>

theorem open_session_unhashable_mode:
  assumes "device_for_sid b sid = Inr d" "s \<noteq> []" "0 \<le> tab" "orig \<noteq> []"
  shows "fst (sock_open_session now sid (PDict [(''sessionId'', PStr s), (''tabId'', PInt tab), (''tabOrigin'', PStr orig),
    (''actionMode'', PList l), (''tabPolicy'', PStr ''locked'')]) b) = Inl EscapesTypeError"
  using assms by (simp add: sock_open_session_def keys_are_def broker_open_session_def nonempty_str_def in_display_def caught_def insert_commute)

theorem open_session_unhashable_mode_witness:
  "fst (sock_open_session 0 ''k'' (PDict [(''sessionId'', PStr ''s''), (''tabId'', PInt 3), (''tabOrigin'', PStr ''t''),
    (''actionMode'', PList []), (''tabPolicy'', PStr ''locked'')]) live_open) = Inl EscapesTypeError"
  by (rule open_session_unhashable_mode [where d = live_device]) (simp_all add: live_defs broker_init_def device_for_sid_def)

end
