(* ===== verification/Rate_Limit.thy ===== *)
theory Rate_Limit
  imports Py_Str
begin

section \<open>The rolling-window rate limiter (utils/rate\_limit.py)\<close>

text \<open>
  \<open>RateLimiter\<close> counts events per key in time buckets, in Redis when a client is configured
  and in a process-wide dictionary otherwise, or when Redis raises. The class attribute
  \<open>_memory_store\<close> is explicit state (\<open>mem_store\<close>); the Redis client is a parameter, a record
  of the three calls the code makes, each of which may raise. The specification is a log of
  the events; \<open>rolling_counter\<close> is the contract of a counting backend and \<open>memctr\<close> its
  interpretation on the in-memory backend.
\<close>

record limiter =
  rl_limit :: int
  rl_window :: int
  bucket_size :: int
  num_buckets :: int
  rl_enabled :: bool

datatype init_error = ZeroDivisionError

definition RateLimiter_init :: "int \<Rightarrow> int \<Rightarrow> int \<Rightarrow> bool \<Rightarrow> (init_error, limiter) result" where
  "RateLimiter_init limit window bs en =
     (if bs = 0 then Inl ZeroDivisionError
      else Inr \<lparr>rl_limit = limit, rl_window = window, bucket_size = bs, num_buckets = window div bs, rl_enabled = en\<rparr>)"

type_synonym mem_store = "(string, (int, nat) dict) dict"

text \<open>\<open>int(time.time()) // bucket_size\<close>, the clock in whole seconds.\<close>

definition current_bucket :: "limiter \<Rightarrow> int \<Rightarrow> int" where
  "current_bucket l now = now div bucket_size l"

definition bump_bucket :: "(int, nat) dict \<Rightarrow> int \<Rightarrow> (int, nat) dict" where
  "bump_bucket st b = AList.update b ((case map_of st b of None \<Rightarrow> 0 | Some c \<Rightarrow> c) + 1) st"

definition drop_expired :: "int \<Rightarrow> (int, nat) dict \<Rightarrow> (int, nat) dict" where
  "drop_expired min_bucket st = filter (\<lambda>p. \<not> fst p < min_bucket) st"

definition bucket_total :: "(int, nat) dict \<Rightarrow> nat" where
  "bucket_total st = sum_list (map snd st)"

definition is_limited_memory :: "limiter \<Rightarrow> int \<Rightarrow> mem_store \<Rightarrow> string \<Rightarrow> bool \<times> mem_store" where
  "is_limited_memory l now ms key =
     (let now_bucket = current_bucket l now;
          store0 = (case map_of ms key of None \<Rightarrow> [] | Some st \<Rightarrow> st);
          store1 = bump_bucket store0 now_bucket;
          store2 = drop_expired (now_bucket - num_buckets l) store1;
          total = bucket_total store2
      in (int total > rl_limit l, AList.update key store2 ms))"

definition get_count_memory :: "limiter \<Rightarrow> int \<Rightarrow> mem_store \<Rightarrow> string \<Rightarrow> nat \<times> mem_store" where
  "get_count_memory l now ms key =
     (case map_of ms key of
        None \<Rightarrow> (0, ms)
      | Some st \<Rightarrow>
          (let st' = drop_expired (current_bucket l now - num_buckets l) st
           in (bucket_total st', AList.update key st' ms)))"

text \<open>The Redis client: a parameter. The first component is \<open>None\<close> when the call raises.\<close>

record 'r redis_ops =
  r_incr :: "'r \<Rightarrow> string \<Rightarrow> int option \<times> 'r"
  r_expire :: "'r \<Rightarrow> string \<Rightarrow> int \<Rightarrow> unit option \<times> 'r"
  r_mget :: "'r \<Rightarrow> string list \<Rightarrow> int option list option \<times> 'r"

definition bucket_key :: "string \<Rightarrow> string \<Rightarrow> int \<Rightarrow> string" where
  "bucket_key pre key b = pre @ '':ratelimit:'' @ py_lower key @ '':'' @ int_str b"

definition window_keys :: "string \<Rightarrow> limiter \<Rightarrow> string \<Rightarrow> int \<Rightarrow> string list" where
  "window_keys pre l key now_bucket = map (\<lambda>i. bucket_key pre key (now_bucket - int i)) [0..<nat (num_buckets l + 1)]"

definition sum_counts :: "int option list \<Rightarrow> int" where
  "sum_counts cs = sum_list (map (\<lambda>c. case c of None \<Rightarrow> 0 | Some n \<Rightarrow> n) cs)"

definition is_limited_redis ::
  "'r redis_ops \<Rightarrow> string \<Rightarrow> limiter \<Rightarrow> int \<Rightarrow> 'r \<Rightarrow> string \<Rightarrow> bool option \<times> 'r" where
  "is_limited_redis R pre l now r key =
     (let now_bucket = current_bucket l now;
          bk = bucket_key pre key now_bucket
      in case r_incr R r bk of
           (None, r1) \<Rightarrow> (None, r1)
         | (Some attempts, r1) \<Rightarrow>
             (case (if attempts = 1 then r_expire R r1 bk (rl_window l + bucket_size l) else (Some (), r1)) of
                (None, r2) \<Rightarrow> (None, r2)
              | (Some _, r2) \<Rightarrow>
                  (case r_mget R r2 (window_keys pre l key now_bucket) of
                     (None, r3) \<Rightarrow> (None, r3)
                   | (Some counts, r3) \<Rightarrow> (Some (sum_counts counts > rl_limit l), r3))))"

definition get_count_redis ::
  "'r redis_ops \<Rightarrow> string \<Rightarrow> limiter \<Rightarrow> int \<Rightarrow> 'r \<Rightarrow> string \<Rightarrow> int option \<times> 'r" where
  "get_count_redis R pre l now r key =
     (case r_mget R r (window_keys pre l key (current_bucket l now)) of
        (None, r') \<Rightarrow> (None, r')
      | (Some counts, r') \<Rightarrow> (Some (sum_counts counts), r'))"

text \<open>
  \<open>is_limited\<close> and \<open>get_count\<close>: the client is \<open>None\<close> when Redis is not configured; any
  exception of the Redis path falls back to the memory path.
\<close>

definition is_limited ::
  "'r redis_ops option \<Rightarrow> string \<Rightarrow> limiter \<Rightarrow> int \<Rightarrow> 'r \<Rightarrow> mem_store \<Rightarrow> string \<Rightarrow> bool \<times> 'r \<times> mem_store" where
  "is_limited client pre l now r ms key =
     (if \<not> rl_enabled l then (False, r, ms)
      else case client of
        None \<Rightarrow> (let (b, ms') = is_limited_memory l now ms key in (b, r, ms'))
      | Some R \<Rightarrow>
          (case is_limited_redis R pre l now r key of
             (Some b, r') \<Rightarrow> (b, r', ms)
           | (None, r') \<Rightarrow> (let (b, ms') = is_limited_memory l now ms key in (b, r', ms'))))"

definition get_count ::
  "'r redis_ops option \<Rightarrow> string \<Rightarrow> limiter \<Rightarrow> int \<Rightarrow> 'r \<Rightarrow> mem_store \<Rightarrow> string \<Rightarrow> int \<times> 'r \<times> mem_store" where
  "get_count client pre l now r ms key =
     (if \<not> rl_enabled l then (0, r, ms)
      else case client of
        None \<Rightarrow> (let (n, ms') = get_count_memory l now ms key in (int n, r, ms'))
      | Some R \<Rightarrow>
          (case get_count_redis R pre l now r key of
             (Some n, r') \<Rightarrow> (n, r', ms)
           | (None, r') \<Rightarrow> (let (n, ms') = get_count_memory l now ms key in (int n, r', ms'))))"

definition remaining ::
  "'r redis_ops option \<Rightarrow> string \<Rightarrow> limiter \<Rightarrow> int \<Rightarrow> 'r \<Rightarrow> mem_store \<Rightarrow> string \<Rightarrow> int \<times> 'r \<times> mem_store" where
  "remaining client pre l now r ms key =
     (let (used, r', ms') = get_count client pre l now r ms key in (max 0 (rl_limit l - used), r', ms'))"

subsection \<open>Specification: a log of events\<close>

type_synonym hit_log = "(string \<times> int) list"

text \<open>Events of \<open>key\<close> in buckets \<open>lo\<close> and later.\<close>

definition hits :: "hit_log \<Rightarrow> string \<Rightarrow> int \<Rightarrow> nat" where
  "hits lg key lo = length (filter (\<lambda>e. fst e = key \<and> lo \<le> snd e) lg)"

text \<open>The decisions an ideal limiter makes on timed requests \<open>(now, key)\<close>.\<close>

fun ideal_run :: "limiter \<Rightarrow> hit_log \<Rightarrow> (int \<times> string) list \<Rightarrow> bool list" where
  "ideal_run l lg [] = []"
| "ideal_run l lg ((now, key) # rs) =
     (let b = current_bucket l now; lg' = lg @ [(key, b)]
      in (int (hits lg' key (b - num_buckets l)) > rl_limit l) # ideal_run l lg' rs)"

fun memory_run :: "limiter \<Rightarrow> mem_store \<Rightarrow> (int \<times> string) list \<Rightarrow> bool list" where
  "memory_run l ms [] = []"
| "memory_run l ms ((now, key) # rs) =
     (let (b, ms') = is_limited_memory l now ms key in b # memory_run l ms' rs)"

fun redis_run :: "'r redis_ops \<Rightarrow> string \<Rightarrow> limiter \<Rightarrow> 'r \<Rightarrow> (int \<times> string) list \<Rightarrow> bool option list" where
  "redis_run R pre l r [] = []"
| "redis_run R pre l r ((now, key) # rs) =
     (let (b, r') = is_limited_redis R pre l now r key in b # redis_run R pre l r' rs)"

lemma hits_append: "hits (lg @ lg') key lo = hits lg key lo + hits lg' key lo"
  by (simp add: hits_def)

lemma hits_single: "hits [(k, b)] key lo = (if k = key \<and> lo \<le> b then 1 else 0)"
  by (simp add: hits_def)

subsection \<open>The contract of a counting backend\<close>

text \<open>
  \<open>step s b k\<close> records an event of \<open>k\<close> in bucket \<open>b\<close> and returns the number it counts in
  the window ending at \<open>b\<close>; \<open>rel b lg s\<close> says that \<open>s\<close> represents \<open>lg\<close> for every window
  that ends at \<open>b\<close> or later.
\<close>

locale rolling_counter =
  fixes step :: "'s \<Rightarrow> int \<Rightarrow> string \<Rightarrow> nat \<times> 's"
    and rel :: "int \<Rightarrow> hit_log \<Rightarrow> 's \<Rightarrow> bool"
    and width :: int
  assumes rel_mono: "rel b lg s \<Longrightarrow> b \<le> b' \<Longrightarrow> rel b' lg s"
    and step_count: "rel b lg s \<Longrightarrow> fst (step s b k) = hits (lg @ [(k, b)]) k (b - width)"
    and step_rel: "rel b lg s \<Longrightarrow> rel b (lg @ [(k, b)]) (snd (step s b k))"
begin

fun counts :: "'s \<Rightarrow> (int \<times> string) list \<Rightarrow> nat list" where
  "counts s [] = []"
| "counts s ((b, k) # rs) = fst (step s b k) # counts (snd (step s b k)) rs"

fun ideal_counts :: "hit_log \<Rightarrow> (int \<times> string) list \<Rightarrow> nat list" where
  "ideal_counts lg [] = []"
| "ideal_counts lg ((b, k) # rs) =
     hits (lg @ [(k, b)]) k (b - width) # ideal_counts (lg @ [(k, b)]) rs"

lemma counts_ideal:
  "rel b0 lg s \<Longrightarrow> sorted (b0 # map fst rs) \<Longrightarrow> counts s rs = ideal_counts lg rs"
proof (induction rs arbitrary: b0 lg s)
  case (Cons r rs)
  obtain b k where r: "r = (b, k)" by force
  have rel: "rel b lg s" using Cons.prems r by (auto intro: rel_mono)
  have "rel b (lg @ [(k, b)]) (snd (step s b k))" using rel by (rule step_rel)
  moreover have "sorted (b # map fst rs)" using Cons.prems(2) r by simp
  ultimately have "counts (snd (step s b k)) rs = ideal_counts (lg @ [(k, b)]) rs" by (rule Cons.IH)
  with step_count [OF rel] r show ?case by simp
qed simp

end

subsection \<open>The in-memory backend meets it\<close>

definition mem_step :: "int \<Rightarrow> mem_store \<Rightarrow> int \<Rightarrow> string \<Rightarrow> nat \<times> mem_store" where
  "mem_step nb ms b key =
     (let store0 = (case map_of ms key of None \<Rightarrow> [] | Some st \<Rightarrow> st);
          store2 = drop_expired (b - nb) (bump_bucket store0 b)
      in (bucket_total store2, AList.update key store2 ms))"

lemma is_limited_memory_step:
  "is_limited_memory l now ms key =
     (let (n, ms') = mem_step (num_buckets l) ms (current_bucket l now) key in (int n > rl_limit l, ms'))"
  by (simp add: is_limited_memory_def mem_step_def Let_def)

text \<open>What one key's buckets hold: from \<open>lo\<close> on, exactly the counts of the lg.\<close>

definition bucket_rel :: "int \<Rightarrow> int \<Rightarrow> int list \<Rightarrow> (int, nat) dict \<Rightarrow> bool" where
  "bucket_rel lo hi bs st \<longleftrightarrow> dict_ok st \<and> (\<forall>b \<in> fst ` set st. b \<le> hi) \<and>
     (\<forall>b \<ge> lo. map_of st b = (if b \<in> set bs then Some (count_list bs b) else None))"

definition mem_rel :: "int \<Rightarrow> int \<Rightarrow> hit_log \<Rightarrow> mem_store \<Rightarrow> bool" where
  "mem_rel nb b lg ms \<longleftrightarrow>
     (\<forall>k. bucket_rel (b - nb) b (map snd (filter (\<lambda>e. fst e = k) lg))
            (case map_of ms k of None \<Rightarrow> [] | Some st \<Rightarrow> st))"

lemma bucket_rel_bump:
  assumes "bucket_rel lo b bs st"
  shows "bucket_rel lo b (bs @ [b]) (bump_bucket st b)"
  using assms unfolding bucket_rel_def bump_bucket_def
  by (auto simp: dom_update image_iff split: option.splits if_splits)

lemma bucket_rel_drop:
  assumes "bucket_rel lo hi bs st"
  shows "bucket_rel lo hi bs (drop_expired lo st)"
  using assms unfolding bucket_rel_def drop_expired_def
  by (auto simp: map_of_filter_dict split: option.splits)

lemma sum_list_dict: "dict_ok d \<Longrightarrow> sum_list (map snd d) = (\<Sum>b \<in> fst ` set d. the (map_of d b))"
proof -
  assume ok: "dict_ok d"
  have "sum_list (map snd d) = sum_list (map (\<lambda>b. the (map_of d b)) (map fst d))"
    using ok by (auto simp: dict_ok_def intro!: arg_cong [where f = sum_list])
  also have "\<dots> = (\<Sum>b \<in> set (map fst d). the (map_of d b))"
    using ok by (intro sum_list_distinct_conv_sum_set) (simp add: dict_ok_def)
  finally show ?thesis by simp
qed

lemma count_list_filter: "P x \<Longrightarrow> count_list (filter P xs) x = count_list xs x"
  by (induction xs) auto

lemma bucket_total_count:
  assumes rel: "bucket_rel lo hi bs st" and low: "\<forall>b \<in> fst ` set st. lo \<le> b"
  shows "bucket_total st = length (filter (\<lambda>b. lo \<le> b) bs)"
proof -
  let ?ys = "filter (\<lambda>b. lo \<le> b) bs"
  have ok: "dict_ok st" using rel by (simp add: bucket_rel_def)
  have dom: "fst ` set st = set ?ys"
  proof
    show "fst ` set st \<subseteq> set ?ys"
    proof
      fix b assume b: "b \<in> fst ` set st"
      with low have "lo \<le> b" by blast
      moreover have "map_of st b \<noteq> None" using b by (simp add: map_of_eq_None_iff)
      ultimately show "b \<in> set ?ys" using rel by (auto simp: bucket_rel_def split: if_splits)
    qed
    show "set ?ys \<subseteq> fst ` set st"
    proof
      fix b assume "b \<in> set ?ys"
      then have "map_of st b \<noteq> None" using rel by (simp add: bucket_rel_def)
      then show "b \<in> fst ` set st" by (simp add: map_of_eq_None_iff)
    qed
  qed
  have "bucket_total st = (\<Sum>b \<in> set ?ys. the (map_of st b))"
    by (simp add: bucket_total_def sum_list_dict [OF ok] dom)
  also have "\<dots> = (\<Sum>b \<in> set ?ys. count_list ?ys b)"
    using rel by (intro sum.cong) (auto simp: bucket_rel_def count_list_filter)
  also have "\<dots> = length ?ys" by (rule sum_count_set) auto
  finally show ?thesis .
qed

lemma mem_rel_mono: "mem_rel nb b lg ms \<Longrightarrow> b \<le> b' \<Longrightarrow> mem_rel nb b' lg ms"
  unfolding mem_rel_def bucket_rel_def by force

lemma mem_rel_key:
  "mem_rel nb b lg ms \<Longrightarrow>
   bucket_rel (b - nb) b (map snd (filter (\<lambda>e. fst e = k) lg) @ [b])
     (drop_expired (b - nb) (bump_bucket (case map_of ms k of None \<Rightarrow> [] | Some st \<Rightarrow> st) b))"
  unfolding mem_rel_def by (intro bucket_rel_drop bucket_rel_bump) blast

lemma drop_expired_low: "\<forall>b \<in> fst ` set (drop_expired lo st). lo \<le> b"
  by (auto simp: drop_expired_def)

lemma mem_step_count:
  assumes "mem_rel nb b lg ms"
  shows "fst (mem_step nb ms b k) = hits (lg @ [(k, b)]) k (b - nb)"
proof -
  let ?st = "drop_expired (b - nb) (bump_bucket (case map_of ms k of None \<Rightarrow> [] | Some st \<Rightarrow> st) b)"
  have "bucket_total ?st = length (filter (\<lambda>b'. b - nb \<le> b') (map snd (filter (\<lambda>e. fst e = k) lg) @ [b]))"
    using mem_rel_key [OF assms] drop_expired_low by (rule bucket_total_count)
  also have "\<dots> = hits (lg @ [(k, b)]) k (b - nb)"
    by (simp add: hits_def filter_map comp_def conj_commute)
  finally show ?thesis by (simp add: mem_step_def Let_def)
qed

lemma mem_step_rel:
  assumes "mem_rel nb b lg ms"
  shows "mem_rel nb b (lg @ [(k, b)]) (snd (mem_step nb ms b k))"
  using assms mem_rel_key [OF assms, of k] by (auto simp: mem_rel_def mem_step_def Let_def)

interpretation memctr: rolling_counter "mem_step nb" "mem_rel nb" nb for nb
  by unfold_locales (auto intro: mem_rel_mono mem_step_count mem_step_rel)

lemma mem_rel_empty: "mem_rel nb b [] []"
  by (simp add: mem_rel_def bucket_rel_def)

lemma memory_run_counts:
  "memory_run l ms rs =
     map (\<lambda>n. int n > rl_limit l) (memctr.counts (num_buckets l) ms (map (\<lambda>(now, k). (current_bucket l now, k)) rs))"
  by (induction l ms rs rule: memory_run.induct)
    (auto simp: is_limited_memory_step Let_def split: prod.splits)

lemma ideal_run_counts:
  "ideal_run l lg rs =
     map (\<lambda>n. int n > rl_limit l) (memctr.ideal_counts (num_buckets l) lg (map (\<lambda>(now, k). (current_bucket l now, k)) rs))"
  by (induction l lg rs rule: ideal_run.induct) (auto simp: Let_def)

lemma sorted_buckets:
  assumes "0 < bucket_size l" and "sorted (map fst rs)"
  shows "sorted (map (\<lambda>r. current_bucket l (fst r)) rs)"
  using assms by (induction rs) (auto simp: current_bucket_def zdiv_mono1)

text \<open>C17: On any sequence of requests whose clock does not go backwards, the in-memory limiter,
  started empty, makes exactly the decisions of the event log: a request is limited when the
  events of its key in the current bucket and the \<open>num_buckets\<close> before it, itself included,
  exceed the limit.\<close>

theorem memory_limiter_refines_log:
  assumes "0 < bucket_size l" and "sorted (map fst rs)"
  shows "memory_run l [] rs = ideal_run l [] rs"
proof -
  let ?bs = "map (\<lambda>(now, k). (current_bucket l now, k)) rs"
  let ?b0 = "case rs of [] \<Rightarrow> 0 | r # _ \<Rightarrow> current_bucket l (fst r)"
  have fst_bs: "map fst ?bs = map (\<lambda>r. current_bucket l (fst r)) rs" by (simp add: split_beta)
  have "sorted (?b0 # map fst ?bs)"
    using sorted_buckets [OF assms] unfolding fst_bs by (cases rs) auto
  with mem_rel_empty have "memctr.counts (num_buckets l) [] ?bs = memctr.ideal_counts (num_buckets l) [] ?bs"
    by (rule memctr.counts_ideal)
  then show ?thesis by (simp add: memory_run_counts ideal_run_counts)
qed

theorem memory_limiter_refines_log_witness:
  "memory_run \<lparr>rl_limit = 1, rl_window = 60, bucket_size = 30, num_buckets = 2, rl_enabled = True\<rparr> []
     [(0, ''a''), (10, ''a''), (20, ''b''), (95, ''a''), (100, ''a'')] = [False, True, False, False, True]"
proof -
  have "memory_run \<lparr>rl_limit = 1, rl_window = 60, bucket_size = 30, num_buckets = 2, rl_enabled = True\<rparr> []
     [(0, ''a''), (10, ''a''), (20, ''b''), (95, ''a''), (100, ''a'')]
     = ideal_run \<lparr>rl_limit = 1, rl_window = 60, bucket_size = 30, num_buckets = 2, rl_enabled = True\<rparr> []
     [(0, ''a''), (10, ''a''), (20, ''b''), (95, ''a''), (100, ''a'')]"
    by (rule memory_limiter_refines_log) simp_all
  also have "\<dots> = [False, True, False, False, True]"
    by (simp add: Let_def current_bucket_def hits_def)
  finally show ?thesis .
qed

end
