(* ===== verification/Request_Prog.thy ===== *)
theory Request_Prog
  imports TB_Prelude
begin

section \<open>Requests as interleaved programs\<close>

text \<open>
  An endpoint is an \<open>async\<close> function: between two database calls the event loop, or another
  worker, may run other requests. A \<open>prog\<close> is such a function as a tree of atomic
  steps on the shared state; \<open>pool_step\<close> interleaves the steps of many requests. What every atomic
  step guarantees (\<open>steps_in R\<close>) every run of a pool guarantees, when \<open>R\<close> is reflexive and
  transitive.
\<close>

datatype ('w, 'a) prog = Ret 'a | Atomic "'w \<Rightarrow> ('w, 'a) prog \<times> 'w"

primrec prog_bind :: "('w, 'a) prog \<Rightarrow> ('a \<Rightarrow> ('w, 'b) prog) \<Rightarrow> ('w, 'b) prog" where
  "prog_bind (Ret a) k = k a"
| "prog_bind (Atomic f) k = Atomic (\<lambda>w. map_prod (\<lambda>p. prog_bind p k) id (f w))"

text \<open>A request that runs with nothing in between.\<close>

primrec run_alone :: "('w, 'a) prog \<Rightarrow> 'w \<Rightarrow> 'a \<times> 'w" where
  "run_alone (Ret a) = (\<lambda>w. (a, w))"
| "run_alone (Atomic f) = (\<lambda>w. case map_prod run_alone id (f w) of (r, w') \<Rightarrow> r w')"

text \<open>Every atomic step the program can ever take relates the states before and after it by \<open>R\<close>.\<close>

primrec steps_in :: "('w \<Rightarrow> 'w \<Rightarrow> bool) \<Rightarrow> ('w, 'a) prog \<Rightarrow> bool" where
  "steps_in R (Ret a) = True"
| "steps_in R (Atomic f) = (\<forall>w. case map_prod (steps_in R) id (f w) of (ok, w') \<Rightarrow> ok \<and> R w w')"

text \<open>Requests that \<open>A\<close> admits arrive at any time; any request in the pool may take its next step.\<close>

inductive pool_step :: "(('w, 'a) prog \<Rightarrow> bool) \<Rightarrow> ('w, 'a) prog list \<times> 'w \<Rightarrow> ('w, 'a) prog list \<times> 'w \<Rightarrow> bool" for A where
  pool_atomic: "i < length ps \<Longrightarrow> ps ! i = Atomic f \<Longrightarrow> f w = (p', w') \<Longrightarrow> pool_step A (ps, w) (ps[i := p'], w')"
| pool_arrive: "A p \<Longrightarrow> pool_step A (ps, w) (ps @ [p], w)"

inductive pool_run :: "(('w, 'a) prog \<Rightarrow> bool) \<Rightarrow> ('w, 'a) prog list \<times> 'w \<Rightarrow> ('w, 'a) prog list \<times> 'w \<Rightarrow> bool" for A where
  pool_refl: "pool_run A c c"
| pool_one: "pool_run A c c' \<Longrightarrow> pool_step A c' c'' \<Longrightarrow> pool_run A c c''"

lemma prog_steps_induct [case_names Ret Atomic]:
  assumes "\<And>a. P (Ret a)" "\<And>f. (\<And>w. P (fst (f w))) \<Longrightarrow> P (Atomic f)"
  shows "P p"
proof (induction p)
  case (Atomic f)
  have "P (fst (f w))" for w by (rule Atomic [of "f w"]) (auto intro: fsts.intros)
  then show ?case by (rule assms(2))
qed (rule assms(1))

lemma steps_in_Atomic [simp]: "steps_in R (Atomic f) \<longleftrightarrow> (\<forall>w. steps_in R (fst (f w)) \<and> R w (snd (f w)))"
  by (simp add: split_beta)

lemma run_alone_Atomic [simp]: "run_alone (Atomic f) w = run_alone (fst (f w)) (snd (f w))"
  by (simp add: split_beta)

declare steps_in.simps(2) [simp del] run_alone.simps(2) [simp del]

lemma steps_in_bind [intro]:
  "steps_in R p \<Longrightarrow> (\<And>a. steps_in R (k a)) \<Longrightarrow> steps_in R (prog_bind p k)"
  by (induction p rule: prog_steps_induct) simp_all

lemma run_alone_bind [simp]:
  "run_alone (prog_bind p k) w = (case run_alone p w of (a, w') \<Rightarrow> run_alone (k a) w')"
  by (induction p arbitrary: w rule: prog_steps_induct) simp_all

text \<open>The interface of a contract on the shared state: a preorder that the steps of the requests respect.\<close>

locale step_contract =
  fixes R :: "'w \<Rightarrow> 'w \<Rightarrow> bool"
  assumes contract_refl: "R w w"
    and contract_trans: "R w w' \<Longrightarrow> R w' w'' \<Longrightarrow> R w w''"
begin

lemma run_alone_contract: "steps_in R p \<Longrightarrow> R w (snd (run_alone p w))"
proof (induction p arbitrary: w rule: prog_steps_induct)
  case (Atomic f)
  then have "R w (snd (f w))" "R (snd (f w)) (snd (run_alone (fst (f w)) (snd (f w))))" by simp_all
  then show ?case using contract_trans by simp
qed (simp add: contract_refl)

lemma pool_step_contract:
  assumes "pool_step A c c'" "list_all (steps_in R) (fst c)" "\<And>p. A p \<Longrightarrow> steps_in R p"
  shows "R (snd c) (snd c') \<and> list_all (steps_in R) (fst c')"
  using assms(1)
proof cases
  case (pool_atomic i ps f w p' w')
  then have "steps_in R (Atomic f)" using assms(2) by (metis fst_conv list_all_length)
  then have "steps_in R p'" "R w w'" using pool_atomic(5) by (auto dest: spec [of _ w])
  then show ?thesis using pool_atomic assms(2) by (auto simp: list_all_length nth_list_update)
next
  case (pool_arrive p ps w)
  then show ?thesis using assms(2,3) by (simp add: contract_refl)
qed

lemma pool_contract:
  assumes "pool_run A c c'" "list_all (steps_in R) (fst c)" "\<And>p. A p \<Longrightarrow> steps_in R p"
  shows "R (snd c) (snd c') \<and> list_all (steps_in R) (fst c')"
  using assms
proof (induction rule: pool_run.induct)
  case (pool_one c c' c'')
  then show ?case using pool_step_contract [of A c' c''] contract_trans by blast
qed (simp add: contract_refl)

end

subsection \<open>Steps that can succeed only once\<close>

text \<open>
  A mark \<open>M\<close> on the shared state that is never taken back, and requests that can only succeed by
  setting it themselves (\<open>must_set\<close>): of two such requests at most one succeeds, however they
  and all others interleave.
\<close>

primrec must_set :: "('w \<Rightarrow> bool) \<Rightarrow> ('w, 'e + 'a) prog \<Rightarrow> bool" where
  "must_set M (Ret r) = (\<exists>e. r = Inl e)"
| "must_set M (Atomic f) = (\<forall>w. case map_prod (must_set M) id (f w) of (ok, w') \<Rightarrow> ok \<or> \<not> M w \<and> M w')"

lemma must_set_Atomic [simp]: "must_set M (Atomic f) \<longleftrightarrow> (\<forall>w. must_set M (fst (f w)) \<or> \<not> M w \<and> M (snd (f w)))"
  by (simp add: split_beta)

declare must_set.simps(2) [simp del]

locale set_once = step_contract R for R :: "'w \<Rightarrow> 'w \<Rightarrow> bool" +
  fixes M :: "'w \<Rightarrow> bool"
  assumes mark_stays: "R w w' \<Longrightarrow> M w \<Longrightarrow> M w'"
begin

definition race :: "nat \<Rightarrow> nat \<Rightarrow> ('w, 'e + 'a) prog list \<times> 'w \<Rightarrow> bool" where
  "race i j c \<longleftrightarrow> i < length (fst c) \<and> j < length (fst c) \<and>
     (\<not> M (snd c) \<longrightarrow> must_set M (fst c ! i) \<and> must_set M (fst c ! j)) \<and> (must_set M (fst c ! i) \<or> must_set M (fst c ! j))"

lemma race_step:
  assumes "pool_step A c c'" "list_all (steps_in R) (fst c)" "\<And>p. A p \<Longrightarrow> steps_in R p" "race i j c" "i \<noteq> j"
  shows "race i j c'"
  using assms(1)
proof cases
  case (pool_atomic k ps f w p' w')
  have w': "R w w'" using pool_step_contract [OF assms(1-3)] pool_atomic by simp
  have r: "i < length ps" "j < length ps" "\<not> M w \<Longrightarrow> must_set M (ps ! i) \<and> must_set M (ps ! j)" "must_set M (ps ! i) \<or> must_set M (ps ! j)"
    using assms(4) pool_atomic by (auto simp: race_def)
  have p': "must_set M p' \<or> \<not> M w \<and> M w'" if "must_set M (ps ! k)"
    using that pool_atomic(4,5) by (metis must_set_Atomic fst_conv snd_conv)
  have "M w \<Longrightarrow> M w'" using mark_stays [OF w'] .
  then show ?thesis using r p' assms(5) pool_atomic(1,2,3) unfolding race_def
    by (cases "k = i"; cases "k = j") auto
next
  case (pool_arrive p ps w)
  then show ?thesis using assms(4) by (auto simp: race_def nth_append)
qed

lemma race_run:
  assumes "pool_run A c c'" "list_all (steps_in R) (fst c)" "\<And>p. A p \<Longrightarrow> steps_in R p" "race i j c" "i \<noteq> j"
  shows "race i j c'"
  using assms
proof (induction rule: pool_run.induct)
  case (pool_one c c' c'')
  then show ?case using race_step [of A c' c'' i j] pool_contract [of A c c'] by blast
qed simp

text \<open>At most one of two requests succeeds.\<close>

lemma at_most_one:
  assumes "pool_run A (ps, w) (ps', w')" "list_all (steps_in R) ps" "\<And>p. A p \<Longrightarrow> steps_in R p" "i \<noteq> j"
    and "i < length ps" "j < length ps" "must_set M (ps ! i)" "must_set M (ps ! j)"
  shows "\<not> (ps' ! i = Ret (Inr a) \<and> ps' ! j = Ret (Inr b))"
proof -
  have "race i j (ps', w')" using race_run [OF assms(1)] assms by (auto simp: race_def)
  then show ?thesis by (auto simp: race_def)
qed

end

end
