(* ===== verification/Browser_Router.thy ===== *)
theory Browser_Router
  imports Browser_Forms Browser_Socket Rate_Limit Config_Store Request_Prog
begin

section \<open>The endpoints of the browser extension (routers/browser\_extension.py)\<close>

text \<open>
  The endpoints as \<open>prog\<close>s over the shared state: the five tables, the process-wide store of the
  rate limiter, Redis and the configuration (\<open>Config_Store\<close>). Every database call is one atomic step (each of
  them commits), everything in between is local to the request. The secret key and the primitives of
  cryptography, JWT and IDNA, the users and the groups, the files on disk and the random values are
  parameters (\<open>router_env\<close>, \<open>fresh\<close>); \<open>rq_clock n\<close> is the nanosecond clock at the n-th reading of a request.
\<close>

record 'r world =
  wd_db :: browser_db
  wd_mem :: mem_store
  wd_redis :: 'r
  wd_config :: config_state

record 'r router_env =
  re_client :: "'r redis_ops option"
  re_prefix :: string
  re_secret :: string
  re_hkdf :: "string \<Rightarrow> string \<Rightarrow> string"
  re_hmac_hex :: "string \<Rightarrow> string \<Rightarrow> string"
  re_hmac_raw :: "string \<Rightarrow> string \<Rightarrow> string"
  re_sha256 :: "string \<Rightarrow> string"
  re_jwt_encode :: "(string \<times> pyval) list \<Rightarrow> string \<Rightarrow> string"
  re_aes_encrypt :: aead
  re_aes_decrypt :: "string \<Rightarrow> string \<Rightarrow> string \<Rightarrow> string \<Rightarrow> string option"
  re_float_repr :: "rat \<Rightarrow> string"
  re_idna :: "string \<Rightarrow> string option"
  re_users :: "string \<Rightarrow> sock_user option"
  re_groups :: "string \<Rightarrow> pyval list"
  re_environment :: string
  re_is_file :: "string \<Rightarrow> bool"
  re_jsonable :: "pyval \<Rightarrow> pyval"

text \<open>The random values a request draws.\<close>

record fresh =
  fr_uuid :: string
  fr_family :: string
  fr_nonce :: string
  fr_jti :: string
  fr_code :: "nat list"
  fr_token :: string

record request =
  rq_client :: "string option"
  rq_origin :: "string option"
  rq_device :: "string option"
  rq_clock :: "nat \<Rightarrow> int"
  rq_fresh :: fresh

datatype uncaught =
    UCrypto crypto_error | UAuth auth_error | UDb db_error | UPermission permission_error | UValidation | UCompareDigest

datatype http_error = HTTPException int string | Uncaught uncaught

type_synonym ('r, 'a) handler = "('r world, (http_error, 'a) result) prog"

definition hbind :: "('r, 'a) handler \<Rightarrow> ('a \<Rightarrow> ('r, 'b) handler) \<Rightarrow> ('r, 'b) handler" where
  "hbind m k = prog_bind m (\<lambda>r. case r of Inl e \<Rightarrow> Ret (Inl e) | Inr a \<Rightarrow> k a)"

definition hlift :: "('e \<Rightarrow> uncaught) \<Rightarrow> ('e, 'a) result \<Rightarrow> ('r, 'a) handler" where
  "hlift exn r = Ret (case r of Inl e \<Rightarrow> Inl (Uncaught (exn e)) | Inr a \<Rightarrow> Inr a)"

definition hraise :: "int \<Rightarrow> string \<Rightarrow> ('r, 'a) handler" where
  "hraise c detail = Ret (Inl (HTTPException c detail))"

definition hcheck :: "bool \<Rightarrow> int \<Rightarrow> string \<Rightarrow> ('r, unit) handler" where
  "hcheck ok c detail = (if ok then Ret (Inr ()) else hraise c detail)"

definition hsome :: "'a option \<Rightarrow> int \<Rightarrow> string \<Rightarrow> ('r, 'a) handler" where
  "hsome v c detail = (case v of None \<Rightarrow> hraise c detail | Some a \<Rightarrow> Ret (Inr a))"

text \<open>A database call on one table, one on the whole database, and a query.\<close>

definition table_call :: "(browser_db \<Rightarrow> 't) \<Rightarrow> ('t \<Rightarrow> browser_db \<Rightarrow> browser_db) \<Rightarrow> ('t \<Rightarrow> (db_error, 'a \<times> 't) result) \<Rightarrow>
   ('r world, (db_error, 'a) result) prog" where
  "table_call get put f = Atomic (\<lambda>w. case f (get (wd_db w)) of
      Inl e \<Rightarrow> (Ret (Inl e), w)
    | Inr (a, t) \<Rightarrow> (Ret (Inr a), w\<lparr>wd_db := put t (wd_db w)\<rparr>))"

definition uncaught_db :: "('r world, (db_error, 'a) result) prog \<Rightarrow> ('r, 'a) handler" where
  "uncaught_db p = prog_bind p (\<lambda>r. hlift UDb r)"

abbreviation on_grants :: "(pairing_grant list \<Rightarrow> (db_error, 'a \<times> pairing_grant list) result) \<Rightarrow> ('r world, (db_error, 'a) result) prog" where
  "on_grants \<equiv> table_call grants (\<lambda>t. grants_update (\<lambda>_. t))"

abbreviation on_devices :: "(paired_device list \<Rightarrow> (db_error, 'a \<times> paired_device list) result) \<Rightarrow> ('r world, (db_error, 'a) result) prog" where
  "on_devices \<equiv> table_call devices (\<lambda>t. devices_update (\<lambda>_. t))"

abbreviation on_workflows :: "(workflow list \<Rightarrow> (db_error, 'a \<times> workflow list) result) \<Rightarrow> ('r world, (db_error, 'a) result) prog" where
  "on_workflows \<equiv> table_call workflows (\<lambda>t. workflows_update (\<lambda>_. t))"

abbreviation on_schedules :: "(schedule list \<Rightarrow> (db_error, 'a \<times> schedule list) result) \<Rightarrow> ('r world, (db_error, 'a) result) prog" where
  "on_schedules \<equiv> table_call schedules (\<lambda>t. schedules_update (\<lambda>_. t))"

abbreviation on_db :: "(browser_db \<Rightarrow> (db_error, 'a \<times> browser_db) result) \<Rightarrow> ('r world, (db_error, 'a) result) prog" where
  "on_db \<equiv> table_call (\<lambda>d. d) (\<lambda>d' d. d')"

definition query :: "(browser_db \<Rightarrow> (db_error, 'a) result) \<Rightarrow> ('r, 'a) handler" where
  "query f = Atomic (\<lambda>w. (hlift UDb (f (wd_db w)), w))"

text \<open>\<open>hmac.compare_digest\<close> on text raises \<open>TypeError\<close> unless both sides are ASCII.\<close>

definition compare_digest :: "string \<Rightarrow> string \<Rightarrow> ('r, bool) handler" where
  "compare_digest a b = Ret (if list_all is_ascii a \<and> list_all is_ascii b then Inr (a = b) else Inl (Uncaught UCompareDigest))"

subsection \<open>Settings, limits and permissions\<close>

record runtime_settings =
  rs_default_permissions :: pyval
  rs_custom_origins_unlocked :: bool
  rs_environment :: string
  rs_default_origin :: string

definition DEFAULT_SERVER_ORIGIN :: string where
  "DEFAULT_SERVER_ORIGIN = ''https://tide-bot.com''"

text \<open>\<open>await Config.upsert({key: v})\<close>, at second \<open>now\<close>.\<close>

definition config_upsert :: "'r router_env \<Rightarrow> int \<Rightarrow> string \<Rightarrow> pyval \<Rightarrow> ('r, unit) handler" where
  "config_upsert E now key v = Atomic (\<lambda>w. (Ret (Inr ()), w\<lparr>wd_config := upsert (re_jsonable E) now [(key, v)] (wd_config w)\<rparr>))"

text \<open>Three reads of the configuration, then the checks of the \<open>pydantic\<close> model.\<close>

definition get_runtime_settings :: "'r router_env \<Rightarrow> ('r, runtime_settings) handler" where
  "get_runtime_settings E = Atomic (\<lambda>w. (
     let permissions = config_get (wd_config w) ''user.permissions'' (PDict [(''features'', PDict [(''browser_extension'', PBool True)])])
     in Atomic (\<lambda>w. (
     let unlocked = py_truthy (config_get (wd_config w) ''browser_extension.custom_origins_unlocked'' (PBool False))
     in Atomic (\<lambda>w. (
     let origin = config_get (wd_config w) ''browser_extension.default_origin'' (PStr DEFAULT_SERVER_ORIGIN)
     in if is_mapping permissions \<and> as_str origin \<noteq> None
        then Ret (Inr \<lparr>rs_default_permissions = permissions, rs_custom_origins_unlocked = unlocked, rs_environment = re_environment E,
                       rs_default_origin = str_of origin\<rparr>)
        else Ret (Inl (Uncaught UValidation)), w)), w)), w))"

definition PAIRING_TTL_SECONDS :: int where "PAIRING_TTL_SECONDS = 300"
definition MAX_DEVICE_LABEL_ATTEMPTS :: nat where "MAX_DEVICE_LABEL_ATTEMPTS = 5"
definition ROTATION_GRACE_SECONDS :: int where "ROTATION_GRACE_SECONDS = 60"

definition BROWSER_EXTENSION_ID :: string where
  "BROWSER_EXTENSION_ID = ''blocbpfgbghpfjdpnmipdcciladcpglg''"

definition browser_limiter :: "int \<Rightarrow> limiter" where
  "browser_limiter n = \<lparr>rl_limit = n, rl_window = 300, bucket_size = 30, num_buckets = 10, rl_enabled = True\<rparr>"

definition pairing_start_ip_limiter :: limiter where "pairing_start_ip_limiter = browser_limiter 10"
definition pairing_approval_limiter :: limiter where "pairing_approval_limiter = browser_limiter 20"
definition pairing_poll_grant_limiter :: limiter where "pairing_poll_grant_limiter = browser_limiter 90"
definition pairing_poll_ip_limiter :: limiter where "pairing_poll_ip_limiter = browser_limiter 120"
definition refresh_device_limiter :: limiter where "refresh_device_limiter = browser_limiter 60"
definition refresh_ip_limiter :: limiter where "refresh_ip_limiter = browser_limiter 120"

definition client_fingerprint :: "'r router_env \<Rightarrow> request \<Rightarrow> string" where
  "client_fingerprint E rq =
     take 24 (re_sha256 E (utf8_encode (case rq_client rq of None \<Rightarrow> ''unknown'' | Some h \<Rightarrow> h)))"

definition check_rate_limit :: "'r router_env \<Rightarrow> limiter \<Rightarrow> int \<Rightarrow> string \<Rightarrow> ('r, unit) handler" where
  "check_rate_limit E l now_ns key = Atomic (\<lambda>w.
     case is_limited (re_client E) (re_prefix E) l (now_ns div 1000000000) (wd_redis w) (wd_mem w) key of
       (limited, r, ms) \<Rightarrow> (hcheck (\<not> limited) 429 ''rate_limited'', w\<lparr>wd_redis := r, wd_mem := ms\<rparr>))"

text \<open>\<open>validate_server_origin\<close> under the settings; all its errors are \<open>ValueError\<close>s.\<close>

definition settings_origin :: "'r router_env \<Rightarrow> runtime_settings \<Rightarrow> string \<Rightarrow> (auth_error, string) result" where
  "settings_origin E st origin =
     validate_server_origin (re_idna E) (rs_default_origin st) (rs_environment st) (rs_custom_origins_unlocked st) origin"

definition error_detail :: "auth_error \<Rightarrow> string" where
  "error_detail e = (case e of OriginError d \<Rightarrow> d | _ \<Rightarrow> [])"

definition validate_origin :: "'r router_env \<Rightarrow> runtime_settings \<Rightarrow> string \<Rightarrow> ('r, string) handler" where
  "validate_origin E st origin = (case settings_origin E st origin of Inl e \<Rightarrow> hraise 403 (error_detail e) | Inr n \<Rightarrow> Ret (Inr n))"

definition require_browser_permission :: "'r router_env \<Rightarrow> runtime_settings \<Rightarrow> sock_user option \<Rightarrow> ('r, unit) handler" where
  "require_browser_permission E st user = (case user of
      None \<Rightarrow> hraise 403 ''browser_extension_not_allowed''
    | Some u \<Rightarrow>
        if su_role u \<notin> {''user'', ''admin''} then hraise 403 ''browser_extension_not_allowed''
        else hbind (hlift UPermission (has_browser_extension_permission (Some (su_role u)) (rs_default_permissions st)
               (stored_group_permissions (re_groups E (su_id u)))))
             (\<lambda>allowed. hcheck allowed 403 ''browser_extension_not_allowed''))"

definition token_hash :: "'r router_env \<Rightarrow> string \<Rightarrow> ('r, string) handler" where
  "token_hash E token = hlift UCrypto (hash_browser_token (re_hkdf E) (re_hmac_hex E) token (re_secret E))"

definition secret_matches :: "'r router_env \<Rightarrow> string \<Rightarrow> string \<Rightarrow> ('r, bool) handler" where
  "secret_matches E stored supplied = hbind (token_hash E supplied) (\<lambda>h. compare_digest stored h)"

subsection \<open>Responses\<close>

record device_response =
  dr_id :: string
  dr_label :: string
  dr_allowed_origin :: string
  dr_extension_version :: string
  dr_last_seen_at :: "int option"
  dr_revoked_at :: "int option"
  dr_created_at :: int
  dr_updated_at :: int

definition safe_device :: "paired_device \<Rightarrow> device_response" where
  "safe_device d = \<lparr>dr_id = d_id d, dr_label = d_label d, dr_allowed_origin = allowed_origin d, dr_extension_version = d_extension_version d,
     dr_last_seen_at = last_seen_at d, dr_revoked_at = revoked_at d, dr_created_at = d_created_at d, dr_updated_at = d_updated_at d\<rparr>"

record token_response =
  tr_access_token :: string
  tr_refresh_token :: string
  tr_token_family_id :: string
  tr_device :: device_response

definition make_token_response :: "'r router_env \<Rightarrow> request \<Rightarrow> nat \<Rightarrow> paired_device \<Rightarrow> string \<Rightarrow> ('r, token_response) handler" where
  "make_token_response E rq n d refresh_token =
     hbind (hlift UAuth (create_browser_access_token (re_hkdf E) (re_jwt_encode E) (d_user_id d) (d_id d) (token_family_id d)
              (allowed_origin d) (re_secret E) (rq_clock rq n div 1000000000) (fr_jti (rq_fresh rq))))
       (\<lambda>access. Ret (Inr \<lparr>tr_access_token = access, tr_refresh_token = refresh_token, tr_token_family_id = token_family_id d,
                           tr_device = safe_device d\<rparr>))"

record workflow_response =
  wr_id :: string
  wr_name :: string
  wr_version :: int
  wr_definition :: "(string \<times> pyval) list"
  wr_created_at :: int
  wr_updated_at :: int

definition safe_workflow :: "'r router_env \<Rightarrow> workflow \<Rightarrow> ('r, workflow_response) handler" where
  "safe_workflow E row =
     hbind (hlift UCrypto (decrypt_workflow_definition (re_hkdf E) (re_aes_decrypt E) (encrypted_definition row) (definition_nonce row)
              (re_secret E) (w_user_id row) (w_id row) (w_version row)))
       (\<lambda>d. Ret (Inr \<lparr>wr_id = w_id row, wr_name = w_name row, wr_version = w_version row, wr_definition = d,
                      wr_created_at = w_created_at row, wr_updated_at = w_updated_at row\<rparr>))"

text \<open>\<open>ScheduleResponse\<close> has the columns of a schedule but the user.\<close>

record schedule_response =
  sr_id :: string
  sr_workflow_id :: string
  sr_device_id :: string
  sr_name :: string
  sr_rrule :: string
  sr_timezone :: string
  sr_is_active :: bool
  sr_last_run_at :: "int option"
  sr_next_run_at :: "int option"
  sr_catch_up_pending :: bool
  sr_created_at :: int
  sr_updated_at :: int

definition safe_schedule :: "schedule \<Rightarrow> schedule_response" where
  "safe_schedule s = \<lparr>sr_id = s_id s, sr_workflow_id = s_workflow_id s, sr_device_id = s_device_id s, sr_name = s_name s, sr_rrule = rrule s,
     sr_timezone = timezone s, sr_is_active = is_active s, sr_last_run_at = last_run_at s, sr_next_run_at = next_run_at s,
     sr_catch_up_pending = catch_up_pending s, sr_created_at = s_created_at s, sr_updated_at = s_updated_at s\<rparr>"

subsection \<open>Pairing\<close>

text \<open>
  \<open>_create_paired_device\<close>: up to five labels are tried, the insert is one transaction each. A rollback
  after an \<open>IntegrityError\<close> has nothing else to undo.
\<close>

fun try_labels ::
  "nat list \<Rightarrow> string \<Rightarrow> string \<Rightarrow> string \<Rightarrow> string \<Rightarrow> string \<Rightarrow> string \<Rightarrow> string \<Rightarrow> string \<Rightarrow> int \<Rightarrow> ('r, paired_device) handler" where
  "try_labels [] device_id user_id label h family origin version uuid now_ns = hraise 409 ''device_label_in_use''"
| "try_labels (attempt # rest) device_id user_id label h family origin version uuid now_ns =
     prog_bind (on_devices (device_insert uuid now_ns (Some device_id) user_id
         (if attempt = 1 then label else label @ '' ('' @ nat_digits attempt @ '')'') h family origin version))
       (\<lambda>r. case r of
          Inr device \<Rightarrow> Ret (Inr device)
        | Inl IntegrityError \<Rightarrow> try_labels rest device_id user_id label h family origin version uuid now_ns
        | Inl e \<Rightarrow> Ret (Inl (Uncaught (UDb e))))"

definition create_paired_device ::
  "'r router_env \<Rightarrow> request \<Rightarrow> string \<Rightarrow> string \<Rightarrow> string \<Rightarrow> string \<Rightarrow> int \<Rightarrow> ('r, paired_device \<times> string) handler" where
  "create_paired_device E rq user_id label origin version now_ns =
     (let device_id = fr_uuid (rq_fresh rq); family = fr_family (rq_fresh rq) in
      hbind (hlift UAuth (create_refresh_credential (re_hkdf E) (re_hmac_raw E) (fr_nonce (rq_fresh rq)) device_id family (re_secret E)))
        (\<lambda>refresh_token. hbind (token_hash E refresh_token)
        (\<lambda>h. hbind (try_labels [1..<MAX_DEVICE_LABEL_ATTEMPTS + 1] device_id user_id label h family origin version device_id now_ns)
        (\<lambda>device. Ret (Inr (device, refresh_token))))))"

definition claim_pairing_with_session ::
  "'r router_env \<Rightarrow> request \<Rightarrow> sock_user option \<Rightarrow> string \<Rightarrow> string \<Rightarrow> string \<Rightarrow> ('r, token_response) handler" where
  "claim_pairing_with_session E rq user label form_origin version =
     hbind (get_runtime_settings E) (\<lambda>st.
     hbind (check_rate_limit E pairing_start_ip_limiter (rq_clock rq 0) (''browser-pair-claim:'' @ client_fingerprint E rq)) (\<lambda>_.
     hbind (hcheck (rq_origin rq = Some (''chrome-extension://'' @ BROWSER_EXTENSION_ID)) 403 ''browser_extension_untrusted_caller'') (\<lambda>_.
     hbind (require_browser_permission E st user) (\<lambda>_.
     hbind (validate_origin E st form_origin) (\<lambda>origin.
     hbind (hsome user 403 ''browser_extension_not_allowed'') (\<lambda>u.
     hbind (create_paired_device E rq (su_id u) label origin version (rq_clock rq 1)) (\<lambda>(device, refresh_token).
     make_token_response E rq 2 device refresh_token)))))))"

record pairing_start =
  ps_grant_id :: string
  ps_device_code :: string
  ps_verifier :: string
  ps_verification_uri :: string
  ps_expires_in :: int

definition start_pairing :: "'r router_env \<Rightarrow> request \<Rightarrow> string \<Rightarrow> string \<Rightarrow> string \<Rightarrow> ('r, pairing_start) handler" where
  "start_pairing E rq label form_origin version =
     hbind (get_runtime_settings E) (\<lambda>st.
     hbind (check_rate_limit E pairing_start_ip_limiter (rq_clock rq 0) (''browser-pair-start:'' @ client_fingerprint E rq)) (\<lambda>_.
     hbind (validate_origin E st form_origin) (\<lambda>origin.
     let sec = create_pairing_secrets (fr_code (rq_fresh rq)) (fr_token (rq_fresh rq)); now = rq_clock rq 1 in
     hbind (token_hash E (device_code sec)) (\<lambda>dch.
     hbind (token_hash E (verifier sec)) (\<lambda>vh.
     hbind (uncaught_db (on_grants (grant_insert (fr_uuid (rq_fresh rq)) now dch vh origin (now + PAIRING_TTL_SECONDS * 1000000000)
              label version None))) (\<lambda>grant.
     Ret (Inr \<lparr>ps_grant_id = g_id grant, ps_device_code = device_code sec, ps_verifier = verifier sec,
               ps_verification_uri = origin @ ''/browser-extension/pair?grant_id='' @ g_id grant, ps_expires_in = PAIRING_TTL_SECONDS\<rparr>)))))))"

definition approve_pairing ::
  "'r router_env \<Rightarrow> request \<Rightarrow> sock_user option \<Rightarrow> string \<Rightarrow> string \<Rightarrow> bool \<Rightarrow> ('r, string) handler" where
  "approve_pairing E rq user grant_id dcode approved =
     hbind (get_runtime_settings E) (\<lambda>st.
     hbind (check_rate_limit E pairing_approval_limiter (rq_clock rq 0)
              (''browser-pair-approve:'' @ client_fingerprint E rq @ '':'' @ grant_id)) (\<lambda>_.
     hbind (query (\<lambda>db. Inr (grant_get_by_id (grants db) grant_id))) (\<lambda>found.
     let now = rq_clock rq 1 in
     hbind (hsome found 404 ''pairing_grant_not_found'') (\<lambda>grant.
     hbind (hcheck (g_status grant = ''pending'') 404 ''pairing_grant_not_found'') (\<lambda>_.
     hbind (hcheck (g_expires_at grant > now) 410 ''expired_token'') (\<lambda>_.
     hbind (secret_matches E (device_code_hash grant) dcode) (\<lambda>matches.
     hbind (hcheck matches 404 ''pairing_grant_not_found'') (\<lambda>_.
     if \<not> approved then
       hbind (uncaught_db (on_grants (grant_deny grant_id now))) (\<lambda>denied.
       hbind (hsome denied 409 ''pairing_state_changed'') (\<lambda>_. Ret (Inr ''denied'')))
     else
       hbind (require_browser_permission E st user) (\<lambda>_.
       hbind (validate_origin E st (requested_origin grant)) (\<lambda>_.
       hbind (hsome user 403 ''browser_extension_not_allowed'') (\<lambda>u.
       hbind (uncaught_db (on_grants (grant_approve grant_id (su_id u) now))) (\<lambda>row.
       hbind (hsome row 409 ''pairing_state_changed'') (\<lambda>_. Ret (Inr ''approved''))))))))))))))"

definition exchange_pairing_token ::
  "'r router_env \<Rightarrow> request \<Rightarrow> string \<Rightarrow> string \<Rightarrow> string \<Rightarrow> ('r, token_response) handler" where
  "exchange_pairing_token E rq grant_id dcode vrf =
     hbind (get_runtime_settings E) (\<lambda>st.
     hbind (check_rate_limit E pairing_poll_ip_limiter (rq_clock rq 0) (''browser-pair-poll-ip:'' @ client_fingerprint E rq)) (\<lambda>_.
     hbind (check_rate_limit E pairing_poll_grant_limiter (rq_clock rq 1) (''browser-pair-poll-grant:'' @ grant_id)) (\<lambda>_.
     hbind (query (\<lambda>db. Inr (grant_get_by_id (grants db) grant_id))) (\<lambda>found.
     let now = rq_clock rq 2 in
     hbind (hsome found 401 ''invalid_grant'') (\<lambda>grant.
     hbind (secret_matches E (device_code_hash grant) dcode) (\<lambda>code_ok.
     hbind (if code_ok then secret_matches E (verifier_hash grant) vrf else Ret (Inr False)) (\<lambda>both_ok.
     hbind (hcheck both_ok 401 ''invalid_grant'') (\<lambda>_.
     hbind (hcheck (g_expires_at grant > now) 410 ''expired_token'') (\<lambda>_.
     hbind (hcheck (g_status grant \<noteq> ''pending'') 428 ''authorization_pending'') (\<lambda>_.
     hbind (hcheck (g_status grant \<noteq> ''denied'') 403 ''access_denied'') (\<lambda>_.
     hbind (hcheck (g_status grant = ''approved'' \<and> g_user_id grant \<noteq> None) 401 ''invalid_grant'') (\<lambda>_.
     let user_id = the (g_user_id grant) in
     hbind (require_browser_permission E st (re_users E user_id)) (\<lambda>_.
     hbind (validate_origin E st (requested_origin grant)) (\<lambda>origin.
     hbind (token_hash E vrf) (\<lambda>vh.
     hbind (uncaught_db (on_grants (grant_consume (g_id grant) vh now))) (\<lambda>row.
     hbind (hsome row 401 ''invalid_grant'') (\<lambda>_.
     hbind (create_paired_device E rq user_id (g_device_label grant) origin (g_extension_version grant) now) (\<lambda>(device, refresh_token).
     make_token_response E rq 3 device refresh_token))))))))))))))))))"

subsection \<open>Refresh credentials\<close>

definition revoke_family :: "string \<Rightarrow> int \<Rightarrow> ('r, unit) handler" where
  "revoke_family family now =
     hbind (uncaught_db (on_devices (\<lambda>rows. Inr (device_revoke_family family now rows)))) (\<lambda>_. Ret (Inr ()))"

text \<open>\<open>except RefreshCredentialError\<close>: the other errors of the decoder are not caught.\<close>

definition refresh_identity_of :: "'r router_env \<Rightarrow> string \<Rightarrow> ('r, refresh_identity) handler" where
  "refresh_identity_of E credential = (case decode_refresh_credential (re_hkdf E) (re_hmac_raw E) credential (re_secret E) of
      Inl RefreshCredentialError \<Rightarrow> hraise 401 ''invalid_refresh_credential''
    | Inl e \<Rightarrow> Ret (Inl (Uncaught (UAuth e)))
    | Inr identity \<Rightarrow> Ret (Inr identity))"

text \<open>The end of \<open>refresh_device_token\<close> for a credential that is not the current one.\<close>

definition refresh_previous :: "'r router_env \<Rightarrow> request \<Rightarrow> paired_device \<Rightarrow> string \<Rightarrow> string \<Rightarrow> ('r, token_response) handler" where
  "refresh_previous E rq device credential current_hash =
     hbind (case previous_refresh_token_hash device of
              None \<Rightarrow> Ret (Inr None)
            | Some previous \<Rightarrow>
                hbind (if previous = [] then Ret (Inr False) else compare_digest previous current_hash) (\<lambda>same.
                if \<not> same then Ret (Inr None)
                else uncaught_db (on_devices (device_restore (d_id device) (token_family_id device) current_hash
                       (rq_clock rq 3 - ROTATION_GRACE_SECONDS * 1000000000) (rq_clock rq 4)))))
       (\<lambda>restored. case restored of
          None \<Rightarrow> hbind (revoke_family (token_family_id device) (rq_clock rq 5)) (\<lambda>_. hraise 401 ''invalid_refresh_credential'')
        | Some row \<Rightarrow> make_token_response E rq 6 row credential)"

text \<open>And for the current one.\<close>

definition refresh_rotate :: "'r router_env \<Rightarrow> request \<Rightarrow> paired_device \<Rightarrow> string \<Rightarrow> string \<Rightarrow> ('r, token_response) handler" where
  "refresh_rotate E rq device current_hash version =
     hbind (hlift UAuth (create_refresh_credential (re_hkdf E) (re_hmac_raw E) (fr_nonce (rq_fresh rq)) (d_id device) (token_family_id device)
              (re_secret E))) (\<lambda>rotated_token.
     hbind (token_hash E rotated_token) (\<lambda>new_hash.
     hbind (uncaught_db (on_devices (device_rotate (d_id device) (token_family_id device) current_hash new_hash (Some version) (rq_clock rq 3))))
       (\<lambda>rotated_row. case rotated_row of
          None \<Rightarrow> hbind (revoke_family (token_family_id device) (rq_clock rq 4)) (\<lambda>_. hraise 401 ''invalid_refresh_credential'')
        | Some row \<Rightarrow> make_token_response E rq 5 row rotated_token)))"

text \<open>\<open>try: await _require_browser_permission(...) except HTTPException\<close>: revoke the family and raise again.\<close>

definition refresh_permission :: "'r router_env \<Rightarrow> request \<Rightarrow> runtime_settings \<Rightarrow> paired_device \<Rightarrow> ('r, unit) handler" where
  "refresh_permission E rq st device =
     prog_bind (require_browser_permission E st (re_users E (d_user_id device))) (\<lambda>r. case r of
         Inl (HTTPException c d) \<Rightarrow> hbind (revoke_family (token_family_id device) (rq_clock rq 2)) (\<lambda>_. hraise c d)
       | _ \<Rightarrow> Ret r)"

text \<open>The part that has found the device.\<close>

definition refresh_device ::
  "'r router_env \<Rightarrow> request \<Rightarrow> string \<Rightarrow> string \<Rightarrow> string \<Rightarrow> runtime_settings \<Rightarrow> paired_device \<Rightarrow> ('r, token_response) handler" where
  "refresh_device E rq credential form_origin version st device =
     (case settings_origin E st (allowed_origin device) of
        Inl _ \<Rightarrow> hbind (revoke_family (token_family_id device) (rq_clock rq 2)) (\<lambda>_. hraise 403 ''server_origin_policy_changed'')
      | Inr approved_origin \<Rightarrow>
          hbind (validate_origin E st form_origin) (\<lambda>request_origin.
          hbind (compare_digest approved_origin request_origin) (\<lambda>same_origin.
          hbind (hcheck same_origin 403 ''origin_mismatch'') (\<lambda>_.
          hbind (refresh_permission E rq st device) (\<lambda>_.
          hbind (token_hash E credential) (\<lambda>current_hash.
          hbind (compare_digest (refresh_token_hash device) current_hash) (\<lambda>current.
          if current then refresh_rotate E rq device current_hash version
          else refresh_previous E rq device credential current_hash)))))))"

text \<open>The part that knows whose credential it is.\<close>

definition refresh_with ::
  "'r router_env \<Rightarrow> request \<Rightarrow> string \<Rightarrow> string \<Rightarrow> string \<Rightarrow> runtime_settings \<Rightarrow> refresh_identity \<Rightarrow> ('r, token_response) handler" where
  "refresh_with E rq credential form_origin version st identity =
     hbind (check_rate_limit E refresh_device_limiter (rq_clock rq 1) (''browser-refresh-device:'' @ ri_device_id identity)) (\<lambda>_.
     hbind (query (\<lambda>db. device_get_active (devices db) (ri_device_id identity))) (\<lambda>found.
     hbind (hsome found 401 ''invalid_refresh_credential'') (\<lambda>device.
     hbind (compare_digest (token_family_id device) (ri_token_family_id identity)) (\<lambda>same_family.
     hbind (hcheck same_family 401 ''invalid_refresh_credential'') (\<lambda>_.
     refresh_device E rq credential form_origin version st device)))))"

definition refresh_device_token :: "'r router_env \<Rightarrow> request \<Rightarrow> string \<Rightarrow> string \<Rightarrow> string \<Rightarrow> ('r, token_response) handler" where
  "refresh_device_token E rq credential form_origin version =
     hbind (get_runtime_settings E) (\<lambda>st.
     hbind (check_rate_limit E refresh_ip_limiter (rq_clock rq 0) (''browser-refresh-ip:'' @ client_fingerprint E rq)) (\<lambda>_.
     hbind (refresh_identity_of E credential) (refresh_with E rq credential form_origin version st)))"

subsection \<open>Devices and settings\<close>

definition list_paired_devices :: "'r router_env \<Rightarrow> sock_user \<Rightarrow> ('r, device_response list) handler" where
  "list_paired_devices E user =
     hbind (get_runtime_settings E) (\<lambda>st.
     hbind (require_browser_permission E st (Some user)) (\<lambda>_.
     hbind (query (\<lambda>db. Inr (device_list (devices db) (su_id user)))) (\<lambda>rows. Ret (Inr (map safe_device rows)))))"

text \<open>The token of the update URL is created once; \<open>fr_token\<close> is \<open>secrets.token_urlsafe(32)\<close>.\<close>

definition distribution_token :: "'r router_env \<Rightarrow> request \<Rightarrow> ('r, string) handler" where
  "distribution_token E rq =
     hbind (Atomic (\<lambda>w. (Ret (Inr (config_get (wd_config w) ''browser_extension.dist_token'' PNone)), w))) (\<lambda>v.
     case as_str v of
       None \<Rightarrow> hbind (config_upsert E (rq_clock rq 0 div 1000000000) ''browser_extension.dist_token'' (PStr (fr_token (rq_fresh rq)))) (\<lambda>_. Ret (Inr (fr_token (rq_fresh rq))))
     | Some token \<Rightarrow>
         if length token < 32
         then hbind (config_upsert E (rq_clock rq 0 div 1000000000) ''browser_extension.dist_token'' (PStr (fr_token (rq_fresh rq)))) (\<lambda>_. Ret (Inr (fr_token (rq_fresh rq))))
         else Ret (Inr token))"

text \<open>The file served, by its name in the distribution directory.\<close>

definition distribution_file :: "'r router_env \<Rightarrow> request \<Rightarrow> string \<Rightarrow> string \<Rightarrow> ('r, string) handler" where
  "distribution_file E rq token name =
     hbind (distribution_token E rq) (\<lambda>expected.
     hbind (compare_digest token expected) (\<lambda>same.
     hbind (hcheck same 404 ''not_found'') (\<lambda>_.
     hbind (hcheck (re_is_file E name) 503 ''browser_extension_build_unavailable'') (\<lambda>_. Ret (Inr name)))))"

definition browser_extension_update_manifest :: "'r router_env \<Rightarrow> request \<Rightarrow> string \<Rightarrow> ('r, string) handler" where
  "browser_extension_update_manifest E rq token = distribution_file E rq token ''update.xml''"

definition browser_extension_crx :: "'r router_env \<Rightarrow> request \<Rightarrow> string \<Rightarrow> ('r, string) handler" where
  "browser_extension_crx E rq token = distribution_file E rq token ''tide-bot-browser-extension.crx''"

definition rename_paired_device :: "'r router_env \<Rightarrow> request \<Rightarrow> sock_user \<Rightarrow> string \<Rightarrow> string \<Rightarrow> ('r, device_response) handler" where
  "rename_paired_device E rq user device_id label =
     hbind (get_runtime_settings E) (\<lambda>st.
     hbind (require_browser_permission E st (Some user)) (\<lambda>_.
     prog_bind (on_devices (device_rename device_id (su_id user) label (rq_clock rq 0))) (\<lambda>r. case r of
         Inl IntegrityError \<Rightarrow> hraise 409 ''device_label_in_use''
       | Inl e \<Rightarrow> Ret (Inl (Uncaught (UDb e)))
       | Inr found \<Rightarrow> hbind (hsome found 404 ''paired_device_not_found'') (\<lambda>d. Ret (Inr (safe_device d))))))"

definition revoke_paired_device :: "'r router_env \<Rightarrow> request \<Rightarrow> sock_user \<Rightarrow> string \<Rightarrow> ('r, string) handler" where
  "revoke_paired_device E rq user device_id =
     hbind (get_runtime_settings E) (\<lambda>st.
     hbind (require_browser_permission E st (Some user)) (\<lambda>_.
     hbind (uncaught_db (on_devices (device_revoke device_id (su_id user) (rq_clock rq 0)))) (\<lambda>found.
     hbind (hsome found 404 ''paired_device_not_found'') (\<lambda>_. Ret (Inr ''revoked'')))))"

record settings_response =
  st_custom_origins_unlocked :: bool
  st_default_origin :: string
  st_can_manage :: bool
  st_auto_install_url :: "string option"

definition get_browser_extension_settings :: "'r router_env \<Rightarrow> request \<Rightarrow> sock_user \<Rightarrow> ('r, settings_response) handler" where
  "get_browser_extension_settings E rq user =
     hbind (get_runtime_settings E) (\<lambda>st.
     hbind (require_browser_permission E st (Some user)) (\<lambda>_.
     let is_admin = (su_role user = ''admin'');
         payload = \<lparr>st_custom_origins_unlocked = rs_custom_origins_unlocked st, st_default_origin = rs_default_origin st,
                    st_can_manage = is_admin, st_auto_install_url = None\<rparr>
     in if is_admin \<and> re_is_file E ''update.xml''
        then hbind (distribution_token E rq) (\<lambda>token. Ret (Inr (payload\<lparr>st_auto_install_url :=
               Some (rs_default_origin st @ ''/api/v1/browser-extension/dist/'' @ token @ ''/update.xml'')\<rparr>)))
        else Ret (Inr payload)))"

definition update_browser_extension_settings :: "'r router_env \<Rightarrow> request \<Rightarrow> sock_user \<Rightarrow> bool \<Rightarrow> ('r, settings_response) handler" where
  "update_browser_extension_settings E rq user unlocked =
     hbind (get_runtime_settings E) (\<lambda>st.
     hbind (require_browser_permission E st (Some user)) (\<lambda>_.
     hbind (hcheck (su_role user = ''admin'') 403 ''admin_required'') (\<lambda>_.
     hbind (config_upsert E (rq_clock rq 0 div 1000000000) ''browser_extension.custom_origins_unlocked'' (PBool unlocked)) (\<lambda>_.
     Ret (Inr \<lparr>st_custom_origins_unlocked = unlocked, st_default_origin = rs_default_origin st, st_can_manage = True,
               st_auto_install_url = None\<rparr>)))))"

subsection \<open>Workflows\<close>

fun safe_workflows :: "'r router_env \<Rightarrow> workflow list \<Rightarrow> ('r, workflow_response list) handler" where
  "safe_workflows E [] = Ret (Inr [])"
| "safe_workflows E (r # rs) = hbind (safe_workflow E r) (\<lambda>x. hbind (safe_workflows E rs) (\<lambda>xs. Ret (Inr (x # xs))))"

definition list_workflows :: "'r router_env \<Rightarrow> sock_user \<Rightarrow> ('r, workflow_response list) handler" where
  "list_workflows E user =
     hbind (get_runtime_settings E) (\<lambda>st.
     hbind (require_browser_permission E st (Some user)) (\<lambda>_.
     hbind (query (\<lambda>db. Inr (workflow_list (workflows db) (su_id user)))) (safe_workflows E)))"

definition workflow_opts :: "'r router_env \<Rightarrow> json_opts" where
  "workflow_opts E = workflow_json\<lparr>float_repr := re_float_repr E\<rparr>"

definition encrypt_for :: "'r router_env \<Rightarrow> request \<Rightarrow> (string \<times> pyval) list \<Rightarrow> string \<Rightarrow> string \<Rightarrow> int \<Rightarrow> ('r, encrypted_workflow) handler" where
  "encrypt_for E rq wdef user_id workflow_id version =
     hlift UCrypto (encrypt_workflow_definition (re_hkdf E) (re_aes_encrypt E) (workflow_opts E) (fr_nonce (rq_fresh rq)) (PDict wdef)
       (re_secret E) user_id workflow_id version)"

definition create_workflow :: "'r router_env \<Rightarrow> request \<Rightarrow> sock_user \<Rightarrow> string \<Rightarrow> (string \<times> pyval) list \<Rightarrow> ('r, workflow_response) handler" where
  "create_workflow E rq user name wdef =
     hbind (get_runtime_settings E) (\<lambda>st.
     hbind (require_browser_permission E st (Some user)) (\<lambda>_.
     hbind (hcheck (validated_workflow_definition (re_float_repr E) wdef) 422 ''invalid_workflow_definition'') (\<lambda>_.
     let workflow_id = fr_uuid (rq_fresh rq) in
     hbind (encrypt_for E rq wdef (su_id user) workflow_id 1) (\<lambda>enc.
     hbind (uncaught_db (on_workflows (workflow_insert workflow_id (rq_clock rq 0) (Some workflow_id) (su_id user) (py_strip name)
              (ew_ciphertext enc) (ew_nonce enc) 1))) (\<lambda>row. safe_workflow E row)))))"

definition get_workflow :: "'r router_env \<Rightarrow> sock_user \<Rightarrow> string \<Rightarrow> ('r, workflow_response) handler" where
  "get_workflow E user workflow_id =
     hbind (get_runtime_settings E) (\<lambda>st.
     hbind (require_browser_permission E st (Some user)) (\<lambda>_.
     hbind (query (\<lambda>db. workflow_get (workflows db) workflow_id (su_id user))) (\<lambda>found.
     hbind (hsome found 404 ''workflow_not_found'') (\<lambda>row. safe_workflow E row))))"

definition update_workflow ::
  "'r router_env \<Rightarrow> request \<Rightarrow> sock_user \<Rightarrow> string \<Rightarrow> string \<Rightarrow> (string \<times> pyval) list \<Rightarrow> int \<Rightarrow> ('r, workflow_response) handler" where
  "update_workflow E rq user workflow_id name wdef version =
     hbind (get_runtime_settings E) (\<lambda>st.
     hbind (require_browser_permission E st (Some user)) (\<lambda>_.
     hbind (query (\<lambda>db. workflow_get (workflows db) workflow_id (su_id user))) (\<lambda>found.
     hbind (hsome found 404 ''workflow_not_found'') (\<lambda>current.
     hbind (hcheck (w_version current = version) 409 ''workflow_version_conflict'') (\<lambda>_.
     hbind (hcheck (validated_workflow_definition (re_float_repr E) wdef) 422 ''invalid_workflow_definition'') (\<lambda>_.
     hbind (encrypt_for E rq wdef (su_id user) workflow_id (w_version current + 1)) (\<lambda>enc.
     hbind (uncaught_db (on_workflows (workflow_update workflow_id (su_id user) (w_version current) (py_strip name) (ew_ciphertext enc)
              (ew_nonce enc) (rq_clock rq 0)))) (\<lambda>updated.
     hbind (hsome updated 409 ''workflow_version_conflict'') (\<lambda>row. safe_workflow E row)))))))))"

definition delete_workflow :: "'r router_env \<Rightarrow> sock_user \<Rightarrow> string \<Rightarrow> ('r, string) handler" where
  "delete_workflow E user workflow_id =
     hbind (get_runtime_settings E) (\<lambda>st.
     hbind (require_browser_permission E st (Some user)) (\<lambda>_.
     hbind (uncaught_db (on_db (\<lambda>db. Inr (workflow_delete workflow_id (su_id user) db)))) (\<lambda>removed.
     hbind (hcheck removed 404 ''workflow_not_found'') (\<lambda>_. Ret (Inr ''deleted'')))))"

definition download_browser_extension :: "'r router_env \<Rightarrow> sock_user \<Rightarrow> ('r, string) handler" where
  "download_browser_extension E user =
     hbind (get_runtime_settings E) (\<lambda>st.
     hbind (require_browser_permission E st (Some user)) (\<lambda>_.
     hbind (hcheck (re_is_file E ''tide-bot-browser-extension.zip'') 503 ''browser_extension_build_unavailable'') (\<lambda>_.
     Ret (Inr ''tide-bot-browser-extension.zip''))))"

subsection \<open>Schedules\<close>

record schedule_form =
  sf_workflow_id :: string
  sf_device_id :: string
  sf_name :: string
  sf_rrule :: string
  sf_timezone :: string
  sf_is_active :: bool
  sf_next_run_at :: "int option"

text \<open>The validators of \<open>ScheduleForm\<close> and \<open>ScheduleRunForm\<close>; \<open>zone\<close> tells the names \<open>ZoneInfo\<close> accepts.\<close>

definition valid_schedule_form :: "(string \<Rightarrow> bool) \<Rightarrow> schedule_form \<Rightarrow> bool" where
  "valid_schedule_form zone f \<longleftrightarrow>
     1 \<le> length (sf_workflow_id f) \<and> length (sf_workflow_id f) \<le> 128 \<and> 1 \<le> length (sf_device_id f) \<and> length (sf_device_id f) \<le> 128 \<and>
     1 \<le> length (sf_name f) \<and> length (sf_name f) \<le> 120 \<and> 1 \<le> length (sf_rrule f) \<and> length (sf_rrule f) \<le> 256 \<and>
     1 \<le> length (sf_timezone f) \<and> length (sf_timezone f) \<le> 100 \<and>
     (case sf_next_run_at f of None \<Rightarrow> True | Some t \<Rightarrow> 1 \<le> t) \<and> valid_rrule (sf_rrule f) \<and> zone (sf_timezone f)"

definition valid_run_form :: "string \<Rightarrow> int \<Rightarrow> int \<Rightarrow> bool" where
  "valid_run_form outcome last_run next_run \<longleftrightarrow>
     outcome \<in> {''complete'', ''paused'', ''failed''} \<and> 1 \<le> last_run \<and> 1 \<le> next_run \<and> last_run < next_run"

text \<open>\<open>if request_device_id and not hmac.compare_digest(request_device_id, device_id)\<close>: 403.\<close>

definition check_request_device :: "request \<Rightarrow> string \<Rightarrow> ('r, unit) handler" where
  "check_request_device rq device_id = (case rq_device rq of
      None \<Rightarrow> Ret (Inr ())
    | Some d \<Rightarrow> if d = [] then Ret (Inr ())
                else hbind (compare_digest d device_id) (\<lambda>same. hcheck same 403 ''schedule_device_mismatch''))"

text \<open>The list comprehension of \<open>list_schedules\<close>, whose test may raise.\<close>

fun schedules_of_device :: "string \<Rightarrow> schedule list \<Rightarrow> ('r, schedule list) handler" where
  "schedules_of_device d [] = Ret (Inr [])"
| "schedules_of_device d (s # ss) =
     hbind (compare_digest (s_device_id s) d) (\<lambda>same.
     hbind (schedules_of_device d ss) (\<lambda>rest. Ret (Inr (if same then s # rest else rest))))"

definition list_schedules :: "'r router_env \<Rightarrow> request \<Rightarrow> sock_user \<Rightarrow> ('r, schedule_response list) handler" where
  "list_schedules E rq user =
     hbind (get_runtime_settings E) (\<lambda>st.
     hbind (require_browser_permission E st (Some user)) (\<lambda>_.
     hbind (query (\<lambda>db. Inr (schedule_list (schedules db) (su_id user)))) (\<lambda>rows.
     hbind (case rq_device rq of None \<Rightarrow> Ret (Inr rows) | Some d \<Rightarrow> if d = [] then Ret (Inr rows) else schedules_of_device d rows) (\<lambda>shown.
     Ret (Inr (map safe_schedule shown))))))"

text \<open>\<open>except ValueError\<close> around \<open>insert\<close> and \<open>update\<close>: the ownership error becomes a 404.\<close>

definition not_owned_404 :: "('r world, (db_error, 'a) result) prog \<Rightarrow> ('r, 'a) handler" where
  "not_owned_404 p = prog_bind p (\<lambda>r. case r of
      Inl (NotOwned m) \<Rightarrow> hraise 404 ''workflow_or_device_not_found''
    | Inl e \<Rightarrow> Ret (Inl (Uncaught (UDb e)))
    | Inr a \<Rightarrow> Ret (Inr a))"

definition create_schedule :: "'r router_env \<Rightarrow> request \<Rightarrow> sock_user \<Rightarrow> schedule_form \<Rightarrow> ('r, schedule_response) handler" where
  "create_schedule E rq user f =
     hbind (get_runtime_settings E) (\<lambda>st.
     hbind (require_browser_permission E st (Some user)) (\<lambda>_.
     hbind (check_request_device rq (sf_device_id f)) (\<lambda>_.
     hbind (not_owned_404 (on_db (schedule_insert (fr_uuid (rq_fresh rq)) (rq_clock rq 0) (su_id user) (sf_workflow_id f) (sf_device_id f)
              (py_strip (sf_name f)) (sf_rrule f) (sf_timezone f) (sf_next_run_at f) (sf_is_active f) False))) (\<lambda>row.
     Ret (Inr (safe_schedule row))))))"

definition update_schedule :: "'r router_env \<Rightarrow> request \<Rightarrow> sock_user \<Rightarrow> string \<Rightarrow> schedule_form \<Rightarrow> ('r, schedule_response) handler" where
  "update_schedule E rq user schedule_id f =
     hbind (get_runtime_settings E) (\<lambda>st.
     hbind (require_browser_permission E st (Some user)) (\<lambda>_.
     hbind (check_request_device rq (sf_device_id f)) (\<lambda>_.
     hbind (not_owned_404 (on_db (schedule_update schedule_id (su_id user) (sf_workflow_id f) (sf_device_id f) (py_strip (sf_name f))
              (sf_rrule f) (sf_timezone f) (sf_is_active f) (sf_next_run_at f) (rq_clock rq 0)))) (\<lambda>found.
     hbind (hsome found 404 ''schedule_not_found'') (\<lambda>row. Ret (Inr (safe_schedule row)))))))"

definition complete_schedule_run ::
  "'r router_env \<Rightarrow> request \<Rightarrow> sock_user \<Rightarrow> string \<Rightarrow> int \<Rightarrow> int \<Rightarrow> ('r, schedule_response) handler" where
  "complete_schedule_run E rq user schedule_id run_at next_run =
     hbind (get_runtime_settings E) (\<lambda>st.
     hbind (require_browser_permission E st (Some user)) (\<lambda>_.
     hbind (query (\<lambda>db. schedule_get (schedules db) schedule_id (su_id user))) (\<lambda>found.
     hbind (hsome found 404 ''schedule_not_found'') (\<lambda>current.
     hbind (check_request_device rq (s_device_id current)) (\<lambda>_.
     hbind (uncaught_db (on_schedules (schedule_mark_run schedule_id (su_id user) run_at next_run (rq_clock rq 0)))) (\<lambda>marked.
     hbind (hsome marked 409 ''schedule_run_already_recorded'') (\<lambda>row. Ret (Inr (safe_schedule row)))))))))"

definition delete_schedule :: "'r router_env \<Rightarrow> sock_user \<Rightarrow> string \<Rightarrow> ('r, string) handler" where
  "delete_schedule E user schedule_id =
     hbind (get_runtime_settings E) (\<lambda>st.
     hbind (require_browser_permission E st (Some user)) (\<lambda>_.
     hbind (uncaught_db (on_schedules (\<lambda>rows. Inr (schedule_delete schedule_id (su_id user) rows)))) (\<lambda>removed.
     hbind (hcheck removed 404 ''schedule_not_found'') (\<lambda>_. Ret (Inr ''deleted'')))))"

end
