(* ===== verification/Browser_Requests.thy ===== *)
theory Browser_Requests
  imports Browser_Router
begin

section \<open>Concurrent requests of the browser extension\<close>

text \<open>
  What the endpoints guarantee however the requests of all clients interleave: the life cycle
  of grants and devices only moves forward (\<open>world_le\<close>, an interpretation of
  \<open>step_contract\<close>), a grant is exchanged at most once (an interpretation of \<open>set_once\<close>), and what a successful
  refresh has checked.
\<close>

subsection \<open>The life cycle of grants and devices\<close>

definition grant_le :: "pairing_grant \<Rightarrow> pairing_grant \<Rightarrow> bool" where
  "grant_le g g' \<longleftrightarrow> g_id g' = g_id g \<and> device_code_hash g' = device_code_hash g \<and> verifier_hash g' = verifier_hash g \<and>
     requested_origin g' = requested_origin g \<and> (g_user_id g \<noteq> None \<longrightarrow> g_user_id g' = g_user_id g) \<and>
     (g_status g \<in> {''consumed'', ''denied''} \<longrightarrow> g_status g' = g_status g) \<and>
     (g_status g = ''approved'' \<longrightarrow> g_status g' \<in> {''approved'', ''consumed''})"

definition device_le :: "paired_device \<Rightarrow> paired_device \<Rightarrow> bool" where
  "device_le d d' \<longleftrightarrow> d_id d' = d_id d \<and> d_user_id d' = d_user_id d \<and> token_family_id d' = token_family_id d \<and>
     allowed_origin d' = allowed_origin d \<and> (revoked_at d \<noteq> None \<longrightarrow> revoked_at d' = revoked_at d)"

definition rows_le :: "('t \<Rightarrow> 't \<Rightarrow> bool) \<Rightarrow> 't list \<Rightarrow> 't list \<Rightarrow> bool" where
  "rows_le le rows rows' \<longleftrightarrow> (\<forall>r \<in> set rows. \<exists>r' \<in> set rows'. le r r')"

definition world_le :: "'r world \<Rightarrow> 'r world \<Rightarrow> bool" where
  "world_le w w' \<longleftrightarrow> rows_le grant_le (grants (wd_db w)) (grants (wd_db w')) \<and> rows_le device_le (devices (wd_db w)) (devices (wd_db w'))"

lemma reflp_le [simp]: "reflp grant_le" "reflp device_le"
  by (auto simp: reflp_def grant_le_def device_le_def)

lemma transp_le [simp]: "transp grant_le" "transp device_le"
  unfolding transp_def grant_le_def device_le_def by auto

lemma rows_le_refl [simp]: "reflp le \<Longrightarrow> rows_le le rows rows"
  by (auto simp: rows_le_def dest: reflpD)

lemma rows_le_trans: "transp le \<Longrightarrow> rows_le le x y \<Longrightarrow> rows_le le y z \<Longrightarrow> rows_le le x z"
  unfolding rows_le_def by (meson transpD)

interpretation life_cycle: step_contract world_le
proof
  fix w w' w'' :: "'a world"
  show "world_le w w" by (simp add: world_le_def)
  assume "world_le w w'" "world_le w' w''"
  then show "world_le w w''" by (auto simp: world_le_def elim: rows_le_trans [rotated])
qed

lemma rows_le_update_where:
  assumes "reflp le" "\<And>r. P r \<Longrightarrow> le r (f r)"
  shows "rows_le le rows (update_where P f rows)"
  unfolding rows_le_def
proof
  fix r
  assume "r \<in> set rows"
  then have "(if P r then f r else r) \<in> set (update_where P f rows)" by (auto simp: update_where_def)
  moreover have "le r (if P r then f r else r)" using assms by (auto dest: reflpD)
  ultimately show "\<exists>r' \<in> set (update_where P f rows). le r r'" by blast
qed

lemma rows_le_update_one:
  "update_one unique P f rows = Inr (x, rows') \<Longrightarrow> reflp le \<Longrightarrow> (\<And>r. P r \<Longrightarrow> le r (f r)) \<Longrightarrow> rows_le le rows rows'"
  using update_one_InrD [of unique P f rows x rows'] rows_le_update_where [of le P f rows] by simp

lemma rows_le_insert_one: "insert_one unique r rows = Inr (x, rows') \<Longrightarrow> reflp le \<Longrightarrow> rows_le le rows rows'"
  by (auto dest!: insert_one_InrD simp: rows_le_def dest: reflpD)

subsection \<open>Every step keeps the life cycle\<close>

named_theorems keeps \<open>programs all of whose steps keep the life cycle\<close>

lemma keeps_Ret [keeps]: "steps_in world_le (Ret a)"
  by simp

lemma keeps_hbind [keeps]:
  "steps_in world_le m \<Longrightarrow> (\<And>a. steps_in world_le (k a)) \<Longrightarrow> steps_in world_le (hbind m k)"
  unfolding hbind_def by (intro steps_in_bind) (auto split: sum.splits)

lemma keeps_bind [keeps]:
  "steps_in world_le m \<Longrightarrow> (\<And>a. steps_in world_le (k a)) \<Longrightarrow> steps_in world_le (prog_bind m k)"
  by (rule steps_in_bind)

lemma keeps_pure [keeps]:
  "steps_in world_le (hlift exn r)" "steps_in world_le (hraise c d)" "steps_in world_le (hcheck ok c d)"
  "steps_in world_le (hsome v c d)" "steps_in world_le (compare_digest x y)" "steps_in world_le (token_hash E t)"
  by (auto simp: hlift_def hraise_def hcheck_def hsome_def compare_digest_def token_hash_def split: option.splits)

lemma keeps_reads [keeps]:
  "steps_in world_le (query f)" "steps_in world_le (get_runtime_settings E)" "steps_in world_le (config_upsert E now key v)"
  "steps_in world_le (check_rate_limit E l n key)"
  by (auto simp: query_def get_runtime_settings_def config_upsert_def check_rate_limit_def Let_def hlift_def hcheck_def hraise_def
      world_le_def rows_le_refl split: prod.splits)

lemma keeps_table:
  assumes "\<And>db x t. f (get db) = Inr (x, t) \<Longrightarrow> rows_le grant_le (grants db) (grants (put t db)) \<and> rows_le device_le (devices db) (devices (put t db))"
  shows "steps_in world_le (table_call get put f)"
  using assms by (fastforce simp: table_call_def world_le_def rows_le_refl split: sum.splits prod.splits)

lemma keeps_uncaught_db [keeps]: "steps_in world_le p \<Longrightarrow> steps_in world_le (uncaught_db p)"
  unfolding uncaught_db_def by (intro keeps)

lemma keeps_grants [keeps]:
  "steps_in world_le (on_grants (grant_insert u n a b c d e f g))"
  "steps_in world_le (on_grants (grant_deny i n))"
  "steps_in world_le (on_grants (grant_approve i us n))"
  "steps_in world_le (on_grants (grant_consume i vh n))"
proof -
  have 1: "rows_le grant_le rows rows'" if "grant_insert u n a b c d e f g rows = Inr (x, rows')" for x rows rows'
    using that unfolding grant_insert_def by (rule rows_le_insert_one) simp
  have 2: "rows_le grant_le rows rows'" if "grant_deny i n rows = Inr (x, rows')" for x rows rows'
    using that unfolding grant_deny_def by (rule rows_le_update_one) (auto simp: grant_le_def deny_guard_def)
  have 3: "rows_le grant_le rows rows'" if "grant_approve i us n rows = Inr (x, rows')" for x rows rows'
    using that unfolding grant_approve_def by (rule rows_le_update_one) (auto simp: grant_le_def approve_guard_def)
  have 4: "rows_le grant_le rows rows'" if "grant_consume i vh n rows = Inr (x, rows')" for x rows rows'
    using that unfolding grant_consume_def by (rule rows_le_update_one) (auto simp: grant_le_def consume_guard_def)
  show "steps_in world_le (on_grants (grant_insert u n a b c d e f g))" by (rule keeps_table) (auto dest: 1)
  show "steps_in world_le (on_grants (grant_deny i n))" by (rule keeps_table) (auto dest: 2)
  show "steps_in world_le (on_grants (grant_approve i us n))" by (rule keeps_table) (auto dest: 3)
  show "steps_in world_le (on_grants (grant_consume i vh n))" by (rule keeps_table) (auto dest: 4)
qed

lemma keeps_devices [keeps]:
  "steps_in world_le (on_devices (device_insert u n oi us l h fam orig ver))"
  "steps_in world_le (on_devices (device_rotate i fam c nw v n))"
  "steps_in world_le (on_devices (device_restore i fam prev nb n))"
  "steps_in world_le (on_devices (device_revoke i us n))"
  "steps_in world_le (on_devices (device_rename i us l n))"
  "steps_in world_le (on_devices (\<lambda>rows. Inr (device_revoke_family fam n rows)))"
proof -
  have 1: "rows_le device_le rows rows'" if "device_insert u n oi us l h fam orig ver rows = Inr (x, rows')" for x rows rows'
    using that unfolding device_insert_def by (rule rows_le_insert_one) simp
  have 2: "rows_le device_le rows rows'" if "device_rotate i fam c nw v n rows = Inr (x, rows')" for x rows rows'
    using that unfolding device_rotate_def by (rule rows_le_update_one) (auto simp: device_le_def rotate_guard_def rotated_def)
  have 3: "rows_le device_le rows rows'" if "device_restore i fam prev nb n rows = Inr (x, rows')" for x rows rows'
    using that unfolding device_restore_def by (rule rows_le_update_one) (auto simp: device_le_def restore_guard_def)
  have 4: "rows_le device_le rows rows'" if "device_revoke i us n rows = Inr (x, rows')" for x rows rows'
    using that unfolding device_revoke_def by (rule rows_le_update_one) (auto simp: device_le_def owned_active_def)
  have 5: "rows_le device_le rows rows'" if "device_rename i us l n rows = Inr (x, rows')" for x rows rows'
    using that unfolding device_rename_def by (rule rows_le_update_one) (auto simp: device_le_def owned_active_def)
  have 6: "rows_le device_le rows (snd (device_revoke_family fam n rows))" for rows
    unfolding device_revoke_family_def snd_conv by (rule rows_le_update_where) (auto simp: device_le_def in_family_def)
  show "steps_in world_le (on_devices (device_insert u n oi us l h fam orig ver))" by (rule keeps_table) (auto dest: 1)
  show "steps_in world_le (on_devices (device_rotate i fam c nw v n))" by (rule keeps_table) (auto dest: 2)
  show "steps_in world_le (on_devices (device_restore i fam prev nb n))" by (rule keeps_table) (auto dest: 3)
  show "steps_in world_le (on_devices (device_revoke i us n))" by (rule keeps_table) (auto dest: 4)
  show "steps_in world_le (on_devices (device_rename i us l n))" by (rule keeps_table) (auto dest: 5)
  show "steps_in world_le (on_devices (\<lambda>rows. Inr (device_revoke_family fam n rows)))"
    by (rule keeps_table) (use 6 in \<open>auto simp: device_revoke_family_def\<close>)
qed

lemma keeps_plans [keeps]:
  "steps_in world_le (on_workflows f1)" "steps_in world_le (on_schedules f2)"
  "steps_in world_le (on_db (\<lambda>db. Inr (workflow_delete i us db)))"
  "steps_in world_le (on_db (schedule_insert u n us wi di nm rl tz nx ac cu))"
  "steps_in world_le (on_db (schedule_update i us wi di nm rl tz ac nx n))"
  by (rule keeps_table; auto simp: workflow_delete_def schedule_insert_def schedule_update_def rbind_Inr_iff Let_def split: if_splits)+

lemma keeps_helpers [keeps]:
  "steps_in world_le (validate_origin E st orig)" "steps_in world_le (require_browser_permission E st user)"
  "steps_in world_le (secret_matches E a b)" "steps_in world_le (make_token_response E rq n d t)" "steps_in world_le (safe_workflow E row)"
  "steps_in world_le (revoke_family fam now)" "steps_in world_le (refresh_identity_of E c)" "steps_in world_le (check_request_device rq di)"
  "steps_in world_le (encrypt_for E rq wdef us i vn)"
  by (auto simp: validate_origin_def require_browser_permission_def secret_matches_def make_token_response_def safe_workflow_def
      revoke_family_def refresh_identity_of_def check_request_device_def encrypt_for_def intro!: keeps
      split: sum.splits option.splits auth_error.splits)

lemma keeps_try_labels [keeps]: "steps_in world_le (try_labels as i us l h fam orig v u n)"
  by (induction as) (auto intro!: keeps split: sum.splits db_error.splits)

lemma keeps_lists [keeps]: "steps_in world_le (safe_workflows E rs)" "steps_in world_le (schedules_of_device d ss)"
  by (induction rs) (auto intro!: keeps, induction ss, auto intro!: keeps)

lemma keeps_create_device [keeps]: "steps_in world_le (create_paired_device E rq us l orig v n)"
  unfolding create_paired_device_def Let_def by (intro keeps)

lemma keeps_not_owned [keeps]: "steps_in world_le p \<Longrightarrow> steps_in world_le (not_owned_404 p)"
  unfolding not_owned_404_def by (intro keeps) (auto intro!: keeps split: sum.splits db_error.splits)

lemma keeps_distribution [keeps]: "steps_in world_le (distribution_token E rq)" "steps_in world_le (distribution_file E rq t n)"
proof -
  show "steps_in world_le (distribution_token E rq)" for E rq
    unfolding distribution_token_def by (intro keeps) (auto intro!: keeps simp: world_le_def split: option.splits)
  then show "steps_in world_le (distribution_file E rq t n)" unfolding distribution_file_def by (intro keeps)
qed

lemma keeps_refresh [keeps]:
  "steps_in world_le (refresh_previous E rq d c h)" "steps_in world_le (refresh_rotate E rq d h v)"
  by (auto simp: refresh_previous_def refresh_rotate_def intro!: keeps split: option.splits)

subsection \<open>The endpoints\<close>

definition discard :: "('r, 'a) handler \<Rightarrow> ('r, unit) handler" where
  "discard p = hbind p (\<lambda>_. Ret (Inr ()))"

text \<open>The requests the router serves, without the value of their response.\<close>

inductive endpoint :: "'r router_env \<Rightarrow> ('r, unit) handler \<Rightarrow> bool" for E where
  "endpoint E (discard (claim_pairing_with_session E rq user label orig version))"
| "endpoint E (discard (start_pairing E rq label orig version))"
| "endpoint E (discard (approve_pairing E rq user grant_id dcode approved))"
| "endpoint E (discard (exchange_pairing_token E rq grant_id dcode vrf))"
| "endpoint E (discard (refresh_device_token E rq credential orig version))"
| "endpoint E (discard (list_paired_devices E u))"
| "endpoint E (discard (browser_extension_update_manifest E rq token))"
| "endpoint E (discard (browser_extension_crx E rq token))"
| "endpoint E (discard (download_browser_extension E u))"
| "endpoint E (discard (rename_paired_device E rq u device_id label))"
| "endpoint E (discard (revoke_paired_device E rq u device_id))"
| "endpoint E (discard (get_browser_extension_settings E rq u))"
| "endpoint E (discard (update_browser_extension_settings E rq u unlocked))"
| "endpoint E (discard (list_workflows E u))"
| "endpoint E (discard (create_workflow E rq u name wdef))"
| "endpoint E (discard (get_workflow E u workflow_id))"
| "endpoint E (discard (update_workflow E rq u workflow_id name wdef version'))"
| "endpoint E (discard (delete_workflow E u workflow_id))"
| "endpoint E (discard (list_schedules E rq u))"
| "endpoint E (discard (create_schedule E rq u f))"
| "endpoint E (discard (update_schedule E rq u schedule_id f))"
| "endpoint E (discard (complete_schedule_run E rq u schedule_id run_at next_run))"
| "endpoint E (discard (delete_schedule E u schedule_id))"

lemma keeps_discard [keeps]: "steps_in world_le p \<Longrightarrow> steps_in world_le (discard p)"
  unfolding discard_def by (intro keeps)

lemma keeps_pairing [keeps]:
  "steps_in world_le (claim_pairing_with_session E rq user label orig version)"
  "steps_in world_le (start_pairing E rq label orig version)"
  "steps_in world_le (approve_pairing E rq user grant_id dcode approved)"
  "steps_in world_le (exchange_pairing_token E rq grant_id dcode vrf)"
  "steps_in world_le (refresh_device_token E rq credential orig version)"
  by (auto simp: claim_pairing_with_session_def start_pairing_def approve_pairing_def exchange_pairing_token_def refresh_device_token_def
      refresh_with_def refresh_device_def refresh_permission_def Let_def intro!: keeps split: prod.splits sum.splits http_error.splits)

lemma keeps_device_endpoints [keeps]:
  "steps_in world_le (list_paired_devices E u)" "steps_in world_le (browser_extension_update_manifest E rq token)"
  "steps_in world_le (browser_extension_crx E rq token)" "steps_in world_le (download_browser_extension E u)"
  "steps_in world_le (rename_paired_device E rq u device_id label)" "steps_in world_le (revoke_paired_device E rq u device_id)"
  "steps_in world_le (get_browser_extension_settings E rq u)" "steps_in world_le (update_browser_extension_settings E rq u unlocked)"
  by (auto simp: list_paired_devices_def browser_extension_update_manifest_def browser_extension_crx_def download_browser_extension_def
      rename_paired_device_def revoke_paired_device_def get_browser_extension_settings_def update_browser_extension_settings_def Let_def
      intro!: keeps split: sum.splits db_error.splits)

lemma keeps_plan_endpoints [keeps]:
  "steps_in world_le (list_workflows E u)" "steps_in world_le (create_workflow E rq u name wdef)" "steps_in world_le (get_workflow E u workflow_id)"
  "steps_in world_le (update_workflow E rq u workflow_id name wdef version)" "steps_in world_le (delete_workflow E u workflow_id)"
  "steps_in world_le (list_schedules E rq u)" "steps_in world_le (create_schedule E rq u f)" "steps_in world_le (update_schedule E rq u schedule_id f)"
  "steps_in world_le (complete_schedule_run E rq u schedule_id run_at next_run)" "steps_in world_le (delete_schedule E u schedule_id)"
  by (auto simp: list_workflows_def create_workflow_def get_workflow_def update_workflow_def delete_workflow_def list_schedules_def
      create_schedule_def update_schedule_def complete_schedule_run_def delete_schedule_def Let_def intro!: keeps split: option.splits)

lemma keeps_endpoint: "endpoint E p \<Longrightarrow> steps_in world_le p"
  by (erule endpoint.cases) (simp_all add: keeps)

subsection \<open>A grant is exchanged at most once\<close>

definition grant_used :: "string \<Rightarrow> 'r world \<Rightarrow> bool" where
  "grant_used G w \<longleftrightarrow> (\<exists>g \<in> set (grants (wd_db w)). g_id g = G \<and> g_status g = ''consumed'')"

interpretation exchange: set_once world_le "grant_used G" for G
  by unfold_locales (fastforce simp: world_le_def rows_le_def grant_le_def grant_used_def)

lemma hbind_simps [simp]:
  "hbind (Ret (Inl e)) k = Ret (Inl e)" "hbind (Ret (Inr a)) k = k a"
  "hbind (Atomic f) k = Atomic (\<lambda>w. map_prod (\<lambda>p. hbind p k) id (f w))"
  by (simp_all add: hbind_def)

lemma must_set_before: "must_set M m \<Longrightarrow> must_set M (hbind m k)"
  by (induction m rule: prog_steps_induct) (auto simp: fst_map_prod)

lemma must_set_after: "(\<And>a. must_set M (k a)) \<Longrightarrow> must_set M (hbind m k)"
proof (induction m rule: prog_steps_induct)
  case (Ret r)
  then show ?case by (cases r) simp_all
qed simp

lemma must_set_query: "(\<And>db a. f db = Inr a \<Longrightarrow> must_set M (k a)) \<Longrightarrow> must_set M (hbind (query f) k)"
  by (auto simp: query_def hlift_def split: sum.splits)

lemma must_set_hsome: "(\<And>a. v = Some a \<Longrightarrow> must_set M (k a)) \<Longrightarrow> must_set M (hbind (hsome v c d) k)"
  by (cases v) (simp_all add: hsome_def hraise_def)

lemma consume_sets:
  assumes "grant_consume G vh now rows = Inr (Some g, rows')"
  shows "(\<forall>g \<in> set rows. g_id g = G \<longrightarrow> g_status g \<noteq> ''consumed'') \<and> (\<exists>g \<in> set rows'. g_id g = G \<and> g_status g = ''consumed'')"
proof -
  let ?f = "\<lambda>g. g\<lparr>g_status := ''consumed'', consumed_at := Some now\<rparr>"
  note upd = update_one_InrD [OF assms [unfolded grant_consume_def]]
  then have u: "grants_unique rows'" and rows': "rows' = update_where (consume_guard G vh now) ?f rows" by blast+
  have "map g_id rows' = map g_id rows" unfolding rows' by (rule map_update_where) simp
  then have dist: "distinct (map g_id rows)" using u by (simp add: grants_unique_def)
  have "filter (consume_guard G vh now) rows \<noteq> []"
    using assms by (auto simp: grant_consume_def update_one_def rbind_Inr_iff scalar_one_or_none_def split: if_splits)
  then obtain r where r: "r \<in> set rows" "consume_guard G vh now r" by (auto simp: filter_empty_conv)
  have "g = r" if "g \<in> set rows" "g_id g = G" for g
    using that r dist by (auto simp: consume_guard_def distinct_map dest: inj_onD)
  then have "\<forall>g \<in> set rows. g_id g = G \<longrightarrow> g_status g \<noteq> ''consumed''" using r(2) by (fastforce simp: consume_guard_def)
  moreover have "?f r \<in> set rows'" "g_id (?f r) = G" using r unfolding rows' by (auto simp: set_update_where consume_guard_def)
  ultimately show ?thesis by (intro conjI bexI [of _ "?f r"]) simp_all
qed

lemma must_set_consume:
  fixes k :: "pairing_grant \<Rightarrow> ('r, 'b) handler"
  shows "must_set (grant_used G) (hbind (uncaught_db (on_grants (grant_consume G vh now))) (\<lambda>row. hbind (hsome row c d) k))"
proof -
  let ?k = "\<lambda>row. hbind (hsome row c d) k"
  let ?f = "\<lambda>w :: 'r world. case grant_consume G vh now (grants (wd_db w)) of
      Inl e \<Rightarrow> (Ret (Inl e) :: ('r world, (db_error, pairing_grant option) result) prog, w)
    | Inr (a, t) \<Rightarrow> (Ret (Inr a), w\<lparr>wd_db := (wd_db w)\<lparr>grants := t\<rparr>\<rparr>)"
  have fst_step: "must_set (grant_used G) (hbind (prog_bind (fst (?f w)) (hlift UDb)) ?k) \<or> \<not> grant_used G w \<and> grant_used G (snd (?f w))"
    for w :: "'r world"
  proof (cases "grant_consume G vh now (grants (wd_db w))")
    case (Inl e)
    then show ?thesis by (simp add: hlift_def)
  next
    case (Inr z)
    obtain x rows' where z: "z = (x, rows')" by (cases z)
    show ?thesis
    proof (cases x)
      case None
      then show ?thesis using Inr z by (simp add: hlift_def hsome_def hraise_def)
    next
      case (Some g)
      then show ?thesis using Inr z consume_sets [of G vh now "grants (wd_db w)" g rows'] by (auto simp: grant_used_def)
    qed
  qed
  have "uncaught_db (on_grants (grant_consume G vh now)) = Atomic (\<lambda>w :: 'r world. map_prod (\<lambda>p. prog_bind p (hlift UDb)) id (?f w))"
    by (simp add: uncaught_db_def table_call_def)
  then show ?thesis using fst_step by (simp only: hbind_simps must_set_Atomic) simp
qed

lemma exchange_must_set: "must_set (grant_used G) (exchange_pairing_token E rq G dcode vrf)"
  unfolding exchange_pairing_token_def Let_def
proof (rule must_set_after, rule must_set_after, rule must_set_after, rule must_set_query, rule must_set_hsome, goal_cases)
  case (1 st _ _ db found grant)
  then have id: "g_id grant = G" by (auto simp: grant_get_by_id_def find_Some_iff)
  show ?case unfolding id by (rule must_set_consume | rule must_set_after)+
qed

lemma endpoints_keep: "list_all (endpoint E) ps \<Longrightarrow> list_all (steps_in world_le) ps"
  by (auto simp: list_all_iff intro: keeps_endpoint)

text \<open>C18: However the requests of all clients interleave, grants and devices are never lost and their
  life cycle only moves forward: a grant keeps its secrets, its origin and the user who approved it, a
  consumed or denied grant stays so and an approved one can only be consumed; a device keeps its
  user, token family and origin, and a revoked device stays revoked.\<close>

theorem requests_life_cycle:
  assumes "pool_run (endpoint E) (ps, w) (ps', w')" "list_all (endpoint E) ps"
  shows "(\<forall>g \<in> set (grants (wd_db w)). \<exists>g' \<in> set (grants (wd_db w')). grant_le g g') \<and>
    (\<forall>d \<in> set (devices (wd_db w)). \<exists>d' \<in> set (devices (wd_db w')). device_le d d')"
  using life_cycle.pool_contract [OF assms(1)] endpoints_keep [OF assms(2)] keeps_endpoint
  by (auto simp: world_le_def rows_le_def)

text \<open>C11: A pairing grant is turned into device credentials at most once: of two token requests for the
  same grant at most one succeeds, however they interleave with each other and with all other requests.\<close>

theorem one_exchange_per_grant:
  assumes "pool_run (endpoint E) (ps, w) (ps', w')" "list_all (endpoint E) ps" "i \<noteq> j" "i < length ps" "j < length ps"
    and "ps ! i = discard (exchange_pairing_token E rq G dcode vrf)" "ps ! j = discard (exchange_pairing_token E rq' G dcode' vrf')"
  shows "\<not> (ps' ! i = Ret (Inr ()) \<and> ps' ! j = Ret (Inr ()))"
proof -
  have "must_set (grant_used G) (ps ! i)" "must_set (grant_used G) (ps ! j)"
    using must_set_before [OF exchange_must_set] assms(6,7) by (simp_all add: discard_def)
  then show ?thesis
    using exchange.at_most_one [OF assms(1) endpoints_keep [OF assms(2)] keeps_endpoint [of E] assms(3-5)] by blast
qed

subsection \<open>Successful requests\<close>

lemma run_alone_hbind:
  "run_alone (hbind m k) w = (case run_alone m w of (Inl e, w') \<Rightarrow> (Inl e, w') | (Inr a, w') \<Rightarrow> run_alone (k a) w')"
  by (auto simp: hbind_def split: prod.splits sum.splits)

lemma run_alone_hbind_Inr:
  "run_alone (hbind m k) w = (Inr b, w'') \<longleftrightarrow> (\<exists>a w'. run_alone m w = (Inr a, w') \<and> run_alone (k a) w' = (Inr b, w''))"
  by (auto simp: hbind_def split: prod.splits sum.splits)

lemma run_alone_pure [simp]:
  "run_alone (hcheck ok c d) w = (Inr u, w') \<longleftrightarrow> ok \<and> w' = w"
  "run_alone (hsome v c d) w = (Inr a, w') \<longleftrightarrow> v = Some a \<and> w' = w"
  "run_alone (hlift exn r) w = (Inr b, w') \<longleftrightarrow> r = Inr b \<and> w' = w"
  "run_alone (compare_digest x y) w = (Inr same, w') \<longleftrightarrow> list_all is_ascii x \<and> list_all is_ascii y \<and> same = (x = y) \<and> w' = w"
  "run_alone (query f) w = (Inr q, w') \<longleftrightarrow> f (wd_db w) = Inr q \<and> w' = w"
  "run_alone (token_hash E t) w = (Inr h, w') \<longleftrightarrow> hash_browser_token (re_hkdf E) (re_hmac_hex E) t (re_secret E) = Inr h \<and> w' = w"
  "run_alone (hraise c d) w = (Inr z, w') \<longleftrightarrow> False"
  by (auto simp: hcheck_def hraise_def hsome_def hlift_def compare_digest_def query_def token_hash_def split: option.splits sum.splits)

lemma run_alone_limit: "run_alone (check_rate_limit E l n key) w = (Inr u, w') \<Longrightarrow> wd_db w' = wd_db w"
  by (auto simp: check_rate_limit_def split: prod.splits)

lemma run_alone_settings: "run_alone (get_runtime_settings E) w = (Inr st, w') \<Longrightarrow> w' = w"
  by (auto simp: get_runtime_settings_def Let_def split: if_splits)

lemma run_alone_permission:
  "run_alone (require_browser_permission E st user) w = (Inr u, w') \<longleftrightarrow>
     w' = w \<and> (\<exists>x. user = Some x \<and> su_role x \<in> {''user'', ''admin''} \<and>
       has_browser_extension_permission (Some (su_role x)) (rs_default_permissions st) (stored_group_permissions (re_groups E (su_id x))) = Inr True)"
  by (auto simp: require_browser_permission_def run_alone_hbind_Inr split: option.splits)

lemma run_alone_origin: "run_alone (validate_origin E st orig) w = (Inr n, w') \<longleftrightarrow> settings_origin E st orig = Inr n \<and> w' = w"
  by (auto simp: validate_origin_def split: sum.splits)

lemma run_alone_table:
  "run_alone (uncaught_db (table_call get put f)) w = (Inr x, w') \<longleftrightarrow>
     (\<exists>t. f (get (wd_db w)) = Inr (x, t) \<and> w' = w\<lparr>wd_db := put t (wd_db w)\<rparr>)"
  by (auto simp: uncaught_db_def table_call_def split: sum.splits prod.splits)

lemma restore_needs_row:
  assumes "device_restore i fam h nb now rows = Inr (Some row, rows')"
  shows "\<exists>r \<in> set rows. restore_guard i fam h nb r"
proof -
  have "filter (restore_guard i fam h nb) rows \<noteq> []"
    using assms by (auto simp: device_restore_def update_one_def rbind_Inr_iff scalar_one_or_none_def split: if_splits)
  then show ?thesis by (auto simp: filter_empty_conv)
qed

lemma active_device:
  assumes "device_get_active rows i = Inr (Some d)"
  shows "d \<in> set rows \<and> d_id d = i \<and> revoked_at d = None" "\<And>r. r \<in> set rows \<Longrightarrow> d_id r = i \<Longrightarrow> revoked_at r = None \<Longrightarrow> r = d"
proof -
  have f: "filter (\<lambda>d. d_id d = i \<and> revoked_at d = None) rows = [d]"
    using assms by (auto simp: device_get_active_def scalar_one_or_none_def split: list.splits)
  then have "set (filter (\<lambda>d. d_id d = i \<and> revoked_at d = None) rows) = {d}" by simp
  then show "d \<in> set rows \<and> d_id d = i \<and> revoked_at d = None"
    "\<And>r. r \<in> set rows \<Longrightarrow> d_id r = i \<Longrightarrow> revoked_at r = None \<Longrightarrow> r = d" by auto
qed

lemma refresh_permission_Inr:
  "run_alone (refresh_permission E rq st d) w = (Inr u, w') \<longleftrightarrow> run_alone (require_browser_permission E st (re_users E (d_user_id d))) w = (Inr u, w')"
  by (auto simp: refresh_permission_def run_alone_hbind_Inr split: prod.splits sum.splits http_error.splits)

text \<open>When the credential is current, or the one before it within the grace period.\<close>

definition credential_good :: "request \<Rightarrow> paired_device \<Rightarrow> string \<Rightarrow> bool" where
  "credential_good rq d h \<longleftrightarrow> refresh_token_hash d = h \<or>
     previous_refresh_token_hash d = Some h \<and> (\<exists>t. rotated_at d = Some t \<and> t \<ge> rq_clock rq 3 - ROTATION_GRACE_SECONDS * 1000000000)"

lemma refresh_previous_success:
  assumes "run_alone (refresh_previous E rq d cred h) w = (Inr tr, w')"
    and "\<And>r. r \<in> set (devices (wd_db w)) \<Longrightarrow> d_id r = d_id d \<Longrightarrow> revoked_at r = None \<Longrightarrow> r = d"
  shows "credential_good rq d h"
proof -
  from assms(1) obtain row w1 previous where p: "previous_refresh_token_hash d = Some previous" "previous = h"
    and r: "run_alone (uncaught_db (on_devices (device_restore (d_id d) (token_family_id d) h
                       (rq_clock rq 3 - ROTATION_GRACE_SECONDS * 1000000000) (rq_clock rq 4)))) w = (Inr (Some row), w1)"
    by (auto simp: refresh_previous_def run_alone_hbind_Inr revoke_family_def split: option.splits if_splits)
  from r obtain rows' where "device_restore (d_id d) (token_family_id d) h (rq_clock rq 3 - ROTATION_GRACE_SECONDS * 1000000000)
      (rq_clock rq 4) (devices (wd_db w)) = Inr (Some row, rows')"
    by (auto simp: run_alone_table)
  from restore_needs_row [OF this] obtain x where x: "x \<in> set (devices (wd_db w))"
    "restore_guard (d_id d) (token_family_id d) h (rq_clock rq 3 - ROTATION_GRACE_SECONDS * 1000000000) x" by blast
  then have "x = d" using assms(2) [of x] by (simp add: restore_guard_def)
  then show ?thesis using x(2) p by (auto simp: credential_good_def restore_guard_def split: option.splits)
qed

lemma run_alone_identity:
  "run_alone (refresh_identity_of E c) w = (Inr i, w') \<longleftrightarrow>
     decode_refresh_credential (re_hkdf E) (re_hmac_raw E) c (re_secret E) = Inr i \<and> w' = w"
  by (auto simp: refresh_identity_of_def split: sum.splits auth_error.splits)

lemma refresh_device_success:
  assumes "run_alone (refresh_device E rq cred orig v st d) w = (Inr tr, w')"
    and "\<And>r. r \<in> set (devices (wd_db w)) \<Longrightarrow> d_id r = d_id d \<Longrightarrow> revoked_at r = None \<Longrightarrow> r = d"
  shows "\<exists>h u n. hash_browser_token (re_hkdf E) (re_hmac_hex E) cred (re_secret E) = Inr h \<and> credential_good rq d h \<and>
    re_users E (d_user_id d) = Some u \<and> su_role u \<in> {''user'', ''admin''} \<and>
    settings_origin E st (allowed_origin d) = Inr n \<and> settings_origin E st orig = Inr n"
proof -
  obtain n where n: "settings_origin E st (allowed_origin d) = Inr n"
    using assms(1) by (cases "settings_origin E st (allowed_origin d)") (auto simp: refresh_device_def run_alone_hbind_Inr)
  from assms(1) n obtain h u where n': "settings_origin E st orig = Inr n"
    and h: "hash_browser_token (re_hkdf E) (re_hmac_hex E) cred (re_secret E) = Inr h"
    and u: "re_users E (d_user_id d) = Some u" "su_role u \<in> {''user'', ''admin''}"
    and fin: "run_alone (if refresh_token_hash d = h then refresh_rotate E rq d h v else refresh_previous E rq d cred h) w = (Inr tr, w')"
    by (auto simp: refresh_device_def run_alone_hbind_Inr run_alone_origin refresh_permission_Inr run_alone_permission)
  have "credential_good rq d h"
  proof (cases "refresh_token_hash d = h")
    case False
    then show ?thesis using fin refresh_previous_success [OF _ assms(2)] by simp
  qed (simp add: credential_good_def)
  then show ?thesis using n n' h u by blast
qed

lemma refresh_with_success:
  assumes "run_alone (refresh_with E rq cred orig v st identity) w = (Inr tr, w')"
  shows "\<exists>d h u n. d \<in> set (devices (wd_db w)) \<and> d_id d = ri_device_id identity \<and> token_family_id d = ri_token_family_id identity \<and> revoked_at d = None \<and>
    hash_browser_token (re_hkdf E) (re_hmac_hex E) cred (re_secret E) = Inr h \<and> credential_good rq d h \<and>
    re_users E (d_user_id d) = Some u \<and> su_role u \<in> {''user'', ''admin''} \<and>
    settings_origin E st (allowed_origin d) = Inr n \<and> settings_origin E st orig = Inr n"
proof -
  from assms obtain d w1 where d: "device_get_active (devices (wd_db w)) (ri_device_id identity) = Inr (Some d)"
    "token_family_id d = ri_token_family_id identity" and db: "wd_db w1 = wd_db w"
    and fin: "run_alone (refresh_device E rq cred orig v st d) w1 = (Inr tr, w')"
    by (auto simp: refresh_with_def run_alone_hbind_Inr dest!: run_alone_limit)
  note a = active_device [OF d(1)]
  from refresh_device_success [OF fin] a(2) show ?thesis using a(1) d(2) unfolding db by metis
qed

lemma refresh_token_success:
  assumes "run_alone (refresh_device_token E rq cred orig v) w = (Inr tr, w')"
  shows "\<exists>identity d h u st n. decode_refresh_credential (re_hkdf E) (re_hmac_raw E) cred (re_secret E) = Inr identity \<and>
    d \<in> set (devices (wd_db w)) \<and> d_id d = ri_device_id identity \<and> token_family_id d = ri_token_family_id identity \<and> revoked_at d = None \<and>
    hash_browser_token (re_hkdf E) (re_hmac_hex E) cred (re_secret E) = Inr h \<and> credential_good rq d h \<and>
    re_users E (d_user_id d) = Some u \<and> su_role u \<in> {''user'', ''admin''} \<and>
    settings_origin E st (allowed_origin d) = Inr n \<and> settings_origin E st orig = Inr n"
proof -
  obtain st w1 where st: "run_alone (get_runtime_settings E) w = (Inr st, w1)"
    and s1: "run_alone (hbind (check_rate_limit E refresh_ip_limiter (rq_clock rq 0) (''browser-refresh-ip:'' @ client_fingerprint E rq)) (\<lambda>_.
      hbind (refresh_identity_of E cred) (refresh_with E rq cred orig v st))) w1 = (Inr tr, w')"
    using assms unfolding refresh_device_token_def run_alone_hbind_Inr by blast
  from s1 obtain identity w2 where id: "decode_refresh_credential (re_hkdf E) (re_hmac_raw E) cred (re_secret E) = Inr identity"
    and db: "wd_db w2 = wd_db w" and s2: "run_alone (refresh_with E rq cred orig v st identity) w2 = (Inr tr, w')"
    using run_alone_settings [OF st] by (auto simp: run_alone_hbind_Inr run_alone_identity dest!: run_alone_limit)
  from refresh_with_success [OF s2] show ?thesis using id db by metis
qed

text \<open>C12: What a successful refresh has checked: the credential was signed by this server for an active
  device of this family, it is the device's current credential or the one it replaced at most
  60 seconds ago, the user of the device exists and may control browsers, and the request
  comes for the origin the device was paired with.\<close>

theorem refresh_requires_live_credential:
  assumes "run_alone (refresh_device_token E rq cred orig v) w = (Inr tr, w')"
  shows "\<exists>identity d h u st n. decode_refresh_credential (re_hkdf E) (re_hmac_raw E) cred (re_secret E) = Inr identity \<and>
    d \<in> set (devices (wd_db w)) \<and> d_id d = ri_device_id identity \<and> token_family_id d = ri_token_family_id identity \<and> revoked_at d = None \<and>
    hash_browser_token (re_hkdf E) (re_hmac_hex E) cred (re_secret E) = Inr h \<and> credential_good rq d h \<and>
    re_users E (d_user_id d) = Some u \<and> su_role u \<in> {''user'', ''admin''} \<and>
    settings_origin E st (allowed_origin d) = Inr n \<and> settings_origin E st orig = Inr n"
  using assms by (rule refresh_token_success)

lemma run_alone_restore_none:
  assumes "devices_unique (devices (wd_db w))" "\<And>r. r \<in> set (devices (wd_db w)) \<Longrightarrow> \<not> restore_guard i fam h nb r"
  shows "run_alone (uncaught_db (on_devices (device_restore i fam h nb now))) w = (Inr None, w)"
proof -
  have f: "filter (restore_guard i fam h nb) (devices (wd_db w)) = []" using assms(2) by (auto simp: filter_empty_conv)
  have "update_where (restore_guard i fam h nb) g (devices (wd_db w)) = devices (wd_db w)" for g
    using assms(2) by (auto simp: update_where_def intro: map_idI)
  then show ?thesis using assms(1) f by (simp add: run_alone_table device_restore_def update_one_def scalar_one_or_none_def)
qed

lemma run_alone_revoke_family:
  "run_alone (revoke_family fam now) w = (Inr (), w\<lparr>wd_db := (wd_db w)\<lparr>devices := snd (device_revoke_family fam now (devices (wd_db w)))\<rparr>\<rparr>)"
  unfolding revoke_family_def run_alone_hbind uncaught_db_def table_call_def
  by (simp add: device_revoke_family_def hlift_def)

lemma revoked_family:
  assumes "x \<in> set (snd (device_revoke_family fam now rows))" "token_family_id x = fam"
  shows "revoked_at x \<noteq> None"
proof -
  from assms(1) obtain r where "x = (if in_family fam r then r\<lparr>revoked_at := Some now, d_updated_at := now\<rparr> else r)"
    unfolding device_revoke_family_def update_where_def snd_conv set_map by blast
  then show ?thesis using assms(2) by (cases "in_family fam r") (auto simp: in_family_def)
qed

lemma run_alone_hbindI: "run_alone m w = (Inr a, w') \<Longrightarrow> run_alone (k a) w' = r \<Longrightarrow> run_alone (hbind m k) w = r"
  by (simp add: run_alone_hbind)

lemma refresh_previous_replay:
  assumes "devices_unique (devices (wd_db w))" "d \<in> set (devices (wd_db w))" "\<not> credential_good rq d h"
    and "list_all is_ascii h" "list_all is_ascii (case previous_refresh_token_hash d of None \<Rightarrow> [] | Some p \<Rightarrow> p)"
  shows "run_alone (refresh_previous E rq d cred h) w = (Inl (HTTPException 401 ''invalid_refresh_credential''),
    w\<lparr>wd_db := (wd_db w)\<lparr>devices := snd (device_revoke_family (token_family_id d) (rq_clock rq 5) (devices (wd_db w)))\<rparr>\<rparr>)"
proof -
  let ?nb = "rq_clock rq 3 - ROTATION_GRACE_SECONDS * 1000000000"
  have "r = d" if "r \<in> set (devices (wd_db w))" "d_id r = d_id d" for r
    using that assms(1,2) by (auto simp: devices_unique_def distinct_map dest: inj_onD)
  then have "\<not> restore_guard (d_id d) (token_family_id d) h ?nb r" if "r \<in> set (devices (wd_db w))" for r
    using that assms(3) by (auto simp: restore_guard_def credential_good_def split: option.splits)
  note restore = run_alone_restore_none [OF assms(1) this]
  have "run_alone (case previous_refresh_token_hash d of
              None \<Rightarrow> Ret (Inr None)
            | Some previous \<Rightarrow>
                hbind (if previous = [] then Ret (Inr False) else compare_digest previous h) (\<lambda>same.
                if \<not> same then Ret (Inr None)
                else uncaught_db (on_devices (device_restore (d_id d) (token_family_id d) h ?nb (rq_clock rq 4))))) w = (Inr None, w)"
    using restore assms(4,5) by (auto simp: compare_digest_def split: option.splits)
  then show ?thesis unfolding refresh_previous_def
    by (rule run_alone_hbindI) (simp add: run_alone_hbind run_alone_revoke_family hraise_def)
qed

lemma refresh_device_replay:
  assumes "devices_unique (devices (wd_db w))" "d \<in> set (devices (wd_db w))" "\<not> credential_good rq d h"
    and "list_all is_ascii (refresh_token_hash d)" "list_all is_ascii h" "list_all is_ascii (case previous_refresh_token_hash d of None \<Rightarrow> [] | Some p \<Rightarrow> p)"
    and "settings_origin E st (allowed_origin d) = Inr n" "settings_origin E st orig = Inr n" "list_all is_ascii n"
    and "run_alone (require_browser_permission E st (re_users E (d_user_id d))) w = (Inr (), w)"
    and "hash_browser_token (re_hkdf E) (re_hmac_hex E) cred (re_secret E) = Inr h"
  shows "run_alone (refresh_device E rq cred orig v st d) w = (Inl (HTTPException 401 ''invalid_refresh_credential''),
    w\<lparr>wd_db := (wd_db w)\<lparr>devices := snd (device_revoke_family (token_family_id d) (rq_clock rq 5) (devices (wd_db w)))\<rparr>\<rparr>)"
proof -
  have h: "refresh_token_hash d \<noteq> h" using assms(3) by (simp add: credential_good_def)
  have "run_alone (refresh_device E rq cred orig v st d) w = run_alone (refresh_previous E rq d cred h) w"
    unfolding refresh_device_def assms(7) sum.case
    apply (rule run_alone_hbindI [where a = n and w' = w], simp add: run_alone_origin assms)
    apply (rule run_alone_hbindI [where a = True and w' = w], simp add: assms)
    apply (rule run_alone_hbindI [where a = "()" and w' = w], simp)
    apply (rule run_alone_hbindI [where a = "()" and w' = w], simp add: refresh_permission_Inr assms)
    apply (rule run_alone_hbindI [where a = h and w' = w], simp add: assms)
    by (rule run_alone_hbindI [where a = False and w' = w]) (simp_all add: assms h)
  then show ?thesis using refresh_previous_replay [OF assms(1-3) assms(5,6)] by simp
qed

lemma other_family_kept:
  "token_family_id x \<noteq> fam \<Longrightarrow> x \<in> set (snd (device_revoke_family fam now rows)) \<longleftrightarrow> x \<in> set rows"
  unfolding device_revoke_family_def snd_conv by (auto simp: set_update_where in_family_def image_iff)

text \<open>C13: Reuse of a replaced credential is detected by the endpoint. Take a credential this server has signed for an active device of its
  family that is neither the device's current one nor the one before it within the 60 seconds of grace; the request is within the rate limits, its origin is
  the one the device was paired with, the user may control browsers, and the stored texts are ASCII. Then the request is refused with
  401, every device of the token family is revoked and no other device is touched, and from then on no credential of the
  family is accepted, the newest one neither.\<close>

theorem replay_revokes_family:
  assumes settings: "run_alone (get_runtime_settings E) w = (Inr st, w)"
    and ip_limit: "run_alone (check_rate_limit E refresh_ip_limiter (rq_clock rq 0) (''browser-refresh-ip:'' @ client_fingerprint E rq)) w = (Inr (), w1)"
    and signed: "decode_refresh_credential (re_hkdf E) (re_hmac_raw E) cred (re_secret E) = Inr identity"
    and device_limit: "run_alone (check_rate_limit E refresh_device_limiter (rq_clock rq 1) (''browser-refresh-device:'' @ ri_device_id identity)) w1 = (Inr (), w2)"
    and active: "device_get_active (devices (wd_db w)) (ri_device_id identity) = Inr (Some d)" "token_family_id d = ri_token_family_id identity"
    and origin: "settings_origin E st (allowed_origin d) = Inr n" "settings_origin E st orig = Inr n"
    and permitted: "re_users E (d_user_id d) = Some u" "su_role u \<in> {''user'', ''admin''}" "has_browser_extension_permission (Some (su_role u))
          (rs_default_permissions st) (stored_group_permissions (re_groups E (su_id u))) = Inr True"
    and replaced: "hash_browser_token (re_hkdf E) (re_hmac_hex E) cred (re_secret E) = Inr h" "\<not> credential_good rq d h"
    and stored: "devices_unique (devices (wd_db w))" "list_all (list_all is_ascii) [token_family_id d, n, h, refresh_token_hash d]"
      "list_all is_ascii (case previous_refresh_token_hash d of None \<Rightarrow> [] | Some p \<Rightarrow> p)"
  shows "\<exists>w'. run_alone (refresh_device_token E rq cred orig v) w = (Inl (HTTPException 401 ''invalid_refresh_credential''), w') \<and>
    (\<forall>x \<in> set (devices (wd_db w')). token_family_id x = token_family_id d \<longrightarrow> revoked_at x \<noteq> None) \<and>
    (\<forall>x. token_family_id x \<noteq> token_family_id d \<longrightarrow> (x \<in> set (devices (wd_db w')) \<longleftrightarrow> x \<in> set (devices (wd_db w)))) \<and>
    (\<forall>rq' cred' orig' v' identity' tr w''. decode_refresh_credential (re_hkdf E) (re_hmac_raw E) cred' (re_secret E) = Inr identity' \<longrightarrow>
       ri_token_family_id identity' = token_family_id d \<longrightarrow> run_alone (refresh_device_token E rq' cred' orig' v') w' \<noteq> (Inr tr, w''))"
proof -
  have db: "wd_db w2 = wd_db w" using run_alone_limit [OF ip_limit] run_alone_limit [OF device_limit] by simp
  let ?w' = "w2\<lparr>wd_db := (wd_db w2)\<lparr>devices := snd (device_revoke_family (token_family_id d) (rq_clock rq 5) (devices (wd_db w2)))\<rparr>\<rparr>"
  have perm: "run_alone (require_browser_permission E st (re_users E (d_user_id d))) w2 = (Inr (), w2)"
    using permitted by (simp add: run_alone_permission)
  have "run_alone (refresh_device E rq cred orig v st d) w2 = (Inl (HTTPException 401 ''invalid_refresh_credential''), ?w')"
    by (rule refresh_device_replay [OF _ _ replaced(2) _ _ stored(3) origin _ perm replaced(1)])
      (use stored(1,2) active_device(1) [OF active(1)] db in simp_all)
  then have "run_alone (refresh_with E rq cred orig v st identity) w1 = (Inl (HTTPException 401 ''invalid_refresh_credential''), ?w')"
    unfolding refresh_with_def
    by (intro run_alone_hbindI [OF device_limit] run_alone_hbindI [where a = "Some d" and w' = w2] run_alone_hbindI [where a = d and w' = w2]
        run_alone_hbindI [where a = True and w' = w2] run_alone_hbindI [where a = "()" and w' = w2]) (use active stored(2) db in simp_all)
  then have run: "run_alone (refresh_device_token E rq cred orig v) w = (Inl (HTTPException 401 ''invalid_refresh_credential''), ?w')"
    unfolding refresh_device_token_def
    by (intro run_alone_hbindI [OF settings] run_alone_hbindI [OF ip_limit] run_alone_hbindI [where a = identity and w' = w1])
      (simp_all add: run_alone_identity signed)
  have revoked: "revoked_at x \<noteq> None" if "x \<in> set (devices (wd_db ?w'))" "token_family_id x = token_family_id d" for x
    using revoked_family that by simp
  show ?thesis
  proof (intro exI [of _ ?w'] conjI run)
    show "\<forall>rq' cred' orig' v' identity' tr w''. decode_refresh_credential (re_hkdf E) (re_hmac_raw E) cred' (re_secret E) = Inr identity' \<longrightarrow>
       ri_token_family_id identity' = token_family_id d \<longrightarrow> run_alone (refresh_device_token E rq' cred' orig' v') ?w' \<noteq> (Inr tr, w'')"
      using revoked by (fastforce dest!: refresh_token_success)
  qed (use revoked other_family_kept db in auto)
qed

subsection \<open>A sample server\<close>

definition desk_env :: "unit router_env" where
  "desk_env = \<lparr>re_client = None, re_prefix = ''p'', re_secret = ''s'', re_hkdf = (\<lambda>k i. i), re_hmac_hex = (\<lambda>k m. ''h''),
     re_hmac_raw = (\<lambda>k m. k @ m), re_sha256 = (\<lambda>m. m), re_jwt_encode = (\<lambda>c k. ''j''), re_aes_encrypt = (\<lambda>k n p a. p),
     re_aes_decrypt = (\<lambda>k n c a. Some c), re_float_repr = (\<lambda>_. ''0.0''), re_idna = (\<lambda>_. None),
     re_users = (\<lambda>i. Some \<lparr>su_id = i, su_role = ''admin''\<rparr>), re_groups = (\<lambda>_. []), re_environment = ''prod'', re_is_file = (\<lambda>_. True), re_jsonable = id\<rparr>"

definition desk_request :: request where
  "desk_request = \<lparr>rq_client = None, rq_origin = None, rq_device = None, rq_clock = (\<lambda>n. 1000000000),
     rq_fresh = \<lparr>fr_uuid = ''dev2'', fr_family = ''fam2'', fr_nonce = replicate 32 (CHR ''n''), fr_jti = ''j'', fr_code = [0, 1, 2, 3, 4, 5, 6, 7],
       fr_token = ''t''\<rparr>\<rparr>"

definition desk_device :: paired_device where
  "desk_device = \<lparr>d_id = ''dev'', d_user_id = ''u'', d_label = ''l'', refresh_token_hash = ''h'', previous_refresh_token_hash = None,
     rotated_at = None, token_family_id = ''fam'', allowed_origin = ''https://tide-bot.com'', d_extension_version = ''1'', last_seen_at = None,
     revoked_at = None, d_created_at = 0, d_updated_at = 0\<rparr>"

definition desk_grant :: pairing_grant where
  "desk_grant = \<lparr>g_id = ''g'', g_user_id = Some ''u'', device_code_hash = ''h'', verifier_hash = ''h'', requested_origin = ''https://tide-bot.com'',
     g_device_label = ''new'', g_extension_version = ''1'', g_status = ''approved'', g_expires_at = 2000000000, consumed_at = None, g_created_at = 0\<rparr>"

definition desk_world :: "unit world" where
  "desk_world = \<lparr>wd_db = \<lparr>grants = [desk_grant], devices = [desk_device], workflows = [], schedules = [], audits = []\<rparr>,
     wd_mem = [], wd_redis = (),
     wd_config = \<lparr>DEFAULTS = [], PERSISTENT_ENABLED = True, OAUTH_PERSISTENT_ENABLED = False, c_rows = []\<rparr>\<rparr>"

lemmas desk_defs = desk_env_def desk_request_def desk_device_def desk_grant_def desk_world_def

lemma desk_settings: "run_alone (get_runtime_settings desk_env) desk_world =
   (Inr \<lparr>rs_default_permissions = PDict [(''features'', PDict [(''browser_extension'', PBool True)])], rs_custom_origins_unlocked = False,
     rs_environment = ''prod'', rs_default_origin = ''https://tide-bot.com''\<rparr>, desk_world)"
  by (simp add: get_runtime_settings_def desk_defs config_get_def default_value_def persistent_enabled_for_def startswith_def DEFAULT_SERVER_ORIGIN_def
      is_mapping_def py_truthy_def)

lemma desk_limit:
  assumes "map_of (wd_mem w) key = None" "1 \<le> n"
  shows "run_alone (check_rate_limit desk_env (browser_limiter n) 1000000000 key) w =
    (Inr (), w\<lparr>wd_mem := AList.update key [(0, 1)] (wd_mem w)\<rparr>)"
  using assms by (simp add: check_rate_limit_def is_limited_def is_limited_memory_def desk_env_def browser_limiter_def current_bucket_def
      bump_bucket_def drop_expired_def bucket_total_def hcheck_def Let_def)

lemma desk_origin:
  "settings_origin desk_env \<lparr>rs_default_permissions = p, rs_custom_origins_unlocked = False, rs_environment = ''prod'',
     rs_default_origin = ''https://tide-bot.com''\<rparr> ''https://tide-bot.com'' = Inr ''https://tide-bot.com''"
  by (simp add: settings_origin_def validate_server_origin_def normalize_tide_bot)

lemma desk_keys: "\<exists>ks. derive_browser_extension_keys (\<lambda>k i. i) (Some ''s'') = Inr ks"
  by (simp add: derive_browser_extension_keys_def derive_key_def)

lemma desk_hash: "t \<noteq> [] \<Longrightarrow> hash_browser_token (\<lambda>k i. i) (\<lambda>k m. ''h'') t ''s'' = Inr ''h''"
  using desk_keys by (auto simp: hash_browser_token_def)

lemma desk_token: "run_alone (make_token_response desk_env rq n d t) w = (Inr \<lparr>tr_access_token = ''j'', tr_refresh_token = t,
    tr_token_family_id = token_family_id d, tr_device = safe_device d\<rparr>, w)"
  using desk_keys by (auto simp: make_token_response_def run_alone_hbind desk_env_def create_browser_access_token_def lift_key_def hlift_def)

lemma desk_permission: "run_alone (require_browser_permission desk_env st (Some \<lparr>su_id = i, su_role = ''admin''\<rparr>)) w = (Inr (), w)"
  by (simp add: run_alone_permission has_browser_extension_permission_def)

lemma desk_rotates:
  assumes "devices (wd_db w) = [desk_device]"
  shows "\<exists>tr w'. run_alone (refresh_rotate desk_env desk_request desk_device ''h'' ''2'') w = (Inr tr, w')"
proof -
  let ?row = "rotated ''h'' ''h'' (Some ''2'') 1000000000 desk_device"
  obtain c where c: "create_refresh_credential (\<lambda>k i. i) (\<lambda>k m. k @ m) (replicate 32 (CHR ''n'')) ''dev'' ''fam'' ''s'' = Inr c"
    using sample_credential by blast
  have ne: "c \<noteq> []" using c by (auto simp: create_refresh_credential_def lift_key_def rbind_Inr_iff Let_def REFRESH_CREDENTIAL_PREFIX_def split: sum.splits)
  have 1: "run_alone (hlift UAuth (create_refresh_credential (re_hkdf desk_env) (re_hmac_raw desk_env) (fr_nonce (rq_fresh desk_request))
      (d_id desk_device) (token_family_id desk_device) (re_secret desk_env))) w = (Inr c, w)"
    using c by (simp add: desk_defs)
  have 2: "run_alone (token_hash desk_env c) w = (Inr ''h'', w)" using desk_hash [OF ne] by (simp add: desk_env_def)
  have 3: "run_alone (uncaught_db (on_devices (device_rotate (d_id desk_device) (token_family_id desk_device) ''h'' ''h'' (Some ''2'')
      (rq_clock desk_request 3)))) w = (Inr (Some ?row), w\<lparr>wd_db := (wd_db w)\<lparr>devices := [?row]\<rparr>\<rparr>)"
    using assms by (simp add: run_alone_table device_rotate_def update_one_def update_where_def devices_unique_def scalar_one_or_none_def
        rotate_guard_def rotated_def desk_device_def desk_request_def)
  show ?thesis unfolding refresh_rotate_def
    by (intro exI, rule run_alone_hbindI [OF 1], rule run_alone_hbindI [OF 2], rule run_alone_hbindI [OF 3])
      (simp add: desk_token)
qed

lemma desk_refreshes:
  "\<exists>c tr w'. run_alone (refresh_device_token desk_env desk_request c ''https://tide-bot.com'' ''2'') desk_world = (Inr tr, w')"
proof -
  obtain c where c: "create_refresh_credential (\<lambda>k i. i) (\<lambda>k m. k @ m) (replicate 32 (CHR ''n'')) ''dev'' ''fam'' ''s'' = Inr c"
    using sample_credential by blast
  then have d: "decode_refresh_credential (\<lambda>k i. i) (\<lambda>k m. k @ m) c ''s'' = Inr \<lparr>ri_device_id = ''dev'', ri_token_family_id = ''fam''\<rparr>"
    by (rule decode_created_credential) simp_all
  have ne: "c \<noteq> []" using c by (auto simp: create_refresh_credential_def lift_key_def rbind_Inr_iff Let_def REFRESH_CREDENTIAL_PREFIX_def split: sum.splits)
  let ?st = "\<lparr>rs_default_permissions = PDict [(''features'', PDict [(''browser_extension'', PBool True)])], rs_custom_origins_unlocked = False,
     rs_environment = ''prod'', rs_default_origin = ''https://tide-bot.com''\<rparr>"
  let ?i = "\<lparr>ri_device_id = ''dev'', ri_token_family_id = ''fam''\<rparr>"
  let ?ip = "''browser-refresh-ip:'' @ client_fingerprint desk_env desk_request"
  let ?w1 = "desk_world\<lparr>wd_mem := AList.update ?ip [(0, 1)] (wd_mem desk_world)\<rparr>"
  let ?w2 = "?w1\<lparr>wd_mem := AList.update (''browser-refresh-device:'' @ ri_device_id ?i) [(0, 1)] (wd_mem ?w1)\<rparr>"
  have clock: "rq_clock desk_request n = 1000000000" for n by (simp add: desk_request_def)
  have lim1: "run_alone (check_rate_limit desk_env refresh_ip_limiter (rq_clock desk_request 0) ?ip) desk_world = (Inr (), ?w1)"
    unfolding refresh_ip_limiter_def clock by (rule desk_limit) (simp_all add: desk_world_def)
  have id: "run_alone (refresh_identity_of desk_env c) ?w1 = (Inr ?i, ?w1)"
    by (simp add: run_alone_identity desk_env_def d)
  have lim2: "run_alone (check_rate_limit desk_env refresh_device_limiter (rq_clock desk_request 1) (''browser-refresh-device:'' @ ri_device_id ?i)) ?w1
      = (Inr (), ?w2)"
    unfolding refresh_device_limiter_def clock by (rule desk_limit) (simp_all add: desk_world_def)
  have dev: "devices (wd_db ?w2) = [desk_device]" by (simp add: desk_world_def)
  have get: "run_alone (query (\<lambda>db. device_get_active (devices db) (ri_device_id ?i))) ?w2 = (Inr (Some desk_device), ?w2)"
    using dev by (simp add: device_get_active_def scalar_one_or_none_def desk_device_def)
  obtain tr w' where fin: "run_alone (refresh_rotate desk_env desk_request desk_device ''h'' ''2'') ?w2 = (Inr tr, w')"
    using desk_rotates [OF dev] by blast
  have so: "settings_origin desk_env ?st (allowed_origin desk_device) = Inr ''https://tide-bot.com''"
    using desk_origin by (simp add: desk_device_def)
  have per: "run_alone (refresh_permission desk_env desk_request ?st desk_device) ?w2 = (Inr (), ?w2)"
    unfolding refresh_permission_Inr using desk_permission by (simp add: desk_env_def desk_device_def)
  have th: "run_alone (token_hash desk_env c) ?w2 = (Inr ''h'', ?w2)" using desk_hash [OF ne] by (simp add: desk_env_def)
  have rd: "run_alone (refresh_device desk_env desk_request c ''https://tide-bot.com'' ''2'' ?st desk_device) ?w2 = (Inr tr, w')"
    unfolding refresh_device_def so sum.case
    apply (rule run_alone_hbindI [where a = "''https://tide-bot.com''" and w' = ?w2], simp add: run_alone_origin desk_origin)
    apply (rule run_alone_hbindI [where a = True and w' = ?w2], simp add: is_ascii_def)
    apply (rule run_alone_hbindI [where a = "()" and w' = ?w2], simp)
    apply (rule run_alone_hbindI [OF per], rule run_alone_hbindI [OF th])
    apply (rule run_alone_hbindI [where a = True and w' = ?w2], simp add: is_ascii_def desk_device_def)
    by (simp only: if_True, rule fin)
  have rw: "run_alone (refresh_with desk_env desk_request c ''https://tide-bot.com'' ''2'' ?st ?i) ?w1 = (Inr tr, w')"
    unfolding refresh_with_def
    apply (rule run_alone_hbindI [OF lim2], rule run_alone_hbindI [OF get])
    apply (rule run_alone_hbindI [where a = desk_device and w' = ?w2], simp)
    apply (rule run_alone_hbindI [where a = True and w' = ?w2], simp add: is_ascii_def desk_device_def)
    by (rule run_alone_hbindI [where a = "()" and w' = ?w2], simp, rule rd)
  show ?thesis unfolding refresh_device_token_def
    by (intro exI, rule run_alone_hbindI [OF desk_settings], rule run_alone_hbindI [OF lim1], rule run_alone_hbindI [OF id], rule rw)
qed

text \<open>The same server before any device is paired.\<close>

definition fresh_world :: "unit world" where
  "fresh_world = desk_world\<lparr>wd_db := (wd_db desk_world)\<lparr>devices := []\<rparr>\<rparr>"

lemma desk_creates:
  assumes "devices (wd_db w) = []"
  shows "\<exists>d t w'. run_alone (create_paired_device desk_env desk_request u l orig v now) w = (Inr (d, t), w')"
proof -
  obtain c where c: "create_refresh_credential (\<lambda>k i. i) (\<lambda>k m. k @ m) (replicate 32 (CHR ''n'')) ''dev2'' ''fam2'' ''s'' = Inr c"
    using derive_keys_ok [of "''s''" "\<lambda>k i. i"] by (auto simp: create_refresh_credential_def lift_key_def Let_def)
  have ne: "c \<noteq> []" using c by (auto simp: create_refresh_credential_def lift_key_def rbind_Inr_iff Let_def REFRESH_CREDENTIAL_PREFIX_def split: sum.splits)
  have 1: "run_alone (hlift UAuth (create_refresh_credential (re_hkdf desk_env) (re_hmac_raw desk_env) (fr_nonce (rq_fresh desk_request))
      (fr_uuid (rq_fresh desk_request)) (fr_family (rq_fresh desk_request)) (re_secret desk_env))) w = (Inr c, w)"
    using c by (simp add: desk_defs)
  have 2: "run_alone (token_hash desk_env c) w = (Inr ''h'', w)" using desk_hash [OF ne] by (simp add: desk_env_def)
  have l: "[1..<MAX_DEVICE_LABEL_ATTEMPTS + 1] = 1 # [2..<6]" by (simp add: MAX_DEVICE_LABEL_ATTEMPTS_def upt_rec)
  show ?thesis unfolding create_paired_device_def Let_def l
    by (rule exI, rule exI, rule exI, rule run_alone_hbindI [OF 1], rule run_alone_hbindI [OF 2])
      (simp add: run_alone_hbind table_call_def device_insert_def insert_one_def devices_unique_def assms)
qed

lemma desk_exchanges:
  "\<exists>tr w'. run_alone (exchange_pairing_token desk_env desk_request ''g'' ''c'' ''v'') fresh_world = (Inr tr, w')"
proof -
  let ?ip = "''browser-pair-poll-ip:'' @ client_fingerprint desk_env desk_request"
  let ?gk = "''browser-pair-poll-grant:'' @ ''g''"
  let ?w1 = "fresh_world\<lparr>wd_mem := AList.update ?ip [(0, 1)] (wd_mem fresh_world)\<rparr>"
  let ?w2 = "?w1\<lparr>wd_mem := AList.update ?gk [(0, 1)] (wd_mem ?w1)\<rparr>"
  let ?row = "desk_grant\<lparr>g_status := ''consumed'', consumed_at := Some 1000000000\<rparr>"
  let ?w3 = "?w2\<lparr>wd_db := (wd_db ?w2)\<lparr>grants := [?row]\<rparr>\<rparr>"
  have clock: "rq_clock desk_request n = 1000000000" for n by (simp add: desk_request_def)
  have gs: "grants (wd_db ?w2) = [desk_grant]" by (simp add: fresh_world_def desk_world_def)
  have st: "run_alone (get_runtime_settings desk_env) fresh_world = (fst (run_alone (get_runtime_settings desk_env) desk_world), fresh_world)"
    by (simp add: get_runtime_settings_def fresh_world_def Let_def)
  have lim1: "run_alone (check_rate_limit desk_env pairing_poll_ip_limiter (rq_clock desk_request 0) ?ip) fresh_world = (Inr (), ?w1)"
    unfolding pairing_poll_ip_limiter_def clock by (rule desk_limit) (simp_all add: fresh_world_def desk_world_def)
  have lim2: "run_alone (check_rate_limit desk_env pairing_poll_grant_limiter (rq_clock desk_request 1) ?gk) ?w1 = (Inr (), ?w2)"
    unfolding pairing_poll_grant_limiter_def clock by (rule desk_limit) (simp_all add: fresh_world_def desk_world_def)
  have get: "run_alone (query (\<lambda>db. Inr (grant_get_by_id (grants db) ''g''))) ?w2 = (Inr (Some desk_grant), ?w2)"
    using gs by (simp add: grant_get_by_id_def) (simp add: desk_grant_def)
  have match: "run_alone (secret_matches desk_env ''h'' t) ?w2 = (Inr True, ?w2)" if "t \<noteq> []" for t
    unfolding secret_matches_def
    by (rule run_alone_hbindI [where a = "''h''" and w' = ?w2]) (use that desk_hash in \<open>simp_all add: desk_env_def is_ascii_def\<close>)
  have con: "run_alone (uncaught_db (on_grants (grant_consume ''g'' ''h'' 1000000000))) ?w2 = (Inr (Some ?row), ?w3)"
    unfolding run_alone_table grant_consume_def update_one_def gs
    by (simp add: update_where_def grants_unique_def scalar_one_or_none_def consume_guard_def desk_grant_def)
  have dev: "devices (wd_db ?w3) = []" by (simp add: fresh_world_def)
  obtain d t w' where cr: "run_alone (create_paired_device desk_env desk_request ''u'' ''new'' ''https://tide-bot.com'' ''1'' 1000000000) ?w3 = (Inr (d, t), w')"
    using desk_creates [OF dev] by blast
  have g: "device_code_hash desk_grant = ''h''" "verifier_hash desk_grant = ''h''" "g_user_id desk_grant = Some ''u''" "g_id desk_grant = ''g''"
    "requested_origin desk_grant = ''https://tide-bot.com''" "g_device_label desk_grant = ''new''" "g_extension_version desk_grant = ''1''"
    "g_status desk_grant = ''approved''" "g_expires_at desk_grant = 2000000000" by (simp_all add: desk_grant_def)
  have user: "re_users desk_env u = Some \<lparr>su_id = u, su_role = ''admin''\<rparr>" for u by (simp add: desk_env_def)
  have hash: "run_alone (token_hash desk_env ''v'') ?w2 = (Inr ''h'', ?w2)" using desk_hash [of "''v''"] by (simp add: desk_env_def)
  show ?thesis unfolding exchange_pairing_token_def Let_def clock
    apply (intro exI)
    apply (rule run_alone_hbindI [OF st [unfolded desk_settings fst_conv]], rule run_alone_hbindI [OF lim1 [unfolded clock]])
    apply (rule run_alone_hbindI [OF lim2 [unfolded clock]], rule run_alone_hbindI [OF get])
    apply (rule run_alone_hbindI [where a = desk_grant and w' = ?w2], simp)
    unfolding g option.sel user
    apply (rule run_alone_hbindI [OF match], simp)
    apply (rule run_alone_hbindI [where a = True and w' = ?w2], simp only: if_True, rule match, simp)
    apply (rule run_alone_hbindI [where a = "()" and w' = ?w2], (simp; fail))+
    apply (rule run_alone_hbindI [OF desk_permission])
    apply (rule run_alone_hbindI [where a = "''https://tide-bot.com''" and w' = ?w2], simp add: run_alone_origin desk_origin)
    apply (rule run_alone_hbindI [OF hash], rule run_alone_hbindI [OF con])
    apply (rule run_alone_hbindI [where a = ?row and w' = ?w3], simp)
    by (rule run_alone_hbindI [OF cr], simp only: prod.case, rule desk_token)
qed

text \<open>Running a request alone is one way to schedule it.\<close>

lemma pool_run_alone:
  assumes "i < length ps" "run_alone (ps ! i) w = (a, w')"
  shows "pool_run A (ps, w) (ps[i := Ret a], w')"
proof -
  have "pool_run A c (ps[i := Ret a], w')"
    if "pool_run A c (ps[i := p], v)" "run_alone p v = (a, w')" for p c v
    using that
  proof (induction p arbitrary: v rule: prog_steps_induct)
    case (Atomic f)
    have "pool_step A (ps[i := Atomic f], v) (ps[i := Atomic f, i := fst (f v)], snd (f v))"
      by (rule pool_atomic [of i "ps[i := Atomic f]" f v]) (use assms(1) in simp_all)
    then show ?case using Atomic pool_one by fastforce
  qed simp
  from this [of "(ps, w)" "ps ! i" w] show ?thesis using assms pool_refl by fastforce
qed

abbreviation desk_exchange :: "(unit, unit) handler" where
  "desk_exchange \<equiv> discard (exchange_pairing_token desk_env desk_request ''g'' ''c'' ''v'')"

lemma desk_exchange_run:
  "\<exists>w'. pool_run (endpoint desk_env) ([desk_exchange, desk_exchange], fresh_world) ([Ret (Inr ()), desk_exchange], w')"
proof -
  from desk_exchanges obtain tr w' where "run_alone (exchange_pairing_token desk_env desk_request ''g'' ''c'' ''v'') fresh_world = (Inr tr, w')"
    by blast
  then have "run_alone desk_exchange fresh_world = (Inr (), w')" unfolding discard_def by (rule run_alone_hbindI) simp
  then show ?thesis using pool_run_alone [of 0 "[desk_exchange, desk_exchange]" fresh_world "Inr ()" w' "endpoint desk_env"] by auto
qed

lemma desk_exchange_endpoint: "list_all (endpoint desk_env) [desk_exchange, desk_exchange]"
  by (simp add: endpoint.intros)

theorem requests_life_cycle_witness:
  "\<exists>ps' w'. pool_run (endpoint desk_env) ([desk_exchange, desk_exchange], fresh_world) (ps', w') \<and>
     ps' ! 0 = Ret (Inr ()) \<and> (\<exists>g' \<in> set (grants (wd_db w')). grant_le desk_grant g')"
proof -
  from desk_exchange_run obtain w' where w': "pool_run (endpoint desk_env) ([desk_exchange, desk_exchange], fresh_world) ([Ret (Inr ()), desk_exchange], w')"
    by blast
  have "desk_grant \<in> set (grants (wd_db fresh_world))" by (simp add: fresh_world_def desk_world_def)
  with requests_life_cycle [OF w' desk_exchange_endpoint] w' show ?thesis
    by (intro exI [of _ "[Ret (Inr ()), desk_exchange]"] exI [of _ w']) simp
qed

theorem one_exchange_per_grant_witness:
  "\<exists>ps' w'. pool_run (endpoint desk_env) ([desk_exchange, desk_exchange], fresh_world) (ps', w') \<and>
     ps' ! 0 = Ret (Inr ()) \<and> ps' ! 1 \<noteq> Ret (Inr ())"
proof -
  from desk_exchange_run obtain w' where w': "pool_run (endpoint desk_env) ([desk_exchange, desk_exchange], fresh_world) ([Ret (Inr ()), desk_exchange], w')"
    by blast
  from one_exchange_per_grant [OF w' desk_exchange_endpoint, of 0 1] w' show ?thesis
    by (intro exI [of _ "[Ret (Inr ()), desk_exchange]"] exI [of _ w']) simp
qed

theorem refresh_requires_live_credential_witness:
  "\<exists>c tr w' d. run_alone (refresh_device_token desk_env desk_request c ''https://tide-bot.com'' ''2'') desk_world = (Inr tr, w') \<and>
     d \<in> set (devices (wd_db desk_world)) \<and> revoked_at d = None"
proof -
  from desk_refreshes obtain c tr w' where r: "run_alone (refresh_device_token desk_env desk_request c ''https://tide-bot.com'' ''2'') desk_world = (Inr tr, w')"
    by blast
  from refresh_requires_live_credential [OF r] r show ?thesis by blast
qed

text \<open>The credential of a device that has been rotated twice since.\<close>

definition replayed_world :: "unit world" where
  "replayed_world = desk_world\<lparr>wd_db := (wd_db desk_world)\<lparr>devices := [desk_device\<lparr>refresh_token_hash := ''new''\<rparr>]\<rparr>\<rparr>"

lemma replayed_settings: "run_alone (get_runtime_settings desk_env) replayed_world =
   (Inr \<lparr>rs_default_permissions = PDict [(''features'', PDict [(''browser_extension'', PBool True)])], rs_custom_origins_unlocked = False,
     rs_environment = ''prod'', rs_default_origin = ''https://tide-bot.com''\<rparr>, replayed_world)"
  using desk_settings by (auto simp: get_runtime_settings_def replayed_world_def Let_def split: if_splits)

theorem replay_revokes_family_witness:
  "\<exists>c w'. run_alone (refresh_device_token desk_env desk_request c ''https://tide-bot.com'' ''2'') replayed_world =
      (Inl (HTTPException 401 ''invalid_refresh_credential''), w')"
proof -
  let ?d = "desk_device\<lparr>refresh_token_hash := ''new''\<rparr>"
  obtain c where c: "create_refresh_credential (\<lambda>k i. i) (\<lambda>k m. k @ m) (replicate 32 (CHR ''n'')) ''dev'' ''fam'' ''s'' = Inr c"
    using sample_credential by blast
  then have "decode_refresh_credential (\<lambda>k i. i) (\<lambda>k m. k @ m) c ''s'' = Inr \<lparr>ri_device_id = ''dev'', ri_token_family_id = ''fam''\<rparr>"
    by (rule decode_created_credential) simp_all
  then have signed: "decode_refresh_credential (re_hkdf desk_env) (re_hmac_raw desk_env) c (re_secret desk_env) =
      Inr \<lparr>ri_device_id = ''dev'', ri_token_family_id = ''fam''\<rparr>" by (simp add: desk_env_def)
  have ne: "c \<noteq> []" using c by (auto simp: create_refresh_credential_def lift_key_def rbind_Inr_iff Let_def REFRESH_CREDENTIAL_PREFIX_def split: sum.splits)
  have hash: "hash_browser_token (re_hkdf desk_env) (re_hmac_hex desk_env) c (re_secret desk_env) = Inr ''h''"
    using desk_hash [OF ne] by (simp add: desk_env_def)
  let ?ip = "''browser-refresh-ip:'' @ client_fingerprint desk_env desk_request"
  let ?w1 = "replayed_world\<lparr>wd_mem := AList.update ?ip [(0, 1)] (wd_mem replayed_world)\<rparr>"
  have clock: "rq_clock desk_request n = 1000000000" for n by (simp add: desk_request_def)
  have lim1: "run_alone (check_rate_limit desk_env refresh_ip_limiter (rq_clock desk_request 0) ?ip) replayed_world = (Inr (), ?w1)"
    unfolding refresh_ip_limiter_def clock by (rule desk_limit) (simp_all add: replayed_world_def desk_world_def)
  have lim2: "run_alone (check_rate_limit desk_env refresh_device_limiter (rq_clock desk_request 1)
      (''browser-refresh-device:'' @ ri_device_id \<lparr>ri_device_id = ''dev'', ri_token_family_id = ''fam''\<rparr>)) ?w1
      = (Inr (), ?w1\<lparr>wd_mem := AList.update (''browser-refresh-device:'' @ ri_device_id \<lparr>ri_device_id = ''dev'', ri_token_family_id = ''fam''\<rparr>) [(0, 1)] (wd_mem ?w1)\<rparr>)"
    unfolding refresh_device_limiter_def clock by (rule desk_limit) (simp_all add: replayed_world_def desk_world_def)
  have active: "device_get_active (devices (wd_db replayed_world)) (ri_device_id \<lparr>ri_device_id = ''dev'', ri_token_family_id = ''fam''\<rparr>) = Inr (Some ?d)"
    by (simp add: replayed_world_def device_get_active_def scalar_one_or_none_def desk_device_def)
  have orig: "settings_origin desk_env \<lparr>rs_default_permissions = PDict [(''features'', PDict [(''browser_extension'', PBool True)])], rs_custom_origins_unlocked = False,
     rs_environment = ''prod'', rs_default_origin = ''https://tide-bot.com''\<rparr> (allowed_origin ?d) = Inr ''https://tide-bot.com''"
    using desk_origin by (simp add: desk_device_def)
  have user: "re_users desk_env (d_user_id ?d) = Some \<lparr>su_id = ''u'', su_role = ''admin''\<rparr>" by (simp add: desk_env_def desk_device_def)
  have "\<not> credential_good desk_request ?d ''h''" by (simp add: credential_good_def desk_device_def)
  from replay_revokes_family [OF replayed_settings lim1 signed lim2 active _ orig desk_origin user _ _ hash this,
      of "''2''"] show ?thesis
    by (auto simp: devices_unique_def is_ascii_def desk_device_def replayed_world_def has_browser_extension_permission_def)
qed

end
