(* ===== verification/Browser_Settings.thy ===== *)
theory Browser_Settings
  imports Browser_Requests
begin

section \<open>Who changes the lock on custom origins\<close>

text \<open>
  The lock on custom origins is one setting of the configuration, which the endpoints of the extension share. The
  relation \<open>lock_kept\<close> (an interpretation of \<open>step_contract\<close>) holds of two states with the same lock; every atomic step of every
  endpoint is in it, the change of the settings by an administrator apart.
\<close>

definition origins_unlocked :: "'r world \<Rightarrow> bool" where
  "origins_unlocked w = py_truthy (config_get (wd_config w) ''browser_extension.custom_origins_unlocked'' (PBool False))"

definition lock_kept :: "'r world \<Rightarrow> 'r world \<Rightarrow> bool" where
  "lock_kept w w' \<longleftrightarrow> origins_unlocked w' = origins_unlocked w"

interpretation origin_lock: step_contract lock_kept
  by unfold_locales (simp_all add: lock_kept_def)

named_theorems locks \<open>programs all of whose steps keep the lock on custom origins\<close>

lemma locks_bind [locks]:
  "steps_in lock_kept (Ret a)"
  "steps_in lock_kept m \<Longrightarrow> (\<And>a. steps_in lock_kept (k a)) \<Longrightarrow> steps_in lock_kept (hbind m k)"
  "steps_in lock_kept n \<Longrightarrow> (\<And>a. steps_in lock_kept (k' a)) \<Longrightarrow> steps_in lock_kept (prog_bind n k')"
  unfolding hbind_def by (auto intro!: steps_in_bind split: sum.splits)

lemma locks_pure [locks]:
  "steps_in lock_kept (hlift exn r)" "steps_in lock_kept (hraise c d)" "steps_in lock_kept (hcheck ok c d)"
  "steps_in lock_kept (hsome v c d)" "steps_in lock_kept (compare_digest x y)" "steps_in lock_kept (token_hash E t)"
  by (auto simp: hlift_def hraise_def hcheck_def hsome_def compare_digest_def token_hash_def split: option.splits)

lemma locks_steps [locks]:
  "steps_in lock_kept (query f)" "steps_in lock_kept (get_runtime_settings E)" "steps_in lock_kept (check_rate_limit E l n key)"
  "steps_in lock_kept (table_call get put g)"
  by (auto simp: query_def get_runtime_settings_def check_rate_limit_def table_call_def Let_def hlift_def hcheck_def hraise_def
      lock_kept_def origins_unlocked_def split: prod.splits sum.splits)

lemma locks_config [locks]:
  "key \<noteq> ''browser_extension.custom_origins_unlocked'' \<Longrightarrow> steps_in lock_kept (config_upsert E now key v)"
  by (simp add: config_upsert_def lock_kept_def origins_unlocked_def config_get_upsert_other del: upsert.simps)

lemma locks_uncaught_db [locks]: "steps_in lock_kept p \<Longrightarrow> steps_in lock_kept (uncaught_db p)"
  unfolding uncaught_db_def by (intro locks)

lemma locks_helpers [locks]:
  "steps_in lock_kept (validate_origin E st orig)" "steps_in lock_kept (require_browser_permission E st user)"
  "steps_in lock_kept (secret_matches E a b)" "steps_in lock_kept (make_token_response E rq n d t)" "steps_in lock_kept (safe_workflow E row)"
  "steps_in lock_kept (revoke_family fam now)" "steps_in lock_kept (refresh_identity_of E c)" "steps_in lock_kept (check_request_device rq di)"
  "steps_in lock_kept (encrypt_for E rq wdef us i vn)"
  by (auto simp: validate_origin_def require_browser_permission_def secret_matches_def make_token_response_def safe_workflow_def
      revoke_family_def refresh_identity_of_def check_request_device_def encrypt_for_def intro!: locks
      split: sum.splits option.splits auth_error.splits)

lemma locks_try_labels [locks]: "steps_in lock_kept (try_labels as i us l h fam orig v u n)"
  by (induction as) (auto intro!: locks split: sum.splits db_error.splits)

lemma locks_lists [locks]: "steps_in lock_kept (safe_workflows E rs)" "steps_in lock_kept (schedules_of_device d ss)"
  by (induction rs) (auto intro!: locks, induction ss, auto intro!: locks)

lemma locks_create_device [locks]: "steps_in lock_kept (create_paired_device E rq us l orig v n)"
  unfolding create_paired_device_def Let_def by (intro locks)

lemma locks_not_owned [locks]: "steps_in lock_kept p \<Longrightarrow> steps_in lock_kept (not_owned_404 p)"
  unfolding not_owned_404_def by (intro locks) (auto intro!: locks split: sum.splits db_error.splits)

lemma locks_distribution [locks]: "steps_in lock_kept (distribution_token E rq)" "steps_in lock_kept (distribution_file E rq t n)"
proof -
  show "steps_in lock_kept (distribution_token E rq)" for E rq
    unfolding distribution_token_def by (intro locks) (auto intro!: locks simp: lock_kept_def split: option.splits)
  then show "steps_in lock_kept (distribution_file E rq t n)" unfolding distribution_file_def by (intro locks)
qed

lemma locks_refresh [locks]:
  "steps_in lock_kept (refresh_previous E rq d c h)" "steps_in lock_kept (refresh_rotate E rq d h v)"
  by (auto simp: refresh_previous_def refresh_rotate_def intro!: locks split: option.splits)

lemma locks_discard [locks]: "steps_in lock_kept p \<Longrightarrow> steps_in lock_kept (discard p)"
  unfolding discard_def by (intro locks)

lemma locks_pairing [locks]:
  "steps_in lock_kept (claim_pairing_with_session E rq user label orig version)"
  "steps_in lock_kept (start_pairing E rq label orig version)"
  "steps_in lock_kept (approve_pairing E rq user grant_id dcode approved)"
  "steps_in lock_kept (exchange_pairing_token E rq grant_id dcode vrf)"
  "steps_in lock_kept (refresh_device_token E rq credential orig version)"
  by (auto simp: claim_pairing_with_session_def start_pairing_def approve_pairing_def exchange_pairing_token_def refresh_device_token_def
      refresh_with_def refresh_device_def refresh_permission_def Let_def intro!: locks split: prod.splits sum.splits http_error.splits)

lemma locks_device_endpoints [locks]:
  "steps_in lock_kept (list_paired_devices E u)" "steps_in lock_kept (browser_extension_update_manifest E rq token)"
  "steps_in lock_kept (browser_extension_crx E rq token)" "steps_in lock_kept (download_browser_extension E u)"
  "steps_in lock_kept (rename_paired_device E rq u device_id label)" "steps_in lock_kept (revoke_paired_device E rq u device_id)"
  "steps_in lock_kept (get_browser_extension_settings E rq u)"
  by (auto simp: list_paired_devices_def browser_extension_update_manifest_def browser_extension_crx_def download_browser_extension_def
      rename_paired_device_def revoke_paired_device_def get_browser_extension_settings_def Let_def
      intro!: locks split: sum.splits db_error.splits)

lemma locks_plan_endpoints [locks]:
  "steps_in lock_kept (list_workflows E u)" "steps_in lock_kept (create_workflow E rq u name wdef)" "steps_in lock_kept (get_workflow E u workflow_id)"
  "steps_in lock_kept (update_workflow E rq u workflow_id name wdef version)" "steps_in lock_kept (delete_workflow E u workflow_id)"
  "steps_in lock_kept (list_schedules E rq u)" "steps_in lock_kept (create_schedule E rq u f)" "steps_in lock_kept (update_schedule E rq u schedule_id f)"
  "steps_in lock_kept (complete_schedule_run E rq u schedule_id run_at next_run)" "steps_in lock_kept (delete_schedule E u schedule_id)"
  by (auto simp: list_workflows_def create_workflow_def get_workflow_def update_workflow_def delete_workflow_def list_schedules_def
      create_schedule_def update_schedule_def complete_schedule_run_def delete_schedule_def Let_def intro!: locks split: option.splits)

text \<open>A request to change the settings by anybody but an administrator.\<close>

lemma locks_update_refused [locks]:
  assumes "su_role u \<noteq> ''admin''"
  shows "steps_in lock_kept (update_browser_extension_settings E rq u unlocked)"
  unfolding update_browser_extension_settings_def using assms
  by (intro locks_bind(2) [OF locks_steps(2)] locks_bind(2) [OF locks_helpers(2)]) (simp add: hcheck_def hraise_def)

text \<open>All requests of the router, the changes of the settings by administrators apart.\<close>

definition other_request :: "'r router_env \<Rightarrow> ('r, unit) handler \<Rightarrow> bool" where
  "other_request E p \<longleftrightarrow> endpoint E p \<and>
     (\<forall>rq u unlocked. su_role u = ''admin'' \<longrightarrow> p \<noteq> discard (update_browser_extension_settings E rq u unlocked))"

lemma locks_other_request: "other_request E p \<Longrightarrow> steps_in lock_kept p"
  unfolding other_request_def by (elim conjE endpoint.cases) (auto intro!: locks)

lemma other_requests_keep_lock: "pool_run (other_request E) ([], w) (ps, w') \<Longrightarrow> origins_unlocked w' = origins_unlocked w"
  using origin_lock.pool_contract [of "other_request E" "([], w)" "(ps, w')"] locks_other_request by (auto simp: lock_kept_def)

end
