(* ===== verification/Browser_Tools.thy ===== *)
theory Browser_Tools
  imports Browser_Broker Browser_Store Browser_Permissions
begin

section \<open>The chat tools of the browser extension (utils/browser\_extension\_tools.py)\<close>

text \<open>
  The sixteen tools a language model gets for a paired browser: their argument models with all
  constraints, the command each sends through the broker, the audit entry each call leaves and
  the sanitizers that stand between a page and the model. \<open>pydantic\<close>'s conversion of keyword arguments to the fields of a
  model is the parameter \<open>parse\<close>; its schema generation is not modelled, the inlining of references
  in a schema is. A call suspends only while the broker waits for the extension, so it is modelled in two parts:
  \<open>tool_begin\<close> up to that point and \<open>tool_finish\<close> from the outcome on.
\<close>

definition BROWSER_TOOL_NAMES :: "string list" where
  "BROWSER_TOOL_NAMES = [''browser_observe'', ''browser_click'', ''browser_type'', ''browser_select'', ''browser_scroll'', ''browser_navigate'',
     ''browser_go_back'', ''browser_go_forward'', ''browser_reload'', ''browser_wait'', ''browser_screenshot'', ''browser_download'',
     ''browser_console'', ''browser_network'', ''browser_dom'', ''browser_recording'']"

subsection \<open>Arguments\<close>

record semantic_target =
  st_handle :: "string option"
  st_role :: "string option"
  st_name :: "string option"
  st_text :: "string option"
  st_label :: "string option"
  st_placeholder :: "string option"
  st_test_id :: "string option"
  st_index :: int

datatype tool_args =
    ObserveArguments "semantic_target option" int bool
  | ClickArguments semantic_target string string
  | TypeArguments semantic_target string string string
  | SelectArguments semantic_target "string list"
  | ScrollArguments int int "semantic_target option" string
  | NavigateArguments string
  | EmptyArguments
  | WaitArguments string "int option" "semantic_target option" "string option" "string option"
  | ScreenshotArguments string int bool
  | DownloadArguments "semantic_target option" "string option" "string option"
  | ConsoleArguments "string list" int
  | NetworkArguments "string list option" "string list option" int
  | DomArguments "semantic_target option" int int bool
  | RecordingArguments string "string option"

definition valid_option :: "('a \<Rightarrow> bool) \<Rightarrow> 'a option \<Rightarrow> bool" where
  "valid_option P v = (case v of None \<Rightarrow> True | Some a \<Rightarrow> P a)"

definition short_text :: "string \<Rightarrow> bool" where
  "short_text s \<longleftrightarrow> 1 \<le> length s \<and> length s \<le> 256"

definition handle_text :: "string \<Rightarrow> bool" where
  "handle_text s \<longleftrightarrow> 9 \<le> length s \<and> length s \<le> 256 \<and> startswith ''tbx_'' s \<and>
     list_all (\<lambda>c. is_lower_alnum c \<or> c = CHR ''_'') (drop 4 s)"

text \<open>\<open>any((self.handle, self.role, \<dots>))\<close>: some text is neither missing nor empty.\<close>

definition target_texts :: "semantic_target \<Rightarrow> string option list" where
  "target_texts t = [st_role t, st_name t, st_text t, st_label t, st_placeholder t, st_test_id t]"

definition truthy_text :: "string option \<Rightarrow> bool" where
  "truthy_text v = (case v of None \<Rightarrow> False | Some s \<Rightarrow> s \<noteq> [])"

definition valid_semantic_target :: "semantic_target \<Rightarrow> bool" where
  "valid_semantic_target t \<longleftrightarrow> valid_option handle_text (st_handle t) \<and> list_all (valid_option short_text) (target_texts t) \<and>
     0 \<le> st_index t \<and> st_index t \<le> 100 \<and> list_ex truthy_text (st_handle t # target_texts t)"

definition validate_http_url :: "string \<Rightarrow> bool" where
  "validate_http_url value = (case urlsplit value of
      None \<Rightarrow> False
    | Some parsed \<Rightarrow>
        if py_lower (u_scheme parsed) \<notin> {''http'', ''https''} \<or> url_hostname parsed = None then False
        else \<not> has_credentials parsed)"

definition NETWORK_METHODS :: "string list" where
  "NETWORK_METHODS = [''GET'', ''POST'', ''PUT'', ''PATCH'', ''DELETE'', ''HEAD'', ''OPTIONS'']"

definition NETWORK_RESOURCE_TYPES :: "string list" where
  "NETWORK_RESOURCE_TYPES = [''document'', ''stylesheet'', ''image'', ''media'', ''font'', ''script'', ''fetch'', ''xhr'', ''websocket'', ''other'']"

definition bad_filename :: "string \<Rightarrow> bool" where
  "bad_filename f \<longleftrightarrow> CHR ''/'' \<in> set f \<or> CHR 0x5C \<in> set f \<or> f = ''.'' \<or> f = ''..''"

text \<open>The value a wait needs: present or not.\<close>

definition wait_value_given :: "string \<Rightarrow> int option \<Rightarrow> semantic_target option \<Rightarrow> string option \<Rightarrow> string option \<Rightarrow> bool" where
  "wait_value_given condition ms target text url =
     (if condition = ''delay'' then ms \<noteq> None else if condition = ''element'' then target \<noteq> None
      else if condition = ''text'' then text \<noteq> None else if condition = ''url'' then url \<noteq> None else True)"

fun valid_args :: "tool_args \<Rightarrow> bool" where
  "valid_args (ObserveArguments target max_characters shot) \<longleftrightarrow>
     valid_option valid_semantic_target target \<and> 1000 \<le> max_characters \<and> max_characters \<le> 50000"
| "valid_args (ClickArguments target action button) \<longleftrightarrow>
     valid_semantic_target target \<and> List.member [''click'', ''double-click'', ''hover'', ''focus''] action \<and> List.member [''left'', ''middle'', ''right''] button"
| "valid_args (TypeArguments target text operation field_kind) \<longleftrightarrow>
     valid_semantic_target target \<and> length text \<le> 10000 \<and> List.member [''type'', ''replace'', ''clear''] operation \<and>
     List.member [''auto'', ''ordinary'', ''password'', ''payment''] field_kind \<and> (operation = ''clear'' \<or> text \<noteq> [])"
| "valid_args (SelectArguments target values) \<longleftrightarrow>
     valid_semantic_target target \<and> list_all short_text values \<and> 1 \<le> length values \<and> length values \<le> 50"
| "valid_args (ScrollArguments dx dy target behavior) \<longleftrightarrow>
     -100000 \<le> dx \<and> dx \<le> 100000 \<and> -100000 \<le> dy \<and> dy \<le> 100000 \<and> valid_option valid_semantic_target target \<and>
     List.member [''auto'', ''smooth''] behavior \<and> \<not> (dx = 0 \<and> dy = 0)"
| "valid_args (NavigateArguments url) \<longleftrightarrow> 1 \<le> length url \<and> length url \<le> 4096 \<and> validate_http_url url"
| "valid_args EmptyArguments \<longleftrightarrow> True"
| "valid_args (WaitArguments condition ms target text url) \<longleftrightarrow>
     List.member [''delay'', ''element'', ''text'', ''url'', ''load''] condition \<and> valid_option (\<lambda>n. 0 \<le> n \<and> n \<le> 30000) ms \<and>
     valid_option valid_semantic_target target \<and> valid_option short_text text \<and> valid_option (\<lambda>u. length u \<le> 4096) url \<and>
     wait_value_given condition ms target text url \<and> valid_option validate_http_url url"
| "valid_args (ScreenshotArguments fmt quality full_page) \<longleftrightarrow> List.member [''png'', ''jpeg''] fmt \<and> 1 \<le> quality \<and> quality \<le> 100"
| "valid_args (DownloadArguments target url filename) \<longleftrightarrow>
     valid_option valid_semantic_target target \<and> valid_option (\<lambda>u. length u \<le> 4096) url \<and>
     valid_option (\<lambda>f. 1 \<le> length f \<and> length f \<le> 255) filename \<and> \<not> (target = None \<and> url = None) \<and>
     valid_option validate_http_url url \<and> valid_option (\<lambda>f. \<not> bad_filename f) filename"
| "valid_args (ConsoleArguments levels max_entries) \<longleftrightarrow>
     list_all (List.member [''debug'', ''info'', ''warning'', ''error'']) levels \<and> 1 \<le> length levels \<and> length levels \<le> 4 \<and>
     1 \<le> max_entries \<and> max_entries \<le> 200"
| "valid_args (NetworkArguments methods resource_types max_entries) \<longleftrightarrow>
     valid_option (\<lambda>l. list_all (List.member NETWORK_METHODS) l \<and> length l \<le> 7) methods \<and>
     valid_option (\<lambda>l. list_all (List.member NETWORK_RESOURCE_TYPES) l \<and> length l \<le> 11) resource_types \<and> 1 \<le> max_entries \<and> max_entries \<le> 200"
| "valid_args (DomArguments target max_depth max_characters include_hidden) \<longleftrightarrow>
     valid_option valid_semantic_target target \<and> 1 \<le> max_depth \<and> max_depth \<le> 20 \<and> 1000 \<le> max_characters \<and> max_characters \<le> 50000"
| "valid_args (RecordingArguments action name) \<longleftrightarrow>
     List.member [''start'', ''stop'', ''status''] action \<and> valid_option (\<lambda>n. 1 \<le> length n \<and> length n \<le> 120) name \<and>
     \<not> (action = ''start'' \<and> name = None)"

text \<open>\<open>model_dump(by_alias=True, exclude_none=True)\<close>.\<close>

definition dump_option :: "string \<Rightarrow> ('a \<Rightarrow> pyval) \<Rightarrow> 'a option \<Rightarrow> (string, pyval) dict" where
  "dump_option key f v = (case v of None \<Rightarrow> [] | Some a \<Rightarrow> [(key, f a)])"

definition dump_target :: "semantic_target \<Rightarrow> pyval" where
  "dump_target t = PDict (dump_option ''handle'' PStr (st_handle t) @ dump_option ''role'' PStr (st_role t) @ dump_option ''name'' PStr (st_name t) @
     dump_option ''text'' PStr (st_text t) @ dump_option ''label'' PStr (st_label t) @ dump_option ''placeholder'' PStr (st_placeholder t) @
     dump_option ''testId'' PStr (st_test_id t) @ [(''index'', PInt (st_index t))])"

abbreviation dump_strings :: "string list \<Rightarrow> pyval" where
  "dump_strings l \<equiv> PList (map PStr l)"

fun dump_args :: "tool_args \<Rightarrow> (string, pyval) dict" where
  "dump_args (ObserveArguments target n shot) =
     dump_option ''target'' dump_target target @ [(''maxCharacters'', PInt n), (''includeScreenshot'', PBool shot)]"
| "dump_args (ClickArguments target action button) = [(''target'', dump_target target), (''action'', PStr action), (''button'', PStr button)]"
| "dump_args (TypeArguments target text operation field_kind) =
     [(''target'', dump_target target), (''text'', PStr text), (''operation'', PStr operation), (''fieldKind'', PStr field_kind)]"
| "dump_args (SelectArguments target values) = [(''target'', dump_target target), (''values'', dump_strings values)]"
| "dump_args (ScrollArguments dx dy target behavior) =
     [(''deltaX'', PInt dx), (''deltaY'', PInt dy)] @ dump_option ''target'' dump_target target @ [(''behavior'', PStr behavior)]"
| "dump_args (NavigateArguments url) = [(''url'', PStr url)]"
| "dump_args EmptyArguments = []"
| "dump_args (WaitArguments condition ms target text url) =
     [(''condition'', PStr condition)] @ dump_option ''milliseconds'' PInt ms @ dump_option ''target'' dump_target target @
     dump_option ''text'' PStr text @ dump_option ''url'' PStr url"
| "dump_args (ScreenshotArguments fmt quality full_page) = [(''format'', PStr fmt), (''quality'', PInt quality), (''fullPage'', PBool full_page)]"
| "dump_args (DownloadArguments target url filename) =
     dump_option ''target'' dump_target target @ dump_option ''url'' PStr url @ dump_option ''filename'' PStr filename"
| "dump_args (ConsoleArguments levels n) = [(''levels'', dump_strings levels), (''maxEntries'', PInt n)]"
| "dump_args (NetworkArguments methods resource_types n) =
     dump_option ''methods'' dump_strings methods @ dump_option ''resourceTypes'' dump_strings resource_types @ [(''maxEntries'', PInt n)]"
| "dump_args (DomArguments target depth n hidden) =
     dump_option ''target'' dump_target target @ [(''maxDepth'', PInt depth), (''maxCharacters'', PInt n), (''includeHidden'', PBool hidden)]"
| "dump_args (RecordingArguments action name) = [(''action'', PStr action)] @ dump_option ''name'' PStr name"

subsection \<open>Tool definitions\<close>

datatype sanitizer = RedactSensitive | SanitizeConsole | SanitizeNetwork

datatype args_model =
    MObserve | MClick | MType | MSelect | MScroll | MNavigate | MEmpty | MWait | MScreenshot | MDownload | MConsole | MNetwork | MDom | MRecording

record tool_definition =
  td_arguments :: args_model
  td_description :: string
  td_mutating :: bool
  td_sanitizer :: sanitizer
  always_consequential :: bool

definition ordinary_tool :: "args_model \<Rightarrow> string \<Rightarrow> bool \<Rightarrow> tool_definition" where
  "ordinary_tool m description mutating =
     \<lparr>td_arguments = m, td_description = description, td_mutating = mutating, td_sanitizer = RedactSensitive, always_consequential = False\<rparr>"

definition TOOL_DEFINITIONS :: "(string, tool_definition) dict" where
  "TOOL_DEFINITIONS =
    [(''browser_observe'', ordinary_tool MObserve ''Observe the controlled tab as a bounded semantic accessibility snapshot.'' False),
     (''browser_click'', ordinary_tool MClick ''Click, double-click, hover, or focus one semantic target in the controlled tab.'' True),
     (''browser_type'', ordinary_tool MType
        ''Type, replace, or clear text in one semantic form target. Password and payment fields require approval.'' True),
     (''browser_select'', ordinary_tool MSelect ''Choose one or more values in a semantic select control.'' True),
     (''browser_scroll'', ordinary_tool MScroll ''Scroll the controlled page or one semantic scroll container.'' True),
     (''browser_navigate'', ordinary_tool MNavigate ''Navigate the controlled tab to one HTTP or HTTPS URL.'' True),
     (''browser_go_back'', ordinary_tool MEmpty ''Navigate the controlled tab backward once in its history.'' True),
     (''browser_go_forward'', ordinary_tool MEmpty ''Navigate the controlled tab forward once in its history.'' True),
     (''browser_reload'', ordinary_tool MEmpty ''Reload the controlled tab.'' True),
     (''browser_wait'', ordinary_tool MWait ''Wait for a bounded delay, page load, URL, text, or semantic element.'' False),
     (''browser_screenshot'', ordinary_tool MScreenshot ''Capture a bounded screenshot of the controlled tab.'' False),
     (''browser_download'', (ordinary_tool MDownload ''Start one user-visible download from a semantic target or HTTP URL.'' True)
        \<lparr>always_consequential := True\<rparr>),
     (''browser_console'', (ordinary_tool MConsole
        ''Read bounded redacted console severity and string summaries from the controlled tab.'' False)\<lparr>td_sanitizer := SanitizeConsole\<rparr>),
     (''browser_network'', (ordinary_tool MNetwork
        ''Read bounded redacted request method, URL, resource type, status, and timing metadata.'' False)\<lparr>td_sanitizer := SanitizeNetwork\<rparr>),
     (''browser_dom'', ordinary_tool MDom
        ''Inspect a bounded sanitized semantic DOM subtree without scripts, styles, or hidden secrets.'' False),
     (''browser_recording'', ordinary_tool MRecording
        ''Start, stop, or inspect semantic workflow recording in the controlled tab.'' True)]"

fun args_model_of :: "tool_args \<Rightarrow> args_model" where
  "args_model_of (ObserveArguments _ _ _) = MObserve"
| "args_model_of (ClickArguments _ _ _) = MClick"
| "args_model_of (TypeArguments _ _ _ _) = MType"
| "args_model_of (SelectArguments _ _) = MSelect"
| "args_model_of (ScrollArguments _ _ _ _) = MScroll"
| "args_model_of (NavigateArguments _) = MNavigate"
| "args_model_of EmptyArguments = MEmpty"
| "args_model_of (WaitArguments _ _ _ _ _) = MWait"
| "args_model_of (ScreenshotArguments _ _ _) = MScreenshot"
| "args_model_of (DownloadArguments _ _ _) = MDownload"
| "args_model_of (ConsoleArguments _ _) = MConsole"
| "args_model_of (NetworkArguments _ _ _) = MNetwork"
| "args_model_of (DomArguments _ _ _ _) = MDom"
| "args_model_of (RecordingArguments _ _) = MRecording"

subsection \<open>Schemas\<close>

text \<open>
  \<open>_inline_schema_refs\<close>: \<open>resolve\<close> follows references, which may never end when a definition refers
  to itself. It runs on fuel, one unit per call, and is \<open>None\<close> when that runs out.
\<close>

fun opt_map :: "('a \<Rightarrow> 'b option) \<Rightarrow> 'a list \<Rightarrow> 'b list option" where
  "opt_map f [] = Some []"
| "opt_map f (x # xs) = (case f x of None \<Rightarrow> None | Some y \<Rightarrow> map_option ((#) y) (opt_map f xs))"

lemma opt_map_cong [fundef_cong]: "xs = ys \<Longrightarrow> (\<And>x. x \<in> set ys \<Longrightarrow> f x = g x) \<Longrightarrow> opt_map f xs = opt_map g ys"
  by (induction ys arbitrary: xs) (auto split: option.splits)

definition schema_reference :: "(string, pyval) dict \<Rightarrow> string option" where
  "schema_reference d = (case as_str (pget d ''$ref'') of
      None \<Rightarrow> None
    | Some r \<Rightarrow> if startswith ''#/$defs/'' r then Some (snd (snd (py_rpartition (CHR ''/'') r))) else None)"

fun resolve_refs :: "nat \<Rightarrow> (string, pyval) dict \<Rightarrow> pyval \<Rightarrow> pyval option" where
  "resolve_refs 0 defs v = None"
| "resolve_refs (Suc n) defs v = (case v of
      PList l \<Rightarrow> map_option PList (opt_map (resolve_refs n defs) l)
    | PDict d \<Rightarrow> (case schema_reference d of
        Some name \<Rightarrow> resolve_refs n defs (case map_of defs name of None \<Rightarrow> PDict [] | Some s \<Rightarrow> s)
      | None \<Rightarrow> map_option PDict (opt_map (\<lambda>(k, x). map_option (Pair k) (resolve_refs n defs x)) (filter (\<lambda>(k, x). k \<noteq> ''$defs'') d)))
    | _ \<Rightarrow> Some v)"

definition inline_schema_refs :: "nat \<Rightarrow> (string, pyval) dict \<Rightarrow> pyval option" where
  "inline_schema_refs fuel schema =
     resolve_refs fuel (case map_of schema ''$defs'' of Some (PDict d) \<Rightarrow> d | _ \<Rightarrow> []) (PDict schema)"

definition tool_spec :: "nat \<Rightarrow> string \<Rightarrow> tool_definition \<Rightarrow> (string, pyval) dict \<Rightarrow> (string, pyval) dict option" where
  "tool_spec fuel name td schema = (case inline_schema_refs fuel schema of
      Some (PDict parameters) \<Rightarrow> Some [(''name'', PStr name), (''description'', PStr (td_description td)),
        (''parameters'', PDict (AList.delete ''title'' parameters))]
    | _ \<Rightarrow> None)"

subsection \<open>Risk\<close>

definition SENSITIVE_FIELD_WORDS :: "string list" where
  "SENSITIVE_FIELD_WORDS = [''password'', ''passcode'', ''pin'', ''card'', ''credit'', ''debit'', ''payment'', ''cvv'', ''cvc'', ''security code'',
     ''expiry'', ''expiration'']"

definition sensitive_field :: "string \<Rightarrow> bool" where
  "sensitive_field text \<longleftrightarrow> list_ex (\<lambda>w. substr_in w (py_lower text)) SENSITIVE_FIELD_WORDS"

definition type_risk :: "semantic_target \<Rightarrow> string \<Rightarrow> string" where
  "type_risk target field_kind =
     (if field_kind = ''password'' \<or> field_kind = ''payment'' then ''consequential''
      else if sensitive_field (joined '' '' (map the (filter truthy_text (target_texts target)))) then ''consequential'' else ''ordinary'')"

subsection \<open>Sanitizers\<close>

definition ECHO_KEYS :: "string list" where
  "ECHO_KEYS = [''typed_value'', ''typedvalue'', ''input_value'', ''inputvalue'', ''entered_text'', ''enteredtext'', ''text'', ''value'']"

definition is_echo :: "string \<Rightarrow> bool" where
  "is_echo key = List.member ECHO_KEYS
     (strip_by ((=) (CHR ''_'')) (rx_sub (plus (Cls (\<lambda>c. \<not> is_lower_alnum c))) (\<lambda>_. ''_'') (py_lower key)))"

fun redact_type_echoes :: "pyval \<Rightarrow> pyval" where
  "redact_type_echoes (PDict d) = PDict (map (\<lambda>(key, item). (key, if is_echo key then PStr REDACTED else redact_type_echoes item)) d)"
| "redact_type_echoes (PList l) = PList (map redact_type_echoes l)"
| "redact_type_echoes v = redact_sensitive_data v"

text \<open>\<open>urlunsplit((scheme, host, path, '', ''))\<close> for a scheme and a host that are not empty.\<close>

definition url_unsplit :: "string \<Rightarrow> string \<Rightarrow> string \<Rightarrow> string" where
  "url_unsplit scheme host path = scheme @ ''://'' @ host @ (if path \<noteq> [] \<and> hd path \<noteq> CHR ''/'' then ''/'' else []) @ path"

definition redacted_url :: "pyval \<Rightarrow> string" where
  "redacted_url v = (case as_str v of
      None \<Rightarrow> []
    | Some s \<Rightarrow> (case urlsplit s of
        None \<Rightarrow> take 2048 (redact_string s)
      | Some parsed \<Rightarrow> (case url_hostname parsed of
          None \<Rightarrow> take 2048 (redact_string s)
        | Some host \<Rightarrow>
            if py_lower (u_scheme parsed) \<notin> {''http'', ''https''} then take 2048 (redact_string s)
            else (case url_port parsed of
                Inl _ \<Rightarrow> []
              | Inr port \<Rightarrow> take 2048 (redact_string (url_unsplit (py_lower (u_scheme parsed))
                  (case port of None \<Rightarrow> host | Some n \<Rightarrow> host @ '':'' @ nat_digits n) (u_path parsed)))))))"

definition result_entries :: "pyval \<Rightarrow> pyval list" where
  "result_entries v = (case as_dict v of
      None \<Rightarrow> []
    | Some d \<Rightarrow> (case map_of d ''entries'' of None \<Rightarrow> [] | Some e \<Rightarrow> (case as_list e of None \<Rightarrow> [] | Some l \<Rightarrow> take 200 l)))"

text \<open>One entry: \<open>Inr None\<close> skips it; a value that is not hashable makes the test of membership raise.\<close>

definition console_entry :: "pyval \<Rightarrow> (broker_error, pyval option) result" where
  "console_entry v = (case as_dict v of
      None \<Rightarrow> Inr None
    | Some entry \<Rightarrow> rbind (in_display (pget entry ''severity'') [''debug'', ''info'', ''warning'', ''error'']) (\<lambda>ok.
        if \<not> ok then Inr None
        else (case as_str (pget entry ''summary'') of
            None \<Rightarrow> Inr None
          | Some summary \<Rightarrow> Inr (Some (PDict [(''severity'', pget entry ''severity''), (''summary'', PStr (take 2000 (redact_string summary)))])))))"

fun collect_entries :: "(pyval \<Rightarrow> (broker_error, pyval option) result) \<Rightarrow> pyval list \<Rightarrow> (broker_error, pyval list) result" where
  "collect_entries f [] = Inr []"
| "collect_entries f (v # vs) = rbind (f v) (\<lambda>r. rbind (collect_entries f vs) (\<lambda>rs. Inr (case r of None \<Rightarrow> rs | Some x \<Rightarrow> x # rs)))"

definition sanitize_console :: "pyval \<Rightarrow> (broker_error, pyval) result" where
  "sanitize_console v = rbind (collect_entries console_entry (result_entries v)) (\<lambda>l. Inr (PDict [(''entries'', PList l)]))"

definition TIMING_FIELDS :: "string list" where
  "TIMING_FIELDS = [''duration'', ''dns'', ''connect'', ''ssl'', ''ttfb'', ''download'']"

definition is_number :: "pyval \<Rightarrow> bool" where
  "is_number v = (case v of PInt _ \<Rightarrow> True | PFloat _ \<Rightarrow> True | _ \<Rightarrow> False)"

definition network_timing :: "pyval \<Rightarrow> pyval" where
  "network_timing v = (case as_dict v of
      None \<Rightarrow> PNone
    | Some d \<Rightarrow> PDict (filter (\<lambda>(key, item). List.member TIMING_FIELDS key \<and> is_number item) d))"

definition network_entry :: "pyval \<Rightarrow> (broker_error, pyval option) result" where
  "network_entry v = (case as_dict v of
      None \<Rightarrow> Inr None
    | Some entry \<Rightarrow>
        let url = redacted_url (pget entry ''url'') in
        rbind (in_display (pget entry ''method'') NETWORK_METHODS) (\<lambda>method_ok.
        if \<not> method_ok then Inr None
        else rbind (in_display (pget entry ''resourceType'') NETWORK_RESOURCE_TYPES) (\<lambda>type_ok.
        if \<not> type_ok then Inr None
        else (case as_int (pget entry ''status'') of
            None \<Rightarrow> Inr None
          | Some st \<Rightarrow>
              if \<not> (0 \<le> st \<and> st \<le> 599) \<or> url = [] then Inr None
              else Inr (Some (PDict [(''method'', pget entry ''method''), (''url'', PStr url), (''resourceType'', pget entry ''resourceType''),
                     (''status'', PInt st), (''timing'', network_timing (pget entry ''timing''))]))))))"

definition sanitize_network :: "pyval \<Rightarrow> (broker_error, pyval) result" where
  "sanitize_network v = rbind (collect_entries network_entry (result_entries v)) (\<lambda>l. Inr (PDict [(''entries'', PList l)]))"

definition sanitize :: "string \<Rightarrow> tool_definition \<Rightarrow> pyval \<Rightarrow> (broker_error, pyval) result" where
  "sanitize tool_name td v =
     (if tool_name = ''browser_type'' then Inr (redact_type_echoes v)
      else case td_sanitizer td of
        RedactSensitive \<Rightarrow> Inr (redact_sensitive_data v)
      | SanitizeConsole \<Rightarrow> sanitize_console v
      | SanitizeNetwork \<Rightarrow> sanitize_network v)"

subsection \<open>A call\<close>

datatype tool_error = ValidationError | ToolBroker broker_error | AuditError db_error | TaskCancelled

text \<open>What the model of the call keeps while the broker waits.\<close>

record tool_call =
  tc_name :: string
  tc_definition :: tool_definition
  tc_user :: string
  tc_chat :: "string option"
  tc_session :: broker_session
  tc_risk :: string

definition call_risk :: "string \<Rightarrow> tool_definition \<Rightarrow> tool_args \<Rightarrow> string" where
  "call_risk tool_name td args =
     (case args of
        TypeArguments target _ _ field_kind \<Rightarrow>
          if tool_name = ''browser_type'' then type_risk target field_kind
          else if always_consequential td then ''consequential'' else ''ordinary''
      | _ \<Rightarrow> if always_consequential td then ''consequential'' else ''ordinary'')"

definition command_args :: "broker_session \<Rightarrow> string \<Rightarrow> tool_args \<Rightarrow> (string, pyval) dict" where
  "command_args s risk args = AList.update ''_policy''
     (PDict [(''actionMode'', PStr (bs_action_mode s)), (''tabPolicy'', PStr (bs_tab_policy s)), (''risk'', PStr risk)]) (dump_args args)"

definition write_audit ::
  "string \<Rightarrow> int \<Rightarrow> string \<Rightarrow> tool_call \<Rightarrow> string \<Rightarrow> action_audit list \<Rightarrow> (db_error, action_audit) result \<times> action_audit list" where
  "write_audit uuid now command_id c outcome rows =
     audit_insert uuid now (tc_user c) (bs_device_id (tc_session c)) (bs_session_id (tc_session c)) (tc_chat c) command_id (tc_name c)
       (redacted_url (PStr (bs_tab_origin (tc_session c)))) outcome (tc_risk c)
       (tc_name c @ (if outcome = ''success'' then '' completed'' else '' failed'')) 1000 rows"

text \<open>Up to the dispatch: the arguments, the session and the command the broker is given.\<close>

definition tool_begin ::
  "(string \<Rightarrow> (string, pyval) dict \<Rightarrow> tool_args option) \<Rightarrow> string \<Rightarrow> string \<Rightarrow> string option \<Rightarrow> string \<Rightarrow> (string, pyval) dict \<Rightarrow> broker \<Rightarrow>
   (tool_error, tool_call \<times> (string, pyval) dict) result" where
  "tool_begin parse user_id session_id chat_id tool_name kwargs b =
     (case map_of TOOL_DEFINITIONS tool_name of
        None \<Rightarrow> Inl ValidationError
      | Some td \<Rightarrow> (case parse tool_name kwargs of
          None \<Rightarrow> Inl ValidationError
        | Some args \<Rightarrow>
            if args_model_of args \<noteq> td_arguments td \<or> \<not> valid_args args then Inl ValidationError
            else (case map_of (b_sessions b) session_id of
                None \<Rightarrow> Inl (ToolBroker (bce ''session_access_denied''))
              | Some s \<Rightarrow>
                  if \<not> (bs_user_id s = user_id \<and> bs_session_id s = session_id) then Inl (ToolBroker (bce ''session_access_denied''))
                  else Inr (\<lparr>tc_name = tool_name, tc_definition = td, tc_user = user_id, tc_chat = chat_id, tc_session = s,
                             tc_risk = call_risk tool_name td args\<rparr>,
                            command_args s (call_risk tool_name td args) args))))"

text \<open>How \<open>broker.dispatch\<close> ended: \<open>except Exception\<close> does not catch the cancellation of the task.\<close>

datatype dispatched = Returned pyval | Raised broker_error | DispatchCancelled

definition tool_finish ::
  "string \<Rightarrow> int \<Rightarrow> string \<Rightarrow> tool_call \<Rightarrow> dispatched \<Rightarrow> action_audit list \<Rightarrow> (tool_error, pyval) result \<times> action_audit list" where
  "tool_finish uuid now command_id c d rows = (case d of
      DispatchCancelled \<Rightarrow> (Inl TaskCancelled, rows)
    | Raised e \<Rightarrow> (case write_audit uuid now command_id c ''failure'' rows of
        (Inl a, rows') \<Rightarrow> (Inl (AuditError a), rows')
      | (Inr _, rows') \<Rightarrow> (Inl (ToolBroker e), rows'))
    | Returned v \<Rightarrow> (case write_audit uuid now command_id c ''success'' rows of
        (Inl a, rows') \<Rightarrow> (Inl (AuditError a), rows')
      | (Inr _, rows') \<Rightarrow> (case sanitize (tc_name c) (tc_definition c) v of
          Inl e \<Rightarrow> (Inl (ToolBroker e), rows')
        | Inr r \<Rightarrow> (Inr r, rows'))))"

text \<open>The dispatch itself, on the broker the session was read from: nothing runs in between.\<close>

definition tool_dispatch ::
  "string \<Rightarrow> string \<Rightarrow> rat \<Rightarrow> tool_call \<Rightarrow> (string, pyval) dict \<Rightarrow> broker \<Rightarrow> (broker_error, pyval \<times> broker) result" where
  "tool_dispatch cid nonce now c args b =
     dispatch_begin cid nonce now (tc_user c) (bs_session_id (tc_session c)) (tc_name c) args (td_mutating (tc_definition c)) None b"

subsection \<open>The tools of a chat\<close>

datatype resolve_error = NoAttribute | PermissionRaised permission_error

definition resolve_browser_extension_chat_tools ::
  "(permission_error, bool) result \<Rightarrow> bool \<Rightarrow> pyval \<Rightarrow> pyval \<Rightarrow> pyval \<Rightarrow> pyval \<Rightarrow> broker \<Rightarrow> (resolve_error, string list) result" where
  "resolve_browser_extension_chat_tools permission use_builtin_tools payload_tools features metadata user_id b =
     (let session_id = (case as_dict metadata of None \<Rightarrow> PNone | Some m \<Rightarrow> pget m ''browser_session'') in
      if \<not> (use_builtin_tools \<and> payload_tools = PNone \<and> (case as_dict features of None \<Rightarrow> False | Some f \<Rightarrow> pget f ''browser_control'' = PBool True)
            \<and> nonempty_str session_id) then Inr []
      else (case as_dict (py_or (pget (the (as_dict metadata)) ''params'') (PDict [])) of
          None \<Rightarrow> Inl NoAttribute
        | Some params \<Rightarrow>
            if py_eq_str (pget params ''function_calling'') ''legacy'' then Inr []
            else (case as_str user_id of
                None \<Rightarrow> Inr []
              | Some u \<Rightarrow> (case permission of
                  Inl e \<Rightarrow> Inl (PermissionRaised e)
                | Inr allowed \<Rightarrow>
                    if \<not> allowed then Inr []
                    else if \<not> session_is_live b u (str_of session_id) then Inr []
                    else Inr BROWSER_TOOL_NAMES))))"

subsection \<open>Inlining references ends\<close>

text \<open>The references \<open>resolve\<close> meets in a value before it follows any.\<close>

fun refs_of :: "pyval \<Rightarrow> string list" where
  "refs_of (PList l) = concat (map refs_of l)"
| "refs_of (PDict d) = (case schema_reference d of
      Some name \<Rightarrow> [name]
    | None \<Rightarrow> concat (map (\<lambda>(k, x). if k = ''$defs'' then [] else refs_of x) d))"
| "refs_of _ = []"

lemma opt_map_None: "opt_map f xs = None \<longleftrightarrow> (\<exists>x \<in> set xs. f x = None)"
  by (induction xs) (auto split: option.splits)

lemma opt_map_Some: "opt_map f xs = Some ys \<Longrightarrow> list_all2 (\<lambda>x y. f x = Some y) xs ys"
  by (induction xs arbitrary: ys) (auto split: option.splits)

text \<open>From some fuel on.\<close>

definition resolves :: "(string, pyval) dict \<Rightarrow> pyval \<Rightarrow> bool" where
  "resolves defs v \<longleftrightarrow> (\<exists>n. \<forall>m \<ge> n. resolve_refs m defs v \<noteq> None)"

lemma resolves_all:
  assumes "\<And>v. v \<in> set l \<Longrightarrow> resolves defs v"
  shows "\<exists>n. \<forall>m \<ge> n. \<forall>v \<in> set l. resolve_refs m defs v \<noteq> None"
  using assms
proof (induction l)
  case (Cons v l)
  then obtain a b where "\<forall>m \<ge> a. resolve_refs m defs v \<noteq> None" "\<forall>m \<ge> b. \<forall>v \<in> set l. resolve_refs m defs v \<noteq> None"
    unfolding resolves_def by (metis list.set_intros)
  then show ?case by (intro exI [of _ "max a b"]) auto
qed simp

lemma resolves_Suc: "(\<exists>n. \<forall>m \<ge> n. resolve_refs (Suc m) defs v \<noteq> None) \<Longrightarrow> resolves defs v"
  unfolding resolves_def by (metis Suc_le_D Suc_le_mono)

lemma resolves_list: "(\<And>v. v \<in> set l \<Longrightarrow> resolves defs v) \<Longrightarrow> resolves defs (PList l)"
  by (rule resolves_Suc) (use resolves_all [of l defs] in \<open>auto simp: opt_map_None\<close>)

lemma resolves_dict:
  assumes "schema_reference d = None" "\<And>k x. (k, x) \<in> set d \<Longrightarrow> k \<noteq> ''$defs'' \<Longrightarrow> resolves defs x"
  shows "resolves defs (PDict d)"
proof (rule resolves_Suc)
  have "\<exists>n. \<forall>m \<ge> n. \<forall>v \<in> set (map snd (filter (\<lambda>(k, x). k \<noteq> ''$defs'') d)). resolve_refs m defs v \<noteq> None"
    by (rule resolves_all) (use assms(2) in auto)
  then show "\<exists>n. \<forall>m \<ge> n. resolve_refs (Suc m) defs (PDict d) \<noteq> None"
    using assms(1) by (simp add: opt_map_None) blast
qed

lemma resolves_reference:
  assumes "schema_reference d = Some name" "resolves defs (case map_of defs name of None \<Rightarrow> PDict [] | Some s \<Rightarrow> s)"
  shows "resolves defs (PDict d)"
  by (rule resolves_Suc) (use assms in \<open>auto simp: resolves_def\<close>)

lemma schema_reference_Nil [simp]: "schema_reference [] = None"
  by (simp add: schema_reference_def)

lemma resolves_acyclic:
  fixes rank :: "string \<Rightarrow> nat"
  assumes "\<forall>name s. map_of defs name = Some s \<longrightarrow> (\<forall>r \<in> set (refs_of s). rank r < rank name)"
  shows "(\<forall>r \<in> set (refs_of v). rank r < k) \<Longrightarrow> resolves defs v"
proof (induction k arbitrary: v rule: less_induct)
  case (less k)
  have "(\<forall>r \<in> set (refs_of v). rank r < k) \<Longrightarrow> resolves defs v"
  proof (induction v)
    case (PList l)
    then show ?case by (intro resolves_list) auto
  next
    case (PDict d)
    show ?case
    proof (cases "schema_reference d")
      case None
      show ?thesis
      proof (rule resolves_dict [OF None])
        fix key x
        assume x: "(key, x) \<in> set d" "key \<noteq> ''$defs''"
        then have "\<forall>r \<in> set (refs_of x). rank r < k" using PDict.prems None by fastforce
        then show "resolves defs x" using PDict.IH [OF x(1)] by (auto intro: snds.intros)
      qed
    next
      case (Some name)
      then have "rank name < k" using PDict.prems by simp
      moreover have "\<forall>r \<in> set (refs_of (case map_of defs name of None \<Rightarrow> PDict [] | Some s \<Rightarrow> s)). rank r < rank name"
        using assms by (auto split: option.splits)
      ultimately show ?thesis using less.IH resolves_reference [OF Some] by blast
    qed
  qed (rule resolves_Suc, simp)+
  then show ?case using less.prems by blast
qed

lemma refs_of_pairs:
  "schema_reference d = None \<Longrightarrow> refs_of (PDict d) = [] \<longleftrightarrow> (\<forall>(k, x) \<in> set d. k = ''$defs'' \<or> refs_of x = [])"
  by (auto simp: concat_eq_Nil_conv split: if_splits)

lemma resolve_kind:
  assumes "resolve_refs n defs v = Some w" "\<forall>name s. map_of defs name = Some s \<longrightarrow> is_mapping s"
  shows "(is_mapping v \<longrightarrow> is_mapping w) \<and> (\<not> is_mapping v \<longrightarrow> as_str w = as_str v)"
  using assms(1)
proof (induction n arbitrary: v)
  case (Suc n)
  show ?case
  proof (cases v)
    case (PDict d)
    show ?thesis
    proof (cases "schema_reference d")
      case (Some name)
      then have "resolve_refs n defs (case map_of defs name of None \<Rightarrow> PDict [] | Some s \<Rightarrow> s) = Some w" using Suc.prems PDict by simp
      from Suc.IH [OF this] show ?thesis using PDict assms(2) by (auto split: option.splits)
    qed (use Suc.prems PDict in auto)
  qed (use Suc.prems in \<open>auto simp: as_str_def\<close>)
qed simp

lemma schema_reference_resolved:
  assumes "list_all2 (\<lambda>(k, x) (k', y). k' = k \<and> resolve_refs n defs x = Some y) d e"
    and "\<forall>name s. map_of defs name = Some s \<longrightarrow> is_mapping s" and "schema_reference d = None"
  shows "schema_reference e = None"
proof -
  have "as_str (pget e k) = as_str (pget d k)" for k
    using assms(1)
  proof (induction rule: list_all2_induct)
    case (Cons p d q e)
    obtain k1 x y where p: "p = (k1, x)" "q = (k1, y)" "resolve_refs n defs x = Some y" using Cons(1) by (cases p; cases q) auto
    have "as_str y = as_str x" using resolve_kind [OF p(3) assms(2)] by (cases "is_mapping x") (auto elim!: is_mappingE)
    then show ?case using Cons(3) p by simp
  qed simp
  then show ?thesis using assms(3) by (simp add: schema_reference_def)
qed

lemma schema_reference_filter: "schema_reference (filter (\<lambda>(k, x). k \<noteq> ''$defs'') d) = schema_reference d"
proof -
  have "pget (filter (\<lambda>(k, x). k \<noteq> ''$defs'') d) ''$ref'' = pget d ''$ref''" by (induction d) auto
  then show ?thesis by (simp add: schema_reference_def)
qed

lemma resolved_no_refs:
  assumes "resolve_refs n defs v = Some w" "\<forall>name s. map_of defs name = Some s \<longrightarrow> is_mapping s"
  shows "refs_of w = []"
  using assms(1)
proof (induction n arbitrary: v w)
  case (Suc n)
  show ?case
  proof (cases v)
    case (PList l)
    then obtain l' where w: "w = PList l'" "opt_map (resolve_refs n defs) l = Some l'" using Suc.prems by auto
    have "\<forall>y \<in> set l'. refs_of y = []"
      using opt_map_Some [OF w(2)] Suc.IH by (induction rule: list_all2_induct) auto
    then show ?thesis using w by simp
  next
    case (PDict d)
    let ?d = "filter (\<lambda>(k, x). k \<noteq> ''$defs'') d"
    show ?thesis
    proof (cases "schema_reference d")
      case None
      then obtain e where w: "w = PDict e" "opt_map (\<lambda>(k, x). map_option (Pair k) (resolve_refs n defs x)) ?d = Some e"
        using Suc.prems PDict by auto
      have l: "list_all2 (\<lambda>(k, x) (k', y). k' = k \<and> resolve_refs n defs x = Some y) ?d e"
        using opt_map_Some [OF w(2)] by (rule list_all2_mono) auto
      have e: "schema_reference e = None"
        using schema_reference_resolved [OF l assms(2)] None by (simp add: schema_reference_filter)
      have "\<forall>(k, y) \<in> set e. refs_of y = []"
        using l Suc.IH by (induction rule: list_all2_induct) auto
      then show ?thesis using e w by (auto simp: refs_of_pairs)
    qed (use Suc PDict in auto)
  qed (use Suc.prems in auto)
qed simp

text \<open>C24: The schema of a tool is always found: when no definition refers to itself, directly or through
  others, inlining the references ends, with any amount of fuel from some point on, and leaves a schema without
  references.\<close>

theorem inline_schema_refs_ends:
  fixes rank :: "string \<Rightarrow> nat"
  assumes "map_of schema ''$defs'' = Some (PDict defs)" and "\<forall>name s. map_of defs name = Some s \<longrightarrow> is_mapping s"
    and "\<forall>name s. map_of defs name = Some s \<longrightarrow> (\<forall>r \<in> set (refs_of s). rank r < rank name)"
  shows "\<exists>n. \<forall>fuel \<ge> n. \<exists>w. inline_schema_refs fuel schema = Some w \<and> refs_of w = []"
proof -
  have "\<forall>r \<in> set (refs_of (PDict schema)). rank r < Suc (Max (insert 0 (rank ` set (refs_of (PDict schema)))))"
    by (auto simp: less_Suc_eq_le simp del: refs_of.simps)
  from resolves_acyclic [OF assms(3) this] obtain n where "\<forall>m \<ge> n. resolve_refs m defs (PDict schema) \<noteq> None"
    unfolding resolves_def by blast
  then show ?thesis using resolved_no_refs [OF _ assms(2)] assms(1) by (fastforce simp: inline_schema_refs_def)
qed

theorem inline_schema_refs_ends_witness:
  "\<exists>n. \<forall>fuel \<ge> n. \<exists>w. inline_schema_refs fuel
     [(''target'', PDict [(''$ref'', PStr ''#/$defs/T'')]), (''$defs'', PDict [(''T'', PDict [(''type'', PStr ''object'')])])] = Some w \<and> refs_of w = []"
  by (rule inline_schema_refs_ends [where defs = "[(''T'', PDict [(''type'', PStr ''object'')])]" and rank = "\<lambda>_. 0"])
    (auto simp: schema_reference_def split: if_splits)

subsection \<open>Who gets the tools\<close>

text \<open>The tools are offered only where they may be used: to a chat that asked for browser control in native
  function calling, for a user with the permission, and with a session of this same user that is live at that moment.\<close>

theorem tools_need_permission_and_session:
  assumes "resolve_browser_extension_chat_tools permission builtin payload features metadata user_id b = Inr tools" "tools \<noteq> []"
  shows "\<exists>u m sid. user_id = PStr u \<and> metadata = PDict m \<and> pget m ''browser_session'' = PStr sid \<and> permission = Inr True \<and>
    session_is_live b u sid \<and> builtin \<and> payload = PNone \<and> tools = BROWSER_TOOL_NAMES"
  using assms
  by (auto simp: resolve_browser_extension_chat_tools_def Let_def nonempty_str_iff split: if_splits option.splits sum.splits)

theorem tools_need_permission_and_session_witness:
  "\<exists>u sid. resolve_browser_extension_chat_tools (Inr True) True PNone (PDict [(''browser_control'', PBool True)])
      (PDict [(''browser_session'', PStr ''s'')]) (PStr ''u'') live_open = Inr BROWSER_TOOL_NAMES \<and> PStr ''u'' = PStr u \<and> session_is_live live_open u sid"
proof -
  have ok: "resolve_browser_extension_chat_tools (Inr True) True PNone (PDict [(''browser_control'', PBool True)])
      (PDict [(''browser_session'', PStr ''s'')]) (PStr ''u'') live_open = Inr BROWSER_TOOL_NAMES"
    by (simp add: resolve_browser_extension_chat_tools_def nonempty_str_def py_or_def py_truthy_def session_is_live_def live_defs broker_init_def)
  have "BROWSER_TOOL_NAMES \<noteq> []" by (simp add: BROWSER_TOOL_NAMES_def)
  from tools_need_permission_and_session [OF ok this] ok show ?thesis by auto
qed

subsection \<open>Every call is recorded\<close>

lemma audit_insert_row:
  assumes "audit_insert uuid now user device session chat command action origin outcome risk summary retention rows = (Inr row, rows')"
  shows "row \<in> set rows' \<and> a_id row = uuid \<and> a_user_id row = user \<and> a_device_id row = device \<and> a_session_id row = session \<and>
    a_chat_id row = chat \<and> a_outcome row = outcome \<and> a_risk row = risk"
  using assms by (auto simp: audit_insert_def Let_def insert_one_def split: sum.splits prod.splits if_splits)

text \<open>Whatever a tool call did in the browser is on record before its answer reaches the model: when a call ends with a
  result or with an error of the broker, the audit log has its entry, with the user, the device, the
  session, the chat and the risk of the call, and it says success exactly when the browser answered. The
  exceptions are a call whose task is cancelled and an audit log that refuses the entry, where the model gets no answer.\<close>

theorem tool_call_audited:
  assumes "tool_finish uuid now command_id c d rows = (r, rows')" "r \<noteq> Inl TaskCancelled" "\<forall>e. r \<noteq> Inl (AuditError e)"
  shows "\<exists>a \<in> set rows'. a_id a = uuid \<and> a_user_id a = tc_user c \<and> a_device_id a = bs_device_id (tc_session c) \<and>
    a_session_id a = bs_session_id (tc_session c) \<and> a_chat_id a = tc_chat c \<and> a_risk a = tc_risk c \<and>
    a_outcome a = (case d of Returned v \<Rightarrow> ''success'' | _ \<Rightarrow> ''failure'')"
proof -
  have row: "\<exists>a \<in> set rows'. a_id a = uuid \<and> a_user_id a = tc_user c \<and> a_device_id a = bs_device_id (tc_session c) \<and>
      a_session_id a = bs_session_id (tc_session c) \<and> a_chat_id a = tc_chat c \<and> a_risk a = tc_risk c \<and> a_outcome a = out"
    if "write_audit uuid now command_id c out rows = (Inr a, rows')" for out a
    using audit_insert_row [OF that [unfolded write_audit_def]] by blast
  show ?thesis
  proof (cases d)
    case (Returned v)
    then obtain a where "write_audit uuid now command_id c ''success'' rows = (Inr a, rows')"
      using assms by (auto simp: tool_finish_def split: prod.splits sum.splits)
    then show ?thesis using row Returned by simp
  next
    case (Raised e)
    then obtain a where "write_audit uuid now command_id c ''failure'' rows = (Inr a, rows')"
      using assms by (auto simp: tool_finish_def split: prod.splits sum.splits)
    then show ?thesis using row Raised by simp
  qed (use assms in \<open>auto simp: tool_finish_def\<close>)
qed

text \<open>A call of \<open>browser_type\<close> that the browser has answered.\<close>

definition live_type_call :: tool_call where
  "live_type_call = \<lparr>tc_name = ''browser_type'', tc_definition = ordinary_tool MType [] True, tc_user = ''u'', tc_chat = None,
     tc_session = live_session, tc_risk = ''ordinary''\<rparr>"

lemma live_type_finish:
  "\<exists>rows'. tool_finish ''a'' 9 ''c'' live_type_call (Returned (PDict [(''value'', PStr ''x'')])) [] =
     (Inr (redact_type_echoes (PDict [(''value'', PStr ''x'')])), rows')"
  by (simp add: tool_finish_def live_type_call_def write_audit_def audit_insert_def insert_one_def audits_unique_def stale_audit_ids_def
      order_desc_def sanitize_def Let_def)

theorem tool_call_audited_witness:
  "\<exists>r rows'. tool_finish ''a'' 9 ''c'' live_type_call (Returned (PDict [(''value'', PStr ''x'')])) [] = (Inr r, rows') \<and>
     (\<exists>a \<in> set rows'. a_id a = ''a'' \<and> a_user_id a = ''u'' \<and> a_outcome a = ''success'')"
proof -
  obtain rows' where r: "tool_finish ''a'' 9 ''c'' live_type_call (Returned (PDict [(''value'', PStr ''x'')])) [] =
     (Inr (redact_type_echoes (PDict [(''value'', PStr ''x'')])), rows')" using live_type_finish by blast
  from tool_call_audited [OF r] have "\<exists>a \<in> set rows'. a_id a = ''a'' \<and> a_user_id a = ''u'' \<and> a_outcome a = ''success''"
    by (auto simp: live_type_call_def simp del: redact_type_echoes.simps)
  with r show ?thesis by blast
qed

subsection \<open>What the model gets to see\<close>

fun echoes_hidden :: "pyval \<Rightarrow> bool" where
  "echoes_hidden (PDict d) = list_all (\<lambda>(key, item). if is_echo key then item = PStr REDACTED else echoes_hidden item) d"
| "echoes_hidden (PList l) = list_all echoes_hidden l"
| "echoes_hidden v = True"

lemma redact_type_echoes_hidden: "echoes_hidden (redact_type_echoes v)"
  by (induction v rule: redact_type_echoes.induct) (auto simp: list_all_iff)

text \<open>Typed text does not come back: in the result of \<open>browser_type\<close> every value under a key that echoes the input, at any
  depth, is the marker.\<close>

theorem typed_text_hidden:
  assumes "tool_finish uuid now command_id c d rows = (Inr r, rows')" "tc_name c = ''browser_type''"
  shows "echoes_hidden r"
  using assms redact_type_echoes_hidden by (auto simp: tool_finish_def sanitize_def split: dispatched.splits prod.splits sum.splits)

theorem typed_text_hidden_witness:
  "\<exists>r rows'. tool_finish ''a'' 9 ''c'' live_type_call (Returned (PDict [(''value'', PStr ''x'')])) [] = (Inr r, rows') \<and> echoes_hidden r"
proof -
  obtain rows' where r: "tool_finish ''a'' 9 ''c'' live_type_call (Returned (PDict [(''value'', PStr ''x'')])) [] =
     (Inr (redact_type_echoes (PDict [(''value'', PStr ''x'')])), rows')" using live_type_finish by blast
  have "tc_name live_type_call = ''browser_type''" by (simp add: live_type_call_def)
  from typed_text_hidden [OF r this] r show ?thesis by blast
qed

text \<open>But the result of \<open>browser_type\<close> is not redacted by key: a value under a key that the other tools blank out, such
  as a password, is shown unless its text itself looks like a secret.\<close>

theorem type_result_shows_sensitive_keys:
  assumes "is_sensitive key" "\<not> is_echo key"
  shows "redact_type_echoes (PDict [(key, PStr s)]) = PDict [(key, PStr (redact_string s))] \<and>
    redact_sensitive_data (PDict [(key, PStr s)]) = PDict [(key, PStr REDACTED)]"
  using assms by simp

lemma password_key: "is_sensitive ''password'' \<and> \<not> is_echo ''password''"
  by code_simp

theorem type_result_shows_sensitive_keys_witness:
  "redact_type_echoes (PDict [(''password'', PStr ''hunter2'')]) = PDict [(''password'', PStr (redact_string ''hunter2''))]"
  using type_result_shows_sensitive_keys [of "''password''" "''hunter2''"] password_key by blast

lemma collect_entries_Inr:
  assumes "collect_entries f vs = Inr l"
  shows "length l \<le> length vs \<and> (\<forall>e \<in> set l. \<exists>v \<in> set vs. f v = Inr (Some e))"
  using assms
proof (induction vs arbitrary: l)
  case (Cons v vs)
  then obtain r rs where "f v = Inr r" "collect_entries f vs = Inr rs" "l = (case r of None \<Rightarrow> rs | Some x \<Rightarrow> x # rs)"
    by (auto simp: rbind_Inr_iff)
  then show ?case using Cons.IH by (auto split: option.splits)
qed simp

lemma result_entries_bound: "length (result_entries v) \<le> 200"
  by (auto simp: result_entries_def split: option.splits)

lemma redacted_url_bound: "length (redacted_url v) \<le> 2048"
  by (auto simp: redacted_url_def split: option.splits sum.splits)

lemma in_display_Inr: "in_display v names = Inr True \<longleftrightarrow> (\<exists>s. v = PStr s \<and> s \<in> set names)"
  by (cases v) (auto simp: in_display_def)

text \<open>The network log the model sees is bounded and holds metadata only: at most 200 entries, each with just a known method, a
  URL of at most 2048 characters, a known resource type, an HTTP status and numeric timings of known names. No headers,
  bodies or other fields of the browser's report pass.\<close>

theorem network_log_is_metadata:
  assumes "sanitize_network v = Inr r"
  shows "\<exists>l. r = PDict [(''entries'', PList l)] \<and> length l \<le> 200 \<and> (\<forall>e \<in> set l. \<exists>m u t st timing.
    e = PDict [(''method'', PStr m), (''url'', PStr u), (''resourceType'', PStr t), (''status'', PInt st), (''timing'', timing)] \<and>
    m \<in> set NETWORK_METHODS \<and> t \<in> set NETWORK_RESOURCE_TYPES \<and> 0 \<le> st \<and> st \<le> 599 \<and> u \<noteq> [] \<and> length u \<le> 2048 \<and>
    (timing = PNone \<or> (\<exists>d. timing = PDict d \<and> (\<forall>(k, x) \<in> set d. k \<in> set TIMING_FIELDS \<and> is_number x))))"
proof -
  obtain l where l: "collect_entries network_entry (result_entries v) = Inr l" "r = PDict [(''entries'', PList l)]"
    using assms by (auto simp: sanitize_network_def rbind_Inr_iff)
  have "\<exists>m u t st timing. e = PDict [(''method'', PStr m), (''url'', PStr u), (''resourceType'', PStr t), (''status'', PInt st), (''timing'', timing)] \<and>
      m \<in> set NETWORK_METHODS \<and> t \<in> set NETWORK_RESOURCE_TYPES \<and> 0 \<le> st \<and> st \<le> 599 \<and> u \<noteq> [] \<and> length u \<le> 2048 \<and>
      (timing = PNone \<or> (\<exists>d. timing = PDict d \<and> (\<forall>(k, x) \<in> set d. k \<in> set TIMING_FIELDS \<and> is_number x)))"
    if "network_entry x = Inr (Some e)" for x e
  proof -
    from that obtain d st where "as_dict x = Some d" "in_display (pget d ''method'') NETWORK_METHODS = Inr True"
      "in_display (pget d ''resourceType'') NETWORK_RESOURCE_TYPES = Inr True" "0 \<le> st" "st \<le> 599" "redacted_url (pget d ''url'') \<noteq> []"
      "e = PDict [(''method'', pget d ''method''), (''url'', PStr (redacted_url (pget d ''url''))), (''resourceType'', pget d ''resourceType''),
         (''status'', PInt st), (''timing'', network_timing (pget d ''timing''))]"
      by (auto simp: network_entry_def Let_def rbind_Inr_iff split: option.splits if_splits)
    then show ?thesis using redacted_url_bound
      by (auto simp: in_display_Inr network_timing_def split: option.splits)
  qed
  with collect_entries_Inr [OF l(1)] l(2) result_entries_bound [of v] show ?thesis by (intro exI [of _ l]) fastforce
qed

theorem network_log_is_metadata_witness:
  "\<exists>l. sanitize_network (PDict [(''entries'', PList [PInt 1])]) = Inr (PDict [(''entries'', PList l)]) \<and> length l \<le> 200"
proof -
  have r: "sanitize_network (PDict [(''entries'', PList [PInt 1])]) = Inr (PDict [(''entries'', PList [])])"
    by (simp add: sanitize_network_def result_entries_def network_entry_def)
  from network_log_is_metadata [OF r] r show ?thesis by auto
qed

lemma py_partition_before: "py_partition c s = (a, f, b) \<Longrightarrow> c \<notin> set a"
  by (induction s arbitrary: a) (auto split: if_splits prod.splits)

lemma py_partition_sub: "py_partition c s = (a, f, b) \<Longrightarrow> set a \<subseteq> set s \<and> set b \<subseteq> set s"
  by (induction s arbitrary: a) (fastforce split: if_splits prod.splits)+

lemma py_partition_clean: "py_partition c s = (a, f, b) \<Longrightarrow> c \<notin> set a \<and> set a \<subseteq> set s \<and> set b \<subseteq> set s"
  using py_partition_before py_partition_sub by blast

lemma py_rpartition_after: "py_rpartition c s = (a, f, b) \<Longrightarrow> c \<notin> set b \<and> set b \<subseteq> set s"
proof -
  assume r: "py_rpartition c s = (a, f, b)"
  obtain x g y where p: "py_partition c (rev s) = (x, g, y)" by (cases "py_partition c (rev s)") auto
  from py_partition_before [OF p] py_partition_sub [OF p] py_partition_flag [OF p] r p show ?thesis
    by (cases g) (auto simp: py_rpartition_def)
qed

lemma lower_char_separator: "lower_char c = d \<Longrightarrow> code d < 65 \<Longrightarrow> c = d"
  by (auto simp: lower_char_def split: if_splits)

lemma set_py_lower: "code d < 65 \<Longrightarrow> d \<in> set (py_lower s) \<Longrightarrow> d \<in> set s"
  by (auto simp: py_lower_def) (metis lower_char_separator)

lemma hostinfo_clean: "CHR ''@'' \<notin> set (fst (hostinfo u)) \<and> set (fst (hostinfo u)) \<subseteq> set (netloc u)"
proof -
  obtain a f info where i: "py_rpartition (CHR ''@'') (netloc u) = (a, f, info)" by (cases "py_rpartition (CHR ''@'') (netloc u)") auto
  have "set (fst (hostinfo u)) \<subseteq> set info"
    by (auto simp: hostinfo_def i split: prod.splits if_splits dest!: py_partition_sub)
  then show ?thesis using py_rpartition_after [OF i] by blast
qed

lemma url_hostname_clean:
  assumes "url_hostname u = Some host"
  shows "CHR ''@'' \<notin> set host \<and> (\<forall>d \<in> set host. code d < 65 \<longrightarrow> d = CHR ''%'' \<or> d \<in> set (netloc u))"
proof -
  obtain a f b where p: "py_partition (CHR ''%'') (fst (hostinfo u)) = (a, f, b)" by (cases "py_partition (CHR ''%'') (fst (hostinfo u))") auto
  then have "host = py_lower a @ (if f then ''%'' else []) @ b" using assms by (auto simp: url_hostname_def Let_def split: if_splits)
  then have host: "d \<in> set (py_lower a) \<or> d = CHR ''%'' \<or> d \<in> set b" if "d \<in> set host" for d using that by (auto split: if_splits)
  have in_loc: "d = CHR ''%'' \<or> d \<in> set (fst (hostinfo u))" if "d \<in> set host" "code d < 65" for d
    using host [OF that(1)] set_py_lower [OF that(2), of a] py_partition_sub [OF p] by blast
  show ?thesis using in_loc in_loc [of "CHR ''@''"] hostinfo_clean [of u] by auto
qed

lemma urlsplit_clean:
  assumes "urlsplit s = Some p"
  shows "{CHR ''?'', CHR ''#''} \<inter> set (netloc p) = {}" "{CHR ''?'', CHR ''#''} \<inter> set (u_path p) = {}"
proof -
  have "\<forall>c \<in> set (netloc p). \<not> ends_netloc c"
    using assms by (auto simp: urlsplit_def Let_def split: prod.splits if_splits dest!: set_takeWhileD)
  then show "{CHR ''?'', CHR ''#''} \<inter> set (netloc p) = {}" by (auto simp: ends_netloc_def)
  show "{CHR ''?'', CHR ''#''} \<inter> set (u_path p) = {}"
    using assms by (auto simp: urlsplit_def Let_def split: prod.splits if_splits dest!: py_partition_clean)
qed

text \<open>Secrets in the address of a page stay behind: of an HTTP or HTTPS URL only the scheme, the host, the port and the
  path are shown, without user info, query or fragment.\<close>

theorem redacted_url_drops_query:
  assumes "urlsplit s = Some p" "py_lower (u_scheme p) \<in> {''http'', ''https''}" "url_hostname p \<noteq> None"
  shows "redacted_url (PStr s) = [] \<or> (\<exists>host. redacted_url (PStr s) = take 2048 (redact_string (url_unsplit (py_lower (u_scheme p)) host (u_path p))) \<and>
    {CHR ''?'', CHR ''#'', CHR ''@''} \<inter> set host = {} \<and> {CHR ''?'', CHR ''#''} \<inter> set (u_path p) = {})"
proof -
  obtain h where h: "url_hostname p = Some h" using assms(3) by blast
  have clean: "{CHR ''?'', CHR ''#'', CHR ''@''} \<inter> set h = {}"
    using url_hostname_clean [OF h] urlsplit_clean(1) [OF assms(1)] by auto
  have digits: "{CHR ''?'', CHR ''#'', CHR ''@''} \<inter> set (nat_digits n) = {}" for n
    using nat_digits_digit [of _ n] by (fastforce simp: is_digit_def)
  show ?thesis
  proof (cases "url_port p")
    case (Inr port)
    let ?host = "case port of None \<Rightarrow> h | Some n \<Rightarrow> h @ '':'' @ nat_digits n"
    have "redacted_url (PStr s) = take 2048 (redact_string (url_unsplit (py_lower (u_scheme p)) ?host (u_path p)))"
      using assms(1,2) h Inr by (simp add: redacted_url_def)
    moreover have "{CHR ''?'', CHR ''#'', CHR ''@''} \<inter> set ?host = {}" using clean digits by (auto split: option.splits)
    ultimately show ?thesis using urlsplit_clean(2) [OF assms(1)] by blast
  qed (use assms h in \<open>auto simp: redacted_url_def\<close>)
qed

lemma secret_url: "urlsplit ''https://u:p@a.com/x?token=1#f'' = Some \<lparr>u_scheme = ''https'', netloc = ''u:p@a.com'', u_path = ''/x'', u_query = ''token=1'',
    u_fragment = ''f''\<rparr>"
  by code_simp

theorem redacted_url_drops_query_witness:
  "\<exists>host. redacted_url (PStr ''https://u:p@a.com/x?token=1#f'') = [] \<or>
     redacted_url (PStr ''https://u:p@a.com/x?token=1#f'') = take 2048 (redact_string (url_unsplit ''https'' host ''/x'')) \<and>
     {CHR ''?'', CHR ''#'', CHR ''@''} \<inter> set host = {}"
proof -
  let ?p = "\<lparr>u_scheme = ''https'', netloc = ''u:p@a.com'', u_path = ''/x'', u_query = ''token=1'', u_fragment = ''f''\<rparr>"
  have "py_lower (u_scheme ?p) = ''https''" "url_hostname ?p = Some ''a.com''" by code_simp+
  with redacted_url_drops_query [OF secret_url] show ?thesis by auto
qed

subsection \<open>From the chat to the browser\<close>

lemma tool_beginE:
  assumes "tool_begin parse u sid chat name kwargs b = Inr (c, args)"
  obtains td a s where "map_of TOOL_DEFINITIONS name = Some td" "parse name kwargs = Some a" "args_model_of a = td_arguments td" "valid_args a"
    "map_of (b_sessions b) sid = Some s" "bs_user_id s = u" "bs_session_id s = sid" "args = command_args s (tc_risk c) a"
    "c = \<lparr>tc_name = name, tc_definition = td, tc_user = u, tc_chat = chat, tc_session = s, tc_risk = call_risk name td a\<rparr>"
  using assms by (auto simp: tool_begin_def split: option.splits if_splits)

lemma tool_names_nonempty: "map_of TOOL_DEFINITIONS name = Some td \<Longrightarrow> name \<noteq> []"
  by (auto simp: TOOL_DEFINITIONS_def)

text \<open>A tool that was offered works: while the session is live, a call with valid arguments reaches the browser, unless the
  server has its maximum of commands in flight or another command has the device. The command carries the session's own
  approval policy and the risk the server computed, whatever the arguments of the model were.\<close>

theorem live_tools_dispatch:
  assumes "session_is_live b u sid" "tool_begin parse u sid chat name kwargs b = Inr (c, args)" "0 < b_default_timeout b"
  shows "(\<exists>s. map_of (b_sessions b) sid = Some s \<and> pget args ''_policy'' = PDict [(''actionMode'', PStr (bs_action_mode s)),
      (''tabPolicy'', PStr (bs_tab_policy s)), (''risk'', PStr (tc_risk c))]) \<and>
    (case tool_dispatch cid nonce now c args b of
       Inr _ \<Rightarrow> True
     | Inl e \<Rightarrow> e = bce ''command_registry_full'' \<or> e = bce ''device_busy'')"
  using assms(2)
proof (rule tool_beginE)
  fix td a s
  assume c: "map_of TOOL_DEFINITIONS name = Some td" "map_of (b_sessions b) sid = Some s" "bs_user_id s = u" "bs_session_id s = sid"
    "args = command_args s (tc_risk c) a" "c = \<lparr>tc_name = name, tc_definition = td, tc_user = u, tc_chat = chat, tc_session = s, tc_risk = call_risk name td a\<rparr>"
  obtain d where d: "map_of (b_devices b) (bs_device_id s) = Some d" "bd_user_id d = u" "bd_sid d = bs_sid s"
    using assms(1) c(2) by (auto simp: session_is_live_def split: option.splits)
  have "pget args ''_policy'' = PDict [(''actionMode'', PStr (bs_action_mode s)), (''tabPolicy'', PStr (bs_tab_policy s)), (''risk'', PStr (tc_risk c))]"
    unfolding c(5) command_args_def pget_def by simp
  then show ?thesis using c(2,3,4,6) d tool_names_nonempty [OF c(1)] assms(3)
    by (auto simp: tool_dispatch_def dispatch_begin_def Let_def)
qed

theorem live_tools_dispatch_witness:
  "\<exists>c args. tool_begin (\<lambda>_ _. Some EmptyArguments) ''u'' ''s'' None ''browser_reload'' [] live_open = Inr (c, args) \<and>
     pget args ''_policy'' = PDict [(''actionMode'', PStr ''autonomous''), (''tabPolicy'', PStr ''locked''), (''risk'', PStr ''ordinary'')]"
proof -
  obtain c args where t: "tool_begin (\<lambda>_ _. Some EmptyArguments) ''u'' ''s'' None ''browser_reload'' [] live_open = Inr (c, args)"
    and r: "tc_risk c = ''ordinary''"
    by (simp add: tool_begin_def TOOL_DEFINITIONS_def ordinary_tool_def call_risk_def live_defs broker_init_def)
  have l: "session_is_live live_open ''u'' ''s''" "0 < b_default_timeout live_open" by (simp_all add: session_is_live_def live_defs broker_init_def)
  from live_tools_dispatch [OF l(1) t l(2), of "''c''" "''n''" 0] t r show ?thesis by (auto simp: live_defs broker_init_def)
qed

end
