(* ===== verification/Group_Store.thy ===== *)
theory Group_Store
  imports Config_Store Browser_Permissions
begin

section \<open>Groups and their members (models/groups.py)\<close>

text \<open>
  The tables \<open>group\<close> and \<open>group_member\<close> with their primary keys, the unique pair
  \<open>(group_id, user_id)\<close> and the foreign key of a membership, and the methods of \<open>GroupTable\<close>.
  \<open>fk\<close> says whether the database enforces foreign keys: PostgreSQL does, SQLite only
  after a pragma the engine does not set. \<open>uuid i\<close> and \<open>clock i\<close> are the \<open>i\<close>-th values a call
  draws. A statement that fails raises and leaves the tables as the last commit had them.
\<close>

record group_row =
  grp_id :: string
  grp_user_id :: string
  grp_name :: string
  grp_description :: string
  grp_data :: "(string, pyval) dict option"
  grp_meta :: "(string, pyval) dict option"
  grp_permissions :: "(string, pyval) dict option"
  grp_created_at :: int
  grp_updated_at :: int

record group_member =
  gm_id :: string
  gm_group_id :: string
  gm_user_id :: string
  gm_created_at :: "int option"
  gm_updated_at :: "int option"

record group_form =
  gf_name :: string
  gf_description :: string
  gf_permissions :: "(string, pyval) dict option"
  gf_data :: "(string, pyval) dict option"

record groups_db =
  groups_of_db :: "group_row list"
  members_of_db :: "group_member list"

datatype group_error = GroupTypeError | GroupIntegrityError

subsection \<open>Constraints\<close>

definition members_valid :: "bool \<Rightarrow> group_row list \<Rightarrow> group_member list \<Rightarrow> bool" where
  "members_valid fk gs ms \<longleftrightarrow> distinct (map gm_id ms) \<and> distinct (map (\<lambda>m. (gm_group_id m, gm_user_id m)) ms) \<and>
     (fk \<longrightarrow> list_all (\<lambda>m. List.member (map grp_id gs) (gm_group_id m)) ms)"

definition groups_ok :: "bool \<Rightarrow> groups_db \<Rightarrow> bool" where
  "groups_ok fk db \<longleftrightarrow> distinct (map grp_id (groups_of_db db)) \<and> members_valid fk (groups_of_db db) (members_of_db db)"

definition new_member :: "string \<Rightarrow> int \<Rightarrow> string \<Rightarrow> string \<Rightarrow> group_member" where
  "new_member i now group_id user_id =
     \<lparr>gm_id = i, gm_group_id = group_id, gm_user_id = user_id, gm_created_at = Some now, gm_updated_at = Some now\<rparr>"

subsection \<open>Creating groups\<close>

text \<open>\<open>'share' in config\<close> and \<open>config['share'] = \<dots>\<close> for whatever JSON value \<open>config\<close> is.\<close>

definition with_share :: "pyval \<Rightarrow> pyval \<Rightarrow> (group_error, pyval) result" where
  "with_share share config = (case config of
      PDict c \<Rightarrow> Inr (PDict (if has_key c ''share'' then c else AList.update ''share'' share c))
    | PStr s \<Rightarrow> if substr_in ''share'' s then Inr config else Inl GroupTypeError
    | PList l \<Rightarrow> if List.member l (PStr ''share'') then Inr config else Inl GroupTypeError
    | _ \<Rightarrow> Inl GroupTypeError)"

definition ensure_default_share_config ::
  "pyval \<Rightarrow> (string, pyval) dict option \<Rightarrow> (group_error, (string, pyval) dict) result" where
  "ensure_default_share_config share data =
     (let d = (case data of None \<Rightarrow> [] | Some d \<Rightarrow> d);
          config = (case map_of d ''config'' of None \<Rightarrow> PDict [] | Some c \<Rightarrow> c)
      in rbind (with_share share config) (\<lambda>c. Inr (AList.update ''config'' c d)))"

definition insert_new_group ::
  "pyval \<Rightarrow> (nat \<Rightarrow> string) \<Rightarrow> (nat \<Rightarrow> int) \<Rightarrow> string \<Rightarrow> group_form \<Rightarrow> groups_db \<Rightarrow> (group_error, group_row option \<times> groups_db) result" where
  "insert_new_group share uuid clock user_id form db =
     rbind (ensure_default_share_config share (gf_data form)) (\<lambda>data.
       let g = \<lparr>grp_id = uuid 0, grp_user_id = user_id, grp_name = gf_name form, grp_description = gf_description form,
                grp_data = Some data, grp_meta = None, grp_permissions = gf_permissions form,
                grp_created_at = clock 0, grp_updated_at = clock 1\<rparr>
       in Inr (if List.member (map grp_id (groups_of_db db)) (grp_id g) then (None, db)
               else (Some g, db\<lparr>groups_of_db := groups_of_db db @ [g]\<rparr>)))"

subsection \<open>Reading\<close>

text \<open>\<open>order_by(Group.updated_at.desc())\<close>.\<close>

definition by_updated :: "group_row list \<Rightarrow> group_row list" where
  "by_updated gs = sort_key (\<lambda>g. - grp_updated_at g) gs"

definition get_all_groups :: "groups_db \<Rightarrow> group_row list" where
  "get_all_groups db = by_updated (groups_of_db db)"

definition get_group_by_name :: "string \<Rightarrow> groups_db \<Rightarrow> group_row option" where
  "get_group_by_name name db = find (\<lambda>g. grp_name g = name) (groups_of_db db)"

definition get_group_by_id :: "string \<Rightarrow> groups_db \<Rightarrow> group_row option" where
  "get_group_by_id i db = find (\<lambda>g. grp_id g = i) (groups_of_db db)"

definition get_group_user_ids_by_id :: "string \<Rightarrow> groups_db \<Rightarrow> string list" where
  "get_group_user_ids_by_id i db = map gm_user_id (filter (\<lambda>m. gm_group_id m = i) (members_of_db db))"

definition get_group_member_count_by_id :: "string \<Rightarrow> groups_db \<Rightarrow> nat" where
  "get_group_member_count_by_id i db = length (filter (\<lambda>m. gm_group_id m = i) (members_of_db db))"

definition get_group_member_counts_by_ids :: "string list \<Rightarrow> groups_db \<Rightarrow> (string \<times> nat) list" where
  "get_group_member_counts_by_ids ids db =
     (if ids = [] then []
      else map (\<lambda>i. (i, get_group_member_count_by_id i db))
             (remdups (map gm_group_id (filter (\<lambda>m. List.member ids (gm_group_id m)) (members_of_db db)))))"

definition get_group_user_ids_by_ids :: "string list \<Rightarrow> groups_db \<Rightarrow> (string \<times> string list) list" where
  "get_group_user_ids_by_ids ids db =
     fold (\<lambda>m d. AList.update (gm_group_id m) ((case map_of d (gm_group_id m) of None \<Rightarrow> [] | Some us \<Rightarrow> us) @ [gm_user_id m]) d)
       (filter (\<lambda>m. List.member ids (gm_group_id m)) (members_of_db db))
       (fold (\<lambda>i d. AList.update i [] d) ids [])"

text \<open>The inner join of the groups with the memberships of a user.\<close>

definition member_rows :: "string \<Rightarrow> groups_db \<Rightarrow> group_row list" where
  "member_rows user_id db =
     concat (map (\<lambda>g. map (\<lambda>m. g) (filter (\<lambda>m. gm_group_id m = grp_id g \<and> gm_user_id m = user_id) (members_of_db db)))
       (groups_of_db db))"

definition get_groups_by_member_id :: "string \<Rightarrow> groups_db \<Rightarrow> group_row list" where
  "get_groups_by_member_id user_id db = by_updated (member_rows user_id db)"

definition get_groups_by_member_ids :: "string list \<Rightarrow> groups_db \<Rightarrow> (string \<times> group_row list) list" where
  "get_groups_by_member_ids user_ids db =
     fold (\<lambda>(u, g) d. AList.update u ((case map_of d u of None \<Rightarrow> [] | Some gs \<Rightarrow> gs) @ [g]) d)
       (sort_key (\<lambda>(u, g). - grp_updated_at g)
         (concat (map (\<lambda>m. map (\<lambda>g. (gm_user_id m, g)) (filter (\<lambda>g. grp_id g = gm_group_id m) (groups_of_db db)))
           (filter (\<lambda>m. List.member user_ids (gm_user_id m)) (members_of_db db)))))
       (fold (\<lambda>u d. AList.update u [] d) user_ids [])"

text \<open>
  The filters of \<open>get_groups\<close> and \<open>search_groups\<close>. \<open>lc\<close> folds the case for \<open>ILIKE\<close>; \<open>share_text\<close> is what
  the database gives for \<open>data -> config -> share\<close> as text in lower case, \<open>top_share_text\<close> for
  \<open>data ->> 'share'\<close> (\<open>None\<close> for \<open>NULL\<close>).
\<close>

record group_filter =
  gq_query :: "string option"
  gq_member_id :: "string option"
  gq_share :: "pyval option"

definition name_matches :: "(char \<Rightarrow> char) \<Rightarrow> string option \<Rightarrow> group_row \<Rightarrow> bool" where
  "name_matches lc q g = (case q of None \<Rightarrow> True | Some s \<Rightarrow> sql_like lc (''%'' @ s @ ''%'') (grp_name g))"

definition is_member :: "string \<Rightarrow> string \<Rightarrow> groups_db \<Rightarrow> bool" where
  "is_member user_id i db = list_ex (\<lambda>m. gm_group_id m = i \<and> gm_user_id m = user_id) (members_of_db db)"

definition share_matches ::
  "((string, pyval) dict option \<Rightarrow> string option) \<Rightarrow> group_filter \<Rightarrow> groups_db \<Rightarrow> group_row \<Rightarrow> bool" where
  "share_matches share_text q db g = (case gq_share q of
      None \<Rightarrow> (case gq_member_id q of None \<Rightarrow> True | Some u \<Rightarrow> is_member u (grp_id g) db)
    | Some share \<Rightarrow>
        let text = share_text (grp_data g);
            anyone_can_share = grp_data g = None \<or> text = None \<or> text = Some ''true'' \<or> text = Some ''1''
        in if py_truthy share
           then (case gq_member_id q of
               None \<Rightarrow> anyone_can_share
             | Some u \<Rightarrow> if u = [] then anyone_can_share
                         else anyone_can_share \<or> text = Some ''members'' \<and> is_member u (grp_id g) db)
           else grp_data g \<noteq> None \<and> text = Some ''false'')"

definition get_groups ::
  "(char \<Rightarrow> char) \<Rightarrow> ((string, pyval) dict option \<Rightarrow> string option) \<Rightarrow> group_filter \<Rightarrow> groups_db \<Rightarrow> (group_row \<times> nat) list" where
  "get_groups lc share_text q db =
     map (\<lambda>g. (g, get_group_member_count_by_id (grp_id g) db))
       (by_updated (filter (\<lambda>g. name_matches lc (gq_query q) g \<and> share_matches share_text q db g) (groups_of_db db)))"

definition search_groups ::
  "(char \<Rightarrow> char) \<Rightarrow> ((string, pyval) dict option \<Rightarrow> string option) \<Rightarrow> (pyval \<Rightarrow> string) \<Rightarrow> group_filter \<Rightarrow> nat \<Rightarrow> nat \<Rightarrow> groups_db \<Rightarrow>
   (group_row \<times> nat) list \<times> nat" where
  "search_groups lc top_share_text str q skip n db =
     (let found = filter (\<lambda>g. name_matches lc (gq_query q) g
                    \<and> (case gq_member_id q of None \<Rightarrow> True | Some u \<Rightarrow> is_member u (grp_id g) db)
                    \<and> (case gq_share q of None \<Rightarrow> True | Some share \<Rightarrow> top_share_text (grp_data g) = Some (str share))) (groups_of_db db)
      in (map (\<lambda>g. (g, get_group_member_count_by_id (grp_id g) db)) (take n (drop skip (by_updated found))), length found))"

subsection \<open>Changing groups and members\<close>

definition set_group_user_ids_by_id ::
  "bool \<Rightarrow> (nat \<Rightarrow> string) \<Rightarrow> int \<Rightarrow> string \<Rightarrow> string list \<Rightarrow> groups_db \<Rightarrow> (group_error, groups_db) result" where
  "set_group_user_ids_by_id fk uuid now group_id user_ids db =
     (let ms = filter (\<lambda>m. gm_group_id m \<noteq> group_id) (members_of_db db)
               @ map (\<lambda>(i, u). new_member (uuid i) now group_id u) (enumerate 0 user_ids)
      in if members_valid fk (groups_of_db db) ms then Inr (db\<lparr>members_of_db := ms\<rparr>) else Inl GroupIntegrityError)"

definition update_group_by_id :: "int \<Rightarrow> string \<Rightarrow> group_form \<Rightarrow> groups_db \<Rightarrow> group_row option \<times> groups_db" where
  "update_group_by_id now i form db =
     (let db' = db\<lparr>groups_of_db := map (\<lambda>g. if grp_id g = i
            then g\<lparr>grp_name := gf_name form, grp_description := gf_description form,
                   grp_permissions := (case gf_permissions form of None \<Rightarrow> grp_permissions g | Some p \<Rightarrow> Some p),
                   grp_data := (case gf_data form of None \<Rightarrow> grp_data g | Some d \<Rightarrow> Some d), grp_updated_at := now\<rparr>
            else g) (groups_of_db db)\<rparr>
      in (get_group_by_id i db', db'))"

definition delete_group_by_id :: "bool \<Rightarrow> string \<Rightarrow> groups_db \<Rightarrow> bool \<times> groups_db" where
  "delete_group_by_id fk i db =
     (True, \<lparr>groups_of_db = filter (\<lambda>g. grp_id g \<noteq> i) (groups_of_db db),
             members_of_db = (if fk then filter (\<lambda>m. gm_group_id m \<noteq> i) (members_of_db db) else members_of_db db)\<rparr>)"

definition delete_all_groups :: "bool \<Rightarrow> groups_db \<Rightarrow> bool \<times> groups_db" where
  "delete_all_groups fk db = (True, \<lparr>groups_of_db = [], members_of_db = (if fk then [] else members_of_db db)\<rparr>)"

text \<open>\<open>update(Group).filter(Group.id.in_(ids)).values(updated_at=now)\<close>.\<close>

definition touch_groups :: "int \<Rightarrow> string list \<Rightarrow> group_row list \<Rightarrow> group_row list" where
  "touch_groups now ids gs = map (\<lambda>g. if List.member ids (grp_id g) then g\<lparr>grp_updated_at := now\<rparr> else g) gs"

fun remove_from_each :: "(nat \<Rightarrow> int) \<Rightarrow> nat \<Rightarrow> string \<Rightarrow> group_row list \<Rightarrow> groups_db \<Rightarrow> groups_db" where
  "remove_from_each clock n user_id [] db = db"
| "remove_from_each clock n user_id (g # gs) db =
     remove_from_each clock (Suc n) user_id gs
       \<lparr>groups_of_db = touch_groups (clock n) [grp_id g] (groups_of_db db),
        members_of_db = filter (\<lambda>m. \<not> (gm_group_id m = grp_id g \<and> gm_user_id m = user_id)) (members_of_db db)\<rparr>"

definition remove_user_from_all_groups :: "(nat \<Rightarrow> int) \<Rightarrow> string \<Rightarrow> groups_db \<Rightarrow> bool \<times> groups_db" where
  "remove_user_from_all_groups clock user_id db = (True, remove_from_each clock 0 user_id (member_rows user_id db) db)"

text \<open>
  The names that exist are read once, before the loop; each new group is committed by itself. A
  commit that fails is not rolled back, so no later commit of the session succeeds.
\<close>

fun create_each ::
  "pyval \<Rightarrow> (nat \<Rightarrow> string) \<Rightarrow> (nat \<Rightarrow> int) \<Rightarrow> nat \<Rightarrow> string \<Rightarrow> string list \<Rightarrow> string list \<Rightarrow> groups_db \<Rightarrow> group_row list \<times> groups_db" where
  "create_each share uuid clock n user_id existing [] db = ([], db)"
| "create_each share uuid clock n user_id existing (name # names) db =
     (let g = \<lparr>grp_id = uuid n, grp_user_id = user_id, grp_name = name, grp_description = [],
               grp_data = Some [(''config'', PDict [(''share'', share)])], grp_meta = None, grp_permissions = None,
               grp_created_at = clock (2 * n), grp_updated_at = clock (2 * n + 1)\<rparr>
      in if List.member existing name then create_each share uuid clock (Suc n) user_id existing names db
         else if List.member (map grp_id (groups_of_db db)) (uuid n) then ([], db)
         else let (gs, db') = create_each share uuid clock (Suc n) user_id existing names (db\<lparr>groups_of_db := groups_of_db db @ [g]\<rparr>)
              in (g # gs, db'))"

definition create_groups_by_group_names ::
  "pyval \<Rightarrow> (nat \<Rightarrow> string) \<Rightarrow> (nat \<Rightarrow> int) \<Rightarrow> string \<Rightarrow> string list \<Rightarrow> groups_db \<Rightarrow> group_row list \<times> groups_db" where
  "create_groups_by_group_names share uuid clock user_id group_names db =
     create_each share uuid clock 0 user_id (map grp_name (get_all_groups db)) group_names db"

definition sync_groups_by_group_names ::
  "bool \<Rightarrow> (nat \<Rightarrow> string) \<Rightarrow> int \<Rightarrow> string \<Rightarrow> string list \<Rightarrow> groups_db \<Rightarrow> bool \<times> groups_db" where
  "sync_groups_by_group_names fk uuid now user_id group_names db =
     (let target_group_ids = remdups (map grp_id (filter (\<lambda>g. List.member group_names (grp_name g)) (groups_of_db db)));
          existing_group_ids = remdups (map grp_id (member_rows user_id db));
          groups_to_add = filter (\<lambda>i. \<not> List.member existing_group_ids i) target_group_ids;
          groups_to_remove = filter (\<lambda>i. \<not> List.member target_group_ids i) existing_group_ids;
          kept = filter (\<lambda>m. \<not> (gm_user_id m = user_id \<and> List.member groups_to_remove (gm_group_id m))) (members_of_db db);
          ms = kept @ map (\<lambda>(n, i). new_member (uuid n) now i user_id) (enumerate 0 groups_to_add);
          gs = touch_groups now (groups_to_remove @ groups_to_add) (groups_of_db db)
      in if members_valid fk gs ms then (True, \<lparr>groups_of_db = gs, members_of_db = ms\<rparr>) else (False, db))"

text \<open>
  The loop of \<open>add_users_to_group\<close>: \<open>saved\<close> are the memberships of the last commit, \<open>ms\<close> those of the
  open transaction. A failing flush rolls the transaction back.
\<close>

fun add_each ::
  "bool \<Rightarrow> (nat \<Rightarrow> string) \<Rightarrow> nat \<Rightarrow> int \<Rightarrow> group_row list \<Rightarrow> string \<Rightarrow> group_member list \<Rightarrow> string list \<Rightarrow> group_member list \<Rightarrow> group_member list" where
  "add_each fk uuid n now gs i saved [] ms = ms"
| "add_each fk uuid n now gs i saved (u # us) ms =
     (let ms' = ms @ [new_member (uuid n) now i u]
      in add_each fk uuid (Suc n) now gs i saved us (if members_valid fk gs ms' then ms' else saved))"

definition add_users_to_group ::
  "bool \<Rightarrow> (nat \<Rightarrow> string) \<Rightarrow> int \<Rightarrow> string \<Rightarrow> string list \<Rightarrow> groups_db \<Rightarrow> group_row option \<times> groups_db" where
  "add_users_to_group fk uuid now i user_ids db = (case get_group_by_id i db of
      None \<Rightarrow> (None, db)
    | Some g \<Rightarrow> (Some (g\<lparr>grp_updated_at := now\<rparr>),
        \<lparr>groups_of_db = touch_groups now [i] (groups_of_db db),
         members_of_db = add_each fk uuid 0 now (groups_of_db db) i (members_of_db db) user_ids (members_of_db db)\<rparr>))"

definition remove_users_from_group :: "int \<Rightarrow> string \<Rightarrow> string list \<Rightarrow> groups_db \<Rightarrow> group_row option \<times> groups_db" where
  "remove_users_from_group now i user_ids db = (case get_group_by_id i db of
      None \<Rightarrow> (None, db)
    | Some g \<Rightarrow> if user_ids = [] then (Some g, db)
        else (Some (g\<lparr>grp_updated_at := now\<rparr>),
          \<lparr>groups_of_db = touch_groups now [i] (groups_of_db db),
           members_of_db = filter (\<lambda>m. \<not> (gm_group_id m = i \<and> List.member user_ids (gm_user_id m))) (members_of_db db)\<rparr>))"

subsection \<open>The constraints are kept\<close>

lemma members_valid_filter [intro]: "members_valid fk gs ms \<Longrightarrow> members_valid fk gs (filter P ms)"
  unfolding members_valid_def by (auto simp: distinct_map_filter list_all_iff)

lemma members_valid_groups:
  "members_valid fk gs ms \<Longrightarrow> set (map grp_id gs) \<subseteq> set (map grp_id gs') \<Longrightarrow> members_valid fk gs' ms"
  by (auto simp: members_valid_def list_all_iff)

lemma touch_groups_ids [simp]: "map grp_id (touch_groups now ids gs) = map grp_id gs"
  by (simp add: touch_groups_def)

lemma members_valid_touch [simp]: "members_valid fk (touch_groups now ids gs) ms = members_valid fk gs ms"
  by (simp add: members_valid_def)

lemma add_each_valid:
  "members_valid fk gs saved \<Longrightarrow> members_valid fk gs ms \<Longrightarrow> members_valid fk gs (add_each fk uuid n now gs i saved us ms)"
  by (induction us arbitrary: n ms) (auto simp: Let_def)

lemma groups_okI [intro]:
  "distinct (map grp_id gs) \<Longrightarrow> members_valid fk gs ms \<Longrightarrow> groups_ok fk \<lparr>groups_of_db = gs, members_of_db = ms\<rparr>"
  by (simp add: groups_ok_def)

lemma groups_ok_touch:
  "groups_ok fk db \<Longrightarrow> groups_ok fk \<lparr>groups_of_db = touch_groups now ids (groups_of_db db), members_of_db = filter P (members_of_db db)\<rparr>"
  by (auto simp: groups_ok_def)

lemma remove_from_each_ok: "groups_ok fk db \<Longrightarrow> groups_ok fk (remove_from_each clock n u gs db)"
  by (induction gs arbitrary: n db) (simp_all add: groups_ok_touch)

lemma groups_ok_append:
  "groups_ok fk db \<Longrightarrow> grp_id g \<notin> set (map grp_id (groups_of_db db)) \<Longrightarrow> groups_ok fk (db\<lparr>groups_of_db := groups_of_db db @ [g]\<rparr>)"
  by (auto simp: groups_ok_def intro: members_valid_groups)

lemma create_each_ok: "groups_ok fk db \<Longrightarrow> groups_ok fk (snd (create_each share uuid clock n u existing names db))"
  by (induction share uuid clock n u existing names db rule: create_each.induct)
    (auto simp: Let_def groups_ok_append split: prod.split prod.splits)

text \<open>The transactions of the table, each with any values of the clock and of the fresh ids.\<close>

inductive groups_step :: "bool \<Rightarrow> groups_db \<Rightarrow> groups_db \<Rightarrow> bool" for fk where
  step_insert: "insert_new_group share uuid clock u form db = Inr (r, db') \<Longrightarrow> groups_step fk db db'"
| step_set_users: "set_group_user_ids_by_id fk uuid now i us db = Inr db' \<Longrightarrow> groups_step fk db db'"
| step_update: "update_group_by_id now i form db = (r, db') \<Longrightarrow> groups_step fk db db'"
| step_delete: "delete_group_by_id fk i db = (b, db') \<Longrightarrow> groups_step fk db db'"
| step_delete_all: "delete_all_groups fk db = (b, db') \<Longrightarrow> groups_step fk db db'"
| step_remove_user: "remove_user_from_all_groups clock u db = (b, db') \<Longrightarrow> groups_step fk db db'"
| step_create: "create_groups_by_group_names share uuid clock u names db = (gs, db') \<Longrightarrow> groups_step fk db db'"
| step_sync: "sync_groups_by_group_names fk uuid now u names db = (b, db') \<Longrightarrow> groups_step fk db db'"
| step_add_users: "add_users_to_group fk uuid now i us db = (r, db') \<Longrightarrow> groups_step fk db db'"
| step_remove_users: "remove_users_from_group now i us db = (r, db') \<Longrightarrow> groups_step fk db db'"

inductive groups_reachable :: "bool \<Rightarrow> groups_db \<Rightarrow> bool" for fk where
  reach_empty: "groups_reachable fk \<lparr>groups_of_db = [], members_of_db = []\<rparr>"
| reach_step: "groups_reachable fk db \<Longrightarrow> groups_step fk db db' \<Longrightarrow> groups_reachable fk db'"

lemma update_group_ok: "groups_ok fk db \<Longrightarrow> groups_ok fk (snd (update_group_by_id now i form db))"
proof -
  assume ok: "groups_ok fk db"
  have "map grp_id (groups_of_db (snd (update_group_by_id now i form db))) = map grp_id (groups_of_db db)"
    by (simp add: update_group_by_id_def Let_def)
  moreover have "members_of_db (snd (update_group_by_id now i form db)) = members_of_db db"
    by (simp add: update_group_by_id_def Let_def)
  ultimately show ?thesis using ok by (simp add: groups_ok_def members_valid_def)
qed

lemma delete_group_ok: "groups_ok fk db \<Longrightarrow> groups_ok fk (snd (delete_group_by_id fk i db))"
  by (auto simp: groups_ok_def delete_group_by_id_def members_valid_def list_all_iff distinct_map_filter)

lemma groups_step_ok: "groups_step fk db db' \<Longrightarrow> groups_ok fk db \<Longrightarrow> groups_ok fk db'"
proof (induction rule: groups_step.cases)
  case (step_insert share uuid clock u form db r db')
  then show ?case by (auto simp: insert_new_group_def rbind_Inr_iff Let_def groups_ok_append split: if_splits)
next
  case (step_set_users uuid now i us db db')
  then show ?case by (auto simp: set_group_user_ids_by_id_def Let_def groups_ok_def split: if_splits)
next
  case (step_update now i form db r db')
  then show ?case by (metis update_group_ok snd_conv)
next
  case (step_delete i db b db')
  then show ?case by (metis delete_group_ok snd_conv)
next
  case (step_delete_all db b db')
  then show ?case by (auto simp: delete_all_groups_def groups_ok_def members_valid_def)
next
  case (step_remove_user clock u db b db')
  then show ?case by (auto simp: remove_user_from_all_groups_def remove_from_each_ok)
next
  case (step_create share uuid clock u names db gs db')
  then show ?case by (metis create_groups_by_group_names_def create_each_ok snd_conv)
next
  case (step_sync uuid now u names db b db')
  then show ?case by (auto simp: sync_groups_by_group_names_def Let_def groups_ok_def split: if_splits)
next
  case (step_add_users uuid now i us db r db')
  then show ?case by (auto simp: add_users_to_group_def groups_ok_def intro: add_each_valid split: option.splits)
next
  case (step_remove_users now i us db r db')
  then show ?case by (auto simp: remove_users_from_group_def groups_ok_def split: option.splits if_splits)
qed

lemma groups_reachable_ok: "groups_reachable fk db \<Longrightarrow> groups_ok fk db"
proof (induction rule: groups_reachable.induct)
  case reach_empty
  show ?case by (simp add: groups_ok_def members_valid_def)
next
  case (reach_step db db')
  then show ?case using groups_step_ok by blast
qed

subsection \<open>Membership read from both sides\<close>

lemma set_by_updated [simp]: "set (by_updated gs) = set gs"
  by (simp add: by_updated_def)

lemma is_member_iff: "is_member u i db \<longleftrightarrow> u \<in> set (get_group_user_ids_by_id i db)"
  by (auto simp: is_member_def get_group_user_ids_by_id_def list_ex_iff)

lemma set_member_rows: "set (member_rows u db) = {g \<in> set (groups_of_db db). is_member u (grp_id g) db}"
  by (auto simp: member_rows_def is_member_def list_ex_iff)

lemma set_groups_by_member_id:
  "set (get_groups_by_member_id u db) = {g \<in> set (groups_of_db db). is_member u (grp_id g) db}"
  by (simp add: get_groups_by_member_id_def set_member_rows)

subsection \<open>Memberships that a call adds\<close>

text \<open>What \<open>uuid4\<close> gives: ids that repeat neither each other nor an id of the table.\<close>

definition fresh_uuids :: "(nat \<Rightarrow> string) \<Rightarrow> group_member list \<Rightarrow> bool" where
  "fresh_uuids uuid ms \<longleftrightarrow> inj uuid \<and> range uuid \<inter> gm_id ` set ms = {}"

definition new_members :: "(nat \<Rightarrow> string) \<Rightarrow> int \<Rightarrow> (string \<times> string) list \<Rightarrow> group_member list" where
  "new_members uuid now ps = map (\<lambda>(n, i, u). new_member (uuid n) now i u) (enumerate 0 ps)"

lemma map_enumerate_new:
  "map gm_id (map (\<lambda>(n, i, u). new_member (uuid n) now i u) (enumerate k ps)) = map uuid [k..<k + length ps]"
  "map (\<lambda>m. (gm_group_id m, gm_user_id m)) (map (\<lambda>(n, i, u). new_member (uuid n) now i u) (enumerate k ps)) = ps"
  by (induction ps arbitrary: k) (auto simp: new_member_def upt_conv_Cons simp del: upt_Suc)

lemma enumerate_map: "map (\<lambda>(n, x). h n (f x)) (enumerate k xs) = map (\<lambda>(n, y). h n y) (enumerate k (map f xs))"
  by (induction xs arbitrary: k) auto

lemma new_members_valid:
  assumes "members_valid fk gs kept" "fresh_uuids uuid kept" "distinct ps"
    and "set ps \<inter> (\<lambda>m. (gm_group_id m, gm_user_id m)) ` set kept = {}"
    and "fk \<Longrightarrow> fst ` set ps \<subseteq> grp_id ` set gs"
  shows "members_valid fk gs (kept @ new_members uuid now ps)"
proof -
  let ?new = "new_members uuid now ps" and ?pair = "\<lambda>m. (gm_group_id m, gm_user_id m)"
  have ids: "map gm_id ?new = map uuid [0..<length ps]" and pairs: "map ?pair ?new = ps"
    using map_enumerate_new [of uuid now 0 ps] by (simp_all add: new_members_def)
  have "distinct (map gm_id (kept @ ?new))"
    using assms(1,2) unfolding map_append ids
    by (auto simp: members_valid_def fresh_uuids_def distinct_map dest: inj_onD intro: inj_on_subset)
  moreover have "distinct (map ?pair (kept @ ?new))"
    using assms(1,3,4) unfolding map_append pairs by (auto simp: members_valid_def)
  moreover have "fk \<Longrightarrow> gm_group_id m \<in> grp_id ` set gs" if "m \<in> set ?new" for m
  proof -
    have "?pair m \<in> set (map ?pair ?new)" using that by simp
    then show "fk \<Longrightarrow> ?thesis" unfolding pairs using assms(5) by (metis fst_conv image_eqI subsetD)
  qed
  ultimately show ?thesis using assms(1) by (auto simp: members_valid_def list_all_iff)
qed

lemma is_member_new:
  assumes "members_of_db db = kept @ new_members uuid now ps"
  shows "is_member u i db \<longleftrightarrow> is_member u i (db\<lparr>members_of_db := kept\<rparr>) \<or> (i, u) \<in> set ps"
proof -
  let ?pair = "\<lambda>m. (gm_group_id m, gm_user_id m)"
  have "?pair ` set (new_members uuid now ps) = set ps"
    using arg_cong [OF map_enumerate_new(2) [of uuid now 0 ps], of set] by (simp add: new_members_def image_image)
  then have "(\<exists>m \<in> set (new_members uuid now ps). gm_group_id m = i \<and> gm_user_id m = u) \<longleftrightarrow> (i, u) \<in> set ps"
    by (metis (mono_tags, lifting) image_iff prod.inject)
  then show ?thesis using assms by (auto simp: is_member_def list_ex_iff)
qed

text \<open>C26: Synchronising a user with the group names of the identity provider ends in success, and the
  user is then in exactly the groups that carry one of the names; the memberships of every other user
  are what they were.\<close>

theorem sync_groups_exact:
  assumes ok: "groups_ok fk db" and fresh: "fresh_uuids uuid (members_of_db db)"
    and sync: "sync_groups_by_group_names fk uuid now u names db = (b, db')"
  shows "b \<and> grp_id ` set (get_groups_by_member_id u db') = grp_id ` {g \<in> set (groups_of_db db). grp_name g \<in> set names}
    \<and> (\<forall>v i. v = u \<or> is_member v i db' = is_member v i db)"
proof -
  define target where "target = remdups (map grp_id (filter (\<lambda>g. List.member names (grp_name g)) (groups_of_db db)))"
  define existing where "existing = remdups (map grp_id (member_rows u db))"
  define add where "add = filter (\<lambda>i. \<not> List.member existing i) target"
  define remove where "remove = filter (\<lambda>i. \<not> List.member target i) existing"
  define kept where "kept = filter (\<lambda>m. \<not> (gm_user_id m = u \<and> List.member remove (gm_group_id m))) (members_of_db db)"
  define ms where "ms = kept @ new_members uuid now (map (\<lambda>i. (i, u)) add)"
  define gs where "gs = touch_groups now (remove @ add) (groups_of_db db)"
  have new: "map (\<lambda>(n, i). new_member (uuid n) now i u) (enumerate 0 add) = new_members uuid now (map (\<lambda>i. (i, u)) add)"
    unfolding new_members_def using enumerate_map [of "\<lambda>n (i, u). new_member (uuid n) now i u" "\<lambda>i. (i, u)" 0 add] by simp
  have res: "(b, db') = (if members_valid fk gs ms then (True, \<lparr>groups_of_db = gs, members_of_db = ms\<rparr>) else (False, db))"
    unfolding sync [symmetric] ms_def new [symmetric]
    by (simp only: sync_groups_by_group_names_def Let_def gs_def kept_def remove_def add_def existing_def target_def)
  have existing: "set existing = {i \<in> grp_id ` set (groups_of_db db). is_member u i db}"
    by (auto simp: existing_def set_member_rows)
  have target: "set target = grp_id ` {g \<in> set (groups_of_db db). grp_name g \<in> set names}" by (auto simp: target_def)
  have "members_valid fk gs ms"
    unfolding ms_def gs_def members_valid_touch
  proof (rule new_members_valid)
    show "members_valid fk (groups_of_db db) kept" using ok by (auto simp: groups_ok_def kept_def)
    show "fresh_uuids uuid kept" using fresh by (auto simp: fresh_uuids_def kept_def)
    show "distinct (map (\<lambda>i. (i, u)) add)" by (auto simp: distinct_map inj_on_def add_def target_def)
    show "set (map (\<lambda>i. (i, u)) add) \<inter> (\<lambda>m. (gm_group_id m, gm_user_id m)) ` set kept = {}"
      using existing target by (auto simp: add_def kept_def is_member_def list_ex_iff)
    show "fst ` set (map (\<lambda>i. (i, u)) add) \<subseteq> grp_id ` set (groups_of_db db)" using target by (auto simp: add_def)
  qed
  with res have b: "b" and db': "db' = \<lparr>groups_of_db = gs, members_of_db = ms\<rparr>" by simp_all
  have mem: "is_member v i db' \<longleftrightarrow> is_member v i db \<and> \<not> (v = u \<and> i \<in> set remove) \<or> v = u \<and> i \<in> set add" for v i
    using is_member_new [of db' kept uuid now "map (\<lambda>i. (i, u)) add" v i] by (auto simp: db' ms_def kept_def is_member_def list_ex_iff)
  have ids: "grp_id ` set gs = grp_id ` set (groups_of_db db)"
    by (metis gs_def list.set_map touch_groups_ids)
  have "grp_id ` set (get_groups_by_member_id u db') = {i \<in> grp_id ` set gs. is_member u i db'}"
    by (auto simp: set_groups_by_member_id db')
  also have "\<dots> = set target"
    using existing target by (auto simp: mem ids remove_def add_def)
  finally show ?thesis using b mem target by auto
qed

text \<open>A sync of one user against three groups, by evaluation.\<close>

definition sample_group :: "string \<Rightarrow> string \<Rightarrow> group_row" where
  "sample_group i name = \<lparr>grp_id = i, grp_user_id = ''admin'', grp_name = name, grp_description = [], grp_data = None, grp_meta = None,
     grp_permissions = None, grp_created_at = 1, grp_updated_at = 1\<rparr>"

definition sample_groups :: groups_db where
  "sample_groups = \<lparr>groups_of_db = [sample_group ''g1'' ''staff'', sample_group ''g2'' ''ops'', sample_group ''g3'' ''guests''],
     members_of_db = [new_member ''m1'' 1 ''g1'' ''u'', new_member ''m2'' 1 ''g3'' ''u'', new_member ''m3'' 1 ''g3'' ''v'']\<rparr>"

definition sample_uuid :: "nat \<Rightarrow> string" where
  "sample_uuid n = replicate (3 + n) CHR ''x''"

lemma fresh_sample: "fresh_uuids sample_uuid (members_of_db sample_groups)"
proof -
  have "inj sample_uuid" by (rule injI) (metis add_left_cancel length_replicate sample_uuid_def)
  moreover have "length (sample_uuid n) \<noteq> 2" for n by (simp add: sample_uuid_def)
  then have "sample_uuid n \<notin> {''m1'', ''m2'', ''m3''}" for n by (metis insertE length_Cons list.size(3) numeral_2_eq_2 singletonD)
  then have "range sample_uuid \<inter> {''m1'', ''m2'', ''m3''} = {}" by blast
  ultimately show ?thesis by (simp add: fresh_uuids_def sample_groups_def new_member_def)
qed

lemma sample_groups_ok: "groups_ok True sample_groups"
  by (simp add: groups_ok_def members_valid_def sample_groups_def sample_group_def new_member_def)

lemma sync_groups_exact_witness:
  "grp_id ` set (get_groups_by_member_id ''u'' (snd (sync_groups_by_group_names True sample_uuid 9 ''u'' [''ops'', ''guests''] sample_groups)))
     = {''g2'', ''g3''}"
proof -
  let ?r = "sync_groups_by_group_names True sample_uuid 9 ''u'' [''ops'', ''guests''] sample_groups"
  have "grp_id ` {g \<in> set (groups_of_db sample_groups). grp_name g \<in> set [''ops'', ''guests'']} = {''g2'', ''g3''}"
    unfolding set_filter [symmetric] by (simp add: sample_groups_def sample_group_def)
  with sync_groups_exact [OF sample_groups_ok fresh_sample surjective_pairing, of 9 "''u''" "[''ops'', ''guests'']"]
  show ?thesis by simp
qed

subsection \<open>Adding several users at once\<close>

lemma add_each_append:
  "add_each fk uuid n now gs i saved (us @ vs) ms
     = add_each fk uuid (n + length us) now gs i saved vs (add_each fk uuid n now gs i saved us ms)"
  by (induction us arbitrary: n ms) (simp_all add: Let_def)

lemma add_each_prefix: "\<exists>zs. add_each fk uuid n now gs i saved us (saved @ ys) = saved @ zs"
proof (induction us arbitrary: n ys)
  case (Cons u us)
  have "\<exists>zs. add_each fk uuid (Suc n) now gs i saved us (saved @ ys @ [new_member (uuid n) now i u]) = saved @ zs"
    and "\<exists>zs. add_each fk uuid (Suc n) now gs i saved us saved = saved @ zs"
    using Cons.IH [of "Suc n" "ys @ [new_member (uuid n) now i u]"] Cons.IH [of "Suc n" "[]"] by simp_all
  then show ?case by (simp add: Let_def)
qed simp

lemma members_valid_snoc:
  "members_valid fk gs (ms @ [m]) \<longleftrightarrow> members_valid fk gs ms \<and> gm_id m \<notin> gm_id ` set ms
     \<and> (gm_group_id m, gm_user_id m) \<notin> (\<lambda>m. (gm_group_id m, gm_user_id m)) ` set ms \<and> (fk \<longrightarrow> gm_group_id m \<in> grp_id ` set gs)"
  by (auto simp: members_valid_def)

lemma add_each_new:
  assumes "members_valid fk gs ms" "inj uuid" "uuid ` {n..} \<inter> gm_id ` set ms = {}" "i \<in> grp_id ` set gs"
    and "distinct us" "\<forall>u \<in> set us. (i, u) \<notin> (\<lambda>m. (gm_group_id m, gm_user_id m)) ` set ms"
  shows "add_each fk uuid n now gs i saved us ms = ms @ map (\<lambda>(k, u). new_member (uuid k) now i u) (enumerate n us)"
  using assms
proof (induction us arbitrary: n ms)
  case (Cons u us)
  let ?ms = "ms @ [new_member (uuid n) now i u]"
  have "uuid n \<notin> gm_id ` set ms" using Cons.prems(3) by auto
  then have valid: "members_valid fk gs ?ms" using Cons.prems by (simp add: members_valid_snoc new_member_def)
  have "uuid ` {Suc n..} \<inter> gm_id ` set ?ms = {}"
  proof -
    have "uuid n \<notin> uuid ` {Suc n..}" using \<open>inj uuid\<close> by (auto dest: injD)
    moreover have "uuid ` {Suc n..} \<subseteq> uuid ` {n..}" by auto
    ultimately show ?thesis using Cons.prems(3) by (auto simp: new_member_def)
  qed
  moreover have "\<forall>v \<in> set us. (i, v) \<notin> (\<lambda>m. (gm_group_id m, gm_user_id m)) ` set ?ms"
    using Cons.prems(5,6) by (auto simp: new_member_def)
  ultimately have "add_each fk uuid (Suc n) now gs i saved us ?ms = ?ms @ map (\<lambda>(k, u). new_member (uuid k) now i u) (enumerate (Suc n) us)"
    using Cons.IH [OF valid \<open>inj uuid\<close>] Cons.prems(4,5) by simp
  then show ?case using valid by (simp add: Let_def)
qed simp

lemma users_of_new: "filter (\<lambda>m. gm_group_id m = i) (map (\<lambda>(k, u). new_member (uuid k) now i u) (enumerate n us))
    = map (\<lambda>(k, u). new_member (uuid k) now i u) (enumerate n us)"
  "map gm_user_id (map (\<lambda>(k, u). new_member (uuid k) now i u) (enumerate n us)) = us"
  by (induction us arbitrary: n) (auto simp: new_member_def)

lemma find_Some_ids: "get_group_by_id i db = Some g \<Longrightarrow> i \<in> grp_id ` set (groups_of_db db)"
  by (auto simp: get_group_by_id_def find_Some_iff image_iff)

lemma add_users_fresh:
  assumes ok: "groups_ok fk db" and fresh: "fresh_uuids uuid (members_of_db db)" and g: "get_group_by_id i db = Some g"
    and d: "distinct later" and new: "\<forall>u \<in> set later. \<not> is_member u i db"
  shows "map gm_user_id (filter (\<lambda>m. gm_group_id m = i)
      (add_each fk uuid n now (groups_of_db db) i saved later (members_of_db db))) = get_group_user_ids_by_id i db @ later"
proof -
  have "uuid ` {n..} \<inter> gm_id ` set (members_of_db db) = {}" using fresh by (auto simp: fresh_uuids_def)
  moreover have "\<forall>u \<in> set later. (i, u) \<notin> (\<lambda>m. (gm_group_id m, gm_user_id m)) ` set (members_of_db db)"
    using new by (auto simp: is_member_def list_ex_iff)
  ultimately have "add_each fk uuid n now (groups_of_db db) i saved later (members_of_db db)
      = members_of_db db @ map (\<lambda>(k, u). new_member (uuid k) now i u) (enumerate n later)"
    using ok fresh d find_Some_ids [OF g] by (intro add_each_new) (auto simp: groups_ok_def fresh_uuids_def)
  then show ?thesis by (simp add: users_of_new get_group_user_ids_by_id_def del: map_map)
qed

text \<open>Adding users to a group, one of whom is a member already, loses every user named before that one:
  the flush of the duplicate fails, and the rollback that clears it also undoes the inserts
  before it. Only the users after the last duplicate are added, and the call reports success.\<close>

theorem add_users_duplicate_drops_earlier:
  assumes "groups_ok fk db" "fresh_uuids uuid (members_of_db db)" "get_group_by_id i db = Some g"
    and dup: "is_member d i db" and "distinct later" and "\<forall>u \<in> set later. \<not> is_member u i db"
  shows "fst (add_users_to_group fk uuid now i (earlier @ d # later) db) = Some (g\<lparr>grp_updated_at := now\<rparr>)
    \<and> get_group_user_ids_by_id i (snd (add_users_to_group fk uuid now i (earlier @ d # later) db))
        = get_group_user_ids_by_id i db @ later"
proof -
  let ?gs = "groups_of_db db" and ?ms = "members_of_db db"
  obtain zs where zs: "add_each fk uuid 0 now ?gs i ?ms earlier ?ms = ?ms @ zs"
    using add_each_prefix [of fk uuid 0 now ?gs i ?ms earlier "[]"] by auto
  have "\<not> members_valid fk ?gs ((?ms @ zs) @ [new_member (uuid (length earlier)) now i d])"
    unfolding members_valid_snoc using dup by (force simp: new_member_def is_member_def list_ex_iff)
  then have "add_each fk uuid 0 now ?gs i ?ms (earlier @ d # later) ?ms
      = add_each fk uuid (Suc (length earlier)) now ?gs i ?ms later ?ms"
    by (simp add: add_each_append zs Let_def)
  with add_users_fresh [OF assms(1,2,3,5,6)] show ?thesis
    by (simp add: add_users_to_group_def assms(3) get_group_user_ids_by_id_def)
qed

text \<open>\<open>v\<close> is in \<open>g3\<close> already: of \<open>w\<close>, \<open>v\<close> and \<open>x\<close> only \<open>x\<close> is added.\<close>

lemma add_users_duplicate_witness:
  "get_group_user_ids_by_id ''g3'' (snd (add_users_to_group True sample_uuid 9 ''g3'' [''w'', ''v'', ''x''] sample_groups))
     = [''u'', ''v'', ''x'']"
proof -
  have "get_group_by_id ''g3'' sample_groups = Some (sample_group ''g3'' ''guests'')"
    by (simp add: get_group_by_id_def sample_groups_def sample_group_def)
  from add_users_duplicate_drops_earlier [OF sample_groups_ok fresh_sample this, of "''v''" "[''x'']" 9 "[''w'']"]
  show ?thesis
    by (simp add: is_member_def sample_groups_def sample_group_def new_member_def get_group_user_ids_by_id_def)
qed

subsection \<open>What the rest of the program relies on\<close>

text \<open>
  The interface through which access control sees the groups: the ids of the groups a user is in,
  the ids of the users of a group, and that the two agree on the groups that exist.
\<close>

locale group_directory =
  fixes dir_inv :: "'db \<Rightarrow> bool" and groups_of_user :: "string \<Rightarrow> 'db \<Rightarrow> string list"
    and users_of_group :: "string \<Rightarrow> 'db \<Rightarrow> string list" and group_exists :: "string \<Rightarrow> 'db \<Rightarrow> bool"
  assumes directory_agrees: "dir_inv db \<Longrightarrow> i \<in> set (groups_of_user u db) \<longleftrightarrow> group_exists i db \<and> u \<in> set (users_of_group i db)"
begin

lemma member_sides:
  assumes "dir_inv db" "group_exists i db"
  shows "u \<in> set (users_of_group i db) \<longleftrightarrow> i \<in> set (groups_of_user u db)"
  using assms directory_agrees by blast

lemma group_of_some:
  assumes "dir_inv db" "\<forall>i \<in> set is. group_exists i db"
  shows "(\<exists>i \<in> set is. u \<in> set (users_of_group i db)) \<longleftrightarrow> set is \<inter> set (groups_of_user u db) \<noteq> {}"
  using assms directory_agrees by blast

end

definition member_group_ids :: "string \<Rightarrow> groups_db \<Rightarrow> string list" where
  "member_group_ids u db = map grp_id (get_groups_by_member_id u db)"

interpretation directory: group_directory "groups_ok fk" member_group_ids get_group_user_ids_by_id
  "\<lambda>i db. i \<in> grp_id ` set (groups_of_db db)" for fk
  by unfold_locales (auto simp: member_group_ids_def set_groups_by_member_id is_member_iff)

lemma sample_memberships:
  "member_group_ids ''u'' sample_groups = [''g1'', ''g3'']" "member_group_ids ''v'' sample_groups = [''g3'']"
  by (simp_all add: member_group_ids_def get_groups_by_member_id_def by_updated_def member_rows_def sample_groups_def
      sample_group_def new_member_def)

end
