(* ===== verification/Access_Grants.thy ===== *)
theory Access_Grants
  imports Group_Store
begin

section \<open>Access grants (models/access\_grants.py)\<close>

text \<open>
  The table of grants, one row per (resource, principal, permission), the conversions between the
  grant lists of the API and the older \<open>access_control\<close> dictionaries, and the queries that decide who may reach
  what. \<open>uuid i\<close> and \<open>clock i\<close> are the \<open>i\<close>-th values a call draws, \<open>bind\<close> is the text the
  database driver stores for a Python value in a text column (\<open>None\<close> when it refuses it).
\<close>

record access_grant =
  ag_id :: string
  ag_resource_type :: string
  ag_resource_id :: string
  ag_principal_type :: string
  ag_principal_id :: string
  ag_permission :: string
  ag_created_at :: int

type_synonym grant_key = "string \<times> string \<times> string \<times> string \<times> string"

datatype grant_error = GrantIntegrityError | GrantAttributeError | GrantTypeError | GrantDriverError | GrantValidationError

record grant_response =
  gr_id :: string
  gr_principal_type :: string
  gr_principal_id :: string
  gr_permission :: string

definition from_grant :: "access_grant \<Rightarrow> grant_response" where
  "from_grant g = \<lparr>gr_id = ag_id g, gr_principal_type = ag_principal_type g, gr_principal_id = ag_principal_id g, gr_permission = ag_permission g\<rparr>"

subsection \<open>Conversions\<close>

text \<open>Iterating a value: the items of a list, the characters of a string, the keys of a dictionary.\<close>

definition py_iter :: "pyval \<Rightarrow> (grant_error, pyval list) result" where
  "py_iter v = (case v of
      PList l \<Rightarrow> Inr l | PTuple l \<Rightarrow> Inr l | PStr s \<Rightarrow> Inr (map (\<lambda>c. PStr [c]) s)
    | PBytes s \<Rightarrow> Inr (map (\<lambda>c. PInt (of_char c)) s) | PDict d \<Rightarrow> Inr (map (PStr \<circ> fst) d) | _ \<Rightarrow> Inl GrantTypeError)"

definition get_default :: "(string, pyval) dict \<Rightarrow> string \<Rightarrow> pyval \<Rightarrow> pyval" where
  "get_default d k v = (case map_of d k of None \<Rightarrow> v | Some w \<Rightarrow> w)"

record grant_dict =
  gd_principal_type :: string
  gd_principal_id :: pyval
  gd_permission :: string

text \<open>The body of the loop over \<open>read\<close> and \<open>write\<close>, shared with \<open>migrate_access_control\<close>.\<close>

definition permission_grants :: "(string, pyval) dict \<Rightarrow> string \<Rightarrow> (grant_error, grant_dict list) result" where
  "permission_grants access_control permission =
     (let perm_data = get_default access_control permission (PDict [])
      in if \<not> py_truthy perm_data then Inr []
         else case as_dict perm_data of
           None \<Rightarrow> Inl GrantAttributeError
         | Some p \<Rightarrow>
             rbind (py_iter (get_default p ''group_ids'' (PList []))) (\<lambda>groups.
             rbind (py_iter (get_default p ''user_ids'' (PList []))) (\<lambda>users.
             Inr (map (\<lambda>g. \<lparr>gd_principal_type = ''group'', gd_principal_id = g, gd_permission = permission\<rparr>) groups
                  @ map (\<lambda>u. \<lparr>gd_principal_type = ''user'', gd_principal_id = u, gd_permission = permission\<rparr>) users))))"

definition both_permissions :: "(string, pyval) dict \<Rightarrow> (grant_error, grant_dict list) result" where
  "both_permissions access_control =
     rbind (permission_grants access_control ''read'') (\<lambda>r.
     rbind (permission_grants access_control ''write'') (\<lambda>w. Inr (r @ w)))"

definition access_control_to_grants :: "string \<Rightarrow> pyval \<Rightarrow> (grant_error, grant_dict list) result" where
  "access_control_to_grants resource_type access_control =
     (if access_control = PNone
      then Inr (if resource_type \<noteq> ''file''
                then [\<lparr>gd_principal_type = ''user'', gd_principal_id = PStr ''*'', gd_permission = ''read''\<rparr>] else [])
      else if \<not> py_truthy access_control then Inr []
      else case as_dict access_control of None \<Rightarrow> Inl GrantAttributeError | Some d \<Rightarrow> both_permissions d)"

text \<open>
  An item of a grant list: a pydantic model with its fields, or any value. A field of it is read
  with \<open>get\<close> or \<open>getattr\<close>.
\<close>

datatype grant_item = GModel "(string, pyval) dict" | GVal pyval

definition item_dict :: "grant_item \<Rightarrow> (string, pyval) dict option" where
  "item_dict it = (case it of GModel d \<Rightarrow> Some d | GVal v \<Rightarrow> as_dict v)"

definition item_field :: "grant_item \<Rightarrow> string \<Rightarrow> pyval" where
  "item_field it k = (case item_dict it of None \<Rightarrow> PNone | Some d \<Rightarrow> pget d k)"

text \<open>The triple of a valid grant: the four guards of \<open>normalize_access_grants\<close>.\<close>

definition valid_grant :: "(string, pyval) dict \<Rightarrow> (string \<times> string \<times> string) option" where
  "valid_grant d = (case (pget d ''principal_type'', pget d ''principal_id'', pget d ''permission'') of
      (PStr pt, PStr pid, PStr perm) \<Rightarrow>
        if \<not> List.member [''user'', ''group'', ''anyone''] pt then None
        else if \<not> List.member [''read'', ''write''] perm then None
        else if pid = [] then None
        else if pt = ''anyone'' \<and> (pid \<noteq> ''*'' \<or> perm \<noteq> ''read'') then None
        else Some (pt, pid, perm)
    | _ \<Rightarrow> None)"

fun normalize_loop ::
  "(nat \<Rightarrow> string) \<Rightarrow> nat \<Rightarrow> grant_item list \<Rightarrow> ((string \<times> string \<times> string) \<times> grant_response) list \<Rightarrow> ((string \<times> string \<times> string) \<times> grant_response) list" where
  "normalize_loop uuid n [] deduped = deduped"
| "normalize_loop uuid n (it # items) deduped =
     normalize_loop uuid (Suc n) items
       (case item_dict it of
          None \<Rightarrow> deduped
        | Some d \<Rightarrow> (case valid_grant d of
            None \<Rightarrow> deduped
          | Some (pt, pid, perm) \<Rightarrow>
              AList.update (pt, pid, perm)
                \<lparr>gr_id = (if nonempty_str (pget d ''id'') then str_of (pget d ''id'') else uuid n),
                 gr_principal_type = pt, gr_principal_id = pid, gr_permission = perm\<rparr> deduped))"

definition normalize_access_grants :: "(nat \<Rightarrow> string) \<Rightarrow> grant_item list \<Rightarrow> grant_response list" where
  "normalize_access_grants uuid access_grants = map snd (normalize_loop uuid 0 access_grants [])"

definition is_grant :: "string \<Rightarrow> string \<Rightarrow> string \<Rightarrow> grant_response \<Rightarrow> bool" where
  "is_grant pt pid perm g \<longleftrightarrow> gr_principal_type g = pt \<and> gr_principal_id g = pid \<and> gr_permission g = perm"

definition has_public_read_access_grant :: "(nat \<Rightarrow> string) \<Rightarrow> grant_item list \<Rightarrow> bool" where
  "has_public_read_access_grant uuid gs = list_ex (is_grant ''user'' ''*'' ''read'') (normalize_access_grants uuid gs)"

definition has_public_write_access_grant :: "(nat \<Rightarrow> string) \<Rightarrow> grant_item list \<Rightarrow> bool" where
  "has_public_write_access_grant uuid gs = list_ex (is_grant ''user'' ''*'' ''write'') (normalize_access_grants uuid gs)"

definition has_anyone_read_access_grant :: "(nat \<Rightarrow> string) \<Rightarrow> grant_item list \<Rightarrow> bool" where
  "has_anyone_read_access_grant uuid gs = list_ex (is_grant ''anyone'' ''*'' ''read'') (normalize_access_grants uuid gs)"

definition has_user_access_grant :: "(nat \<Rightarrow> string) \<Rightarrow> grant_item list \<Rightarrow> bool" where
  "has_user_access_grant uuid gs =
     list_ex (\<lambda>g. gr_principal_type g = ''user'' \<and> gr_principal_id g \<noteq> ''*'') (normalize_access_grants uuid gs)"

definition strip_user_access_grants :: "grant_item list \<Rightarrow> grant_item list" where
  "strip_user_access_grants gs =
     filter (\<lambda>g. \<not> (py_eq_str (item_field g ''principal_type'') ''user'' \<and> \<not> py_eq_str (item_field g ''principal_id'') ''*'')) gs"

definition strip_anyone_access_grants :: "grant_item list \<Rightarrow> grant_item list" where
  "strip_anyone_access_grants gs = filter (\<lambda>g. \<not> py_eq_str (item_field g ''principal_type'') ''anyone'') gs"

text \<open>\<open>grants_to_access_control\<close>: the four lists of the result and whether the resource is public.\<close>

record legacy_control =
  lc_read_groups :: "string list"
  lc_read_users :: "string list"
  lc_write_groups :: "string list"
  lc_write_users :: "string list"
  lc_public :: bool

definition append_new :: "string \<Rightarrow> string list \<Rightarrow> string list" where
  "append_new x xs = (if List.member xs x then xs else xs @ [x])"

definition legacy_add :: "access_grant \<Rightarrow> legacy_control \<Rightarrow> legacy_control" where
  "legacy_add g r =
     (if ag_principal_type g = ''user'' \<and> ag_principal_id g = ''*'' \<and> ag_permission g = ''read'' then r\<lparr>lc_public := True\<rparr>
      else if \<not> List.member [''read'', ''write''] (ag_permission g) then r
      else if ag_principal_type g = ''group''
      then (if ag_permission g = ''read'' then r\<lparr>lc_read_groups := append_new (ag_principal_id g) (lc_read_groups r)\<rparr>
            else r\<lparr>lc_write_groups := append_new (ag_principal_id g) (lc_write_groups r)\<rparr>)
      else if ag_principal_type g = ''user''
      then (if ag_permission g = ''read'' then r\<lparr>lc_read_users := append_new (ag_principal_id g) (lc_read_users r)\<rparr>
            else r\<lparr>lc_write_users := append_new (ag_principal_id g) (lc_write_users r)\<rparr>)
      else r)"

definition legacy_empty :: legacy_control where
  "legacy_empty = \<lparr>lc_read_groups = [], lc_read_users = [], lc_write_groups = [], lc_write_users = [], lc_public = False\<rparr>"

definition id_lists :: "string list \<Rightarrow> string list \<Rightarrow> pyval" where
  "id_lists groups users = PDict [(''group_ids'', PList (map PStr groups)), (''user_ids'', PList (map PStr users))]"

definition grants_to_access_control :: "access_grant list \<Rightarrow> pyval" where
  "grants_to_access_control grants =
     (if grants = [] then PDict []
      else let r = fold legacy_add grants legacy_empty
           in if lc_public r then PNone
              else PDict [(''read'', id_lists (lc_read_groups r) (lc_read_users r)),
                          (''write'', id_lists (lc_write_groups r) (lc_write_users r))])"

subsection \<open>The table\<close>

type_synonym grants_table = "access_grant list"

definition ag_key :: "access_grant \<Rightarrow> grant_key" where
  "ag_key g = (ag_resource_type g, ag_resource_id g, ag_principal_type g, ag_principal_id g, ag_permission g)"

definition grants_valid :: "grants_table \<Rightarrow> bool" where
  "grants_valid t \<longleftrightarrow> distinct (map ag_id t) \<and> distinct (map ag_key t)"

definition make_grant :: "string \<Rightarrow> int \<Rightarrow> grant_key \<Rightarrow> access_grant" where
  "make_grant i now k = (case k of (rt, rid, pt, pid, perm) \<Rightarrow>
     \<lparr>ag_id = i, ag_resource_type = rt, ag_resource_id = rid, ag_principal_type = pt, ag_principal_id = pid,
      ag_permission = perm, ag_created_at = now\<rparr>)"

definition on_resource :: "string \<Rightarrow> string \<Rightarrow> access_grant \<Rightarrow> bool" where
  "on_resource rt rid g \<longleftrightarrow> ag_resource_type g = rt \<and> ag_resource_id g = rid"

definition grant_access :: "string \<Rightarrow> int \<Rightarrow> grant_key \<Rightarrow> grants_table \<Rightarrow> (grant_error, access_grant \<times> grants_table) result" where
  "grant_access uuid now k t = (case find (\<lambda>g. ag_key g = k) t of
      Some existing \<Rightarrow> Inr (existing, t)
    | None \<Rightarrow> let g = make_grant uuid now k
              in if grants_valid (t @ [g]) then Inr (g, t @ [g]) else Inl GrantIntegrityError)"

definition revoke_access :: "grant_key \<Rightarrow> grants_table \<Rightarrow> bool \<times> grants_table" where
  "revoke_access k t = (0 < length (filter (\<lambda>g. ag_key g = k) t), filter (\<lambda>g. ag_key g \<noteq> k) t)"

definition revoke_all_access :: "string \<Rightarrow> string \<Rightarrow> grants_table \<Rightarrow> nat \<times> grants_table" where
  "revoke_all_access rt rid t = (length (filter (on_resource rt rid) t), filter (\<lambda>g. \<not> on_resource rt rid g) t)"

text \<open>Delete the grants of a resource and insert new ones, in one transaction.\<close>

definition replace_grants :: "string \<Rightarrow> string \<Rightarrow> access_grant list \<Rightarrow> grants_table \<Rightarrow> (grant_error, grants_table) result" where
  "replace_grants rt rid new t =
     (let t' = filter (\<lambda>g. \<not> on_resource rt rid g) t @ new
      in if grants_valid t' then Inr t' else Inl GrantIntegrityError)"

text \<open>
  \<open>set_access_control\<close> inserts whatever ids the dictionary holds; the models it returns are
  validated after the commit, when an id that is not a string raises.
\<close>

definition bound_grants ::
  "(pyval \<Rightarrow> string option) \<Rightarrow> (nat \<Rightarrow> string) \<Rightarrow> (nat \<Rightarrow> int) \<Rightarrow> string \<Rightarrow> string \<Rightarrow> grant_dict list \<Rightarrow> access_grant list option" where
  "bound_grants bind uuid clock rt rid gds =
     those (map (\<lambda>(n, gd). map_option (\<lambda>pid. make_grant (uuid n) (clock n) (rt, rid, gd_principal_type gd, pid, gd_permission gd))
                  (bind (gd_principal_id gd))) (enumerate 0 gds))"

definition set_access_control ::
  "(pyval \<Rightarrow> string option) \<Rightarrow> (nat \<Rightarrow> string) \<Rightarrow> (nat \<Rightarrow> int) \<Rightarrow> string \<Rightarrow> string \<Rightarrow> pyval \<Rightarrow> grants_table \<Rightarrow>
   (grant_error, access_grant list) result \<times> grants_table" where
  "set_access_control bind uuid clock rt rid access_control t = (case access_control_to_grants rt access_control of
      Inl e \<Rightarrow> (Inl e, t)
    | Inr gds \<Rightarrow> (case bound_grants bind uuid clock rt rid gds of
        None \<Rightarrow> (Inl GrantDriverError, t)
      | Some new \<Rightarrow> (case replace_grants rt rid new t of
          Inl e \<Rightarrow> (Inl e, t)
        | Inr t' \<Rightarrow> (if list_all (\<lambda>gd. is_str (gd_principal_id gd)) gds then Inr new else Inl GrantValidationError, t'))))"

definition set_access_grants ::
  "(nat \<Rightarrow> string) \<Rightarrow> (nat \<Rightarrow> string) \<Rightarrow> (nat \<Rightarrow> int) \<Rightarrow> string \<Rightarrow> string \<Rightarrow> grant_item list \<Rightarrow> grants_table \<Rightarrow>
   (grant_error, access_grant list \<times> grants_table) result" where
  "set_access_grants uuid uuid' clock rt rid access_grants t =
     (let new = map (\<lambda>(n, g). make_grant (uuid' n) (clock n) (rt, rid, gr_principal_type g, gr_principal_id g, gr_permission g))
                  (enumerate 0 (normalize_access_grants uuid access_grants))
      in rbind (replace_grants rt rid new t) (\<lambda>t'. Inr (new, t')))"

definition get_grants_by_resource :: "string \<Rightarrow> string \<Rightarrow> grants_table \<Rightarrow> access_grant list" where
  "get_grants_by_resource rt rid t = filter (on_resource rt rid) t"

definition get_access_control :: "string \<Rightarrow> string \<Rightarrow> grants_table \<Rightarrow> pyval" where
  "get_access_control rt rid t = grants_to_access_control (get_grants_by_resource rt rid t)"

definition get_grants_by_resources :: "string \<Rightarrow> string list \<Rightarrow> grants_table \<Rightarrow> (string \<times> access_grant list) list" where
  "get_grants_by_resources rt rids t =
     (if rids = [] then []
      else fold (\<lambda>g d. AList.update (ag_resource_id g) ((case map_of d (ag_resource_id g) of None \<Rightarrow> [] | Some gs \<Rightarrow> gs) @ [g]) d)
             (filter (\<lambda>g. ag_resource_type g = rt \<and> List.member rids (ag_resource_id g)) t)
             (fold (\<lambda>i d. AList.update i [] d) rids []))"

subsection \<open>Who may reach what\<close>

definition has_anyone_access :: "string \<Rightarrow> string \<Rightarrow> string \<Rightarrow> grants_table \<Rightarrow> bool" where
  "has_anyone_access rt rid perm t = (find (\<lambda>g. ag_key g = (rt, rid, ''anyone'', ''*'', perm)) t \<noteq> None)"

text \<open>The conditions on the principal, one disjunct per \<open>and_\<close>.\<close>

definition principal_matches :: "string option \<Rightarrow> string list \<Rightarrow> access_grant \<Rightarrow> bool" where
  "principal_matches user_id group_ids g \<longleftrightarrow>
     ag_principal_type g = ''user'' \<and> ag_principal_id g = ''*''
     \<or> (case user_id of None \<Rightarrow> False | Some u \<Rightarrow> ag_principal_type g = ''user'' \<and> ag_principal_id g = u)
     \<or> group_ids \<noteq> [] \<and> ag_principal_type g = ''group'' \<and> List.member group_ids (ag_principal_id g)"

text \<open>\<open>user_group_ids\<close>, or the groups of the user when the caller passes none.\<close>

definition resolve_groups :: "groups_db \<Rightarrow> string \<Rightarrow> string list option \<Rightarrow> string list" where
  "resolve_groups gdb user_id user_group_ids = (case user_group_ids of Some gs \<Rightarrow> gs | None \<Rightarrow> member_group_ids user_id gdb)"

definition has_access ::
  "groups_db \<Rightarrow> grants_table \<Rightarrow> string \<Rightarrow> string \<Rightarrow> string \<Rightarrow> string \<Rightarrow> string list option \<Rightarrow> bool" where
  "has_access gdb t user_id rt rid perm user_group_ids =
     (find (\<lambda>g. on_resource rt rid g \<and> ag_permission g = perm
        \<and> principal_matches (Some user_id) (resolve_groups gdb user_id user_group_ids) g) t \<noteq> None)"

definition get_accessible_resource_ids ::
  "groups_db \<Rightarrow> grants_table \<Rightarrow> string \<Rightarrow> string \<Rightarrow> string list \<Rightarrow> string \<Rightarrow> string list option \<Rightarrow> string list" where
  "get_accessible_resource_ids gdb t user_id rt rids perm user_group_ids =
     (if rids = [] then []
      else remdups (map ag_resource_id (filter (\<lambda>g. ag_resource_type g = rt \<and> List.member rids (ag_resource_id g)
             \<and> ag_permission g = perm \<and> principal_matches (Some user_id) (resolve_groups gdb user_id user_group_ids) g) t)))"

text \<open>The accounts, by id and role; \<open>get_users\<close> with the roles \<open>['!pending']\<close> and \<open>get_users_by_user_ids\<close>.\<close>

record user_account =
  acc_id :: string
  acc_role :: string

definition get_users_not_pending :: "user_account list \<Rightarrow> user_account list" where
  "get_users_not_pending users = filter (\<lambda>u. acc_role u \<noteq> ''pending'') users"

definition get_users_by_user_ids :: "string list \<Rightarrow> user_account list \<Rightarrow> user_account list" where
  "get_users_by_user_ids ids users = filter (\<lambda>u. List.member ids (acc_id u)) users"

definition granted_user_ids :: "groups_db \<Rightarrow> access_grant list \<Rightarrow> string list" where
  "granted_user_ids gdb grants =
     remdups (concat (map (\<lambda>g. if ag_principal_type g = ''user'' then [ag_principal_id g]
                               else if ag_principal_type g = ''group'' then get_group_user_ids_by_id (ag_principal_id g) gdb else []) grants))"

definition get_users_with_access ::
  "user_account list \<Rightarrow> groups_db \<Rightarrow> string \<Rightarrow> string \<Rightarrow> string \<Rightarrow> grants_table \<Rightarrow> user_account list" where
  "get_users_with_access users gdb rt rid perm t =
     (let grants = filter (\<lambda>g. on_resource rt rid g \<and> ag_permission g = perm) t
      in if list_ex (\<lambda>g. ag_principal_type g = ''user'' \<and> ag_principal_id g = ''*'') grants then get_users_not_pending users
         else let ids = granted_user_ids gdb grants
              in if ids = [] then [] else get_users_by_user_ids ids users)"

text \<open>
  The filters for listings. A document has an id and an owner (\<open>None\<close> for \<open>NULL\<close>); the
  \<open>filter\<close> dictionary gives the user and the groups.
\<close>

record document =
  doc_id :: string
  doc_user_id :: "string option"

record access_filter =
  af_group_ids :: "string list"
  af_user_id :: "string option"

text \<open>\<open>if user_id\<close>.\<close>

definition filter_user :: "access_filter \<Rightarrow> string option" where
  "filter_user f = (case af_user_id f of None \<Rightarrow> None | Some u \<Rightarrow> if u = [] then None else Some u)"

definition grant_exists :: "access_filter \<Rightarrow> string \<Rightarrow> string \<Rightarrow> grants_table \<Rightarrow> document \<Rightarrow> bool" where
  "grant_exists f rt perm t d =
     list_ex (\<lambda>g. on_resource rt (doc_id d) g \<and> ag_permission g = perm \<and> principal_matches (filter_user f) (af_group_ids f) g) t"

definition has_read_only_permission_filter ::
  "access_filter \<Rightarrow> string \<Rightarrow> grants_table \<Rightarrow> document list \<Rightarrow> document list" where
  "has_read_only_permission_filter f rt t docs =
     filter (\<lambda>d. grant_exists f rt ''read'' t d \<and> \<not> grant_exists f rt ''write'' t d
       \<and> (case filter_user f of None \<Rightarrow> True | Some u \<Rightarrow> (case doc_user_id d of None \<Rightarrow> False | Some owner \<Rightarrow> owner \<noteq> u))) docs"

definition has_permission_filter ::
  "access_filter \<Rightarrow> string \<Rightarrow> string \<Rightarrow> grants_table \<Rightarrow> document list \<Rightarrow> document list" where
  "has_permission_filter f rt perm t docs =
     (if perm = ''read_only'' then has_read_only_permission_filter f rt t docs
      else if af_group_ids f = [] \<and> filter_user f = None then docs
      else filter (\<lambda>d. grant_exists f rt perm t d
             \<or> (case filter_user f of None \<Rightarrow> False | Some u \<Rightarrow> doc_user_id d = Some u)) docs)"

subsection \<open>The access matrix\<close>

text \<open>
  What the table promises: a set of grants, and access for everyone under \<open>user:*\<close>, for
  the user named, and for the members of a group named.
\<close>

definition permitted :: "grant_key set \<Rightarrow> string \<Rightarrow> string set \<Rightarrow> string \<Rightarrow> string \<Rightarrow> string \<Rightarrow> bool" where
  "permitted M u G rt rid perm \<longleftrightarrow> (rt, rid, ''user'', ''*'', perm) \<in> M \<or> (rt, rid, ''user'', u, perm) \<in> M
     \<or> (\<exists>i \<in> G. (rt, rid, ''group'', i, perm) \<in> M)"

definition grant_keys :: "grants_table \<Rightarrow> grant_key set" where
  "grant_keys t = ag_key ` set t"

datatype grant_op =
    Grant grant_key
  | Revoke grant_key
  | RevokeAll string string
  | Replace string string "(string \<times> string \<times> string) set"

fun matrix_op :: "grant_op \<Rightarrow> grant_key set \<Rightarrow> grant_key set" where
  "matrix_op (Grant k) M = insert k M"
| "matrix_op (Revoke k) M = M - {k}"
| "matrix_op (RevokeAll rt rid) M = {k \<in> M. (fst k, fst (snd k)) \<noteq> (rt, rid)}"
| "matrix_op (Replace rt rid ps) M = {k \<in> M. (fst k, fst (snd k)) \<noteq> (rt, rid)} \<union> (\<lambda>p. (rt, rid, p)) ` ps"

lemma find_neq_None: "find P xs \<noteq> None \<longleftrightarrow> (\<exists>x \<in> set xs. P x)"
  by (auto simp: find_None_iff)

lemma find_exists: "(\<exists>y. find P xs = Some y) \<longleftrightarrow> (\<exists>x \<in> set xs. P x)"
  using find_neq_None [of P xs] by auto

lemma key_on_resource: "on_resource rt rid g \<longleftrightarrow> (fst (ag_key g), fst (snd (ag_key g))) = (rt, rid)"
  by (simp add: on_resource_def ag_key_def)

lemma ag_key_make [simp]: "ag_key (make_grant i now k) = k" "ag_id (make_grant i now k) = i"
  by (cases k; simp add: ag_key_def make_grant_def)+

lemma matches_on_resource:
  "(\<exists>g \<in> set t. on_resource rt rid g \<and> ag_permission g = perm \<and> principal_matches (Some u) gs g)
     \<longleftrightarrow> permitted (grant_keys t) u (set gs) rt rid perm"
proof -
  let ?S = "{(rt, rid, ''user'', ''*'', perm), (rt, rid, ''user'', u, perm)} \<union> (\<lambda>i. (rt, rid, ''group'', i, perm)) ` set gs"
  have S: "on_resource rt rid g \<and> ag_permission g = perm \<and> principal_matches (Some u) gs g \<longleftrightarrow> ag_key g \<in> ?S" for g
    by (auto simp: principal_matches_def on_resource_def ag_key_def)
  have permitted: "permitted M u (set gs) rt rid perm \<longleftrightarrow> M \<inter> ?S \<noteq> {}" for M
    by (auto simp: permitted_def)
  have "(\<exists>g \<in> set t. ag_key g \<in> S) \<longleftrightarrow> grant_keys t \<inter> S \<noteq> {}" for S
    by (auto simp: grant_keys_def)
  then show ?thesis by (simp only: S permitted)
qed

lemma has_access_iff:
  "has_access gdb t u rt rid perm gs \<longleftrightarrow> permitted (grant_keys t) u (set (resolve_groups gdb u gs)) rt rid perm"
  unfolding has_access_def find_neq_None by (rule matches_on_resource)

subsection \<open>What normalisation keeps\<close>

lemma valid_grant_Some:
  "valid_grant d = Some (pt, pid, perm) \<longleftrightarrow>
     pget d ''principal_type'' = PStr pt \<and> pget d ''principal_id'' = PStr pid \<and> pget d ''permission'' = PStr perm
     \<and> pt \<in> {''user'', ''group'', ''anyone''} \<and> perm \<in> {''read'', ''write''} \<and> pid \<noteq> []
     \<and> (pt = ''anyone'' \<longrightarrow> pid = ''*'' \<and> perm = ''read'')"
  unfolding valid_grant_def by (auto split: pyval.splits)

definition item_triple :: "grant_item \<Rightarrow> (string \<times> string \<times> string) option" where
  "item_triple it = (case item_dict it of None \<Rightarrow> None | Some d \<Rightarrow> valid_grant d)"

definition response_triple :: "grant_response \<Rightarrow> string \<times> string \<times> string" where
  "response_triple g = (gr_principal_type g, gr_principal_id g, gr_permission g)"

lemma normalize_loop_keys:
  assumes "dict_ok d" "\<forall>(k, g) \<in> set d. response_triple g = k"
  shows "dict_ok (normalize_loop uuid n items d) \<and> (\<forall>(k, g) \<in> set (normalize_loop uuid n items d). response_triple g = k)
    \<and> fst ` set (normalize_loop uuid n items d) = fst ` set d \<union> {p. \<exists>it \<in> set items. item_triple it = Some p}"
  using assms
proof (induction uuid n items d rule: normalize_loop.induct)
  case (2 uuid n it items d)
  show ?case
  proof (cases "item_triple it")
    case None
    then have "normalize_loop uuid n (it # items) d = normalize_loop uuid (Suc n) items d"
      by (auto simp: item_triple_def split: option.splits)
    moreover have "(case item_dict it of None \<Rightarrow> d | Some e \<Rightarrow> (case valid_grant e of None \<Rightarrow> d | Some (pt, pid, perm) \<Rightarrow>
       AList.update (pt, pid, perm) \<lparr>gr_id = (if nonempty_str (pget e ''id'') then str_of (pget e ''id'') else uuid n),
         gr_principal_type = pt, gr_principal_id = pid, gr_permission = perm\<rparr> d)) = d"
      using None by (auto simp: item_triple_def split: option.splits)
    ultimately show ?thesis using 2 None by auto
  next
    case (Some p)
    then obtain e pt pid perm where e: "item_dict it = Some e" "valid_grant e = Some (pt, pid, perm)" "p = (pt, pid, perm)"
      by (cases p) (auto simp: item_triple_def split: option.splits)
    define d' where "d' = AList.update (pt, pid, perm)
       \<lparr>gr_id = (if nonempty_str (pget e ''id'') then str_of (pget e ''id'') else uuid n),
        gr_principal_type = pt, gr_principal_id = pid, gr_permission = perm\<rparr> d"
    have "dict_ok d'" using 2(2) by (simp add: d'_def)
    moreover have "\<forall>(k, g) \<in> set d'. response_triple g = k"
      using 2(2,3) by (auto simp: d'_def set_update_dict response_triple_def)
    moreover have "fst ` set d' = insert p (fst ` set d)"
      using 2(2) by (auto simp: d'_def set_update_dict e(3) image_iff)
    moreover have "normalize_loop uuid n (it # items) d = normalize_loop uuid (Suc n) items d'"
      by (simp add: e d'_def)
    ultimately show ?thesis using 2(1) e Some by (auto simp: d'_def)
  qed
qed simp

lemma normalize_triples:
  "map response_triple (normalize_access_grants uuid items) = map fst (normalize_loop uuid 0 items [])"
  "set (map response_triple (normalize_access_grants uuid items)) = {p. \<exists>it \<in> set items. item_triple it = Some p}"
  "distinct (map response_triple (normalize_access_grants uuid items))"
proof -
  note loop = normalize_loop_keys [of "[]" uuid 0 items]
  show eq: "map response_triple (normalize_access_grants uuid items) = map fst (normalize_loop uuid 0 items [])"
    unfolding normalize_access_grants_def map_map using loop by (intro map_cong) auto
  show "set (map response_triple (normalize_access_grants uuid items)) = {p. \<exists>it \<in> set items. item_triple it = Some p}"
    unfolding eq using loop by simp
  show "distinct (map response_triple (normalize_access_grants uuid items))"
    unfolding eq using loop by (simp add: dict_ok_def)
qed

subsection \<open>The table refines the matrix\<close>

text \<open>The successful calls that change the table, each with its effect on the matrix.\<close>

inductive grants_step :: "grant_op \<Rightarrow> grants_table \<Rightarrow> grants_table \<Rightarrow> bool" where
  step_grant: "grant_access uuid now k t = Inr (g, t') \<Longrightarrow> grants_step (Grant k) t t'"
| step_revoke: "revoke_access k t = (b, t') \<Longrightarrow> grants_step (Revoke k) t t'"
| step_revoke_all: "revoke_all_access rt rid t = (n, t') \<Longrightarrow> grants_step (RevokeAll rt rid) t t'"
| step_set_grants: "set_access_grants uuid uuid' clock rt rid items t = Inr (new, t') \<Longrightarrow>
    grants_step (Replace rt rid {p. \<exists>it \<in> set items. item_triple it = Some p}) t t'"
| step_set_control: "set_access_control bind uuid clock rt rid ac t = (Inr new, t') \<Longrightarrow> access_control_to_grants rt ac = Inr gds \<Longrightarrow>
    grants_step (Replace rt rid {(gd_principal_type gd, pid, gd_permission gd) | gd pid. gd \<in> set gds \<and> bind (gd_principal_id gd) = Some pid}) t t'"

inductive_cases grants_stepE: "grants_step op t t'"

lemma grants_valid_filter [intro]: "grants_valid t \<Longrightarrow> grants_valid (filter P t)"
  by (auto simp: grants_valid_def distinct_map_filter)

lemma grant_keys_rest: "grant_keys (filter (\<lambda>g. \<not> on_resource rt rid g) t) = {k \<in> grant_keys t. (fst k, fst (snd k)) \<noteq> (rt, rid)}"
  by (auto simp: grant_keys_def key_on_resource)

lemma grant_keys_append: "grant_keys (t @ u) = grant_keys t \<union> grant_keys u"
  by (auto simp: grant_keys_def)

lemma replace_grants_keys:
  assumes "replace_grants rt rid new t = Inr t'"
  shows "grants_valid t'" "grant_keys t' = {k \<in> grant_keys t. (fst k, fst (snd k)) \<noteq> (rt, rid)} \<union> grant_keys new"
  using assms by (auto simp: replace_grants_def Let_def grant_keys_append grant_keys_rest split: if_splits)

lemma map_key_enumerate:
  "map ag_key (map (\<lambda>(n, x). make_grant (uuid n) (clock n) (f x)) (enumerate k xs)) = map f xs"
  "map ag_id (map (\<lambda>(n, x). make_grant (uuid n) (clock n) (f x)) (enumerate k xs)) = map uuid [k..<k + length xs]"
  by (induction xs arbitrary: k) (auto simp: upt_conv_Cons simp del: upt_Suc)

lemma bound_grants_keys:
  assumes "bound_grants bind uuid clock rt rid gds = Some new"
  shows "grant_keys new = (\<lambda>p. (rt, rid, p)) ` {(gd_principal_type gd, pid, gd_permission gd) | gd pid. gd \<in> set gds \<and> bind (gd_principal_id gd) = Some pid}"
proof -
  have "those (map (\<lambda>(n, gd). map_option (\<lambda>pid. make_grant (uuid n) (clock n) (rt, rid, gd_principal_type gd, pid, gd_permission gd))
          (bind (gd_principal_id gd))) (enumerate k gds)) = Some new
    \<Longrightarrow> grant_keys new = (\<lambda>p. (rt, rid, p)) ` {(gd_principal_type gd, pid, gd_permission gd) | gd pid. gd \<in> set gds \<and> bind (gd_principal_id gd) = Some pid}" for k
  proof (induction gds arbitrary: k new)
    case Nil
    then show ?case by (simp add: grant_keys_def)
  next
    case (Cons gd gds)
    from Cons.prems obtain pid new' where pid: "bind (gd_principal_id gd) = Some pid"
      and rest: "those (map (\<lambda>(n, gd). map_option (\<lambda>pid. make_grant (uuid n) (clock n) (rt, rid, gd_principal_type gd, pid, gd_permission gd))
          (bind (gd_principal_id gd))) (enumerate (Suc k) gds)) = Some new'"
      and new: "new = make_grant (uuid k) (clock k) (rt, rid, gd_principal_type gd, pid, gd_permission gd) # new'"
      by (auto split: option.splits)
    have "grant_keys new = insert (rt, rid, gd_principal_type gd, pid, gd_permission gd) (grant_keys new')"
      by (simp add: new grant_keys_def)
    then show ?case unfolding Cons.IH [OF rest] using pid by auto
  qed
  with assms show ?thesis by (simp add: bound_grants_def)
qed

lemma set_access_grants_new:
  "grant_keys (map (\<lambda>(n, g). make_grant (uuid' n) (clock n) (rt, rid, gr_principal_type g, gr_principal_id g, gr_permission g))
      (enumerate 0 (normalize_access_grants uuid items))) = (\<lambda>p. (rt, rid, p)) ` {p. \<exists>it \<in> set items. item_triple it = Some p}"
proof -
  have "grant_keys (map (\<lambda>(n, g). make_grant (uuid' n) (clock n) (rt, rid, gr_principal_type g, gr_principal_id g, gr_permission g))
      (enumerate 0 (normalize_access_grants uuid items))) = (\<lambda>p. (rt, rid, p)) ` set (map response_triple (normalize_access_grants uuid items))"
    using arg_cong [OF map_key_enumerate(1) [of uuid' clock "\<lambda>g. (rt, rid, gr_principal_type g, gr_principal_id g, gr_permission g)" 0
        "normalize_access_grants uuid items"], of set]
    by (simp add: grant_keys_def response_triple_def image_image)
  then show ?thesis by (simp only: normalize_triples(2))
qed

lemma grants_step_refines:
  assumes "grants_step op t t'" "grants_valid t"
  shows "grants_valid t' \<and> grant_keys t' = matrix_op op (grant_keys t)"
  using assms
proof cases
  case (step_grant uuid now k g)
  then show ?thesis using assms(2)
    by (auto simp: grant_access_def Let_def grant_keys_def find_Some_iff split: option.splits if_splits)
next
  case (step_revoke k b)
  then show ?thesis using assms(2) by (auto simp: revoke_access_def grant_keys_def)
next
  case (step_revoke_all rt rid n)
  then show ?thesis using assms(2) by (auto simp: revoke_all_access_def grant_keys_rest)
next
  case (step_set_grants uuid uuid' clock rt rid items new)
  from step_set_grants(2) have r: "replace_grants rt rid new t = Inr t'"
    and new: "grant_keys new = (\<lambda>p. (rt, rid, p)) ` {p. \<exists>it \<in> set items. item_triple it = Some p}"
    by (clarsimp simp only: set_access_grants_def Let_def rbind_Inr_iff sum.inject prod.inject set_access_grants_new)+
  from replace_grants_keys [OF r] show ?thesis by (simp add: step_set_grants(1) new)
next
  case (step_set_control bind uuid clock rt rid ac new gds)
  from step_set_control(2,3) have b: "bound_grants bind uuid clock rt rid gds = Some new" and r: "replace_grants rt rid new t = Inr t'"
    by (auto simp: set_access_control_def split: option.splits sum.splits if_splits)
  from replace_grants_keys [OF r] show ?thesis
    by (simp add: step_set_control(1) bound_grants_keys [OF b])
qed

inductive run_of :: "(grant_op \<Rightarrow> 't \<Rightarrow> 't \<Rightarrow> bool) \<Rightarrow> grant_op list \<Rightarrow> 't \<Rightarrow> 't \<Rightarrow> bool" for step where
  run_nil: "run_of step [] t t"
| run_snoc: "run_of step ops t t' \<Longrightarrow> step op t' t'' \<Longrightarrow> run_of step (ops @ [op]) t t''"

text \<open>The contract of a grant table towards the code that asks it.\<close>

locale access_matrix =
  fixes mat_inv :: "'t \<Rightarrow> bool" and mat_abs :: "'t \<Rightarrow> grant_key set" and mat_step :: "grant_op \<Rightarrow> 't \<Rightarrow> 't \<Rightarrow> bool"
    and allows :: "'t \<Rightarrow> string \<Rightarrow> string list \<Rightarrow> string \<Rightarrow> string \<Rightarrow> string \<Rightarrow> bool"
  assumes step_refines: "mat_step op t t' \<Longrightarrow> mat_inv t \<Longrightarrow> mat_inv t' \<and> mat_abs t' = matrix_op op (mat_abs t)"
    and allows_iff: "allows t u G rt rid perm \<longleftrightarrow> permitted (mat_abs t) u (set G) rt rid perm"
begin

lemma run_refines: "run_of mat_step ops t t' \<Longrightarrow> mat_inv t \<Longrightarrow> mat_inv t' \<and> mat_abs t' = fold matrix_op ops (mat_abs t)"
  by (induction rule: run_of.induct) (auto dest: step_refines)

lemma run_allows:
  "run_of mat_step ops t t' \<Longrightarrow> mat_inv t \<Longrightarrow> allows t' u G rt rid perm \<longleftrightarrow> permitted (fold matrix_op ops (mat_abs t)) u (set G) rt rid perm"
  by (simp add: allows_iff run_refines)

lemma revoke_all_denies: "mat_step (RevokeAll rt rid) t t' \<Longrightarrow> mat_inv t \<Longrightarrow> \<not> allows t' u G rt rid perm"
  by (auto simp: allows_iff permitted_def dest!: step_refines)

lemma replace_elsewhere:
  "mat_step (Replace rt rid ps) t t' \<Longrightarrow> mat_inv t \<Longrightarrow> (rt', rid') \<noteq> (rt, rid) \<Longrightarrow>
   allows t' u G rt' rid' perm = allows t u G rt' rid' perm"
  by (auto simp: allows_iff permitted_def dest!: step_refines)

end

interpretation grants: access_matrix grants_valid grant_keys grants_step
  "\<lambda>t u G rt rid perm. has_access gdb t u rt rid perm (Some G)" for gdb
  by unfold_locales (auto simp: has_access_iff resolve_groups_def dest: grants_step_refines)

text \<open>C1: Whatever sequence of calls grants, revokes and replaces access, the table keeps its constraints,
  and \<open>has_access\<close> answers as the access matrix of those calls does: yes exactly when the resource
  carries a grant of the permission to everyone, to the user or to one of the user's groups.\<close>

theorem grant_table_refines_matrix:
  assumes "run_of grants_step ops [] t"
  shows "grants_valid t \<and> (has_access gdb t u rt rid perm gs
     \<longleftrightarrow> permitted (fold matrix_op ops {}) u (set (resolve_groups gdb u gs)) rt rid perm)"
proof -
  have "grants_valid []" by (simp add: grants_valid_def)
  from grants.run_refines [OF assms this] show ?thesis by (simp add: has_access_iff) (simp add: grant_keys_def)
qed

lemma grant_table_refines_matrix_witness:
  "has_access sample_groups [make_grant ''a'' 5 (''note'', ''n'', ''group'', ''g1'', ''read'')] ''u'' ''note'' ''n'' ''read'' None
   \<and> \<not> has_access sample_groups [make_grant ''a'' 5 (''note'', ''n'', ''group'', ''g1'', ''read'')] ''v'' ''note'' ''n'' ''read'' None"
proof -
  let ?k = "(''note'', ''n'', ''group'', ''g1'', ''read'')"
  have "grants_step (Grant ?k) [] [make_grant ''a'' 5 ?k]"
    by (rule step_grant [of "''a''" 5]) (simp add: grant_access_def grants_valid_def Let_def)
  from run_snoc [of grants_step, OF run_nil this] have run: "run_of grants_step [Grant ?k] [] [make_grant ''a'' 5 ?k]" by simp
  from grant_table_refines_matrix [OF run, of sample_groups "''u''" "''note''" "''n''" "''read''" None]
    grant_table_refines_matrix [OF run, of sample_groups "''v''" "''note''" "''n''" "''read''" None]
  show ?thesis by (simp add: permitted_def resolve_groups_def sample_memberships)
qed

subsection \<open>Queries that answer for many at once\<close>

text \<open>The batch query gives exactly the resources for which the single check succeeds, each once.\<close>

theorem accessible_ids_are_has_access:
  "set (get_accessible_resource_ids gdb t u rt rids perm gs) = {rid \<in> set rids. has_access gdb t u rt rid perm gs}
   \<and> distinct (get_accessible_resource_ids gdb t u rt rids perm gs)"
  by (auto simp: get_accessible_resource_ids_def has_access_def find_exists on_resource_def)

text \<open>A listing filter for a named user decides each document as the single check does.\<close>

lemma grant_exists_has_access:
  assumes "af_user_id f = Some u" "u \<noteq> []"
  shows "grant_exists f rt perm t d = has_access gdb t u rt (doc_id d) perm (Some (af_group_ids f))"
  using assms by (auto simp: grant_exists_def has_access_def find_exists filter_user_def resolve_groups_def list_ex_iff)

text \<open>C25: The query filter for listings keeps exactly the documents the user owns or \<open>has_access\<close> to;
  for \<open>read_only\<close>, those of other owners that the user may read and may not write.\<close>

theorem permission_filter_is_has_access:
  assumes "af_user_id f = Some u" "u \<noteq> []"
  shows "has_permission_filter f rt perm t docs =
     (if perm = ''read_only''
      then filter (\<lambda>d. has_access gdb t u rt (doc_id d) ''read'' (Some (af_group_ids f)) \<and>
             \<not> has_access gdb t u rt (doc_id d) ''write'' (Some (af_group_ids f)) \<and> doc_user_id d \<notin> {None, Some u}) docs
      else filter (\<lambda>d. doc_user_id d = Some u \<or> has_access gdb t u rt (doc_id d) perm (Some (af_group_ids f))) docs)"
  using assms
  by (auto simp: has_permission_filter_def has_read_only_permission_filter_def filter_user_def
      grant_exists_has_access [OF assms, of rt _ t _ gdb] intro!: filter_cong split: option.splits)

lemma permission_filter_is_has_access_witness:
  "has_permission_filter \<lparr>af_group_ids = [''g1''], af_user_id = Some ''u''\<rparr> ''note'' ''read''
     [make_grant ''a'' 5 (''note'', ''n'', ''group'', ''g1'', ''read'')]
     [\<lparr>doc_id = ''n'', doc_user_id = Some ''o''\<rparr>, \<lparr>doc_id = ''m'', doc_user_id = Some ''o''\<rparr>, \<lparr>doc_id = ''k'', doc_user_id = Some ''u''\<rparr>]
   = [\<lparr>doc_id = ''n'', doc_user_id = Some ''o''\<rparr>, \<lparr>doc_id = ''k'', doc_user_id = Some ''u''\<rparr>]"
  by (subst permission_filter_is_has_access [of _ "''u''" _ _ _ _ sample_groups])
    (simp_all add: has_access_iff resolve_groups_def permitted_def grant_keys_def)

text \<open>Without a user and without groups the filter does not restrict the query.\<close>

lemma permission_filter_without_user:
  "filter_user f = None \<Longrightarrow> af_group_ids f = [] \<Longrightarrow> perm \<noteq> ''read_only'' \<Longrightarrow> has_permission_filter f rt perm t docs = docs"
  by (simp add: has_permission_filter_def)

text \<open>The users listed for a resource are exactly the accounts that \<open>has_access\<close> lets in, computed from
  the groups' side instead of the user's; under a public grant the accounts awaiting
  approval are left out.\<close>

theorem users_with_access_exact:
  assumes "groups_ok True gdb"
  shows "a \<in> set (get_users_with_access users gdb rt rid perm t) \<longleftrightarrow>
     a \<in> set users \<and> has_access gdb t (acc_id a) rt rid perm None
     \<and> ((rt, rid, ''user'', ''*'', perm) \<in> grant_keys t \<longrightarrow> acc_role a \<noteq> ''pending'')"
proof -
  let ?gs = "filter (\<lambda>g. on_resource rt rid g \<and> ag_permission g = perm) t"
  have public: "list_ex (\<lambda>g. ag_principal_type g = ''user'' \<and> ag_principal_id g = ''*'') ?gs \<longleftrightarrow> (rt, rid, ''user'', ''*'', perm) \<in> grant_keys t"
    by (auto simp: list_ex_iff grant_keys_def ag_key_def on_resource_def image_iff)
  have exists: "get_group_user_ids_by_id i gdb = [] \<or> i \<in> grp_id ` set (groups_of_db gdb)" for i
    using assms by (auto simp: groups_ok_def members_valid_def get_group_user_ids_by_id_def list_all_iff filter_empty_conv)
  have groups: "x \<in> set (get_group_user_ids_by_id i gdb) \<longleftrightarrow> i \<in> set (member_group_ids x gdb)" for x i
    using exists [of i] directory.directory_agrees [OF assms, of i x] by auto
  have granted: "x \<in> set (granted_user_ids gdb ?gs) \<longleftrightarrow>
      (rt, rid, ''user'', x, perm) \<in> grant_keys t \<or> (\<exists>i \<in> set (member_group_ids x gdb). (rt, rid, ''group'', i, perm) \<in> grant_keys t)" (is "_ \<longleftrightarrow> ?rhs") for x
  proof -
    have keys: "k \<in> grant_keys t \<longleftrightarrow> (\<exists>g \<in> set t. ag_key g = k)" for k by (auto simp: grant_keys_def)
    have "x \<in> set (granted_user_ids gdb ?gs) \<longleftrightarrow> (\<exists>g \<in> set t. on_resource rt rid g \<and> ag_permission g = perm \<and>
        (ag_principal_type g = ''user'' \<and> ag_principal_id g = x \<or>
         ag_principal_type g = ''group'' \<and> ag_principal_id g \<in> set (member_group_ids x gdb)))"
      by (auto simp: granted_user_ids_def groups split: if_splits)
    also have "\<dots> \<longleftrightarrow> (\<exists>g \<in> set t. ag_key g = (rt, rid, ''user'', x, perm) \<or> (\<exists>i \<in> set (member_group_ids x gdb). ag_key g = (rt, rid, ''group'', i, perm)))"
      by (rule bex_cong) (auto simp: ag_key_def on_resource_def)
    also have "\<dots> \<longleftrightarrow> ?rhs" unfolding keys by blast
    finally show ?thesis .
  qed
  have access: "has_access gdb t (acc_id a) rt rid perm None \<longleftrightarrow>
      (rt, rid, ''user'', ''*'', perm) \<in> grant_keys t \<or> acc_id a \<in> set (granted_user_ids gdb ?gs)"
    unfolding has_access_iff granted by (auto simp: permitted_def resolve_groups_def)
  show ?thesis
    unfolding get_users_with_access_def Let_def public access get_users_not_pending_def get_users_by_user_ids_def by auto
qed

lemma users_with_access_exact_witness:
  "\<lparr>acc_id = ''u'', acc_role = ''user''\<rparr> \<in> set (get_users_with_access [\<lparr>acc_id = ''u'', acc_role = ''user''\<rparr>] sample_groups ''note'' ''n'' ''read''
     [make_grant ''a'' 5 (''note'', ''n'', ''group'', ''g1'', ''read'')])"
  unfolding users_with_access_exact [OF sample_groups_ok]
  by (simp add: has_access_iff resolve_groups_def permitted_def grant_keys_def sample_memberships)

subsection \<open>The older dictionaries survive the table\<close>

definition legacy_dict :: "string list \<Rightarrow> string list \<Rightarrow> string list \<Rightarrow> string list \<Rightarrow> pyval" where
  "legacy_dict rg ru wg wu = PDict [(''read'', id_lists rg ru), (''write'', id_lists wg wu)]"

definition listed_grants :: "string \<Rightarrow> string \<Rightarrow> string list \<Rightarrow> grant_dict list" where
  "listed_grants pt perm ids = map (\<lambda>i. \<lparr>gd_principal_type = pt, gd_principal_id = PStr i, gd_permission = perm\<rparr>) ids"

definition legacy_grants :: "string list \<Rightarrow> string list \<Rightarrow> string list \<Rightarrow> string list \<Rightarrow> grant_dict list" where
  "legacy_grants rg ru wg wu = listed_grants ''group'' ''read'' rg @ listed_grants ''user'' ''read'' ru
     @ listed_grants ''group'' ''write'' wg @ listed_grants ''user'' ''write'' wu"

definition dict_key :: "string \<Rightarrow> string \<Rightarrow> grant_dict \<Rightarrow> grant_key" where
  "dict_key rt rid gd = (rt, rid, gd_principal_type gd, str_of (gd_principal_id gd), gd_permission gd)"

lemma permission_grants_listed:
  "map_of d perm = Some (id_lists gs us) \<Longrightarrow> permission_grants d perm = Inr (listed_grants ''group'' perm gs @ listed_grants ''user'' perm us)"
  by (simp add: permission_grants_def get_default_def id_lists_def py_iter_def listed_grants_def py_truthy_def Let_def)

lemma legacy_to_grants: "access_control_to_grants rt (legacy_dict rg ru wg wu) = Inr (legacy_grants rg ru wg wu)"
  by (simp add: access_control_to_grants_def legacy_dict_def both_permissions_def permission_grants_listed py_truthy_def legacy_grants_def)

lemma legacy_grants_str: "gd \<in> set (legacy_grants rg ru wg wu) \<Longrightarrow> is_str (gd_principal_id gd)"
  by (auto simp: legacy_grants_def listed_grants_def is_str_def)

lemma those_map_Some: "\<forall>x \<in> set xs. f x = Some (g x) \<Longrightarrow> those (map f xs) = Some (map g xs)"
  by (induction xs) auto

lemma bound_grants_str:
  assumes "\<forall>s. bind (PStr s) = Some s" "\<forall>gd \<in> set gds. is_str (gd_principal_id gd)"
  shows "bound_grants bind uuid clock rt rid gds = Some (map (\<lambda>(n, gd). make_grant (uuid n) (clock n) (dict_key rt rid gd)) (enumerate 0 gds))"
  unfolding bound_grants_def
proof (rule those_map_Some, rule ballI)
  fix p assume "p \<in> set (enumerate 0 gds)"
  then have "snd p \<in> set gds" by (auto simp: in_set_enumerate_eq dest: nth_mem)
  then obtain i where "gd_principal_id (snd p) = PStr i" using assms(2) by (cases "gd_principal_id (snd p)") (auto simp: is_str_def)
  with assms(1) show "(case p of (n, gd) \<Rightarrow> map_option (\<lambda>pid. make_grant (uuid n) (clock n) (rt, rid, gd_principal_type gd, pid, gd_permission gd))
      (bind (gd_principal_id gd))) = Some (case p of (n, gd) \<Rightarrow> make_grant (uuid n) (clock n) (dict_key rt rid gd))"
    by (simp add: dict_key_def split_beta)
qed

lemma dict_keys_distinct:
  assumes "distinct rg" "distinct ru" "distinct wg" "distinct wu"
  shows "distinct (map (dict_key rt rid) (legacy_grants rg ru wg wu))"
  using assms by (auto simp: legacy_grants_def listed_grants_def dict_key_def distinct_map inj_on_def)

text \<open>Only the principal and the permission of a row decide what it adds to the dictionary.\<close>

lemma fold_legacy_keys: "fold legacy_add gs r = fold (\<lambda>k. legacy_add (make_grant [] 0 k)) (map ag_key gs) r"
proof -
  have "legacy_add g = legacy_add (make_grant [] 0 (ag_key g))" for g
    by (rule ext) (simp add: legacy_add_def make_grant_def ag_key_def)
  then show ?thesis by (simp add: fold_map comp_def cong: fold_cong)
qed

lemma fold_listed:
  "distinct (lc_read_groups r @ ids) \<Longrightarrow> fold (\<lambda>k. legacy_add (make_grant [] 0 k)) (map (dict_key rt rid) (listed_grants ''group'' ''read'' ids)) r
     = r\<lparr>lc_read_groups := lc_read_groups r @ ids\<rparr>"
  "distinct (lc_read_users r @ ids) \<Longrightarrow> \<forall>i \<in> set ids. i \<noteq> ''*'' \<Longrightarrow> fold (\<lambda>k. legacy_add (make_grant [] 0 k)) (map (dict_key rt rid) (listed_grants ''user'' ''read'' ids)) r
     = r\<lparr>lc_read_users := lc_read_users r @ ids\<rparr>"
  "distinct (lc_write_groups r @ ids) \<Longrightarrow> fold (\<lambda>k. legacy_add (make_grant [] 0 k)) (map (dict_key rt rid) (listed_grants ''group'' ''write'' ids)) r
     = r\<lparr>lc_write_groups := lc_write_groups r @ ids\<rparr>"
  "distinct (lc_write_users r @ ids) \<Longrightarrow> fold (\<lambda>k. legacy_add (make_grant [] 0 k)) (map (dict_key rt rid) (listed_grants ''user'' ''write'' ids)) r
     = r\<lparr>lc_write_users := lc_write_users r @ ids\<rparr>"
  by (induction ids arbitrary: r) (simp_all add: listed_grants_def dict_key_def legacy_add_def make_grant_def append_new_def)

lemma fold_legacy_grants:
  assumes "distinct rg" "distinct ru" "distinct wg" "distinct wu" "''*'' \<notin> set ru"
  shows "fold (\<lambda>k. legacy_add (make_grant [] 0 k)) (map (dict_key rt rid) (legacy_grants rg ru wg wu)) legacy_empty
    = \<lparr>lc_read_groups = rg, lc_read_users = ru, lc_write_groups = wg, lc_write_users = wu, lc_public = False\<rparr>"
proof -
  have "\<forall>i \<in> set ru. i \<noteq> ''*''" using assms(5) by auto
  with assms show ?thesis
    unfolding legacy_grants_def map_append fold_append comp_apply by (simp add: fold_listed legacy_empty_def)
qed

text \<open>A dictionary of distinct ids written with \<open>set_access_control\<close> is what \<open>get_access_control\<close> reads back,
  as long as it names anyone at all and reading is not opened to \<open>*\<close>; a dictionary of four empty lists
  comes back as the empty dictionary.\<close>

theorem access_control_roundtrip:
  assumes bind: "\<forall>s. bind (PStr s) = Some s" and d: "distinct rg" "distinct ru" "distinct wg" "distinct wu" "''*'' \<notin> set ru"
    and valid: "grants_valid t" and fresh: "inj uuid" "range uuid \<inter> ag_id ` set t = {}"
  shows "get_access_control rt rid (snd (set_access_control bind uuid clock rt rid (legacy_dict rg ru wg wu) t))
    = (if rg @ ru @ wg @ wu = [] then PDict [] else legacy_dict rg ru wg wu)"
proof -
  let ?gds = "legacy_grants rg ru wg wu"
  define new where "new = map (\<lambda>(n, gd). make_grant (uuid n) (clock n) (dict_key rt rid gd)) (enumerate 0 ?gds)"
  let ?t = "filter (\<lambda>g. \<not> on_resource rt rid g) t @ new"
  have keys: "map ag_key new = map (dict_key rt rid) ?gds" and ids: "map ag_id new = map uuid [0..<length ?gds]"
    unfolding new_def map_key_enumerate by simp_all
  have on: "on_resource rt rid g" if "g \<in> set new" for g
  proof -
    have "ag_key g \<in> set (map ag_key new)" using that by simp
    then show ?thesis unfolding keys by (auto simp: key_on_resource dict_key_def)
  qed
  have "grants_valid ?t"
  proof -
    have "distinct (map ag_id ?t)"
      using valid fresh unfolding map_append ids
      by (auto simp: grants_valid_def distinct_map_filter distinct_map intro: inj_on_subset)
    moreover have "ag_key ` set (filter (\<lambda>g. \<not> on_resource rt rid g) t) \<inter> ag_key ` set new = {}"
      using on unfolding key_on_resource by (fastforce simp del: split_paired_All)
    moreover have "distinct (map ag_key new)" unfolding keys by (rule dict_keys_distinct [OF d(1-4)])
    moreover have "distinct (map ag_key (filter (\<lambda>g. \<not> on_resource rt rid g) t))"
      using valid by (simp add: grants_valid_def distinct_map_filter)
    ultimately show ?thesis by (simp only: grants_valid_def map_append distinct_append set_map simp_thms)
  qed
  then have "snd (set_access_control bind uuid clock rt rid (legacy_dict rg ru wg wu) t) = ?t"
    using bound_grants_str [OF bind, of ?gds uuid clock rt rid] legacy_grants_str
    by (simp add: set_access_control_def legacy_to_grants replace_grants_def Let_def new_def [symmetric])
  moreover have "get_grants_by_resource rt rid ?t = new"
    using on by (simp add: get_grants_by_resource_def filter_id_conv)
  moreover have "new = [] \<longleftrightarrow> rg @ ru @ wg @ wu = []"
    using arg_cong [OF keys, of length] by (auto simp: legacy_grants_def listed_grants_def)
  ultimately show ?thesis
    by (simp add: get_access_control_def grants_to_access_control_def fold_legacy_keys keys fold_legacy_grants [OF d] legacy_dict_def)
qed

lemma access_control_roundtrip_witness:
  "get_access_control ''note'' ''n'' (snd (set_access_control as_str sample_uuid (\<lambda>n. 7) ''note'' ''n'' (legacy_dict [''g1''] [''u''] [] [''u'', ''v'']) []))
     = legacy_dict [''g1''] [''u''] [] [''u'', ''v'']"
proof -
  have "inj sample_uuid" using fresh_sample by (simp add: fresh_uuids_def)
  then show ?thesis by (subst access_control_roundtrip) (simp_all add: grants_valid_def)
qed

end
