(* ===== verification/Folder_Store.thy ===== *)
theory Folder_Store
  imports Access_Grants
begin

section \<open>Folders (models/folders.py, utils/access\_control/folders.py)\<close>

text \<open>
  The table \<open>folder\<close>, whose rows form trees by \<open>parent_id\<close>, the methods of \<open>FolderTable\<close> and the check of
  folder access along the ancestors. A row whose \<open>name\<close> is \<open>NULL\<close> cannot become a
  \<open>FolderModel\<close>: reading it raises. \<open>lower\<close> is the database's \<open>lower\<close>.
\<close>

record folder_row =
  fo_id :: string
  fo_parent_id :: "string option"
  fo_user_id :: string
  fo_name :: "string option"
  fo_items :: "(string, pyval) dict option"
  fo_meta :: "(string, pyval) dict option"
  fo_data :: "(string, pyval) dict option"
  fo_is_expanded :: bool
  fo_created_at :: int
  fo_updated_at :: int

record folder_form =
  ff_name :: string
  ff_data :: "(string, pyval) dict option"
  ff_meta :: "(string, pyval) dict option"
  ff_parent_id :: "string option"

text \<open>An update: \<open>None\<close> for a field that is not set, \<open>Some None\<close> for one set to \<open>null\<close>.\<close>

record folder_update =
  fu_name :: "string option option"
  fu_data :: "(string, pyval) dict option option"
  fu_meta :: "(string, pyval) dict option option"

datatype folder_error = FolderValidationError | FolderTypeError

type_synonym folders = "folder_row list"

subsection \<open>Reading\<close>

definition FolderModel_validate :: "folder_row \<Rightarrow> (folder_error, folder_row) result" where
  "FolderModel_validate r = (if fo_name r = None then Inl FolderValidationError else Inr r)"

fun validate_all :: "folder_row list \<Rightarrow> (folder_error, folder_row list) result" where
  "validate_all [] = Inr []"
| "validate_all (r # rs) = rbind (FolderModel_validate r) (\<lambda>m. rbind (validate_all rs) (\<lambda>ms. Inr (m # ms)))"

definition caught_none :: "('e, 'a) result \<Rightarrow> 'a option" where
  "caught_none r = (case r of Inl _ \<Rightarrow> None | Inr a \<Rightarrow> Some a)"

definition select_folder :: "string \<Rightarrow> string \<Rightarrow> folders \<Rightarrow> folder_row option" where
  "select_folder i user_id rows = find (\<lambda>r. fo_id r = i \<and> fo_user_id r = user_id) rows"

definition get_folder_by_id_and_user_id :: "string \<Rightarrow> string \<Rightarrow> folders \<Rightarrow> folder_row option" where
  "get_folder_by_id_and_user_id i user_id rows = (case select_folder i user_id rows of
      None \<Rightarrow> None | Some r \<Rightarrow> caught_none (FolderModel_validate r))"

definition get_folder_by_id :: "string \<Rightarrow> folders \<Rightarrow> folder_row option" where
  "get_folder_by_id i rows = (case find (\<lambda>r. fo_id r = i) rows of
      None \<Rightarrow> None | Some r \<Rightarrow> caught_none (FolderModel_validate r))"

definition folders_by_updated :: "folders \<Rightarrow> folders" where
  "folders_by_updated rows = sort_key (\<lambda>r. - fo_updated_at r) rows"

definition get_folders_by_ids :: "string list \<Rightarrow> folders \<Rightarrow> (folder_error, folders) result" where
  "get_folders_by_ids ids rows = validate_all (folders_by_updated (filter (\<lambda>r. List.member ids (fo_id r)) rows))"

definition get_folders_by_user_id :: "string \<Rightarrow> folders \<Rightarrow> (folder_error, folders) result" where
  "get_folders_by_user_id user_id rows = validate_all (filter (\<lambda>r. fo_user_id r = user_id) rows)"

definition get_folder_by_parent_id_and_user_id_and_name ::
  "(string \<Rightarrow> string) \<Rightarrow> string option \<Rightarrow> string \<Rightarrow> string \<Rightarrow> folders \<Rightarrow> folder_row option" where
  "get_folder_by_parent_id_and_user_id_and_name lower parent_id user_id name rows =
     (case find (\<lambda>r. fo_parent_id r = parent_id \<and> fo_user_id r = user_id \<and> map_option lower (fo_name r) = Some (lower name)) rows of
      None \<Rightarrow> None | Some r \<Rightarrow> caught_none (FolderModel_validate r))"

definition child_rows :: "string option \<Rightarrow> string \<Rightarrow> folders \<Rightarrow> folders" where
  "child_rows parent_id user_id rows = folders_by_updated (filter (\<lambda>r. fo_parent_id r = parent_id \<and> fo_user_id r = user_id) rows)"

definition get_folders_by_parent_id_and_user_id :: "string option \<Rightarrow> string \<Rightarrow> folders \<Rightarrow> (folder_error, folders) result" where
  "get_folders_by_parent_id_and_user_id parent_id user_id rows = validate_all (child_rows parent_id user_id rows)"

text \<open>\<open>{folder_id: highest permission}\<close> of the folders shared with a user.\<close>

definition get_shared_folder_ids_for_user :: "string \<Rightarrow> string list \<Rightarrow> grants_table \<Rightarrow> (string \<times> string) list" where
  "get_shared_folder_ids_for_user user_id group_ids t =
     fold (\<lambda>g d. if map_of d (ag_resource_id g) \<noteq> Some ''write'' then AList.update (ag_resource_id g) (ag_permission g) d else d)
       (filter (\<lambda>g. ag_resource_type g = ''folder'' \<and> principal_matches (Some user_id) group_ids g) t) []"

subsection \<open>Walking down the tree\<close>

definition row_ids :: "folders \<Rightarrow> string set" where
  "row_ids rows = fo_id ` set rows"

lemma validate_all_Inr: "validate_all rs = Inr ms \<longleftrightarrow> ms = rs \<and> (\<forall>r \<in> set rs. fo_name r \<noteq> None)"
  by (induction rs arbitrary: ms) (auto simp: FolderModel_validate_def rbind_Inr_iff split: if_splits)

lemma children_Inr:
  "get_folders_by_parent_id_and_user_id p u rows = Inr kids \<Longrightarrow> kids = child_rows p u rows"
  by (simp add: get_folders_by_parent_id_and_user_id_def validate_all_Inr)

lemma set_child_rows: "set (child_rows p u rows) = {r \<in> set rows. fo_parent_id r = p \<and> fo_user_id r = u}"
  by (auto simp: child_rows_def folders_by_updated_def)

text \<open>The loop over the children inside \<open>get_children\<close>, with the recursive call for each one.\<close>

function children_loop ::
  "folders \<Rightarrow> string \<Rightarrow> string list \<Rightarrow> folders \<Rightarrow> folders \<Rightarrow> (folder_error, string list \<times> folders) result" where
  "children_loop rows u seen acc [] = Inr (seen, acc)"
| "children_loop rows u seen acc (c # cs) =
     (if List.member seen (fo_id c) then children_loop rows u seen acc cs
      else case get_folders_by_parent_id_and_user_id (Some (fo_id c)) u rows of
        Inl e \<Rightarrow> Inl e
      | Inr kids \<Rightarrow> (case children_loop rows u (fo_id c # seen) acc kids of
          Inl e \<Rightarrow> Inl e
        | Inr (seen', acc') \<Rightarrow> children_loop rows u seen' (acc' @ [c]) cs))"
  by pat_completeness auto

lemma children_loop_seen:
  "children_loop_dom (rows, u, seen, acc, cs) \<Longrightarrow> children_loop rows u seen acc cs = Inr (seen', acc') \<Longrightarrow> set seen \<subseteq> set seen'"
proof (induction arbitrary: seen' acc' rule: children_loop.pinduct)
  case (1 rows u seen acc)
  then show ?case by (simp add: children_loop.psimps)
next
  case (2 rows u seen acc c cs)
  show ?case
  proof (cases "List.member seen (fo_id c)")
    case True
    with 2 show ?thesis by (simp add: children_loop.psimps)
  next
    case False
    with 2(1,5) obtain kids s1 a1 where k: "get_folders_by_parent_id_and_user_id (Some (fo_id c)) u rows = Inr kids"
      and i: "children_loop rows u (fo_id c # seen) acc kids = Inr (s1, a1)" and o: "children_loop rows u s1 (a1 @ [c]) cs = Inr (seen', acc')"
      by (auto simp: children_loop.psimps split: sum.splits)
    from 2(3) [OF False k i] 2(4) [OF False k i refl o] show ?thesis by auto
  qed
qed

text \<open>What is left to visit: the ids of the table and of the list that are not seen yet.\<close>

definition unseen :: "folders \<Rightarrow> folders \<Rightarrow> string list \<Rightarrow> string set" where
  "unseen rows cs seen = (row_ids rows \<union> row_ids cs) - set seen"

lemma finite_unseen [simp]: "finite (unseen rows cs seen)"
  by (simp add: unseen_def row_ids_def)

lemma unseen_less: "fo_id c \<notin> set seen \<Longrightarrow> row_ids kids \<subseteq> row_ids rows \<union> row_ids (c # cs) \<Longrightarrow> set (fo_id c # seen) \<subseteq> set seen' \<Longrightarrow>
   card (unseen rows kids seen') < card (unseen rows (c # cs) seen)"
  by (rule psubset_card_mono) (auto simp: unseen_def row_ids_def)

termination children_loop
proof (relation "measures [\<lambda>(rows, u, seen, acc, cs). card (unseen rows cs seen), \<lambda>(rows, u, seen, acc, cs). length cs]", goal_cases)
  case 1
  show ?case by simp
next
  case (2 rows u seen acc c cs)
  have "card (unseen rows cs seen) \<le> card (unseen rows (c # cs) seen)"
    by (rule card_mono) (auto simp: unseen_def row_ids_def)
  then show ?case by auto
next
  case (3 rows u seen acc c cs kids)
  then have "card (unseen rows kids (fo_id c # seen)) < card (unseen rows (c # cs) seen)"
    by (intro unseen_less) (auto simp: row_ids_def set_child_rows dest!: children_Inr)
  then show ?case by simp
next
  case (4 rows u seen acc c cs kids p s1 a1)
  then have "set (fo_id c # seen) \<subseteq> set s1" using children_loop_seen [of rows u "fo_id c # seen" acc kids s1 a1] by blast
  with 4 have "card (unseen rows cs s1) < card (unseen rows (c # cs) seen)"
    by (intro unseen_less) (auto simp: row_ids_def)
  then show ?case by simp
qed

definition get_children_folders_by_id_and_user_id :: "string \<Rightarrow> string \<Rightarrow> folders \<Rightarrow> folders option" where
  "get_children_folders_by_id_and_user_id i user_id rows = (case select_folder i user_id rows of
      None \<Rightarrow> None
    | Some f \<Rightarrow> (case get_folders_by_parent_id_and_user_id (Some (fo_id f)) user_id rows of
        Inl e \<Rightarrow> None
      | Inr kids \<Rightarrow> map_option snd (caught_none (children_loop rows user_id [i] [] kids))))"

text \<open>The worklist of \<open>get_folder_ids_by_id_and_user_id_in_subtree\<close>; the head of \<open>stack\<close> is the end of the list.\<close>

fun push_children :: "folders \<Rightarrow> string list \<Rightarrow> folders \<Rightarrow> string list \<times> folders" where
  "push_children [] ids stack = (ids, stack)"
| "push_children (c # cs) ids stack =
     (if List.member ids (fo_id c) then push_children cs ids stack else push_children cs (fo_id c # ids) (c # stack))"

lemma push_children_ids:
  "push_children cs ids stack = (ids', stack') \<Longrightarrow> set ids' = set ids \<union> row_ids cs \<and> row_ids stack' = row_ids stack \<union> (set ids' - set ids)"
proof (induction cs ids stack arbitrary: ids' stack' rule: push_children.induct)
  case (2 c cs ids stack)
  show ?case
  proof (cases "fo_id c \<in> set ids")
    case True
    with 2 have "set ids' = set ids \<union> row_ids cs \<and> row_ids stack' = row_ids stack \<union> (set ids' - set ids)" by simp
    with True show ?thesis by (auto simp: row_ids_def)
  next
    case False
    with 2 have "set ids' = insert (fo_id c) (set ids) \<union> row_ids cs \<and> row_ids stack' = insert (fo_id c) (row_ids stack) \<union> (set ids' - insert (fo_id c) (set ids))"
      by (simp add: row_ids_def)
    with False show ?thesis by (auto simp: row_ids_def)
  qed
qed (auto simp: row_ids_def)

lemma push_children_same: "push_children cs ids stack = (ids', stack') \<Longrightarrow> set ids' = set ids \<Longrightarrow> stack' = stack"
proof (induction cs ids stack arbitrary: ids' stack' rule: push_children.induct)
  case (2 c cs ids stack)
  then show ?case using push_children_ids [of cs "fo_id c # ids" "c # stack" ids' stack'] by (auto split: if_splits)
qed simp

function subtree_loop :: "folders \<Rightarrow> string \<Rightarrow> string list \<Rightarrow> folders \<Rightarrow> (folder_error, string list) result" where
  "subtree_loop rows u ids [] = Inr ids"
| "subtree_loop rows u ids (f # stack) = (case get_folders_by_parent_id_and_user_id (Some (fo_id f)) u rows of
      Inl e \<Rightarrow> Inl e
    | Inr kids \<Rightarrow> (case push_children kids ids stack of (ids', stack') \<Rightarrow> subtree_loop rows u ids' stack'))"
  by pat_completeness auto

termination subtree_loop
proof (relation "measures [\<lambda>(rows, u, ids, stack). card (row_ids rows - set ids), \<lambda>(rows, u, ids, stack). length stack]", goal_cases)
  case (2 rows u ids f stack kids ids' stack')
  have kids: "row_ids kids \<subseteq> row_ids rows" using children_Inr [OF 2(1)] by (auto simp: row_ids_def set_child_rows)
  from 2(2) have push: "push_children kids ids stack = (ids', stack')" by simp
  have ids': "set ids' = set ids \<union> row_ids kids" using push_children_ids [OF push] by simp
  show ?case
  proof (cases "set ids' = set ids")
    case True
    then show ?thesis using push_children_same [OF push] by simp
  next
    case False
    then have "row_ids rows - set ids' \<subset> row_ids rows - set ids" using ids' kids by auto
    then have "card (row_ids rows - set ids') < card (row_ids rows - set ids)"
      by (rule psubset_card_mono [rotated]) (simp add: row_ids_def)
    then show ?thesis by simp
  qed
qed simp

definition get_folder_ids_by_id_and_user_id_in_subtree :: "string \<Rightarrow> string \<Rightarrow> folders \<Rightarrow> (folder_error, string list) result" where
  "get_folder_ids_by_id_and_user_id_in_subtree i user_id rows = (case select_folder i user_id rows of
      None \<Rightarrow> Inr []
    | Some f \<Rightarrow> rbind (FolderModel_validate f) (\<lambda>m. subtree_loop rows user_id [fo_id f] [m]))"

subsection \<open>Changing folders\<close>

definition insert_new_folder ::
  "string \<Rightarrow> (nat \<Rightarrow> int) \<Rightarrow> string \<Rightarrow> folder_form \<Rightarrow> string option \<Rightarrow> folders \<Rightarrow> folder_row option \<times> folders" where
  "insert_new_folder uuid clock user_id form parent_id rows =
     (let f = \<lparr>fo_id = uuid, fo_parent_id = parent_id, fo_user_id = user_id, fo_name = Some (ff_name form), fo_items = None,
               fo_meta = ff_meta form, fo_data = ff_data form, fo_is_expanded = False,
               fo_created_at = clock 0, fo_updated_at = clock 1\<rparr>
      in if List.member (map fo_id rows) uuid then (None, rows) else (Some f, rows @ [f]))"

definition put_folder :: "string \<Rightarrow> folder_row \<Rightarrow> folders \<Rightarrow> folders" where
  "put_folder i f rows = map (\<lambda>r. if fo_id r = i then f else r) rows"

definition update_folder_parent_id_by_id_and_user_id ::
  "int \<Rightarrow> string \<Rightarrow> string \<Rightarrow> string option \<Rightarrow> folders \<Rightarrow> folder_row option \<times> folders" where
  "update_folder_parent_id_by_id_and_user_id now i user_id parent_id rows = (case select_folder i user_id rows of
      None \<Rightarrow> (None, rows)
    | Some f \<Rightarrow> let f' = f\<lparr>fo_parent_id := parent_id, fo_updated_at := now\<rparr>
                in (caught_none (FolderModel_validate f'), put_folder i f' rows))"

text \<open>\<open>{**(old or {}), **new}\<close>.\<close>

definition merge_json :: "(string, pyval) dict option \<Rightarrow> (string, pyval) dict \<Rightarrow> (string, pyval) dict" where
  "merge_json old new = dict_update (case old of None \<Rightarrow> [] | Some d \<Rightarrow> d) new"

definition merged_field ::
  "(string, pyval) dict option option \<Rightarrow> (string, pyval) dict option \<Rightarrow> (folder_error, (string, pyval) dict option) result" where
  "merged_field form old = (case form of
      None \<Rightarrow> Inr old | Some None \<Rightarrow> Inl FolderTypeError | Some (Some d) \<Rightarrow> Inr (Some (merge_json old d)))"

text \<open>The new row is committed before it is validated; an exception of either kind is caught.\<close>

definition update_folder_by_id_and_user_id ::
  "int \<Rightarrow> string \<Rightarrow> string \<Rightarrow> folder_update \<Rightarrow> folders \<Rightarrow> folder_row option \<times> folders" where
  "update_folder_by_id_and_user_id now i user_id form rows = (case select_folder i user_id rows of
      None \<Rightarrow> (None, rows)
    | Some f \<Rightarrow>
        let wanted = (case fu_name form of None \<Rightarrow> None | Some n \<Rightarrow> n);
            existing = find (\<lambda>r. fo_name r = wanted \<and> fo_parent_id r = fo_parent_id f \<and> fo_user_id r = user_id) rows
        in if (case existing of None \<Rightarrow> False | Some e \<Rightarrow> fo_id e \<noteq> i) then (None, rows)
           else case rbind (merged_field (fu_data form) (fo_data f)) (\<lambda>data. rbind (merged_field (fu_meta form) (fo_meta f)) (\<lambda>meta. Inr (data, meta))) of
             Inl e \<Rightarrow> (None, rows)
           | Inr (data, meta) \<Rightarrow>
               let f' = f\<lparr>fo_name := (case fu_name form of None \<Rightarrow> fo_name f | Some n \<Rightarrow> n), fo_data := data, fo_meta := meta, fo_updated_at := now\<rparr>
               in (caught_none (FolderModel_validate f'), put_folder i f' rows))"

definition update_folder_is_expanded_by_id_and_user_id ::
  "int \<Rightarrow> string \<Rightarrow> string \<Rightarrow> bool \<Rightarrow> folders \<Rightarrow> folder_row option \<times> folders" where
  "update_folder_is_expanded_by_id_and_user_id now i user_id expanded rows = (case select_folder i user_id rows of
      None \<Rightarrow> (None, rows)
    | Some f \<Rightarrow> let f' = f\<lparr>fo_is_expanded := expanded, fo_updated_at := now\<rparr>
                in (caught_none (FolderModel_validate f'), put_folder i f' rows))"

text \<open>
  \<open>delete_children\<close>: like the walk above, but each child is deleted and committed after its
  own children. An exception leaves the deletions made so far.
\<close>

definition remove_row :: "string \<Rightarrow> folders \<Rightarrow> folders" where
  "remove_row i rows = filter (\<lambda>r. fo_id r \<noteq> i) rows"

function delete_loop ::
  "string \<Rightarrow> string list \<Rightarrow> string list \<Rightarrow> folders \<Rightarrow> folders \<Rightarrow> (folder_error, string list \<times> string list) result \<times> folders" where
  "delete_loop u seen ids rows [] = (Inr (seen, ids), rows)"
| "delete_loop u seen ids rows (c # cs) =
     (if List.member seen (fo_id c) then delete_loop u seen ids rows cs
      else case get_folders_by_parent_id_and_user_id (Some (fo_id c)) u rows of
        Inl e \<Rightarrow> (Inl e, rows)
      | Inr kids \<Rightarrow> (case delete_loop u (fo_id c # seen) ids rows kids of
          (Inl e, rows') \<Rightarrow> (Inl e, rows')
        | (Inr (seen', ids'), rows') \<Rightarrow> delete_loop u seen' (ids' @ [fo_id c]) (remove_row (fo_id c) rows') cs))"
  by pat_completeness auto

lemma row_ids_remove: "row_ids (remove_row i rows) \<subseteq> row_ids rows"
  by (auto simp: remove_row_def row_ids_def)

lemma delete_loop_seen:
  "delete_loop_dom (u, seen, ids, rows, cs) \<Longrightarrow> delete_loop u seen ids rows cs = (Inr (seen', ids'), rows') \<Longrightarrow>
   set seen \<subseteq> set seen' \<and> row_ids rows' \<subseteq> row_ids rows"
proof (induction arbitrary: seen' ids' rows' rule: delete_loop.pinduct)
  case (1 u seen ids rows)
  then show ?case by (simp add: delete_loop.psimps)
next
  case (2 u seen ids rows c cs)
  show ?case
  proof (cases "List.member seen (fo_id c)")
    case True
    with 2 show ?thesis by (simp add: delete_loop.psimps)
  next
    case False
    with 2(1,5) obtain kids s1 i1 r1 where k: "get_folders_by_parent_id_and_user_id (Some (fo_id c)) u rows = Inr kids"
      and i: "delete_loop u (fo_id c # seen) ids rows kids = (Inr (s1, i1), r1)"
      and o: "delete_loop u s1 (i1 @ [fo_id c]) (remove_row (fo_id c) r1) cs = (Inr (seen', ids'), rows')"
      by (auto simp: delete_loop.psimps split: sum.splits prod.splits)
    from 2(3) [OF False k i] 2(4) [OF False k i [symmetric] refl refl o] row_ids_remove [of "fo_id c" r1] show ?thesis by auto
  qed
qed

termination delete_loop
proof (relation "measures [\<lambda>(u, seen, ids, rows, cs). card (unseen rows cs seen), \<lambda>(u, seen, ids, rows, cs). length cs]", goal_cases)
  case 1
  show ?case by simp
next
  case (2 u seen ids rows c cs)
  have "card (unseen rows cs seen) \<le> card (unseen rows (c # cs) seen)"
    by (rule card_mono) (auto simp: unseen_def row_ids_def)
  then show ?case by auto
next
  case (3 u seen ids rows c cs kids)
  then have "card (unseen rows kids (fo_id c # seen)) < card (unseen rows (c # cs) seen)"
    by (intro unseen_less) (auto simp: row_ids_def set_child_rows dest!: children_Inr)
  then show ?case by simp
next
  case (4 u seen ids rows c cs kids r rows' p s1 i1)
  then have sub: "set (fo_id c # seen) \<subseteq> set s1" "row_ids rows' \<subseteq> row_ids rows"
    using delete_loop_seen [of u "fo_id c # seen" ids rows kids s1 i1 rows'] by auto
  have "card (unseen (remove_row (fo_id c) rows') cs s1) \<le> card (unseen rows cs s1)"
    by (rule card_mono [OF finite_unseen]) (use sub(2) row_ids_remove [of "fo_id c" rows'] in \<open>auto simp: unseen_def\<close>)
  also have "\<dots> < card (unseen rows (c # cs) seen)"
    using 4 sub(1) by (intro unseen_less) (auto simp: row_ids_def)
  finally show ?case by simp
qed

definition delete_folder_by_id_and_user_id :: "string \<Rightarrow> string \<Rightarrow> folders \<Rightarrow> string list \<times> folders" where
  "delete_folder_by_id_and_user_id i user_id rows = (case select_folder i user_id rows of
      None \<Rightarrow> ([], rows)
    | Some f \<Rightarrow> (case get_folders_by_parent_id_and_user_id (Some (fo_id f)) user_id rows of
        Inl e \<Rightarrow> ([], rows)
      | Inr kids \<Rightarrow> (case delete_loop user_id [fo_id f] [fo_id f] rows kids of
          (Inl e, rows') \<Rightarrow> ([], rows')
        | (Inr (seen, ids), rows') \<Rightarrow> (ids, remove_row (fo_id f) rows'))))"

subsection \<open>Searching\<close>

text \<open>\<open>re.sub(r'[\s_]+', ' ', name).strip().lower()\<close>.\<close>

fun collapse_blanks :: "bool \<Rightarrow> string \<Rightarrow> string" where
  "collapse_blanks in_run [] = []"
| "collapse_blanks in_run (c # cs) =
     (if is_space c \<or> c = CHR ''_'' then (if in_run then collapse_blanks True cs else CHR '' '' # collapse_blanks True cs)
      else c # collapse_blanks False cs)"

definition normalize_folder_name :: "string \<Rightarrow> string" where
  "normalize_folder_name name = py_lower (py_strip (collapse_blanks False name))"

text \<open>\<open>normalize_folder_name(folder.name)\<close> raises for a name that is \<open>NULL\<close>.\<close>

definition normalized_row_name :: "folder_row \<Rightarrow> (folder_error, string) result" where
  "normalized_row_name r = (case fo_name r of None \<Rightarrow> Inl FolderTypeError | Some n \<Rightarrow> Inr (normalize_folder_name n))"

fun search_loop :: "folders \<Rightarrow> string \<Rightarrow> string list \<Rightarrow> folders \<Rightarrow> (string \<times> folder_row) list \<Rightarrow> (folder_error, (string \<times> folder_row) list) result" where
  "search_loop rows u queries [] results = Inr results"
| "search_loop rows u queries (f # fs) results =
     rbind (normalized_row_name f) (\<lambda>n.
       search_loop rows u queries fs
         (if List.member queries n
          then fold (\<lambda>c d. AList.update (fo_id c) c d)
                 (case get_children_folders_by_id_and_user_id (fo_id f) u rows of None \<Rightarrow> [] | Some cs \<Rightarrow> cs)
                 (AList.update (fo_id f) f results)
          else results))"

definition search_folders_by_names :: "string \<Rightarrow> string list \<Rightarrow> folders \<Rightarrow> (folder_error, folders) result" where
  "search_folders_by_names user_id queries rows =
     (if queries = [] then Inr []
      else rbind (search_loop rows user_id (map normalize_folder_name queries) (filter (\<lambda>r. fo_user_id r = user_id) rows) [])
             (\<lambda>results. Inr (map snd results)))"

fun contains_loop :: "string \<Rightarrow> folders \<Rightarrow> (folder_error, folders) result" where
  "contains_loop q [] = Inr []"
| "contains_loop q (f # fs) =
     rbind (normalized_row_name f) (\<lambda>n. rbind (contains_loop q fs) (\<lambda>rest. Inr (if substr_in q n then f # rest else rest)))"

definition search_folders_by_name_contains :: "string \<Rightarrow> string \<Rightarrow> folders \<Rightarrow> (folder_error, folders) result" where
  "search_folders_by_name_contains user_id query rows =
     contains_loop (normalize_folder_name query) (filter (\<lambda>r. fo_user_id r = user_id) rows)"

subsection \<open>Access along the ancestors\<close>

text \<open>
  The loop of \<open>has_folder_access\<close>: \<open>allowed f\<close> is the test at one folder. It ends because every turn
  adds the id of a folder of the table, or the first one, to the set of seen ids.
\<close>

function folder_access_loop :: "(folder_row \<Rightarrow> bool) \<Rightarrow> folders \<Rightarrow> string list \<Rightarrow> folder_row option \<Rightarrow> bool" where
  "folder_access_loop allowed rows seen None = False"
| "folder_access_loop allowed rows seen (Some f) =
     (if List.member seen (fo_id f) then False
      else if allowed f then True
      else folder_access_loop allowed rows (fo_id f # seen)
             (case fo_parent_id f of None \<Rightarrow> None | Some p \<Rightarrow> if p = [] then None else get_folder_by_id p rows))"
  by pat_completeness auto

lemma get_folder_by_id_Some: "get_folder_by_id i rows = Some f \<Longrightarrow> f \<in> set rows \<and> fo_id f = i"
  by (auto simp: get_folder_by_id_def caught_none_def FolderModel_validate_def find_Some_iff split: option.splits if_splits)

termination folder_access_loop
proof (relation "measures [\<lambda>(allowed, rows, seen, f). card (unseen rows (case f of None \<Rightarrow> [] | Some g \<Rightarrow> [g]) seen),
    \<lambda>(allowed, rows, seen, f). (case f of None \<Rightarrow> 0 | Some g \<Rightarrow> 1)]", goal_cases)
  case (2 allowed rows seen f)
  let ?next = "case fo_parent_id f of None \<Rightarrow> None | Some p \<Rightarrow> if p = [] then None else get_folder_by_id p rows"
  have "row_ids (case ?next of None \<Rightarrow> [] | Some g \<Rightarrow> [g]) \<subseteq> row_ids rows"
    by (auto simp: row_ids_def dest!: sym [THEN get_folder_by_id_Some] split: option.splits if_splits)
  with 2 have "card (unseen rows (case ?next of None \<Rightarrow> [] | Some g \<Rightarrow> [g]) (fo_id f # seen)) < card (unseen rows [f] seen)"
    by (intro unseen_less) auto
  then show ?case by simp
qed simp

definition has_folder_access :: "groups_db \<Rightarrow> grants_table \<Rightarrow> folders \<Rightarrow> string \<Rightarrow> folder_row \<Rightarrow> string \<Rightarrow> bool" where
  "has_folder_access gdb t rows user_id folder perm =
     folder_access_loop (\<lambda>f. fo_user_id f = user_id \<or> has_access gdb t user_id ''folder'' (fo_id f) perm None) rows [] (Some folder)"

definition has_folder_write_access :: "groups_db \<Rightarrow> grants_table \<Rightarrow> folders \<Rightarrow> string \<Rightarrow> string \<Rightarrow> bool" where
  "has_folder_write_access gdb t rows user_id folder_id = (case get_folder_by_id folder_id rows of
      None \<Rightarrow> False | Some f \<Rightarrow> has_folder_access gdb t rows user_id f ''write'')"

subsection \<open>The three walks visit the same folders\<close>

text \<open>From a parent to each child of the same owner.\<close>

definition child_edge :: "folders \<Rightarrow> string \<Rightarrow> (string \<times> string) set" where
  "child_edge rows u = {(p, c). \<exists>r \<in> set rows. fo_id r = c \<and> fo_parent_id r = Some p \<and> fo_user_id r = u}"

definition all_named :: "folders \<Rightarrow> string \<Rightarrow> bool" where
  "all_named rows u = list_all (\<lambda>r. fo_user_id r = u \<longrightarrow> fo_name r \<noteq> None) rows"

lemma named_children:
  "all_named rows u \<Longrightarrow> get_folders_by_parent_id_and_user_id p u rows = Inr (child_rows p u rows)"
  by (auto simp: get_folders_by_parent_id_and_user_id_def validate_all_Inr set_child_rows all_named_def list_all_iff)

lemma child_rows_edge: "row_ids (child_rows (Some p) u rows) = child_edge rows u `` {p}"
  by (auto simp: row_ids_def set_child_rows child_edge_def)

text \<open>
  What a walk from a list of folders has done when it ends: it has seen the list, nothing that
  is not below it, and all the children of what it has seen.
\<close>

definition walked :: "(string \<times> string) set \<Rightarrow> string set \<Rightarrow> string set \<Rightarrow> string set \<Rightarrow> bool" where
  "walked E seen start seen' \<longleftrightarrow> seen \<union> start \<subseteq> seen' \<and> seen' \<subseteq> seen \<union> E\<^sup>* `` start \<and> (\<forall>x \<in> seen' - seen. E `` {x} \<subseteq> seen')"

lemma walked_done: "walked E seen {} seen"
  by (simp add: walked_def)

lemma walked_skip: "c \<in> seen \<Longrightarrow> walked E seen cs seen' \<Longrightarrow> walked E seen (insert c cs) seen'"
  by (auto simp: walked_def)

lemma walked_step:
  assumes inner: "walked E (insert c seen) kids s1" and "kids \<subseteq> E `` {c}" "E `` {c} \<subseteq> kids \<union> seen" and outer: "walked E s1 cs seen'"
  shows "walked E seen (insert c cs) seen'"
proof -
  have "E\<^sup>* `` kids \<subseteq> E\<^sup>* `` {c}" using assms(2) by (auto intro: converse_rtrancl_into_rtrancl)
  then have below: "s1 \<subseteq> insert c seen \<union> E\<^sup>* `` {c}" using inner unfolding walked_def by blast
  have c: "E `` {c} \<subseteq> s1" using assms(3) inner unfolding walked_def by blast
  have sub: "insert c seen \<subseteq> s1" "s1 \<subseteq> seen'" "cs \<subseteq> seen'" and out: "seen' \<subseteq> s1 \<union> E\<^sup>* `` cs" using inner outer unfolding walked_def by blast+
  show ?thesis
    unfolding walked_def
  proof (intro conjI ballI)
    show "seen \<union> insert c cs \<subseteq> seen'" using sub by blast
    show "seen' \<subseteq> seen \<union> E\<^sup>* `` insert c cs" using below out by blast
    fix x assume "x \<in> seen' - seen"
    then consider "x = c" | "x \<in> s1 - insert c seen" | "x \<in> seen' - s1" by blast
    then show "E `` {x} \<subseteq> seen'"
    proof cases
      case 1
      with c sub(2) show ?thesis by blast
    next
      case 2
      with inner have "E `` {x} \<subseteq> s1" unfolding walked_def by blast
      with sub(2) show ?thesis by blast
    next
      case 3
      with outer show ?thesis unfolding walked_def by blast
    qed
  qed
qed

lemma walked_closure:
  assumes "walked E {i} (E `` {i}) seen'"
  shows "seen' = E\<^sup>* `` {i}"
proof
  show "seen' \<subseteq> E\<^sup>* `` {i}" using assms by (auto simp: walked_def intro: converse_rtrancl_into_rtrancl)
  have closed: "E `` {x} \<subseteq> seen'" if "x \<in> seen'" for x using assms that by (cases "x = i") (auto simp: walked_def)
  show "E\<^sup>* `` {i} \<subseteq> seen'"
  proof clarify
    fix x assume "(i, x) \<in> E\<^sup>*"
    then show "x \<in> seen'" by (induction rule: rtrancl_induct) (use assms closed in \<open>auto simp: walked_def\<close>)
  qed
qed

lemma children_loop_walks:
  assumes "all_named rows u" "set cs \<subseteq> set rows"
  shows "\<exists>seen' zs. children_loop rows u seen acc cs = Inr (seen', acc @ zs) \<and> walked (child_edge rows u) (set seen) (row_ids cs) (set seen')
    \<and> row_ids zs = set seen' - set seen \<and> set zs \<subseteq> set rows"
  using assms
proof (induction rows u seen acc cs rule: children_loop.induct)
  case (1 rows u seen acc)
  show ?case by (auto simp: row_ids_def walked_done)
next
  case (2 rows u seen acc c cs)
  show ?case
  proof (cases "List.member seen (fo_id c)")
    case True
    with 2(1) 2(4,5) show ?thesis by (auto simp: row_ids_def intro: walked_skip)
  next
    case False
    let ?E = "child_edge rows u" and ?kids = "child_rows (Some (fo_id c)) u rows"
    have k: "get_folders_by_parent_id_and_user_id (Some (fo_id c)) u rows = Inr ?kids" using 2(4) by (rule named_children)
    have "set ?kids \<subseteq> set rows" by (auto simp: set_child_rows)
    from 2(2) [OF False k 2(4) this] obtain s1 z1 where i: "children_loop rows u (fo_id c # seen) acc ?kids = Inr (s1, acc @ z1)"
      and w1: "walked ?E (insert (fo_id c) (set seen)) (row_ids ?kids) (set s1)" and z1: "row_ids z1 = set s1 - set (fo_id c # seen)" "set z1 \<subseteq> set rows"
      by auto
    from 2(3) [OF False k i refl 2(4)] 2(5) obtain s2 z2 where o: "children_loop rows u s1 ((acc @ z1) @ [c]) cs = Inr (s2, ((acc @ z1) @ [c]) @ z2)"
      and w2: "walked ?E (set s1) (row_ids cs) (set s2)" and z2: "row_ids z2 = set s2 - set s1" "set z2 \<subseteq> set rows" by auto
    have "walked ?E (set seen) (insert (fo_id c) (row_ids cs)) (set s2)"
      by (rule walked_step [OF w1 _ _ w2]) (auto simp: child_rows_edge)
    moreover have "row_ids (z1 @ [c] @ z2) = set s2 - set seen"
      using z1 z2 w1 w2 False by (auto simp: row_ids_def walked_def image_Un)
    ultimately show ?thesis using False i k o z1 z2 2(5) by (auto simp: row_ids_def)
  qed
qed

lemma delete_loop_walks:
  assumes "all_named rows0 u" "rows = filter (\<lambda>r. fo_id r \<notin> D) rows0" "D \<subseteq> set seen" "set cs \<subseteq> set rows0"
  shows "\<exists>seen' ids' rows'. delete_loop u seen ids rows cs = (Inr (seen', ids'), rows') \<and> walked (child_edge rows0 u) (set seen) (row_ids cs) (set seen')
    \<and> set ids' = set ids \<union> (set seen' - set seen) \<and> rows' = filter (\<lambda>r. fo_id r \<notin> D \<union> (set seen' - set seen)) rows0"
  using assms
proof (induction u seen ids rows cs arbitrary: D rule: delete_loop.induct)
  case (1 u seen ids rows)
  then show ?case by (auto simp: row_ids_def walked_done)
next
  case (2 u seen ids rows c cs)
  show ?case
  proof (cases "List.member seen (fo_id c)")
    case True
    from 2(1) [OF True 2(4,5,6)] 2(7) obtain s' i' r' where "delete_loop u seen ids rows cs = (Inr (s', i'), r')"
      "walked (child_edge rows0 u) (set seen) (row_ids cs) (set s')" "set i' = set ids \<union> (set s' - set seen)"
      "r' = filter (\<lambda>r. fo_id r \<notin> D \<union> (set s' - set seen)) rows0" by auto
    then show ?thesis using True by (auto simp: row_ids_def intro: walked_skip)
  next
    case False
    let ?E = "child_edge rows0 u" and ?kids = "child_rows (Some (fo_id c)) u rows"
    have "all_named rows u" using 2(4,5) by (auto simp: all_named_def list_all_iff)
    then have k: "get_folders_by_parent_id_and_user_id (Some (fo_id c)) u rows = Inr ?kids" by (rule named_children)
    have kids: "set ?kids \<subseteq> set rows0" using 2(5) by (auto simp: set_child_rows)
    from 2(2) [OF False k 2(4,5) _ kids] 2(6) obtain s1 i1 r1
      where i: "delete_loop u (fo_id c # seen) ids rows ?kids = (Inr (s1, i1), r1)"
      and w1: "walked ?E (insert (fo_id c) (set seen)) (row_ids ?kids) (set s1)" and i1: "set i1 = set ids \<union> (set s1 - set (fo_id c # seen))"
      and r1: "r1 = filter (\<lambda>r. fo_id r \<notin> D \<union> (set s1 - set (fo_id c # seen))) rows0" by auto
    have c: "fo_id c \<in> set s1" "set seen \<subseteq> set s1" using w1 by (auto simp: walked_def)
    have r: "remove_row (fo_id c) r1 = filter (\<lambda>r. fo_id r \<notin> D \<union> (set s1 - set seen)) rows0"
      unfolding r1 remove_row_def filter_filter by (rule filter_cong) (use c False in auto)
    have "D \<union> (set s1 - set seen) \<subseteq> set s1" using 2(6) c by auto
    from 2(3) [OF False k i [symmetric] refl refl 2(4) r this] 2(7) obtain s2 i2 r2
      where o: "delete_loop u s1 (i1 @ [fo_id c]) (remove_row (fo_id c) r1) cs = (Inr (s2, i2), r2)"
      and w2: "walked ?E (set s1) (row_ids cs) (set s2)" and i2: "set i2 = set (i1 @ [fo_id c]) \<union> (set s2 - set s1)"
      and r2: "r2 = filter (\<lambda>r. fo_id r \<notin> (D \<union> (set s1 - set seen)) \<union> (set s2 - set s1)) rows0" by auto
    have "row_ids ?kids \<subseteq> ?E `` {fo_id c}" "?E `` {fo_id c} \<subseteq> row_ids ?kids \<union> set seen"
      using 2(5,6) by (auto simp: row_ids_def set_child_rows child_edge_def)
    then have w: "walked ?E (set seen) (insert (fo_id c) (row_ids cs)) (set s2)" by (rule walked_step [OF w1 _ _ w2])
    have s: "set s1 \<subseteq> set s2" using w2 by (auto simp: walked_def)
    have "set i2 = set ids \<union> (set s2 - set seen)" using i1 i2 c s False by auto
    moreover have "r2 = filter (\<lambda>r. fo_id r \<notin> D \<union> (set s2 - set seen)) rows0"
      unfolding r2 by (rule filter_cong) (use c s in auto)
    ultimately show ?thesis using False i k o w by (simp add: row_ids_def)
  qed
qed

lemma subtree_loop_walks:
  assumes "all_named rows u" "row_ids stack \<subseteq> set ids" "\<forall>x \<in> set ids - row_ids stack. child_edge rows u `` {x} \<subseteq> set ids"
  shows "\<exists>ids'. subtree_loop rows u ids stack = Inr ids' \<and> set ids \<subseteq> set ids' \<and> set ids' \<subseteq> (child_edge rows u)\<^sup>* `` set ids
    \<and> (\<forall>x \<in> set ids'. child_edge rows u `` {x} \<subseteq> set ids')"
  using assms
proof (induction rows u ids stack rule: subtree_loop.induct)
  case (1 rows u ids)
  then show ?case by (auto simp: row_ids_def)
next
  case (2 rows u ids f stack)
  let ?E = "child_edge rows u" and ?kids = "child_rows (Some (fo_id f)) u rows"
  have k: "get_folders_by_parent_id_and_user_id (Some (fo_id f)) u rows = Inr ?kids" using 2(2) by (rule named_children)
  obtain ids1 stack1 where push: "push_children ?kids ids stack = (ids1, stack1)" by force
  have ids1: "set ids1 = set ids \<union> ?E `` {fo_id f}" and st: "row_ids stack1 = row_ids stack \<union> (set ids1 - set ids)"
    using push_children_ids [OF push] by (simp_all add: child_rows_edge)
  have "row_ids stack1 \<subseteq> set ids1" using 2(3) st ids1 by (auto simp: row_ids_def)
  moreover have "\<forall>x \<in> set ids1 - row_ids stack1. ?E `` {x} \<subseteq> set ids1"
  proof
    fix x assume x: "x \<in> set ids1 - row_ids stack1"
    then have "x = fo_id f \<or> x \<in> set ids - row_ids (f # stack)" using st ids1 by (auto simp: row_ids_def)
    then show "?E `` {x} \<subseteq> set ids1" using 2(4) ids1 by auto
  qed
  ultimately obtain ids' where r: "subtree_loop rows u ids1 stack1 = Inr ids'" and s: "set ids1 \<subseteq> set ids'" "set ids' \<subseteq> ?E\<^sup>* `` set ids1"
    "\<forall>x \<in> set ids'. ?E `` {x} \<subseteq> set ids'" using 2(1) [OF k push [symmetric] 2(2)] by auto
  have "fo_id f \<in> set ids" using 2(3) by (auto simp: row_ids_def)
  then have "?E\<^sup>* `` set ids1 \<subseteq> ?E\<^sup>* `` set ids" unfolding ids1 by (auto intro: converse_rtrancl_into_rtrancl)
  then show ?case using r s ids1 k push by auto
qed

lemma select_folder_id: "select_folder i u rows = Some f \<Longrightarrow> f \<in> set rows \<and> fo_id f = i \<and> fo_user_id f = u"
  by (auto simp: select_folder_def find_Some_iff)

lemma subtree_ids_exact:
  assumes f: "select_folder i u rows = Some f" and named: "all_named rows u"
  shows "\<exists>ids. get_folder_ids_by_id_and_user_id_in_subtree i u rows = Inr ids \<and> set ids = (child_edge rows u)\<^sup>* `` {i}"
proof -
  let ?E = "child_edge rows u"
  have i: "fo_id f = i" "fo_name f \<noteq> None" using select_folder_id [OF f] named by (auto simp: all_named_def list_all_iff)
  obtain ids where s: "subtree_loop rows u [i] [f] = Inr ids" "i \<in> set ids" "set ids \<subseteq> ?E\<^sup>* `` {i}" "\<forall>x \<in> set ids. ?E `` {x} \<subseteq> set ids"
    using subtree_loop_walks [OF named, of "[f]" "[i]"] by (auto simp: row_ids_def i)
  have "walked ?E {i} (?E `` {i}) (set ids)"
  proof -
    have "?E\<^sup>* `` {i} \<subseteq> {i} \<union> ?E\<^sup>* `` (?E `` {i})" by (auto elim: converse_rtranclE)
    with s show ?thesis unfolding walked_def by blast
  qed
  then have "set ids = ?E\<^sup>* `` {i}" by (rule walked_closure)
  with s(1) show ?thesis by (simp add: get_folder_ids_by_id_and_user_id_in_subtree_def f i FolderModel_validate_def)
qed

text \<open>C29: When every folder of the user has a name (a folder without one fails validation, and the walk that meets it stops), then for a
  folder of the user the ids of its subtree, its children at every level and what deleting it
  deletes are the same folders: exactly those that a chain of parents of that user leads to,
  each reached even when the parents loop. The deletion leaves every other row as it was.\<close>

theorem folder_walks_agree:
  assumes f: "select_folder i u rows = Some f" and named: "all_named rows u"
  shows "(\<exists>ids. get_folder_ids_by_id_and_user_id_in_subtree i u rows = Inr ids \<and> set ids = (child_edge rows u)\<^sup>* `` {i})
    \<and> (\<exists>kids. get_children_folders_by_id_and_user_id i u rows = Some kids \<and> row_ids kids = (child_edge rows u)\<^sup>* `` {i} - {i})
    \<and> set (fst (delete_folder_by_id_and_user_id i u rows)) = (child_edge rows u)\<^sup>* `` {i}
    \<and> snd (delete_folder_by_id_and_user_id i u rows) = filter (\<lambda>r. fo_id r \<notin> (child_edge rows u)\<^sup>* `` {i}) rows"
proof -
  let ?E = "child_edge rows u" and ?kids = "child_rows (Some i) u rows"
  have i: "fo_id f = i" using select_folder_id [OF f] by simp
  have kids: "set ?kids \<subseteq> set rows" by (auto simp: set_child_rows)
  obtain s1 zs where c: "children_loop rows u [i] [] ?kids = Inr (s1, zs)" and w: "walked ?E {i} (?E `` {i}) (set s1)" and z: "row_ids zs = set s1 - {i}"
    using children_loop_walks [OF named kids, of "[i]" "[]"] by (auto simp: child_rows_edge)
  have "rows = filter (\<lambda>r. fo_id r \<notin> {}) rows" by simp
  from delete_loop_walks [OF named this _ kids, of "[i]" "[i]"] obtain s2 i2 r2
    where d: "delete_loop u [i] [i] rows ?kids = (Inr (s2, i2), r2)" and w2: "walked ?E {i} (?E `` {i}) (set s2)"
      and i2: "set i2 = {i} \<union> (set s2 - {i})" and r2: "r2 = filter (\<lambda>r. fo_id r \<notin> set s2 - {i}) rows"
    by (auto simp: child_rows_edge)
  have "i \<in> set s2" using w2 by (auto simp: walked_def)
  then have "set i2 = set s2" "remove_row i r2 = filter (\<lambda>r. fo_id r \<notin> set s2) rows"
    using i2 unfolding r2 remove_row_def filter_filter by (auto intro: filter_cong)
  with walked_closure [OF w] walked_closure [OF w2] z subtree_ids_exact [OF f named] c d show ?thesis
    by (simp add: get_children_folders_by_id_and_user_id_def delete_folder_by_id_and_user_id_def f i named_children [OF named] caught_none_def)
qed

definition sample_folder :: "string \<Rightarrow> string option \<Rightarrow> string \<Rightarrow> folder_row" where
  "sample_folder i parent u = \<lparr>fo_id = i, fo_parent_id = parent, fo_user_id = u, fo_name = Some i, fo_items = None, fo_meta = None,
     fo_data = None, fo_is_expanded = False, fo_created_at = 1, fo_updated_at = 1\<rparr>"

text \<open>\<open>a\<close> and \<open>b\<close> are each other's parent, \<open>c\<close> is below \<open>b\<close>, \<open>d\<close> below \<open>b\<close> belongs to someone else.\<close>

definition sample_folders :: folders where
  "sample_folders = [sample_folder ''a'' (Some ''b'') ''u'', sample_folder ''b'' (Some ''a'') ''u'', sample_folder ''c'' (Some ''b'') ''u'',
     sample_folder ''d'' (Some ''b'') ''v'']"

lemma folder_walks_agree_witness:
  "snd (delete_folder_by_id_and_user_id ''a'' ''u'' sample_folders) = [sample_folder ''d'' (Some ''b'') ''v'']"
proof -
  let ?E = "child_edge sample_folders ''u''"
  have E: "?E = {(''b'', ''a''), (''a'', ''b''), (''b'', ''c'')}"
    by (auto simp: child_edge_def sample_folders_def sample_folder_def)
  have reach: "?E\<^sup>* `` {''a''} = {''a'', ''b'', ''c''}"
  proof
    show "?E\<^sup>* `` {''a''} \<subseteq> {''a'', ''b'', ''c''}"
    proof
      fix x assume "x \<in> ?E\<^sup>* `` {''a''}"
      then have "(''a'', x) \<in> ?E\<^sup>*" by simp
      then show "x \<in> {''a'', ''b'', ''c''}" by (induction rule: rtrancl_induct) (auto simp: E)
    qed
    have "(''a'', ''b'') \<in> ?E" "(''b'', ''c'') \<in> ?E" by (simp_all add: E)
    then show "{''a'', ''b'', ''c''} \<subseteq> ?E\<^sup>* `` {''a''}" by (auto intro: rtrancl.intros)
  qed
  have f: "select_folder ''a'' ''u'' sample_folders = Some (sample_folder ''a'' (Some ''b'') ''u'')"
    and n: "all_named sample_folders ''u''"
    by (simp_all add: select_folder_def all_named_def sample_folders_def sample_folder_def)
  from folder_walks_agree [OF f n] show ?thesis
    unfolding reach by (simp add: sample_folders_def sample_folder_def)
qed

subsection \<open>Access is inherited from the ancestors\<close>

inductive ancestor :: "folders \<Rightarrow> folder_row \<Rightarrow> folder_row \<Rightarrow> bool" for rows where
  anc_self: "ancestor rows f f"
| anc_parent: "fo_parent_id f = Some p \<Longrightarrow> p \<noteq> [] \<Longrightarrow> get_folder_by_id p rows = Some g \<Longrightarrow> ancestor rows g h \<Longrightarrow> ancestor rows f h"

inductive_cases ancestorE: "ancestor rows f h"

definition parent_of :: "folders \<Rightarrow> folder_row \<Rightarrow> folder_row option" where
  "parent_of rows f = (case fo_parent_id f of None \<Rightarrow> None | Some p \<Rightarrow> if p = [] then None else get_folder_by_id p rows)"

lemma ancestor_unfold: "ancestor rows f h \<longleftrightarrow> h = f \<or> (\<exists>g. parent_of rows f = Some g \<and> ancestor rows g h)"
  by (auto simp: parent_of_def elim: ancestorE intro: ancestor.intros split: option.splits if_splits)

lemma folder_access_loop_Some:
  "folder_access_loop allowed rows seen (Some f) =
     (if fo_id f \<in> set seen then False else if allowed f then True else folder_access_loop allowed rows (fo_id f # seen) (parent_of rows f))"
  by (simp add: parent_of_def)

lemma ancestor_closed:
  assumes "ancestor rows f h" "f \<in> V" "\<forall>v \<in> V. \<forall>w. parent_of rows v = Some w \<longrightarrow> w \<in> V"
  shows "h \<in> V"
  using assms
proof (induction rule: ancestor.induct)
  case (anc_parent f p g h)
  then have "parent_of rows f = Some g" by (simp add: parent_of_def)
  with anc_parent show ?case by blast
qed simp

lemma folder_access_loop_ancestors:
  assumes "distinct (map fo_id rows)" "V \<subseteq> set rows" "fo_id ` V = set seen" "\<forall>v \<in> V. \<not> allowed v"
    and "\<forall>v \<in> V. \<forall>w. parent_of rows v = Some w \<longrightarrow> w \<in> V \<or> Some w = x" "case x of None \<Rightarrow> True | Some f \<Rightarrow> f \<in> set rows"
  shows "folder_access_loop allowed rows seen x \<longleftrightarrow> (case x of None \<Rightarrow> False | Some f \<Rightarrow> (\<exists>g. ancestor rows f g \<and> allowed g))"
  using assms
proof (induction allowed rows seen x arbitrary: V rule: folder_access_loop.induct)
  case (2 allowed rows seen f)
  have f: "f \<in> set rows" using 2(7) by simp
  show ?case
  proof (cases "fo_id f \<in> set seen")
    case True
    then obtain v where v: "v \<in> V" "fo_id v = fo_id f" using 2(4) by (metis imageE)
    have "inj_on fo_id (set rows)" using 2(2) by (simp add: distinct_map)
    then have "f \<in> V" using v 2(3) f by (metis inj_onD subsetD)
    then have "\<not> (\<exists>g. ancestor rows f g \<and> allowed g)" using ancestor_closed [of rows f _ V] 2(5,6) by auto
    with True show ?thesis by simp
  next
    case new: False
    show ?thesis
    proof (cases "allowed f")
      case True
      with new show ?thesis by (auto intro: anc_self)
    next
      case False
      let ?V = "insert f V"
      have next_in: "case parent_of rows f of None \<Rightarrow> True | Some g \<Rightarrow> g \<in> set rows"
        by (auto simp: parent_of_def dest: get_folder_by_id_Some split: option.splits if_splits)
      have "folder_access_loop allowed rows (fo_id f # seen) (parent_of rows f)
          \<longleftrightarrow> (case parent_of rows f of None \<Rightarrow> False | Some g \<Rightarrow> (\<exists>h. ancestor rows g h \<and> allowed h))"
        by (rule 2(1) [folded parent_of_def, of ?V]) (use 2(2-7) new False f next_in in auto)
      then show ?thesis using new False by (auto simp: folder_access_loop_Some ancestor_unfold [of rows f] split: option.splits simp del: folder_access_loop.simps)
    qed
  qed
qed simp

text \<open>C4: A user has access to a folder exactly when the user owns it or one of its ancestors, or holds a
  grant of the permission on one of them; the check ends with that answer whatever the
  parents are, loops included.\<close>

theorem folder_access_by_ancestors:
  assumes "distinct (map fo_id rows)" "f \<in> set rows"
  shows "has_folder_access gdb t rows u f perm \<longleftrightarrow>
    (\<exists>g. ancestor rows f g \<and> (fo_user_id g = u \<or> has_access gdb t u ''folder'' (fo_id g) perm None))"
  unfolding has_folder_access_def
  by (subst folder_access_loop_ancestors [of _ "{}"]) (use assms in simp_all)

lemma folder_access_by_ancestors_witness:
  "has_folder_access sample_groups [make_grant ''x'' 5 (''folder'', ''a'', ''user'', ''w'', ''read'')] sample_folders ''w'' (sample_folder ''c'' (Some ''b'') ''u'') ''read''"
proof -
  let ?rows = sample_folders and ?t = "[make_grant ''x'' 5 (''folder'', ''a'', ''user'', ''w'', ''read'')]"
  have d: "distinct (map fo_id ?rows)" and c: "sample_folder ''c'' (Some ''b'') ''u'' \<in> set ?rows"
    by (simp_all add: sample_folders_def sample_folder_def)
  have p: "get_folder_by_id ''b'' ?rows = Some (sample_folder ''b'' (Some ''a'') ''u'')"
    "get_folder_by_id ''a'' ?rows = Some (sample_folder ''a'' (Some ''b'') ''u'')"
    by (simp_all add: get_folder_by_id_def sample_folders_def sample_folder_def caught_none_def FolderModel_validate_def)
  have "ancestor ?rows (sample_folder ''c'' (Some ''b'') ''u'') (sample_folder ''a'' (Some ''b'') ''u'')"
    by (rule anc_parent [OF _ _ p(1)], simp add: sample_folder_def, simp, rule anc_parent [OF _ _ p(2)], simp add: sample_folder_def, simp, rule anc_self)
  moreover have "has_access sample_groups ?t ''w'' ''folder'' (fo_id (sample_folder ''a'' (Some ''b'') ''u'')) ''read'' None"
    by (simp add: has_access_iff permitted_def grant_keys_def sample_folder_def)
  ultimately show ?thesis using folder_access_by_ancestors [OF d c] by blast
qed

subsection \<open>Names that are NULL\<close>

text \<open>Setting the name of a folder to \<open>null\<close> reports failure and yet commits the row: from then on the list
  of the owner's folders raises, whichever of the folders are asked for.\<close>

theorem null_name_breaks_listing:
  assumes f: "select_folder i u rows = Some f" and named: "all_named rows u"
  shows "fst (update_folder_by_id_and_user_id now i u \<lparr>fu_name = Some None, fu_data = None, fu_meta = None\<rparr> rows) = None
    \<and> get_folders_by_user_id u (snd (update_folder_by_id_and_user_id now i u \<lparr>fu_name = Some None, fu_data = None, fu_meta = None\<rparr> rows))
        = Inl FolderValidationError"
proof -
  let ?f = "f\<lparr>fo_name := None, fo_data := fo_data f, fo_meta := fo_meta f, fo_updated_at := now\<rparr>"
  have "find (\<lambda>r. fo_name r = None \<and> fo_parent_id r = fo_parent_id f \<and> fo_user_id r = u) rows = None"
    using named by (auto simp: find_None_iff all_named_def list_all_iff)
  then have upd: "update_folder_by_id_and_user_id now i u \<lparr>fu_name = Some None, fu_data = None, fu_meta = None\<rparr> rows = (None, put_folder i ?f rows)"
    by (simp add: update_folder_by_id_and_user_id_def f Let_def merged_field_def FolderModel_validate_def caught_none_def)
  have "?f \<in> set (filter (\<lambda>r. fo_user_id r = u) (put_folder i ?f rows))"
    using select_folder_id [OF f] by (force simp: put_folder_def)
  moreover have "fo_name ?f = None" by simp
  ultimately have "validate_all (filter (\<lambda>r. fo_user_id r = u) (put_folder i ?f rows)) \<noteq> Inr ms" for ms
    unfolding validate_all_Inr by metis
  moreover have "validate_all rs = Inl e \<Longrightarrow> e = FolderValidationError" for rs e
    by (induction rs arbitrary: e) (auto simp: FolderModel_validate_def rbind_def split: if_splits sum.splits)
  ultimately have "validate_all (filter (\<lambda>r. fo_user_id r = u) (put_folder i ?f rows)) = Inl FolderValidationError"
    by (metis sum.exhaust)
  then show ?thesis unfolding upd get_folders_by_user_id_def by simp
qed

lemma null_name_breaks_listing_witness:
  "get_folders_by_user_id ''u'' (snd (update_folder_by_id_and_user_id 9 ''c'' ''u'' \<lparr>fu_name = Some None, fu_data = None, fu_meta = None\<rparr> sample_folders))
     = Inl FolderValidationError"
proof -
  have "select_folder ''c'' ''u'' sample_folders = Some (sample_folder ''c'' (Some ''b'') ''u'')" "all_named sample_folders ''u''"
    by (simp_all add: select_folder_def all_named_def sample_folders_def sample_folder_def)
  from null_name_breaks_listing [OF this] show ?thesis by blast
qed

end
