(* ===== verification/User_Permissions.thy ===== *)
theory User_Permissions
  imports Access_Grants
begin

section \<open>Permissions of users and grants kept in configuration (utils/access\_control/\_\_init\_\_.py)\<close>

text \<open>
  Permissions are nested dictionaries with booleans at the leaves; a user has those of the defaults
  and of every group. The groups of a user are the rows of \<open>get_groups_by_member_id\<close>. The
  functions update their first argument in place; the model returns it. \<open>JSONCodec.loads(JSONCodec.dumps(v))\<close>
  is a copy of the JSON value \<open>v\<close>. \<open>base\<close> is \<open>config.DEFAULT_USER_PERMISSIONS\<close>, whose values come from
  the environment.
\<close>

datatype access_error = AccessTypeError | AccessAttributeError

subsection \<open>Combining permissions\<close>

function fill_missing_permissions :: "(string, pyval) dict \<Rightarrow> (string, pyval) dict \<Rightarrow> (string, pyval) dict" where
  "fill_missing_permissions permissions [] = permissions"
| "fill_missing_permissions permissions ((key, v) # defaults) =
     fill_missing_permissions
       (case map_of permissions key of
          None \<Rightarrow> AList.update key v permissions
        | Some w \<Rightarrow> (case as_dict v of
            None \<Rightarrow> permissions
          | Some dv \<Rightarrow> (case as_dict w of
              None \<Rightarrow> permissions
            | Some dw \<Rightarrow> AList.update key (PDict (fill_missing_permissions dw dv)) permissions))) defaults"
  by pat_completeness auto

termination fill_missing_permissions
  by (relation "measure (\<lambda>(p, d). size (PDict d))") auto

text \<open>\<open>combine_permissions\<close>; a value that is not a dictionary refuses the first item.\<close>

function combine_permissions :: "pyval \<Rightarrow> (string, pyval) dict \<Rightarrow> (access_error, pyval) result" where
  "combine_permissions permissions [] = Inr permissions"
| "combine_permissions permissions ((key, v) # group_permissions) = (case as_dict permissions of
      None \<Rightarrow> Inl AccessTypeError
    | Some p \<Rightarrow> (case as_dict v of
        Some dv \<Rightarrow> (case combine_permissions (case map_of p key of None \<Rightarrow> PDict [] | Some w \<Rightarrow> w) dv of
            Inl e \<Rightarrow> Inl e
          | Inr r \<Rightarrow> combine_permissions (PDict (AList.update key r p)) group_permissions)
      | None \<Rightarrow> combine_permissions (PDict (AList.update key (case map_of p key of None \<Rightarrow> v | Some w \<Rightarrow> py_or w v) p)) group_permissions))"
  by pat_completeness auto

termination combine_permissions
  by (relation "measure (\<lambda>(p, d). size (PDict d))") auto

definition group_permissions :: "group_row \<Rightarrow> (string, pyval) dict" where
  "group_permissions g = (case grp_permissions g of None \<Rightarrow> [] | Some p \<Rightarrow> p)"

fun combine_groups :: "pyval \<Rightarrow> group_row list \<Rightarrow> (access_error, pyval) result" where
  "combine_groups permissions [] = Inr permissions"
| "combine_groups permissions (g # gs) = rbind (combine_permissions permissions (group_permissions g)) (\<lambda>p. combine_groups p gs)"

definition get_permissions :: "groups_db \<Rightarrow> string \<Rightarrow> (string, pyval) dict \<Rightarrow> (access_error, (string, pyval) dict) result" where
  "get_permissions gdb user_id default_permissions =
     rbind (combine_groups (PDict default_permissions) (get_groups_by_member_id user_id gdb)) (\<lambda>p. case p of
         PDict d \<Rightarrow> Inr (fill_missing_permissions d default_permissions)
       | _ \<Rightarrow> Inl AccessTypeError)"

subsection \<open>Asking for one permission\<close>

text \<open>\<open>key not in permissions\<close> and \<open>permissions[key]\<close> on whatever the path has led to.\<close>

fun get_permission :: "pyval \<Rightarrow> string list \<Rightarrow> (access_error, bool) result" where
  "get_permission v [] = Inr (py_truthy v)"
| "get_permission v (k # ks) = (case v of
      PDict d \<Rightarrow> (case map_of d k of None \<Rightarrow> Inr False | Some w \<Rightarrow> get_permission w ks)
    | PStr s \<Rightarrow> if substr_in k s then Inl AccessTypeError else Inr False
    | PList l \<Rightarrow> if List.member l (PStr k) then Inl AccessTypeError else Inr False
    | PTuple l \<Rightarrow> if List.member l (PStr k) then Inl AccessTypeError else Inr False
    | _ \<Rightarrow> Inl AccessTypeError)"

fun any_group_permits :: "group_row list \<Rightarrow> string list \<Rightarrow> (access_error, bool) result" where
  "any_group_permits [] path = Inr False"
| "any_group_permits (g # gs) path =
     rbind (get_permission (PDict (group_permissions g)) path) (\<lambda>b. if b then Inr True else any_group_permits gs path)"

text \<open>\<open>permission_key\<close> is \<open>None\<close> where a caller passes \<open>None\<close>: then \<open>split\<close> raises.\<close>

definition user_has_permission ::
  "(string, pyval) dict \<Rightarrow> groups_db \<Rightarrow> string \<Rightarrow> string option \<Rightarrow> (string, pyval) dict \<Rightarrow> (access_error, bool) result" where
  "user_has_permission base gdb user_id permission_key default_permissions = (case permission_key of
      None \<Rightarrow> Inl AccessAttributeError
    | Some key \<Rightarrow>
        let path = split_on (CHR ''.'') key
        in rbind (any_group_permits (get_groups_by_member_id user_id gdb) path) (\<lambda>b.
             if b then Inr True else get_permission (PDict (fill_missing_permissions default_permissions base)) path))"

subsection \<open>Grants kept as JSON\<close>

fun hashable :: "pyval \<Rightarrow> bool" where
  "hashable (PList l) = False"
| "hashable (PDict d) = False"
| "hashable (PTuple l) = list_all hashable l"
| "hashable v = True"

fun list_access :: "string \<Rightarrow> string \<Rightarrow> string list \<Rightarrow> pyval list \<Rightarrow> (access_error, bool) result" where
  "list_access user_id permission group_ids [] = Inr False"
| "list_access user_id permission group_ids (grant # grants) = (case as_dict grant of
      None \<Rightarrow> list_access user_id permission group_ids grants
    | Some g \<Rightarrow>
        if \<not> py_eq_str (pget g ''permission'') permission then list_access user_id permission group_ids grants
        else if py_eq_str (pget g ''principal_type'') ''user''
                \<and> (py_eq_str (pget g ''principal_id'') ''*'' \<or> py_eq_str (pget g ''principal_id'') user_id) then Inr True
        else if py_eq_str (pget g ''principal_type'') ''group'' \<and> group_ids \<noteq> []
        then (if \<not> hashable (pget g ''principal_id'') then Inl AccessTypeError
              else if list_ex (py_eq_str (pget g ''principal_id'')) group_ids then Inr True
              else list_access user_id permission group_ids grants)
        else list_access user_id permission group_ids grants)"

definition has_listed_access ::
  "groups_db \<Rightarrow> string \<Rightarrow> string \<Rightarrow> pyval \<Rightarrow> string list option \<Rightarrow> (access_error, bool) result" where
  "has_listed_access gdb user_id permission access_grants user_group_ids =
     (if \<not> py_truthy access_grants then Inr False
      else case py_iter access_grants of
        Inl _ \<Rightarrow> Inl AccessTypeError
      | Inr grants \<Rightarrow> list_access user_id permission (resolve_groups gdb user_id user_group_ids) grants)"

definition has_connection_access ::
  "bool \<Rightarrow> groups_db \<Rightarrow> user_account \<Rightarrow> (string, pyval) dict \<Rightarrow> string list option \<Rightarrow> (access_error, bool) result" where
  "has_connection_access bypass_admin gdb user connection user_group_ids =
     (if acc_role user = ''admin'' \<and> bypass_admin then Inr True
      else case as_dict (py_or (pget connection ''config'') (PDict [])) of
        None \<Rightarrow> Inl AccessAttributeError
      | Some config \<Rightarrow>
          let access_grants = get_default config ''access_grants'' (PList [])
          in if \<not> py_truthy access_grants then Inr (acc_role user = ''admin'')
             else has_listed_access gdb (acc_id user) ''read'' access_grants
                    (Some (resolve_groups gdb (acc_id user) user_group_ids)))"

definition grant_dict_value :: "grant_dict \<Rightarrow> pyval" where
  "grant_dict_value g = PDict [(''principal_type'', PStr (gd_principal_type g)), (''principal_id'', gd_principal_id g),
     (''permission'', PStr (gd_permission g))]"

definition migrate_access_control ::
  "string \<Rightarrow> string \<Rightarrow> (string, pyval) dict \<Rightarrow> (grant_error, (string, pyval) dict) result" where
  "migrate_access_control ac_key grants_key data =
     (if has_key data grants_key then Inr data
      else if \<not> has_key data ac_key then Inr data
      else rbind (case as_dict (pget data ac_key) of
             None \<Rightarrow> Inr []
           | Some ac \<Rightarrow> if ac = [] then Inr [] else both_permissions ac) (\<lambda>grants.
           Inr (AList.delete ac_key (AList.update grants_key (PList (map grant_dict_value grants)) data))))"

subsection \<open>Which grants a user may hand out\<close>

text \<open>One stage of the filter: look for a kind of grant, ask for the permission, strip the kind without it.\<close>

definition stage :: "bool \<Rightarrow> (access_error, bool) result \<Rightarrow> (grant_item list \<Rightarrow> grant_item list) \<Rightarrow> grant_item list \<Rightarrow> (access_error, grant_item list) result" where
  "stage present asked strip gs = rbind (if present then rbind asked (\<lambda>b. Inr (\<not> b)) else Inr False) (\<lambda>s. Inr (if s then strip gs else gs))"

definition not_public :: "grant_item \<Rightarrow> bool" where
  "not_public g \<longleftrightarrow> \<not> (py_eq_str (item_field g ''principal_type'') ''user'' \<and> py_eq_str (item_field g ''principal_id'') ''*'')"

definition is_group_item :: "grant_item \<Rightarrow> bool" where
  "is_group_item g = py_eq_str (item_field g ''principal_type'') ''group''"

text \<open>The body of \<open>filter_allowed_access_grants\<close>; \<open>permission\<close> asks for one permission of the user.\<close>

definition filter_allowed_with ::
  "(nat \<Rightarrow> string) \<Rightarrow> (string option \<Rightarrow> (access_error, bool) result) \<Rightarrow> string \<Rightarrow> grant_item list \<Rightarrow> string option \<Rightarrow> string option \<Rightarrow>
   (access_error, grant_item list) result" where
  "filter_allowed_with uuid permission user_role access_grants public_key anyone_key =
     (if access_grants = [] then Inr access_grants
      else
        rbind (stage (has_anyone_read_access_grant uuid access_grants)
                 (if anyone_key = None \<or> anyone_key = Some [] then Inr False
                  else if user_role = ''admin'' then Inr True else permission anyone_key)
                 strip_anyone_access_grants access_grants) (\<lambda>gs1.
        if user_role = ''admin'' then Inr gs1
        else
          rbind (stage (has_public_read_access_grant uuid gs1 \<or> has_public_write_access_grant uuid gs1)
                   (permission public_key) (filter not_public) gs1) (\<lambda>gs2.
          rbind (stage (has_user_access_grant uuid gs2) (permission (Some ''access_grants.allow_users'')) strip_user_access_grants gs2) (\<lambda>gs3.
          stage (list_ex is_group_item gs3) (permission (Some ''access_grants.allow_groups'')) (filter (\<lambda>g. \<not> is_group_item g)) gs3))))"

definition filter_allowed_access_grants ::
  "(nat \<Rightarrow> string) \<Rightarrow> (string, pyval) dict \<Rightarrow> groups_db \<Rightarrow> (string, pyval) dict \<Rightarrow> string \<Rightarrow> string \<Rightarrow> grant_item list \<Rightarrow> string option \<Rightarrow> string option \<Rightarrow>
   (access_error, grant_item list) result" where
  "filter_allowed_access_grants uuid base gdb default_permissions user_id user_role access_grants public_key anyone_key =
     filter_allowed_with uuid (\<lambda>key. user_has_permission base gdb user_id key default_permissions) user_role access_grants public_key anyone_key"

subsection \<open>No grant is handed out without its permission\<close>

lemma item_triple_fields:
  "item_triple it = Some (pt, pid, perm) \<Longrightarrow> item_field it ''principal_type'' = PStr pt \<and> item_field it ''principal_id'' = PStr pid"
  by (auto simp: item_triple_def item_field_def valid_grant_Some split: option.splits)

lemma normalized_has:
  "list_ex (is_grant pt pid perm) (normalize_access_grants uuid gs) \<longleftrightarrow> (\<exists>it \<in> set gs. item_triple it = Some (pt, pid, perm))"
proof -
  have "list_ex (is_grant pt pid perm) (normalize_access_grants uuid gs) \<longleftrightarrow> (pt, pid, perm) \<in> set (map response_triple (normalize_access_grants uuid gs))"
    by (auto simp: list_ex_iff is_grant_def response_triple_def)
  also have "\<dots> \<longleftrightarrow> (\<exists>it \<in> set gs. item_triple it = Some (pt, pid, perm))" unfolding normalize_triples(2) by simp
  finally show ?thesis .
qed

lemma normalized_has_user:
  "has_user_access_grant uuid gs \<longleftrightarrow> (\<exists>it \<in> set gs. \<exists>pid perm. item_triple it = Some (''user'', pid, perm) \<and> pid \<noteq> ''*'')"
proof -
  have "has_user_access_grant uuid gs \<longleftrightarrow> (\<exists>pid perm. pid \<noteq> ''*'' \<and> list_ex (is_grant ''user'' pid perm) (normalize_access_grants uuid gs))"
    by (auto simp: has_user_access_grant_def list_ex_iff is_grant_def)
  then show ?thesis unfolding normalized_has by blast
qed

lemma triple_permission: "item_triple it = Some (pt, pid, perm) \<Longrightarrow> perm = ''read'' \<or> perm = ''write''"
  by (auto simp: item_triple_def valid_grant_Some split: option.splits)

lemma anyone_triple: "item_triple it = Some (''anyone'', pid, perm) \<Longrightarrow> pid = ''*'' \<and> perm = ''read''"
  by (auto simp: item_triple_def valid_grant_Some split: option.splits)

text \<open>The permission that each kind of grant needs.\<close>

fun needed_key :: "string option \<Rightarrow> string option \<Rightarrow> string \<times> string \<times> string \<Rightarrow> string option" where
  "needed_key public_key anyone_key (pt, pid, perm) =
     (if pt = ''anyone'' then anyone_key
      else if pt = ''group'' then Some ''access_grants.allow_groups''
      else if pid = ''*'' then public_key
      else Some ''access_grants.allow_users'')"

lemma triple_type: "item_triple it = Some (pt, pid, perm) \<Longrightarrow> pt = ''user'' \<or> pt = ''group'' \<or> pt = ''anyone''"
  by (auto simp: item_triple_def valid_grant_Some split: option.splits)

lemma stage_Inr: "stage present asked strip gs = Inr gs' \<longleftrightarrow> (if present then asked = Inr True \<and> gs' = gs \<or> asked = Inr False \<and> gs' = strip gs else gs' = gs)"
  by (auto simp: stage_def rbind_Inr_iff split: if_splits)

lemma filter_allowed_needs:
  assumes r: "filter_allowed_with uuid permission role gs pk ak = Inr gs'" and it: "it \<in> set gs'"
    and tr: "item_triple it = Some tr" and role: "role \<noteq> ''admin''"
  shows "permission (needed_key pk ak tr) = Inr True"
proof -
  obtain pt pid perm where p: "tr = (pt, pid, perm)" by (cases tr)
  note tr = tr [unfolded p]
  note f = item_triple_fields [OF tr] and pt = triple_type [OF tr]
  have "gs \<noteq> []" using r it by (auto simp: filter_allowed_with_def)
  with r role obtain gs1 gs2 gs3 where
    s1: "stage (has_anyone_read_access_grant uuid gs) (if ak = None \<or> ak = Some [] then Inr False else permission ak) strip_anyone_access_grants gs = Inr gs1"
    and s2: "stage (has_public_read_access_grant uuid gs1 \<or> has_public_write_access_grant uuid gs1) (permission pk) (filter not_public) gs1 = Inr gs2"
    and s3: "stage (has_user_access_grant uuid gs2) (permission (Some ''access_grants.allow_users'')) strip_user_access_grants gs2 = Inr gs3"
    and s4: "stage (list_ex is_group_item gs3) (permission (Some ''access_grants.allow_groups'')) (filter (\<lambda>g. \<not> is_group_item g)) gs3 = Inr gs'"
    by (auto simp: filter_allowed_with_def rbind_Inr_iff cong: if_cong)
  have it3: "it \<in> set gs3" using s4 it by (auto simp: stage_Inr split: if_splits)
  have it2: "it \<in> set gs2" using s3 it3 by (auto simp: stage_Inr strip_user_access_grants_def split: if_splits)
  have it1: "it \<in> set gs1" using s2 it2 by (auto simp: stage_Inr split: if_splits)
  have it0: "it \<in> set gs" using s1 it1 by (auto simp: stage_Inr strip_anyone_access_grants_def split: if_splits)
  consider "pt = ''anyone''" | "pt = ''group''" | "pt = ''user''" "pid = ''*''" | "pt = ''user''" "pid \<noteq> ''*''" using pt by blast
  then show ?thesis
  proof cases
    case 1
    with anyone_triple tr it0 have "has_anyone_read_access_grant uuid gs" unfolding has_anyone_read_access_grant_def normalized_has by blast
    with s1 it1 f 1 show ?thesis by (auto simp: stage_Inr strip_anyone_access_grants_def p split: if_splits)
  next
    case 2
    with f it3 have "list_ex is_group_item gs3" by (auto simp: list_ex_iff is_group_item_def)
    with s4 it f 2 show ?thesis by (auto simp: stage_Inr is_group_item_def p split: if_splits)
  next
    case 3
    with triple_permission [OF tr] tr it1 have "has_public_read_access_grant uuid gs1 \<or> has_public_write_access_grant uuid gs1"
      unfolding has_public_read_access_grant_def has_public_write_access_grant_def normalized_has by blast
    with s2 it2 f 3 show ?thesis by (auto simp: stage_Inr not_public_def p split: if_splits)
  next
    case 4
    with tr it2 have "has_user_access_grant uuid gs2" unfolding normalized_has_user by blast
    with s3 it3 f 4 show ?thesis by (auto simp: stage_Inr strip_user_access_grants_def p split: if_splits)
  qed
qed

text \<open>C5: When a user who is not an admin shares a resource, every grant that ends up in the table for it is
  of a kind the user has the permission to hand out: to everyone without an account, to every
  user, to single users and to groups each ask for their own.\<close>

theorem stored_grants_were_allowed:
  assumes "filter_allowed_access_grants uuid base gdb defaults user_id role gs pk ak = Inr gs'" "role \<noteq> ''admin''"
    and set: "set_access_grants uuid' uuid'' clock rt rid gs' t = Inr (new, t')" and g: "g \<in> set t'" "on_resource rt rid g"
  shows "user_has_permission base gdb user_id
     (needed_key pk ak (ag_principal_type g, ag_principal_id g, ag_permission g)) defaults = Inr True"
proof -
  have "grant_keys new = (\<lambda>p. (rt, rid, p)) ` {p. \<exists>it \<in> set gs'. item_triple it = Some p}"
    and t': "t' = filter (\<lambda>g. \<not> on_resource rt rid g) t @ new"
    using set by (clarsimp simp only: set_access_grants_def Let_def rbind_Inr_iff sum.inject prod.inject set_access_grants_new;
        simp add: replace_grants_def Let_def split: if_splits)+
  moreover have "g \<in> set new" using g t' by auto
  then have "(ag_resource_type g, ag_resource_id g, ag_principal_type g, ag_principal_id g, ag_permission g) \<in> grant_keys new"
    by (force simp: grant_keys_def ag_key_def)
  ultimately obtain it where "it \<in> set gs'" "item_triple it = Some (ag_principal_type g, ag_principal_id g, ag_permission g)" by auto
  with filter_allowed_needs [OF assms(1) [unfolded filter_allowed_access_grants_def] _ _ assms(2)] show ?thesis by blast
qed

lemma user_permission_none: "get_groups_by_member_id ''z'' sample_groups = []"
  by (simp add: get_groups_by_member_id_def by_updated_def member_rows_def sample_groups_def sample_group_def new_member_def)

definition sample_item :: "string \<Rightarrow> string \<Rightarrow> string \<Rightarrow> grant_item" where
  "sample_item pt pid perm = GVal (PDict [(''principal_type'', PStr pt), (''principal_id'', PStr pid), (''permission'', PStr perm)])"

definition sample_defaults :: "(string, pyval) dict" where
  "sample_defaults = [(''access_grants'', PDict [(''allow_users'', PBool True), (''allow_groups'', PBool False)])]"

text \<open>Of a grant to a user and one to a group only the first is kept, and it is what the table holds.\<close>

lemma stored_grants_were_allowed_witness:
  "user_has_permission [] sample_groups ''z'' (Some ''access_grants.allow_users'') sample_defaults = Inr True"
proof -
  let ?gs = "[sample_item ''user'' ''v'' ''read'', sample_item ''group'' ''g1'' ''read'']"
  let ?row = "make_grant ''x'' 7 (''note'', ''n'', ''user'', ''v'', ''read'')"
  have f: "filter_allowed_access_grants (\<lambda>n. []) [] sample_groups sample_defaults ''z'' ''user'' ?gs None None = Inr [sample_item ''user'' ''v'' ''read'']"
    by (simp add: filter_allowed_access_grants_def filter_allowed_with_def stage_def user_has_permission_def user_permission_none sample_defaults_def
        sample_item_def has_anyone_read_access_grant_def has_public_read_access_grant_def has_public_write_access_grant_def
        has_user_access_grant_def normalize_access_grants_def item_dict_def valid_grant_def is_grant_def is_group_item_def item_field_def
        nonempty_str_def py_truthy_def Let_def)
  have s: "set_access_grants (\<lambda>n. []) (\<lambda>n. ''x'') (\<lambda>n. 7) ''note'' ''n'' [sample_item ''user'' ''v'' ''read''] [] = Inr ([?row], [?row])"
    by (simp add: set_access_grants_def normalize_access_grants_def sample_item_def item_dict_def valid_grant_def nonempty_str_def replace_grants_def
        grants_valid_def Let_def)
  from stored_grants_were_allowed [OF f _ s, of ?row] show ?thesis
    by (simp add: on_resource_def make_grant_def)
qed

subsection \<open>Grants in configuration decide as the table does\<close>

definition grant_value :: "access_grant \<Rightarrow> pyval" where
  "grant_value g = PDict [(''principal_type'', PStr (ag_principal_type g)), (''principal_id'', PStr (ag_principal_id g)),
     (''permission'', PStr (ag_permission g))]"

lemma list_access_matches:
  "list_access u perm gs (map grant_value t) = Inr (list_ex (\<lambda>g. ag_permission g = perm \<and> principal_matches (Some u) gs g) t)"
  by (induction t) (auto simp: grant_value_def principal_matches_def list_ex_iff)

text \<open>The check of a grant list kept in configuration gives the same answer as the table would for a
  resource with those grants, for every user, permission and set of groups.\<close>

theorem listed_access_is_table_access:
  "has_listed_access gdb u perm (PList (map grant_value (get_grants_by_resource rt rid t))) gs = Inr (has_access gdb t u rt rid perm gs)"
proof -
  have "has_access gdb t u rt rid perm gs \<longleftrightarrow>
      list_ex (\<lambda>g. ag_permission g = perm \<and> principal_matches (Some u) (resolve_groups gdb u gs) g) (get_grants_by_resource rt rid t)"
    unfolding has_access_def find_neq_None by (auto simp: get_grants_by_resource_def list_ex_iff)
  then show ?thesis by (simp add: has_listed_access_def py_iter_def list_access_matches py_truthy_def)
qed

subsection \<open>The combined permissions and the single question agree\<close>

text \<open>A tree of booleans of a given shape: the same dictionaries, perhaps with fewer keys.\<close>

function conforms :: "pyval \<Rightarrow> pyval \<Rightarrow> bool" where
  "conforms shape (PBool b) = is_bool shape"
| "conforms shape (PDict d) = (case shape of
      PDict s \<Rightarrow> dict_ok d \<and> list_all (\<lambda>(k, w). case map_of s k of None \<Rightarrow> False | Some t \<Rightarrow> conforms t w) d
    | _ \<Rightarrow> False)"
| "conforms shape PNone = False"
| "conforms shape (PInt i) = False"
| "conforms shape (PFloat f) = False"
| "conforms shape (PStr s) = False"
| "conforms shape (PBytes s) = False"
| "conforms shape (PList l) = False"
| "conforms shape (PTuple l) = False"
  by pat_completeness auto

lemma size_dict_mem: "(k, w) \<in> set d \<Longrightarrow> size w < size (PDict d)"
  by (induction d) auto

termination conforms
  by (relation "measure (\<lambda>(s, v). size v)") (auto dest: size_dict_mem)

text \<open>Two answers together: an error of either, otherwise yes when one of them is yes.\<close>

definition merge_answers :: "(access_error, bool) result \<Rightarrow> (access_error, bool) result \<Rightarrow> (access_error, bool) result" where
  "merge_answers a b = rbind a (\<lambda>x. rbind b (\<lambda>y. Inr (x \<or> y)))"

lemma merge_answers_simps [simp]:
  "merge_answers a (Inr False) = a" "merge_answers (Inr False) b = b" "merge_answers (Inr x) (Inr y) = Inr (x \<or> y)"
  by (cases a; cases b; simp add: merge_answers_def)+

lemma rbind_Inr [simp]: "rbind m Inr = m"
  by (cases m) simp_all

lemma get_permission_empty [simp]: "get_permission (PDict []) path = Inr False"
  by (cases path) (simp_all add: py_truthy_def)

lemma conforms_update:
  assumes "conforms (PDict s) (PDict p)" "map_of s k = Some t" "conforms t r"
  shows "conforms (PDict s) (PDict (AList.update k r p))"
  using assms by (auto simp: list_all_iff set_update_dict)

lemma conforms_lookup: "conforms (PDict s) (PDict p) \<Longrightarrow> map_of p k = Some w \<Longrightarrow> \<exists>t. map_of s k = Some t \<and> conforms t w"
  by (drule map_of_SomeD) (fastforce simp: list_all_iff split: option.splits)

lemma combine_permissions_merge:
  assumes "conforms S P" "conforms S (PDict gd)"
  shows "\<exists>r. combine_permissions P gd = Inr r \<and> conforms S r \<and> is_mapping r
    \<and> (\<forall>path. get_permission r path = merge_answers (get_permission P path) (get_permission (PDict gd) path))"
  using assms
proof (induction P gd arbitrary: S rule: combine_permissions.induct)
  case (1 P)
  then show ?case by (cases S; cases P) (auto simp: is_bool_def)
next
  case (2 P k v gd)
  obtain s where s: "S = PDict s" using "2.prems"(2) by (cases S) auto
  obtain p where p: "P = PDict p" using "2.prems"(1) s by (cases P) (auto simp: is_bool_def)
  have gd: "conforms S (PDict gd)" and new: "map_of gd k = None" using "2.prems"(2) s by (auto simp: dict_ok_def map_of_eq_None_iff)
  obtain t where t: "map_of s k = Some t" "conforms t v" using "2.prems"(2) s by (auto split: option.splits)
  define w where "w = (case map_of p k of None \<Rightarrow> (if is_mapping v then PDict [] else PBool False) | Some w \<Rightarrow> w)"
  have w: "conforms t w"
  proof (cases "map_of p k")
    case None
    then show ?thesis using t(2) by (cases v; cases t) (auto simp: w_def is_bool_def is_mapping_def)
  next
    case (Some w')
    then show ?thesis using conforms_lookup [of s p k w'] "2.prems"(1) s p t by (simp add: w_def)
  qed
  obtain r1 where r1: "conforms t r1" and step: "combine_permissions P ((k, v) # gd) = combine_permissions (PDict (AList.update k r1 p)) gd"
    and m: "\<forall>path. get_permission r1 path = merge_answers (get_permission w path) (get_permission v path)"
    and ih: "conforms S (PDict (AList.update k r1 p)) \<Longrightarrow> conforms S (PDict gd) \<Longrightarrow>
      \<exists>r. combine_permissions (PDict (AList.update k r1 p)) gd = Inr r \<and> conforms S r \<and> is_mapping r
        \<and> (\<forall>path. get_permission r path = merge_answers (get_permission (PDict (AList.update k r1 p)) path) (get_permission (PDict gd) path))"
  proof (cases v)
    case (PDict dv)
    have wv: "(case map_of p k of None \<Rightarrow> PDict [] | Some w \<Rightarrow> w) = w" by (auto simp: w_def PDict split: option.splits)
    from "2.IH"(2) [of p dv t, unfolded wv] w t(2) PDict obtain r1 where "combine_permissions w dv = Inr r1" "conforms t r1"
      "\<forall>path. get_permission r1 path = merge_answers (get_permission w path) (get_permission v path)" using p by auto
    with "2.IH"(3) [of p dv r1 S, unfolded wv] show thesis by (intro that [of r1]) (auto simp: p PDict wv)
  next
    case (PBool b)
    have t': "is_bool t" using t(2) PBool by simp
    then obtain c where c: "w = PBool c" using w by (cases w; cases t) (auto simp: is_bool_def)
    let ?r = "case map_of p k of None \<Rightarrow> v | Some w \<Rightarrow> py_or w v"
    have r: "?r = PBool (c \<or> b)" using c by (auto simp: w_def PBool py_or_def py_truthy_def is_mapping_def split: option.splits if_splits)
    have m: "get_permission (PBool (c \<or> b)) path = merge_answers (get_permission w path) (get_permission v path)" for path
      by (cases path) (auto simp: c PBool py_truthy_def merge_answers_def)
    have as: "as_dict P = Some p" "as_dict v = None" by (simp_all add: p PBool as_dict_def)
    show thesis
    proof (rule that [of "PBool (c \<or> b)"])
      show "combine_permissions P ((k, v) # gd) = combine_permissions (PDict (AList.update k (PBool (c \<or> b)) p)) gd" by (simp add: as r)
    qed (use t' m "2.IH"(1) [OF as, of S, unfolded r] in auto)
  qed (use t(2) in auto)
  have "conforms S (PDict (AList.update k r1 p))" using conforms_update [of s p k t r1] "2.prems"(1) s p t(1) r1 by simp
  from ih [OF this gd] obtain r where r: "combine_permissions P ((k, v) # gd) = Inr r" "conforms S r" "is_mapping r"
    and path: "\<forall>path. get_permission r path = merge_answers (get_permission (PDict (AList.update k r1 p)) path) (get_permission (PDict gd) path)"
    unfolding step by blast
  have "get_permission r path = merge_answers (get_permission P path) (get_permission (PDict ((k, v) # gd)) path)" for path
    unfolding spec [OF path, of path]
  proof (cases path)
    case Nil
    have "AList.update k r1 p \<noteq> []" by (cases p) auto
    then show "merge_answers (get_permission (PDict (AList.update k r1 p)) path) (get_permission (PDict gd) path)
        = merge_answers (get_permission P path) (get_permission (PDict ((k, v) # gd)) path)" using Nil by (simp add: py_truthy_def p)
  next
    case (Cons j js)
    have "merge_answers (get_permission w js) (get_permission v js) = get_permission v js" if "map_of p k = None"
      using t(2) that by (cases v; cases js) (auto simp: w_def is_mapping_def merge_answers_def py_truthy_def)
    then have "j = k \<Longrightarrow> get_permission r1 js = merge_answers (get_permission P path) (get_permission v js)"
      using spec [OF m, of js] Cons by (cases "map_of p k") (auto simp: p w_def)
    then show "merge_answers (get_permission (PDict (AList.update k r1 p)) path) (get_permission (PDict gd) path)
        = merge_answers (get_permission P path) (get_permission (PDict ((k, v) # gd)) path)" using Cons new by (simp add: p)
  qed
  with r show ?case by blast
qed

lemma get_permission_error: "get_permission v path = Inl e \<Longrightarrow> e = AccessTypeError"
  by (induction v path rule: get_permission.induct) (auto split: pyval.splits option.splits if_splits)

text \<open>A path that runs into a boolean of one tree runs into a boolean of the other, or leaves it.\<close>

lemma conforms_no_clash:
  "conforms S a \<Longrightarrow> conforms S b \<Longrightarrow> get_permission a path = Inl e \<Longrightarrow> get_permission b path \<noteq> Inr True"
proof (induction path arbitrary: S a b)
  case (Cons k ks)
  show ?case
  proof (cases S)
    case (PDict s)
    obtain d d' where d: "a = PDict d" "b = PDict d'"
      using Cons.prems(1,2) PDict by (cases a; cases b) (auto simp: is_bool_def)
    show ?thesis
    proof (cases "map_of d' k")
      case (Some w')
      obtain w where w: "map_of d k = Some w" "get_permission w ks = Inl e" using Cons.prems(3) by (auto simp: d split: option.splits)
      with conforms_lookup [of s d k w] conforms_lookup [of s d' k w'] Some Cons.prems(1,2) PDict d obtain t where "conforms t w" "conforms t w'" by auto
      with Cons.IH w(2) Some show ?thesis by (simp add: d)
    qed (simp add: d)
  qed (use Cons.prems(1,2) in \<open>cases a; cases b; auto simp: is_bool_def\<close>)+
qed simp

lemma any_group_merge:
  assumes "conforms S P" "\<forall>g \<in> set gs. conforms S (PDict (group_permissions g))"
  shows "\<exists>r. combine_groups P gs = Inr r \<and> conforms S r \<and> (is_mapping P \<longrightarrow> is_mapping r)
    \<and> get_permission r path = rbind (any_group_permits gs path) (\<lambda>b. if b then Inr True else get_permission P path)"
  using assms
proof (induction gs arbitrary: P)
  case (Cons g gs)
  let ?g = "PDict (group_permissions g)"
  obtain p where p: "combine_permissions P (group_permissions g) = Inr p" "conforms S p" "is_mapping p"
    and m: "get_permission p path = merge_answers (get_permission P path) (get_permission ?g path)"
    using combine_permissions_merge [OF Cons.prems(1), of "group_permissions g"] Cons.prems(2) by auto
  obtain r where r: "combine_groups p gs = Inr r" "conforms S r" "is_mapping r"
    and rp: "get_permission r path = rbind (any_group_permits gs path) (\<lambda>b. if b then Inr True else get_permission p path)"
    using Cons.IH [OF p(2)] Cons.prems(2) p(3) by auto
  have clash: "get_permission x path = Inl e \<Longrightarrow> get_permission y path \<noteq> Inr True" if "conforms S x" "conforms S y" for x y e
    using conforms_no_clash that by blast
  have groups: "any_group_permits hs path = Inr True \<Longrightarrow> \<exists>h \<in> set hs. get_permission (PDict (group_permissions h)) path = Inr True" for hs
    by (induction hs) (auto simp: rbind_Inr_iff split: if_splits)
  have errors: "any_group_permits hs path = Inl e \<Longrightarrow> e = AccessTypeError \<and> (\<exists>h \<in> set hs. \<exists>e. get_permission (PDict (group_permissions h)) path = Inl e)" for hs e
    by (induction hs) (auto simp: rbind_def dest: get_permission_error split: sum.splits if_splits)
  have "get_permission r path = rbind (any_group_permits (g # gs) path) (\<lambda>b. if b then Inr True else get_permission P path)"
  proof (cases "get_permission ?g path")
    case (Inl e)
    then have e: "e = AccessTypeError" by (rule get_permission_error)
    have "any_group_permits gs path \<noteq> Inr True" using groups clash [of ?g] Inl Cons.prems(2) by fastforce
    then show ?thesis
      using rp m Inl e clash [of ?g P] Cons.prems by (auto simp: merge_answers_def rbind_def dest: errors get_permission_error split: sum.splits if_splits)
  next
    case (Inr b)
    show ?thesis
    proof (cases b)
      case True
      have "\<exists>x. any_group_permits gs path = Inr x" "\<exists>x. get_permission P path = Inr x"
        using errors [of gs] clash [of _ ?g] Inr True Cons.prems by (cases "any_group_permits gs path"; cases "get_permission P path"; fastforce)+
      then show ?thesis using rp m Inr True by auto
    next
      case False
      then show ?thesis using rp m Inr by (simp cong: if_cong)
    qed
  qed
  then show ?case using p r by auto
qed simp

text \<open>The combined dictionary keeps every key of the defaults, so that filling it in changes nothing.\<close>

function covers :: "pyval \<Rightarrow> (string, pyval) dict \<Rightarrow> bool" where
  "covers w [] = True"
| "covers w ((k, v) # e) = (covers w e \<and> (case as_dict w of
      None \<Rightarrow> True
    | Some d \<Rightarrow> (case map_of d k of None \<Rightarrow> False | Some u \<Rightarrow> (case as_dict v of None \<Rightarrow> True | Some e' \<Rightarrow> covers u e'))))"
  by pat_completeness auto

termination covers
  by (relation "measure (\<lambda>(w, e). size (PDict e))") auto

lemma update_same: "map_of d k = Some v \<Longrightarrow> dict_ok d \<Longrightarrow> AList.update k v d = d"
  by (induction d) (auto simp: dict_ok_def)

fun dicts_ok :: "pyval \<Rightarrow> bool" where
  "dicts_ok (PDict d) = (dict_ok d \<and> list_all (\<lambda>(k, v). dicts_ok v) d)"
| "dicts_ok v = True"

lemma dicts_ok_lookup: "dicts_ok (PDict d) \<Longrightarrow> map_of d k = Some v \<Longrightarrow> dicts_ok v"
  by (auto simp: list_all_iff dest!: map_of_SomeD)

lemma fill_covered: "covers (PDict d) e \<Longrightarrow> dicts_ok (PDict d) \<Longrightarrow> fill_missing_permissions d e = d"
proof (induction d e rule: fill_missing_permissions.induct)
  case (2 d k v e)
  then obtain u where u: "map_of d k = Some u" "covers (PDict d) e" by (auto split: option.splits)
  have "(case as_dict v of None \<Rightarrow> d | Some dv \<Rightarrow> (case as_dict u of None \<Rightarrow> d
      | Some du \<Rightarrow> AList.update k (PDict (fill_missing_permissions du dv)) d)) = d"
  proof (cases "as_dict v"; cases "as_dict u")
    fix dv du assume s: "as_dict v = Some dv" "as_dict u = Some du"
    have "dicts_ok u" using dicts_ok_lookup [OF "2.prems"(2) u(1)] .
    then have "fill_missing_permissions du dv = du" using "2.IH"(1) [OF u(1) s] "2.prems"(1) u(1) s by auto
    then show ?thesis using s u(1) "2.prems"(2) by (auto simp: update_same)
  qed (auto split: option.splits)
  with "2.IH" u "2.prems"(2) show ?case by simp
qed simp

lemma covers_nondict: "as_dict w = None \<Longrightarrow> covers w e"
  by (induction e) auto

lemma covers_update:
  assumes "covers (PDict p) e" "\<forall>w e'. map_of p k = Some w \<longrightarrow> covers w e' \<longrightarrow> covers r e'"
  shows "covers (PDict (AList.update k r p)) e"
  using assms by (induction "PDict p" e rule: covers.induct) (auto split: option.splits)

lemma combine_covers: "combine_permissions P gd = Inr r \<Longrightarrow> covers P e \<Longrightarrow> covers r e"
proof (induction P gd arbitrary: r e rule: combine_permissions.induct)
  case (2 P k v gd)
  obtain p where p: "as_dict P = Some p" using "2.prems"(1) by (auto split: option.splits)
  show ?case
  proof (cases "as_dict v")
    case None
    have "covers (PDict (AList.update k (case map_of p k of None \<Rightarrow> v | Some w \<Rightarrow> py_or w v) p)) e"
      using "2.prems"(2) p None by (intro covers_update) (auto simp: py_or_def covers_nondict split: if_splits)
    with "2.IH"(1) [OF p None] "2.prems"(1) p None show ?thesis by auto
  next
    case (Some dv)
    then obtain r1 where r1: "combine_permissions (case map_of p k of None \<Rightarrow> PDict [] | Some w \<Rightarrow> w) dv = Inr r1"
      "combine_permissions (PDict (AList.update k r1 p)) gd = Inr r" using "2.prems"(1) p by (auto split: sum.splits)
    have "covers (PDict (AList.update k r1 p)) e"
      using "2.prems"(2) p "2.IH"(2) [OF p Some r1(1)] by (intro covers_update) auto
    with "2.IH"(3) [OF p Some r1(1) r1(2)] show ?thesis by blast
  qed
qed simp

lemma combine_groups_covers: "combine_groups P gs = Inr r \<Longrightarrow> covers P e \<Longrightarrow> covers r e"
  by (induction gs arbitrary: P) (auto simp: rbind_Inr_iff dest: combine_covers)

lemma covers_mono: "covers (PDict d) e \<Longrightarrow> k \<notin> fst ` set e \<Longrightarrow> covers (PDict ((k, v) # d)) e"
  by (induction "PDict d" e rule: covers.induct) auto

lemma covers_refl: "dicts_ok v \<Longrightarrow> v = PDict d \<Longrightarrow> covers v d"
proof (induction "size v" arbitrary: v d rule: less_induct)
  case less
  have "covers (PDict d) e" if "set e \<subseteq> set d" for e
    using that
  proof (induction e)
    case (Cons q e)
    obtain k w where q: "q = (k, w)" by force
    have mem: "(k, w) \<in> set d" using Cons.prems q by simp
    then have "map_of d k = Some w" using less.prems by (simp add: map_of_iff_dict_ok)
    moreover have "covers w dw" if "as_dict w = Some dw" for dw
      using less.hyps [of w dw] size_dict_mem [OF mem] less.prems mem that by (auto simp: list_all_iff)
    ultimately show ?case using Cons q by (auto split: option.splits)
  qed simp
  then show ?case using less.prems(2) by simp
qed

lemma conforms_dicts_ok: "conforms S v \<Longrightarrow> dicts_ok v"
  by (induction S v rule: conforms.induct) (auto simp: list_all_iff split: pyval.splits option.splits)

text \<open>For permission trees of one shape, the dictionary that \<open>get_permissions\<close> combines from the defaults and all
  groups of a user answers every dotted key as \<open>has_permission\<close> does: yes as soon as the
  defaults or one group say yes, and with the same error for a key that goes too deep.\<close>

theorem permission_check_is_combined:
  assumes "conforms S (PDict defaults)" and groups: "\<forall>g \<in> set (get_groups_by_member_id u gdb). conforms S (PDict (group_permissions g))"
    and complete: "fill_missing_permissions defaults base = defaults"
  shows "\<exists>d. get_permissions gdb u defaults = Inr d
    \<and> user_has_permission base gdb u (Some key) defaults = get_permission (PDict d) (split_on (CHR ''.'') key)"
proof -
  let ?path = "split_on (CHR ''.'') key"
  obtain r where r: "combine_groups (PDict defaults) (get_groups_by_member_id u gdb) = Inr r" "conforms S r" "is_mapping r"
    and p: "get_permission r ?path = rbind (any_group_permits (get_groups_by_member_id u gdb) ?path)
      (\<lambda>b. if b then Inr True else get_permission (PDict defaults) ?path)"
    using any_group_merge [OF assms(1) groups, of ?path] by auto
  obtain d where d: "r = PDict d" using r(3) by (rule is_mappingE)
  have "covers (PDict d) defaults"
    using combine_groups_covers [OF r(1) covers_refl [OF conforms_dicts_ok [OF assms(1)] refl]] d by simp
  then have "fill_missing_permissions d defaults = d" using conforms_dicts_ok [OF r(2)] d by (intro fill_covered) auto
  with r(1) p d complete show ?thesis by (simp add: get_permissions_def user_has_permission_def Let_def cong: if_cong)
qed

lemma permission_check_is_combined_witness:
  "\<exists>d. get_permissions sample_groups ''u'' sample_defaults = Inr d
    \<and> user_has_permission [] sample_groups ''u'' (Some ''access_grants.allow_users'') sample_defaults
        = get_permission (PDict d) [''access_grants'', ''allow_users'']"
proof -
  have "\<forall>g \<in> set (get_groups_by_member_id ''u'' sample_groups). conforms (PDict sample_defaults) (PDict (group_permissions g))"
    by (auto simp: set_groups_by_member_id sample_groups_def sample_group_def group_permissions_def)
  moreover have "conforms (PDict sample_defaults) (PDict sample_defaults)" by (simp add: sample_defaults_def dict_ok_def is_bool_def)
  ultimately show ?thesis
    using permission_check_is_combined [of "PDict sample_defaults" sample_defaults "''u''" sample_groups "[]" "''access_grants.allow_users''"] by simp
qed

end
