(* ===== verification/Shared_Objects.thy ===== *)
theory Shared_Objects
  imports Folder_Store User_Permissions
begin

section \<open>Access to models, files and chats (utils/access\_control, utils/chat\_access.py)\<close>

text \<open>
  The checks that combine ownership, grants and the links between objects: the chain of base models of a
  workspace model, the knowledge bases, channels, shared chats and models through which a file is
  reachable, the files of a folder, and who may read a chat. The tables are lists of rows
  with the columns the checks read; the lookups that reach them are those of models/models.py,
  models/knowledge.py, models/channels.py, models/chats.py, models/notes.py and models/files.py.
\<close>

record model_row =
  mo_id :: string
  mo_user_id :: string
  mo_base_model_id :: "string option"
  mo_meta :: "(string, pyval) dict"

record owned_row =
  ow_id :: string
  ow_user_id :: string

record file_row =
  fl_id :: string
  fl_user_id :: string
  fl_meta :: "(string, pyval) dict option"

record channel_row =
  chn_id :: string
  chn_user_id :: "string option"
  chn_type :: "string option"
  chn_deleted :: bool
  chn_archived :: bool

record chat_row =
  ct_id :: string
  ct_user_id :: string
  ct_title :: string
  ct_share_id :: "string option"
  ct_folder_id :: "string option"
  ct_meta :: "(string, pyval) dict"

text \<open>The tables: links are pairs of ids, members of channels are \<open>(channel, user, is_active)\<close>.\<close>

record objects_db =
  ob_groups :: groups_db
  ob_grants :: grants_table
  ob_models :: "model_row list"
  ob_knowledge :: "owned_row list"
  ob_knowledge_files :: "(string \<times> string) list"
  ob_files :: "file_row list"
  ob_notes :: "owned_row list"
  ob_channels :: "channel_row list"
  ob_channel_files :: "(string \<times> string) list"
  ob_channel_members :: "(string \<times> string \<times> bool) list"
  ob_chats :: "chat_row list"
  ob_chat_files :: "(string \<times> string) list"
  ob_folders :: folders
  ob_users :: "user_account list"

definition db_access :: "objects_db \<Rightarrow> string \<Rightarrow> string \<Rightarrow> string \<Rightarrow> string \<Rightarrow> string list option \<Rightarrow> bool" where
  "db_access db = has_access (ob_groups db) (ob_grants db)"

subsection \<open>The chain of base models\<close>

definition get_model_by_id :: "string \<Rightarrow> objects_db \<Rightarrow> model_row option" where
  "get_model_by_id i db = find (\<lambda>m. mo_id m = i) (ob_models db)"

text \<open>\<open>while base_model_id and base_model_id not in seen\<close>; \<open>readable\<close> is the test of one model.\<close>

function base_model_loop :: "(model_row \<Rightarrow> bool) \<Rightarrow> bool \<Rightarrow> objects_db \<Rightarrow> string list \<Rightarrow> string option \<Rightarrow> bool" where
  "base_model_loop readable admin db seen None = True"
| "base_model_loop readable admin db seen (Some b) =
     (if b = [] \<or> List.member seen b then True
      else case get_model_by_id b db of
        None \<Rightarrow> admin
      | Some m \<Rightarrow> if \<not> readable m then False else base_model_loop readable admin db (b # seen) (mo_base_model_id m))"
  by pat_completeness auto

lemma get_model_Some: "get_model_by_id b db = Some m \<Longrightarrow> m \<in> set (ob_models db) \<and> mo_id m = b"
  by (auto simp: get_model_by_id_def find_Some_iff)

termination base_model_loop
proof (relation "measure (\<lambda>(readable, admin, db, seen, b). card (mo_id ` set (ob_models db) - set seen))", goal_cases)
  case (2 readable admin db seen b m)
  then have "b \<in> mo_id ` set (ob_models db) - set seen" using get_model_Some [of b db m] by auto
  then have "mo_id ` set (ob_models db) - set (b # seen) \<subset> mo_id ` set (ob_models db) - set seen" by auto
  then have "card (mo_id ` set (ob_models db) - set (b # seen)) < card (mo_id ` set (ob_models db) - set seen)"
    by (rule psubset_card_mono [rotated]) simp
  then show ?case by simp
qed simp

definition has_base_model_access ::
  "objects_db \<Rightarrow> string \<Rightarrow> model_row \<Rightarrow> string option \<Rightarrow> string list option \<Rightarrow> bool" where
  "has_base_model_access db user_id model_info user_role user_group_ids =
     base_model_loop (\<lambda>m. user_id = mo_user_id m \<or> db_access db user_id ''model'' (mo_id m) ''read'' user_group_ids)
       (user_role = Some ''admin'') db [mo_id model_info] (mo_base_model_id model_info)"

datatype http_error = Forbidden | NotFound | BadRequest | ServerError

definition check_model_access :: "objects_db \<Rightarrow> user_account \<Rightarrow> model_row option \<Rightarrow> bool \<Rightarrow> (http_error, unit) result" where
  "check_model_access db user model_info bypass_filter =
     (if bypass_filter then Inr ()
      else case model_info of
        None \<Rightarrow> if acc_role user \<noteq> ''admin'' then Inl Forbidden else Inr ()
      | Some m \<Rightarrow>
          if acc_role user \<noteq> ''admin''
          then let gs = member_group_ids (acc_id user) (ob_groups db)
               in if \<not> (acc_id user = mo_user_id m \<or> db_access db (acc_id user) ''model'' (mo_id m) ''read'' (Some gs)) then Inl Forbidden
                  else if \<not> has_base_model_access db (acc_id user) m (Some (acc_role user)) (Some gs) then Inl Forbidden
                  else Inr ()
          else Inr ())"

subsection \<open>Files\<close>

definition get_file_by_id :: "string \<Rightarrow> objects_db \<Rightarrow> file_row option" where
  "get_file_by_id i db = find (\<lambda>f. fl_id f = i) (ob_files db)"

definition get_knowledge_by_id :: "string \<Rightarrow> objects_db \<Rightarrow> owned_row option" where
  "get_knowledge_by_id i db = find (\<lambda>k. ow_id k = i) (ob_knowledge db)"

definition get_knowledges_by_file_id :: "string \<Rightarrow> objects_db \<Rightarrow> owned_row list" where
  "get_knowledges_by_file_id file_id db =
     concat (map (\<lambda>k. map (\<lambda>l. k) (filter (\<lambda>(kid, fid). kid = ow_id k \<and> fid = file_id) (ob_knowledge_files db))) (ob_knowledge db))"

definition get_note_by_id :: "string \<Rightarrow> objects_db \<Rightarrow> owned_row option" where
  "get_note_by_id i db = find (\<lambda>n. ow_id n = i) (ob_notes db)"

definition channel_readable :: "objects_db \<Rightarrow> string \<Rightarrow> channel_row \<Rightarrow> bool" where
  "channel_readable db user_id c =
     (if chn_type c = Some ''group'' \<or> chn_type c = Some ''dm''
      then list_ex (\<lambda>(cid, uid, active). cid = chn_id c \<and> uid = user_id \<and> active) (ob_channel_members db)
      else has_permission_filter \<lparr>af_group_ids = member_group_ids user_id (ob_groups db), af_user_id = Some user_id\<rparr> ''channel'' ''read''
             (ob_grants db) [\<lparr>doc_id = chn_id c, doc_user_id = chn_user_id c\<rparr>] \<noteq> [])"

definition get_channels_by_file_id_and_user_id :: "string \<Rightarrow> string \<Rightarrow> objects_db \<Rightarrow> channel_row list" where
  "get_channels_by_file_id_and_user_id file_id user_id db =
     filter (channel_readable db user_id)
       (filter (\<lambda>c. list_ex (\<lambda>(cid, fid). cid = chn_id c \<and> fid = file_id) (ob_channel_files db) \<and> \<not> chn_deleted c \<and> \<not> chn_archived c)
         (ob_channels db))"

definition get_shared_chat_ids_by_file_id :: "string \<Rightarrow> objects_db \<Rightarrow> string list" where
  "get_shared_chat_ids_by_file_id file_id db =
     concat (map (\<lambda>c. map (\<lambda>l. ct_id c) (filter (\<lambda>(cid, fid). cid = ct_id c \<and> fid = file_id) (ob_chat_files db)))
       (filter (\<lambda>c. ct_share_id c \<noteq> None) (ob_chats db)))"

text \<open>The items of \<open>meta['knowledge']\<close> that name the file; the text match of the query is implied by one.\<close>

definition attaches_file :: "string \<Rightarrow> model_row \<Rightarrow> bool" where
  "attaches_file file_id m \<longleftrightarrow> mo_base_model_id m \<noteq> None \<and>
     (case as_list (pget (mo_meta m) ''knowledge'') of
        None \<Rightarrow> False
      | Some items \<Rightarrow> list_ex (\<lambda>it. case as_dict it of
            None \<Rightarrow> False
          | Some d \<Rightarrow> py_eq_str (pget d ''type'') ''file'' \<and> py_eq_str (pget d ''id'') file_id) items)"

definition get_model_owners_attaching_file :: "string \<Rightarrow> objects_db \<Rightarrow> (string \<times> string) list" where
  "get_model_owners_attaching_file file_id db = map (\<lambda>m. (mo_id m, mo_user_id m)) (filter (attaches_file file_id) (ob_models db))"

definition knowledge_confers :: "objects_db \<Rightarrow> user_account \<Rightarrow> string \<Rightarrow> string list \<Rightarrow> file_row \<Rightarrow> owned_row \<Rightarrow> bool" where
  "knowledge_confers db user access_type gs file k \<longleftrightarrow>
     (ow_user_id k = acc_id user \<or> db_access db (acc_id user) ''knowledge'' (ow_id k) access_type (Some gs))
     \<and> (access_type = ''read'' \<or> ow_user_id k = fl_user_id file)"

definition has_access_to_file :: "objects_db \<Rightarrow> string option \<Rightarrow> string \<Rightarrow> user_account \<Rightarrow> string list option \<Rightarrow> bool" where
  "has_access_to_file db file_id access_type user user_group_ids =
     (case (case file_id of None \<Rightarrow> None | Some i \<Rightarrow> get_file_by_id i db) of
        None \<Rightarrow> False
      | Some file \<Rightarrow>
          if fl_user_id file = acc_id user then True
          else
            let gs = resolve_groups (ob_groups db) (acc_id user) user_group_ids;
                collection = (case fl_meta file of None \<Rightarrow> PNone | Some m \<Rightarrow> pget m ''collection_name'');
                owners = (let all = get_model_owners_attaching_file (fl_id file) db
                          in if access_type \<noteq> ''read'' then filter (\<lambda>(m, o'). o' = fl_user_id file) all else all)
            in if list_ex (knowledge_confers db user access_type gs file) (get_knowledges_by_file_id (fl_id file) db) then True
               else if (case as_str collection of
                   None \<Rightarrow> False
                 | Some i \<Rightarrow> i \<noteq> [] \<and> (case get_knowledge_by_id i db of None \<Rightarrow> False | Some k \<Rightarrow> knowledge_confers db user access_type gs file k)) then True
               else if access_type = ''read'' \<and> get_channels_by_file_id_and_user_id (fl_id file) (acc_id user) db \<noteq> [] then True
               else if access_type = ''read'' \<and> get_accessible_resource_ids (ob_groups db) (ob_grants db) (acc_id user) ''shared_chat''
                   (get_shared_chat_ids_by_file_id (fl_id file) db) ''read'' (Some gs) \<noteq> [] then True
               else if List.member (map snd owners) (acc_id user) then True
               else get_accessible_resource_ids (ob_groups db) (ob_grants db) (acc_id user) ''model'' (map fst owners) access_type (Some gs) \<noteq> [])"

subsection \<open>The files of a folder\<close>

definition check_knowledge_access :: "objects_db \<Rightarrow> string \<Rightarrow> string \<Rightarrow> string \<Rightarrow> string list option \<Rightarrow> bool" where
  "check_knowledge_access db i user_id permission user_group_ids = (case get_knowledge_by_id i db of
      None \<Rightarrow> False
    | Some k \<Rightarrow> ow_user_id k = user_id \<or> db_access db user_id ''knowledge'' (ow_id k) permission
        (Some (resolve_groups (ob_groups db) user_id user_group_ids)))"

text \<open>An entry that has a known type and an id; \<open>entry.get('type') in FOLDER_FILE_TYPES\<close> hashes the type.\<close>

definition FOLDER_FILE_TYPES :: "string list" where
  "FOLDER_FILE_TYPES = [''file'', ''collection'', ''note'']"

fun shaped_entries :: "pyval list \<Rightarrow> (access_error, (pyval \<times> string \<times> pyval) list) result" where
  "shaped_entries [] = Inr []"
| "shaped_entries (e # es) = (case as_dict e of
      None \<Rightarrow> shaped_entries es
    | Some d \<Rightarrow>
        if \<not> hashable (pget d ''type'') then Inl AccessTypeError
        else rbind (shaped_entries es) (\<lambda>rest.
          Inr (case as_str (pget d ''type'') of
              None \<Rightarrow> rest
            | Some ty \<Rightarrow> if List.member FOLDER_FILE_TYPES ty \<and> py_truthy (pget d ''id'') then (e, ty, pget d ''id'') # rest else rest)))"

text \<open>The check of one entry. An id that is not a string finds no row.\<close>

definition entry_readable :: "objects_db \<Rightarrow> user_account \<Rightarrow> string list \<Rightarrow> string \<Rightarrow> pyval \<Rightarrow> bool" where
  "entry_readable db user gs ty i = (case as_str i of
      None \<Rightarrow> False
    | Some s \<Rightarrow>
        if ty = ''file'' then has_access_to_file db (Some s) ''read'' user (Some gs)
        else if ty = ''collection'' then check_knowledge_access db s (acc_id user) ''read'' (Some gs)
        else if ty = ''note'' then (case get_note_by_id s db of
            None \<Rightarrow> False
          | Some n \<Rightarrow> ow_user_id n = acc_id user \<or> db_access db (acc_id user) ''note'' s ''read'' (Some gs))
        else False)"

definition get_accessible_folder_files ::
  "objects_db \<Rightarrow> pyval \<Rightarrow> user_account \<Rightarrow> string list option \<Rightarrow> (access_error, pyval list) result" where
  "get_accessible_folder_files db entries user user_group_ids = (case as_list entries of
      None \<Rightarrow> Inr []
    | Some es \<Rightarrow> rbind (shaped_entries es) (\<lambda>shaped.
        Inr (if acc_role user = ''admin'' then map fst shaped
             else map fst (filter (\<lambda>(e, ty, i). entry_readable db user (resolve_groups (ob_groups db) (acc_id user) user_group_ids) ty i) shaped))))"

definition can_read_all_folder_files :: "objects_db \<Rightarrow> pyval \<Rightarrow> user_account \<Rightarrow> (access_error, bool) result" where
  "can_read_all_folder_files db entries user =
     (if entries = PNone then Inr True
      else case as_list entries of
        None \<Rightarrow> Inr False
      | Some es \<Rightarrow> if es = [] then Inr True
          else rbind (get_accessible_folder_files db entries user None) (\<lambda>fs. Inr (length fs = length es)))"

definition get_user_by_id :: "string \<Rightarrow> objects_db \<Rightarrow> user_account option" where
  "get_user_by_id i db = find (\<lambda>u. acc_id u = i) (ob_users db)"

definition get_owner_accessible_folder_files :: "objects_db \<Rightarrow> folder_row \<Rightarrow> (access_error, pyval list) result" where
  "get_owner_accessible_folder_files db folder =
     (let files = (case fo_data folder of None \<Rightarrow> PNone | Some d \<Rightarrow> pget d ''files'')
      in if \<not> py_truthy files then Inr []
         else case get_user_by_id (fo_user_id folder) db of
           None \<Rightarrow> Inr []
         | Some owner \<Rightarrow> get_accessible_folder_files db files owner None)"

subsection \<open>Chats\<close>

text \<open>A chat is cleaned when it is read. Strings of the model have no surrogates, so what is removed is the null character;
  the body of the chat, which is cleaned and repaired too, is not a column of this model (it is that of \<open>Chat_History\<close>).\<close>

definition sanitize_text_for_db :: "string \<Rightarrow> string" where
  "sanitize_text_for_db text = filter (\<lambda>c. c \<noteq> CHR 0x00) text"

definition sanitize_title :: "chat_row \<Rightarrow> chat_row" where
  "sanitize_title c = c\<lparr>ct_title := sanitize_text_for_db (ct_title c)\<rparr>"

definition get_chat_by_id :: "string \<Rightarrow> objects_db \<Rightarrow> chat_row option" where
  "get_chat_by_id i db = map_option sanitize_title (find (\<lambda>c. ct_id c = i) (ob_chats db))"

definition get_chat_by_id_and_user_id :: "string \<Rightarrow> string \<Rightarrow> objects_db \<Rightarrow> chat_row option" where
  "get_chat_by_id_and_user_id i user_id db =
     map_option sanitize_title (find (\<lambda>c. ct_id c = i \<and> ct_user_id c = user_id) (ob_chats db))"

definition is_internal_chat :: "(string, pyval) dict \<Rightarrow> bool" where
  "is_internal_chat meta \<longleftrightarrow> pget meta ''internal'' = PBool True"

definition get_readable_chat :: "bool \<Rightarrow> objects_db \<Rightarrow> string \<Rightarrow> string \<Rightarrow> string \<Rightarrow> chat_row option" where
  "get_readable_chat admin_chat_access db user_id role chat_id = (case get_chat_by_id_and_user_id chat_id user_id db of
      Some chat \<Rightarrow> Some chat
    | None \<Rightarrow>
        let candidate = get_chat_by_id chat_id db
        in if role = ''admin''
           then (if admin_chat_access \<or> (case candidate of None \<Rightarrow> False | Some c \<Rightarrow> is_internal_chat (ct_meta c)) then candidate else None)
           else if db_access db user_id ''shared_chat'' chat_id ''read'' None \<and> candidate \<noteq> None then candidate
           else case candidate of
             None \<Rightarrow> None
           | Some c \<Rightarrow> (case ct_folder_id c of
               None \<Rightarrow> None
             | Some fid \<Rightarrow> if fid = [] then None
                 else case Folder_Store.get_folder_by_id fid (ob_folders db) of
                   None \<Rightarrow> None
                 | Some f \<Rightarrow> if has_folder_access (ob_groups db) (ob_grants db) (ob_folders db) user_id f ''read'' then Some c else None))"

subsection \<open>Every base model of a chain is readable\<close>

inductive base_chain :: "objects_db \<Rightarrow> string option \<Rightarrow> string \<Rightarrow> bool" for db where
  base_here: "b \<noteq> [] \<Longrightarrow> base_chain db (Some b) b"
| base_next: "b \<noteq> [] \<Longrightarrow> get_model_by_id b db = Some m \<Longrightarrow> base_chain db (mo_base_model_id m) c \<Longrightarrow> base_chain db (Some b) c"

inductive_cases base_chainE: "base_chain db x c"

lemma base_chain_None [simp]: "\<not> base_chain db None c" "\<not> base_chain db (Some []) c"
  by (auto elim: base_chainE)

lemma base_chain_unfold:
  "b \<noteq> [] \<Longrightarrow> base_chain db (Some b) c \<longleftrightarrow> c = b \<or> (\<exists>m. get_model_by_id b db = Some m \<and> base_chain db (mo_base_model_id m) c)"
  by (auto elim: base_chainE intro: base_chain.intros)

lemma base_chain_closed:
  assumes "base_chain db x c" "case x of None \<Rightarrow> True | Some b \<Rightarrow> b = [] \<or> b \<in> V"
    and "\<forall>b \<in> V. \<forall>m. get_model_by_id b db = Some m \<longrightarrow> (case mo_base_model_id m of None \<Rightarrow> True | Some b \<Rightarrow> b = [] \<or> b \<in> V)"
  shows "c \<in> V"
  using assms by (induction rule: base_chain.induct) auto

lemma base_model_loop_chain:
  assumes "\<forall>b \<in> set seen. good b"
    and "\<forall>b. b \<notin> set seen \<longrightarrow> good b = (\<exists>m. get_model_by_id b db = Some m \<and> readable m)"
    and "\<forall>b \<in> set seen. \<forall>m. get_model_by_id b db = Some m \<longrightarrow> (case mo_base_model_id m of None \<Rightarrow> True | Some c \<Rightarrow> c = [] \<or> c \<in> set seen \<or> x = Some c)"
  shows "base_model_loop readable False db seen x \<longleftrightarrow> (\<forall>c. base_chain db x c \<longrightarrow> good c)"
  using assms
proof (induction readable False db seen x rule: base_model_loop.induct)
  case (2 readable db seen b)
  show ?case
  proof (cases "b = [] \<or> b \<in> set seen")
    case True
    have "good c" if c: "base_chain db (Some b) c" for c
    proof -
      have "\<forall>b' \<in> set seen. \<forall>m. get_model_by_id b' db = Some m \<longrightarrow> (case mo_base_model_id m of None \<Rightarrow> True | Some c \<Rightarrow> c = [] \<or> c \<in> set seen)"
        using "2.prems"(3) True by (auto split: option.splits)
      then have "c \<in> set seen" using base_chain_closed [OF c, of "set seen"] True by simp
      then show ?thesis using "2.prems"(1) by simp
    qed
    with True show ?thesis by auto
  next
    case new: False
    show ?thesis
    proof (cases "\<exists>m. get_model_by_id b db = Some m \<and> readable m")
      case False
      then have "\<not> good b" using "2.prems"(2) new by blast
      moreover have "base_chain db (Some b) b" using new by (auto intro: base_here)
      ultimately show ?thesis using new False by (auto split: option.splits)
    next
      case True
      then obtain m where m: "get_model_by_id b db = Some m" "readable m" by blast
      have good: "good b" using "2.prems"(2) new m by blast
      have "base_model_loop readable False db (b # seen) (mo_base_model_id m) \<longleftrightarrow> (\<forall>c. base_chain db (mo_base_model_id m) c \<longrightarrow> good c)"
        by (rule "2.hyps") (use new m good "2.prems" in \<open>auto split: option.splits\<close>)
      then show ?thesis using new m good by (auto simp: base_chain_unfold)
    qed
  qed
qed simp

text \<open>C27: A user who is not an admin passes the model check exactly when the user may read the model and every
  base model its chain leads to, an unregistered base refusing; a chain that loops is followed
  once around.\<close>

theorem model_access_covers_chain:
  assumes "acc_role user \<noteq> ''admin''" and m: "get_model_by_id (mo_id m) db = Some m"
  shows "check_model_access db user (Some m) False = Inr () \<longleftrightarrow>
    (\<forall>b. b = mo_id m \<or> base_chain db (mo_base_model_id m) b \<longrightarrow>
       (\<exists>r. get_model_by_id b db = Some r \<and> (acc_id user = mo_user_id r \<or> db_access db (acc_id user) ''model'' b ''read'' None)))"
proof -
  let ?gs = "Some (member_group_ids (acc_id user) (ob_groups db))"
  let ?readable = "\<lambda>r. acc_id user = mo_user_id r \<or> db_access db (acc_id user) ''model'' (mo_id r) ''read'' ?gs"
  let ?good = "\<lambda>b. b = mo_id m \<or> (\<exists>r. get_model_by_id b db = Some r \<and> ?readable r)"
  have gs: "db_access db (acc_id user) rt rid perm ?gs = db_access db (acc_id user) rt rid perm None" for rt rid perm
    by (simp add: db_access_def has_access_def resolve_groups_def)
  have id: "get_model_by_id b db = Some r \<Longrightarrow> mo_id r = b" for b r by (simp add: get_model_Some)
  have "has_base_model_access db (acc_id user) m (Some (acc_role user)) ?gs \<longleftrightarrow> (\<forall>c. base_chain db (mo_base_model_id m) c \<longrightarrow> ?good c)"
    unfolding has_base_model_access_def using assms
    by (simp, intro base_model_loop_chain) (auto split: option.splits)
  then have "check_model_access db user (Some m) False = Inr () \<longleftrightarrow> ?readable m \<and> (\<forall>c. base_chain db (mo_base_model_id m) c \<longrightarrow> ?good c)"
    using assms(1) by (simp add: check_model_access_def Let_def)
  also have "\<dots> \<longleftrightarrow> (\<forall>b. b = mo_id m \<or> base_chain db (mo_base_model_id m) b \<longrightarrow> (\<exists>r. get_model_by_id b db = Some r \<and> ?readable r))"
    using m by auto
  also have "\<dots> \<longleftrightarrow> (\<forall>b. b = mo_id m \<or> base_chain db (mo_base_model_id m) b \<longrightarrow>
       (\<exists>r. get_model_by_id b db = Some r \<and> (acc_id user = mo_user_id r \<or> db_access db (acc_id user) ''model'' b ''read'' None)))"
    using id by (auto simp: gs)
  finally show ?thesis .
qed

lemma check_model_access_cases: "check_model_access db user m bypass = Inl Forbidden \<or> check_model_access db user m bypass = Inr ()"
  by (simp add: check_model_access_def Let_def split: option.splits)

definition empty_objects :: objects_db where
  "empty_objects = \<lparr>ob_groups = sample_groups, ob_grants = [], ob_models = [], ob_knowledge = [], ob_knowledge_files = [], ob_files = [],
     ob_notes = [], ob_channels = [], ob_channel_files = [], ob_channel_members = [], ob_chats = [], ob_chat_files = [], ob_folders = [], ob_users = []\<rparr>"

text \<open>The preset \<open>p\<close> is shared with \<open>w\<close>, its base \<open>q\<close> is not.\<close>

lemma model_access_covers_chain_witness:
  "check_model_access (empty_objects\<lparr>ob_models := [\<lparr>mo_id = ''p'', mo_user_id = ''o'', mo_base_model_id = Some ''q'', mo_meta = []\<rparr>,
       \<lparr>mo_id = ''q'', mo_user_id = ''o'', mo_base_model_id = None, mo_meta = []\<rparr>],
     ob_grants := [make_grant ''x'' 5 (''model'', ''p'', ''user'', ''w'', ''read'')]\<rparr>) \<lparr>acc_id = ''w'', acc_role = ''user''\<rparr>
     (Some \<lparr>mo_id = ''p'', mo_user_id = ''o'', mo_base_model_id = Some ''q'', mo_meta = []\<rparr>) False = Inl Forbidden"
  (is "check_model_access ?db ?u (Some ?p) False = _")
proof -
  have "get_model_by_id (mo_id ?p) ?db = Some ?p" by (simp add: get_model_by_id_def)
  have role: "acc_role ?u \<noteq> ''admin''" by simp
  note iff = model_access_covers_chain [OF role \<open>get_model_by_id (mo_id ?p) ?db = Some ?p\<close>]
  have chain: "base_chain ?db (mo_base_model_id ?p) ''q''" by (simp add: base_here)
  have access: "\<not> db_access ?db (acc_id ?u) ''model'' ''q'' ''read'' None"
    by (simp add: db_access_def has_access_iff permitted_def grant_keys_def)
  have q: "get_model_by_id ''q'' ?db = Some \<lparr>mo_id = ''q'', mo_user_id = ''o'', mo_base_model_id = None, mo_meta = []\<rparr>"
    by (simp add: get_model_by_id_def)
  have "check_model_access ?db ?u (Some ?p) False \<noteq> Inr ()"
  proof
    assume "check_model_access ?db ?u (Some ?p) False = Inr ()"
    then obtain r where "get_model_by_id ''q'' ?db = Some r" "acc_id ?u = mo_user_id r \<or> db_access ?db (acc_id ?u) ''model'' ''q'' ''read'' None"
      unfolding iff using chain by blast
    with q access show False by simp
  qed
  then show ?thesis using check_model_access_cases [of ?db ?u "Some ?p" False] by blast
qed

subsection \<open>Writing a file takes its owner\<close>

lemma get_knowledge_Some: "get_knowledge_by_id i db = Some k \<Longrightarrow> k \<in> set (ob_knowledge db)"
  by (auto simp: get_knowledge_by_id_def find_Some_iff)

text \<open>C28: Someone who may write a file without owning it holds the permission on an object, a knowledge base or
  a workspace model that attaches it, whose owner is the owner of the file: a file that was only
  readable does not become writable by being put into an object of one's own.\<close>

theorem file_write_needs_owners_object:
  assumes acc: "has_access_to_file db (Some i) access user gs" and "access \<noteq> ''read''"
    and f: "get_file_by_id i db = Some f" and "fl_user_id f \<noteq> acc_id user"
  shows "(\<exists>k \<in> set (ob_knowledge db). ow_user_id k = fl_user_id f \<and> db_access db (acc_id user) ''knowledge'' (ow_id k) access gs)
    \<or> (\<exists>m \<in> set (ob_models db). attaches_file i m \<and> mo_user_id m = fl_user_id f \<and> db_access db (acc_id user) ''model'' (mo_id m) access gs)"
proof -
  let ?gs = "resolve_groups (ob_groups db) (acc_id user) gs"
  have id: "fl_id f = i" using f by (auto simp: get_file_by_id_def find_Some_iff)
  have gs: "db_access db (acc_id user) rt rid p (Some ?gs) = db_access db (acc_id user) rt rid p gs" for rt rid p
    by (simp add: db_access_def has_access_def resolve_groups_def)
  let ?owners = "filter (\<lambda>(m, o'). o' = fl_user_id f) (get_model_owners_attaching_file i db)"
  from acc assms(2,4) consider (k) k where "k \<in> set (ob_knowledge db)" "knowledge_confers db user access ?gs f k"
    | (o) "acc_id user \<in> set (map snd ?owners)"
    | (m) "get_accessible_resource_ids (ob_groups db) (ob_grants db) (acc_id user) ''model'' (map fst ?owners) access (Some ?gs) \<noteq> []"
    by (auto simp: has_access_to_file_def f id Let_def list_ex_iff get_knowledges_by_file_id_def
        dest: get_knowledge_Some split: if_splits option.splits)
  then show ?thesis
  proof cases
    case k
    then show ?thesis using assms(2,4) by (auto simp: knowledge_confers_def gs)
  next
    case o
    then show ?thesis using assms(4) by auto
  next
    case m
    then obtain r where "r \<in> set (get_accessible_resource_ids (ob_groups db) (ob_grants db) (acc_id user) ''model'' (map fst ?owners) access (Some ?gs))"
      by (cases "get_accessible_resource_ids (ob_groups db) (ob_grants db) (acc_id user) ''model'' (map fst ?owners) access (Some ?gs)") auto
    then have "r \<in> set (map fst ?owners)" "has_access (ob_groups db) (ob_grants db) (acc_id user) ''model'' r access (Some ?gs)"
      by (auto simp: get_accessible_resource_ids_def has_access_def find_exists on_resource_def split: if_splits)
    then show ?thesis using gs by (auto simp: get_model_owners_attaching_file_def db_access_def)
  qed
qed

lemma file_write_needs_owners_object_witness:
  "\<exists>k \<in> set (ob_knowledge (empty_objects\<lparr>ob_knowledge := [\<lparr>ow_id = ''k'', ow_user_id = ''o''\<rparr>], ob_knowledge_files := [(''k'', ''f'')],
      ob_files := [\<lparr>fl_id = ''f'', fl_user_id = ''o'', fl_meta = None\<rparr>],
      ob_grants := [make_grant ''x'' 5 (''knowledge'', ''k'', ''user'', ''w'', ''write'')]\<rparr>)). ow_user_id k = ''o''"
proof -
  let ?db = "empty_objects\<lparr>ob_knowledge := [\<lparr>ow_id = ''k'', ow_user_id = ''o''\<rparr>], ob_knowledge_files := [(''k'', ''f'')],
      ob_files := [\<lparr>fl_id = ''f'', fl_user_id = ''o'', fl_meta = None\<rparr>],
      ob_grants := [make_grant ''x'' 5 (''knowledge'', ''k'', ''user'', ''w'', ''write'')]\<rparr>"
  let ?f = "\<lparr>fl_id = ''f'', fl_user_id = ''o'', fl_meta = None\<rparr>" and ?u = "\<lparr>acc_id = ''w'', acc_role = ''user''\<rparr>"
  have f: "get_file_by_id ''f'' ?db = Some ?f" by (simp add: get_file_by_id_def)
  have "has_access_to_file ?db (Some ''f'') ''write'' ?u None"
    by (simp add: has_access_to_file_def f get_knowledges_by_file_id_def knowledge_confers_def db_access_def has_access_iff permitted_def
        grant_keys_def Let_def)
  from file_write_needs_owners_object [OF this _ f] show ?thesis by (auto simp: empty_objects_def)
qed

subsection \<open>Who may read a chat\<close>

lemma sanitize_title_columns [simp]:
  "ct_id (sanitize_title c) = ct_id c" "ct_user_id (sanitize_title c) = ct_user_id c" "ct_folder_id (sanitize_title c) = ct_folder_id c"
  "ct_meta (sanitize_title c) = ct_meta c" "ct_title (sanitize_title c) = sanitize_text_for_db (ct_title c)"
  by (simp_all add: sanitize_title_def)

lemma find_chat: "get_chat_by_id i db = Some c \<Longrightarrow> \<exists>c0 \<in> set (ob_chats db). c = sanitize_title c0 \<and> ct_id c0 = i"
  by (auto simp: get_chat_by_id_def find_Some_iff)

lemma readable_chat_reason:
  assumes "get_readable_chat admin_access db user_id role chat_id = Some c"
  shows "\<exists>c0 \<in> set (ob_chats db). c = sanitize_title c0 \<and> ct_id c0 = chat_id \<and>
    (ct_user_id c0 = user_id
     \<or> role = ''admin'' \<and> (admin_access \<or> is_internal_chat (ct_meta c0))
     \<or> db_access db user_id ''shared_chat'' chat_id ''read'' None
     \<or> (\<exists>fid f. ct_folder_id c0 = Some fid \<and> Folder_Store.get_folder_by_id fid (ob_folders db) = Some f
          \<and> has_folder_access (ob_groups db) (ob_grants db) (ob_folders db) user_id f ''read''))"
proof (cases "get_chat_by_id_and_user_id chat_id user_id db")
  case None
  with assms show ?thesis
    by (force simp: get_readable_chat_def Let_def dest!: find_chat split: if_splits option.splits)
next
  case (Some c')
  then have "\<exists>c0 \<in> set (ob_chats db). c' = sanitize_title c0 \<and> ct_id c0 = chat_id \<and> ct_user_id c0 = user_id"
    by (auto simp: get_chat_by_id_and_user_id_def find_Some_iff)
  moreover have "c = c'" using assms Some by (simp add: get_readable_chat_def)
  ultimately show ?thesis by blast
qed

end
