(* ===== verification/Folder_Router.thy ===== *)
theory Folder_Router
  imports Shared_Objects
begin

section \<open>Folder endpoints (routers/folders.py)\<close>

text \<open>
  The endpoints of the folder router on the tables of \<open>Shared_Objects\<close>. An endpoint returns its response or the
  HTTP error, and the tables it leaves: an error after a commit keeps what was committed. An exception that no
  handler catches is \<open>ServerError\<close>. The record \<open>folder_env\<close> holds the configuration values and what a call
  draws: \<open>config.get('folders.enable')\<close>, \<open>user.permissions\<close>, \<open>DEFAULT_USER_PERMISSIONS\<close>, the clock and the
  fresh ids. Events and automations are outside the model.
\<close>

record folder_env =
  fe_enable :: pyval
  fe_permissions :: "(string, pyval) dict"
  fe_base :: "(string, pyval) dict"
  fe_clock :: "nat \<Rightarrow> int"
  fe_uuid :: "nat \<Rightarrow> string"
  fe_lower :: "string \<Rightarrow> string"

type_synonym 'a response = "(http_error, 'a) result \<times> objects_db"

definition server_error :: "('e, 'a) result \<Rightarrow> (http_error, 'a) result" where
  "server_error r = (case r of Inl _ \<Rightarrow> Inl ServerError | Inr a \<Rightarrow> Inr a)"

definition folder_access :: "objects_db \<Rightarrow> string \<Rightarrow> folder_row \<Rightarrow> string \<Rightarrow> bool" where
  "folder_access db = has_folder_access (ob_groups db) (ob_grants db) (ob_folders db)"

definition permission_of :: "folder_env \<Rightarrow> objects_db \<Rightarrow> user_account \<Rightarrow> string option \<Rightarrow> (http_error, bool) result" where
  "permission_of env db user key = server_error (user_has_permission (fe_base env) (ob_groups db) (acc_id user) key (fe_permissions env))"

definition check_folders_permission :: "folder_env \<Rightarrow> objects_db \<Rightarrow> user_account \<Rightarrow> (http_error, unit) result" where
  "check_folders_permission env db user =
     (if fe_enable env = PBool False then Inl Forbidden
      else if acc_role user = ''admin'' then Inr ()
      else rbind (permission_of env db user (Some ''features.folders'')) (\<lambda>b. if b then Inr () else Inl Forbidden))"

text \<open>Run the rest of an endpoint after a check that leaves the tables alone.\<close>

definition guarded :: "objects_db \<Rightarrow> (http_error, 'a) result \<Rightarrow> ('a \<Rightarrow> 'b response) \<Rightarrow> 'b response" where
  "guarded db r k = (case r of Inl e \<Rightarrow> (Inl e, db) | Inr a \<Rightarrow> k a)"

subsection \<open>Listing, and repairing what the listing meets\<close>

type_synonym parents = "(string, string option) dict"

definition parent_get :: "parents \<Rightarrow> string \<Rightarrow> string option" where
  "parent_get pb i = (case map_of pb i of None \<Rightarrow> None | Some p \<Rightarrow> p)"

definition parents_universe :: "parents \<Rightarrow> string option \<Rightarrow> string set" where
  "parents_universe pb x = fst ` set pb \<union> {p. \<exists>i. (i, Some p) \<in> set pb} \<union> set_option x"

lemma finite_parents_universe [simp]: "finite (parents_universe pb x)"
proof -
  have "{p. \<exists>i. (i, Some p) \<in> set pb} \<subseteq> (\<lambda>(i, p). the p) ` set pb" by force
  then have "finite {p. \<exists>i. (i, Some p) \<in> set pb}" by (rule finite_subset) simp
  then show ?thesis by (simp add: parents_universe_def)
qed

lemma parent_get_universe: "parents_universe pb (parent_get pb c) \<subseteq> parents_universe pb x"
  by (auto simp: parents_universe_def parent_get_def dest: map_of_SomeD split: option.splits)

text \<open>The value of \<open>current_id\<close> when the loop of \<open>is_in_parent_cycle\<close> ends.\<close>

function cycle_end :: "parents \<Rightarrow> string list \<Rightarrow> string option \<Rightarrow> string option" where
  "cycle_end pb seen None = None"
| "cycle_end pb seen (Some c) = (if c = [] \<or> List.member seen c then Some c else cycle_end pb (c # seen) (parent_get pb c))"
  by pat_completeness auto

termination cycle_end
proof (relation "measure (\<lambda>(pb, seen, x). card (parents_universe pb x - set seen))", goal_cases)
  case (2 pb seen c)
  then have "parents_universe pb (parent_get pb c) - set (c # seen) \<subset> parents_universe pb (Some c) - set seen"
    using parent_get_universe [of pb c "Some c"] by (auto simp: parents_universe_def)
  then have "card (parents_universe pb (parent_get pb c) - set (c # seen)) < card (parents_universe pb (Some c) - set seen)"
    by (rule psubset_card_mono [rotated]) simp
  then show ?case by simp
qed simp

definition is_in_parent_cycle :: "parents \<Rightarrow> string \<Rightarrow> bool" where
  "is_in_parent_cycle pb i = (cycle_end pb [i] (parent_get pb i) = Some i)"

text \<open>One turn of the loop over the folders: the parent, then the files.\<close>

definition repair_parent ::
  "folder_env \<Rightarrow> string \<Rightarrow> parents \<Rightarrow> folders \<Rightarrow> folder_row \<Rightarrow> folder_row option \<times> parents \<times> folders" where
  "repair_parent env user_id pb rows f = (case fo_parent_id f of
      None \<Rightarrow> (Some f, pb, rows)
    | Some p \<Rightarrow>
        if p \<noteq> [] \<and> (\<not> has_key pb p \<or> is_in_parent_cycle pb (fo_id f))
        then case update_folder_parent_id_by_id_and_user_id (fe_clock env 0) (fo_id f) user_id None rows of
          (f', rows') \<Rightarrow> (f', AList.update (fo_id f) None pb, rows')
        else (Some f, pb, rows))"

definition py_len :: "pyval \<Rightarrow> nat option" where
  "py_len v = (case v of
      PList l \<Rightarrow> Some (length l) | PTuple l \<Rightarrow> Some (length l) | PStr s \<Rightarrow> Some (length s) | PBytes s \<Rightarrow> Some (length s)
    | PDict d \<Rightarrow> Some (length d) | _ \<Rightarrow> None)"

definition clean_files ::
  "folder_env \<Rightarrow> objects_db \<Rightarrow> user_account \<Rightarrow> string list option \<Rightarrow> folder_row \<Rightarrow> (http_error, folder_row \<times> folders) result" where
  "clean_files env db user gs f = (case fo_data f of
      None \<Rightarrow> Inr (f, ob_folders db)
    | Some d \<Rightarrow>
        if d = [] \<or> \<not> has_key d ''files'' then Inr (f, ob_folders db)
        else rbind (server_error (get_accessible_folder_files db (pget d ''files'') user gs)) (\<lambda>files.
          case py_len (pget d ''files'') of
            None \<Rightarrow> Inl ServerError
          | Some n \<Rightarrow>
              if length files = n then Inr (f, ob_folders db)
              else let d' = AList.update ''files'' (PList files) d
                   in Inr (f\<lparr>fo_data := Some d'\<rparr>,
                           snd (update_folder_by_id_and_user_id (fe_clock env 1) (fo_id f) (acc_id user)
                             \<lparr>fu_name = None, fu_data = Some (Some d'), fu_meta = None\<rparr> (ob_folders db)))))"

fun list_loop :: "folder_env \<Rightarrow> user_account \<Rightarrow> string list option \<Rightarrow> parents \<Rightarrow> folders \<Rightarrow> objects_db \<Rightarrow> folders response" where
  "list_loop env user gs pb [] db = (Inr [], db)"
| "list_loop env user gs pb (f # fs) db = (case repair_parent env (acc_id user) pb (ob_folders db) f of
      (f1, pb', rows) \<Rightarrow>
        (case f1 of
          None \<Rightarrow> (Inl ServerError, db\<lparr>ob_folders := rows\<rparr>)
        | Some f2 \<Rightarrow> (case clean_files env (db\<lparr>ob_folders := rows\<rparr>) user gs f2 of
            Inl e \<Rightarrow> (Inl e, db\<lparr>ob_folders := rows\<rparr>)
          | Inr (f3, rows') \<Rightarrow> (case list_loop env user gs pb' fs (db\<lparr>ob_folders := rows'\<rparr>) of
              (Inl e, db') \<Rightarrow> (Inl e, db')
            | (Inr rest, db') \<Rightarrow> (Inr (f3 # rest), db')))))"

text \<open>The counts of unread chats, added to every folder on the way up.\<close>

function unread_walk :: "parents \<Rightarrow> string list \<Rightarrow> nat \<Rightarrow> string option \<Rightarrow> (string, nat) dict \<Rightarrow> (string, nat) dict" where
  "unread_walk pb seen n None counts = counts"
| "unread_walk pb seen n (Some c) counts =
     (if c = [] \<or> List.member seen c then counts
      else unread_walk pb (c # seen) n (parent_get pb c)
             (case map_of counts c of None \<Rightarrow> counts | Some m \<Rightarrow> AList.update c (m + n) counts))"
  by pat_completeness auto

termination unread_walk
proof (relation "measure (\<lambda>(pb, seen, n, x, counts). card (parents_universe pb x - set seen))", goal_cases)
  case (2 pb seen n c counts)
  then have "parents_universe pb (parent_get pb c) - set (c # seen) \<subset> parents_universe pb (Some c) - set seen"
    using parent_get_universe [of pb c "Some c"] by (auto simp: parents_universe_def)
  then have "card (parents_universe pb (parent_get pb c) - set (c # seen)) < card (parents_universe pb (Some c) - set seen)"
    by (rule psubset_card_mono [rotated]) simp
  then show ?case by simp
qed simp

definition parents_of :: "folders \<Rightarrow> parents" where
  "parents_of fs = fold (\<lambda>f d. AList.update (fo_id f) (fo_parent_id f) d) fs []"

text \<open>\<open>direct\<close> is \<open>Chats.count_unread_by_folder_ids\<close>.\<close>

definition get_folder_unread_counts ::
  "(string list \<Rightarrow> (string \<times> nat) list) \<Rightarrow> string \<Rightarrow> objects_db \<Rightarrow> (http_error, (string, nat) dict) result" where
  "get_folder_unread_counts direct user_id db =
     rbind (server_error (get_folders_by_user_id user_id (ob_folders db))) (\<lambda>fs.
       let pb = parents_of fs
       in Inr (fold (\<lambda>(i, n) counts. unread_walk pb [] n (Some i) counts) (direct (map fst pb)) (map (\<lambda>(i, p). (i, 0)) pb)))"

definition get_folders ::
  "folder_env \<Rightarrow> (objects_db \<Rightarrow> string list \<Rightarrow> (string \<times> nat) list) \<Rightarrow> user_account \<Rightarrow> objects_db \<Rightarrow> (folder_row \<times> nat) list response" where
  "get_folders env direct user db =
     guarded db (check_folders_permission env db user) (\<lambda>_.
     guarded db (server_error (get_folders_by_user_id (acc_id user) (ob_folders db))) (\<lambda>fs.
       let gs = (if acc_role user \<noteq> ''admin'' \<and> list_ex (\<lambda>f. case fo_data f of None \<Rightarrow> False | Some d \<Rightarrow> has_key d ''files'') fs
                 then Some (member_group_ids (acc_id user) (ob_groups db)) else None)
       in case list_loop env user gs (parents_of fs) fs db of
         (Inl e, db') \<Rightarrow> (Inl e, db')
       | (Inr listed, db') \<Rightarrow>
           guarded db' (get_folder_unread_counts (direct db') (acc_id user) db') (\<lambda>counts.
             (Inr (map (\<lambda>f. (f, case map_of counts (fo_id f) of None \<Rightarrow> 0 | Some n \<Rightarrow> n)) listed), db'))))"

subsection \<open>Creating and changing folders\<close>

definition data_files :: "(string, pyval) dict option \<Rightarrow> pyval option" where
  "data_files data = (case data of None \<Rightarrow> None | Some d \<Rightarrow> if d = [] then None else map_of d ''files'')"

text \<open>\<open>'files' in data and not await can_read_all_folder_files(\<dots>)\<close>.\<close>

definition files_allowed :: "objects_db \<Rightarrow> (string, pyval) dict option \<Rightarrow> user_account \<Rightarrow> (http_error, unit) result" where
  "files_allowed db data user = (case data_files data of
      None \<Rightarrow> Inr ()
    | Some files \<Rightarrow> rbind (server_error (can_read_all_folder_files db files user)) (\<lambda>b. if b then Inr () else Inl Forbidden))"

definition insert_as :: "folder_env \<Rightarrow> string \<Rightarrow> folder_form \<Rightarrow> objects_db \<Rightarrow> folder_row response" where
  "insert_as env owner form db = (case insert_new_folder (fe_uuid env 0) (fe_clock env) owner form (ff_parent_id form) (ob_folders db) of
      (None, rows) \<Rightarrow> (Inl BadRequest, db\<lparr>ob_folders := rows\<rparr>)
    | (Some f, rows) \<Rightarrow> (Inr f, db\<lparr>ob_folders := rows\<rparr>))"

definition create_folder :: "folder_env \<Rightarrow> user_account \<Rightarrow> folder_form \<Rightarrow> objects_db \<Rightarrow> folder_row response" where
  "create_folder env user form db =
     guarded db (check_folders_permission env db user) (\<lambda>_.
       if get_folder_by_parent_id_and_user_id_and_name (fe_lower env) (ff_parent_id form) (acc_id user) (ff_name form) (ob_folders db) \<noteq> None
       then (Inl BadRequest, db)
       else case (case ff_parent_id form of None \<Rightarrow> None | Some p \<Rightarrow> if p = [] then None else Folder_Store.get_folder_by_id p (ob_folders db)) of
           Some parent \<Rightarrow>
             if fo_user_id parent \<noteq> acc_id user
             then (if acc_role user \<noteq> ''admin'' \<and> \<not> folder_access db (acc_id user) parent ''write'' then (Inl Forbidden, db)
                   else case data_files (ff_data form) of
                     None \<Rightarrow> insert_as env (fo_user_id parent) form db
                   | Some files \<Rightarrow> (case get_user_by_id (fo_user_id parent) db of
                       None \<Rightarrow> (Inl NotFound, db)
                     | Some owner \<Rightarrow> guarded db (files_allowed db (ff_data form) owner) (\<lambda>_. insert_as env (fo_user_id parent) form db)))
             else guarded db (files_allowed db (ff_data form) user) (\<lambda>_. insert_as env (acc_id user) form db)
         | None \<Rightarrow> guarded db (files_allowed db (ff_data form) user) (\<lambda>_. insert_as env (acc_id user) form db))"

text \<open>The folder an endpoint acts on: one's own, or another's with the permission.\<close>

definition find_folder :: "objects_db \<Rightarrow> user_account \<Rightarrow> string \<Rightarrow> string \<Rightarrow> folder_row option" where
  "find_folder db user i perm = (case get_folder_by_id_and_user_id i (acc_id user) (ob_folders db) of
      Some f \<Rightarrow> Some f
    | None \<Rightarrow> (case Folder_Store.get_folder_by_id i (ob_folders db) of
        None \<Rightarrow> None
      | Some f \<Rightarrow> if acc_role user = ''admin'' \<or> folder_access db (acc_id user) f perm then Some f else None))"

definition get_folder_endpoint :: "folder_env \<Rightarrow> user_account \<Rightarrow> string \<Rightarrow> objects_db \<Rightarrow> (folder_row \<times> access_grant list) response" where
  "get_folder_endpoint env user i db =
     guarded db (check_folders_permission env db user) (\<lambda>_. case find_folder db user i ''read'' of
         None \<Rightarrow> (Inl NotFound, db)
       | Some f \<Rightarrow> (Inr (f, get_grants_by_resource ''folder'' i (ob_grants db)), db))"

definition update_folder_name_by_id ::
  "folder_env \<Rightarrow> user_account \<Rightarrow> string \<Rightarrow> folder_update \<Rightarrow> objects_db \<Rightarrow> folder_row response" where
  "update_folder_name_by_id env user i form db =
     guarded db (check_folders_permission env db user) (\<lambda>_. case find_folder db user i ''write'' of
         None \<Rightarrow> (Inl NotFound, db)
       | Some f \<Rightarrow>
           if (case fu_name form of
                 Some (Some n) \<Rightarrow> (case get_folder_by_parent_id_and_user_id_and_name (fe_lower env) (fo_parent_id f) (fo_user_id f) n (ob_folders db) of
                     None \<Rightarrow> False | Some e \<Rightarrow> fo_id e \<noteq> i)
               | _ \<Rightarrow> False) then (Inl BadRequest, db)
           else
             let data = (case fu_data form of None \<Rightarrow> None | Some d \<Rightarrow> d);
                 update = (case update_folder_by_id_and_user_id (fe_clock env 0) i (fo_user_id f) form (ob_folders db) of
                     (None, rows) \<Rightarrow> (Inl BadRequest, db\<lparr>ob_folders := rows\<rparr>)
                   | (Some f', rows) \<Rightarrow> (Inr f', db\<lparr>ob_folders := rows\<rparr>))
             in case data_files data of
                 None \<Rightarrow> update
               | Some files \<Rightarrow> (case (if fo_user_id f = acc_id user then Some user else get_user_by_id (fo_user_id f) db) of
                   None \<Rightarrow> (Inl NotFound, db)
                 | Some owner \<Rightarrow> guarded db (files_allowed db data owner) (\<lambda>_. update)))"

definition update_folder_parent_id_by_id ::
  "folder_env \<Rightarrow> user_account \<Rightarrow> string \<Rightarrow> string option \<Rightarrow> objects_db \<Rightarrow> folder_row option response" where
  "update_folder_parent_id_by_id env user i parent_id db =
     guarded db (check_folders_permission env db user) (\<lambda>_.
       case get_folder_by_id_and_user_id i (acc_id user) (ob_folders db) of
         None \<Rightarrow> (Inl NotFound, db)
       | Some f \<Rightarrow>
           if get_folder_by_parent_id_and_user_id_and_name (fe_lower env) parent_id (acc_id user)
                (case fo_name f of None \<Rightarrow> [] | Some n \<Rightarrow> n) (ob_folders db) \<noteq> None then (Inl BadRequest, db)
           else
             let move = (case update_folder_parent_id_by_id_and_user_id (fe_clock env 0) i (acc_id user) parent_id (ob_folders db) of
                   (f', rows) \<Rightarrow> (Inr f', db\<lparr>ob_folders := rows\<rparr>))
             in case parent_id of
                 None \<Rightarrow> move
               | Some p \<Rightarrow>
                   if p = [] then move
                   else guarded db (server_error (get_folder_ids_by_id_and_user_id_in_subtree i (acc_id user) (ob_folders db))) (\<lambda>ids.
                     if List.member ids p then (Inl BadRequest, db) else move))"

definition update_folder_is_expanded_by_id ::
  "folder_env \<Rightarrow> user_account \<Rightarrow> string \<Rightarrow> bool \<Rightarrow> objects_db \<Rightarrow> folder_row option response" where
  "update_folder_is_expanded_by_id env user i expanded db =
     guarded db (check_folders_permission env db user) (\<lambda>_.
       let update = (case update_folder_is_expanded_by_id_and_user_id (fe_clock env 0) i (acc_id user) expanded (ob_folders db) of
             (f', rows) \<Rightarrow> (Inr f', db\<lparr>ob_folders := rows\<rparr>))
       in case get_folder_by_id_and_user_id i (acc_id user) (ob_folders db) of
         Some f \<Rightarrow> update
       | None \<Rightarrow> (case Folder_Store.get_folder_by_id i (ob_folders db) of
           None \<Rightarrow> (Inl NotFound, db)
         | Some f \<Rightarrow> if acc_role user = ''admin'' \<or> folder_access db (acc_id user) f ''read'' then (Inr (Some f), db) else update))"

text \<open>Sharing: the public permission key of folders is \<open>None\<close>, and no key is given for \<open>anyone\<close>.\<close>

definition update_folder_access_by_id ::
  "folder_env \<Rightarrow> user_account \<Rightarrow> string \<Rightarrow> (string, pyval) dict list \<Rightarrow> objects_db \<Rightarrow> (folder_row \<times> access_grant list) response" where
  "update_folder_access_by_id env user i access_grants db =
     guarded db (check_folders_permission env db user) (\<lambda>_. case Folder_Store.get_folder_by_id i (ob_folders db) of
         None \<Rightarrow> (Inl NotFound, db)
       | Some f \<Rightarrow>
           if acc_role user \<noteq> ''admin'' \<and> acc_id user \<noteq> fo_user_id f \<and> \<not> folder_access db (acc_id user) f ''write'' then (Inl Forbidden, db)
           else
             guarded db (server_error (filter_allowed_access_grants (fe_uuid env) (fe_base env) (ob_groups db) (fe_permissions env) (acc_id user)
               (acc_role user) (map (GVal \<circ> PDict) access_grants) None None)) (\<lambda>gs.
             guarded db (server_error (set_access_grants (fe_uuid env) (fe_uuid env) (fe_clock env) ''folder'' i gs (ob_grants db))) (\<lambda>(new, t).
               (Inr (f, get_grants_by_resource ''folder'' i t), db\<lparr>ob_grants := t\<rparr>))))"

subsection \<open>Shared folders\<close>

definition shared_children :: "objects_db \<Rightarrow> (string \<times> string) list \<Rightarrow> folder_row \<Rightarrow> (folder_row \<times> string) list" where
  "shared_children db perms f =
     map (\<lambda>c. (c, case map_of perms (fo_id f) of None \<Rightarrow> [] | Some p \<Rightarrow> p))
       (case get_children_folders_by_id_and_user_id (fo_id f) (fo_user_id f) (ob_folders db) of None \<Rightarrow> [] | Some cs \<Rightarrow> cs)"

fun add_unseen :: "string list \<Rightarrow> (folder_row \<times> string) list \<Rightarrow> (folder_row \<times> string) list" where
  "add_unseen seen [] = []"
| "add_unseen seen ((c, p) # rest) = (if List.member seen (fo_id c) then add_unseen seen rest else (c, p) # add_unseen (fo_id c # seen) rest)"

definition get_shared_folders :: "folder_env \<Rightarrow> user_account \<Rightarrow> objects_db \<Rightarrow> (folder_row \<times> string) list response" where
  "get_shared_folders env user db =
     guarded db (check_folders_permission env db user) (\<lambda>_.
       let perms = get_shared_folder_ids_for_user (acc_id user) (member_group_ids (acc_id user) (ob_groups db)) (ob_grants db)
       in guarded db (server_error (get_folders_by_ids (map fst perms) (ob_folders db))) (\<lambda>fs.
            let shared = filter (\<lambda>f. fo_user_id f \<noteq> acc_id user) fs
            in (Inr (map (\<lambda>f. (f, case map_of perms (fo_id f) of None \<Rightarrow> [] | Some p \<Rightarrow> p)) shared
                     @ add_unseen (map fo_id shared) (concat (map (shared_children db perms) shared))), db)))"

subsection \<open>Deleting\<close>

definition count_chats_in :: "string list \<Rightarrow> string \<Rightarrow> objects_db \<Rightarrow> nat" where
  "count_chats_in ids user_id db =
     length (filter (\<lambda>c. ct_user_id c = user_id \<and> (case ct_folder_id c of None \<Rightarrow> False | Some i \<Rightarrow> List.member ids i)
       \<and> \<not> is_internal_chat (ct_meta c)) (ob_chats db))"

text \<open>What is done for one deleted folder: its chats, then its grants.\<close>

definition clear_folder :: "bool \<Rightarrow> string \<Rightarrow> string \<Rightarrow> objects_db \<Rightarrow> objects_db" where
  "clear_folder delete_contents owner i db =
     db\<lparr>ob_chats := (if delete_contents then filter (\<lambda>c. \<not> (ct_user_id c = owner \<and> ct_folder_id c = Some i)) (ob_chats db)
                     else map (\<lambda>c. if ct_user_id c = owner \<and> ct_folder_id c = Some i then c\<lparr>ct_folder_id := None\<rparr> else c) (ob_chats db)),
        ob_grants := snd (revoke_all_access ''folder'' i (ob_grants db))\<rparr>"

definition delete_folder_by_id :: "folder_env \<Rightarrow> user_account \<Rightarrow> string \<Rightarrow> bool \<Rightarrow> objects_db \<Rightarrow> bool response" where
  "delete_folder_by_id env user i delete_contents db =
     guarded db (check_folders_permission env db user) (\<lambda>_.
     guarded db (case get_folder_by_id_and_user_id i (acc_id user) (ob_folders db) of
           Some f \<Rightarrow> Inr f
         | None \<Rightarrow> (case Folder_Store.get_folder_by_id i (ob_folders db) of
             None \<Rightarrow> Inl NotFound
           | Some f \<Rightarrow> if acc_role user \<noteq> ''admin'' then Inl Forbidden else Inr f)) (\<lambda>f.
     guarded db (server_error (get_folder_ids_by_id_and_user_id_in_subtree i (fo_user_id f) (ob_folders db))) (\<lambda>ids.
     guarded db (if count_chats_in ids (fo_user_id f) db = 0 then Inr ()
                 else rbind (permission_of env db user (Some ''chat.delete'')) (\<lambda>b.
                   if acc_role user \<noteq> ''admin'' \<and> \<not> b then Inl Forbidden else Inr ())) (\<lambda>_.
       case delete_folder_by_id_and_user_id i (fo_user_id f) (ob_folders db) of
         (deleted, rows) \<Rightarrow>
           (rbind (server_error (get_folders_by_parent_id_and_user_id (Some i) (fo_user_id f) rows)) (\<lambda>subfolders. Inr True),
            fold (clear_folder delete_contents (fo_user_id f)) deleted (db\<lparr>ob_folders := rows\<rparr>))))))"

subsection \<open>A loop of parents is found\<close>

definition parent_rel :: "parents \<Rightarrow> (string \<times> string) set" where
  "parent_rel pb = {(c, p). map_of pb c = Some (Some p) \<and> p \<noteq> []}"

text \<open>The number of steps from a folder up to another.\<close>

definition steps_to :: "(string \<times> string) set \<Rightarrow> string \<Rightarrow> string \<Rightarrow> nat" where
  "steps_to R i c = (LEAST n. (c, i) \<in> R ^^ n)"

lemma steps_to_Suc:
  assumes "(c, i) \<in> R\<^sup>*" "c \<noteq> i"
  shows "\<exists>c'. (c, c') \<in> R \<and> (c', i) \<in> R\<^sup>* \<and> steps_to R i c = Suc (steps_to R i c')"
proof -
  let ?n = "steps_to R i c"
  have n: "(c, i) \<in> R ^^ ?n" unfolding steps_to_def using assms(1) by (metis LeastI_ex rtrancl_imp_relpow)
  then obtain m where m: "?n = Suc m" using assms(2) by (cases ?n) auto
  with n obtain c' where c': "(c, c') \<in> R" "(c', i) \<in> R ^^ m" by (metis relpow_Suc_D2)
  have "steps_to R i c' = m"
  proof (rule antisym)
    show "steps_to R i c' \<le> m" unfolding steps_to_def by (rule Least_le) (rule c')
    have "(c', i) \<in> R ^^ steps_to R i c'" unfolding steps_to_def by (rule LeastI) (rule c')
    then have "(c, i) \<in> R ^^ Suc (steps_to R i c')" by (rule relpow_Suc_I2 [OF c'(1)])
    then have "?n \<le> Suc (steps_to R i c')" unfolding steps_to_def by (rule Least_le)
    with m show "m \<le> steps_to R i c'" by simp
  qed
  with c' m show ?thesis by (auto intro: relpow_imp_rtrancl)
qed

lemma cycle_end_finds:
  assumes "i \<in> set seen" "(c, i) \<in> (parent_rel pb)\<^sup>*" "c \<noteq> []"
    and "\<forall>x \<in> set seen. x = i \<or> steps_to (parent_rel pb) i c < steps_to (parent_rel pb) i x"
  shows "cycle_end pb seen (Some c) = Some i"
  using assms
proof (induction "steps_to (parent_rel pb) i c" arbitrary: c seen rule: less_induct)
  case less
  show ?case
  proof (cases "c = i")
    case True
    with less.prems show ?thesis by simp
  next
    case False
    then have new: "c \<notin> set seen" using less.prems(4) by auto
    obtain c' where c': "(c, c') \<in> parent_rel pb" "(c', i) \<in> (parent_rel pb)\<^sup>*"
      and d: "steps_to (parent_rel pb) i c = Suc (steps_to (parent_rel pb) i c')" using steps_to_Suc [OF less.prems(2) False] by blast
    have get: "parent_get pb c = Some c'" "c' \<noteq> []" using c'(1) by (auto simp: parent_rel_def parent_get_def)
    have "cycle_end pb (c # seen) (Some c') = Some i"
      using less.hyps [of c' "c # seen"] less.prems c'(2) d get(2) by fastforce
    then show ?thesis using new less.prems(3) get(1) by simp
  qed
qed

lemma parent_cycle_found:
  assumes "(i, i) \<in> (parent_rel pb)\<^sup>+"
  shows "is_in_parent_cycle pb i"
proof -
  obtain c where c: "(i, c) \<in> parent_rel pb" "(c, i) \<in> (parent_rel pb)\<^sup>*" using assms by (meson tranclD)
  then have "parent_get pb i = Some c" "c \<noteq> []" by (auto simp: parent_rel_def parent_get_def)
  with cycle_end_finds [of i "[i]" c pb] c(2) show ?thesis by (simp add: is_in_parent_cycle_def del: cycle_end.simps)
qed

subsection \<open>What the listing leaves\<close>

text \<open>The columns that make the tree.\<close>

definition skeleton :: "folders \<Rightarrow> (string \<times> string \<times> string option) list" where
  "skeleton rows = map (\<lambda>r. (fo_id r, fo_user_id r, fo_parent_id r)) rows"

definition tree_inv :: "string \<Rightarrow> folders \<Rightarrow> parents \<Rightarrow> bool" where
  "tree_inv u rows pb \<longleftrightarrow> distinct (map fo_id rows) \<and> (\<forall>i p. map_of pb i = Some p \<longleftrightarrow> (i, u, p) \<in> set (skeleton rows))"

definition placed :: "parents \<Rightarrow> string \<Rightarrow> bool" where
  "placed pb i \<longleftrightarrow> (i, i) \<notin> (parent_rel pb)\<^sup>+ \<and> (\<forall>p. map_of pb i = Some (Some p) \<longrightarrow> p \<noteq> [] \<longrightarrow> has_key pb p)"

lemma skeleton_ids: "map fst (skeleton rows) = map fo_id rows"
  by (simp add: skeleton_def comp_def)

lemma tree_inv_skeleton: "skeleton rows' = skeleton rows \<Longrightarrow> tree_inv u rows pb \<Longrightarrow> tree_inv u rows' pb"
  unfolding tree_inv_def skeleton_ids [symmetric] by simp

lemma same_id: "distinct (map fo_id rows) \<Longrightarrow> r \<in> set rows \<Longrightarrow> s \<in> set rows \<Longrightarrow> fo_id r = fo_id s \<Longrightarrow> r = s"
  by (simp add: distinct_map inj_on_def)

lemma put_folder_skeleton:
  assumes "select_folder i u rows = Some f" "distinct (map fo_id rows)" "fo_id f' = fo_id f" "fo_user_id f' = fo_user_id f" "fo_parent_id f' = fo_parent_id f"
  shows "skeleton (put_folder i f' rows) = skeleton rows"
proof -
  have f: "f \<in> set rows" "fo_id f = i" using select_folder_id [OF assms(1)] by auto
  have "r = f" if "r \<in> set rows" "fo_id r = i" for r
    using same_id [OF assms(2) that(1) f(1)] that(2) f(2) by simp
  then have "(\<lambda>r. (fo_id r, fo_user_id r, fo_parent_id r)) (if fo_id r = i then f' else r) = (fo_id r, fo_user_id r, fo_parent_id r)" if "r \<in> set rows" for r
    using that assms(3-5) f(2) by (cases "fo_id r = i") fastforce+
  then show ?thesis by (simp add: skeleton_def put_folder_def)
qed

lemma update_folder_skeleton:
  assumes "distinct (map fo_id rows)"
  shows "skeleton (snd (update_folder_by_id_and_user_id now i u form rows)) = skeleton rows"
proof (cases "select_folder i u rows")
  case (Some f)
  then show ?thesis
    using put_folder_skeleton [OF Some assms]
    by (auto simp: update_folder_by_id_and_user_id_def Let_def split: option.splits sum.splits prod.splits)
qed (simp add: update_folder_by_id_and_user_id_def)

lemma clean_files_skeleton:
  assumes "clean_files env db user gs f = Inr (f', rows')" "distinct (map fo_id (ob_folders db))"
  shows "skeleton rows' = skeleton (ob_folders db)"
  using assms update_folder_skeleton [OF assms(2)]
  by (auto simp: clean_files_def rbind_Inr_iff Let_def split: option.splits if_splits)

text \<open>Taking a folder to the root.\<close>

lemma parent_rel_reset: "parent_rel (AList.update i None pb) = {(c, p) \<in> parent_rel pb. c \<noteq> i}"
  by (auto simp: parent_rel_def split: if_splits)

lemma placed_reset: "placed pb j \<Longrightarrow> has_key pb i \<Longrightarrow> placed (AList.update i None pb) j"
proof -
  assume "placed pb j" "has_key pb i"
  moreover have "(parent_rel (AList.update i None pb))\<^sup>+ \<subseteq> (parent_rel pb)\<^sup>+" by (rule trancl_mono_subset) (auto simp: parent_rel_reset)
  ultimately show ?thesis by (auto simp: placed_def has_key_def split: if_splits)
qed

lemma placed_root: "placed (AList.update i None pb) i"
  by (auto simp: placed_def parent_rel_reset dest: tranclD)

lemma reset_tree_inv:
  assumes "tree_inv u rows pb" "select_folder i u rows = Some f"
  shows "tree_inv u (put_folder i (f\<lparr>fo_parent_id := None, fo_updated_at := now\<rparr>) rows) (AList.update i None pb)"
proof -
  have f: "f \<in> set rows" "fo_id f = i" "fo_user_id f = u" using select_folder_id [OF assms(2)] by auto
  have d: "distinct (map fo_id rows)" using assms(1) by (simp add: tree_inv_def)
  have "map fo_id (put_folder i (f\<lparr>fo_parent_id := None, fo_updated_at := now\<rparr>) rows) = map fo_id rows"
    using f by (auto simp: put_folder_def)
  moreover have "(j, u, p) \<in> set (skeleton (put_folder i (f\<lparr>fo_parent_id := None, fo_updated_at := now\<rparr>) rows))
      \<longleftrightarrow> (if j = i then p = None else (j, u, p) \<in> set (skeleton rows))" for j p
  proof (cases "j = i")
    case True
    then show ?thesis using f by (auto simp: skeleton_def put_folder_def image_iff split: if_splits)
  next
    case False
    then show ?thesis using f by (auto simp: skeleton_def put_folder_def image_iff split: if_splits)
  qed
  ultimately show ?thesis using assms(1) d by (auto simp: tree_inv_def)
qed

lemma repair_parent_step:
  assumes inv: "tree_inv u rows pb" and f: "map_of pb (fo_id f) = Some (fo_parent_id f)"
    and r: "repair_parent env u pb rows f = (f1, pb', rows')"
  shows "tree_inv u rows' pb' \<and> placed pb' (fo_id f) \<and> (\<forall>j. placed pb j \<longrightarrow> placed pb' j) \<and> (\<forall>j. has_key pb' j = has_key pb j)
    \<and> (\<forall>j. j \<noteq> fo_id f \<longrightarrow> map_of pb' j = map_of pb j)"
proof (cases "\<exists>p. fo_parent_id f = Some p \<and> p \<noteq> [] \<and> (\<not> has_key pb p \<or> is_in_parent_cycle pb (fo_id f))")
  case True
  have "(fo_id f, u, fo_parent_id f) \<in> set (skeleton rows)" using inv f by (auto simp: tree_inv_def)
  then have "find (\<lambda>r. fo_id r = fo_id f \<and> fo_user_id r = u) rows \<noteq> None" by (auto simp: skeleton_def find_None_iff)
  then obtain g where g: "select_folder (fo_id f) u rows = Some g" by (auto simp: select_folder_def)
  have "pb' = AList.update (fo_id f) None pb" "rows' = put_folder (fo_id f) (g\<lparr>fo_parent_id := None, fo_updated_at := fe_clock env 0\<rparr>) rows"
    using True r by (auto simp: repair_parent_def update_folder_parent_id_by_id_and_user_id_def g Let_def split: if_splits)
  moreover have "has_key pb (fo_id f)" using f by (simp add: has_key_def)
  ultimately show ?thesis using reset_tree_inv [OF inv g] placed_root placed_reset by (auto simp: has_key_def)
next
  case False
  then have same: "pb' = pb" "rows' = rows" using r by (auto simp: repair_parent_def split: option.splits if_splits)
  have "(fo_id f, fo_id f) \<notin> (parent_rel pb)\<^sup>+"
  proof
    assume c: "(fo_id f, fo_id f) \<in> (parent_rel pb)\<^sup>+"
    then obtain p where "(fo_id f, p) \<in> parent_rel pb" by (meson tranclD)
    then have "fo_parent_id f = Some p" "p \<noteq> []" using f by (auto simp: parent_rel_def)
    with False parent_cycle_found [OF c] show False by blast
  qed
  then have "placed pb (fo_id f)" using False f by (auto simp: placed_def)
  with same inv show ?thesis by simp
qed

lemma list_loop_places:
  assumes "list_loop env user gs pb fs db = (Inr l, db')" "tree_inv (acc_id user) (ob_folders db) pb"
    and "distinct (map fo_id fs)" "\<forall>f \<in> set fs. map_of pb (fo_id f) = Some (fo_parent_id f)"
  shows "\<exists>pb'. tree_inv (acc_id user) (ob_folders db') pb' \<and> (\<forall>j. has_key pb' j = has_key pb j) \<and> (\<forall>f \<in> set fs. placed pb' (fo_id f))
    \<and> (\<forall>j. placed pb j \<longrightarrow> placed pb' j)"
  using assms
proof (induction env user gs pb fs db arbitrary: l db' rule: list_loop.induct)
  case (1 env user gs pb db)
  then show ?case by auto
next
  case (2 env user gs pb f fs db)
  obtain f1 pb1 rows1 where r: "repair_parent env (acc_id user) pb (ob_folders db) f = (f1, pb1, rows1)" by (metis prod_cases3)
  from "2.prems"(1) r obtain f2 f3 rows2 rest where f1: "f1 = Some f2"
    and c: "clean_files env (db\<lparr>ob_folders := rows1\<rparr>) user gs f2 = Inr (f3, rows2)"
    and l: "list_loop env user gs pb1 fs (db\<lparr>ob_folders := rows2\<rparr>) = (Inr rest, db')"
    by (auto split: option.splits sum.splits prod.splits)
  have step: "tree_inv (acc_id user) rows1 pb1" "placed pb1 (fo_id f)" "\<forall>j. placed pb j \<longrightarrow> placed pb1 j"
      "\<forall>j. has_key pb1 j = has_key pb j" "\<forall>j. j \<noteq> fo_id f \<longrightarrow> map_of pb1 j = map_of pb j"
    using repair_parent_step [OF "2.prems"(2) _ r] "2.prems"(4) by auto
  have "skeleton rows2 = skeleton rows1" using clean_files_skeleton [OF c] step(1) by (simp add: tree_inv_def)
  then have "tree_inv (acc_id user) (ob_folders (db\<lparr>ob_folders := rows2\<rparr>)) pb1" using tree_inv_skeleton step(1) by simp
  moreover have "\<forall>g \<in> set fs. map_of pb1 (fo_id g) = Some (fo_parent_id g)"
  proof
    fix g assume "g \<in> set fs"
    moreover from this have "fo_id g \<noteq> fo_id f" using "2.prems"(3) by (auto simp: image_iff)
    ultimately show "map_of pb1 (fo_id g) = Some (fo_parent_id g)" using step(5) "2.prems"(4) by simp
  qed
  ultimately obtain pb' where "tree_inv (acc_id user) (ob_folders db') pb'" "\<forall>j. has_key pb' j = has_key pb1 j" "\<forall>g \<in> set fs. placed pb' (fo_id g)"
    "\<forall>j. placed pb1 j \<longrightarrow> placed pb' j"
    using "2.IH" [OF r [symmetric] refl f1 c refl l] "2.prems"(3) by auto
  then show ?case using step by auto
qed

lemma parents_of_map:
  assumes "distinct (map fo_id fs)"
  shows "map_of (parents_of fs) i = Some p \<longleftrightarrow> (\<exists>f \<in> set fs. fo_id f = i \<and> fo_parent_id f = p)"
proof -
  have "map_of (fold (\<lambda>f d. AList.update (fo_id f) (fo_parent_id f) d) fs d) i = Some p \<longleftrightarrow>
      (\<exists>f \<in> set fs. fo_id f = i \<and> fo_parent_id f = p) \<or> i \<notin> fo_id ` set fs \<and> map_of d i = Some p" for d
    using assms
  proof (induction fs arbitrary: d)
    case (Cons f fs)
    then have IH: "map_of (fold (\<lambda>f d. AList.update (fo_id f) (fo_parent_id f) d) fs (AList.update (fo_id f) (fo_parent_id f) d)) i = Some p \<longleftrightarrow>
      (\<exists>f \<in> set fs. fo_id f = i \<and> fo_parent_id f = p) \<or> i \<notin> fo_id ` set fs \<and> map_of (AList.update (fo_id f) (fo_parent_id f) d) i = Some p"
      by simp
    show ?case using Cons.prems unfolding fold_simps(2) IH by (auto simp: image_iff)
  qed simp
  from this [of "[]"] show ?thesis by (simp add: parents_of_def)
qed

text \<open>A map of parents in which every folder has its place gives a tree.\<close>

lemma placed_acyclic:
  assumes edge: "E = {(p, c). map_of pb c = Some (Some p)}" and ne: "\<And>c p. map_of pb c = Some p \<Longrightarrow> c \<noteq> []"
    and placed: "\<And>c. has_key pb c \<Longrightarrow> placed pb c"
  shows "acyclic E"
proof (rule acyclicI, rule allI, rule notI)
  fix x assume x: "(x, x) \<in> E\<^sup>+"
  have upwards: "(b, a) \<in> (parent_rel pb)\<^sup>+" if "(a, b) \<in> E\<^sup>+" "a \<noteq> []" for a b
    using that
  proof (induction rule: trancl_induct)
    case (base b)
    then show ?case by (auto simp: edge parent_rel_def)
  next
    case (step b c)
    have "b \<noteq> []" using step(1) ne by (auto simp: edge dest: tranclD2)
    then have "(c, b) \<in> parent_rel pb" using step(2) by (auto simp: edge parent_rel_def)
    with step show ?case by (meson trancl_into_trancl2)
  qed
  obtain p where "map_of pb x = Some (Some p)" using x by (auto simp: edge dest: tranclD2)
  with placed [of x] ne upwards [OF x] show False by (auto simp: placed_def has_key_def)
qed

text \<open>C30: Listing the folders of a user repairs their tree: when the listing succeeds, no folder of the user is its own
  ancestor any more, and every parent that is set is a folder of the user.\<close>

theorem listing_repairs_tree:
  assumes get: "get_folders env direct user db = (Inr l, db')"
    and d: "distinct (map fo_id (ob_folders db))" and ids: "[] \<notin> fo_id ` set (ob_folders db)"
  shows "acyclic (child_edge (ob_folders db') (acc_id user))
    \<and> (\<forall>r. r \<in> set (ob_folders db') \<and> fo_user_id r = acc_id user \<longrightarrow> fo_parent_id r \<in> {None, Some []} \<union>
         Some ` {fo_id r' | r'. r' \<in> set (ob_folders db') \<and> fo_user_id r' = acc_id user})"
proof -
  let ?u = "acc_id user" and ?mine = "filter (\<lambda>r. fo_user_id r = acc_id user) (ob_folders db)"
  from get obtain gs where l: "list_loop env user gs (parents_of ?mine) ?mine db = (Inr (map fst l), db')"
    by (auto simp: get_folders_def guarded_def server_error_def get_folders_by_user_id_def validate_all_Inr Let_def comp_def
        split: sum.splits prod.splits)
  have dm: "distinct (map fo_id ?mine)" using d by (simp add: distinct_map_filter)
  note pm = parents_of_map [OF dm]
  have inv: "tree_inv ?u (ob_folders db) (parents_of ?mine)"
    unfolding tree_inv_def pm using d by (auto simp: skeleton_def)
  from list_loop_places [OF l inv dm] pm obtain pb where inv': "tree_inv ?u (ob_folders db') pb"
    and keys: "\<forall>j. has_key pb j = has_key (parents_of ?mine) j" and placed: "\<forall>f \<in> set ?mine. placed pb (fo_id f)" by blast
  have key: "has_key pb j \<longleftrightarrow> j \<in> fo_id ` set ?mine" for j
    using keys pm [of j] unfolding has_key_def by (auto simp: image_iff)
  have rows: "(\<exists>r \<in> set (ob_folders db'). fo_id r = c \<and> fo_user_id r = ?u \<and> fo_parent_id r = p) \<longleftrightarrow> map_of pb c = Some p" for c p
    using inv' unfolding tree_inv_def skeleton_def by (force simp: image_iff)
  have edge: "child_edge (ob_folders db') ?u = {(p, c). map_of pb c = Some (Some p)}"
    using rows by (auto simp: child_edge_def)
  have "fo_id r \<noteq> []" if "r \<in> set (ob_folders db)" for r using ids that by (metis image_eqI)
  then have ne: "c \<noteq> []" if "map_of pb c = Some p" for c p using key [of c] that by (auto simp: has_key_def)
  have "acyclic (child_edge (ob_folders db') ?u)" by (rule placed_acyclic [OF edge ne]) (use key placed in auto)
  moreover have "fo_parent_id r \<in> {None, Some []} \<union> Some ` {fo_id r' | r'. r' \<in> set (ob_folders db') \<and> fo_user_id r' = ?u}"
    if "r \<in> set (ob_folders db')" "fo_user_id r = ?u" for r
  proof (cases "fo_parent_id r")
    case (Some p)
    have r: "map_of pb (fo_id r) = Some (Some p)" using rows that Some by blast
    then have "placed pb (fo_id r)" using key [of "fo_id r"] placed by (auto simp: has_key_def)
    then have "p = [] \<or> has_key pb p" using r by (auto simp: placed_def)
    then have "p = [] \<or> (\<exists>r' \<in> set (ob_folders db'). fo_id r' = p \<and> fo_user_id r' = ?u)" using rows unfolding has_key_def by blast
    then show ?thesis using Some by auto
  qed simp
  ultimately show ?thesis by blast
qed

definition sample_env :: folder_env where
  "sample_env = \<lparr>fe_enable = PBool True, fe_permissions = [(''features'', PDict [(''folders'', PBool True)])], fe_base = [],
     fe_clock = (\<lambda>n. 7), fe_uuid = sample_uuid, fe_lower = py_lower\<rparr>"

definition sample_db :: objects_db where
  "sample_db = empty_objects\<lparr>ob_folders := sample_folders\<rparr>"

lemma sample_db_simps:
  "ob_folders sample_db = sample_folders" "ob_grants sample_db = []" "ob_groups sample_db = sample_groups"
  by (simp_all add: sample_db_def empty_objects_def)

lemma sample_listing:
  "\<exists>l db'. get_folders sample_env (\<lambda>db ids. []) \<lparr>acc_id = ''u'', acc_role = ''admin''\<rparr> sample_db = (Inr l, db')"
  by (simp add: get_folders_def guarded_def check_folders_permission_def sample_env_def server_error_def get_folders_by_user_id_def
      sample_db_simps sample_folders_def sample_folder_def FolderModel_validate_def parents_of_def repair_parent_def has_key_def
      is_in_parent_cycle_def parent_get_def update_folder_parent_id_by_id_and_user_id_def select_folder_def caught_none_def put_folder_def
      clean_files_def get_folder_unread_counts_def Let_def)

lemma listing_repairs_tree_witness:
  "acyclic (child_edge (ob_folders (snd (get_folders sample_env (\<lambda>db ids. []) \<lparr>acc_id = ''u'', acc_role = ''admin''\<rparr> sample_db))) ''u'')"
proof -
  obtain l db' where g: "get_folders sample_env (\<lambda>db ids. []) \<lparr>acc_id = ''u'', acc_role = ''admin''\<rparr> sample_db = (Inr l, db')"
    using sample_listing by blast
  have "distinct (map fo_id (ob_folders sample_db))" "[] \<notin> fo_id ` set (ob_folders sample_db)"
    by (simp_all add: sample_db_simps sample_folders_def sample_folder_def)
  from listing_repairs_tree [OF g this] g show ?thesis by simp
qed

subsection \<open>Moving a folder\<close>

lemma moved_edges:
  assumes "select_folder i u rows = Some f"
  shows "child_edge (put_folder i (f\<lparr>fo_parent_id := pid, fo_updated_at := now\<rparr>) rows) u \<subseteq> child_edge rows u \<union> (case pid of None \<Rightarrow> {} | Some p \<Rightarrow> {(p, i)})"
  using select_folder_id [OF assms] by (auto simp: child_edge_def put_folder_def split: if_splits option.splits)

text \<open>C31: Moving a folder never makes it its own ancestor: if the folders of the user form a forest, they still do
  after the endpoint has moved one, whatever parent was asked for.\<close>

theorem move_keeps_forest:
  assumes m: "update_folder_parent_id_by_id env user i pid db = (Inr r, db')" and ac: "acyclic (child_edge (ob_folders db) (acc_id user))"
    and named: "all_named (ob_folders db) (acc_id user)" and ids: "[] \<notin> fo_id ` set (ob_folders db)"
  shows "acyclic (child_edge (ob_folders db') (acc_id user))"
proof -
  let ?E = "child_edge (ob_folders db) (acc_id user)" and ?rows = "ob_folders db" and ?u = "acc_id user"
  obtain f where f: "select_folder i ?u ?rows = Some f"
    using m by (auto simp: update_folder_parent_id_by_id_def guarded_def get_folder_by_id_and_user_id_def split: sum.splits option.splits)
  obtain subtree where sub: "get_folder_ids_by_id_and_user_id_in_subtree i ?u ?rows = Inr subtree" "set subtree = ?E\<^sup>* `` {i}"
    using subtree_ids_exact [OF f named] by blast
  have rows: "ob_folders db' = put_folder i (f\<lparr>fo_parent_id := pid, fo_updated_at := fe_clock env 0\<rparr>) ?rows"
    and notin: "\<forall>p. pid = Some p \<longrightarrow> p = [] \<or> p \<notin> set subtree"
    using m by (auto simp: update_folder_parent_id_by_id_def guarded_def server_error_def sub(1) update_folder_parent_id_by_id_and_user_id_def f Let_def
        split: sum.splits option.splits if_splits)
  have "(i, p) \<notin> ?E\<^sup>*" if "pid = Some p" for p
  proof (cases "p = []")
    case True
    have "i \<in> fo_id ` set ?rows" using select_folder_id [OF f] by auto
    moreover have "x \<in> fo_id ` set ?rows" if "(y, x) \<in> ?E" for x y using that by (auto simp: child_edge_def)
    ultimately show ?thesis using True ids by (metis rtranclE)
  next
    case False
    with notin that sub(2) show ?thesis by auto
  qed
  then have "acyclic (?E \<union> (case pid of None \<Rightarrow> {} | Some p \<Rightarrow> {(p, i)}))" using ac by (cases pid) (auto simp: acyclic_insert)
  then show ?thesis unfolding rows by (rule acyclic_subset) (rule moved_edges [OF f])
qed

definition forest_db :: objects_db where
  "forest_db = empty_objects\<lparr>ob_folders := [sample_folder ''a'' None ''u'', sample_folder ''b'' (Some ''a'') ''u'', sample_folder ''c'' (Some ''b'') ''u'']\<rparr>"

lemma forest_acyclic: "acyclic (child_edge (ob_folders forest_db) ''u'')"
proof (rule acyclic_subset)
  show "child_edge (ob_folders forest_db) ''u'' \<subseteq> {(x, y). x < y}"
    by (auto simp: child_edge_def forest_db_def sample_folder_def less_char_def)
  show "acyclic {(x, y). (x :: string) < y}" by (subst acyclic_converse [symmetric], rule acyclicI_order [of _ id]) auto
qed

text \<open>\<open>c\<close> goes to \<open>a\<close>; \<open>a\<close> below \<open>c\<close> is refused.\<close>

lemma move_keeps_forest_witness:
  "acyclic (child_edge (ob_folders (snd (update_folder_parent_id_by_id sample_env \<lparr>acc_id = ''u'', acc_role = ''admin''\<rparr> ''c'' (Some ''a'') forest_db))) ''u'')"
proof -
  let ?u = "\<lparr>acc_id = ''u'', acc_role = ''admin''\<rparr>"
  have "\<exists>r db'. update_folder_parent_id_by_id sample_env ?u ''c'' (Some ''a'') forest_db = (Inr r, db')"
    by (simp add: update_folder_parent_id_by_id_def guarded_def check_folders_permission_def sample_env_def server_error_def forest_db_def
        sample_folder_def get_folder_by_id_and_user_id_def select_folder_def FolderModel_validate_def caught_none_def
        get_folder_by_parent_id_and_user_id_and_name_def get_folder_ids_by_id_and_user_id_in_subtree_def get_folders_by_parent_id_and_user_id_def
        child_rows_def folders_by_updated_def update_folder_parent_id_by_id_and_user_id_def py_lower_def Let_def lower_char_def)
  then obtain r db' where m: "update_folder_parent_id_by_id sample_env ?u ''c'' (Some ''a'') forest_db = (Inr r, db')" by blast
  have "all_named (ob_folders forest_db) (acc_id ?u)" "[] \<notin> fo_id ` set (ob_folders forest_db)"
    by (simp_all add: all_named_def forest_db_def sample_folder_def)
  from move_keeps_forest [OF m _ this] forest_acyclic m show ?thesis by simp
qed

subsection \<open>Sharing a folder with everyone\<close>

text \<open>A user who is not an admin cannot share a folder publicly, permission or not: the permission key for
  it is \<open>None\<close>, so the request ends in a server error and nothing is stored.\<close>

theorem public_folder_share_fails:
  assumes "acc_role user \<noteq> ''admin''" "check_folders_permission env db user = Inr ()"
    and f: "Folder_Store.get_folder_by_id i (ob_folders db) = Some f" "fo_user_id f = acc_id user"
    and g: "g \<in> set gs" "valid_grant g = Some (''user'', ''*'', perm)"
  shows "update_folder_access_by_id env user i gs db = (Inl ServerError, db)"
proof -
  let ?items = "map (GVal \<circ> PDict) gs"
  let ?perm = "\<lambda>key. user_has_permission (fe_base env) (ob_groups db) (acc_id user) key (fe_permissions env)"
  have it: "GVal (PDict g) \<in> set ?items" "item_triple (GVal (PDict g)) = Some (''user'', ''*'', perm)"
    using g by (auto simp: item_triple_def item_dict_def)
  have none: "?perm None = Inl AccessAttributeError" by (simp add: user_has_permission_def)
  obtain gs1 where s1: "stage (has_anyone_read_access_grant (fe_uuid env) ?items) (Inr False) strip_anyone_access_grants ?items = Inr gs1"
    and in1: "GVal (PDict g) \<in> set gs1"
  proof -
    have "item_field (GVal (PDict g)) ''principal_type'' = PStr ''user''" using item_triple_fields [OF it(2)] by simp
    then have "GVal (PDict g) \<in> set (strip_anyone_access_grants ?items)" using it(1) by (auto simp: strip_anyone_access_grants_def)
    then show thesis using it(1) by (intro that [of "if has_anyone_read_access_grant (fe_uuid env) ?items then strip_anyone_access_grants ?items else ?items"])
        (auto simp: stage_def)
  qed
  have "has_public_read_access_grant (fe_uuid env) gs1 \<or> has_public_write_access_grant (fe_uuid env) gs1"
    using triple_permission [OF it(2)] it(2) in1 unfolding has_public_read_access_grant_def has_public_write_access_grant_def normalized_has by blast
  then have "filter_allowed_access_grants (fe_uuid env) (fe_base env) (ob_groups db) (fe_permissions env) (acc_id user) (acc_role user) ?items None None
      = Inl AccessAttributeError"
    using assms(1) it(1) s1 none by (auto simp: filter_allowed_access_grants_def filter_allowed_with_def stage_def)
  then show ?thesis using assms(2) f by (simp add: update_folder_access_by_id_def guarded_def server_error_def)
qed

lemma public_folder_share_fails_witness:
  "update_folder_access_by_id sample_env \<lparr>acc_id = ''z'', acc_role = ''user''\<rparr> ''a''
     [[(''principal_type'', PStr ''user''), (''principal_id'', PStr ''*''), (''permission'', PStr ''read'')]]
     (empty_objects\<lparr>ob_folders := [sample_folder ''a'' None ''z'']\<rparr>)
   = (Inl ServerError, empty_objects\<lparr>ob_folders := [sample_folder ''a'' None ''z'']\<rparr>)"
proof (rule public_folder_share_fails)
  show "check_folders_permission sample_env (empty_objects\<lparr>ob_folders := [sample_folder ''a'' None ''z'']\<rparr>) \<lparr>acc_id = ''z'', acc_role = ''user''\<rparr> = Inr ()"
    by (simp add: check_folders_permission_def permission_of_def server_error_def user_has_permission_def sample_env_def user_permission_none
        empty_objects_def py_truthy_def Let_def)
  show "valid_grant [(''principal_type'', PStr ''user''), (''principal_id'', PStr ''*''), (''permission'', PStr ''read'')] = Some (''user'', ''*'', ''read'')"
    by (simp add: valid_grant_def)
  show "Folder_Store.get_folder_by_id ''a'' (ob_folders (empty_objects\<lparr>ob_folders := [sample_folder ''a'' None ''z'']\<rparr>)) = Some (sample_folder ''a'' None ''z'')"
    by (simp add: Folder_Store.get_folder_by_id_def sample_folder_def caught_none_def FolderModel_validate_def)
qed (simp_all add: sample_folder_def)

subsection \<open>Files that are null\<close>

lemma clean_files_error: "clean_files env db user gs f = Inl e \<Longrightarrow> e = ServerError"
  by (auto simp: clean_files_def server_error_def rbind_def Let_def split: option.splits sum.splits if_splits)

lemma list_loop_null_files:
  assumes "f \<in> set fs" "fo_parent_id f = None" "fo_data f = Some d" "map_of d ''files'' = Some PNone"
  shows "\<exists>db'. list_loop env user gs pb fs db = (Inl ServerError, db')"
  using assms(1)
proof (induction fs arbitrary: pb db)
  case (Cons g fs)
  obtain f1 pb' rows where r: "repair_parent env (acc_id user) pb (ob_folders db) g = (f1, pb', rows)" by (metis prod_cases3)
  show ?case
  proof (cases "g = f")
    case True
    then have f1: "f1 = Some f" using r assms(2) by (simp add: repair_parent_def)
    have "d \<noteq> []" using assms(4) by auto
    then have "clean_files env (db\<lparr>ob_folders := rows\<rparr>) user gs f = Inl ServerError"
      using assms(3,4) by (simp add: clean_files_def has_key_def pget_def get_accessible_folder_files_def server_error_def py_len_def)
    then show ?thesis using r f1 True by simp
  next
    case False
    then have "f \<in> set fs" using Cons.prems by simp
    note IH = Cons.IH [OF this]
    show ?thesis
    proof (cases f1)
      case None
      with r show ?thesis by simp
    next
      case (Some f2)
      show ?thesis
      proof (cases "clean_files env (db\<lparr>ob_folders := rows\<rparr>) user gs f2")
        case (Inl e)
        then show ?thesis using r Some clean_files_error [OF Inl] by simp
      next
        case (Inr p)
        obtain f3 rows' where p: "p = (f3, rows')" by force
        obtain db'' where "list_loop env user gs pb' fs (db\<lparr>ob_folders := rows'\<rparr>) = (Inl ServerError, db'')" using IH by blast
        then show ?thesis using r Some Inr p by simp
      qed
    qed
  qed
qed simp

lemma get_folders_loop_error:
  assumes fs: "validate_all fs = Inr fs" "check_folders_permission env db user = Inr ()"
    and loop: "\<And>gs. fst (list_loop env user gs (parents_of fs) fs db) = Inl e"
    and mine: "fs = filter (\<lambda>r. fo_user_id r = acc_id user) (ob_folders db)"
  shows "fst (get_folders env direct user db) = Inl e"
proof -
  have loop': "\<exists>db2. list_loop env user gs (parents_of fs) fs db = (Inl e, db2)" for gs
    using loop [of gs] by (metis prod.collapse)
  obtain db1 where "list_loop env user (if acc_role user \<noteq> ''admin'' \<and> list_ex (\<lambda>f. case fo_data f of None \<Rightarrow> False | Some d \<Rightarrow> has_key d ''files'') fs
                 then Some (member_group_ids (acc_id user) (ob_groups db)) else None) (parents_of fs) fs db = (Inl e, db1)"
    using loop' by blast
  moreover have "server_error (get_folders_by_user_id (acc_id user) (ob_folders db)) = Inr fs"
    using fs(1) mine by (simp add: get_folders_by_user_id_def server_error_def)
  ultimately show ?thesis using fs(2) by (simp add: get_folders_def guarded_def Let_def)
qed

text \<open>The owner of a folder at the root may set its files to \<open>null\<close>: the check of the files lets it pass and the
  update succeeds. Afterwards the listing of the owner's folders ends in a server error.\<close>

theorem null_files_break_listing:
  assumes f: "select_folder i (acc_id user) (ob_folders db) = Some f" and root: "fo_parent_id f = None"
    and named: "all_named (ob_folders db) (acc_id user)" and perm: "check_folders_permission env db user = Inr ()"
    and upd: "update_folder_name_by_id env user i \<lparr>fu_name = None, fu_data = Some (Some [(''files'', PNone)]), fu_meta = None\<rparr> db = (r, db')"
  shows "\<not> is_Inl r \<and> fst (get_folders env direct user db') = Inl ServerError"
proof -
  let ?u = "acc_id user" and ?rows = "ob_folders db"
  let ?d = "merge_json (fo_data f) [(''files'', PNone)]"
  let ?f = "f\<lparr>fo_name := fo_name f, fo_data := Some ?d, fo_meta := fo_meta f, fo_updated_at := fe_clock env 0\<rparr>"
  have id: "f \<in> set ?rows" "fo_id f = i" "fo_user_id f = ?u" using select_folder_id [OF f] by auto
  have name: "fo_name f \<noteq> None" using named id by (auto simp: all_named_def list_all_iff)
  have none: "find (\<lambda>r. fo_name r = None \<and> fo_parent_id r = fo_parent_id f \<and> fo_user_id r = ?u) ?rows = None"
    using named by (auto simp: find_None_iff all_named_def list_all_iff)
  have get: "get_folder_by_id_and_user_id i ?u ?rows = Some f" using f name by (simp add: get_folder_by_id_and_user_id_def FolderModel_validate_def caught_none_def)
  have row: "update_folder_by_id_and_user_id (fe_clock env 0) i ?u \<lparr>fu_name = None, fu_data = Some (Some [(''files'', PNone)]), fu_meta = None\<rparr> ?rows
      = (Some ?f, put_folder i ?f ?rows)"
    using none name by (simp add: update_folder_by_id_and_user_id_def f Let_def merged_field_def FolderModel_validate_def caught_none_def)
  have r: "r = Inr ?f" and db': "db' = db\<lparr>ob_folders := put_folder i ?f ?rows\<rparr>"
    using upd perm row id(3) by (simp_all add: update_folder_name_by_id_def guarded_def find_folder_def get data_files_def files_allowed_def
        can_read_all_folder_files_def server_error_def Let_def)
  let ?mine = "filter (\<lambda>r. fo_user_id r = ?u) (ob_folders db')"
  have "validate_all ?mine = Inr ?mine"
    unfolding validate_all_Inr using named name id by (auto simp: db' put_folder_def all_named_def list_all_iff)
  moreover have "check_folders_permission env db' user = Inr ()"
  proof -
    have "ob_groups db' = ob_groups db" by (simp add: db')
    with perm show ?thesis by (simp only: check_folders_permission_def permission_of_def)
  qed
  moreover have "fst (list_loop env user gs (parents_of ?mine) ?mine db') = Inl ServerError" for gs
  proof -
    have "?f \<in> set ?mine" using id by (force simp: db' put_folder_def)
    moreover have "map_of ?d ''files'' = Some PNone" by (simp add: merge_json_def dict_update_def)
    ultimately have "\<exists>db2. list_loop env user gs (parents_of ?mine) ?mine db' = (Inl ServerError, db2)"
      using root by (intro list_loop_null_files [of ?f _ ?d]) simp_all
    then show ?thesis by auto
  qed
  ultimately have "fst (get_folders env direct user db') = Inl ServerError"
    by (rule get_folders_loop_error) simp
  with r show ?thesis by simp
qed

lemma null_files_break_listing_witness:
  "fst (get_folders sample_env (\<lambda>db ids. []) \<lparr>acc_id = ''u'', acc_role = ''admin''\<rparr>
     (snd (update_folder_name_by_id sample_env \<lparr>acc_id = ''u'', acc_role = ''admin''\<rparr> ''a''
        \<lparr>fu_name = None, fu_data = Some (Some [(''files'', PNone)]), fu_meta = None\<rparr> forest_db))) = Inl ServerError"
proof -
  let ?u = "\<lparr>acc_id = ''u'', acc_role = ''admin''\<rparr>"
  have "select_folder ''a'' (acc_id ?u) (ob_folders forest_db) = Some (sample_folder ''a'' None ''u'')" "fo_parent_id (sample_folder ''a'' None ''u'') = None"
    "all_named (ob_folders forest_db) (acc_id ?u)" "check_folders_permission sample_env forest_db ?u = Inr ()"
    by (simp_all add: select_folder_def forest_db_def sample_folder_def all_named_def check_folders_permission_def sample_env_def)
  from null_files_break_listing [OF this surjective_pairing] show ?thesis by blast
qed

end
