(* ===== verification/Chat_History.thy ===== *)
theory Chat_History
  imports Shared_Objects
begin

section \<open>The message tree of a chat (models/chats.py, utils/misc.py)\<close>

text \<open>
  A chat keeps its messages in \<open>chat['history']\<close>: a dictionary \<open>messages\<close> from ids to messages and \<open>currentId\<close>, the leaf
  of the branch on display. A message names its \<open>parentId\<close> and its \<open>childrenIds\<close>; clients write all of it,
  so nothing is certain about it and every field is a JSON value here. This theory holds the functions
  on such dictionaries: the repair of the current id, the merge of two histories, the insertion and the deletion
  of messages, the chain of a message. What Python raises (\<open>TypeError\<close>, \<open>AttributeError\<close>, \<open>KeyError\<close>) the callers
  catch in the same way, so one value \<open>HistoryRaised\<close> stands for it.
\<close>

type_synonym jdict = "(string, pyval) dict"

datatype history_error = HistoryRaised

text \<open>\<open>v.get(\<dots>)\<close> and \<open>{**v}\<close> raise unless \<open>v\<close> is a dictionary; \<open>v in d\<close> raises unless \<open>v\<close> can be hashed.\<close>

definition need_dict :: "pyval \<Rightarrow> (history_error, jdict) result" where
  "need_dict v = (case as_dict v of None \<Rightarrow> Inl HistoryRaised | Some d \<Rightarrow> Inr d)"

definition key_in :: "pyval \<Rightarrow> jdict \<Rightarrow> (history_error, bool) result" where
  "key_in k d = (if \<not> hashable k then Inl HistoryRaised else Inr (case as_str k of None \<Rightarrow> False | Some s \<Rightarrow> has_key d s))"

definition iterate :: "pyval \<Rightarrow> (history_error, pyval list) result" where
  "iterate v = (case py_iter v of Inl e \<Rightarrow> Inl HistoryRaised | Inr l \<Rightarrow> Inr l)"

definition float_less :: "pyfloat \<Rightarrow> pyfloat \<Rightarrow> bool" where
  "float_less a b = (case (a, b) of
      (Fin x, Fin y) \<Rightarrow> x < y | (NInf, Fin y) \<Rightarrow> True | (NInf, PInf) \<Rightarrow> True | (Fin x, PInf) \<Rightarrow> True | _ \<Rightarrow> False)"

definition number_gt :: "pyval \<Rightarrow> pyval \<Rightarrow> (history_error, bool) result" where
  "number_gt a b = (case (py_number a, py_number b) of (Some x, Some y) \<Rightarrow> Inr (float_less y x) | _ \<Rightarrow> Inl HistoryRaised)"

subsection \<open>Cleaning\<close>

fun has_null :: "pyval \<Rightarrow> bool" where
  "has_null (PStr s) = List.member s (CHR 0x00)"
| "has_null (PDict d) = list_ex (\<lambda>p. List.member (fst p) (CHR 0x00) \<or> has_null (snd p)) d"
| "has_null (PList l) = list_ex has_null l"
| "has_null v = False"

fun strip_null_bytes_deep :: "pyval \<Rightarrow> pyval" where
  "strip_null_bytes_deep (PStr s) = PStr (sanitize_text_for_db s)"
| "strip_null_bytes_deep (PDict d) =
     PDict (dict_update [] (map (\<lambda>p. (sanitize_text_for_db (fst p), strip_null_bytes_deep (snd p))) d))"
| "strip_null_bytes_deep (PList l) = PList (map strip_null_bytes_deep l)"
| "strip_null_bytes_deep v = v"

text \<open>The fast path: the text \<open>dumps\<close> makes contains \<open>\u0000\<close> when some string has the null character.
  (A text that contains these six characters literally takes the slow path, which returns the same.)\<close>

definition sanitize_data_for_db :: "pyval \<Rightarrow> pyval" where
  "sanitize_data_for_db obj = (if has_null obj then strip_null_bytes_deep obj else obj)"

subsection \<open>The current message\<close>

definition dict_or_empty :: "pyval \<Rightarrow> jdict" where
  "dict_or_empty v = (case as_dict v of None \<Rightarrow> [] | Some d \<Rightarrow> d)"

definition get_current_message_id :: "jdict \<Rightarrow> pyval" where
  "get_current_message_id chat =
     (let history = dict_or_empty (pget chat ''history'');
          current_id = py_or (py_or (pget history ''currentId'') (pget chat ''currentId'')) (pget chat ''branchPointMessageId'')
      in if py_truthy current_id then current_id
         else case as_list (pget chat ''messages'') of
           None \<Rightarrow> PNone
         | Some messages \<Rightarrow> (case find (\<lambda>m. py_truthy (pget (dict_or_empty m) ''id'')) (rev messages) of
             None \<Rightarrow> PNone
           | Some m \<Rightarrow> pget (dict_or_empty m) ''id''))"

fun first_known :: "jdict \<Rightarrow> pyval list \<Rightarrow> (history_error, string option) result" where
  "first_known messages [] = Inr None"
| "first_known messages (c # cs) = rbind (key_in c messages) (\<lambda>b. if b then Inr (as_str c) else first_known messages cs)"

definition list_or_empty :: "pyval \<Rightarrow> pyval list" where
  "list_or_empty v = (case as_list v of None \<Rightarrow> [] | Some l \<Rightarrow> l)"

function last_descendant_loop :: "jdict \<Rightarrow> string list \<Rightarrow> string \<Rightarrow> (history_error, string) result" where
  "last_descendant_loop messages seen i =
     (if \<not> has_key messages i \<or> List.member seen i then Inr i
      else case first_known messages (rev (list_or_empty (pget (dict_or_empty (pget messages i)) ''childrenIds''))) of
        Inl e \<Rightarrow> Inl e
      | Inr None \<Rightarrow> Inr i
      | Inr (Some j) \<Rightarrow> if j = [] then Inr i else last_descendant_loop messages (i # seen) j)"
  by pat_completeness auto

lemma unvisited_less:
  assumes "has_key d i" "i \<notin> set seen"
  shows "card (fst ` set d - set (i # seen)) < card (fst ` set d - set seen)"
proof -
  have "i \<in> fst ` set d - set seen" using assms by (simp add: has_key_iff)
  then have "fst ` set d - set (i # seen) \<subset> fst ` set d - set seen" by auto
  then show ?thesis by (rule psubset_card_mono [rotated]) simp
qed

termination last_descendant_loop
  by (relation "measure (\<lambda>(messages, seen, i). card (fst ` set messages - set seen))")
    (auto intro: unvisited_less [simplified])

definition last_descendant_id :: "jdict \<Rightarrow> string \<Rightarrow> (history_error, string) result" where
  "last_descendant_id messages message_id = last_descendant_loop messages [] message_id"

text \<open>\<open>next((item.get('role') for item in output if \<dots>), None)\<close>.\<close>

definition output_role :: "pyval \<Rightarrow> (history_error, pyval) result" where
  "output_role output = rbind (iterate (py_or output (PList []))) (\<lambda>items.
     Inr (case find (\<lambda>it. py_truthy (pget (dict_or_empty it) ''role'')) items of
         None \<Rightarrow> PNone
       | Some it \<Rightarrow> pget (dict_or_empty it) ''role''))"

text \<open>The scan for the latest leaf: the pair is \<open>(latest_leaf_id, latest_timestamp)\<close>.\<close>

fun latest_leaf :: "jdict \<Rightarrow> string option \<times> pyval \<Rightarrow> (history_error, string option \<times> pyval) result" where
  "latest_leaf [] best = Inr best"
| "latest_leaf ((i, m) # rest) best =
     (let d = dict_or_empty m; t = py_or (pget d ''timestamp'') (PInt 0)
      in if \<not> py_truthy (pget d ''role'') \<or> list_or_empty (pget d ''childrenIds'') \<noteq> [] then latest_leaf rest best
         else rbind (number_gt t (snd best)) (\<lambda>b. latest_leaf rest (if b then (Some i, t) else best)))"

definition set_current :: "jdict \<Rightarrow> jdict \<Rightarrow> pyval \<Rightarrow> jdict" where
  "set_current chat history i = AList.update ''history'' (PDict (AList.update ''currentId'' i history)) chat"

definition repair_chat_current_id :: "jdict \<Rightarrow> (history_error, bool \<times> jdict) result" where
  "repair_chat_current_id chat = (case as_dict (pget chat ''history'') of
      None \<Rightarrow> Inr (False, chat)
    | Some history \<Rightarrow> (case as_dict (pget history ''messages'') of
        None \<Rightarrow> Inr (False, chat)
      | Some messages \<Rightarrow>
          (let current_id = pget history ''currentId'' in
           rbind (key_in current_id messages) (\<lambda>known.
           let current = (if known then as_dict (pget messages (str_of current_id)) else None);
               m = (case current of None \<Rightarrow> [] | Some d \<Rightarrow> d)
           in rbind (output_role (pget m ''output'')) (\<lambda>role.
           let bad_leaf = (current \<noteq> None \<and> py_eq_str role ''assistant'' \<and> pget m ''parentId'' = PNone
                 \<and> \<not> py_truthy (pget m ''timestamp'') \<and> length messages > 1)
           in if current \<noteq> None \<and> py_truthy (pget m ''id'') \<and> py_truthy (pget m ''role'') \<and> \<not> bad_leaf
              then if py_truthy (pget m ''contextSummary'') \<or> py_truthy (pget m ''context_summary'')
                   then rbind (last_descendant_id messages (str_of current_id)) (\<lambda>l.
                     if PStr l \<noteq> current_id then Inr (True, set_current chat history (PStr l)) else Inr (False, chat))
                   else Inr (False, chat)
              else rbind (latest_leaf messages (None, PInt (- 1))) (\<lambda>(leaf, t).
                case leaf of
                  None \<Rightarrow> Inr (False, chat)
                | Some l \<Rightarrow> if l = [] \<or> PStr l = current_id then Inr (False, chat)
                    else Inr (True, set_current chat history (PStr l))))))))"

subsection \<open>Merging two histories\<close>

definition get_unresolved_parent_ids :: "jdict \<Rightarrow> (history_error, pyval list) result" where
  "get_unresolved_parent_ids messages_map = fold (\<lambda>(i, v) acc.
     rbind acc (\<lambda>ids. rbind (need_dict v) (\<lambda>m.
       let p = pget m ''parentId''
       in if \<not> py_truthy p then Inr ids
          else rbind (key_in p messages_map) (\<lambda>known. Inr (if known then ids else List.insert p ids)))))
     messages_map (Inr [])"

definition children_of_msg :: "jdict \<Rightarrow> pyval list" where
  "children_of_msg m = list_or_empty (pget m ''childrenIds'')"

definition add_child :: "string \<Rightarrow> string \<Rightarrow> jdict \<Rightarrow> jdict" where
  "add_child p i merged =
     (let m = dict_or_empty (pget merged p)
      in AList.update p (PDict (AList.update ''childrenIds'' (PList (children_of_msg m @ [PStr i])) m)) merged)"

fun link_children :: "jdict \<Rightarrow> jdict \<Rightarrow> (history_error, jdict) result" where
  "link_children [] merged = Inr merged"
| "link_children ((i, m) # rest) merged =
     (let p = pget (dict_or_empty m) ''parentId''
      in rbind (key_in p merged) (\<lambda>b. link_children rest (if b then add_child (str_of p) i merged else merged)))"

text \<open>\<open>{message_id: {**message, 'childrenIds': []} for \<dots> if isinstance(message, dict)}\<close>.\<close>

definition unlinked :: "jdict \<Rightarrow> jdict" where
  "unlinked messages = map (\<lambda>(i, m). (i, PDict (AList.update ''childrenIds'' (PList []) (dict_or_empty m))))
     (filter (\<lambda>(i, m). is_mapping m) messages)"

definition merge_history :: "pyval \<Rightarrow> pyval \<Rightarrow> (history_error, jdict) result" where
  "merge_history existing_history incoming_history =
     rbind (need_dict (py_or existing_history (PDict []))) (\<lambda>eh.
     rbind (need_dict (py_or incoming_history (PDict []))) (\<lambda>ih.
     rbind (need_dict (py_or (pget eh ''messages'') (PDict []))) (\<lambda>em.
     rbind (need_dict (py_or (pget ih ''messages'') (PDict []))) (\<lambda>im.
     let base = unlinked (dict_update em im) in
     rbind (link_children base base) (\<lambda>merged.
     rbind (key_in (pget ih ''currentId'') merged) (\<lambda>a.
     rbind (if a then Inr (pget ih ''currentId'')
            else rbind (key_in (pget eh ''currentId'') merged) (\<lambda>b. Inr (if b then pget eh ''currentId'' else PNone))) (\<lambda>current_id.
     Inr (AList.update ''currentId'' current_id (AList.update ''messages'' (PDict merged) (dict_update eh ih))))))))))"

subsection \<open>Deleting a message\<close>

fun known_ids :: "jdict \<Rightarrow> pyval list \<Rightarrow> (history_error, string list) result" where
  "known_ids messages [] = Inr []"
| "known_ids messages (c # cs) =
     rbind (key_in c messages) (\<lambda>b. rbind (known_ids messages cs) (\<lambda>ids. Inr (if b then str_of c # ids else ids)))"

text \<open>The known children of a message: \<open>[c for c in (message.get('childrenIds') or []) if c in messages]\<close>.\<close>

definition known_children :: "jdict \<Rightarrow> pyval \<Rightarrow> (history_error, string list) result" where
  "known_children messages v =
     rbind (need_dict v) (\<lambda>m. rbind (iterate (py_or (pget m ''childrenIds'') (PList []))) (known_ids messages))"

fun known_grandchildren :: "jdict \<Rightarrow> string list \<Rightarrow> (history_error, string list) result" where
  "known_grandchildren messages [] = Inr []"
| "known_grandchildren messages (c # cs) =
     rbind (known_children messages (pget messages c)) (\<lambda>g. rbind (known_grandchildren messages cs) (\<lambda>gs. Inr (g @ gs)))"

fun reparent :: "pyval \<Rightarrow> string list \<Rightarrow> jdict \<Rightarrow> (history_error, jdict) result" where
  "reparent parent_id [] messages = Inr messages"
| "reparent parent_id (g # gs) messages =
     rbind (need_dict (pget messages g)) (\<lambda>m. reparent parent_id gs (AList.update g (PDict (AList.update ''parentId'' parent_id m)) messages))"

definition replace_child :: "pyval \<Rightarrow> string \<Rightarrow> string list \<Rightarrow> jdict \<Rightarrow> (history_error, jdict) result" where
  "replace_child parent_id message_id grandchild_ids messages =
     rbind (key_in parent_id messages) (\<lambda>b. if \<not> b then Inr messages else
     rbind (need_dict (pget messages (str_of parent_id))) (\<lambda>p.
     rbind (iterate (py_or (pget p ''childrenIds'') (PList []))) (\<lambda>cs.
     Inr (AList.update (str_of parent_id)
       (PDict (AList.update ''childrenIds'' (PList (filter (\<lambda>c. \<not> py_eq_str c message_id) cs @ map PStr grandchild_ids)) p)) messages))))"

text \<open>\<open>child_ids[-1]\<close>, or nothing when the loop ends because \<open>child_ids\<close> is falsy.\<close>

definition last_item :: "pyval \<Rightarrow> (history_error, pyval option) result" where
  "last_item v = (if \<not> py_truthy v then Inr None
     else case v of
       PList l \<Rightarrow> Inr (Some (List.last l)) | PTuple l \<Rightarrow> Inr (Some (List.last l)) | PStr s \<Rightarrow> Inr (Some (PStr [List.last s]))
     | _ \<Rightarrow> Inl HistoryRaised)"

function descend :: "jdict \<Rightarrow> string list \<Rightarrow> pyval \<Rightarrow> pyval \<Rightarrow> (history_error, pyval) result" where
  "descend messages visited current child_ids = (case last_item child_ids of
      Inl e \<Rightarrow> Inl e
    | Inr None \<Rightarrow> Inr current
    | Inr (Some c) \<Rightarrow>
        if \<not> hashable c then Inl HistoryRaised
        else (case as_str c of
            None \<Rightarrow> Inr c
          | Some i \<Rightarrow>
              if List.member visited i then Inr current
              else (case map_of messages i of
                  None \<Rightarrow> Inr c
                | Some v \<Rightarrow> (case as_dict v of
                    None \<Rightarrow> Inl HistoryRaised
                  | Some m \<Rightarrow> descend messages (i # visited) c (get_default m ''childrenIds'' (PList []))))))"
  by pat_completeness auto

termination descend
  by (relation "measure (\<lambda>(messages, visited, current, child_ids). card (fst ` set messages - set visited))")
    (auto intro!: unvisited_less [simplified] simp: has_key_def)

fun root_ids :: "jdict \<Rightarrow> (history_error, pyval list) result" where
  "root_ids [] = Inr []"
| "root_ids ((i, v) # rest) =
     rbind (need_dict v) (\<lambda>m. rbind (root_ids rest) (\<lambda>ids. Inr (if pget m ''parentId'' = PNone then PStr i # ids else ids)))"

text \<open>The children the display goes on with, and where it ends.\<close>

definition next_current :: "jdict \<Rightarrow> pyval \<Rightarrow> (history_error, pyval) result" where
  "next_current messages parent_id =
     rbind (if parent_id = PNone then rbind (root_ids messages) (\<lambda>ids. Inr (PList ids))
            else rbind (key_in parent_id messages) (\<lambda>b. if \<not> b then Inr (PList [])
              else rbind (need_dict (pget messages (str_of parent_id))) (\<lambda>m. Inr (get_default m ''childrenIds'' (PList []))))) (\<lambda>cs.
     rbind (descend messages [] parent_id cs) (\<lambda>current.
     rbind (key_in current messages) (\<lambda>b. Inr (if b then current else PNone))))"

definition delete_message_from_history :: "jdict \<Rightarrow> string \<Rightarrow> (history_error, string list \<times> jdict) result" where
  "delete_message_from_history history message_id =
     rbind (need_dict (py_or (pget history ''messages'') (PDict []))) (\<lambda>messages.
     case as_dict (pget messages message_id) of
       None \<Rightarrow> Inr ([], history)
     | Some message \<Rightarrow>
         (let parent_id = pget message ''parentId'' in
          rbind (known_children messages (PDict message)) (\<lambda>child_ids.
          rbind (known_grandchildren messages child_ids) (\<lambda>grandchild_ids.
          rbind (replace_child parent_id message_id grandchild_ids messages) (\<lambda>ms1.
          rbind (reparent parent_id grandchild_ids ms1) (\<lambda>ms2.
          let deleted_ids = List.union [message_id] child_ids;
              ms3 = filter (\<lambda>(i, m). \<not> List.member deleted_ids i) ms2
          in rbind (next_current ms3 parent_id) (\<lambda>current.
          Inr (deleted_ids, AList.update ''currentId'' current (AList.update ''messages'' (PDict ms3) history)))))))))"

subsection \<open>Inserting or changing a message\<close>

definition str_contains :: "pyval \<Rightarrow> string \<Rightarrow> (history_error, bool) result" where
  "str_contains v s = (case v of
      PList l \<Rightarrow> Inr (list_ex (\<lambda>x. py_eq_str x s) l) | PTuple l \<Rightarrow> Inr (list_ex (\<lambda>x. py_eq_str x s) l)
    | PStr t \<Rightarrow> Inr (substr_in s t) | PDict d \<Rightarrow> Inr (has_key d s) | _ \<Rightarrow> Inl HistoryRaised)"

fun find_parent :: "string \<Rightarrow> jdict \<Rightarrow> (history_error, pyval) result" where
  "find_parent message_id [] = Inr PNone"
| "find_parent message_id ((i, v) # rest) =
     rbind (need_dict v) (\<lambda>m. rbind (str_contains (get_default m ''childrenIds'' (PList [])) message_id) (\<lambda>b.
       if b then Inr (PStr i) else find_parent message_id rest))"

definition parent_message :: "jdict \<Rightarrow> pyval \<Rightarrow> (history_error, pyval) result" where
  "parent_message messages parent_id =
     (if \<not> py_truthy parent_id then Inr PNone
      else rbind (key_in parent_id messages) (\<lambda>b. Inr (if b then pget messages (str_of parent_id) else PNone)))"

definition message_role :: "jdict \<Rightarrow> pyval \<Rightarrow> pyval \<Rightarrow> (history_error, pyval) result" where
  "message_role message out_role parent =
     (let role = py_or (pget message ''role'') out_role
      in if py_truthy role then Inr role
         else rbind (if py_truthy parent then rbind (need_dict parent) (\<lambda>p. Inr (pget p ''role'')) else Inr PNone) (\<lambda>parent_role.
           Inr (PStr (if py_eq_str parent_role ''user'' then ''assistant''
                      else if py_eq_str parent_role ''assistant'' then ''user'' else ''assistant''))))"

definition upsert_message_to_history :: "int \<Rightarrow> jdict \<Rightarrow> string \<Rightarrow> jdict \<Rightarrow> (history_error, jdict \<times> jdict) result" where
  "upsert_message_to_history now history message_id message =
     rbind (need_dict (get_default history ''messages'' (PDict []))) (\<lambda>messages.
     case map_of messages message_id of
       Some v \<Rightarrow> rbind (need_dict v) (\<lambda>old.
         let m = dict_update old message
         in Inr (m, AList.update ''messages'' (PDict (AList.update message_id (PDict m) messages)) history))
     | None \<Rightarrow>
         (let message_parent_id = pget message ''parentId'' in
          rbind (if message_parent_id = PNone then find_parent message_id messages else Inr message_parent_id) (\<lambda>parent_id.
          rbind (parent_message messages parent_id) (\<lambda>parent.
          rbind (output_role (pget message ''output'')) (\<lambda>out_role.
          rbind (message_role message out_role parent) (\<lambda>role.
          let m = dict_update message
                [(''id'', py_or (pget message ''id'') (PStr message_id)),
                 (''parentId'', if message_parent_id \<noteq> PNone then message_parent_id else parent_id),
                 (''childrenIds'', PList (list_or_empty (pget message ''childrenIds''))),
                 (''role'', role),
                 (''timestamp'', py_or (pget message ''timestamp'') (PInt now))]
          in Inr (m, AList.update ''currentId'' (PStr message_id)
               (AList.update ''messages'' (PDict (AList.update message_id (PDict m) messages)) history))))))))"

subsection \<open>The chain of a message (utils/misc.py)\<close>

text \<open>\<open>current_message and message_id not in visited_message_ids\<close>; the list is built from the message up.\<close>

function message_chain :: "jdict \<Rightarrow> string list \<Rightarrow> string \<Rightarrow> (history_error, pyval list) result" where
  "message_chain messages visited i =
     (if List.member visited i \<or> \<not> has_key messages i \<or> \<not> py_truthy (pget messages i) then Inr []
      else case as_dict (pget messages i) of
        None \<Rightarrow> Inl HistoryRaised
      | Some m \<Rightarrow>
          (let p = pget m ''parentId'' in
           if \<not> py_truthy p then Inr [PDict m]
           else if \<not> hashable p then Inl HistoryRaised
           else case as_str p of
             None \<Rightarrow> Inr [PDict m]
           | Some j \<Rightarrow> (case message_chain messages (i # visited) j of Inl e \<Rightarrow> Inl e | Inr rest \<Rightarrow> Inr (PDict m # rest))))"
  by pat_completeness auto

termination message_chain
  by (relation "measure (\<lambda>(messages, visited, i). card (fst ` set messages - set visited))")
    (auto intro!: unvisited_less [simplified])

definition get_message_list :: "jdict \<Rightarrow> string \<Rightarrow> (history_error, pyval list) result" where
  "get_message_list messages_map message_id = rbind (message_chain messages_map [] message_id) (\<lambda>ms. Inr (rev ms))"

subsection \<open>Cleaning leaves no null character\<close>

lemma map_of_dict_update_Nil: "map_of (dict_update [] e) = map_of (rev e)"
  by (rule ext) (simp add: map_of_dict_update split: option.splits)

lemma has_key_dict_update: "has_key (dict_update d e) k \<longleftrightarrow> has_key d k \<or> has_key e k"
proof -
  have "map_of (rev e) k = None \<longleftrightarrow> map_of e k = None" by (simp add: map_of_eq_None_iff)
  then show ?thesis by (auto simp: has_key_def map_of_dict_update split: option.splits)
qed

lemma map_of_rev_dict: "dict_ok e \<Longrightarrow> map_of (rev e) = map_of e"
  by (rule map_of_inject_set [THEN iffD2]) (auto simp: dict_ok_def rev_map [symmetric])

lemma dict_update_disjoint: "dict_ok (d @ e) \<Longrightarrow> dict_update d e = d @ e"
proof (induction e arbitrary: d)
  case (Cons p e)
  obtain k v where p: "p = (k, v)" by force
  have "\<not> has_key d k" using Cons.prems p by (auto simp: dict_ok_def has_key_iff)
  then have "dict_update d (p # e) = dict_update (d @ [(k, v)]) e" by (simp add: dict_update_def p update_new)
  also have "\<dots> = d @ p # e" using Cons by (simp add: p)
  finally show ?case .
qed (simp add: dict_update_def)

lemma pget_dict_update:
  assumes "dict_ok e"
  shows "pget (dict_update d e) k = (if has_key e k then pget e k else pget d k)"
proof -
  have "map_of (rev e) = map_of e" using assms by (rule map_of_rev_dict)
  then show ?thesis by (auto simp: pget_def has_key_def map_of_dict_update split: option.splits)
qed

lemma dict_ok_dict_update: "dict_ok d \<Longrightarrow> dict_ok (dict_update d e)"
  unfolding dict_update_def by (induction e arbitrary: d) auto

lemma sanitize_text_clean: "CHR 0x00 \<notin> set (sanitize_text_for_db s)"
  by (simp add: sanitize_text_for_db_def)

lemma sanitize_text_id: "CHR 0x00 \<notin> set s \<Longrightarrow> sanitize_text_for_db s = s"
  by (auto simp: sanitize_text_for_db_def intro!: filter_True)

lemma dict_update_entry:
  assumes "(k, v) \<in> set (dict_update [] e)"
  shows "(k, v) \<in> set e"
proof -
  have "dict_ok (dict_update [] e)" by (rule dict_ok_dict_update) simp
  then have "map_of (dict_update [] e) k = Some v" using assms by (simp add: map_of_iff_dict_ok)
  then have "map_of (rev e) k = Some v" by (simp add: map_of_dict_update_Nil)
  then show ?thesis using map_of_SomeD by fastforce
qed

lemma strip_clean: "\<not> has_null (strip_null_bytes_deep v)"
proof (induction v rule: strip_null_bytes_deep.induct)
  case (2 d)
  show ?case
    by (auto simp: list_ex_iff sanitize_text_clean dest!: dict_update_entry dest: "2.IH")
qed (auto simp: list_ex_iff sanitize_text_clean)


text \<open>Dictionaries of Python have one entry per key, at every depth.\<close>

fun json_ok :: "pyval \<Rightarrow> bool" where
  "json_ok (PDict d) = (dict_ok d \<and> list_all (\<lambda>p. json_ok (snd p)) d)"
| "json_ok (PList l) = list_all json_ok l"
| "json_ok v = True"

lemma strip_id: "\<not> has_null v \<Longrightarrow> json_ok v \<Longrightarrow> strip_null_bytes_deep v = v"
proof (induction v rule: strip_null_bytes_deep.induct)
  case (2 d)
  have "map (\<lambda>p. (sanitize_text_for_db (fst p), strip_null_bytes_deep (snd p))) d = d"
    using "2.prems" "2.IH" by (intro map_idI) (auto simp: list_ex_iff list_all_iff sanitize_text_id)
  then show ?case using "2.prems" by (simp add: dict_update_disjoint)
next
  case (3 l)
  then have "map strip_null_bytes_deep l = l" by (intro map_idI) (auto simp: list_ex_iff list_all_iff)
  then show ?case by simp
qed (auto simp: sanitize_text_id)

theorem sanitize_clean:
  assumes "json_ok v"
  shows "\<not> has_null (sanitize_data_for_db v) \<and> sanitize_data_for_db (sanitize_data_for_db v) = sanitize_data_for_db v
    \<and> (\<not> has_null v \<longrightarrow> strip_null_bytes_deep v = sanitize_data_for_db v)"
  using assms strip_clean strip_id by (simp add: sanitize_data_for_db_def)

subsection \<open>What a merge keeps\<close>

lemma update_stored: "map_of d k = Some v \<Longrightarrow> AList.update k v d = d"
  by (induction d) auto

lemma update_update: "AList.update k w (AList.update k v d) = AList.update k w d"
  by (induction d) auto

lemma update_as_map: "dict_ok d \<Longrightarrow> has_key d k \<Longrightarrow> AList.update k v d = map (\<lambda>(i, w). (i, if i = k then v else w)) d"
proof (induction d)
  case (Cons p d)
  obtain i w where p: "p = (i, w)" by force
  have ok: "dict_ok d" "i \<notin> fst ` set d" using Cons.prems(1) p by (auto simp: dict_ok_def)
  show ?case
  proof (cases "i = k")
    case True
    then have "map (\<lambda>(i, w). (i, if i = k then v else w)) d = d" using ok by (intro map_idI) force
    with True p show ?thesis by simp
  next
    case False
    then have "has_key d k" using Cons.prems(2) p by (simp add: has_key_def)
    with False ok Cons.IH p show ?thesis by simp
  qed
qed (simp add: has_key_def)

lemma pget_update [simp]: "pget (AList.update k v d) k' = (if k' = k then v else pget d k')"
  by (simp add: pget_def)

definition parent_val :: "pyval \<Rightarrow> pyval" where
  "parent_val v = pget (dict_or_empty v) ''parentId''"

text \<open>The ids of the messages that name \<open>p\<close> as their parent, in the order of the dictionary.\<close>

definition child_ids :: "jdict \<Rightarrow> string \<Rightarrow> string list" where
  "child_ids messages p = map fst (filter (\<lambda>(i, v). parent_val v = PStr p) messages)"

definition with_children :: "string list \<Rightarrow> pyval \<Rightarrow> pyval" where
  "with_children ks v = (let m = dict_or_empty v in PDict (AList.update ''childrenIds'' (PList (children_of_msg m @ map PStr ks)) m))"

definition has_children_list :: "pyval \<Rightarrow> bool" where
  "has_children_list v \<longleftrightarrow> (\<exists>m l. v = PDict m \<and> map_of m ''childrenIds'' = Some (PList l))"

lemma with_children_Nil: "has_children_list v \<Longrightarrow> with_children [] v = v"
  by (auto simp: has_children_list_def with_children_def children_of_msg_def list_or_empty_def dict_or_empty_def pget_def update_stored)

lemma with_children_append: "has_children_list v \<Longrightarrow> with_children ks (with_children js v) = with_children (js @ ks) v"
  by (auto simp: has_children_list_def with_children_def children_of_msg_def list_or_empty_def dict_or_empty_def pget_def update_update Let_def)

lemma with_children_list [simp]: "has_children_list (with_children ks v)"
  by (simp add: has_children_list_def with_children_def Let_def)

lemma pget_entry: "dict_ok d \<Longrightarrow> (k, v) \<in> set d \<Longrightarrow> pget d k = v"
  by (simp add: pget_def map_of_iff_dict_ok [symmetric])

lemma add_child_map:
  assumes "dict_ok d" "has_key d p" "list_all (\<lambda>(i, v). has_children_list v) d"
  shows "add_child p i d = map (\<lambda>(j, v). (j, with_children (if j = p then [i] else []) v)) d"
proof -
  have "add_child p i d = AList.update p (with_children [i] (pget d p)) d" by (simp add: add_child_def with_children_def Let_def)
  also have "\<dots> = map (\<lambda>(j, v). (j, if j = p then with_children [i] (pget d p) else v)) d" by (rule update_as_map [OF assms(1,2)])
  also have "\<dots> = map (\<lambda>(j, v). (j, with_children (if j = p then [i] else []) v)) d"
    using assms by (fastforce simp: list_all_iff with_children_Nil pget_entry intro!: map_cong)
  finally show ?thesis .
qed

lemma link_children_map:
  assumes "link_children items d = Inr d'" "dict_ok d" "list_all (\<lambda>(i, v). has_children_list v) d"
  shows "d' = map (\<lambda>(j, v). (j, with_children (child_ids items j) v)) d"
  using assms
proof (induction items d arbitrary: d' rule: link_children.induct)
  case (1 merged)
  then show ?case by (auto simp: child_ids_def list_all_iff with_children_Nil intro!: map_idI [symmetric])
next
  case (2 i m rest merged)
  let ?p = "parent_val m"
  obtain b where b: "key_in ?p merged = Inr b"
    and rest: "link_children rest (if b then add_child (str_of ?p) i merged else merged) = Inr d'"
    using "2.prems"(1) unfolding link_children.simps Let_def rbind_Inr_iff parent_val_def by blast
  define d1 where "d1 = map (\<lambda>(j, v). (j, with_children (if parent_val m = PStr j then [i] else []) v)) merged"
  have d1: "(if b then add_child (str_of ?p) i merged else merged) = d1"
  proof (cases b)
    case True
    then obtain p where p: "?p = PStr p" "has_key merged p" using b by (auto simp: key_in_def split: if_splits option.splits)
    then have "add_child (str_of ?p) i merged = map (\<lambda>(j, v). (j, with_children (if j = p then [i] else []) v)) merged"
      using "2.prems" by (simp add: add_child_map)
    also have "\<dots> = d1" unfolding d1_def p(1) by (auto intro!: map_cong)
    finally show ?thesis using True by simp
  next
    case False
    then have "j \<in> fst ` set merged \<Longrightarrow> ?p \<noteq> PStr j" for j
      using b by (auto simp: key_in_def has_key_iff split: if_splits option.splits)
    then have "d1 = merged" using "2.prems"(3) unfolding d1_def
      by (intro map_idI) (force simp: list_all_iff with_children_Nil)
    with False show ?thesis by simp
  qed
  have "dict_ok d1" "list_all (\<lambda>(i, v). has_children_list v) d1"
    using "2.prems"(2) by (auto simp: d1_def dict_ok_def list_all_iff comp_def case_prod_beta)
  then have "d' = map (\<lambda>(j, v). (j, with_children (child_ids rest j) v)) d1"
    using "2.IH" [of "parent_val m" b] b rest d1 by (simp add: parent_val_def)
  also have "\<dots> = map (\<lambda>(j, v). (j, with_children (child_ids ((i, m) # rest) j) v)) merged"
    using "2.prems"(3) by (auto simp: d1_def list_all_iff with_children_append child_ids_def)
  finally show ?case .
qed

definition messages_in :: "pyval \<Rightarrow> jdict" where
  "messages_in history = dict_or_empty (pget (dict_or_empty history) ''messages'')"

lemma need_dict_or: "need_dict (py_or v (PDict [])) = Inr d \<Longrightarrow> d = dict_or_empty v"
  by (cases v) (auto simp: need_dict_def py_or_def dict_or_empty_def as_dict_def py_truthy_def split: if_splits)

lemma key_in_True: "key_in k d = Inr b \<Longrightarrow> b \<longleftrightarrow> (\<exists>s. k = PStr s \<and> has_key d s)"
  by (auto simp: key_in_def split: if_splits option.splits)

lemma unlinked_ok:
  assumes "dict_ok d"
  shows "dict_ok (unlinked d)" "list_all (\<lambda>(i, v). has_children_list v) (unlinked d)"
    "map_of (unlinked d) k = (if has_key d k \<and> is_mapping (pget d k)
       then Some (PDict (AList.update ''childrenIds'' (PList []) (dict_or_empty (pget d k)))) else None)"
proof -
  have "map fst (unlinked d) = map fst (filter (\<lambda>(i, m). is_mapping m) d)" by (simp add: unlinked_def comp_def case_prod_beta)
  then show ok: "dict_ok (unlinked d)" using assms by (simp add: dict_ok_def distinct_map_filter)
  show "list_all (\<lambda>(i, v). has_children_list v) (unlinked d)"
    by (auto simp: unlinked_def list_all_iff has_children_list_def)
  show "map_of (unlinked d) k = (if has_key d k \<and> is_mapping (pget d k)
       then Some (PDict (AList.update ''childrenIds'' (PList []) (dict_or_empty (pget d k)))) else None)"
  proof (cases "has_key d k \<and> is_mapping (pget d k)")
    case True
    then have "(k, pget d k) \<in> set d" using assms by (auto simp: has_key_def pget_def map_of_iff_dict_ok [symmetric])
    then have "(k, PDict (AList.update ''childrenIds'' (PList []) (dict_or_empty (pget d k)))) \<in> set (unlinked d)"
      using True by (force simp: unlinked_def)
    with True ok show ?thesis by (simp add: map_of_iff_dict_ok)
  next
    case False
    then have "k \<notin> fst ` set (unlinked d)" using assms by (force simp: unlinked_def has_key_iff pget_entry)
    with False show ?thesis by (auto simp: map_of_eq_None_iff)
  qed
qed

lemma parent_val_children [simp]: "parent_val (PDict (AList.update ''childrenIds'' c (dict_or_empty v))) = parent_val v"
  "parent_val (with_children ks v) = parent_val v"
  by (simp_all add: parent_val_def dict_or_empty_def with_children_def Let_def)

lemma child_ids_map [simp]: "child_ids (map (\<lambda>(j, v). (j, with_children (f j) v)) d) p = child_ids d p"
  by (induction d) (auto simp: child_ids_def)

lemma map_of_with_children: "map_of (map (\<lambda>(j, v). (j, with_children (f j) v)) d) k = map_option (with_children (f k)) (map_of d k)"
  by (induction d) auto

lemma linked_lookup:
  assumes "link_children (unlinked d) (unlinked d) = Inr ms" "dict_ok d"
  shows "dict_ok ms" "map_of ms k = (if has_key d k \<and> is_mapping (pget d k)
    then Some (PDict (AList.update ''childrenIds'' (PList (map PStr (child_ids ms k))) (dict_or_empty (pget d k)))) else None)"
proof -
  have ms: "ms = map (\<lambda>(j, v). (j, with_children (child_ids (unlinked d) j) v)) (unlinked d)"
    using link_children_map [OF assms(1)] unlinked_ok [OF assms(2)] by simp
  then have "map fst ms = map fst (unlinked d)" by (simp add: comp_def case_prod_beta)
  then show "dict_ok ms" using unlinked_ok(1) [OF assms(2)] by (simp add: dict_ok_def)
  have "map_of ms k = map_option (with_children (child_ids (unlinked d) k)) (map_of (unlinked d) k)"
    unfolding ms by (rule map_of_with_children)
  moreover have "child_ids ms k = child_ids (unlinked d) k" by (simp add: ms)
  ultimately show "map_of ms k = (if has_key d k \<and> is_mapping (pget d k)
    then Some (PDict (AList.update ''childrenIds'' (PList (map PStr (child_ids ms k))) (dict_or_empty (pget d k)))) else None)"
    by (simp add: unlinked_ok(3) [OF assms(2)] with_children_def children_of_msg_def list_or_empty_def dict_or_empty_def update_update Let_def)
qed

lemma merge_history_parts:
  assumes "merge_history e i = Inr h"
  obtains ms c where "link_children (unlinked (dict_update (messages_in e) (messages_in i))) (unlinked (dict_update (messages_in e) (messages_in i))) = Inr ms"
    "pget h ''messages'' = PDict ms" "pget h ''currentId'' = c" "c = PNone \<or> (\<exists>s. c = PStr s \<and> has_key ms s)"
    "\<And>s. pget (dict_or_empty i) ''currentId'' = PStr s \<Longrightarrow> has_key ms s \<Longrightarrow> c = PStr s"
proof -
  from assms obtain eh ih em im ms a c where parts:
    "need_dict (py_or e (PDict [])) = Inr eh" "need_dict (py_or i (PDict [])) = Inr ih"
    "need_dict (py_or (pget eh ''messages'') (PDict [])) = Inr em" "need_dict (py_or (pget ih ''messages'') (PDict [])) = Inr im"
    and link: "link_children (unlinked (dict_update em im)) (unlinked (dict_update em im)) = Inr ms"
    and a: "key_in (pget ih ''currentId'') ms = Inr a"
    and c: "(if a then Inr (pget ih ''currentId'')
            else rbind (key_in (pget eh ''currentId'') ms) (\<lambda>b. Inr (if b then pget eh ''currentId'' else PNone))) = Inr c"
    and h: "h = AList.update ''currentId'' c (AList.update ''messages'' (PDict ms) (dict_update eh ih))"
    unfolding merge_history_def rbind_Inr_iff Let_def by blast
  have "eh = dict_or_empty e" "ih = dict_or_empty i" using parts(1,2) by (auto dest: need_dict_or)
  moreover from this have "em = messages_in e" "im = messages_in i" using parts(3,4) by (auto dest: need_dict_or simp: messages_in_def)
  moreover have "c = PNone \<or> (\<exists>s. c = PStr s \<and> has_key ms s)"
    using c key_in_True [OF a] by (auto simp: rbind_Inr_iff split: if_splits dest!: key_in_True)
  moreover have "pget ih ''currentId'' = PStr s \<Longrightarrow> has_key ms s \<Longrightarrow> c = PStr s" for s
    using c key_in_True [OF a] by simp
  ultimately show thesis using that link h by simp
qed

text \<open>C8: A client that saves a chat from an old copy loses no message. The merged history has every message of the stored and of the
  sent history, the sent version where both have one, with all its fields; the links are rebuilt, so that the children of a message are exactly
  the messages that name it as their parent; and the current id names a message of the history, the sent one if there is one.\<close>

theorem merge_history_keeps_messages:
  assumes merge: "merge_history existing incoming = Inr h"
    and "dict_ok (messages_in existing)" and sent: "dict_ok (messages_in incoming)"
  shows "\<exists>ms. pget h ''messages'' = PDict ms \<and> dict_ok ms \<and>
    (\<forall>k. let v = (if has_key (messages_in incoming) k then pget (messages_in incoming) k else pget (messages_in existing) k)
      in (has_key ms k \<longleftrightarrow> is_mapping v) \<and>
         (has_key ms k \<longrightarrow> pget (dict_or_empty (pget ms k)) ''childrenIds'' = PList (map PStr (child_ids ms k)) \<and>
           (\<forall>f. f \<noteq> ''childrenIds'' \<longrightarrow> pget (dict_or_empty (pget ms k)) f = pget (dict_or_empty v) f))) \<and>
    (pget h ''currentId'' = PNone \<or> (\<exists>s. pget h ''currentId'' = PStr s \<and> has_key ms s))"
proof -
  let ?d = "dict_update (messages_in existing) (messages_in incoming)"
  obtain ms c where link: "link_children (unlinked ?d) (unlinked ?d) = Inr ms" and h: "pget h ''messages'' = PDict ms" "pget h ''currentId'' = c"
    and c: "c = PNone \<or> (\<exists>s. c = PStr s \<and> has_key ms s)" using merge_history_parts [OF merge] by metis
  have ok: "dict_ok ?d" using assms(2) by (rule dict_ok_dict_update)
  note look = linked_lookup [OF link ok]
  have v: "pget ?d k = (if has_key (messages_in incoming) k then pget (messages_in incoming) k else pget (messages_in existing) k)" for k
    using sent by (rule pget_dict_update)
  have "has_key ?d k" if "is_mapping (pget ?d k)" for k using that by (auto simp: pget_def has_key_def split: option.splits)
  then have key: "has_key ms k \<longleftrightarrow> is_mapping (pget ?d k)" for k unfolding has_key_def [of ms] look(2) by auto
  have "pget (dict_or_empty (pget ms k)) ''childrenIds'' = PList (map PStr (child_ids ms k)) \<and>
      (\<forall>f. f \<noteq> ''childrenIds'' \<longrightarrow> pget (dict_or_empty (pget ms k)) f = pget (dict_or_empty (pget ?d k)) f)" if "has_key ms k" for k
    using that look(2) [of k] by (auto simp: has_key_def pget_def [of ms] dict_or_empty_def split: if_splits)
  with key look(1) h c show ?thesis unfolding v [symmetric] Let_def by (intro exI [of _ ms]) simp
qed

definition old_copy :: pyval where
  "old_copy = PDict [(''messages'', PDict [(''a'', PDict [(''parentId'', PNone)]), (''b'', PDict [(''parentId'', PStr ''a'')])]), (''currentId'', PStr ''b'')]"

definition sent_copy :: pyval where
  "sent_copy = PDict [(''messages'', PDict [(''a'', PDict [(''parentId'', PNone)]), (''c'', PDict [(''parentId'', PStr ''a'')])]), (''currentId'', PStr ''c'')]"

lemmas copies_eval = old_copy_def sent_copy_def messages_in_def dict_or_empty_def

theorem merge_history_keeps_messages_witness:
  "\<exists>h ms. merge_history old_copy sent_copy = Inr h \<and> pget h ''messages'' = PDict ms \<and> has_key ms ''b'' \<and> has_key ms ''c''"
proof -
  have "\<not> is_Inl (merge_history old_copy sent_copy)" by code_simp
  then obtain h where h: "merge_history old_copy sent_copy = Inr h" by (cases "merge_history old_copy sent_copy") auto
  have "dict_ok (messages_in old_copy)" "dict_ok (messages_in sent_copy)" by (simp_all add: copies_eval dict_ok_def)
  from merge_history_keeps_messages [OF h this] obtain ms where ms: "pget h ''messages'' = PDict ms"
    and k: "\<And>k. has_key ms k \<longleftrightarrow> is_mapping (if has_key (messages_in sent_copy) k then pget (messages_in sent_copy) k else pget (messages_in old_copy) k)"
    unfolding Let_def by blast
  have "has_key ms ''b''" "has_key ms ''c''" unfolding k by (simp_all add: copies_eval has_key_def)
  with h ms show ?thesis by blast
qed

subsection \<open>Deleting a message keeps the tree\<close>

definition kids :: "jdict \<Rightarrow> string \<Rightarrow> string list" where
  "kids messages k = map str_of (children_of_msg (dict_or_empty (pget messages k)))"

text \<open>A history whose links agree: the children of a message are the messages that name it as their parent.\<close>

definition msg_ok :: "jdict \<Rightarrow> string \<Rightarrow> bool" where
  "msg_ok ms k \<longleftrightarrow> (\<exists>m. map_of ms k = Some (PDict m) \<and> map_of m ''childrenIds'' = Some (PList (map PStr (kids ms k)))) \<and>
     distinct (kids ms k) \<and> set (kids ms k) = {i. has_key ms i \<and> parent_val (pget ms i) = PStr k} \<and>
     (parent_val (pget ms k) = PNone \<or> (\<exists>p. parent_val (pget ms k) = PStr p))"

definition tree_ok :: "jdict \<Rightarrow> bool" where
  "tree_ok ms \<longleftrightarrow> dict_ok ms \<and> (\<forall>k. has_key ms k \<longrightarrow> msg_ok ms k)"

lemma msg_okD:
  assumes "tree_ok ms" "has_key ms k"
  shows "\<exists>m. map_of ms k = Some (PDict m) \<and> pget ms k = PDict m \<and> pget m ''childrenIds'' = PList (map PStr (kids ms k))
      \<and> get_default m ''childrenIds'' (PList []) = PList (map PStr (kids ms k))"
    "distinct (kids ms k)" "set (kids ms k) = {i. has_key ms i \<and> parent_val (pget ms i) = PStr k}"
    "hashable (parent_val (pget ms k))"
  using assms by (auto simp: tree_ok_def msg_ok_def pget_def get_default_def)

lemma parent_typed: "tree_ok ms \<Longrightarrow> has_key ms k \<Longrightarrow> parent_val (pget ms k) = PNone \<or> (\<exists>p. parent_val (pget ms k) = PStr p)"
  by (simp add: tree_ok_def msg_ok_def)

lemma iterate_list [simp]: "iterate (py_or (PList l) (PList [])) = Inr l"
  by (simp add: iterate_def py_iter_def py_or_def py_truthy_def)

lemma known_ids_all: "\<forall>c \<in> set cs. has_key ms c \<Longrightarrow> known_ids ms (map PStr cs) = Inr cs"
  by (induction cs) (auto simp: key_in_def)

lemma known_children_tree:
  assumes "tree_ok ms" "has_key ms k"
  shows "known_children ms (pget ms k) = Inr (kids ms k)"
  using msg_okD(1,3) [OF assms] known_ids_all [of "kids ms k" ms] by (auto simp: known_children_def need_dict_def)

lemma known_grandchildren_tree:
  "tree_ok ms \<Longrightarrow> \<forall>c \<in> set cs. has_key ms c \<Longrightarrow> known_grandchildren ms cs = Inr (concat (map (kids ms) cs))"
  by (induction cs) (auto simp: known_children_tree)

lemma distinct_concat_map:
  "distinct xs \<Longrightarrow> (\<And>x. x \<in> set xs \<Longrightarrow> distinct (f x)) \<Longrightarrow> (\<And>x y. x \<in> set xs \<Longrightarrow> y \<in> set xs \<Longrightarrow> x \<noteq> y \<Longrightarrow> set (f x) \<inter> set (f y) = {}) \<Longrightarrow>
   distinct (concat (map f xs))"
proof (induction xs)
  case (Cons x xs)
  have "set (f x) \<inter> set (f y) = {}" if "y \<in> set xs" for y
    using Cons.prems(1) that by (intro Cons.prems(3)) auto
  with Cons show ?case by (simp add: Int_UN_distrib)
qed simp

text \<open>Every message is a dictionary with a list of ids as its children.\<close>

definition shaped :: "jdict \<Rightarrow> bool" where
  "shaped ms \<longleftrightarrow> dict_ok ms \<and> (\<forall>k. has_key ms k \<longrightarrow>
     (\<exists>m cs. map_of ms k = Some (PDict m) \<and> map_of m ''childrenIds'' = Some (PList (map PStr cs))))"

lemma descend_shaped:
  assumes "shaped ms"
  shows "\<exists>c. descend ms vis cur (PList (map PStr cs)) = Inr c \<and> (c = cur \<or> (\<exists>s. c = PStr s))"
  using assms
proof (induction "card (fst ` set ms - set vis)" arbitrary: vis cur cs rule: less_induct)
  case less
  show ?case
  proof (cases "cs = []")
    case False
    then have l: "last_item (PList (map PStr cs)) = Inr (Some (PStr (List.last cs)))" by (simp add: last_item_def py_truthy_def last_map)
    show ?thesis
    proof (cases "List.last cs \<in> set vis \<or> \<not> has_key ms (List.last cs)")
      case True
      with l show ?thesis by (auto simp: descend.simps [of _ _ _ "PList (map PStr cs)"] has_key_def split: option.splits)
    next
      case known: False
      then obtain m ks where m: "map_of ms (List.last cs) = Some (PDict m)" "map_of m ''childrenIds'' = Some (PList (map PStr ks))"
        using less.prems by (auto simp: shaped_def)
      have "\<exists>c. descend ms (List.last cs # vis) (PStr (List.last cs)) (PList (map PStr ks)) = Inr c
          \<and> (c = PStr (List.last cs) \<or> (\<exists>s. c = PStr s))"
        using known by (intro less.hyps [OF unvisited_less] less.prems) auto
      moreover have "descend ms vis cur (PList (map PStr cs)) = descend ms (List.last cs # vis) (PStr (List.last cs)) (PList (map PStr ks))"
        using l known m by (simp add: descend.simps [of _ vis] get_default_def)
      ultimately show ?thesis by auto
    qed
  qed (simp add: descend.simps last_item_def py_truthy_def)
qed

lemma root_ids_shaped:
  "list_all (\<lambda>(k, v). is_mapping v) ms \<Longrightarrow> \<exists>ids. root_ids ms = Inr (map PStr ids)"
proof (induction ms)
  case (Cons p ms)
  then obtain k m ids where "p = (k, PDict m)" "root_ids ms = Inr (map PStr ids)" by (cases p) (auto elim!: is_mappingE)
  then show ?case by (cases "pget m ''parentId'' = PNone") (auto simp: need_dict_def intro: exI [of _ "k # ids"])
qed simp

lemma next_current_shaped:
  assumes ms: "shaped ms" and p: "p = PNone \<or> (\<exists>s. p = PStr s)"
  shows "\<exists>c. next_current ms p = Inr c \<and> (c = PNone \<or> (\<exists>s. c = PStr s \<and> has_key ms s))"
proof -
  have maps: "list_all (\<lambda>(k, v). is_mapping v) ms"
    using ms by (fastforce simp: shaped_def list_all_iff has_key_iff map_of_iff_dict_ok dest: dict_ok_unique)
  obtain ids where ids: "root_ids ms = Inr (map PStr ids)" using root_ids_shaped [OF maps] by blast
  have "\<exists>cs. (if p = PNone then rbind (root_ids ms) (\<lambda>ids. Inr (PList ids))
            else rbind (key_in p ms) (\<lambda>b. if \<not> b then Inr (PList [])
              else rbind (need_dict (pget ms (str_of p))) (\<lambda>m. Inr (get_default m ''childrenIds'' (PList []))))) = Inr (PList (map PStr cs))"
  proof (cases "\<exists>s. p = PStr s \<and> has_key ms s")
    case True
    then obtain s m cs where "p = PStr s" "has_key ms s" "map_of ms s = Some (PDict m)" "map_of m ''childrenIds'' = Some (PList (map PStr cs))"
      using ms unfolding shaped_def by blast
    then show ?thesis by (auto simp: key_in_def need_dict_def pget_def get_default_def)
  next
    case False
    then show ?thesis using p ids by (auto simp: key_in_def intro: exI [of _ "[]"])
  qed
  then obtain cs where cs: "(if p = PNone then rbind (root_ids ms) (\<lambda>ids. Inr (PList ids))
            else rbind (key_in p ms) (\<lambda>b. if \<not> b then Inr (PList [])
              else rbind (need_dict (pget ms (str_of p))) (\<lambda>m. Inr (get_default m ''childrenIds'' (PList []))))) = Inr (PList (map PStr cs))" by blast
  obtain c where c: "descend ms [] p (PList (map PStr cs)) = Inr c" "c = p \<or> (\<exists>s. c = PStr s)" using descend_shaped [OF ms] by blast
  have "next_current ms p = rbind (key_in c ms) (\<lambda>b. Inr (if b then c else PNone))"
    unfolding next_current_def cs rbind_simps c(1) ..
  with c(2) p show ?thesis by (auto simp: key_in_def)
qed

text \<open>The two changes of a deletion before the messages are removed, by lookup.\<close>

lemma reparent_lookup:
  assumes "\<forall>g \<in> set gs. \<exists>m. map_of ms g = Some (PDict m)"
  shows "\<exists>ms'. reparent p gs ms = Inr ms' \<and> (dict_ok ms \<longrightarrow> dict_ok ms') \<and>
    (\<forall>k. map_of ms' k = (if k \<in> set gs then Some (PDict (AList.update ''parentId'' p (dict_or_empty (pget ms k)))) else map_of ms k))"
  using assms
proof (induction gs arbitrary: ms)
  case (Cons g gs)
  then obtain m where m: "map_of ms g = Some (PDict m)" by auto
  let ?ms = "AList.update g (PDict (AList.update ''parentId'' p m)) ms"
  have "\<forall>g' \<in> set gs. \<exists>m'. map_of ?ms g' = Some (PDict m')" using Cons.prems by auto
  from Cons.IH [OF this] obtain ms' where IH: "reparent p gs ?ms = Inr ms'" "dict_ok ?ms \<longrightarrow> dict_ok ms'"
    "\<And>k. map_of ms' k = (if k \<in> set gs then Some (PDict (AList.update ''parentId'' p (dict_or_empty (pget ?ms k)))) else map_of ?ms k)" by blast
  have "reparent p (g # gs) ms = Inr ms'" using m IH(1) by (simp add: need_dict_def pget_def)
  moreover have "map_of ms' k = (if k \<in> set (g # gs) then Some (PDict (AList.update ''parentId'' p (dict_or_empty (pget ms k)))) else map_of ms k)" for k
    using m by (auto simp: IH(3) dict_or_empty_def pget_def update_update)
  ultimately show ?case using IH(2) by auto
qed simp

lemma replace_child_lookup:
  assumes ms: "tree_ok ms" and p: "p = PNone \<or> (\<exists>s. p = PStr s)"
  shows "\<exists>ms'. replace_child p x gs ms = Inr ms' \<and> dict_ok ms' \<and>
    (\<forall>k. map_of ms' k = (if p = PStr k \<and> has_key ms k
       then Some (PDict (AList.update ''childrenIds'' (PList (map PStr (filter (\<lambda>c. c \<noteq> x) (kids ms k) @ gs))) (dict_or_empty (pget ms k))))
       else map_of ms k))"
proof (cases "\<exists>s. p = PStr s \<and> has_key ms s")
  case True
  then obtain s where s: "p = PStr s" "has_key ms s" by blast
  obtain m where m: "pget ms s = PDict m" "pget m ''childrenIds'' = PList (map PStr (kids ms s))" using msg_okD(1) [OF ms s(2)] by auto
  have "filter (\<lambda>c. \<not> py_eq_str c x) (map PStr (kids ms s)) = map PStr (filter (\<lambda>c. c \<noteq> x) (kids ms s))" by (simp add: filter_map comp_def)
  then have "replace_child p x gs ms = Inr (AList.update s
      (PDict (AList.update ''childrenIds'' (PList (map PStr (filter (\<lambda>c. c \<noteq> x) (kids ms s) @ gs))) m)) ms)"
    using s m by (simp add: replace_child_def key_in_def need_dict_def)
  moreover have "dict_or_empty (pget ms s) = m" by (simp add: m dict_or_empty_def)
  ultimately show ?thesis using s ms by (auto simp: tree_ok_def)
next
  case False
  then have "replace_child p x gs ms = Inr ms" using p by (auto simp: replace_child_def key_in_def)
  with False ms show ?thesis by (auto simp: tree_ok_def)
qed

lemma map_of_filter_keys: "map_of (filter (\<lambda>(i, v). P i) d) k = (if P k then map_of d k else None)"
  by (induction d) auto

definition family :: "jdict \<Rightarrow> string \<Rightarrow> string list" where
  "family ms x = concat (map (kids ms) (kids ms x))"

text \<open>The children of \<open>k\<close> after the deletion of \<open>x\<close>.\<close>

definition kids_after :: "jdict \<Rightarrow> string \<Rightarrow> string \<Rightarrow> string list" where
  "kids_after ms x k = (if parent_val (pget ms x) = PStr k then filter (\<lambda>c. c \<noteq> x) (kids ms k) @ family ms x else kids ms k)"

lemma delete_lookup:
  assumes ms: "tree_ok ms" and x: "has_key ms x" and hist: "pget history ''messages'' = PDict ms"
  defines "par \<equiv> parent_val (pget ms x)" and "D \<equiv> set (x # kids ms x)" and "G \<equiv> family ms x"
  shows "\<exists>del ms3 cur. delete_message_from_history history x = Inr (del, AList.update ''currentId'' cur (AList.update ''messages'' (PDict ms3) history))
    \<and> set del = D \<and> dict_ok ms3 \<and> (cur = PNone \<or> (\<exists>s. cur = PStr s \<and> has_key ms3 s))
    \<and> (\<forall>k. has_key ms3 k \<longleftrightarrow> has_key ms k \<and> k \<notin> D)
    \<and> (\<forall>k. has_key ms3 k \<longrightarrow> (\<exists>m3. map_of ms3 k = Some (PDict m3)
          \<and> map_of m3 ''childrenIds'' = Some (PList (map PStr (kids_after ms x k)))
          \<and> pget m3 ''parentId'' = (if k \<in> set G then par else parent_val (pget ms k))
          \<and> (\<forall>f. f \<noteq> ''childrenIds'' \<and> f \<noteq> ''parentId'' \<longrightarrow> pget m3 f = pget (dict_or_empty (pget ms k)) f)))"
proof -
  obtain m where m: "map_of ms x = Some (PDict m)" "pget ms x = PDict m" using msg_okD(1) [OF ms x] by blast
  have par: "par = PNone \<or> (\<exists>s. par = PStr s)" "pget m ''parentId'' = par"
    using ms x m by (auto simp: tree_ok_def msg_ok_def par_def parent_val_def dict_or_empty_def)
  have C: "known_children ms (PDict m) = Inr (kids ms x)" using known_children_tree [OF ms x] m by simp
  have inC: "\<forall>c \<in> set (kids ms x). has_key ms c" using msg_okD(3) [OF ms x] by auto
  have G: "known_grandchildren ms (kids ms x) = Inr G" using known_grandchildren_tree [OF ms inC] by (simp add: G_def family_def)
  have inG: "has_key ms g" if "g \<in> set G" for g
    using that inC msg_okD(3) [OF ms] by (auto simp: G_def family_def)
  obtain ms1 where ms1: "replace_child par x G ms = Inr ms1" "dict_ok ms1"
    and look1: "\<And>k. map_of ms1 k = (if par = PStr k \<and> has_key ms k
       then Some (PDict (AList.update ''childrenIds'' (PList (map PStr (filter (\<lambda>c. c \<noteq> x) (kids ms k) @ G))) (dict_or_empty (pget ms k))))
       else map_of ms k)" using replace_child_lookup [OF ms par(1), of x G] by blast
  have "\<forall>g \<in> set G. \<exists>m'. map_of ms1 g = Some (PDict m')" using inG msg_okD(1) [OF ms] by (auto simp: look1)
  from reparent_lookup [OF this, of par] obtain ms2 where ms2: "reparent par G ms1 = Inr ms2" "dict_ok ms2"
    and look2: "\<And>k. map_of ms2 k = (if k \<in> set G then Some (PDict (AList.update ''parentId'' par (dict_or_empty (pget ms1 k)))) else map_of ms1 k)"
    using ms1(2) by blast
  define del where "del = List.union [x] (kids ms x)"
  have del: "set del = D" by (simp add: del_def D_def)
  define ms3 where "ms3 = filter (\<lambda>(i, m). \<not> List.member del i) ms2"
  have look3: "map_of ms3 k = (if k \<in> D then None else map_of ms2 k)" for k
    unfolding ms3_def map_of_filter_keys by (simp add: del)
  have ok3: "dict_ok ms3" using ms2(2) by (simp add: ms3_def)
  have key: "has_key ms3 k \<longleftrightarrow> has_key ms k \<and> k \<notin> D" for k
    using inG by (auto simp: has_key_def look3 look2 look1)
  have entry: "\<exists>m3. map_of ms3 k = Some (PDict m3)
          \<and> map_of m3 ''childrenIds'' = Some (PList (map PStr (kids_after ms x k)))
          \<and> pget m3 ''parentId'' = (if k \<in> set G then par else parent_val (pget ms k))
          \<and> (\<forall>f. f \<noteq> ''childrenIds'' \<and> f \<noteq> ''parentId'' \<longrightarrow> pget m3 f = pget (dict_or_empty (pget ms k)) f)" if "has_key ms3 k" for k
  proof -
    have k: "has_key ms k" "k \<notin> D" using that key by auto
    obtain mk where mk: "map_of ms k = Some (PDict mk)" "map_of mk ''childrenIds'' = Some (PList (map PStr (kids ms k)))"
      using ms k(1) by (auto simp: tree_ok_def msg_ok_def)
    let ?m1 = "if par = PStr k then AList.update ''childrenIds'' (PList (map PStr (filter (\<lambda>c. c \<noteq> x) (kids ms k) @ G))) mk else mk"
    have m1: "map_of ms1 k = Some (PDict ?m1)" using mk(1) k(1) by (simp add: look1 pget_def dict_or_empty_def)
    have m3: "map_of ms3 k = Some (PDict (if k \<in> set G then AList.update ''parentId'' par ?m1 else ?m1))"
      using k(2) m1 by (simp add: look3 look2 pget_def dict_or_empty_def)
    show ?thesis
      by (rule exI [of _ "if k \<in> set G then AList.update ''parentId'' par ?m1 else ?m1"])
        (use m3 mk in \<open>simp add: kids_after_def par_def G_def parent_val_def dict_or_empty_def pget_def [of ms]\<close>)
  qed
  have "shaped ms3" using ok3 entry unfolding shaped_def by meson
  from next_current_shaped [OF this par(1)] obtain cur where cur: "next_current ms3 par = Inr cur"
    "cur = PNone \<or> (\<exists>s. cur = PStr s \<and> has_key ms3 s)" by blast
  have ms3: "filter (\<lambda>(i, m). i \<noteq> x \<and> i \<notin> set (kids ms x)) ms2 = ms3" by (simp add: ms3_def del_def)
  have "need_dict (py_or (pget history ''messages'') (PDict [])) = Inr ms"
    using hist x by (auto simp: need_dict_def py_or_def py_truthy_def has_key_def)
  then have "delete_message_from_history history x = Inr (del, AList.update ''currentId'' cur (AList.update ''messages'' (PDict ms3) history))"
    unfolding delete_message_from_history_def by (simp add: m par(2) C G ms1 ms2 cur(1) Let_def del_def [symmetric] ms3)
  with del ok3 cur(2) key entry show ?thesis by blast
qed

lemma parent_val_PDict: "parent_val (PDict m) = pget m ''parentId''"
  by (simp add: parent_val_def dict_or_empty_def)

lemma kids_lookup: "map_of ms k = Some (PDict m) \<Longrightarrow> map_of m ''childrenIds'' = Some (PList (map PStr cs)) \<Longrightarrow> kids ms k = cs"
  by (simp add: kids_def children_of_msg_def list_or_empty_def dict_or_empty_def pget_def comp_def)

lemma family_iff:
  assumes "tree_ok ms" "has_key ms x"
  shows "i \<in> set (family ms x) \<longleftrightarrow> has_key ms i \<and> (\<exists>c \<in> set (kids ms x). parent_val (pget ms i) = PStr c)"
proof -
  have "has_key ms c" if "c \<in> set (kids ms x)" for c using that msg_okD(3) [OF assms] by auto
  then show ?thesis using msg_okD(3) [OF assms(1)] by (auto simp: family_def)
qed

lemma distinct_family:
  assumes "tree_ok ms" "has_key ms x"
  shows "distinct (family ms x)"
  unfolding family_def
proof (rule distinct_concat_map)
  have c: "has_key ms c" if "c \<in> set (kids ms x)" for c using that msg_okD(3) [OF assms] by auto
  show "distinct (kids ms x)" by (rule msg_okD(2) [OF assms])
  show "distinct (kids ms c)" if "c \<in> set (kids ms x)" for c using msg_okD(2) [OF assms(1) c [OF that]] .
  show "set (kids ms c) \<inter> set (kids ms d) = {}" if "c \<in> set (kids ms x)" "d \<in> set (kids ms x)" "c \<noteq> d" for c d
    using msg_okD(3) [OF assms(1) c [OF that(1)]] msg_okD(3) [OF assms(1) c [OF that(2)]] that(3) by auto
qed

lemma kids_after_ok:
  assumes ms: "tree_ok ms" and x: "has_key ms x" and k: "has_key ms k" "k \<noteq> x" "k \<notin> set (kids ms x)"
  shows "distinct (kids_after ms x k)"
    "i \<in> set (kids_after ms x k) \<longleftrightarrow> has_key ms i \<and> i \<notin> set (x # kids ms x) \<and>
       (if i \<in> set (family ms x) then parent_val (pget ms x) else parent_val (pget ms i)) = PStr k"
proof -
  have K: "set (kids ms k) = {i. has_key ms i \<and> parent_val (pget ms i) = PStr k}" "distinct (kids ms k)" using msg_okD(2,3) [OF ms k(1)] by auto
  have C: "set (kids ms x) = {i. has_key ms i \<and> parent_val (pget ms i) = PStr x}" by (rule msg_okD(3) [OF ms x])
  show "distinct (kids_after ms x k)" using K k(3) distinct_family [OF ms x] family_iff [OF ms x] by (auto simp: kids_after_def)
  show "i \<in> set (kids_after ms x k) \<longleftrightarrow> has_key ms i \<and> i \<notin> set (x # kids ms x) \<and>
       (if i \<in> set (family ms x) then parent_val (pget ms x) else parent_val (pget ms i)) = PStr k"
    using K(1) C family_iff [OF ms x, of i] k by (auto simp: kids_after_def)
qed

text \<open>What the deletion leaves of the messages: entries with the parents and children the deletion gives them.\<close>

definition deleted_from :: "jdict \<Rightarrow> string \<Rightarrow> jdict \<Rightarrow> bool" where
  "deleted_from ms x ms3 \<longleftrightarrow> dict_ok ms3 \<and> (\<forall>k. has_key ms3 k \<longleftrightarrow> has_key ms k \<and> k \<notin> set (x # kids ms x)) \<and>
     (\<forall>k. has_key ms3 k \<longrightarrow> (\<exists>m3. map_of ms3 k = Some (PDict m3) \<and> map_of m3 ''childrenIds'' = Some (PList (map PStr (kids_after ms x k)))
        \<and> pget m3 ''parentId'' = (if k \<in> set (family ms x) then parent_val (pget ms x) else parent_val (pget ms k))
        \<and> (\<forall>f. f \<noteq> ''childrenIds'' \<and> f \<noteq> ''parentId'' \<longrightarrow> pget m3 f = pget (dict_or_empty (pget ms k)) f)))"

lemma deleted_fromD:
  assumes "deleted_from ms x ms3"
  shows "dict_ok ms3" "has_key ms3 k \<longleftrightarrow> has_key ms k \<and> k \<notin> set (x # kids ms x)"
    "has_key ms3 k \<Longrightarrow> \<exists>m3. map_of ms3 k = Some (PDict m3) \<and> map_of m3 ''childrenIds'' = Some (PList (map PStr (kids_after ms x k)))
        \<and> pget m3 ''parentId'' = (if k \<in> set (family ms x) then parent_val (pget ms x) else parent_val (pget ms k))
        \<and> (\<forall>f. f \<noteq> ''childrenIds'' \<and> f \<noteq> ''parentId'' \<longrightarrow> pget m3 f = pget (dict_or_empty (pget ms k)) f)"
  using assms unfolding deleted_from_def by blast+

lemma deleted_parent:
  assumes "deleted_from ms x ms3" "has_key ms3 k"
  shows "parent_val (pget ms3 k) = (if k \<in> set (family ms x) then parent_val (pget ms x) else parent_val (pget ms k))"
proof -
  obtain m3 where "map_of ms3 k = Some (PDict m3)" "pget m3 ''parentId'' = (if k \<in> set (family ms x) then parent_val (pget ms x) else parent_val (pget ms k))"
    using deleted_fromD(3) [OF assms] by (elim exE conjE) (rule that)
  then show ?thesis by (simp add: parent_val_PDict pget_def [of ms3])
qed

lemma deleted_frame:
  assumes "deleted_from ms x ms3" "has_key ms3 k" "f \<noteq> ''childrenIds''" "f \<noteq> ''parentId''"
  shows "pget (dict_or_empty (pget ms3 k)) f = pget (dict_or_empty (pget ms k)) f"
proof -
  obtain m3 where "map_of ms3 k = Some (PDict m3)" "\<forall>f. f \<noteq> ''childrenIds'' \<and> f \<noteq> ''parentId'' \<longrightarrow> pget m3 f = pget (dict_or_empty (pget ms k)) f"
    using deleted_fromD(3) [OF assms(1,2)] by (elim exE conjE) (rule that)
  then show ?thesis using assms(3,4) by (simp add: dict_or_empty_def pget_def [of ms3])
qed

lemma deleted_tree:
  assumes ms: "tree_ok ms" and x: "has_key ms x" and d: "deleted_from ms x ms3"
  shows "tree_ok ms3"
proof -
  note key = deleted_fromD(2) [OF d] and entry = deleted_fromD(3) [OF d] and par3 = deleted_parent [OF d] and typed = parent_typed [OF ms]
  have "msg_ok ms3 k" if k3: "has_key ms3 k" for k
  proof -
    have k: "has_key ms k" "k \<noteq> x" "k \<notin> set (kids ms x)" using k3 key by auto
    have kids3: "kids ms3 k = kids_after ms x k" using entry [OF k3] by (elim exE conjE) (rule kids_lookup)
    have "i \<in> set (kids_after ms x k) \<longleftrightarrow> has_key ms3 i \<and> parent_val (pget ms3 i) = PStr k" for i
      unfolding kids_after_ok(2) [OF ms x k] using key [of i] par3 [of i] by auto
    then have "distinct (kids_after ms x k)" "set (kids_after ms x k) = {i. has_key ms3 i \<and> parent_val (pget ms3 i) = PStr k}"
      using kids_after_ok(1) [OF ms x k] by auto
    moreover have "parent_val (pget ms3 k) = PNone \<or> (\<exists>p. parent_val (pget ms3 k) = PStr p)"
      using par3 [OF k3] typed [OF k(1)] typed [OF x] by auto
    moreover have "\<exists>m. map_of ms3 k = Some (PDict m) \<and> map_of m ''childrenIds'' = Some (PList (map PStr (kids_after ms x k)))"
      using entry [OF k3] by (elim exE conjE) (intro exI conjI)
    ultimately show ?thesis unfolding msg_ok_def kids3 by blast
  qed
  with deleted_fromD(1) [OF d] show ?thesis by (simp add: tree_ok_def)
qed

text \<open>C2: Deleting a message takes the message and its children out of the tree and puts the grandchildren in their place. On a history
  whose links agree this never raises; the links agree afterwards, no other message is lost or changed in any other field,
  and the current id names a message that is left.\<close>

theorem delete_message_keeps_tree:
  assumes ms: "tree_ok ms" and x: "has_key ms x" and hist: "pget history ''messages'' = PDict ms"
  shows "\<exists>del h ms'. delete_message_from_history history x = Inr (del, h) \<and> pget h ''messages'' = PDict ms' \<and> tree_ok ms' \<and>
    set del = insert x {i. has_key ms i \<and> parent_val (pget ms i) = PStr x} \<and>
    (\<forall>k. has_key ms' k \<longleftrightarrow> has_key ms k \<and> k \<notin> set del) \<and>
    (\<forall>k. has_key ms' k \<longrightarrow> parent_val (pget ms' k) =
        (if \<exists>c \<in> set del. c \<noteq> x \<and> parent_val (pget ms k) = PStr c then parent_val (pget ms x) else parent_val (pget ms k))) \<and>
    (\<forall>k f. has_key ms' k \<and> f \<noteq> ''childrenIds'' \<and> f \<noteq> ''parentId'' \<longrightarrow> pget (dict_or_empty (pget ms' k)) f = pget (dict_or_empty (pget ms k)) f) \<and>
    (pget h ''currentId'' = PNone \<or> (\<exists>s. pget h ''currentId'' = PStr s \<and> has_key ms' s))"
proof -
  let ?par = "parent_val (pget ms x)"
  obtain del ms3 cur where res: "delete_message_from_history history x = Inr (del, AList.update ''currentId'' cur (AList.update ''messages'' (PDict ms3) history))"
    and del: "set del = set (x # kids ms x)" and d: "deleted_from ms x ms3" and cur: "cur = PNone \<or> (\<exists>s. cur = PStr s \<and> has_key ms3 s)"
    using delete_lookup [OF assms] by (elim exE conjE) (rule that, (assumption | (unfold deleted_from_def, intro conjI, assumption+))+)
  have C: "set (kids ms x) = {i. has_key ms i \<and> parent_val (pget ms i) = PStr x}" by (rule msg_okD(3) [OF ms x])
  have par: "parent_val (pget ms3 k) = (if \<exists>c \<in> set del. c \<noteq> x \<and> parent_val (pget ms k) = PStr c then ?par else parent_val (pget ms k))"
    if "has_key ms3 k" for k
  proof -
    have "has_key ms k" "parent_val (pget ms k) \<noteq> PStr x" using that deleted_fromD(2) [OF d, of k] C by auto
    then have "k \<in> set (family ms x) \<longleftrightarrow> (\<exists>c \<in> set del. c \<noteq> x \<and> parent_val (pget ms k) = PStr c)" unfolding family_iff [OF ms x] del by auto
    then show ?thesis using deleted_parent [OF d that] by simp
  qed
  show ?thesis
  proof (intro exI conjI)
    show "delete_message_from_history history x = Inr (del, AList.update ''currentId'' cur (AList.update ''messages'' (PDict ms3) history))" by (rule res)
    show "tree_ok ms3" by (rule deleted_tree [OF ms x d])
    show "set del = insert x {i. has_key ms i \<and> parent_val (pget ms i) = PStr x}" using del C by simp
    show "\<forall>k. has_key ms3 k \<longleftrightarrow> has_key ms k \<and> k \<notin> set del" using deleted_fromD(2) [OF d] del by simp
    show "\<forall>k. has_key ms3 k \<longrightarrow> parent_val (pget ms3 k) =
        (if \<exists>c \<in> set del. c \<noteq> x \<and> parent_val (pget ms k) = PStr c then ?par else parent_val (pget ms k))" using par by blast
    show "\<forall>k f. has_key ms3 k \<and> f \<noteq> ''childrenIds'' \<and> f \<noteq> ''parentId'' \<longrightarrow> pget (dict_or_empty (pget ms3 k)) f = pget (dict_or_empty (pget ms k)) f"
      using deleted_frame [OF d] by blast
  qed (use cur in simp_all)
qed

definition branch :: jdict where
  "branch = [(''a'', PDict [(''parentId'', PNone), (''childrenIds'', PList [PStr ''b''])]),
     (''b'', PDict [(''parentId'', PStr ''a''), (''childrenIds'', PList [PStr ''c''])]),
     (''c'', PDict [(''parentId'', PStr ''b''), (''childrenIds'', PList [])])]"

lemma branch_ok: "tree_ok branch"
proof -
  have "has_key branch k \<longleftrightarrow> k = ''a'' \<or> k = ''b'' \<or> k = ''c''" for k by (auto simp: branch_def has_key_iff)
  moreover have "msg_ok branch ''a''" "msg_ok branch ''b''" "msg_ok branch ''c''"
    by (auto simp: msg_ok_def branch_def kids_def children_of_msg_def list_or_empty_def dict_or_empty_def parent_val_def has_key_def)
  ultimately show ?thesis by (auto simp: tree_ok_def branch_def dict_ok_def)
qed

theorem delete_message_keeps_tree_witness:
  "\<exists>del h ms'. delete_message_from_history [(''messages'', PDict branch)] ''b'' = Inr (del, h) \<and> pget h ''messages'' = PDict ms' \<and> tree_ok ms' \<and> \<not> has_key ms' ''b''"
proof -
  have "has_key branch ''b''" "pget [(''messages'', PDict branch)] ''messages'' = PDict branch" by (simp_all add: branch_def has_key_def)
  from delete_message_keeps_tree [OF branch_ok this] show ?thesis by auto
qed

subsection \<open>The chain of a message\<close>

lemma chain_path:
  assumes "tree_ok ms"
  shows "\<exists>ks. message_chain ms vis i = Inr (map (pget ms) ks) \<and> distinct ks \<and> set ks \<inter> set vis = {} \<and>
    successively (\<lambda>a b. parent_val (pget ms a) = PStr b) ks \<and> (ks = [] \<longleftrightarrow> i \<in> set vis \<or> \<not> has_key ms i) \<and>
    (ks \<noteq> [] \<longrightarrow> hd ks = i \<and> (\<forall>p. parent_val (pget ms (List.last ks)) = PStr p \<longrightarrow> p = [] \<or> \<not> has_key ms p \<or> p \<in> set ks \<union> set vis))"
  using assms
proof (induction "card (fst ` set ms - set vis)" arbitrary: vis i rule: less_induct)
  case less
  show ?case
  proof (cases "i \<in> set vis \<or> \<not> has_key ms i")
    case True
    then show ?thesis by (intro exI [of _ "[]"]) (auto simp: message_chain.simps)
  next
    case known: False
    then obtain m where m: "pget ms i = PDict m" "m \<noteq> []" using msg_okD(1) [OF less.prems, of i] by fastforce
    then have par: "parent_val (pget ms i) = pget m ''parentId''" by (simp add: parent_val_PDict)
    show ?thesis
    proof (cases "\<exists>p. pget m ''parentId'' = PStr p \<and> p \<noteq> []")
      case True
      then obtain p where p: "pget m ''parentId'' = PStr p" "p \<noteq> []" by blast
      have less_vis: "card (fst ` set ms - set (i # vis)) < card (fst ` set ms - set vis)" by (rule unvisited_less) (use known in auto)
      obtain ks where ks: "message_chain ms (i # vis) p = Inr (map (pget ms) ks)" "distinct ks" "set ks \<inter> set (i # vis) = {}"
        "successively (\<lambda>a b. parent_val (pget ms a) = PStr b) ks" "ks = [] \<longleftrightarrow> p \<in> set (i # vis) \<or> \<not> has_key ms p"
        "ks \<noteq> [] \<longrightarrow> hd ks = p \<and> (\<forall>q. parent_val (pget ms (List.last ks)) = PStr q \<longrightarrow> q = [] \<or> \<not> has_key ms q \<or> q \<in> set ks \<union> set (i # vis))"
        using less.hyps [OF less_vis less.prems, of p] by (elim exE conjE) (rule that)
      have "message_chain ms vis i = Inr (map (pget ms) (i # ks))"
        using known m p ks(1) by (simp add: message_chain.simps [of ms vis] py_truthy_def)
      then show ?thesis using ks known p par by (intro exI [of _ "i # ks"]) (auto simp: successively_Cons)
    next
      case False
      then have "pget m ''parentId'' = PNone \<or> pget m ''parentId'' = PStr []"
        using parent_typed [OF less.prems, of i] known par by auto
      then have "message_chain ms vis i = Inr (map (pget ms) [i])"
        using known m by (auto simp: message_chain.simps [of ms vis] py_truthy_def)
      then show ?thesis using known False par by (intro exI [of _ "[i]"]) auto
    qed
  qed
qed

text \<open>C34: The list of messages that is sent to a model is the branch of the given message: it ends with that message, each message before is the parent
  of the next, no message occurs twice, and it starts at a message without a parent, or whose parent is unknown or already in the list. It
  is found on every history whose links agree, cyclic ones included.\<close>

theorem message_list_is_branch:
  assumes "tree_ok ms" "has_key ms i"
  shows "\<exists>ks. get_message_list ms i = Inr (map (pget ms) ks) \<and> ks \<noteq> [] \<and> List.last ks = i \<and> distinct ks \<and>
    successively (\<lambda>a b. parent_val (pget ms b) = PStr a) ks \<and>
    (\<forall>p. parent_val (pget ms (hd ks)) = PStr p \<longrightarrow> p = [] \<or> \<not> has_key ms p \<or> p \<in> set ks)"
proof -
  obtain ks where ks: "message_chain ms [] i = Inr (map (pget ms) ks)" "distinct ks" "successively (\<lambda>a b. parent_val (pget ms a) = PStr b) ks"
    "ks \<noteq> []" "hd ks = i" "\<forall>p. parent_val (pget ms (List.last ks)) = PStr p \<longrightarrow> p = [] \<or> \<not> has_key ms p \<or> p \<in> set ks"
    using chain_path [OF assms(1), of "[]" i] assms(2) by auto
  then show ?thesis
    by (intro exI [of _ "rev ks"]) (auto simp: get_message_list_def rev_map successively_rev last_rev hd_rev)
qed

theorem message_list_is_branch_witness:
  "\<exists>ks. get_message_list branch ''c'' = Inr (map (pget branch) ks) \<and> List.last ks = ''c''"
proof -
  have "has_key branch ''c''" by (simp add: branch_def has_key_def)
  from message_list_is_branch [OF branch_ok this] show ?thesis by blast
qed

end
