(* ===== verification/Chat_Messages.thy ===== *)
theory Chat_Messages
  imports Chat_History
begin

section \<open>The rows of messages (models/chat\_messages.py, utils/response.py)\<close>

text \<open>
  Every message of a chat also has a row in the table \<open>chat_message\<close>, from which the message map is rebuilt without loading
  the chat. The theory holds the accounting of usage (\<open>normalize_usage\<close>, \<open>merge_usage\<close>) and the
  operations on the table. Floating point numbers add exactly here. A value that does not fit its column (a role that
  is not text, say) makes the commit fail, as it does with the PostgreSQL driver.
\<close>

subsection \<open>Usage (utils/response.py)\<close>

fun float_add :: "pyfloat \<Rightarrow> pyfloat \<Rightarrow> pyfloat" where
  "float_add (Fin a) (Fin b) = Fin (a + b)"
| "float_add NaN b = NaN"
| "float_add a NaN = NaN"
| "float_add PInf NInf = NaN"
| "float_add NInf PInf = NaN"
| "float_add PInf b = PInf"
| "float_add a PInf = PInf"
| "float_add NInf b = NInf"
| "float_add a NInf = NInf"

definition as_whole :: "pyval \<Rightarrow> int option" where
  "as_whole v = (case v of PInt i \<Rightarrow> Some i | PBool b \<Rightarrow> Some (of_bool b) | _ \<Rightarrow> None)"

definition py_add :: "pyval \<Rightarrow> pyval \<Rightarrow> (history_error, pyval) result" where
  "py_add a b = (case (as_whole a, as_whole b) of
      (Some i, Some j) \<Rightarrow> Inr (PInt (i + j))
    | _ \<Rightarrow> (case (py_number a, py_number b) of
        (Some x, Some y) \<Rightarrow> Inr (PFloat (float_add x y))
      | _ \<Rightarrow> (case (a, b) of
          (PStr s, PStr t) \<Rightarrow> Inr (PStr (s @ t)) | (PList l, PList m) \<Rightarrow> Inr (PList (l @ m)) | (PTuple l, PTuple m) \<Rightarrow> Inr (PTuple (l @ m))
        | _ \<Rightarrow> Inl HistoryRaised)))"

text \<open>\<open>int(v)\<close>. A string may have blanks around it, a sign, and single underscores between its digits.\<close>

fun digit_groups :: "string \<Rightarrow> bool" where
  "digit_groups [] = False"
| "digit_groups [c] = is_digit c"
| "digit_groups (c # d # s) = (is_digit c \<and> (if d = CHR ''_'' then digit_groups s else digit_groups (d # s)))"

definition int_of_str :: "string \<Rightarrow> int option" where
  "int_of_str s =
     (let t = py_strip s; neg = startswith ''-'' t; u = (if neg \<or> startswith ''+'' t then drop 1 t else t);
          n = int (digits_value (filter is_digit u))
      in if digit_groups u then Some (if neg then - n else n) else None)"

definition py_int :: "pyval \<Rightarrow> (history_error, int) result" where
  "py_int v = (case v of
      PInt i \<Rightarrow> Inr i | PBool b \<Rightarrow> Inr (of_bool b) | PFloat (Fin r) \<Rightarrow> Inr (if 0 \<le> r then \<lfloor>r\<rfloor> else \<lceil>r\<rceil>)
    | PStr s \<Rightarrow> (case int_of_str s of None \<Rightarrow> Inl HistoryRaised | Some i \<Rightarrow> Inr i)
    | PBytes s \<Rightarrow> (case int_of_str s of None \<Rightarrow> Inl HistoryRaised | Some i \<Rightarrow> Inr i)
    | _ \<Rightarrow> Inl HistoryRaised)"

definition usage_input :: "jdict \<Rightarrow> (history_error, pyval) result" where
  "usage_input usage =
     (let v = py_or (py_or (pget usage ''input_tokens'') (pget usage ''prompt_tokens'')) (pget usage ''prompt_eval_count'')
      in if v \<noteq> PNone then Inr v
         else rbind (py_int (py_or (pget usage ''prompt_n'') (PInt 0))) (\<lambda>a.
              rbind (py_int (py_or (pget usage ''cache_n'') (PInt 0))) (\<lambda>b. Inr (PInt (a + b)))))"

definition usage_output :: "jdict \<Rightarrow> pyval" where
  "usage_output usage =
     py_or (py_or (py_or (py_or (pget usage ''output_tokens'') (pget usage ''completion_tokens'')) (pget usage ''eval_count''))
       (pget usage ''predicted_n'')) (PInt 0)"

definition normalize_usage :: "jdict \<Rightarrow> (history_error, jdict) result" where
  "normalize_usage usage =
     (if usage = [] then Inr []
      else rbind (usage_input usage) (\<lambda>inp.
        let out = usage_output usage; total = pget usage ''total_tokens'' in
        rbind (if py_truthy total then Inr total else py_add inp out) (\<lambda>t.
        rbind (py_int inp) (\<lambda>i. rbind (py_int out) (\<lambda>j. rbind (py_int t) (\<lambda>k.
        Inr (dict_update usage [(''input_tokens'', PInt i), (''output_tokens'', PInt j), (''total_tokens'', PInt k)])))))))"

definition is_numeric_usage_value :: "pyval \<Rightarrow> bool" where
  "is_numeric_usage_value v = (case v of PInt i \<Rightarrow> True | PFloat f \<Rightarrow> True | _ \<Rightarrow> False)"

definition numeric_or_0 :: "pyval \<Rightarrow> pyval" where
  "numeric_or_0 v = (if is_numeric_usage_value v then v else PInt 0)"

definition numeric_add :: "pyval \<Rightarrow> pyval \<Rightarrow> pyval" where
  "numeric_add a b = (case py_add (numeric_or_0 a) (numeric_or_0 b) of Inl e \<Rightarrow> PNone | Inr v \<Rightarrow> v)"

function merge_numeric_usage_map :: "jdict \<Rightarrow> jdict \<Rightarrow> jdict" where
  "merge_numeric_usage_map current incoming =
     map (\<lambda>(k, v). (k,
       let c = get_default current k (PInt 0); i = get_default incoming k (PInt 0)
       in if is_mapping c \<or> is_mapping i then PDict (merge_numeric_usage_map (dict_or_empty c) (dict_or_empty i))
          else if is_numeric_usage_value c \<or> is_numeric_usage_value i then numeric_add c i else v))
     (dict_update current incoming)"
  by pat_completeness auto

lemma dict_or_empty_le:
  "size (PDict (dict_or_empty (get_default d k (PInt 0)))) \<le> size (PDict d)"
  "is_mapping (get_default d k (PInt 0)) \<Longrightarrow> size (PDict (dict_or_empty (get_default d k (PInt 0)))) < size (PDict d)"
proof -
  have less: "size (PDict e) < size (PDict d)" if "map_of d k = Some (PDict e)" for e
    using map_of_SomeD [OF that] by (induction d) (auto simp: less_Suc_eq_le)
  show "size (PDict (dict_or_empty (get_default d k (PInt 0)))) \<le> size (PDict d)"
    using less by (cases "map_of d k") (auto simp: get_default_def dict_or_empty_def as_dict_def less_imp_le split: pyval.splits)
  show "is_mapping (get_default d k (PInt 0)) \<Longrightarrow> size (PDict (dict_or_empty (get_default d k (PInt 0)))) < size (PDict d)"
    using less by (cases "map_of d k") (auto simp: get_default_def dict_or_empty_def elim!: is_mappingE)
qed

termination merge_numeric_usage_map
proof (relation "measure (\<lambda>(c, i). size (PDict c) + size (PDict i))", goal_cases)
  case (2 current incoming p k v c i)
  then show ?case
    using dict_or_empty_le [of current k] dict_or_empty_le [of incoming k] by (auto simp del: pyval.size intro: add_less_le_mono add_le_less_mono)
qed simp

declare merge_numeric_usage_map.simps [simp del]

definition USAGE_SUMMABLE_KEYS :: "string list" where
  "USAGE_SUMMABLE_KEYS = [''input_tokens'', ''output_tokens'', ''total_tokens'',
     ''cost'', ''total_cost'', ''input_cost'', ''output_cost'', ''prompt_cost'', ''completion_cost'']"

definition USAGE_DETAIL_KEYS :: "string list" where
  "USAGE_DETAIL_KEYS = [''prompt_tokens_details'', ''completion_tokens_details'', ''input_tokens_details'', ''output_tokens_details'']"

definition sum_key :: "jdict \<Rightarrow> jdict \<Rightarrow> string \<Rightarrow> jdict \<Rightarrow> jdict" where
  "sum_key cu iu k result =
     (if has_key cu k \<or> has_key iu k
      then let c = get_default cu k (PInt 0); i = get_default iu k (PInt 0)
           in if is_numeric_usage_value c \<or> is_numeric_usage_value i then AList.update k (numeric_add c i) result else result
      else result)"

definition detail_key :: "jdict \<Rightarrow> jdict \<Rightarrow> string \<Rightarrow> jdict \<Rightarrow> jdict" where
  "detail_key cu iu k result =
     (if is_mapping (pget cu k) \<or> is_mapping (pget iu k)
      then AList.update k (PDict (merge_numeric_usage_map (dict_or_empty (pget cu k)) (dict_or_empty (pget iu k)))) result else result)"

definition merge_usage :: "jdict \<Rightarrow> jdict \<Rightarrow> (history_error, jdict) result" where
  "merge_usage current incoming =
     rbind (normalize_usage current) (\<lambda>cu.
     rbind (normalize_usage incoming) (\<lambda>iu.
     Inr (if iu = [] then cu
          else if cu = [] then iu
          else let r1 = fold (sum_key cu iu) USAGE_SUMMABLE_KEYS (dict_update cu iu);
                   r2 = fold (detail_key cu iu) USAGE_DETAIL_KEYS r1
               in dict_update r2
                    [(''prompt_tokens'', py_or (py_or (pget iu ''prompt_tokens'') (pget iu ''input_tokens'')) (get_default cu ''prompt_tokens'' (PInt 0))),
                     (''completion_tokens'', py_or (py_or (pget iu ''completion_tokens'') (pget iu ''output_tokens''))
                        (get_default cu ''completion_tokens'' (PInt 0)))])))"

subsection \<open>Rows\<close>

record message_row =
  cm_id :: string
  cm_chat_id :: string
  cm_user_id :: string
  cm_role :: pyval
  cm_parent_id :: pyval
  cm_content :: pyval
  cm_output :: pyval
  cm_model_id :: pyval
  cm_files :: pyval
  cm_sources :: pyval
  cm_embeds :: pyval
  cm_meta :: pyval
  cm_done :: pyval
  cm_status_history :: pyval
  cm_error :: pyval
  cm_usage :: pyval
  cm_context_summary :: pyval
  cm_created_at :: pyval
  cm_updated_at :: int

text \<open>What the columns accept: text, booleans and integers, or null where the column is nullable; the other columns are JSON.\<close>

definition text_or_null :: "pyval \<Rightarrow> bool" where
  "text_or_null v \<longleftrightarrow> v = PNone \<or> is_str v"

definition row_bindable :: "message_row \<Rightarrow> bool" where
  "row_bindable r \<longleftrightarrow> is_str (cm_role r) \<and> text_or_null (cm_parent_id r) \<and> text_or_null (cm_model_id r) \<and> text_or_null (cm_context_summary r)
     \<and> (cm_done r = PNone \<or> is_bool (cm_done r)) \<and> (cm_created_at r = PNone \<or> as_int (cm_created_at r) \<noteq> None)"

text \<open>\<open>get_usage\<close>; \<open>None\<close> where there is none.\<close>

definition get_usage :: "jdict \<Rightarrow> (history_error, jdict option) result" where
  "get_usage data =
     rbind (if py_truthy (pget data ''usage'') then Inr (pget data ''usage'')
            else rbind (need_dict (py_or (pget data ''info'') (PDict []))) (\<lambda>info. Inr (pget info ''usage''))) (\<lambda>usage.
     if \<not> py_truthy usage then Inr None
     else rbind (need_dict usage) (\<lambda>u. rbind (normalize_usage u) (\<lambda>n. Inr (Some n))))"

text \<open>\<open>data.get(a) or data.get(b)\<close>, and whether the payload carries the field at all.\<close>

definition either_key :: "jdict \<Rightarrow> string \<Rightarrow> string \<Rightarrow> pyval" where
  "either_key data a b = py_or (pget data a) (pget data b)"

definition carried :: "jdict \<Rightarrow> string \<Rightarrow> pyval \<Rightarrow> pyval" where
  "carried data k old = (if has_key data k then pget data k else old)"

definition carried2 :: "jdict \<Rightarrow> string \<Rightarrow> string \<Rightarrow> pyval \<Rightarrow> pyval" where
  "carried2 data a b old = (if has_key data a \<or> has_key data b then either_key data a b else old)"

definition merged_usage :: "pyval \<Rightarrow> jdict option \<Rightarrow> (history_error, pyval) result" where
  "merged_usage old usage = (case usage of
      None \<Rightarrow> Inr old
    | Some u \<Rightarrow>
        if u = [] then Inr old
        else rbind (if py_truthy old then need_dict old else Inr []) (\<lambda>o'.
             rbind (normalize_usage o') (\<lambda>existing.
             if py_eq (PDict u) (PDict existing) then Inr (PDict existing)
             else rbind (merge_usage existing u) (\<lambda>m. Inr (PDict m)))))"

definition apply_message_data :: "message_row \<Rightarrow> jdict \<Rightarrow> int \<Rightarrow> (history_error, message_row) result" where
  "apply_message_data r data now =
     rbind (get_usage data) (\<lambda>u. rbind (merged_usage (cm_usage r) u) (\<lambda>usage.
     Inr (r\<lparr>cm_role := carried data ''role'' (cm_role r), cm_parent_id := carried2 data ''parent_id'' ''parentId'' (cm_parent_id r),
       cm_content := carried data ''content'' (cm_content r), cm_output := carried data ''output'' (cm_output r),
       cm_model_id := carried2 data ''model_id'' ''model'' (cm_model_id r), cm_files := carried data ''files'' (cm_files r),
       cm_sources := carried data ''sources'' (cm_sources r), cm_embeds := carried data ''embeds'' (cm_embeds r),
       cm_meta := carried data ''meta'' (cm_meta r), cm_done := carried data ''done'' (cm_done r),
       cm_status_history := carried2 data ''status_history'' ''statusHistory'' (cm_status_history r), cm_error := carried data ''error'' (cm_error r),
       cm_usage := usage, cm_context_summary := carried2 data ''context_summary'' ''contextSummary'' (cm_context_summary r),
       cm_updated_at := now\<rparr>)))"

definition build_message :: "string \<Rightarrow> string \<Rightarrow> string \<Rightarrow> jdict \<Rightarrow> int \<Rightarrow> (history_error, message_row) result" where
  "build_message composite_id chat_id user_id data now = rbind (get_usage data) (\<lambda>u.
     Inr \<lparr>cm_id = composite_id, cm_chat_id = chat_id, cm_user_id = user_id, cm_role = get_default data ''role'' (PStr ''user''),
       cm_parent_id = either_key data ''parent_id'' ''parentId'', cm_content = pget data ''content'', cm_output = pget data ''output'',
       cm_model_id = either_key data ''model_id'' ''model'', cm_files = pget data ''files'', cm_sources = pget data ''sources'',
       cm_embeds = pget data ''embeds'', cm_meta = pget data ''meta'', cm_done = get_default data ''done'' (PBool True),
       cm_status_history = either_key data ''status_history'' ''statusHistory'', cm_error = pget data ''error'',
       cm_usage = (case u of None \<Rightarrow> PNone | Some n \<Rightarrow> PDict n),
       cm_context_summary = either_key data ''context_summary'' ''contextSummary'',
       cm_created_at = get_default data ''timestamp'' (PInt now), cm_updated_at = now\<rparr>)"

subsection \<open>The table\<close>

type_synonym message_table = "message_row list"

definition composite_id :: "string \<Rightarrow> string \<Rightarrow> string" where
  "composite_id chat_id message_id = chat_id @ ''-'' @ message_id"

definition get_message_row :: "string \<Rightarrow> message_table \<Rightarrow> message_row option" where
  "get_message_row i t = find (\<lambda>r. cm_id r = i) t"

definition put_message_row :: "message_row \<Rightarrow> message_table \<Rightarrow> message_table" where
  "put_message_row r t = (if get_message_row (cm_id r) t = None then t @ [r] else map (\<lambda>q. if cm_id q = cm_id r then r else q) t)"

text \<open>One message of an upsert inside its transaction; the rows are flushed with the commit.\<close>

definition upsert_row :: "int \<Rightarrow> string \<Rightarrow> string \<Rightarrow> string \<Rightarrow> jdict \<Rightarrow> message_table \<Rightarrow> (history_error, message_table) result" where
  "upsert_row now chat_id user_id message_id data t =
     (let cid = composite_id chat_id message_id in
      rbind (case get_message_row cid t of
          Some r \<Rightarrow> apply_message_data r data now
        | None \<Rightarrow> build_message cid chat_id user_id data now) (\<lambda>r.
      if row_bindable r then Inr (put_message_row r t) else Inl HistoryRaised))"

definition upsert_message :: "int \<Rightarrow> string \<Rightarrow> string \<Rightarrow> string \<Rightarrow> jdict \<Rightarrow> message_table \<Rightarrow> (history_error, message_table) result" where
  "upsert_message now message_id chat_id user_id data t = upsert_row now chat_id user_id message_id data t"

fun upsert_rows :: "int \<Rightarrow> string \<Rightarrow> string \<Rightarrow> (string \<times> jdict) list \<Rightarrow> message_table \<Rightarrow> (history_error, message_table) result" where
  "upsert_rows now chat_id user_id [] t = Inr t"
| "upsert_rows now chat_id user_id ((i, data) # rest) t =
     rbind (upsert_row now chat_id user_id i data t) (upsert_rows now chat_id user_id rest)"

definition upsert_messages :: "int \<Rightarrow> string \<Rightarrow> string \<Rightarrow> (string \<times> jdict) list \<Rightarrow> message_table \<Rightarrow> (history_error, message_table) result" where
  "upsert_messages now chat_id user_id messages t = upsert_rows now chat_id user_id messages t"

definition delete_messages_by_chat_id :: "string \<Rightarrow> message_table \<Rightarrow> message_table" where
  "delete_messages_by_chat_id chat_id t = filter (\<lambda>r. cm_chat_id r \<noteq> chat_id) t"

definition delete_message_ids_by_chat_id :: "string \<Rightarrow> string list \<Rightarrow> message_table \<Rightarrow> message_table" where
  "delete_message_ids_by_chat_id chat_id message_ids t =
     filter (\<lambda>r. \<not> (cm_chat_id r = chat_id \<and> List.member (map (composite_id chat_id) message_ids) (cm_id r))) t"

definition has_unfinished_assistant_by_chat_id :: "string \<Rightarrow> message_table \<Rightarrow> bool" where
  "has_unfinished_assistant_by_chat_id chat_id t =
     list_ex (\<lambda>r. cm_chat_id r = chat_id \<and> cm_role r = PStr ''assistant'' \<and> cm_done r = PBool False) t"

subsection \<open>The map of the messages of a chat\<close>

definition row_message_id :: "string \<Rightarrow> message_row \<Rightarrow> string" where
  "row_message_id chat_id r = removeprefix (chat_id @ ''-'') (cm_id r)"

definition row_fields :: "message_row \<Rightarrow> jdict" where
  "row_fields r = filter (\<lambda>(k, v). v \<noteq> PNone)
     [(''role'', cm_role r), (''parentId'', cm_parent_id r), (''content'', cm_content r), (''output'', cm_output r), (''model'', cm_model_id r),
      (''files'', cm_files r), (''sources'', cm_sources r), (''embeds'', cm_embeds r), (''meta'', cm_meta r), (''done'', cm_done r),
      (''statusHistory'', cm_status_history r), (''error'', cm_error r), (''usage'', cm_usage r), (''contextSummary'', cm_context_summary r),
      (''timestamp'', cm_created_at r)]"

definition row_message :: "string \<Rightarrow> message_row \<Rightarrow> jdict" where
  "row_message chat_id r =
     (let m = (''id'', PStr (row_message_id chat_id r)) # row_fields r;
          m1 = (if has_key m ''content'' then m else AList.update ''content'' (PStr []) m)
      in if has_key m1 ''usage'' then AList.update ''info'' (PDict [(''usage'', pget m1 ''usage'')]) m1 else m1)"

text \<open>\<open>childrenIds\<close> from the parents; \<open>ms\<close> is what is left of the loop over the items.\<close>

fun add_children_ids :: "(string \<times> jdict) list \<Rightarrow> (string, jdict) dict \<Rightarrow> (string, jdict) dict" where
  "add_children_ids [] messages = messages"
| "add_children_ids ((i, m) # rest) messages =
     add_children_ids rest (case pget m ''parentId'' of
       PStr p \<Rightarrow> (case map_of messages p of
           None \<Rightarrow> messages
         | Some parent \<Rightarrow>
             if p = [] then messages
             else let children = children_of_msg parent
                  in if List.member children (PStr i) then messages
                     else AList.update p (AList.update ''childrenIds'' (PList (children @ [PStr i])) parent) messages)
     | _ \<Rightarrow> messages)"

definition with_leaf_list :: "jdict \<Rightarrow> jdict" where
  "with_leaf_list m = (if has_key m ''childrenIds'' then m else AList.update ''childrenIds'' (PList []) m)"

definition get_messages_map_by_chat_id :: "string \<Rightarrow> message_table \<Rightarrow> (string, jdict) dict option" where
  "get_messages_map_by_chat_id chat_id t =
     (let rows = filter (\<lambda>r. cm_chat_id r = chat_id) t
      in if rows = [] then None
         else let messages = fold (\<lambda>r. AList.update (row_message_id chat_id r) (row_message chat_id r)) rows []
              in Some (map (\<lambda>(i, m). (i, with_leaf_list m)) (add_children_ids messages messages)))"

subsection \<open>The map holds what the rows hold\<close>

text \<open>The rows of chat \<open>i\<close>: their ids start with the id of the chat, and no other row has such an id.\<close>

definition rows_keyed :: "string \<Rightarrow> message_table \<Rightarrow> bool" where
  "rows_keyed i t \<longleftrightarrow> distinct (map cm_id t) \<and> (\<forall>r \<in> set t. cm_chat_id r = i \<longleftrightarrow> startswith (i @ ''-'') (cm_id r))"

lemma composite_prefix [simp]: "startswith (i @ ''-'') (composite_id i mid)"
  by (simp add: startswith_def composite_id_def)

lemma row_message_id_composite: "cm_id r = composite_id i mid \<Longrightarrow> row_message_id i r = mid"
  by (simp add: row_message_id_def removeprefix_def) (simp add: composite_id_def)

lemma startswith_split: "startswith p s \<Longrightarrow> s = p @ drop (length p) s"
  by (auto simp: startswith_def prefix_def)

lemma fold_update_lookup:
  "distinct (map key rows) \<Longrightarrow> r \<in> set rows \<Longrightarrow> map_of (fold (\<lambda>r. AList.update (key r) (val r)) rows d) (key r) = Some (val r)"
proof (induction rows arbitrary: d)
  case (Cons q rows)
  have keep: "k \<notin> key ` set rows \<Longrightarrow> map_of (fold (\<lambda>r. AList.update (key r) (val r)) rows d) k = map_of d k" for k d
    by (induction rows arbitrary: d) auto
  show ?case
  proof (cases "r \<in> set rows")
    case True
    with Cons show ?thesis by simp
  next
    case False
    then have "r = q" "key r \<notin> key ` set rows" using Cons.prems by auto
    then show ?thesis using keep by simp
  qed
qed simp

definition same_but_children :: "jdict \<Rightarrow> jdict \<Rightarrow> bool" where
  "same_but_children m m' \<longleftrightarrow> (\<forall>f. f \<noteq> ''childrenIds'' \<longrightarrow> pget m' f = pget m f)"

lemma add_children_ids_keeps:
  "map_of messages k = Some m \<Longrightarrow> \<exists>m'. map_of (add_children_ids items messages) k = Some m' \<and> same_but_children m m'"
proof (induction items messages arbitrary: m rule: add_children_ids.induct)
  case (2 i d rest messages)
  let ?ms = "case pget d ''parentId'' of
       PStr p \<Rightarrow> (case map_of messages p of
           None \<Rightarrow> messages
         | Some parent \<Rightarrow>
             if p = [] then messages
             else let children = children_of_msg parent
                  in if List.member children (PStr i) then messages
                     else AList.update p (AList.update ''childrenIds'' (PList (children @ [PStr i])) parent) messages)
     | _ \<Rightarrow> messages"
  have "\<exists>m1. map_of ?ms k = Some m1 \<and> same_but_children m m1"
    using "2.prems" by (auto simp: same_but_children_def Let_def split: pyval.splits option.splits)
  then obtain m1 where m1: "map_of ?ms k = Some m1" "same_but_children m m1" by blast
  from "2.IH" [OF m1(1)] m1(2) show ?case by (auto simp: same_but_children_def)
qed (auto simp: same_but_children_def)

lemma messages_map_lookup:
  assumes t: "rows_keyed i t" and r: "r \<in> set t" "cm_id r = composite_id i mid"
  shows "\<exists>ms m. get_messages_map_by_chat_id i t = Some ms \<and> map_of ms mid = Some m \<and> same_but_children (row_message i r) m"
proof -
  let ?rows = "filter (\<lambda>r. cm_chat_id r = i) t"
  have rin: "r \<in> set ?rows" using t r by (auto simp: rows_keyed_def)
  have "inj_on (row_message_id i) (set ?rows)"
  proof (rule inj_onI)
    fix a b assume ab: "a \<in> set ?rows" "b \<in> set ?rows" "row_message_id i a = row_message_id i b"
    then have "startswith (i @ ''-'') (cm_id a)" "startswith (i @ ''-'') (cm_id b)" using t by (auto simp: rows_keyed_def)
    then have "cm_id a = cm_id b" using ab(3) by (metis row_message_id_def removeprefix_def startswith_split)
    then show "a = b" using ab t by (auto simp: rows_keyed_def distinct_map inj_on_def)
  qed
  then have "distinct (map (row_message_id i) ?rows)" using t by (simp add: rows_keyed_def distinct_map distinct_filter)
  from fold_update_lookup [OF this rin, of "row_message i" "[]"]
  have "map_of (fold (\<lambda>r. AList.update (row_message_id i r) (row_message i r)) ?rows []) mid = Some (row_message i r)"
    by (simp add: row_message_id_composite [OF r(2)])
  from add_children_ids_keeps [OF this, of "fold (\<lambda>r. AList.update (row_message_id i r) (row_message i r)) ?rows []"]
  obtain m' where m': "map_of (add_children_ids (fold (\<lambda>r. AList.update (row_message_id i r) (row_message i r)) ?rows [])
      (fold (\<lambda>r. AList.update (row_message_id i r) (row_message i r)) ?rows [])) mid = Some m'" "same_but_children (row_message i r) m'" by blast
  have leaf: "map_of (map (\<lambda>(k, m). (k, with_leaf_list m)) d) k = map_option with_leaf_list (map_of d k)" for d :: "(string, jdict) dict" and k
    by (induction d) auto
  have "?rows \<noteq> []" using length_pos_if_in_set [OF rin] by blast
  then have "get_messages_map_by_chat_id i t = Some (map (\<lambda>(k, m). (k, with_leaf_list m))
      (add_children_ids (fold (\<lambda>r. AList.update (row_message_id i r) (row_message i r)) ?rows [])
        (fold (\<lambda>r. AList.update (row_message_id i r) (row_message i r)) ?rows [])))"
    by (simp add: get_messages_map_by_chat_id_def Let_def)
  moreover have "same_but_children (row_message i r) (with_leaf_list m')"
    using m'(2) by (simp add: same_but_children_def with_leaf_list_def)
  ultimately show ?thesis using m'(1) leaf by simp
qed

lemma pget_filter_None: "dict_ok d \<Longrightarrow> pget (filter (\<lambda>(k, v). v \<noteq> PNone) d) f = pget d f"
proof (induction d)
  case (Cons p d)
  obtain k v where p: "p = (k, v)" by force
  have "dict_ok d" "k \<notin> fst ` set d" using Cons.prems p by (auto simp: dict_ok_def)
  moreover from this have "pget d k = PNone" by (simp add: pget_def map_of_eq_None_iff [THEN iffD2])
  ultimately show ?case using Cons.IH p by auto
qed simp

lemma has_key_filter_None: "dict_ok d \<Longrightarrow> has_key (filter (\<lambda>(k, v). v \<noteq> PNone) d) f \<longleftrightarrow> pget d f \<noteq> PNone"
proof (induction d)
  case (Cons p d)
  obtain k v where p: "p = (k, v)" by force
  have "dict_ok d" "k \<notin> fst ` set d" using Cons.prems p by (auto simp: dict_ok_def)
  moreover from this have "pget d k = PNone" by (simp add: pget_def map_of_eq_None_iff [THEN iffD2])
  ultimately show ?case using Cons.IH p by (auto simp: has_key_def)
qed (simp add: has_key_def)

text \<open>The columns of a row by the field of the message they come from.\<close>

definition plain_fields :: "string list" where
  "plain_fields = [''output'', ''files'', ''sources'', ''embeds'', ''meta'', ''done'', ''error'']"

definition row_field :: "message_row \<Rightarrow> string \<Rightarrow> pyval" where
  "row_field r f = pget [(''output'', cm_output r), (''files'', cm_files r), (''sources'', cm_sources r), (''embeds'', cm_embeds r),
     (''meta'', cm_meta r), (''done'', cm_done r), (''error'', cm_error r)] f"

lemma row_message_field:
  assumes "f \<in> set plain_fields"
  shows "pget (row_message i r) f = row_field r f"
proof -
  have fields: "pget (row_fields r) f = row_field r f"
    unfolding row_fields_def by (subst pget_filter_None) (use assms in \<open>auto simp: dict_ok_def plain_fields_def row_field_def\<close>)
  have "f \<noteq> ''id''" "f \<noteq> ''content''" "f \<noteq> ''info''" using assms by (auto simp: plain_fields_def)
  then show ?thesis using fields by (simp add: row_message_def Let_def)
qed

lemma row_fields_text:
  "pget (row_fields r) ''role'' = cm_role r" "pget (row_fields r) ''parentId'' = cm_parent_id r" "pget (row_fields r) ''model'' = cm_model_id r"
  "pget (row_fields r) ''content'' = cm_content r" "has_key (row_fields r) ''content'' \<longleftrightarrow> cm_content r \<noteq> PNone"
  unfolding row_fields_def by (subst pget_filter_None has_key_filter_None, simp add: dict_ok_def, simp)+

lemma row_message_text:
  "pget (row_message i r) ''role'' = cm_role r" "pget (row_message i r) ''parentId'' = cm_parent_id r" "pget (row_message i r) ''model'' = cm_model_id r"
  "pget (row_message i r) ''content'' = (if cm_content r = PNone then PStr [] else cm_content r)"
proof -
  have "has_key ((''id'', v) # row_fields r) ''content'' \<longleftrightarrow> cm_content r \<noteq> PNone" for v using row_fields_text(5) [of r] by (simp add: has_key_def)
  then show "pget (row_message i r) ''role'' = cm_role r" "pget (row_message i r) ''parentId'' = cm_parent_id r"
    "pget (row_message i r) ''model'' = cm_model_id r"
    "pget (row_message i r) ''content'' = (if cm_content r = PNone then PStr [] else cm_content r)"
    using row_fields_text(1-4) [of r] by (simp_all add: row_message_def Let_def)
qed

lemma apply_message_columns:
  assumes "apply_message_data q data now = Inr r"
  shows "cm_id r = cm_id q" "cm_chat_id r = cm_chat_id q"
    "cm_output r = carried data ''output'' (cm_output q)" "cm_files r = carried data ''files'' (cm_files q)"
    "cm_sources r = carried data ''sources'' (cm_sources q)" "cm_embeds r = carried data ''embeds'' (cm_embeds q)"
    "cm_meta r = carried data ''meta'' (cm_meta q)" "cm_done r = carried data ''done'' (cm_done q)" "cm_error r = carried data ''error'' (cm_error q)"
  using assms by (auto simp: apply_message_data_def rbind_Inr_iff)

lemma build_message_columns:
  assumes "build_message cid i user data now = Inr r"
  shows "cm_id r = cid" "cm_chat_id r = i" "cm_output r = pget data ''output''" "cm_files r = pget data ''files''"
    "cm_sources r = pget data ''sources''" "cm_embeds r = pget data ''embeds''" "cm_meta r = pget data ''meta''"
    "cm_done r = get_default data ''done'' (PBool True)" "cm_error r = pget data ''error''"
  using assms by (auto simp: build_message_def rbind_Inr_iff)

lemma get_default_has: "has_key d k \<Longrightarrow> get_default d k v = pget d k"
  by (auto simp: has_key_def get_default_def pget_def)

lemma carried_has: "has_key data k \<Longrightarrow> carried data k old = pget data k"
  by (simp add: carried_def)

lemma plain_field_cases:
  assumes "f \<in> set plain_fields"
  shows "f = ''output'' \<or> f = ''files'' \<or> f = ''sources'' \<or> f = ''embeds'' \<or> f = ''meta'' \<or> f = ''done'' \<or> f = ''error''"
  using assms by (simp add: plain_fields_def)

lemma written_fields:
  assumes "apply_message_data q data now = Inr r \<or> build_message cid i user data now = Inr r" "f \<in> set plain_fields" "has_key data f"
  shows "row_field r f = pget data f"
  using assms(1)
proof
  assume "apply_message_data q data now = Inr r"
  note c = apply_message_columns [OF this]
  from plain_field_cases [OF assms(2)] assms(3) show ?thesis by (elim disjE) (simp_all add: row_field_def c carried_has)
next
  assume "build_message cid i user data now = Inr r"
  note c = build_message_columns [OF this]
  from plain_field_cases [OF assms(2)] assms(3) show ?thesis by (elim disjE) (simp_all add: row_field_def c get_default_has)
qed

text \<open>The row holds the fields that \<open>data\<close> carries; where two names stand for one column, \<open>data\<close> has only the one of the client.\<close>

definition row_holds :: "jdict \<Rightarrow> message_row \<Rightarrow> bool" where
  "row_holds data r \<longleftrightarrow> (\<forall>f \<in> set plain_fields. has_key data f \<longrightarrow> row_field r f = pget data f) \<and>
     (has_key data ''role'' \<longrightarrow> cm_role r = pget data ''role'') \<and> (has_key data ''content'' \<longrightarrow> cm_content r = pget data ''content'') \<and>
     (has_key data ''parentId'' \<and> \<not> has_key data ''parent_id'' \<longrightarrow> cm_parent_id r = pget data ''parentId'') \<and>
     (has_key data ''model'' \<and> \<not> has_key data ''model_id'' \<longrightarrow> cm_model_id r = pget data ''model'')"

lemma either_key_second: "\<not> has_key data a \<Longrightarrow> either_key data a b = pget data b"
  by (auto simp: either_key_def py_or_def py_truthy_def has_key_def pget_def map_of_eq_None_iff [symmetric])

lemma written_row_holds:
  assumes "apply_message_data q data now = Inr r \<or> build_message cid i user data now = Inr r"
  shows "row_holds data r"
  unfolding row_holds_def using written_fields [OF assms] assms
  by (auto simp: apply_message_data_def build_message_def rbind_Inr_iff carried_def carried2_def either_key_second get_default_has)

lemma row_replaced:
  assumes t: "rows_keyed i t" and r: "cm_id r = composite_id i mid" "cm_chat_id r = i"
  shows "r \<in> set (put_message_row r t) \<and> rows_keyed i (put_message_row r t)"
proof (cases "get_message_row (cm_id r) t")
  case None
  then show ?thesis using t r by (auto simp: put_message_row_def rows_keyed_def get_message_row_def find_None_iff)
next
  case (Some q)
  have "map cm_id (put_message_row r t) = map cm_id t" using Some by (simp add: put_message_row_def)
  then have "distinct (map cm_id (put_message_row r t))" using t by (simp add: rows_keyed_def)
  moreover have "set (put_message_row r t) \<subseteq> insert r (set t)" using Some by (auto simp: put_message_row_def)
  moreover have "r \<in> set (put_message_row r t)"
  proof -
    have "q \<in> set t" "cm_id q = cm_id r" using Some by (auto simp: get_message_row_def find_Some_iff)
    then show ?thesis using Some by (force simp: put_message_row_def)
  qed
  ultimately show ?thesis using t r by (auto simp: rows_keyed_def)
qed

lemma written_row:
  assumes "upsert_row now i user mid data t = Inr t'" and t: "rows_keyed i t"
  shows "\<exists>r \<in> set t'. cm_id r = composite_id i mid \<and> row_holds data r \<and> rows_keyed i t'"
proof -
  let ?cid = "composite_id i mid"
  obtain r where r: "(case get_message_row ?cid t of Some q \<Rightarrow> apply_message_data q data now | None \<Rightarrow> build_message ?cid i user data now) = Inr r"
    and t': "t' = put_message_row r t"
    using assms(1) by (auto simp: upsert_row_def rbind_Inr_iff Let_def split: if_splits)
  have "cm_id r = ?cid \<and> cm_chat_id r = i \<and> row_holds data r"
  proof (cases "get_message_row ?cid t")
    case None
    then have "build_message ?cid i user data now = Inr r" using r by simp
    then show ?thesis using build_message_columns(1,2) written_row_holds by blast
  next
    case (Some q)
    then have q: "apply_message_data q data now = Inr r" using r by simp
    have "q \<in> set t" "cm_id q = ?cid" using Some by (auto simp: get_message_row_def find_Some_iff)
    then have "cm_chat_id q = i" using t by (simp add: rows_keyed_def)
    moreover have "row_holds data r" using q written_row_holds by blast
    ultimately show ?thesis using \<open>cm_id q = ?cid\<close> apply_message_columns(1,2) [OF q] by simp
  qed
  with row_replaced [OF t, of r mid] t' show ?thesis by blast
qed

text \<open>When the write of a row does not fail: the columns take the values of the message, the row that is replaced is one the
  columns take, and its usage can be added to.\<close>

definition storable :: "message_row option \<Rightarrow> jdict \<Rightarrow> bool" where
  "storable row m \<longleftrightarrow> is_str (get_default m ''role'' (PStr ''user'')) \<and> text_or_null (either_key m ''parent_id'' ''parentId'') \<and>
     text_or_null (either_key m ''model_id'' ''model'') \<and> text_or_null (either_key m ''context_summary'' ''contextSummary'') \<and>
     (has_key m ''done'' \<longrightarrow> pget m ''done'' = PNone \<or> is_bool (pget m ''done'')) \<and>
     (pget m ''timestamp'' = PNone \<or> as_int (pget m ''timestamp'') \<noteq> None) \<and>
     (case row of None \<Rightarrow> \<not> is_Inl (get_usage m) | Some r \<Rightarrow> row_bindable r \<and> \<not> is_Inl (rbind (get_usage m) (merged_usage (cm_usage r))))"

lemma not_is_Inl: "\<not> is_Inl x \<longleftrightarrow> (\<exists>y. x = Inr y)"
  by (cases x) simp_all

lemma upsert_row_succeeds:
  assumes "storable (get_message_row (composite_id i mid) t) m"
  shows "\<exists>t'. upsert_row now i user mid m t = Inr t'"
proof (cases "get_message_row (composite_id i mid) t")
  case None
  then obtain u where "get_usage m = Inr u" using assms by (auto simp: storable_def not_is_Inl)
  then show ?thesis using None assms
    by (auto simp: upsert_row_def build_message_def storable_def row_bindable_def get_default_def pget_def has_key_def as_int_def is_bool_def split: option.splits)
next
  case (Some r)
  then obtain u v where u: "get_usage m = Inr u" "merged_usage (cm_usage r) u = Inr v" and r: "row_bindable r"
    using assms by (auto simp: storable_def not_is_Inl rbind_Inr_iff)
  have "is_str (carried m ''role'' (cm_role r))" "carried m ''done'' (cm_done r) = PNone \<or> is_bool (carried m ''done'' (cm_done r))"
    using assms r by (auto simp: carried_def storable_def row_bindable_def get_default_has)
  moreover have "text_or_null (carried2 m ''parent_id'' ''parentId'' (cm_parent_id r))" "text_or_null (carried2 m ''model_id'' ''model'' (cm_model_id r))"
    "text_or_null (carried2 m ''context_summary'' ''contextSummary'' (cm_context_summary r))"
    using assms r by (simp_all add: carried2_def storable_def row_bindable_def)
  ultimately show ?thesis using Some u r by (simp add: upsert_row_def apply_message_data_def row_bindable_def)
qed

end
