(* ===== verification/Chat_Store.thy ===== *)
theory Chat_Store
  imports Chat_Messages
begin

section \<open>Writing chats (models/chats.py)\<close>

text \<open>
  The operations of \<open>ChatTable\<close> that change a chat and its messages. A chat is a row with its body, the JSON column \<open>chat\<close>;
  every message written to the body is written to the message table too, on a best effort basis: what goes wrong there is
  only logged. An exception inside a transaction leaves the tables as they were and makes the operation
  return \<open>None\<close>. A title that is null is stored, but \<open>ChatModel\<close> refuses it afterwards.
\<close>

record chat_item =
  ci_id :: string
  ci_user_id :: string
  ci_title :: "string option"
  ci_chat :: "jdict option"
  ci_current_message_id :: "string option"
  ci_updated_at :: int

record chat_db =
  cd_chats :: "chat_item list"
  cd_messages :: message_table

text \<open>A value for a text column: text or null, anything else makes the statement fail.\<close>

definition text_col :: "pyval \<Rightarrow> (history_error, string option) result" where
  "text_col v = (case v of PNone \<Rightarrow> Inr None | PStr s \<Rightarrow> Inr (Some s) | _ \<Rightarrow> Inl HistoryRaised)"

definition ChatModel_valid :: "chat_item \<Rightarrow> bool" where
  "ChatModel_valid c \<longleftrightarrow> ci_title c \<noteq> None \<and> ci_chat c \<noteq> None"

definition get_chat_item :: "string \<Rightarrow> chat_item list \<Rightarrow> chat_item option" where
  "get_chat_item i cs = find (\<lambda>c. ci_id c = i) cs"

definition put_chat_item :: "chat_item \<Rightarrow> chat_item list \<Rightarrow> chat_item list" where
  "put_chat_item c cs = map (\<lambda>d. if ci_id d = ci_id c then c else d) cs"

definition body_of :: "chat_item \<Rightarrow> jdict" where
  "body_of c = (case ci_chat c of None \<Rightarrow> [] | Some b \<Rightarrow> b)"

text \<open>\<open>_sanitize_chat_row\<close>.\<close>

definition sanitize_dict :: "jdict \<Rightarrow> jdict" where
  "sanitize_dict d = dict_or_empty (sanitize_data_for_db (PDict d))"

definition sanitize_chat_row :: "chat_item \<Rightarrow> chat_item" where
  "sanitize_chat_row c = c\<lparr>ci_title := map_option sanitize_text_for_db (ci_title c), ci_chat := map_option sanitize_dict (ci_chat c)\<rparr>"

definition sanitize_changes :: "chat_item \<Rightarrow> bool" where
  "sanitize_changes c \<longleftrightarrow> sanitize_chat_row c \<noteq> c"

subsection \<open>Reading\<close>

text \<open>\<open>get_chat_by_id\<close>: the row is repaired and cleaned, and the result committed, before it is returned. The current message is
  recomputed only when the repair changed the history.\<close>

definition read_chat_by_id :: "string \<Rightarrow> chat_db \<Rightarrow> chat_item option \<times> chat_db" where
  "read_chat_by_id i db = (case get_chat_item i (cd_chats db) of
      None \<Rightarrow> (None, db)
    | Some c \<Rightarrow> (case repair_chat_current_id (body_of c) of
        Inl e \<Rightarrow> (None, db)
      | Inr (repaired, body) \<Rightarrow> (case (if repaired then text_col (get_current_message_id body) else Inr (ci_current_message_id c)) of
          Inl e \<Rightarrow> (None, db)
        | Inr current \<Rightarrow>
            (let c1 = (if repaired then c\<lparr>ci_chat := Some body, ci_current_message_id := current\<rparr> else c);
                 c2 = sanitize_chat_row c1;
                 db' = (if sanitize_changes c1 \<or> repaired then db\<lparr>cd_chats := put_chat_item c2 (cd_chats db)\<rparr> else db)
             in (if ChatModel_valid c2 then Some c2 else None, db')))))"

text \<open>\<open>get_message_by_id_and_message_id\<close>. The chain of \<open>get\<close>s raises when a level is not a dictionary; the callers do not catch it.\<close>

definition get_message_by_id_and_message_id :: "string \<Rightarrow> string \<Rightarrow> chat_db \<Rightarrow> (history_error, pyval) result \<times> chat_db" where
  "get_message_by_id_and_message_id i message_id db =
     (case (case get_messages_map_by_chat_id i (cd_messages db) of None \<Rightarrow> None | Some ms \<Rightarrow> map_of ms message_id) of
        Some m \<Rightarrow> (Inr (PDict m), db)
      | None \<Rightarrow> (case read_chat_by_id i db of
          (None, db') \<Rightarrow> (Inr PNone, db')
        | (Some c, db') \<Rightarrow>
            (rbind (need_dict (get_default (body_of c) ''history'' (PDict []))) (\<lambda>h.
             rbind (need_dict (get_default h ''messages'' (PDict []))) (\<lambda>ms. Inr (get_default ms message_id (PDict [])))), db')))"

subsection \<open>Writing messages\<close>

text \<open>\<open>backfill_messages_by_chat_id\<close>: the messages that have a role; an error is logged.\<close>

definition writable_messages :: "jdict \<Rightarrow> (string \<times> jdict) list" where
  "writable_messages messages = map (\<lambda>(i, v). (i, dict_or_empty v)) (filter (\<lambda>(i, v). py_truthy (pget (dict_or_empty v) ''role'')) messages)"

definition backfill_messages_by_chat_id :: "int \<Rightarrow> string \<Rightarrow> string \<Rightarrow> jdict \<Rightarrow> message_table \<Rightarrow> message_table" where
  "backfill_messages_by_chat_id now chat_id user_id messages t =
     (case upsert_messages now chat_id user_id (writable_messages messages) t of Inl e \<Rightarrow> t | Inr t' \<Rightarrow> t')"

text \<open>The columns that follow the body: \<open>chat_item.title = chat.get('title', 'New Chat')\<close> and the current message.\<close>

definition store_body :: "jdict \<Rightarrow> chat_item \<Rightarrow> (history_error, chat_item) result" where
  "store_body body c =
     rbind (text_col (get_default body ''title'' (PStr ''New Chat''))) (\<lambda>title.
     rbind (text_col (get_current_message_id body)) (\<lambda>current.
     Inr (c\<lparr>ci_title := title, ci_chat := Some body, ci_current_message_id := current\<rparr>)))"

text \<open>\<open>get_output_text\<close> of utils/misc.py; \<open>py_str\<close> is \<open>str\<close>.\<close>

definition part_text :: "(pyval \<Rightarrow> string) \<Rightarrow> pyval \<Rightarrow> string" where
  "part_text py_str part = (let t = pget (dict_or_empty part) ''text'' in if t = PNone then [] else py_str t)"

definition item_text :: "(pyval \<Rightarrow> string) \<Rightarrow> pyval \<Rightarrow> string" where
  "item_text py_str it =
     (let d = dict_or_empty it
      in if py_eq_str (pget d ''type'') ''message'' then concat (map (part_text py_str) (list_or_empty (py_or (pget d ''content'') (PList [])))) else [])"

definition get_output_text :: "(pyval \<Rightarrow> string) \<Rightarrow> pyval \<Rightarrow> string" where
  "get_output_text py_str output = joined [CHR 0x0A] (filter (\<lambda>t. \<not> list_all is_space t) (map (item_text py_str) (list_or_empty output)))"

definition with_output_text :: "(pyval \<Rightarrow> string) \<Rightarrow> jdict \<Rightarrow> jdict" where
  "with_output_text py_str message =
     (if py_truthy (pget message ''content'') then message
      else let t = get_output_text py_str (pget message ''output'')
           in if t = [] then message else AList.update ''content'' (PStr t) message)"

text \<open>The body of a chat that is about to be changed: cleaned and repaired.\<close>

definition clean_body :: "chat_item \<Rightarrow> (history_error, jdict) result" where
  "clean_body c = rbind (repair_chat_current_id (body_of (sanitize_chat_row c))) (\<lambda>(b, body). Inr body)"

definition upsert_body :: "int \<Rightarrow> string \<Rightarrow> jdict \<Rightarrow> chat_item \<Rightarrow> (history_error, jdict \<times> chat_item) result" where
  "upsert_body now message_id message c =
     rbind (clean_body c) (\<lambda>body.
     rbind (need_dict (get_default body ''history'' (PDict []))) (\<lambda>history.
     rbind (upsert_message_to_history now history message_id message) (\<lambda>(saved, history').
     rbind (store_body (AList.update ''history'' (PDict history') body) c) (\<lambda>c'. Inr (saved, c')))))"

definition upsert_message_to_chat_by_id_and_message_id ::
  "(pyval \<Rightarrow> string) \<Rightarrow> int \<Rightarrow> string \<Rightarrow> string \<Rightarrow> jdict \<Rightarrow> bool \<Rightarrow> chat_db \<Rightarrow> chat_item option \<times> chat_db" where
  "upsert_message_to_chat_by_id_and_message_id py_str now i message_id0 message0 touch db =
     (let message = sanitize_dict (with_output_text py_str message0); message_id = sanitize_text_for_db message_id0
      in case get_chat_item i (cd_chats db) of
        None \<Rightarrow> (None, db)
      | Some c \<Rightarrow> (case upsert_body now message_id message c of
          Inl e \<Rightarrow> (None, db)
        | Inr (saved, c1) \<Rightarrow>
            (let c2 = (if touch then c1\<lparr>ci_updated_at := now\<rparr> else c1); db1 = db\<lparr>cd_chats := put_chat_item c2 (cd_chats db)\<rparr>
             in if \<not> ChatModel_valid c2 then (None, db1)
                else (Some c2, case upsert_message now message_id i (ci_user_id c2) saved (cd_messages db1) of
                    Inl e \<Rightarrow> db1
                  | Inr t \<Rightarrow> db1\<lparr>cd_messages := t\<rparr>))))"

text \<open>Deleting: \<open>history\<close> is stored back only when something was deleted.\<close>

definition delete_body :: "string \<Rightarrow> chat_item \<Rightarrow> (history_error, string list \<times> jdict \<times> chat_item) result" where
  "delete_body message_id c =
     rbind (clean_body c) (\<lambda>body.
     rbind (need_dict (get_default body ''history'' (PDict []))) (\<lambda>history.
     rbind (delete_message_from_history history message_id) (\<lambda>(deleted, history').
     rbind (store_body (if deleted = [] then body else AList.update ''history'' (PDict history') body) c) (\<lambda>c'.
     Inr (deleted, dict_or_empty (pget history' ''messages''), c')))))"

definition delete_message_from_chat_by_id_and_message_id :: "int \<Rightarrow> string \<Rightarrow> string \<Rightarrow> chat_db \<Rightarrow> chat_item option \<times> chat_db" where
  "delete_message_from_chat_by_id_and_message_id now i message_id db = (case get_chat_item i (cd_chats db) of
      None \<Rightarrow> (None, db)
    | Some c \<Rightarrow> (case delete_body message_id c of
        Inl e \<Rightarrow> (None, db)
      | Inr (deleted, messages, c1) \<Rightarrow>
          (let c2 = (if deleted = [] then c1 else c1\<lparr>ci_updated_at := now\<rparr>); db1 = db\<lparr>cd_chats := put_chat_item c2 (cd_chats db)\<rparr>
           in if \<not> ChatModel_valid c2 then (None, db1)
              else if deleted = [] then (Some c2, db1)
              else (Some c2, db1\<lparr>cd_messages := delete_message_ids_by_chat_id i deleted
                      (backfill_messages_by_chat_id now i (ci_user_id c2) messages (cd_messages db1))\<rparr>))))"

text \<open>\<open>message_id in history.get('messages', {})\<close>, and a change of one field of that message.\<close>

definition change_message ::
  "string \<Rightarrow> (jdict \<Rightarrow> (history_error, jdict) result) \<Rightarrow> jdict \<Rightarrow> (history_error, jdict) result" where
  "change_message message_id f history =
     (let v = get_default history ''messages'' (PDict []) in
      rbind (str_contains v message_id) (\<lambda>b. if \<not> b then Inr history else
      rbind (need_dict v) (\<lambda>messages.
      rbind (need_dict (pget messages message_id)) (\<lambda>m.
      rbind (f m) (\<lambda>m'. Inr (AList.update ''messages'' (PDict (AList.update message_id (PDict m') messages)) history))))))"

definition append_status :: "pyval \<Rightarrow> jdict \<Rightarrow> (history_error, jdict) result" where
  "append_status status m = (case as_list (get_default m ''statusHistory'' (PList [])) of
      None \<Rightarrow> Inl HistoryRaised
    | Some l \<Rightarrow> Inr (AList.update ''statusHistory'' (PList (l @ [status])) m))"

definition add_message_status_to_chat_by_id_and_message_id :: "string \<Rightarrow> string \<Rightarrow> pyval \<Rightarrow> chat_db \<Rightarrow> chat_item option \<times> chat_db" where
  "add_message_status_to_chat_by_id_and_message_id i message_id status db = (case get_chat_item i (cd_chats db) of
      None \<Rightarrow> (None, db)
    | Some c \<Rightarrow> (case
          rbind (clean_body c) (\<lambda>body.
          rbind (need_dict (get_default body ''history'' (PDict []))) (\<lambda>history.
          rbind (change_message message_id (append_status (sanitize_data_for_db status)) history) (\<lambda>history'.
          store_body (AList.update ''history'' (PDict history') body) c))) of
        Inl e \<Rightarrow> (None, db)
      | Inr c' \<Rightarrow> (if ChatModel_valid c' then Some c' else None, db\<lparr>cd_chats := put_chat_item c' (cd_chats db)\<rparr>)))"

definition append_files :: "pyval list \<Rightarrow> jdict \<Rightarrow> (history_error, jdict) result" where
  "append_files files m = rbind (py_add (get_default m ''files'' (PList [])) (PList files)) (\<lambda>v. Inr (AList.update ''files'' v m))"

text \<open>The files of a message: nothing is caught here. The result is the list of all files of the message.\<close>

definition add_message_files_by_id_and_message_id ::
  "int \<Rightarrow> string \<Rightarrow> string \<Rightarrow> pyval list \<Rightarrow> chat_db \<Rightarrow> (history_error, pyval) result \<times> chat_db" where
  "add_message_files_by_id_and_message_id now i message_id files db = (case get_chat_item i (cd_chats db) of
      None \<Rightarrow> (Inr PNone, db)
    | Some c \<Rightarrow> (case
          rbind (need_dict (get_default (body_of c) ''history'' (PDict []))) (\<lambda>history.
          rbind (change_message message_id (append_files files) history) (\<lambda>history'. Inr (history, history'))) of
        Inl e \<Rightarrow> (Inl e, db)
      | Inr (history, history') \<Rightarrow>
          (let ms = dict_or_empty (pget history' ''messages'');
               c' = c\<lparr>ci_chat := Some (sanitize_dict (AList.update ''history'' (PDict history') (body_of c))), ci_updated_at := now\<rparr>
           in (Inr (if has_key (dict_or_empty (pget history ''messages'')) message_id then pget (dict_or_empty (pget ms message_id)) ''files'' else PList []),
               db\<lparr>cd_chats := put_chat_item c' (cd_chats db)\<rparr>))))"

subsection \<open>Writing chats\<close>

definition update_body :: "jdict \<Rightarrow> chat_item \<Rightarrow> (history_error, chat_item) result" where
  "update_body chat c =
     (let stored = body_of c; updated = dict_update stored chat in
      rbind (case map_of chat ''history'' of
          None \<Rightarrow> Inr updated
        | Some h \<Rightarrow> rbind (merge_history (pget stored ''history'') h) (\<lambda>merged. Inr (AList.update ''history'' (PDict merged) updated))) (\<lambda>updated'.
      let body = sanitize_dict updated' in
      rbind (text_col (get_default body ''title'' (PStr ''New Chat''))) (\<lambda>title.
      rbind (if list_ex (has_key chat) [''history'', ''messages'', ''currentId'', ''branchPointMessageId'']
             then text_col (get_current_message_id body) else Inr (ci_current_message_id c)) (\<lambda>current.
      Inr (c\<lparr>ci_title := title, ci_chat := Some body, ci_current_message_id := current\<rparr>)))))"

definition update_chat_by_id :: "int \<Rightarrow> string \<Rightarrow> jdict \<Rightarrow> bool \<Rightarrow> chat_db \<Rightarrow> chat_item option \<times> chat_db" where
  "update_chat_by_id now i chat touch db = (case get_chat_item i (cd_chats db) of
      None \<Rightarrow> (None, db)
    | Some c \<Rightarrow> (case update_body chat c of
        Inl e \<Rightarrow> (None, db)
      | Inr c1 \<Rightarrow>
          (let c2 = (if touch then c1\<lparr>ci_updated_at := now\<rparr> else c1)
           in (if ChatModel_valid c2 then Some c2 else None, db\<lparr>cd_chats := put_chat_item c2 (cd_chats db)\<rparr>))))"

definition update_chat_title_by_id :: "string \<Rightarrow> string \<Rightarrow> chat_db \<Rightarrow> chat_item option \<times> chat_db" where
  "update_chat_title_by_id i title db = (case get_chat_item i (cd_chats db) of
      None \<Rightarrow> (None, db)
    | Some c \<Rightarrow>
        (let t = sanitize_text_for_db title;
             c' = c\<lparr>ci_title := Some t, ci_chat := Some (AList.update ''title'' (PStr t) (body_of c))\<rparr>
         in (Some c', db\<lparr>cd_chats := put_chat_item c' (cd_chats db)\<rparr>)))"

text \<open>The map for walking the history: from the rows, completed from the body where parents are missing, or from the body.
  What the completion finds is written back to the rows.\<close>

definition history_messages :: "chat_item \<Rightarrow> (history_error, jdict) result" where
  "history_messages c =
     rbind (need_dict (get_default (body_of c) ''history'' (PDict []))) (\<lambda>h.
     need_dict (py_or (get_default h ''messages'' (PDict [])) (PDict [])))"

definition known_missing :: "pyval list \<Rightarrow> jdict \<Rightarrow> jdict" where
  "known_missing unresolved history = List.map_filter
     (\<lambda>p. case as_str p of None \<Rightarrow> None | Some i \<Rightarrow> map_option (Pair i) (map_of history i)) unresolved"

definition messages_map_by_chat_id :: "int \<Rightarrow> string \<Rightarrow> chat_db \<Rightarrow> (history_error, jdict option) result \<times> chat_db" where
  "messages_map_by_chat_id now i db = (case get_messages_map_by_chat_id i (cd_messages db) of
      Some rows \<Rightarrow>
        (let ms = map (\<lambda>(k, m). (k, PDict m)) rows in
         case get_unresolved_parent_ids ms of
           Inl e \<Rightarrow> (Inl e, db)
         | Inr [] \<Rightarrow> (Inr (Some ms), db)
         | Inr unresolved \<Rightarrow> (case read_chat_by_id i db of
             (None, db1) \<Rightarrow> (Inr (Some ms), db1)
           | (Some c, db1) \<Rightarrow> (case history_messages c of
               Inl e \<Rightarrow> (Inl e, db1)
             | Inr hist \<Rightarrow>
                 (let missing = known_missing unresolved hist
                  in (Inr (Some (dict_update ms missing)),
                      if missing = [] then db1
                      else db1\<lparr>cd_messages := backfill_messages_by_chat_id now i (ci_user_id c) missing (cd_messages db1)\<rparr>)))))
    | None \<Rightarrow> (case read_chat_by_id i db of
        (None, db1) \<Rightarrow> (Inr None, db1)
      | (Some c, db1) \<Rightarrow> (case history_messages c of
          Inl e \<Rightarrow> (Inl e, db1)
        | Inr hist \<Rightarrow>
            (Inr (Some hist),
             if hist = [] then db1
             else db1\<lparr>cd_messages := backfill_messages_by_chat_id now i (ci_user_id c) hist (cd_messages db1)\<rparr>))))"

subsection \<open>What is written is read back\<close>

lemma dict_ok_sanitize: "dict_ok d \<Longrightarrow> dict_ok (sanitize_dict d)"
  by (simp add: sanitize_dict_def sanitize_data_for_db_def dict_or_empty_def dict_ok_dict_update)

lemma dict_ok_with_output: "dict_ok m \<Longrightarrow> dict_ok (with_output_text py_str m)"
  by (simp add: with_output_text_def Let_def)

lemma get_put_chat_item:
  "get_chat_item (ci_id c) cs \<noteq> None \<Longrightarrow> get_chat_item (ci_id c) (put_chat_item c cs) = Some c"
  by (induction cs) (auto simp: get_chat_item_def put_chat_item_def)

lemma get_chat_item_id: "get_chat_item i cs = Some c \<Longrightarrow> ci_id c = i"
  by (auto simp: get_chat_item_def find_Some_iff)

text \<open>The message that is saved keeps every field of the payload but those it completes, and is put into the body.\<close>

definition completed_fields :: "string list" where
  "completed_fields = [''id'', ''parentId'', ''childrenIds'', ''role'', ''timestamp'']"

lemma saved_field:
  assumes "upsert_message_to_history now history mid message = Inr (saved, h')" "dict_ok message" "has_key message f" "f \<notin> set completed_fields"
  shows "has_key saved f \<and> pget saved f = pget message f"
proof (cases "map_of (dict_or_empty (get_default history ''messages'' (PDict []))) mid")
  case (Some v)
  then obtain old where "saved = dict_update old message"
    using assms(1) by (auto simp: upsert_message_to_history_def rbind_Inr_iff need_dict_def dict_or_empty_def Let_def split: option.splits)
  then show ?thesis using assms(2,3) by (simp add: has_key_dict_update pget_dict_update)
next
  case None
  then obtain a b c d e where saved: "saved = dict_update message [(''id'', a), (''parentId'', b), (''childrenIds'', c), (''role'', d), (''timestamp'', e)]"
    using assms(1) by (auto simp: upsert_message_to_history_def rbind_Inr_iff need_dict_def dict_or_empty_def Let_def split: option.splits)
  have "\<not> has_key [(''id'', a), (''parentId'', b), (''childrenIds'', c), (''role'', d), (''timestamp'', e)] f"
    using assms(4) by (simp add: has_key_iff completed_fields_def)
  then show ?thesis using assms(3) unfolding saved by (simp add: has_key_dict_update pget_dict_update dict_ok_def)
qed

lemma plain_not_completed: "f \<in> set plain_fields \<Longrightarrow> f \<notin> set completed_fields"
  by (auto simp: plain_fields_def completed_fields_def)

lemma history_holds_saved:
  assumes "upsert_message_to_history now history mid message = Inr (saved, h')"
  shows "pget (dict_or_empty (pget h' ''messages'')) mid = PDict saved"
proof (cases "map_of (dict_or_empty (get_default history ''messages'' (PDict []))) mid")
  case (Some v)
  then show ?thesis using assms
    by (auto simp: upsert_message_to_history_def rbind_Inr_iff need_dict_def dict_or_empty_def Let_def split: option.splits)
next
  case None
  then show ?thesis using assms
    by (auto simp: upsert_message_to_history_def rbind_Inr_iff need_dict_def dict_or_empty_def Let_def split: option.splits)
qed

definition body_messages :: "chat_item \<Rightarrow> jdict" where
  "body_messages c = dict_or_empty (pget (dict_or_empty (pget (body_of c) ''history'')) ''messages'')"

lemma upsert_body_saved:
  assumes "upsert_body now mid message c = Inr (saved, c')"
  shows "\<exists>h h'. upsert_message_to_history now h mid message = Inr (saved, h')" "ci_id c' = ci_id c" "ci_user_id c' = ci_user_id c"
    "pget (body_messages c') mid = PDict saved"
proof -
  from assms obtain body h h' where h: "upsert_message_to_history now h mid message = Inr (saved, h')"
    and c': "store_body (AList.update ''history'' (PDict h') body) c = Inr c'"
    by (auto simp: upsert_body_def rbind_Inr_iff split: prod.splits)
  then show "\<exists>h h'. upsert_message_to_history now h mid message = Inr (saved, h')" by blast
  from c' have "body_of c' = AList.update ''history'' (PDict h') body \<and> ci_id c' = ci_id c \<and> ci_user_id c' = ci_user_id c"
    by (auto simp: store_body_def rbind_Inr_iff body_of_def)
  then show "ci_id c' = ci_id c" "ci_user_id c' = ci_user_id c" "pget (body_messages c') mid = PDict saved"
    using history_holds_saved [OF h] by (simp_all add: body_messages_def dict_or_empty_def)
qed

text \<open>An upsert that returns the chat: the message it has put into the body, and the write of the row.\<close>

lemma upsert_parts:
  assumes "upsert_message_to_chat_by_id_and_message_id py_str now i mid message touch db = (Some c, db')"
  obtains h h' saved where
    "upsert_message_to_history now h (sanitize_text_for_db mid) (sanitize_dict (with_output_text py_str message)) = Inr (saved, h')"
    "pget (body_messages c) (sanitize_text_for_db mid) = PDict saved"
    "cd_messages db' = (case upsert_row now i (ci_user_id c) (sanitize_text_for_db mid) saved (cd_messages db) of Inl e \<Rightarrow> cd_messages db | Inr t \<Rightarrow> t)"
proof -
  from assms obtain c0 saved c1 where body: "upsert_body now (sanitize_text_for_db mid) (sanitize_dict (with_output_text py_str message)) c0 = Inr (saved, c1)"
    and c: "c = (if touch then c1\<lparr>ci_updated_at := now\<rparr> else c1)"
    and db': "cd_messages db' = (case upsert_row now i (ci_user_id c1) (sanitize_text_for_db mid) saved (cd_messages db) of
      Inl e \<Rightarrow> cd_messages db | Inr t \<Rightarrow> t)"
    by (auto simp: upsert_message_to_chat_by_id_and_message_id_def upsert_message_def Let_def split: option.splits sum.splits if_splits prod.splits)
  have "body_messages c = body_messages c1" "ci_user_id c = ci_user_id c1" by (simp_all add: c body_messages_def body_of_def)
  then show thesis using upsert_body_saved [OF body] db' that by metis
qed

text \<open>What is written to a message is in its row afterwards, unless the rows are as they were.\<close>

lemma upsert_read_back:
  assumes up: "upsert_message_to_chat_by_id_and_message_id py_str now i mid message touch db = (Some c, db')"
    and rows: "rows_keyed i (cd_messages db)" and dict: "dict_ok message"
    and f: "f \<in> set plain_fields" "has_key (sanitize_dict (with_output_text py_str message)) f"
  shows "cd_messages db' = cd_messages db \<or>
    (\<exists>ms m. get_messages_map_by_chat_id i (cd_messages db') = Some ms \<and> map_of ms (sanitize_text_for_db mid) = Some m \<and>
      pget m f = pget (sanitize_dict (with_output_text py_str message)) f)"
proof -
  let ?m = "sanitize_dict (with_output_text py_str message)" and ?mid = "sanitize_text_for_db mid"
  obtain h h' saved where saved: "upsert_message_to_history now h ?mid ?m = Inr (saved, h')"
    and db': "cd_messages db' = (case upsert_row now i (ci_user_id c) ?mid saved (cd_messages db) of Inl e \<Rightarrow> cd_messages db | Inr t \<Rightarrow> t)"
    using upsert_parts [OF up] by blast
  have fld: "has_key saved f" "pget saved f = pget ?m f"
    using saved_field [OF saved _ f(2) plain_not_completed [OF f(1)]] dict by (simp_all add: dict_ok_sanitize dict_ok_with_output)
  show ?thesis
  proof (cases "upsert_row now i (ci_user_id c) ?mid saved (cd_messages db)")
    case (Inl e)
    then show ?thesis using db' by simp
  next
    case (Inr t)
    from written_row [OF this rows] obtain r where r0: "r \<in> set t" "cm_id r = composite_id i ?mid" "row_holds saved r" "rows_keyed i t" by blast
    have r: "r \<in> set t" "cm_id r = composite_id i ?mid" "row_field r f = pget ?m f" "rows_keyed i t"
      using r0 f(1) fld by (simp_all add: row_holds_def)
    from messages_map_lookup [OF r(4,1,2)] obtain ms m where m: "get_messages_map_by_chat_id i t = Some ms" "map_of ms ?mid = Some m"
      "same_but_children (row_message i r) m" by blast
    have "f \<noteq> ''childrenIds''" using plain_field_cases [OF f(1)] by auto
    then have "pget m f = pget ?m f" using m(3) r(3) row_message_field [OF f(1)] by (simp add: same_but_children_def)
    moreover have "cd_messages db' = t" using db' Inr by simp
    ultimately show ?thesis using m(1,2) by blast
  qed
qed

text \<open>What a message that is read agrees on with the message that was saved.\<close>

definition reads_back :: "jdict \<Rightarrow> jdict \<Rightarrow> bool" where
  "reads_back saved m \<longleftrightarrow> (\<forall>f \<in> set (''role'' # plain_fields). has_key saved f \<longrightarrow> pget m f = pget saved f) \<and>
     (has_key saved ''content'' \<longrightarrow> pget m ''content'' = (if pget saved ''content'' = PNone then PStr [] else pget saved ''content'')) \<and>
     (has_key saved ''parentId'' \<and> \<not> has_key saved ''parent_id'' \<longrightarrow> pget m ''parentId'' = pget saved ''parentId'') \<and>
     (has_key saved ''model'' \<and> \<not> has_key saved ''model_id'' \<longrightarrow> pget m ''model'' = pget saved ''model'')"

lemma row_reads_back:
  assumes "row_holds saved r" "same_but_children (row_message i r) m"
  shows "reads_back saved m"
proof -
  have plain: "pget m f = row_field r f" if "f \<in> set plain_fields" for f
  proof -
    have "f \<noteq> ''childrenIds''" using plain_field_cases [OF that] by auto
    then show ?thesis using assms(2) row_message_field [OF that] by (simp add: same_but_children_def)
  qed
  have "pget m ''role'' = cm_role r" "pget m ''parentId'' = cm_parent_id r" "pget m ''model'' = cm_model_id r"
    "pget m ''content'' = (if cm_content r = PNone then PStr [] else cm_content r)"
    using assms(2) row_message_text [of i r] by (simp_all add: same_but_children_def)
  then show ?thesis using assms(1) plain by (simp add: reads_back_def row_holds_def)
qed


subsection \<open>A null title hides a chat\<close>

lemma update_entries: "set (AList.update k v d) \<subseteq> insert (k, v) (set d)"
  by (induction d) auto

lemma has_null_update: "\<not> has_null (PDict d) \<Longrightarrow> \<not> has_null v \<Longrightarrow> CHR 0x00 \<notin> set k \<Longrightarrow> \<not> has_null (PDict (AList.update k v d))"
  using update_entries [of k v d] by (auto simp: list_ex_iff)

lemma update_body_null_title:
  assumes "\<not> has_null (PDict (body_of c))"
  shows "update_body [(''title'', PNone)] c = Inr (c\<lparr>ci_title := None, ci_chat := Some (AList.update ''title'' PNone (body_of c))\<rparr>)"
proof -
  have "\<not> has_null (PDict (AList.update ''title'' PNone (body_of c)))" by (rule has_null_update [OF assms]) auto
  then have "sanitize_dict (AList.update ''title'' PNone (body_of c)) = AList.update ''title'' PNone (body_of c)"
    by (simp add: sanitize_dict_def sanitize_data_for_db_def dict_or_empty_def del: has_null.simps)
  then show ?thesis by (simp add: update_body_def dict_update_def get_default_def text_col_def has_key_def Let_def)
qed

text \<open>A client that saves a chat with a null title loses it. The update is stored although it reports a failure, and
  from then on the chat, which is still in the table, cannot be read.\<close>

theorem null_title_hides_chat:
  assumes c: "get_chat_item i (cd_chats db) = Some c" and "\<not> has_null (PDict (body_of c))"
    and up: "update_chat_by_id now i [(''title'', PNone)] touch db = (r, db')"
  shows "r = None \<and> get_chat_item i (cd_chats db') \<noteq> None \<and> fst (read_chat_by_id i db') = None"
proof -
  let ?c = "c\<lparr>ci_title := None, ci_chat := Some (AList.update ''title'' PNone (body_of c))\<rparr>"
  let ?d = "if touch then ?c\<lparr>ci_updated_at := now\<rparr> else ?c"
  have r: "r = None" and db': "cd_chats db' = put_chat_item ?d (cd_chats db)"
    using up c by (auto simp: update_chat_by_id_def update_body_null_title [OF assms(2)] ChatModel_valid_def Let_def split: if_splits)
  have id: "ci_id ?d = i" using get_chat_item_id [OF c] by simp
  have "get_chat_item (ci_id ?d) (put_chat_item ?d (cd_chats db)) = Some ?d" by (rule get_put_chat_item) (simp only: id c option.simps not_False_eq_True)
  then have d: "get_chat_item i (cd_chats db') = Some ?d" unfolding db' id .
  have "ci_title ?d = None" by simp
  then have "fst (read_chat_by_id i db') = None"
    by (auto simp: read_chat_by_id_def d ChatModel_valid_def sanitize_chat_row_def Let_def split: sum.splits prod.splits)
  with r d show ?thesis by simp
qed

definition sample_chat :: chat_item where
  "sample_chat = \<lparr>ci_id = ''x'', ci_user_id = ''u'', ci_title = Some ''T'', ci_chat = Some [(''history'', PDict [(''messages'', PDict branch)])],
     ci_current_message_id = None, ci_updated_at = 0\<rparr>"

definition sample_chat_db :: chat_db where
  "sample_chat_db = \<lparr>cd_chats = [sample_chat], cd_messages = []\<rparr>"

lemma sample_chat_found: "get_chat_item ''x'' (cd_chats sample_chat_db) = Some sample_chat"
  by (simp add: get_chat_item_def sample_chat_db_def sample_chat_def)

theorem null_title_hides_chat_witness:
  "fst (read_chat_by_id ''x'' (snd (update_chat_by_id 1 ''x'' [(''title'', PNone)] False sample_chat_db))) = None"
proof -
  have "\<not> has_null (PDict (body_of sample_chat))" by code_simp
  from null_title_hides_chat [OF sample_chat_found this surjective_pairing] show ?thesis by blast
qed


end
