(* ===== verification/Ask_User.thy ===== *)
theory Ask_User
  imports Chat_History
begin

section \<open>Questions to the user (utils/ask\_user.py)\<close>

text \<open>
  A model may ask the user up to three questions through the tool \<open>ask_user\<close>. The request is normalised, and the call is staged in the
  output of the message: as a pending call that waits for an answer, or as a completed call with an error. \<open>JSONCodec\<close> (orjson or the
  standard library, as configured) is a record of its two functions, \<open>py_str\<close> is \<open>str\<close> on values that are not strings, and \<open>mk\<close> makes
  the fresh ids. A \<open>ValueError\<close> is its text.
\<close>

record json_codec =
  jc_dumps :: "pyval \<Rightarrow> string"
  jc_loads :: "pyval \<Rightarrow> (string, pyval) result"

definition ASK_USER_NAME :: string where
  "ASK_USER_NAME = ''ask_user''"

text \<open>\<open>str(value or '').strip()[:n]\<close>.\<close>

definition short_text :: "(pyval \<Rightarrow> string) \<Rightarrow> nat \<Rightarrow> pyval \<Rightarrow> string" where
  "short_text py_str n v = take n (py_strip (case py_or v (PStr []) of PStr s \<Rightarrow> s | w \<Rightarrow> py_str w))"

subsection \<open>The request\<close>

definition normalize_option :: "(pyval \<Rightarrow> string) \<Rightarrow> pyval \<Rightarrow> (string, pyval) result" where
  "normalize_option py_str opt = (case as_dict opt of
      None \<Rightarrow> Inl ''Each option must be an object.''
    | Some d \<Rightarrow>
        (let label = short_text py_str 80 (pget d ''label''); description = short_text py_str 240 (pget d ''description'')
         in if label = [] \<or> description = [] then Inl ''Each option requires a label and description.''
            else Inr (PDict [(''label'', PStr label), (''description'', PStr description)])))"

fun normalize_options :: "(pyval \<Rightarrow> string) \<Rightarrow> pyval list \<Rightarrow> (string, pyval list) result" where
  "normalize_options py_str [] = Inr []"
| "normalize_options py_str (opt # opts) =
     rbind (normalize_option py_str opt) (\<lambda>n. rbind (normalize_options py_str opts) (\<lambda>ns. Inr (n # ns)))"

definition get_bool :: "jdict \<Rightarrow> string \<Rightarrow> bool \<Rightarrow> bool" where
  "get_bool d k dflt = py_truthy (get_default d k (PBool dflt))"

text \<open>The body of the loop over the questions: the id of the question and its normal form.\<close>

definition normalize_question ::
  "(pyval \<Rightarrow> string) \<Rightarrow> bool \<Rightarrow> nat \<Rightarrow> string list \<Rightarrow> pyval \<Rightarrow> (string, string \<times> pyval) result" where
  "normalize_question py_str allow_other index seen question = (case as_dict question of
      None \<Rightarrow> Inl ''Each question must be an object.''
    | Some q \<Rightarrow>
        (let qid = short_text py_str 64 (pget q ''id'')
         in if qid = [] then Inl ''Each question requires a non-empty id.''
            else if List.member seen qid then Inl (''Duplicate question id: '' @ qid)
            else case as_list (pget q ''options'') of
              None \<Rightarrow> Inl ''Each question requires 2-3 options.''
            | Some opts \<Rightarrow>
                if \<not> (2 \<le> length opts \<and> length opts \<le> 3) then Inl ''Each question requires 2-3 options.''
                else rbind (normalize_options py_str opts) (\<lambda>nopts.
                  let text = short_text py_str 500 (pget q ''question''); header = short_text py_str 48 (pget q ''header'')
                  in if text = [] then Inl ''Each question requires question text.''
                     else Inr (qid, PDict [(''id'', PStr qid),
                       (''header'', PStr (if header = [] then ''Question '' @ int_str (int index + 1) else header)),
                       (''question'', PStr text), (''options'', PList nopts), (''allow_other'', PBool (get_bool q ''allow_other'' allow_other))]))))"

fun normalize_questions ::
  "(pyval \<Rightarrow> string) \<Rightarrow> bool \<Rightarrow> nat \<Rightarrow> string list \<Rightarrow> pyval list \<Rightarrow> (string, (string \<times> pyval) list) result" where
  "normalize_questions py_str allow_other index seen [] = Inr []"
| "normalize_questions py_str allow_other index seen (q # qs) =
     rbind (normalize_question py_str allow_other index seen q) (\<lambda>n.
     rbind (normalize_questions py_str allow_other (Suc index) (fst n # seen) qs) (\<lambda>ns. Inr (n # ns)))"

definition normal_timeout :: "pyval \<Rightarrow> int" where
  "normal_timeout v = (case as_int v of None \<Rightarrow> 120000 | Some t \<Rightarrow> if 60000 \<le> t \<and> t \<le> 240000 then t else 120000)"

definition normalize_ask_user_request :: "(pyval \<Rightarrow> string) \<Rightarrow> jdict \<Rightarrow> (string, jdict) result" where
  "normalize_ask_user_request py_str arguments = (case as_list (pget arguments ''questions'') of
      None \<Rightarrow> Inl ''ask_user requires 1-3 questions.''
    | Some questions \<Rightarrow>
        if \<not> (1 \<le> length questions \<and> length questions \<le> 3) then Inl ''ask_user requires 1-3 questions.''
        else let allow_other = get_bool arguments ''allow_other'' True in
          rbind (normalize_questions py_str allow_other 0 [] questions) (\<lambda>ns.
          Inr [(''questions'', PList (map snd ns)), (''allow_other'', PBool allow_other),
            (''timeout_ms'', PInt (normal_timeout (get_default arguments ''timeout_ms'' (PInt 120000))))]))"

subsection \<open>Staging a call\<close>

definition call_function :: "jdict \<Rightarrow> (history_error, jdict) result" where
  "call_function tool_call = need_dict (get_default tool_call ''function'' (PDict []))"

fun ask_user_calls :: "jdict list \<Rightarrow> (history_error, jdict list) result" where
  "ask_user_calls [] = Inr []"
| "ask_user_calls (c # cs) =
     rbind (call_function c) (\<lambda>f. rbind (ask_user_calls cs) (\<lambda>rest. Inr (if py_eq_str (pget f ''name'') ASK_USER_NAME then c # rest else rest)))"

definition get_ask_user_tool_call :: "jdict list \<Rightarrow> (history_error, (jdict \<times> string option) option) result" where
  "get_ask_user_tool_call tool_calls = rbind (ask_user_calls tool_calls) (\<lambda>calls.
     Inr (case calls of
         [] \<Rightarrow> None
       | c # rest \<Rightarrow>
           Some (c, if length tool_calls \<noteq> 1 then Some ''Error: ask_user must be called by itself after research.''
                    else if length calls \<noteq> 1 then Some ''Error: only one ask_user call is allowed per turn.'' else None)))"

definition call_arguments :: "(pyval \<Rightarrow> string) \<Rightarrow> json_codec \<Rightarrow> pyval \<Rightarrow> (string, pyval) result" where
  "call_arguments py_str codec raw =
     rbind (jc_loads codec (py_or raw (PStr ''{}''))) (\<lambda>parsed. case as_dict parsed of
         None \<Rightarrow> Inl ''ask_user arguments must be an object.''
       | Some d \<Rightarrow> rbind (normalize_ask_user_request py_str d) (\<lambda>r. Inr (PStr (jc_dumps codec (PDict r)))))"

text \<open>\<open>status in {\<dots>}\<close>: a status that cannot be hashed raises.\<close>

definition status_in :: "string list \<Rightarrow> pyval \<Rightarrow> (history_error, bool) result" where
  "status_in names v = (if \<not> hashable v then Inl HistoryRaised else Inr (list_ex (\<lambda>s. py_eq_str v s) names))"

definition same_call :: "pyval \<Rightarrow> pyval \<Rightarrow> jdict \<Rightarrow> (history_error, bool) result" where
  "same_call call_id tool_call_id existing =
     (if \<not> py_eq_str (pget existing ''type'') ''function_call'' then Inr False
      else if py_eq (pget existing ''call_id'') call_id \<or> py_eq (pget existing ''id'') tool_call_id then Inr True
      else if py_truthy (pget existing ''call_id'') \<or> \<not> py_eq_str (pget existing ''name'') ASK_USER_NAME then Inr False
      else rbind (status_in [''rejected'', ''failed''] (pget existing ''status'')) (\<lambda>b. Inr (\<not> b)))"

text \<open>\<open>existing_item.update(item)\<close> on the first item of the same call, \<open>output.append(item)\<close> if there is none.\<close>

fun place_item :: "pyval \<Rightarrow> pyval \<Rightarrow> jdict \<Rightarrow> pyval list \<Rightarrow> (history_error, pyval list) result" where
  "place_item call_id tool_call_id it [] = Inr [PDict it]"
| "place_item call_id tool_call_id it (v # vs) =
     rbind (need_dict v) (\<lambda>d. rbind (same_call call_id tool_call_id d) (\<lambda>b.
       if b then Inr (PDict (dict_update d it) # vs) else rbind (place_item call_id tool_call_id it vs) (\<lambda>rest. Inr (v # rest))))"

definition error_output :: "string \<Rightarrow> pyval \<Rightarrow> string \<Rightarrow> jdict" where
  "error_output oid call_id text =
     [(''type'', PStr ''function_call_output''), (''id'', PStr oid), (''call_id'', call_id),
      (''output'', PList [PDict [(''type'', PStr ''input_text''), (''text'', PStr text)]]), (''status'', PStr ''completed'')]"

definition staged_arguments :: "(pyval \<Rightarrow> string) \<Rightarrow> json_codec \<Rightarrow> string option \<Rightarrow> pyval \<Rightarrow> string option \<times> pyval" where
  "staged_arguments py_str codec err raw = (case err of
      Some e \<Rightarrow> (Some e, raw)
    | None \<Rightarrow> (case call_arguments py_str codec raw of Inl e \<Rightarrow> (Some (''Error: '' @ e), raw) | Inr a \<Rightarrow> (None, a)))"

definition call_item :: "(nat \<Rightarrow> string \<Rightarrow> string) \<Rightarrow> pyval \<Rightarrow> string option \<Rightarrow> pyval \<Rightarrow> jdict" where
  "call_item mk call_id err arguments =
     [(''type'', PStr ''function_call''), (''id'', py_or call_id (PStr (mk 1 ''fc''))), (''call_id'', call_id),
      (''name'', PStr ASK_USER_NAME), (''arguments'', arguments), (''status'', PStr (if err \<noteq> None then ''completed'' else ''pending''))]"

text \<open>The result: \<open>None\<close> when no call is one of \<open>ask_user\<close>, otherwise the id, the error and the item, with the new output.\<close>

definition stage_ask_user_tool_call ::
  "(pyval \<Rightarrow> string) \<Rightarrow> json_codec \<Rightarrow> (nat \<Rightarrow> string \<Rightarrow> string) \<Rightarrow> jdict list \<Rightarrow> pyval list
    \<Rightarrow> (history_error, (pyval \<times> string option \<times> jdict) option \<times> pyval list) result" where
  "stage_ask_user_tool_call py_str codec mk tool_calls output =
     rbind (get_ask_user_tool_call tool_calls) (\<lambda>found. case found of
       None \<Rightarrow> Inr (None, output)
     | Some (tool_call, err0) \<Rightarrow>
         rbind (call_function tool_call) (\<lambda>f.
         let call_id = py_or (pget tool_call ''id'') (PStr (mk 0 ''fc''));
             staged = staged_arguments py_str codec err0 (get_default f ''arguments'' (PStr ''{}''));
             it = call_item mk call_id (fst staged) (snd staged)
         in rbind (place_item call_id (pget tool_call ''id'') it output) (\<lambda>out.
         Inr (Some (call_id, fst staged, it),
           out @ (case fst staged of None \<Rightarrow> [] | Some e \<Rightarrow> [PDict (error_output (mk 2 ''fco'') call_id e)])))))"

subsection \<open>What the user is asked\<close>

text \<open>The shape the client may rely on.\<close>

definition text_field :: "jdict \<Rightarrow> string \<Rightarrow> nat \<Rightarrow> bool" where
  "text_field d k n \<longleftrightarrow> (\<exists>s. pget d k = PStr s \<and> s \<noteq> [] \<and> length s \<le> n)"

definition option_shaped :: "pyval \<Rightarrow> bool" where
  "option_shaped v \<longleftrightarrow> (\<exists>d. v = PDict d \<and> text_field d ''label'' 80 \<and> text_field d ''description'' 240)"

definition question_shaped :: "pyval \<Rightarrow> bool" where
  "question_shaped v \<longleftrightarrow> (\<exists>d opts. v = PDict d \<and> text_field d ''id'' 64 \<and> text_field d ''header'' 48 \<and> text_field d ''question'' 500
     \<and> pget d ''options'' = PList opts \<and> 2 \<le> length opts \<and> length opts \<le> 3 \<and> list_all option_shaped opts)"

lemma length_short_text: "length (short_text py_str n v) \<le> n"
  by (simp add: short_text_def)

lemma text_fieldI: "pget d k = PStr s \<Longrightarrow> s \<noteq> [] \<Longrightarrow> length s \<le> n \<Longrightarrow> text_field d k n"
  by (simp add: text_field_def)

lemma normalize_option_shaped: "normalize_option py_str opt = Inr v \<Longrightarrow> option_shaped v"
  by (auto simp: normalize_option_def option_shaped_def text_field_def length_short_text Let_def split: option.splits if_splits)

lemma normalize_options_shaped:
  "normalize_options py_str opts = Inr vs \<Longrightarrow> length vs = length opts \<and> list_all option_shaped vs"
  by (induction opts arbitrary: vs) (auto simp: rbind_Inr_iff dest: normalize_option_shaped)

lemma short_index: "i < 3 \<Longrightarrow> length (''Question '' @ int_str (int i + 1)) = 10"
  by (simp add: int_str_def nat_digits.simps [of "nat (int i + 1)"])

lemma normalize_question_shaped:
  assumes "normalize_question py_str allow index seen q = Inr n" "index < 3"
  shows "question_shaped (snd n) \<and> fst n \<notin> set seen \<and> pget (dict_or_empty (snd n)) ''id'' = PStr (fst n)"
proof -
  from assms(1) obtain d opts nopts where q: "as_list (pget d ''options'') = Some opts" "2 \<le> length opts" "length opts \<le> 3"
    and nopts: "normalize_options py_str opts = Inr nopts"
    and ne: "short_text py_str 64 (pget d ''id'') \<noteq> []" "short_text py_str 500 (pget d ''question'') \<noteq> []"
    and seen: "short_text py_str 64 (pget d ''id'') \<notin> set seen"
    and n: "n = (short_text py_str 64 (pget d ''id''), PDict [(''id'', PStr (short_text py_str 64 (pget d ''id''))),
       (''header'', PStr (if short_text py_str 48 (pget d ''header'') = [] then ''Question '' @ int_str (int index + 1) else short_text py_str 48 (pget d ''header''))),
       (''question'', PStr (short_text py_str 500 (pget d ''question''))), (''options'', PList nopts),
       (''allow_other'', PBool (get_bool d ''allow_other'' allow))])"
    by (auto simp: normalize_question_def rbind_Inr_iff Let_def simp del: as_Some_iff split: option.splits if_splits)
  have "text_field (dict_or_empty (snd n)) ''header'' 48"
    using short_index [OF assms(2)] by (auto simp: n dict_or_empty_def text_field_def length_short_text)
  then show ?thesis
    using q ne seen normalize_options_shaped [OF nopts]
    by (auto simp: n question_shaped_def dict_or_empty_def text_field_def length_short_text)
qed

lemma normalize_questions_shaped:
  assumes "normalize_questions py_str allow index seen qs = Inr ns" "index + length qs \<le> 3"
  shows "length ns = length qs \<and> list_all question_shaped (map snd ns) \<and> distinct (map fst ns) \<and> set (map fst ns) \<inter> set seen = {}
    \<and> list_all (\<lambda>n. pget (dict_or_empty (snd n)) ''id'' = PStr (fst n)) ns"
  using assms
proof (induction qs arbitrary: index seen ns)
  case (Cons q qs)
  then obtain n ns' where n: "normalize_question py_str allow index seen q = Inr n"
    and ns': "normalize_questions py_str allow (Suc index) (fst n # seen) qs = Inr ns'" and ns: "ns = n # ns'"
    by (auto simp: rbind_Inr_iff)
  have "index < 3" using Cons.prems(2) by simp
  from normalize_question_shaped [OF n this] Cons.IH [OF ns'] Cons.prems(2) ns show ?case by auto
qed simp

text \<open>C37: A request that is accepted asks one to three questions with different ids, each with two or three options; every text is there and
  within its limit, and the time to answer is between one and four minutes.\<close>

theorem ask_user_request_bounds:
  assumes "normalize_ask_user_request py_str arguments = Inr r"
  shows "\<exists>qs ids t. pget r ''questions'' = PList qs \<and> 1 \<le> length qs \<and> length qs \<le> 3 \<and> list_all question_shaped qs \<and>
    map (\<lambda>q. pget (dict_or_empty q) ''id'') qs = map PStr ids \<and> distinct ids \<and>
    pget r ''timeout_ms'' = PInt t \<and> 60000 \<le> t \<and> t \<le> 240000"
proof -
  from assms obtain questions ns where q: "1 \<le> length questions" "length questions \<le> 3"
    and ns: "normalize_questions py_str (get_bool arguments ''allow_other'' True) 0 [] questions = Inr ns"
    and r: "pget r ''questions'' = PList (map snd ns)" "pget r ''timeout_ms'' = PInt (normal_timeout (get_default arguments ''timeout_ms'' (PInt 120000)))"
    by (auto simp: normalize_ask_user_request_def rbind_Inr_iff Let_def split: option.splits if_splits)
  have "60000 \<le> normal_timeout v \<and> normal_timeout v \<le> 240000" for v by (auto simp: normal_timeout_def split: option.splits)
  moreover have "map (\<lambda>q. pget (dict_or_empty q) ''id'') (map snd ns) = map PStr (map fst ns)"
    using normalize_questions_shaped [OF ns] q by (auto simp: list_all_iff)
  ultimately show ?thesis using normalize_questions_shaped [OF ns] q r
    by (intro exI [of _ "map snd ns"] exI [of _ "map fst ns"] exI) auto
qed

definition sample_option :: "string \<Rightarrow> pyval" where
  "sample_option l = PDict [(''label'', PStr l), (''description'', PStr ''d'')]"

definition sample_request :: jdict where
  "sample_request = [(''questions'', PList [PDict [(''id'', PStr '' q ''), (''question'', PStr ''Which?''),
     (''options'', PList [sample_option ''a'', sample_option ''b''])]]), (''timeout_ms'', PInt 5)]"

theorem ask_user_request_bounds_witness:
  "\<exists>r qs. normalize_ask_user_request (\<lambda>v. []) sample_request = Inr r \<and> pget r ''questions'' = PList qs \<and> length qs \<le> 3"
proof -
  have "\<not> is_Inl (normalize_ask_user_request (\<lambda>v. []) sample_request)" by code_simp
  then obtain r where r: "normalize_ask_user_request (\<lambda>v. []) sample_request = Inr r"
    by (cases "normalize_ask_user_request (\<lambda>v. []) sample_request") auto
  from ask_user_request_bounds [OF r] r show ?thesis by blast
qed

lemma place_item_found:
  assumes "place_item call_id tid it out = Inr out'" "dict_ok it"
  shows "\<exists>d. PDict d \<in> set out' \<and> (\<forall>k. has_key it k \<longrightarrow> pget d k = pget it k)"
  using assms(1)
proof (induction out arbitrary: out')
  case Nil
  then show ?case by auto
next
  case (Cons v vs)
  then obtain d b where d: "need_dict v = Inr d" "same_call call_id tid d = Inr b"
    and rest: "(if b then Inr (PDict (dict_update d it) # vs) else rbind (place_item call_id tid it vs) (\<lambda>rest. Inr (v # rest))) = Inr out'"
    by (auto simp: rbind_Inr_iff)
  show ?case
  proof (cases b)
    case True
    then have "PDict (dict_update d it) \<in> set out'" using rest by auto
    then show ?thesis using pget_dict_update [OF assms(2)] by (intro exI [of _ "dict_update d it"]) simp
  next
    case False
    then obtain r where r: "place_item call_id tid it vs = Inr r" and out': "out' = v # r" using rest by (auto simp: rbind_Inr_iff)
    from Cons.IH [OF r] out' show ?thesis by auto
  qed
qed

text \<open>C38: A staged question either waits for its answer or has failed for good: without an error the output has a pending call of this id
  whose arguments are the text of a normalised request, and with an error the call is completed and its error is the last
  item of the output.\<close>

theorem staged_call_waits_or_fails:
  assumes "stage_ask_user_tool_call py_str codec mk tool_calls output = Inr (Some (call_id, err, it), out)"
  shows "\<exists>d. PDict d \<in> set out \<and> pget d ''type'' = PStr ''function_call'' \<and> pget d ''call_id'' = call_id \<and>
    pget d ''name'' = PStr ''ask_user'' \<and>
    (case err of
       None \<Rightarrow> pget d ''status'' = PStr ''pending'' \<and>
         (\<exists>a r. normalize_ask_user_request py_str a = Inr r \<and> pget d ''arguments'' = PStr (jc_dumps codec (PDict r)))
     | Some e \<Rightarrow> pget d ''status'' = PStr ''completed'' \<and> (\<exists>oid. List.last out = PDict (error_output oid call_id e)))"
proof -
  from assms obtain found where "(case found of None \<Rightarrow> Inr (None, output)
     | Some (tool_call, err0) \<Rightarrow>
         rbind (call_function tool_call) (\<lambda>f.
         let call_id = py_or (pget tool_call ''id'') (PStr (mk 0 ''fc''));
             staged = staged_arguments py_str codec err0 (get_default f ''arguments'' (PStr ''{}''));
             it = call_item mk call_id (fst staged) (snd staged)
         in rbind (place_item call_id (pget tool_call ''id'') it output) (\<lambda>out.
         Inr (Some (call_id, fst staged, it),
           out @ (case fst staged of None \<Rightarrow> [] | Some e \<Rightarrow> [PDict (error_output (mk 2 ''fco'') call_id e)])))))
      = Inr (Some (call_id, err, it), out)"
    unfolding stage_ask_user_tool_call_def rbind_Inr_iff by blast
  then obtain tool_call err0 raw out1 arguments where
    args: "staged_arguments py_str codec err0 raw = (err, arguments)" and it: "it = call_item mk call_id err arguments"
    and out1: "place_item call_id (pget tool_call ''id'') it output = Inr out1"
    and out: "out = out1 @ (case err of None \<Rightarrow> [] | Some e \<Rightarrow> [PDict (error_output (mk 2 ''fco'') call_id e)])"
    by (cases found) (auto simp: rbind_Inr_iff Let_def prod_eq_iff)
  have "dict_ok it" by (simp add: it call_item_def dict_ok_def)
  from place_item_found [OF out1 this] obtain d where d: "PDict d \<in> set out1" "\<And>k. has_key it k \<Longrightarrow> pget d k = pget it k" by blast
  have fields: "pget d ''type'' = PStr ''function_call''" "pget d ''call_id'' = call_id" "pget d ''name'' = PStr ''ask_user''" "pget d ''arguments'' = arguments"
    "pget d ''status'' = PStr (if err \<noteq> None then ''completed'' else ''pending'')"
    using d(2) by (simp_all add: it call_item_def has_key_def ASK_USER_NAME_def)
  have "err = None \<Longrightarrow> \<exists>a r. normalize_ask_user_request py_str a = Inr r \<and> arguments = PStr (jc_dumps codec (PDict r))"
    using args by (auto simp: staged_arguments_def call_arguments_def rbind_Inr_iff split: option.splits sum.splits) blast
  then show ?thesis using d(1) fields out by (cases err) auto
qed

definition sample_codec :: json_codec where
  "sample_codec = \<lparr>jc_dumps = (\<lambda>v. ''{}''), jc_loads = (\<lambda>v. Inr (PDict sample_request))\<rparr>"

definition sample_call :: jdict where
  "sample_call = [(''id'', PStr ''c1''), (''function'', PDict [(''name'', PStr ''ask_user''), (''arguments'', PStr ''x'')])]"

theorem staged_call_waits_or_fails_witness:
  "\<exists>it out d. stage_ask_user_tool_call (\<lambda>v. []) sample_codec (\<lambda>n s. s) [sample_call] [] = Inr (Some (PStr ''c1'', None, it), out) \<and>
     PDict d \<in> set out \<and> pget d ''status'' = PStr ''pending''"
proof -
  have "map_sum id (map_option (\<lambda>(c, e, i). (c, e)) \<circ> fst) (stage_ask_user_tool_call (\<lambda>v. []) sample_codec (\<lambda>n s. s) [sample_call] [])
      = Inr (Some (PStr ''c1'', None))" by code_simp
  then obtain it out where st: "stage_ask_user_tool_call (\<lambda>v. []) sample_codec (\<lambda>n s. s) [sample_call] [] = Inr (Some (PStr ''c1'', None, it), out)"
    by (cases "stage_ask_user_tool_call (\<lambda>v. []) sample_codec (\<lambda>n s. s) [sample_call] []") auto
  from staged_call_waits_or_fails [OF st] st show ?thesis by auto
qed

end
