(* ===== verification/Tool_Approval.thy ===== *)
theory Tool_Approval
  imports Chat_Store Ask_User
begin

section \<open>Resolving tool calls (utils/tool\_approval.py)\<close>

text \<open>
  A tool call that needs the consent of the user, or an answer, waits in the output of its message. \<open>resolve_tool_call_output\<close> is the request that approves,
  rejects or answers it; \<open>build_tool_approval_resume_payload\<close> builds the request with which the completion goes on. An HTTP error is a value;
  \<open>ServerFailed\<close> is an exception that nothing catches. The event sent to the client is not part of the state.
\<close>

datatype approval_action = Approve | Reject | Answer

record resolve_form =
  rf_call_id :: string
  rf_action :: approval_action
  rf_answers :: pyval
  rf_timed_out :: bool

datatype approval_error = Unauthorized | CallNotFound | BadCall | CallConflict | ServerFailed

definition PENDING_STATUSES :: "string list" where
  "PENDING_STATUSES = [''pending'', ''queued'', ''requires_approval'']"

definition lift_raised :: "(history_error, 'a) result \<Rightarrow> (approval_error, 'a) result" where
  "lift_raised r = (case r of Inl e \<Rightarrow> Inl ServerFailed | Inr a \<Rightarrow> Inr a)"

definition is_type :: "jdict \<Rightarrow> string \<Rightarrow> bool" where
  "is_type d ty \<longleftrightarrow> py_eq_str (pget d ''type'') ty"

definition is_call :: "string \<Rightarrow> jdict \<Rightarrow> bool" where
  "is_call call_id d \<longleftrightarrow> is_type d ''function_call'' \<and> py_eq_str (py_or (pget d ''call_id'') (pget d ''id'')) call_id"

text \<open>\<open>next((item for item in output if \<dots>), None)\<close>: the position of the call.\<close>

fun find_call :: "string \<Rightarrow> pyval list \<Rightarrow> (history_error, (nat \<times> jdict) option) result" where
  "find_call call_id [] = Inr None"
| "find_call call_id (v # vs) =
     rbind (need_dict v) (\<lambda>d. if is_call call_id d then Inr (Some (0, d))
       else rbind (find_call call_id vs) (\<lambda>r. Inr (map_option (\<lambda>(n, d'). (Suc n, d')) r)))"

text \<open>\<open>any(item.get('type') == 'function_call_output' and item.get('call_id') == call_id for item in output)\<close>.\<close>

fun has_output_for :: "string \<Rightarrow> pyval list \<Rightarrow> (history_error, bool) result" where
  "has_output_for call_id [] = Inr False"
| "has_output_for call_id (v # vs) =
     rbind (need_dict v) (\<lambda>d. if is_type d ''function_call_output'' \<and> py_eq_str (pget d ''call_id'') call_id then Inr True
       else has_output_for call_id vs)"

definition output_item :: "string \<Rightarrow> string \<Rightarrow> string \<Rightarrow> pyval" where
  "output_item call_id text status =
     PDict [(''type'', PStr ''function_call_output''), (''id'', PStr (''fco_'' @ call_id)), (''call_id'', PStr call_id),
       (''output'', PList [PDict [(''type'', PStr ''input_text''), (''text'', PStr text)]]), (''status'', PStr status)]"

definition answer_payload :: "resolve_form \<Rightarrow> pyval" where
  "answer_payload form =
     (if rf_timed_out form then PDict [(''status'', PStr ''cancelled''), (''answers'', PDict []), (''timed_out'', PBool True)]
      else PDict [(''status'', PStr ''answered''), (''answers'', py_or (rf_answers form) (PDict []))])"

text \<open>The branch of the action: the changed call, and what is appended to the output.\<close>

definition resolve_action :: "json_codec \<Rightarrow> resolve_form \<Rightarrow> jdict \<Rightarrow> (approval_error, jdict \<times> pyval list) result" where
  "resolve_action codec form fc = (let ask = py_eq_str (pget fc ''name'') ''ask_user''; cid = rf_call_id form in
     case rf_action form of
       Approve \<Rightarrow> if ask then Inl BadCall else Inr (dict_update fc [(''status'', PStr ''queued''), (''approved'', PBool True)], [])
     | Reject \<Rightarrow> Inr (AList.update ''status'' (PStr ''rejected'') fc, [output_item cid ''Error: tool call rejected by user.'' ''rejected''])
     | Answer \<Rightarrow>
         if \<not> ask then Inl BadCall
         else if rf_answers form = PNone \<and> \<not> rf_timed_out form then Inl BadCall
         else Inr (AList.update ''status'' (PStr ''completed'') fc, [output_item cid (jc_dumps codec (answer_payload form)) ''completed'']))"

definition resolve_output :: "json_codec \<Rightarrow> resolve_form \<Rightarrow> pyval list \<Rightarrow> (approval_error, pyval list) result" where
  "resolve_output codec form output =
     rbind (lift_raised (find_call (rf_call_id form) output)) (\<lambda>found. case found of
       None \<Rightarrow> Inl CallNotFound
     | Some (n, fc0) \<Rightarrow>
         (let fc = (if has_key fc0 ''call_id'' then fc0 else AList.update ''call_id'' (PStr (rf_call_id form)) fc0);
              out1 = output[n := PDict fc] in
          rbind (lift_raised (has_output_for (rf_call_id form) out1)) (\<lambda>b.
          if b then Inl CallConflict
          else rbind (lift_raised (status_in PENDING_STATUSES (pget fc ''status''))) (\<lambda>waiting.
            if \<not> waiting then Inl CallConflict
            else rbind (resolve_action codec form fc) (\<lambda>(fc', extra). Inr (out1[n := PDict fc'] @ extra))))))"

text \<open>Whether another call of the message still waits.\<close>

fun result_call_ids :: "pyval list \<Rightarrow> (history_error, pyval list) result" where
  "result_call_ids [] = Inr []"
| "result_call_ids (v # vs) =
     rbind (need_dict v) (\<lambda>d.
       let cid = pget d ''call_id'' in
       rbind (if is_type d ''function_call_output'' \<and> py_truthy cid then (if hashable cid then Inr [cid] else Inl HistoryRaised) else Inr []) (\<lambda>here.
       rbind (result_call_ids vs) (\<lambda>rest. Inr (here @ rest))))"

fun still_waiting :: "pyval list \<Rightarrow> pyval list \<Rightarrow> (history_error, bool) result" where
  "still_waiting ids [] = Inr False"
| "still_waiting ids (v # vs) =
     rbind (need_dict v) (\<lambda>d.
       let cid = pget d ''call_id'' in
       if \<not> is_type d ''function_call'' \<or> \<not> py_truthy cid then still_waiting ids vs
       else rbind (status_in PENDING_STATUSES (pget d ''status'')) (\<lambda>b.
         if \<not> b then still_waiting ids vs
         else if \<not> hashable cid then Inl HistoryRaised
         else if list_ex (py_eq cid) ids then still_waiting ids vs else Inr True))"

definition is_paused :: "pyval list \<Rightarrow> (history_error, bool) result" where
  "is_paused output = rbind (result_call_ids output) (\<lambda>ids. still_waiting ids output)"

definition may_resolve :: "user_account \<Rightarrow> chat_item \<Rightarrow> bool" where
  "may_resolve user c \<longleftrightarrow> ci_user_id c = acc_id user \<or> acc_role user = ''admin''"

text \<open>The stored output of the message: \<open>message.get('output') or []\<close>, which has to be a list.\<close>

definition stored_output :: "pyval \<Rightarrow> (approval_error, pyval list) result" where
  "stored_output message =
     (if \<not> py_truthy message then Inl CallNotFound
      else rbind (lift_raised (need_dict message)) (\<lambda>m. case as_list (py_or (pget m ''output'') (PList [])) of
          None \<Rightarrow> Inl BadCall
        | Some output \<Rightarrow> Inr output))"

text \<open>\<open>resolve_tool_call_output\<close>. What the write of the message returns is not looked at.\<close>

definition resolve_tool_call_output ::
  "(pyval \<Rightarrow> string) \<Rightarrow> json_codec \<Rightarrow> int \<Rightarrow> string \<Rightarrow> string \<Rightarrow> resolve_form \<Rightarrow> user_account \<Rightarrow> chat_db
    \<Rightarrow> (approval_error, pyval list \<times> bool) result \<times> chat_db" where
  "resolve_tool_call_output py_str codec now chat_id message_id form user db = (case read_chat_by_id chat_id db of
      (None, db1) \<Rightarrow> (Inl Unauthorized, db1)
    | (Some c, db1) \<Rightarrow>
        if \<not> may_resolve user c then (Inl Unauthorized, db1)
        else (case get_message_by_id_and_message_id chat_id message_id db1 of
            (Inl e, db2) \<Rightarrow> (Inl ServerFailed, db2)
          | (Inr message, db2) \<Rightarrow> (case rbind (stored_output message) (resolve_output codec form) of
              Inl e \<Rightarrow> (Inl e, db2)
            | Inr output \<Rightarrow>
                (let db3 = snd (upsert_message_to_chat_by_id_and_message_id py_str now chat_id message_id
                       [(''done'', PBool False), (''output'', PList output)] False db2)
                 in (rbind (lift_raised (is_paused output)) (\<lambda>b. Inr (output, b)), db3)))))"

subsection \<open>Going on\<close>

text \<open>The parameters of the resumed request: those of the chat, overridden by those of the message, but with the approval mode the chat has now.\<close>

definition resume_params :: "jdict \<Rightarrow> jdict \<Rightarrow> jdict" where
  "resume_params chat_data message_meta =
     (let chat_params = dict_or_empty (pget chat_data ''params'');
          params = dict_update chat_params (dict_or_empty (pget message_meta ''params''));
          current = pget chat_params ''tool_approval_mode'';
          params1 = (if py_eq_str current ''ask'' \<or> py_eq_str current ''full'' then AList.update ''tool_approval_mode'' current params else params)
      in if has_key params1 ''tool_approval_mode'' then params1 else AList.update ''tool_approval_mode'' (PStr ''ask'') params1)"

text \<open>\<open>next(iter(chat_data.get('models') or []), None)\<close>.\<close>

definition first_model :: "jdict \<Rightarrow> (history_error, pyval) result" where
  "first_model chat_data = rbind (iterate (py_or (pget chat_data ''models'') (PList []))) (\<lambda>l. Inr (case l of [] \<Rightarrow> PNone | v # vs \<Rightarrow> v))"

definition resume_payload :: "pyval \<Rightarrow> string \<Rightarrow> string \<Rightarrow> jdict \<Rightarrow> jdict \<Rightarrow> jdict \<Rightarrow> (approval_error, jdict) result" where
  "resume_payload variables chat_id message_id chat_data assistant user_message =
     (let meta = dict_or_empty (pget assistant ''meta''); params = resume_params chat_data meta in
      if \<not> hashable (pget (dict_or_empty (pget chat_data ''params'')) ''tool_approval_mode'') then Inl ServerFailed
      else rbind (if py_truthy (pget assistant ''model'') then Inr (pget assistant ''model'') else lift_raised (first_model chat_data)) (\<lambda>model.
      if \<not> py_truthy model then Inl CallConflict
      else Inr [(''stream'', get_default params ''stream_response'' (PBool True)), (''model'', model),
        (''messages'', PList (if py_truthy (pget params ''system'')
           then [PDict [(''role'', PStr ''system''), (''content'', pget params ''system'')]] else [])),
        (''params'', PDict params), (''files'', py_or (py_or (pget meta ''files'') (pget chat_data ''files'')) PNone),
        (''filter_ids'', py_or (pget meta ''filter_ids'') PNone), (''tool_ids'', py_or (pget meta ''tool_ids'') PNone),
        (''skill_ids'', py_or (pget meta ''skill_ids'') PNone), (''terminal_id'', py_or (pget meta ''terminal_id'') PNone),
        (''tool_servers'', py_or (pget meta ''tool_servers'') PNone), (''features'', py_or (pget meta ''features'') (PDict [])),
        (''variables'', py_or (pget meta ''variables'') (PDict [])), (''chat_variables'', variables), (''session_id'', pget meta ''session_id''),
        (''chat_id'', PStr chat_id), (''id'', PStr message_id), (''parent_id'', pget user_message ''parentId''),
        (''user_message'', PDict user_message), (''assistant_message_id'', PStr message_id)]))"

text \<open>A message that has to be there: \<open>miss\<close> is the error when it is not. An id that is not a string finds no message.\<close>

definition need_message :: "approval_error \<Rightarrow> string \<Rightarrow> string option \<Rightarrow> chat_db \<Rightarrow> (approval_error, jdict) result \<times> chat_db" where
  "need_message miss chat_id message_id db = (case message_id of
      None \<Rightarrow> (Inl miss, db)
    | Some i \<Rightarrow> (case get_message_by_id_and_message_id chat_id i db of
        (Inl e, db1) \<Rightarrow> (Inl ServerFailed, db1)
      | (Inr v, db1) \<Rightarrow> (if \<not> py_truthy v then Inl miss else lift_raised (need_dict v), db1)))"

text \<open>\<open>parentId\<close> names the message of the user: a key that cannot be hashed fails, one that is not text finds nothing.\<close>

definition user_message_of :: "string \<Rightarrow> jdict \<Rightarrow> chat_db \<Rightarrow> (approval_error, jdict) result \<times> chat_db" where
  "user_message_of chat_id assistant db =
     (let p = pget assistant ''parentId'' in
      if \<not> py_truthy p then (Inl CallConflict, db)
      else if \<not> hashable p then (Inl ServerFailed, db)
      else need_message CallConflict chat_id (as_str p) db)"

text \<open>\<open>chat or await Chats.get_chat_by_id(chat_id)\<close>. The column \<open>variables\<close> of the chat is an argument of the model.\<close>

definition resume_chat :: "string \<Rightarrow> chat_item option \<Rightarrow> chat_db \<Rightarrow> chat_item option \<times> chat_db" where
  "resume_chat chat_id chat db = (case chat of Some c \<Rightarrow> (Some c, db) | None \<Rightarrow> read_chat_by_id chat_id db)"

definition build_tool_approval_resume_payload ::
  "pyval \<Rightarrow> string \<Rightarrow> string \<Rightarrow> chat_item option \<Rightarrow> chat_db \<Rightarrow> (approval_error, jdict) result \<times> chat_db" where
  "build_tool_approval_resume_payload variables chat_id message_id chat0 db = (case resume_chat chat_id chat0 db of
      (None, db0) \<Rightarrow> (Inl CallNotFound, db0)
    | (Some chat, db0) \<Rightarrow> (case need_message CallNotFound chat_id (Some message_id) db0 of
        (Inl e, db1) \<Rightarrow> (Inl e, db1)
      | (Inr assistant, db1) \<Rightarrow> (case user_message_of chat_id assistant db1 of
          (Inl e, db2) \<Rightarrow> (Inl e, db2)
        | (Inr user_message, db2) \<Rightarrow> (resume_payload variables chat_id message_id (body_of chat) assistant user_message, db2))))"

subsection \<open>A call is resolved once\<close>

lemma find_call_Some:
  assumes "find_call cid xs = Inr (Some (n, d))"
  shows "n < length xs \<and> xs ! n = PDict d \<and> is_call cid d"
  using assms
proof (induction xs arbitrary: n)
  case (Cons v vs)
  then show ?case by (auto simp: rbind_Inr_iff need_dict_def split: pyval.splits option.splits if_splits)
qed simp

lemma find_call_again:
  assumes "find_call cid xs = Inr (Some (n, d))" "is_call cid d'"
  shows "find_call cid (xs[n := PDict d'] @ ys) = Inr (Some (n, d'))"
  using assms
proof (induction xs arbitrary: n)
  case (Cons v vs)
  then show ?case by (auto simp: rbind_Inr_iff need_dict_def split: pyval.splits option.splits if_splits)
qed simp

text \<open>A result of the call at the end is found, if a call is in the place of a call.\<close>

lemma has_output_appended:
  assumes "has_output_for cid xs = Inr False" "n < length xs" "is_type d ''function_call''"
  shows "has_output_for cid (xs[n := PDict d] @ [output_item cid text status]) = Inr True"
proof -
  have "\<not> is_type d ''function_call_output''" using assms(3) by (auto simp: is_type_def)
  then show ?thesis using assms(1,2)
  proof (induction xs arbitrary: n)
    case (Cons v vs)
    have end_found: "has_output_for cid us = Inr False \<Longrightarrow> has_output_for cid (us @ [output_item cid text status]) = Inr True" for us
      by (induction us) (auto simp: rbind_Inr_iff need_dict_def output_item_def is_type_def split: pyval.splits option.splits if_splits)
    show ?case using Cons end_found [of vs]
      by (cases n) (auto simp: rbind_Inr_iff need_dict_def split: pyval.splits option.splits if_splits)
  qed simp
qed

lemma resolve_action_call:
  assumes "resolve_action codec form fc = Inr (fc', extra)" "is_call cid fc" "has_key fc ''call_id''"
  shows "is_call cid fc' \<and> has_key fc' ''call_id''"
  using assms by (auto simp: resolve_action_def is_call_def is_type_def dict_update_def has_key_def Let_def split: approval_action.splits if_splits)

lemma resolve_action_extra:
  assumes "resolve_action codec form fc = Inr (fc', extra)"
  shows "extra = [] \<and> rf_action form = Approve \<or> (\<exists>body status. extra = [output_item (rf_call_id form) body status] \<and> CHR 0x00 \<notin> set status)"
proof (cases "rf_action form")
  case Approve
  then show ?thesis using assms by (auto simp: resolve_action_def Let_def split: if_splits)
next
  case Reject
  then have "extra = [output_item (rf_call_id form) ''Error: tool call rejected by user.'' ''rejected'']"
    using assms by (auto simp: resolve_action_def Let_def)
  moreover have "CHR 0x00 \<notin> set ''rejected''" by simp
  ultimately show ?thesis by blast
next
  case Answer
  then have "extra = [output_item (rf_call_id form) (jc_dumps codec (answer_payload form)) ''completed'']"
    using assms by (auto simp: resolve_action_def Let_def split: if_splits)
  moreover have "CHR 0x00 \<notin> set ''completed''" by simp
  ultimately show ?thesis by blast
qed

lemma call_id_default: "is_call cid d \<Longrightarrow> \<not> has_key d ''call_id'' \<Longrightarrow> is_call cid (AList.update ''call_id'' (PStr cid) d)"
  by (auto simp: is_call_def is_type_def has_key_def pget_def py_or_def py_truthy_def split: option.splits if_splits)

lemma resolve_outputE:
  assumes "resolve_output codec form xs = Inr out"
  obtains n fc0 fc fc' extra where "find_call (rf_call_id form) xs = Inr (Some (n, fc0))"
    "fc = (if has_key fc0 ''call_id'' then fc0 else AList.update ''call_id'' (PStr (rf_call_id form)) fc0)"
    "has_output_for (rf_call_id form) (xs[n := PDict fc]) = Inr False" "resolve_action codec form fc = Inr (fc', extra)"
    "out = xs[n := PDict fc'] @ extra" "is_call (rf_call_id form) fc'" "has_key fc' ''call_id''" "n < length xs" "is_call (rf_call_id form) fc0"
proof -
  let ?c = "rf_call_id form"
  from assms obtain n fc0 where found: "find_call ?c xs = Inr (Some (n, fc0))"
    by (auto simp: resolve_output_def rbind_Inr_iff lift_raised_def split: sum.splits option.splits)
  define fc where "fc = (if has_key fc0 ''call_id'' then fc0 else AList.update ''call_id'' (PStr ?c) fc0)"
  from assms obtain fc' extra where none: "has_output_for ?c (xs[n := PDict fc]) = Inr False"
    and act: "resolve_action codec form fc = Inr (fc', extra)" and out: "out = xs[n := PDict fc'] @ extra"
    unfolding resolve_output_def
    by (auto simp: found rbind_Inr_iff lift_raised_def Let_def fc_def [symmetric] split: sum.splits if_splits)
  have call: "is_call ?c fc" "has_key fc ''call_id''"
    using find_call_Some [OF found] by (auto simp: fc_def call_id_default has_key_def)
  show thesis using that [OF found fc_def none act out] resolve_action_call [OF act call] find_call_Some [OF found] by blast
qed

text \<open>A call that is settled: it is found, has its id, and a result of it is in the output.\<close>

definition settled_call :: "string \<Rightarrow> pyval list \<Rightarrow> bool" where
  "settled_call cid out \<longleftrightarrow> (\<exists>n d. find_call cid out = Inr (Some (n, d)) \<and> has_key d ''call_id'') \<and> has_output_for cid out = Inr True"

text \<open>A rejection or an answer settles its call.\<close>

lemma resolve_output_settles:
  assumes "resolve_output codec form xs = Inr out" "rf_action form \<noteq> Approve"
  shows "settled_call (rf_call_id form) out"
  using assms(1)
proof (rule resolve_outputE)
  let ?c = "rf_call_id form"
  fix n fc0 fc fc' extra
  assume found: "find_call ?c xs = Inr (Some (n, fc0))" and none: "has_output_for ?c (xs[n := PDict fc]) = Inr False"
    and act: "resolve_action codec form fc = Inr (fc', extra)" and out: "out = xs[n := PDict fc'] @ extra"
    and call': "is_call ?c fc'" "has_key fc' ''call_id''" and n: "n < length xs"
  obtain body status where extra: "extra = [output_item ?c body status]" using resolve_action_extra [OF act] assms(2) by blast
  have again: "find_call ?c out = Inr (Some (n, fc'))" unfolding out by (rule find_call_again [OF found call'(1)])
  have "has_output_for ?c ((xs[n := PDict fc])[n := PDict fc'] @ [output_item ?c body status]) = Inr True"
    by (rule has_output_appended [OF none]) (use n call' in \<open>auto simp: is_call_def\<close>)
  then show ?thesis using again call' by (auto simp: settled_call_def out extra)
qed

text \<open>A settled call takes no decision.\<close>

lemma settled_call_conflict:
  assumes "settled_call (rf_call_id form) out"
  shows "resolve_output codec form out = Inl CallConflict"
proof -
  from assms obtain n d where nd: "find_call (rf_call_id form) out = Inr (Some (n, d))" "has_key d ''call_id''"
    and yes: "has_output_for (rf_call_id form) out = Inr True" by (auto simp: settled_call_def)
  have "out[n := PDict d] = out" using find_call_Some [OF nd(1)] by (metis list_update_id)
  then show ?thesis using nd yes by (simp add: resolve_output_def lift_raised_def Let_def)
qed

text \<open>It stays settled when another call of the output changes and results are appended.\<close>

lemma find_call_other:
  assumes "find_call cid xs = Inr (Some (n, d))" "xs ! k = PDict e" "\<not> is_call cid e" "\<not> is_call cid e'"
  shows "find_call cid (xs[k := PDict e'] @ ys) = Inr (Some (n, d))"
  using assms
proof (induction xs arbitrary: n k)
  case (Cons v vs)
  obtain c where c: "v = PDict c" using Cons.prems(1) by (cases "as_dict v") (auto simp: need_dict_def)
  show ?case
  proof (cases "is_call cid c")
    case True
    then show ?thesis using Cons.prems c by (cases k) (auto simp: need_dict_def)
  next
    case False
    then obtain n' where n': "find_call cid vs = Inr (Some (n', d))" "n = Suc n'"
      using Cons.prems(1) c by (auto simp: rbind_Inr_iff need_dict_def)
    show ?thesis
    proof (cases k)
      case 0
      have "find_call cid (vs @ ys) = Inr (Some (n', d))"
        using find_call_again [OF n'(1), of d ys] find_call_Some [OF n'(1)] by (metis list_update_id)
      then show ?thesis using 0 n' Cons.prems(4) by (simp add: need_dict_def)
    next
      case (Suc k')
      then show ?thesis using Cons.IH [OF n'(1), of k'] Cons.prems c False n' by (simp add: need_dict_def)
    qed
  qed
qed simp

lemma has_output_other:
  assumes "has_output_for cid xs = Inr True" "xs ! k = PDict e" "is_type e ''function_call''" "is_type e' ''function_call''"
  shows "has_output_for cid (xs[k := PDict e'] @ ys) = Inr True"
proof -
  have no: "\<not> is_type e ''function_call_output''" "\<not> is_type e' ''function_call_output''" using assms(3,4) by (auto simp: is_type_def)
  show ?thesis using assms(1,2)
  proof (induction xs arbitrary: k)
    case (Cons v vs)
    have end_kept: "has_output_for cid us = Inr True \<Longrightarrow> has_output_for cid (us @ ys) = Inr True" for us
      by (induction us) (auto simp: rbind_Inr_iff need_dict_def split: pyval.splits option.splits if_splits)
    show ?case using Cons no end_kept [of vs]
      by (cases k) (auto simp: rbind_Inr_iff need_dict_def split: pyval.splits option.splits if_splits)
  qed simp
qed

lemma settled_call_kept:
  assumes "settled_call cid xs" "xs ! k = PDict e" "is_call cid2 e" "is_call cid2 e'" "cid2 \<noteq> cid"
  shows "settled_call cid (xs[k := PDict e'] @ ys)"
proof -
  have no: "\<not> is_call cid e" "\<not> is_call cid e'" using assms(3-5) by (auto simp: is_call_def)
  have "is_type e ''function_call''" "is_type e' ''function_call''" using assms(3,4) by (auto simp: is_call_def)
  then show ?thesis using assms(1) find_call_other [OF _ assms(2) no] has_output_other [OF _ assms(2)] unfolding settled_call_def by blast
qed

subsection \<open>What is stored of an output\<close>

text \<open>Data without null characters, as the tables hold it.\<close>

definition clean_json :: "pyval \<Rightarrow> bool" where
  "clean_json v \<longleftrightarrow> \<not> has_null v \<and> json_ok v"

lemma clean_json_list: "clean_json (PList l) \<longleftrightarrow> (\<forall>v \<in> set l. clean_json v)"
  by (auto simp: clean_json_def list_ex_iff list_all_iff)

lemma clean_json_pget: "clean_json (PDict d) \<Longrightarrow> pget d k = PStr t \<Longrightarrow> CHR 0x00 \<notin> set t"
  by (auto simp: clean_json_def pget_def list_ex_iff split: option.splits dest!: map_of_SomeD)

lemma clean_json_update: "clean_json (PDict d) \<Longrightarrow> clean_json v \<Longrightarrow> CHR 0x00 \<notin> set k \<Longrightarrow> clean_json (PDict (AList.update k v d))"
  using update_entries [of k v d] has_null_update [of d v k] unfolding clean_json_def by (auto simp: list_all_iff simp del: has_null.simps)

lemma clean_json_strip: "clean_json v \<Longrightarrow> strip_null_bytes_deep v = v"
  using strip_id by (simp add: clean_json_def)

lemma clean_json_scalar [simp]: "clean_json (PStr t) \<longleftrightarrow> CHR 0x00 \<notin> set t" "clean_json (PBool b)"
  by (simp_all add: clean_json_def)

lemma output_item_strip:
  assumes "CHR 0x00 \<notin> set cid" "CHR 0x00 \<notin> set status"
  shows "strip_null_bytes_deep (output_item cid body status) = output_item cid (sanitize_text_for_db body) status"
    and "CHR 0x00 \<notin> set body \<Longrightarrow> clean_json (output_item cid body status)"
  using assms
  by (simp_all add: output_item_def dict_update_def clean_json_def sanitize_text_for_db_def dict_ok_def filter_id_conv) metis

text \<open>The message that is written carries the cleaned output.\<close>

lemma written_output:
  assumes "json_ok (PList out)"
  shows "has_key (sanitize_dict (with_output_text py_str [(''done'', PBool False), (''output'', PList out)])) ''output''
    \<and> pget (sanitize_dict (with_output_text py_str [(''done'', PBool False), (''output'', PList out)])) ''output'' = strip_null_bytes_deep (PList out)"
proof -
  let ?m = "[(''done'', PBool False), (''output'', PList out)]"
  have keys: "sanitize_text_for_db ''done'' = ''done''" "sanitize_text_for_db ''output'' = ''output''" "sanitize_text_for_db ''content'' = ''content''"
    by (simp_all add: sanitize_text_for_db_def)
  let ?t = "get_output_text py_str (PList out)"
  have "with_output_text py_str ?m = ?m \<or> with_output_text py_str ?m = ?m @ [(''content'', PStr ?t)]"
    by (simp add: with_output_text_def py_truthy_def Let_def)
  moreover have "strip_null_bytes_deep (PList out) = PList out" if "\<not> list_ex has_null out" using strip_id [OF _ assms] that by simp
  ultimately show ?thesis
    by (auto simp: sanitize_dict_def sanitize_data_for_db_def dict_or_empty_def has_key_def dict_update_def keys)
qed

lemma read_chat_rows: "cd_messages (snd (read_chat_by_id i db)) = cd_messages db"
  by (auto simp: read_chat_by_id_def Let_def split: option.splits sum.splits prod.splits)

lemma get_message_rows: "cd_messages (snd (get_message_by_id_and_message_id i mid db)) = cd_messages db"
  using read_chat_rows [of i db] by (auto simp: get_message_by_id_and_message_id_def split: option.splits prod.splits)

lemma get_row_Some: "rows_keyed i t \<Longrightarrow> get_message_row k t = Some r \<longleftrightarrow> r \<in> set t \<and> cm_id r = k"
  by (auto simp: get_message_row_def rows_keyed_def find_Some_iff in_set_conv_nth distinct_conv_nth)

lemma find_appended: "\<not> P r \<Longrightarrow> find P (t @ [r]) = find P t"
  by (induction t) auto

lemma find_replaced: "k \<noteq> cm_id r \<Longrightarrow> find (\<lambda>q. cm_id q = k) (map (\<lambda>q. if cm_id q = cm_id r then r else q) t) = find (\<lambda>q. cm_id q = k) t"
  by (induction t) auto

lemma get_row_other: "k \<noteq> cm_id r \<Longrightarrow> get_message_row k (put_message_row r t) = get_message_row k t"
  by (simp add: put_message_row_def get_message_row_def find_appended find_replaced)

lemma written_elsewhere:
  assumes "upsert_row now i user mid data t = Inr t'" "k \<noteq> composite_id i mid"
  shows "get_message_row k t' = get_message_row k t"
proof -
  obtain r where r: "(case get_message_row (composite_id i mid) t of
      Some q \<Rightarrow> apply_message_data q data now | None \<Rightarrow> build_message (composite_id i mid) i user data now) = Inr r"
    and t': "t' = put_message_row r t"
    using assms(1) by (auto simp: upsert_row_def rbind_Inr_iff Let_def split: if_splits)
  have "cm_id r = composite_id i mid"
    using r build_message_columns(1) apply_message_columns(1) by (auto simp: get_message_row_def find_Some_iff split: option.splits)
  then show ?thesis using assms(2) by (simp add: t' get_row_other)
qed

text \<open>The write of an output: the rows stay, or the row of the message holds the cleaned output and no other row changes.\<close>

lemma output_written:
  assumes up: "upsert_message_to_chat_by_id_and_message_id py_str now i mid [(''done'', PBool False), (''output'', PList out)] touch db = (c, db')"
    and rows: "rows_keyed i (cd_messages db)" and mid: "CHR 0x00 \<notin> set mid"
  shows "cd_messages db' = cd_messages db \<or> rows_keyed i (cd_messages db') \<and>
    (json_ok (PList out) \<longrightarrow> (\<exists>r. get_message_row (composite_id i mid) (cd_messages db') = Some r \<and> cm_output r = strip_null_bytes_deep (PList out))) \<and>
    (\<forall>k. k \<noteq> composite_id i mid \<longrightarrow> get_message_row k (cd_messages db') = get_message_row k (cd_messages db))"
proof (cases "cd_messages db' = cd_messages db")
  case False
  let ?m = "sanitize_dict (with_output_text py_str [(''done'', PBool False), (''output'', PList out)])"
  from False obtain c' where "c = Some c'" using up
    by (auto simp: upsert_message_to_chat_by_id_and_message_id_def Let_def split: option.splits sum.splits if_splits prod.splits)
  with up obtain h h' saved where saved: "upsert_message_to_history now h mid ?m = Inr (saved, h')"
    and db': "cd_messages db' = (case upsert_row now i (ci_user_id c') mid saved (cd_messages db) of Inl e \<Rightarrow> cd_messages db | Inr t \<Rightarrow> t)"
    using upsert_parts [of py_str now i mid _ touch db c' db'] by (metis sanitize_text_id [OF mid])
  have ok: "dict_ok ?m" by (rule dict_ok_sanitize, rule dict_ok_with_output) (simp add: dict_ok_def)
  obtain t where t: "upsert_row now i (ci_user_id c') mid saved (cd_messages db) = Inr t" "cd_messages db' = t"
    using db' False by (auto split: sum.splits)
  from written_row [OF t(1) rows] obtain r where r: "r \<in> set t" "cm_id r = composite_id i mid" "row_holds saved r" "rows_keyed i t" by blast
  have "cm_output r = strip_null_bytes_deep (PList out)" if "json_ok (PList out)"
  proof -
    from saved_field [OF saved ok, of "''output''"] written_output [OF that]
    have "has_key saved ''output''" "pget saved ''output'' = strip_null_bytes_deep (PList out)" by (simp_all add: completed_fields_def)
    then show ?thesis using r(3) by (simp add: row_holds_def plain_fields_def row_field_def)
  qed
  moreover have "get_message_row (composite_id i mid) t = Some r" using r by (simp add: get_row_Some [OF r(4)])
  moreover have "get_message_row k t = get_message_row k (cd_messages db)" if "k \<noteq> composite_id i mid" for k
    using written_elsewhere [OF t(1) that] .
  ultimately show ?thesis using r(4) t(2) by blast
qed simp

text \<open>A decision on a call in a clean output: one call changes, a result may be appended, and what is stored is clean again.\<close>

lemma resolve_action_clean:
  "resolve_action codec form fc = Inr (fc', extra) \<Longrightarrow> clean_json (PDict fc) \<Longrightarrow> clean_json (PDict fc')"
  by (auto simp: resolve_action_def Let_def dict_update_def clean_json_update split: approval_action.splits if_splits)

lemma call_id_clean: "is_call cid d \<Longrightarrow> clean_json (PDict d) \<Longrightarrow> CHR 0x00 \<notin> set cid"
  using clean_json_pget [of d "''call_id''" cid] clean_json_pget [of d "''id''" cid] by (auto simp: is_call_def py_or_def split: if_splits)

lemma resolve_output_clean:
  assumes "resolve_output codec form xs = Inr out" and clean: "clean_json (PList xs)"
  obtains k e e' ys where "xs ! k = PDict e" "is_call (rf_call_id form) e" "is_call (rf_call_id form) e'" "json_ok (PList out)"
    "strip_null_bytes_deep (PList out) = PList (xs[k := PDict e'] @ ys)" "clean_json (PList (xs[k := PDict e'] @ ys))"
  using assms(1)
proof (rule resolve_outputE)
  let ?c = "rf_call_id form"
  fix n fc0 fc fc' extra
  assume found: "find_call ?c xs = Inr (Some (n, fc0))"
    and fc: "fc = (if has_key fc0 ''call_id'' then fc0 else AList.update ''call_id'' (PStr ?c) fc0)"
    and act: "resolve_action codec form fc = Inr (fc', extra)" and out: "out = xs[n := PDict fc'] @ extra" and call: "is_call ?c fc'"
  have e: "xs ! n = PDict fc0" "n < length xs" "is_call ?c fc0" using find_call_Some [OF found] by auto
  then have c0: "clean_json (PDict fc0)" using clean nth_mem [of n xs] by (simp add: clean_json_list)
  note cid = call_id_clean [OF e(3) c0]
  have "clean_json (PDict fc')" using resolve_action_clean [OF act] c0 cid by (simp add: fc clean_json_update split: if_splits)
  then have c1: "\<forall>v \<in> set (xs[n := PDict fc']). clean_json v" using clean set_update_subset_insert [of xs n "PDict fc'"] by (auto simp: clean_json_list)
  define ys where "ys = map strip_null_bytes_deep extra"
  have "CHR 0x00 \<notin> set (sanitize_text_for_db body)" for body by (simp add: sanitize_text_for_db_def)
  then have ys: "\<forall>v \<in> set ys. clean_json v" using resolve_action_extra [OF act] cid by (auto simp: ys_def output_item_strip)
  have "json_ok (output_item ?c body status)" for body status by (simp add: output_item_def dict_ok_def)
  then have extra: "\<forall>v \<in> set extra. json_ok v" using resolve_action_extra [OF act] by auto
  have "map strip_null_bytes_deep (xs[n := PDict fc']) = xs[n := PDict fc']" using c1 by (intro map_idI) (simp add: clean_json_strip)
  moreover have "json_ok (PList out)" using c1 extra by (auto simp: out list_all_iff clean_json_def)
  ultimately show thesis using that [OF e(1,3) call, of ys] c1 ys by (simp add: out ys_def clean_json_list ball_Un)
qed

subsection \<open>A decision is taken once\<close>

text \<open>What a request does to the rows: nothing, or it decides on the output that is stored of the message and writes the result.\<close>

lemma resolve_writes:
  assumes "resolve_tool_call_output py_str codec now i mid form user db = (r, db')" and changed: "cd_messages db' \<noteq> cd_messages db"
  obtains db1 db2 message xs out where "cd_messages db1 = cd_messages db" "cd_messages db2 = cd_messages db"
    "fst (get_message_by_id_and_message_id i mid db1) = Inr message" "stored_output message = Inr xs" "resolve_output codec form xs = Inr out"
    "db' = snd (upsert_message_to_chat_by_id_and_message_id py_str now i mid [(''done'', PBool False), (''output'', PList out)] False db2)"
    "r = rbind (lift_raised (is_paused out)) (\<lambda>b. Inr (out, b))"
proof -
  obtain c db1 where db1: "read_chat_by_id i db = (c, db1)" by force
  obtain q db2 where db2: "get_message_by_id_and_message_id i mid db1 = (q, db2)" by force
  have rows: "cd_messages db1 = cd_messages db" "cd_messages db2 = cd_messages db"
    using read_chat_rows [of i db] get_message_rows [of i mid db1] by (simp_all add: db1 db2)
  from assms rows obtain message xs out where "q = Inr message" "stored_output message = Inr xs" "resolve_output codec form xs = Inr out"
    "db' = snd (upsert_message_to_chat_by_id_and_message_id py_str now i mid [(''done'', PBool False), (''output'', PList out)] False db2)"
    "r = rbind (lift_raised (is_paused out)) (\<lambda>b. Inr (out, b))"
    by (auto simp: resolve_tool_call_output_def db1 db2 rbind_Inr_iff Let_def split: option.splits sum.splits if_splits)
  with rows show thesis using that [of db1 db2 message xs out] by (simp add: db2)
qed

text \<open>The row of the message holds an output in which the call is settled.\<close>

definition settled_row :: "string \<Rightarrow> string \<Rightarrow> string \<Rightarrow> message_table \<Rightarrow> bool" where
  "settled_row i mid cid t \<longleftrightarrow> rows_keyed i t \<and>
     (\<exists>r out. get_message_row (composite_id i mid) t = Some r \<and> cm_output r = PList out \<and> clean_json (PList out) \<and> settled_call cid out)"

lemma settled_call_nonempty: "settled_call cid out \<Longrightarrow> out \<noteq> []"
  by (auto simp: settled_call_def)

text \<open>The message is read from that row.\<close>

lemma settled_row_read:
  assumes "settled_row i mid cid (cd_messages db)"
  obtains r out m where "get_message_row (composite_id i mid) (cd_messages db) = Some r" "cm_output r = PList out" "clean_json (PList out)"
    "settled_call cid out" "get_message_by_id_and_message_id i mid db = (Inr (PDict m), db)" "stored_output (PDict m) = Inr out"
proof -
  from assms obtain r out where r: "get_message_row (composite_id i mid) (cd_messages db) = Some r" "cm_output r = PList out"
    "clean_json (PList out)" "settled_call cid out" and keyed: "rows_keyed i (cd_messages db)" by (auto simp: settled_row_def)
  from messages_map_lookup [OF keyed, of r mid] r(1) obtain ms m where m: "get_messages_map_by_chat_id i (cd_messages db) = Some ms"
    "map_of ms mid = Some m" "same_but_children (row_message i r) m" by (auto simp: get_row_Some [OF keyed])
  have "pget m ''output'' = PList out" using m(3) r(2) row_message_field [of "''output''" i r]
    by (simp add: same_but_children_def plain_fields_def row_field_def)
  moreover have "out \<noteq> []" using r(4) by (rule settled_call_nonempty)
  moreover have "m \<noteq> []" using calculation by (auto simp: pget_def)
  ultimately have "stored_output (PDict m) = Inr out" by (simp add: stored_output_def lift_raised_def need_dict_def py_or_def py_truthy_def)
  moreover have "get_message_by_id_and_message_id i mid db = (Inr (PDict m), db)" using m by (simp add: get_message_by_id_and_message_id_def)
  ultimately show thesis using that r by blast
qed

text \<open>A request for a settled call is refused; other requests leave the call settled.\<close>

lemma settled_row_refuses:
  assumes "settled_row i mid (rf_call_id form) (cd_messages db)"
  shows "fst (resolve_tool_call_output py_str codec now i mid form user db) \<in> {Inl Unauthorized, Inl CallConflict}"
proof -
  obtain c db1 where db1: "read_chat_by_id i db = (c, db1)" by force
  have "cd_messages db1 = cd_messages db" using read_chat_rows [of i db] by (simp add: db1)
  with assms have "settled_row i mid (rf_call_id form) (cd_messages db1)" by simp
  then obtain out m where "settled_call (rf_call_id form) out" "get_message_by_id_and_message_id i mid db1 = (Inr (PDict m), db1)"
    "stored_output (PDict m) = Inr out" by (rule settled_row_read)
  then show ?thesis using settled_call_conflict [of form out codec] by (auto simp: resolve_tool_call_output_def db1 split: option.splits)
qed

lemma settled_row_kept:
  assumes settled: "settled_row i mid cid (cd_messages db)" and req: "resolve_tool_call_output py_str codec now i mid2 form user db = (r, db')"
    and mid2: "CHR 0x00 \<notin> set mid2"
  shows "settled_row i mid cid (cd_messages db')"
proof (cases "cd_messages db' = cd_messages db")
  case False
  from req False obtain db1 db2 message xs out where db1: "cd_messages db1 = cd_messages db" and db2: "cd_messages db2 = cd_messages db"
    and message: "fst (get_message_by_id_and_message_id i mid2 db1) = Inr message" "stored_output message = Inr xs"
    and out: "resolve_output codec form xs = Inr out"
    and db': "db' = snd (upsert_message_to_chat_by_id_and_message_id py_str now i mid2 [(''done'', PBool False), (''output'', PList out)] False db2)"
    by (rule resolve_writes)
  have keyed: "rows_keyed i (cd_messages db2)" using settled db2 by (simp add: settled_row_def)
  from output_written [OF _ keyed mid2, of py_str now out False _ db'] db' False db2
  have keyed': "rows_keyed i (cd_messages db')"
    and this_row: "json_ok (PList out) \<Longrightarrow> \<exists>r. get_message_row (composite_id i mid2) (cd_messages db') = Some r \<and> cm_output r = strip_null_bytes_deep (PList out)"
    and other_row: "\<And>k. k \<noteq> composite_id i mid2 \<Longrightarrow> get_message_row k (cd_messages db') = get_message_row k (cd_messages db2)"
    by (metis prod.collapse)+
  show ?thesis
  proof (cases "mid2 = mid")
    case False
    then have "composite_id i mid \<noteq> composite_id i mid2" by (simp add: composite_id_def)
    then show ?thesis using settled keyed' other_row db2 by (simp add: settled_row_def)
  next
    case True
    have "settled_row i mid cid (cd_messages db1)" using settled db1 by simp
    then obtain m where xs: "settled_call cid xs" "clean_json (PList xs)" using message True by (elim settled_row_read) auto
    have ne: "rf_call_id form \<noteq> cid" using settled_call_conflict [of form xs codec] xs(1) out by auto
    from resolve_output_clean [OF out xs(2)] obtain k e e' ys where e: "xs ! k = PDict e" "is_call (rf_call_id form) e" "is_call (rf_call_id form) e'"
      and ok: "json_ok (PList out)" and strip: "strip_null_bytes_deep (PList out) = PList (xs[k := PDict e'] @ ys)"
      "clean_json (PList (xs[k := PDict e'] @ ys))" by metis
    have "settled_call cid (xs[k := PDict e'] @ ys)" by (rule settled_call_kept [OF xs(1) e ne])
    then show ?thesis using keyed' this_row [OF ok] strip True by (auto simp: settled_row_def simp del: strip_null_bytes_deep.simps)
  qed
qed (use settled in simp)

text \<open>What may happen after a decision: any further requests on the calls of the chat, of anybody and in any order, and whatever else leaves the row
  of the message as it is.\<close>

inductive later_requests :: "string \<Rightarrow> string \<Rightarrow> chat_db \<Rightarrow> chat_db \<Rightarrow> bool" for i mid db where
  no_request: "later_requests i mid db db"
| resolve_request: "later_requests i mid db db1 \<Longrightarrow> CHR 0x00 \<notin> set mid2 \<Longrightarrow>
    resolve_tool_call_output py_str codec now i mid2 form user db1 = (r, db2) \<Longrightarrow> later_requests i mid db db2"
| other_change: "later_requests i mid db db1 \<Longrightarrow> rows_keyed i (cd_messages db2) \<Longrightarrow>
    get_message_row (composite_id i mid) (cd_messages db2) = get_message_row (composite_id i mid) (cd_messages db1) \<Longrightarrow> later_requests i mid db db2"

lemma later_requests_settled:
  "later_requests i mid db db2 \<Longrightarrow> settled_row i mid cid (cd_messages db) \<Longrightarrow> settled_row i mid cid (cd_messages db2)"
proof (induction rule: later_requests.induct)
  case (other_change db1 db2)
  then show ?case by (simp add: settled_row_def)
qed (auto dest: settled_row_kept)

text \<open>C6: A decision on a tool call is taken once. When a call was rejected or answered and the row of its message was written, every later
  request for the same call, after any number of other requests on the calls of the chat, is refused with a conflict, or because its user may not act
  on the chat. The message id and the output have no null characters, and the row of the message is changed only by such requests.\<close>

theorem tool_call_resolved_once:
  assumes first: "resolve_tool_call_output py_str codec now i mid form user db = (Inr (out, paused), db')"
    and act: "rf_action form \<noteq> Approve" and rows: "rows_keyed i (cd_messages db)" "cd_messages db' \<noteq> cd_messages db"
    and clean: "clean_json (PList out)" "CHR 0x00 \<notin> set mid"
    and later: "later_requests i mid db' db2" and same: "rf_call_id form2 = rf_call_id form"
  shows "fst (resolve_tool_call_output py_str2 codec2 now2 i mid form2 user2 db2) \<in> {Inl Unauthorized, Inl CallConflict}"
proof -
  from first rows(2) obtain db1 xs out' where db1: "cd_messages db1 = cd_messages db" and out': "resolve_output codec form xs = Inr out'"
    and db': "db' = snd (upsert_message_to_chat_by_id_and_message_id py_str now i mid [(''done'', PBool False), (''output'', PList out')] False db1)"
    and r: "Inr (out, paused) = rbind (lift_raised (is_paused out')) (\<lambda>b. Inr (out', b))" by (rule resolve_writes)
  have [simp]: "out' = out" using r [symmetric] by (auto simp: rbind_Inr_iff)
  have "rows_keyed i (cd_messages db1)" using rows(1) db1 by simp
  from output_written [OF _ this clean(2), of py_str now out False _ db'] db' rows(2) db1 clean(1)
  have "rows_keyed i (cd_messages db') \<and> (\<exists>r. get_message_row (composite_id i mid) (cd_messages db') = Some r \<and> cm_output r = PList out)"
    by (metis \<open>out' = out\<close> clean_json_def clean_json_strip prod.collapse)
  then have "settled_row i mid (rf_call_id form) (cd_messages db')"
    using resolve_output_settles [OF out' act] clean(1) by (auto simp: settled_row_def)
  from later_requests_settled [OF later this] show ?thesis using settled_row_refuses same by metis
qed

definition waiting_chat_db :: chat_db where
  "waiting_chat_db = sample_chat_db\<lparr>cd_chats := [sample_chat\<lparr>ci_chat := Some [(''history'', PDict [(''messages'', PDict
     [(''m'', PDict [(''id'', PStr ''m''), (''role'', PStr ''assistant''), (''parentId'', PNone), (''childrenIds'', PList []),
        (''output'', PList [PDict [(''type'', PStr ''function_call''), (''id'', PStr ''k''), (''name'', PStr ''run''), (''status'', PStr ''requires_approval'')]])])])])]\<rparr>]\<rparr>"

definition sample_form :: resolve_form where
  "sample_form = \<lparr>rf_call_id = ''k'', rf_action = Reject, rf_answers = PNone, rf_timed_out = False\<rparr>"

definition sample_user :: user_account where
  "sample_user = \<lparr>acc_id = ''u'', acc_role = ''user''\<rparr>"

text \<open>After the rejection of the call, a request for a call that does not exist comes first.\<close>

theorem tool_call_resolved_once_witness:
  "let r = resolve_tool_call_output (\<lambda>v. []) sample_codec 1 ''x'' ''m'' sample_form sample_user waiting_chat_db;
       q = resolve_tool_call_output (\<lambda>v. []) sample_codec 2 ''x'' ''m'' (sample_form\<lparr>rf_call_id := ''n''\<rparr>) sample_user (snd r)
   in \<not> is_Inl (fst r) \<and> fst (resolve_tool_call_output (\<lambda>v. []) sample_codec 3 ''x'' ''m'' (sample_form\<lparr>rf_action := Approve\<rparr>) sample_user (snd q)) = Inl CallConflict"
proof -
  let ?r = "resolve_tool_call_output (\<lambda>v. []) sample_codec 1 ''x'' ''m'' sample_form sample_user waiting_chat_db"
  let ?q = "resolve_tool_call_output (\<lambda>v. []) sample_codec 2 ''x'' ''m'' (sample_form\<lparr>rf_call_id := ''n''\<rparr>) sample_user (snd ?r)"
  let ?form = "sample_form\<lparr>rf_action := Approve\<rparr>"
  have ok: "\<not> is_Inl (fst ?r)" "cd_messages (snd ?r) \<noteq> []" "case fst ?r of Inl e \<Rightarrow> False | Inr (out, p) \<Rightarrow> clean_json (PList out)" by code_simp+
  then obtain out p db' where r: "?r = (Inr (out, p), db')" and clean: "clean_json (PList out)"
    and ne: "cd_messages db' \<noteq> cd_messages waiting_chat_db"
    by (cases ?r) (auto simp: waiting_chat_db_def sample_chat_db_def split: sum.splits)
  have facts: "rf_action sample_form \<noteq> Approve" "rows_keyed ''x'' (cd_messages waiting_chat_db)" "CHR 0x00 \<notin> set ''m''"
    "rf_call_id ?form = rf_call_id sample_form"
    by (simp_all add: sample_form_def rows_keyed_def waiting_chat_db_def sample_chat_db_def)
  have later: "later_requests ''x'' ''m'' db' (snd ?q)"
    using resolve_request [OF no_request facts(3) surjective_pairing] by (simp add: r)
  from tool_call_resolved_once [OF r facts(1,2) ne clean facts(3) later facts(4)]
  have "fst (resolve_tool_call_output (\<lambda>v. []) sample_codec 3 ''x'' ''m'' ?form sample_user (snd ?q)) \<in> {Inl Unauthorized, Inl CallConflict}" .
  moreover have "case fst (resolve_tool_call_output (\<lambda>v. []) sample_codec 3 ''x'' ''m'' ?form sample_user (snd ?q)) of Inl Unauthorized \<Rightarrow> False | _ \<Rightarrow> True"
    by code_simp
  ultimately show ?thesis using ok(1) by (auto simp: Let_def)
qed

subsection \<open>The approval mode of the resumed request\<close>

lemma resume_params_mode:
  "has_key (resume_params chat_data meta) ''tool_approval_mode''"
  "pget (dict_or_empty (pget chat_data ''params'')) ''tool_approval_mode'' \<in> {PStr ''ask'', PStr ''full''}
    \<Longrightarrow> pget (resume_params chat_data meta) ''tool_approval_mode'' = pget (dict_or_empty (pget chat_data ''params'')) ''tool_approval_mode''"
  "\<not> has_key (dict_or_empty (pget chat_data ''params'')) ''tool_approval_mode''
    \<Longrightarrow> \<not> has_key (dict_or_empty (pget meta ''params'')) ''tool_approval_mode''
    \<Longrightarrow> pget (resume_params chat_data meta) ''tool_approval_mode'' = PStr ''ask''"
  by (auto simp: resume_params_def Let_def has_key_dict_update) (auto simp: has_key_def pget_def)

lemma resume_payload_params:
  "resume_payload variables i mid chat_data assistant user_message = Inr p
    \<Longrightarrow> pget p ''params'' = PDict (resume_params chat_data (dict_or_empty (pget assistant ''meta'')))"
  by (auto simp: resume_payload_def rbind_Inr_iff Let_def split: if_splits)

lemma need_message_found:
  "need_message miss i (Some mid) db = (Inr m, db') \<Longrightarrow> get_message_by_id_and_message_id i mid db = (Inr (PDict m), db')"
  by (auto simp: need_message_def lift_raised_def need_dict_def split: prod.splits sum.splits option.splits if_splits)

text \<open>C39: A resumed completion runs under the approval mode the chat has now. If the chat asks for approval, or gives it in full, the request has
  exactly that mode, whatever the message was started with; otherwise it has a mode all the same, and it is to ask when neither names one.\<close>

theorem resume_uses_current_mode:
  assumes "build_tool_approval_resume_payload variables i mid chat0 db = (Inr p, db')" and chat: "resume_chat i chat0 db = (Some chat, db0)"
    and mode: "mode = pget (dict_or_empty (pget (body_of chat) ''params'')) ''tool_approval_mode''"
  shows "\<exists>params. pget p ''params'' = PDict params \<and> has_key params ''tool_approval_mode'' \<and>
    (mode \<in> {PStr ''ask'', PStr ''full''} \<longrightarrow> pget params ''tool_approval_mode'' = mode) \<and>
    (\<exists>assistant. fst (get_message_by_id_and_message_id i mid db0) = Inr (PDict assistant) \<and>
      (\<not> has_key (dict_or_empty (pget (body_of chat) ''params'')) ''tool_approval_mode'' \<and>
       \<not> has_key (dict_or_empty (pget (dict_or_empty (pget assistant ''meta'')) ''params'')) ''tool_approval_mode''
         \<longrightarrow> pget params ''tool_approval_mode'' = PStr ''ask''))"
proof -
  obtain r db1 where r: "need_message CallNotFound i (Some mid) db0 = (r, db1)" by force
  from assms(1) obtain assistant user_message where a: "r = Inr assistant"
    and p: "resume_payload variables i mid (body_of chat) assistant user_message = Inr p"
    by (auto simp: build_tool_approval_resume_payload_def chat r split: sum.splits prod.splits)
  have g: "get_message_by_id_and_message_id i mid db0 = (Inr (PDict assistant), db1)" using need_message_found r a by blast
  show ?thesis
    using resume_params_mode [of "body_of chat" "dict_or_empty (pget assistant ''meta'')"] resume_payload_params [OF p] g unfolding mode by auto
qed

definition resumed_chat :: chat_item where
  "resumed_chat = sample_chat\<lparr>ci_chat := Some [(''params'', PDict [(''tool_approval_mode'', PStr ''ask'')]), (''history'', PDict [(''messages'', PDict
     [(''q'', PDict [(''id'', PStr ''q''), (''role'', PStr ''user''), (''parentId'', PNone), (''childrenIds'', PList [PStr ''m''])]),
      (''m'', PDict [(''id'', PStr ''m''), (''role'', PStr ''assistant''), (''parentId'', PStr ''q''), (''childrenIds'', PList []), (''model'', PStr ''g''),
        (''meta'', PDict [(''params'', PDict [(''tool_approval_mode'', PStr ''full'')])])])])])]\<rparr>"

theorem resume_uses_current_mode_witness:
  "\<exists>p db' params. build_tool_approval_resume_payload PNone ''x'' ''m'' (Some resumed_chat) \<lparr>cd_chats = [resumed_chat], cd_messages = []\<rparr> = (Inr p, db')
     \<and> pget p ''params'' = PDict params \<and> pget params ''tool_approval_mode'' = PStr ''ask''"
proof -
  let ?r = "build_tool_approval_resume_payload PNone ''x'' ''m'' (Some resumed_chat) \<lparr>cd_chats = [resumed_chat], cd_messages = []\<rparr>"
  have "\<not> is_Inl (fst ?r)" by code_simp
  then obtain p db' where r: "?r = (Inr p, db')" by (cases ?r; cases "fst ?r") auto
  have "pget (dict_or_empty (pget (body_of resumed_chat) ''params'')) ''tool_approval_mode'' = PStr ''ask''" by code_simp
  moreover have "resume_chat ''x'' (Some resumed_chat) \<lparr>cd_chats = [resumed_chat], cd_messages = []\<rparr> = (Some resumed_chat, \<lparr>cd_chats = [resumed_chat], cd_messages = []\<rparr>)"
    by (simp add: resume_chat_def)
  ultimately show ?thesis using resume_uses_current_mode [OF r _ refl] r by auto
qed

end
