(* ===== verification/Task_Registry.thy ===== *)
theory Task_Registry
  imports Ask_User
begin

section \<open>Background tasks (tasks.py)\<close>

text \<open>
  The registry of running tasks. A process keeps its tasks, the tasks of each item (a chat) and the response streams in memory; with Redis the
  index and the streams are shared, and a request to stop a task is published to all processes. Code between two \<open>await\<close>s is one step.
  Handles stand for \<open>asyncio.Task\<close> objects: what a cancelled task does is its own affair, so how it ends and what runs meanwhile
  are arguments of the operations that wait for it.
\<close>

record task_mem =
  tm_tasks :: "(string, nat) dict"
  tm_items :: "(string option, string list) dict"
  tm_streams :: "(string, jdict) dict"
  tm_cancelled :: "nat list"

record task_redis =
  tr_tasks :: "(string, string) dict"
  tr_items :: "(string, string list) dict"
  tr_streams :: "(string, string \<times> int option) dict"

definition named_item :: "string option \<Rightarrow> bool" where
  "named_item i \<longleftrightarrow> (case i of None \<Rightarrow> False | Some s \<Rightarrow> s \<noteq> [])"

definition list_at :: "('k, string list) dict \<Rightarrow> 'k \<Rightarrow> string list" where
  "list_at d k = (case map_of d k of None \<Rightarrow> [] | Some l \<Rightarrow> l)"

subsection \<open>The shared index\<close>

text \<open>A Redis set that loses its last member is no key any more.\<close>

definition sadd :: "string \<Rightarrow> string \<Rightarrow> (string, string list) dict \<Rightarrow> (string, string list) dict" where
  "sadd k v d = AList.update k (List.insert v (list_at d k)) d"

definition srem :: "string \<Rightarrow> string \<Rightarrow> (string, string list) dict \<Rightarrow> (string, string list) dict" where
  "srem k v d = (let l = removeAll v (list_at d k) in if l = [] then AList.delete k d else AList.update k l d)"

definition redis_save_task :: "string \<Rightarrow> string option \<Rightarrow> task_redis \<Rightarrow> task_redis" where
  "redis_save_task task_id item_id r =
     (let r1 = r\<lparr>tr_tasks := AList.update task_id (case item_id of None \<Rightarrow> [] | Some i \<Rightarrow> i) (tr_tasks r)\<rparr>
      in if named_item item_id then r1\<lparr>tr_items := sadd (the item_id) task_id (tr_items r1)\<rparr> else r1)"

definition redis_cleanup_task :: "string \<Rightarrow> string option \<Rightarrow> task_redis \<Rightarrow> task_redis" where
  "redis_cleanup_task task_id item_id r =
     (let r1 = r\<lparr>tr_tasks := AList.delete task_id (tr_tasks r), tr_streams := AList.delete task_id (tr_streams r)\<rparr>
      in if \<not> named_item item_id then r1
         else let r2 = r1\<lparr>tr_items := srem (the item_id) task_id (tr_items r1)\<rparr>
              in if list_at (tr_items r2) (the item_id) = [] then r2\<lparr>tr_items := AList.delete (the item_id) (tr_items r2)\<rparr> else r2)"

definition redis_list_tasks :: "task_redis \<Rightarrow> string list" where
  "redis_list_tasks r = map fst (tr_tasks r)"

definition redis_list_item_tasks :: "string \<Rightarrow> task_redis \<Rightarrow> string list" where
  "redis_list_item_tasks item_id r = list_at (tr_items r) item_id"

subsection \<open>The registry of a process\<close>

text \<open>\<open>create_task\<close> up to its first \<open>await\<close>. The handle is the new \<open>asyncio.Task\<close>.\<close>

definition register_task :: "string \<Rightarrow> string option \<Rightarrow> nat \<Rightarrow> task_mem \<Rightarrow> task_mem" where
  "register_task task_id i h m =
     m\<lparr>tm_tasks := AList.update task_id h (tm_tasks m), tm_items := AList.update i (list_at (tm_items m) i @ [task_id]) (tm_items m)\<rparr>"

definition create_task ::
  "bool \<Rightarrow> string \<Rightarrow> string option \<Rightarrow> string option \<Rightarrow> nat \<Rightarrow> task_mem \<times> task_redis \<Rightarrow> string \<times> task_mem \<times> task_redis" where
  "create_task redis uuid i given h s =
     (let task_id = (if named_item given then the given else uuid); (m, r) = s
      in (task_id, register_task task_id i h m, if redis then redis_save_task task_id i r else r))"

text \<open>\<open>cleanup_task\<close> after its Redis part.\<close>

definition forget_task :: "string \<Rightarrow> string option \<Rightarrow> task_mem \<Rightarrow> task_mem" where
  "forget_task task_id i m =
     (let m1 = m\<lparr>tm_tasks := AList.delete task_id (tm_tasks m), tm_streams := AList.delete task_id (tm_streams m)\<rparr>
      in if \<not> (named_item i \<and> List.member (list_at (tm_items m1) i) task_id) then m1
         else let l = remove1 task_id (list_at (tm_items m1) i)
              in m1\<lparr>tm_items := if l = [] then AList.delete i (tm_items m1) else AList.update i l (tm_items m1)\<rparr>)"

definition cleanup_task :: "bool \<Rightarrow> string \<Rightarrow> string option \<Rightarrow> task_mem \<times> task_redis \<Rightarrow> task_mem \<times> task_redis" where
  "cleanup_task redis task_id i s =
     (let (m, r) = s in (forget_task task_id i m, if redis then redis_cleanup_task task_id i r else r))"

definition list_tasks :: "bool \<Rightarrow> task_mem \<times> task_redis \<Rightarrow> string list" where
  "list_tasks redis s = (if redis then redis_list_tasks (snd s) else map fst (tm_tasks (fst s)))"

definition list_task_ids_by_item_id :: "bool \<Rightarrow> string \<Rightarrow> task_mem \<times> task_redis \<Rightarrow> string list" where
  "list_task_ids_by_item_id redis i s = (if redis then redis_list_item_tasks i (snd s) else list_at (tm_items (fst s)) (Some i))"

definition has_active_tasks :: "bool \<Rightarrow> string \<Rightarrow> task_mem \<times> task_redis \<Rightarrow> bool" where
  "has_active_tasks redis chat_id s \<longleftrightarrow> length (list_task_ids_by_item_id redis chat_id s) > 0"

subsection \<open>Response streams\<close>

text \<open>\<open>hexpire\<close> fails on servers that do not have it, which is ignored; a field that expired is gone. The values are read at time \<open>now\<close>.\<close>

definition save_response_stream ::
  "json_codec \<Rightarrow> bool \<Rightarrow> int \<Rightarrow> bool \<Rightarrow> int \<Rightarrow> string option \<Rightarrow> string option \<Rightarrow> string option \<Rightarrow> string \<Rightarrow> pyval list
    \<Rightarrow> task_mem \<times> task_redis \<Rightarrow> task_mem \<times> task_redis" where
  "save_response_stream codec redis ttl has_hexpire now task_id chat_id message_id content output s =
     (if \<not> named_item task_id \<or> \<not> named_item chat_id \<or> \<not> named_item message_id then s
      else let (m, r) = s; t = the task_id;
               data = [(''chat_id'', PStr (the chat_id)), (''message_id'', PStr (the message_id)), (''content'', PStr content), (''output'', PList output)]
           in if redis then (m, r\<lparr>tr_streams := AList.update t (jc_dumps codec (PDict data), if ttl > 0 \<and> has_hexpire then Some (now + ttl) else None) (tr_streams r)\<rparr>)
              else (m\<lparr>tm_streams := AList.update t data (tm_streams m)\<rparr>, r))"

definition live_value :: "int \<Rightarrow> string \<times> int option \<Rightarrow> string option" where
  "live_value now v = (case snd v of None \<Rightarrow> Some (fst v) | Some d \<Rightarrow> if now < d then Some (fst v) else None)"

text \<open>The streams of a chat in Redis. What \<open>loads\<close> refuses is skipped, but a decoded value that is no dictionary makes the call fail.\<close>

fun decode_streams :: "json_codec \<Rightarrow> string \<Rightarrow> string option list \<Rightarrow> (history_error, jdict list) result" where
  "decode_streams codec chat_id [] = Inr []"
| "decode_streams codec chat_id (v # vs) = (case v of
      None \<Rightarrow> decode_streams codec chat_id vs
    | Some s \<Rightarrow> if s = [] then decode_streams codec chat_id vs else (case jc_loads codec (PStr s) of
        Inl e \<Rightarrow> decode_streams codec chat_id vs
      | Inr data \<Rightarrow> rbind (need_dict data) (\<lambda>d. rbind (decode_streams codec chat_id vs) (\<lambda>rest.
          Inr (if py_eq_str (pget d ''chat_id'') chat_id then d # rest else rest)))))"

definition get_response_streams_by_chat_id ::
  "json_codec \<Rightarrow> bool \<Rightarrow> int \<Rightarrow> string \<Rightarrow> task_mem \<times> task_redis \<Rightarrow> (history_error, jdict list) result" where
  "get_response_streams_by_chat_id codec redis now chat_id s =
     (let task_ids = list_task_ids_by_item_id redis chat_id s in
      if task_ids = [] then Inr []
      else if redis then decode_streams codec chat_id (map (\<lambda>t. Option.bind (map_of (tr_streams (snd s)) t) (live_value now)) task_ids)
      else Inr (filter (\<lambda>d. d \<noteq> [] \<and> py_eq_str (pget d ''chat_id'') chat_id) (List.map_filter (map_of (tm_streams (fst s))) task_ids)))"

definition clear_response_stream :: "bool \<Rightarrow> string option \<Rightarrow> task_mem \<times> task_redis \<Rightarrow> task_mem \<times> task_redis" where
  "clear_response_stream redis task_id s =
     (if \<not> named_item task_id then s
      else let (m, r) = s; t = the task_id
           in if redis then (m, r\<lparr>tr_streams := AList.delete t (tr_streams r)\<rparr>) else (m\<lparr>tm_streams := AList.delete t (tm_streams m)\<rparr>, r))"

subsection \<open>Stopping\<close>

definition cancel_task :: "nat \<Rightarrow> task_mem \<Rightarrow> task_mem" where
  "cancel_task h m = m\<lparr>tm_cancelled := List.insert h (tm_cancelled m)\<rparr>"

text \<open>What the listener of a process does with a published message; an exception is logged and the message dropped. The listener
  subscribes again after an interval that doubles up to a bound.\<close>

definition handle_task_command :: "json_codec \<Rightarrow> string \<Rightarrow> task_mem \<Rightarrow> task_mem" where
  "handle_task_command codec data m = (case jc_loads codec (PStr data) of
      Inl e \<Rightarrow> m
    | Inr v \<Rightarrow> (case as_dict v of
        None \<Rightarrow> m
      | Some command \<Rightarrow>
          if \<not> py_eq_str (pget command ''action'') ''stop'' then m
          else (case as_str (pget command ''task_id'') of
              None \<Rightarrow> m
            | Some t \<Rightarrow> (case map_of (tm_tasks m) t of None \<Rightarrow> m | Some h \<Rightarrow> cancel_task h m))))"

definition next_reconnect_interval :: "int \<Rightarrow> int" where
  "next_reconnect_interval s = min (s * 2) 30"

text \<open>Publishing: every process that listens gets the message.\<close>

definition redis_send_command :: "json_codec \<Rightarrow> jdict \<Rightarrow> task_mem list \<Rightarrow> task_mem list" where
  "redis_send_command codec command procs = map (handle_task_command codec (jc_dumps codec (PDict command))) procs"

definition stop_command :: "string \<Rightarrow> jdict" where
  "stop_command task_id = [(''action'', PStr ''stop''), (''task_id'', PStr task_id)]"

definition redis_stop_task :: "json_codec \<Rightarrow> string \<Rightarrow> task_mem list \<times> task_redis \<Rightarrow> (bool \<times> string) \<times> task_mem list \<times> task_redis" where
  "redis_stop_task codec task_id s =
     (let (procs, r) = s; item_id = map_of (tr_tasks r) task_id;
          procs' = redis_send_command codec (stop_command task_id) procs
      in ((True, ''Task '' @ task_id @ '' stopped.''), procs', redis_cleanup_task task_id item_id r))"

fun redis_stop_all :: "json_codec \<Rightarrow> string list \<Rightarrow> task_mem list \<times> task_redis \<Rightarrow> (bool \<times> string) option \<times> task_mem list \<times> task_redis" where
  "redis_stop_all codec [] s = (None, s)"
| "redis_stop_all codec (t # ts) s =
     (let (res, s') = redis_stop_task codec t s in if \<not> fst res then (Some res, s') else redis_stop_all codec ts s')"

definition redis_stop_item_tasks :: "json_codec \<Rightarrow> string \<Rightarrow> task_mem list \<times> task_redis \<Rightarrow> (bool \<times> string) \<times> task_mem list \<times> task_redis" where
  "redis_stop_item_tasks codec item_id s =
     (let task_ids = redis_list_item_tasks item_id (snd s) in
      if task_ids = [] then ((True, ''No tasks found for item '' @ item_id @ ''.''), s)
      else (case redis_stop_all codec task_ids s of
          (Some res, s') \<Rightarrow> (res, s')
        | (None, s') \<Rightarrow> ((True, ''All tasks for item '' @ item_id @ '' stopped.''), s')))"

text \<open>Without Redis the task is awaited. \<open>outcome\<close> is how it ended; \<open>events\<close> are the steps of the registry that other coroutines took meanwhile.\<close>

datatype await_outcome = TaskCancelled | TaskReturned | TaskRaised

datatype task_event = Created string "string option" nat | CleanedUp string "string option"

fun task_event_step :: "task_event \<Rightarrow> task_mem \<Rightarrow> task_mem" where
  "task_event_step (Created t i h) m = register_task t i h m"
| "task_event_step (CleanedUp t i) m = forget_task t i m"

text \<open>\<open>item_tasks.get(id, [])\<close> is the list object itself: it is iterated while others change it. Once it is empty it is taken out of
  the dictionary and stays empty; \<open>gone\<close> records that.\<close>

fun run_events :: "string \<Rightarrow> task_event list \<Rightarrow> bool \<times> task_mem \<Rightarrow> bool \<times> task_mem" where
  "run_events i [] s = s"
| "run_events i (e # es) (gone, m) = (let m' = task_event_step e m in run_events i es (gone \<or> map_of (tm_items m') (Some i) = None, m'))"

definition stop_result :: "await_outcome \<Rightarrow> string \<Rightarrow> (await_outcome, bool \<times> string) result" where
  "stop_result outcome t = (case outcome of
      TaskCancelled \<Rightarrow> Inr (True, ''Task '' @ t @ '' successfully stopped.'')
    | TaskReturned \<Rightarrow> Inr (True, ''Task '' @ t @ '' successfully cancelled.'')
    | TaskRaised \<Rightarrow> Inl TaskRaised)"

definition stop_task ::
  "string \<Rightarrow> string \<Rightarrow> await_outcome \<times> task_event list \<Rightarrow> bool \<times> task_mem \<Rightarrow> (await_outcome, bool \<times> string) result \<times> bool \<times> task_mem" where
  "stop_task i t w s = (case map_of (tm_tasks (snd s)) t of
      None \<Rightarrow> (Inr (False, ''Task with ID '' @ t @ '' not found.''), s)
    | Some h \<Rightarrow>
        (let m1 = cancel_task h ((snd s)\<lparr>tm_tasks := AList.delete t (tm_tasks (snd s))\<rparr>)
         in (stop_result (fst w) t, run_events i (snd w) (fst s, m1))))"

text \<open>The loop of \<open>stop_item_tasks\<close> at position \<open>n\<close> of the list; \<open>None\<close> means that \<open>waits\<close> does not say how the next task ends.\<close>

fun stop_loop ::
  "string \<Rightarrow> nat \<Rightarrow> (await_outcome \<times> task_event list) list \<Rightarrow> bool \<times> task_mem \<Rightarrow> ((await_outcome, bool \<times> string) result \<times> task_mem) option" where
  "stop_loop i n waits (gone, m) =
     (let l = (if gone then [] else list_at (tm_items m) (Some i)) in
      if length l \<le> n then Some (Inr (True, ''All tasks for item '' @ i @ '' stopped.''), m)
      else (case waits of
          [] \<Rightarrow> None
        | w # ws \<Rightarrow> (case stop_task i (l ! n) w (gone, m) of
            (Inl e, s') \<Rightarrow> Some (Inl e, snd s')
          | (Inr res, s') \<Rightarrow> if \<not> fst res then Some (Inr res, snd s') else stop_loop i (Suc n) ws s')))"

definition stop_item_tasks ::
  "string \<Rightarrow> (await_outcome \<times> task_event list) list \<Rightarrow> task_mem \<Rightarrow> ((await_outcome, bool \<times> string) result \<times> task_mem) option" where
  "stop_item_tasks i waits m =
     (if list_at (tm_items m) (Some i) = [] then Some (Inr (True, ''No tasks found for item '' @ i @ ''.''), m)
      else stop_loop i 0 waits (False, m))"

subsection \<open>The index of a process holds the tasks that are not cleaned up\<close>

text \<open>The steps of the registry in memory. \<open>live\<close> are the tasks that were created and not yet cleaned up, with their items; ids are fresh
  (\<open>uuid4\<close>). A stop takes the task out of \<open>tasks\<close> before its cleanup runs.\<close>

inductive task_run :: "task_mem \<Rightarrow> (string \<times> string option) list \<Rightarrow> bool" where
  start: "task_run \<lparr>tm_tasks = [], tm_items = [], tm_streams = [], tm_cancelled = []\<rparr> []"
| create: "task_run m live \<Longrightarrow> t \<notin> fst ` set live \<Longrightarrow> task_run (register_task t i h m) (live @ [(t, i)])"
| cleanup: "task_run m live \<Longrightarrow> (t, i) \<in> set live \<Longrightarrow> task_run (forget_task t i m) (remove1 (t, i) live)"
| stop: "task_run m live \<Longrightarrow> task_run (cancel_task h (m\<lparr>tm_tasks := AList.delete t (tm_tasks m)\<rparr>)) live"
| stream: "task_run m live \<Longrightarrow> task_run (m\<lparr>tm_streams := d\<rparr>) live"

abbreviation tasks_of :: "string option \<Rightarrow> (string \<times> string option) list \<Rightarrow> string list" where
  "tasks_of i live \<equiv> map fst (filter (\<lambda>p. snd p = i) live)"

lemma list_at_update [simp]: "list_at (AList.update k l d) k' = (if k' = k then l else list_at d k')"
  by (simp add: list_at_def)

lemma list_at_delete [simp]: "list_at (AList.delete k d) k' = (if k' = k then [] else list_at d k')"
  by (simp add: list_at_def delete_conv)

lemma keys_delete: "fst ` set (AList.delete k d) = fst ` set d - {k}"
  by (metis delete_keys set_map set_removeAll)

lemma list_at_forget:
  "list_at (tm_items (forget_task t i m)) k = (if named_item i \<and> k = i then remove1 t (list_at (tm_items m) k) else list_at (tm_items m) k)"
  by (auto simp: forget_task_def Let_def remove1_idem)

lemma tasks_of_remove:
  assumes "distinct (map fst live)" "(t, i) \<in> set live"
  shows "tasks_of k (remove1 (t, i) live) = (if k = i then remove1 t (tasks_of k live) else tasks_of k live)"
  using assms
proof (induction live)
  case (Cons p live)
  then show ?case by (cases p) (auto simp: image_iff)
qed simp

lemma task_run_index:
  assumes "task_run m live"
  shows "distinct (map fst live) \<and> fst ` set (tm_tasks m) \<subseteq> fst ` set live
    \<and> (\<forall>i. named_item i \<longrightarrow> list_at (tm_items m) i = tasks_of i live \<and> map_of (tm_items m) i \<noteq> Some [])"
  using assms
proof (induction rule: task_run.induct)
  case (cleanup m live t i)
  have d: "distinct (map fst live)" using cleanup.IH by simp
  have keys: "fst ` set (remove1 (t, i) live) = fst ` set live - {t}"
    using d cleanup.hyps(2) by (induction live) (auto simp: image_iff)
  have "distinct (map fst (remove1 (t, i) live))" using d by (metis distinct_remove1_removeAll distinct_map distinct_remove1 inj_on_subset set_remove1_subset)
  moreover have "fst ` set (tm_tasks (forget_task t i m)) \<subseteq> fst ` set (remove1 (t, i) live)"
    using cleanup.IH keys_delete [of t "tm_tasks m"] unfolding keys by (simp add: forget_task_def Let_def) blast
  moreover have "list_at (tm_items (forget_task t i m)) k = tasks_of k (remove1 (t, i) live) \<and> map_of (tm_items (forget_task t i m)) k \<noteq> Some []"
    if "named_item k" for k
    using cleanup.IH that by (auto simp: list_at_forget tasks_of_remove [OF d cleanup.hyps(2)]) (auto simp: forget_task_def Let_def delete_conv split: if_splits)
  ultimately show ?case by blast
qed (auto simp: list_at_def register_task_def cancel_task_def keys_delete dom_update simp del: image_subset_iff)

text \<open>C9: The index answers what runs. In every state of a process without Redis, the tasks listed for an item are the tasks that were created
  for it and not cleaned up yet, in the order of their creation; the item counts as active while there is one, and it has no entry when there is
  none. Only tasks that were not cleaned up can still be stopped.\<close>

theorem item_index_exact:
  assumes "task_run m live" "i \<noteq> []"
  shows "list_task_ids_by_item_id False i (m, r) = tasks_of (Some i) live
    \<and> (has_active_tasks False i (m, r) \<longleftrightarrow> Some i \<in> snd ` set live) \<and> (Some i \<notin> snd ` set live \<longrightarrow> map_of (tm_items m) (Some i) = None)
    \<and> set (list_tasks False (m, r)) \<subseteq> fst ` set live"
proof -
  note index = task_run_index [OF assms(1)]
  have i: "list_at (tm_items m) (Some i) = tasks_of (Some i) live" "map_of (tm_items m) (Some i) \<noteq> Some []"
    using index assms(2) by (simp_all add: named_item_def)
  moreover have "tasks_of (Some i) live \<noteq> [] \<longleftrightarrow> Some i \<in> snd ` set live" by (force simp: filter_empty_conv)
  ultimately show ?thesis using index
    by (auto simp: list_task_ids_by_item_id_def has_active_tasks_def list_tasks_def list_at_def split: option.splits)
qed

subsection \<open>Stopping the tasks of an item through Redis\<close>

text \<open>The shared index: new ids are saved, and a task is cleaned up with the item it was created with, by its process and by who stops it.\<close>

inductive redis_run :: "task_redis \<Rightarrow> bool" where
  start: "redis_run \<lparr>tr_tasks = [], tr_items = [], tr_streams = []\<rparr>"
| save: "redis_run r \<Longrightarrow> map_of (tr_tasks r) t = None \<Longrightarrow> redis_run (redis_save_task t i r)"
| cleanup: "redis_run r \<Longrightarrow> map_of (tr_tasks r) t \<in> {None, Some (case i of None \<Rightarrow> [] | Some s \<Rightarrow> s)} \<Longrightarrow> redis_run (redis_cleanup_task t i r)"
| stream: "redis_run r \<Longrightarrow> redis_run (r\<lparr>tr_streams := d\<rparr>)"

definition redis_index_ok :: "task_redis \<Rightarrow> bool" where
  "redis_index_ok r \<longleftrightarrow> list_at (tr_items r) [] = [] \<and> (\<forall>i. distinct (list_at (tr_items r) i) \<and> (\<forall>t \<in> set (list_at (tr_items r) i). map_of (tr_tasks r) t = Some i))"

lemma list_at_sadd [simp]: "list_at (sadd k v d) k' = (if k' = k then List.insert v (list_at d k) else list_at d k')"
  by (simp add: sadd_def)

lemma list_at_srem [simp]: "list_at (srem k v d) k' = (if k' = k then removeAll v (list_at d k) else list_at d k')"
  by (simp add: srem_def Let_def)

lemma cleanup_items:
  "list_at (tr_items (redis_cleanup_task t i r)) k = (if named_item i \<and> k = the i then removeAll t (list_at (tr_items r) k) else list_at (tr_items r) k)"
  by (auto simp: redis_cleanup_task_def Let_def)

lemma cleanup_tasks: "tr_tasks (redis_cleanup_task t i r) = AList.delete t (tr_tasks r)"
  by (simp add: redis_cleanup_task_def Let_def)

lemma redis_run_index: "redis_run r \<Longrightarrow> redis_index_ok r"
proof (induction rule: redis_run.induct)
  case (save r t i)
  have "t \<notin> set (list_at (tr_items r) k)" for k using save by (auto simp: redis_index_ok_def)
  then show ?case using save.IH by (auto simp: redis_index_ok_def redis_save_task_def named_item_def Let_def split: option.splits)
next
  case (cleanup r t i)
  have only: "named_item i \<and> k = the i" if "t \<in> set (list_at (tr_items r) k)" for k
  proof -
    have "k \<noteq> []" using that cleanup.IH by (auto simp: redis_index_ok_def)
    then show ?thesis using cleanup that by (auto simp: redis_index_ok_def named_item_def split: option.splits)
  qed
  have "map_of (AList.delete t (tr_tasks r)) u = Some k" if u: "u \<in> set (list_at (tr_items (redis_cleanup_task t i r)) k)" for u k
  proof -
    have "u \<noteq> t" using u only [of k] by (auto simp: cleanup_items split: if_splits)
    moreover have "u \<in> set (list_at (tr_items r) k)" using u by (simp add: cleanup_items split: if_splits)
    ultimately show ?thesis using cleanup.IH by (simp add: redis_index_ok_def)
  qed
  then show ?case using cleanup.IH unfolding redis_index_ok_def cleanup_tasks by (simp add: cleanup_items distinct_removeAll)
qed (auto simp: redis_index_ok_def list_at_def)

lemma command_handled:
  assumes "\<And>t. jc_loads codec (PStr (jc_dumps codec (PDict (stop_command t)))) = Inr (PDict (stop_command t))"
  shows "tm_tasks (handle_task_command codec (jc_dumps codec (PDict (stop_command t))) m) = tm_tasks m
    \<and> set (tm_cancelled (handle_task_command codec (jc_dumps codec (PDict (stop_command t))) m))
      = set (tm_cancelled m) \<union> set_option (map_of (tm_tasks m) t)"
proof -
  have "pget (stop_command t) ''action'' = PStr ''stop''" "pget (stop_command t) ''task_id'' = PStr t" by (simp_all add: stop_command_def)
  then show ?thesis by (auto simp: handle_task_command_def assms cancel_task_def split: option.splits)
qed

definition cancelled_by :: "string set \<Rightarrow> task_mem list \<Rightarrow> task_mem list \<Rightarrow> bool" where
  "cancelled_by ts ps qs \<longleftrightarrow> list_all2 (\<lambda>p q. tm_tasks q = tm_tasks p
     \<and> set (tm_cancelled q) = set (tm_cancelled p) \<union> {h. \<exists>t \<in> ts. map_of (tm_tasks p) t = Some h}) ps qs"

lemma stop_all_effect:
  assumes codec: "\<And>t. jc_loads codec (PStr (jc_dumps codec (PDict (stop_command t)))) = Inr (PDict (stop_command t))"
    and "redis_run r" "set ts \<subseteq> set (list_at (tr_items r) i)" "distinct ts"
  shows "\<exists>qs r'. redis_stop_all codec ts (ps, r) = (None, qs, r') \<and> redis_run r' \<and> cancelled_by (set ts) ps qs
    \<and> (\<forall>k. list_at (tr_items r') k = (if k = i then filter (\<lambda>t. t \<notin> set ts) (list_at (tr_items r) k) else list_at (tr_items r) k))"
  using assms(2-4)
proof (induction ts arbitrary: ps r)
  case Nil
  then show ?case by (simp add: cancelled_by_def list_all2_same)
next
  case (Cons t ts)
  let ?ps = "redis_send_command codec (stop_command t) ps" and ?r = "redis_cleanup_task t (Some i) r"
  have ok: "redis_index_ok r" using Cons.prems(1) by (rule redis_run_index)
  then have i: "i \<noteq> []" "map_of (tr_tasks r) t = Some i" using Cons.prems(2) by (auto simp: redis_index_ok_def)
  have run: "redis_run ?r" using Cons.prems(1) i(2) by (auto intro: redis_run.cleanup)
  have "set ts \<subseteq> set (list_at (tr_items ?r) i)" using Cons.prems(2,3) by (auto simp: cleanup_items)
  then obtain qs r' where
    rest: "redis_stop_all codec ts (?ps, ?r) = (None, qs, r')" "redis_run r'" "cancelled_by (set ts) ?ps qs"
      "\<forall>k. list_at (tr_items r') k = (if k = i then filter (\<lambda>t. t \<notin> set ts) (list_at (tr_items ?r) k) else list_at (tr_items ?r) k)"
    using Cons.IH [OF run, of ?ps] Cons.prems(3) by (simp only: distinct.simps) blast
  have "redis_stop_all codec (t # ts) (ps, r) = (None, qs, r')" using rest(1) by (simp add: redis_stop_task_def i(2))
  moreover have "cancelled_by (set (t # ts)) ps qs"
    using rest(3) command_handled [OF codec, where t = t]
    by (fastforce simp: cancelled_by_def redis_send_command_def list_all2_conv_all_nth)
  moreover have "list_at (tr_items r') k = (if k = i then filter (\<lambda>u. u \<notin> set (t # ts)) (list_at (tr_items r) k) else list_at (tr_items r) k)" for k
    using rest(4) i(1) by (auto simp: cleanup_items named_item_def removeAll_filter_not_eq filter_filter intro!: filter_cong)
  ultimately show ?case using rest(2) by blast
qed

text \<open>C7: Stopping an item reaches all its tasks on all processes. In every state of the shared index, a request to stop the tasks of a chat
  succeeds, asks every process that runs one of the listed tasks to cancel it, and no other, and leaves the chat without active tasks and the
  tasks of other chats listed as before.\<close>

theorem redis_stop_item_complete:
  assumes codec: "\<And>t. jc_loads codec (PStr (jc_dumps codec (PDict (stop_command t)))) = Inr (PDict (stop_command t))"
    and run: "redis_run r" and stop: "redis_stop_item_tasks codec i (ps, r) = (res, qs, r')"
  shows "fst res \<and> redis_run r' \<and> \<not> has_active_tasks True i (m, r')
    \<and> (\<forall>k. k \<noteq> i \<longrightarrow> redis_list_item_tasks k r' = redis_list_item_tasks k r)
    \<and> list_all2 (\<lambda>p q. set (tm_cancelled q) = set (tm_cancelled p) \<union> {h. \<exists>t \<in> set (redis_list_item_tasks i r). map_of (tm_tasks p) t = Some h}) ps qs"
proof -
  let ?ts = "list_at (tr_items r) i"
  have "distinct ?ts" using redis_run_index [OF run] by (simp add: redis_index_ok_def)
  with stop_all_effect [OF codec run subset_refl, where i = i and ps = ps] obtain qs' r'' where
    all: "redis_stop_all codec ?ts (ps, r) = (None, qs', r'')" "redis_run r''" "cancelled_by (set ?ts) ps qs'"
      "\<forall>k. list_at (tr_items r'') k = (if k = i then [] else list_at (tr_items r) k)"
    by (auto simp: filter_empty_conv)
  have eq: "fst res \<and> qs = qs' \<and> r' = r''"
    using stop all(1) by (auto simp: redis_stop_item_tasks_def redis_list_item_tasks_def Let_def split: if_splits)
  have "list_all2 (\<lambda>p q. set (tm_cancelled q) = set (tm_cancelled p) \<union> {h. \<exists>t \<in> set ?ts. map_of (tm_tasks p) t = Some h}) ps qs'"
    using all(3) unfolding cancelled_by_def by (rule list_all2_mono) blast
  with eq all(2,4) show ?thesis by (simp add: has_active_tasks_def list_task_ids_by_item_id_def redis_list_item_tasks_def)
qed

theorem item_index_exact_witness:
  "list_task_ids_by_item_id False ''c'' (register_task ''t'' (Some ''c'') 0 \<lparr>tm_tasks = [], tm_items = [], tm_streams = [], tm_cancelled = []\<rparr>,
     \<lparr>tr_tasks = [], tr_items = [], tr_streams = []\<rparr>) = [''t'']"
proof -
  have "task_run (register_task ''t'' (Some ''c'') 0 \<lparr>tm_tasks = [], tm_items = [], tm_streams = [], tm_cancelled = []\<rparr>) ([] @ [(''t'', Some ''c'')])"
    by (rule task_run.create [OF task_run.start]) simp
  from item_index_exact [OF this] show ?thesis by simp
qed

definition stop_codec :: json_codec where
  "stop_codec = \<lparr>jc_dumps = (\<lambda>v. case pget (dict_or_empty v) ''task_id'' of PStr t \<Rightarrow> t | _ \<Rightarrow> []),
     jc_loads = (\<lambda>v. case v of PStr s \<Rightarrow> Inr (PDict (stop_command s)) | _ \<Rightarrow> Inl [])\<rparr>"

theorem redis_stop_item_complete_witness:
  "let r = redis_save_task ''t'' (Some ''c'') \<lparr>tr_tasks = [], tr_items = [], tr_streams = []\<rparr>;
       p = register_task ''t'' (Some ''c'') 7 \<lparr>tm_tasks = [], tm_items = [], tm_streams = [], tm_cancelled = []\<rparr>;
       s = snd (redis_stop_item_tasks stop_codec ''c'' ([p], r))
   in has_active_tasks True ''c'' (p, r) \<and> \<not> has_active_tasks True ''c'' (p, snd s) \<and> map (set \<circ> tm_cancelled) (fst s) = [{7}]"
proof -
  let ?r = "redis_save_task ''t'' (Some ''c'') \<lparr>tr_tasks = [], tr_items = [], tr_streams = []\<rparr>"
  let ?p = "register_task ''t'' (Some ''c'') 7 \<lparr>tm_tasks = [], tm_items = [], tm_streams = [], tm_cancelled = []\<rparr>"
  obtain res qs r' where s: "redis_stop_item_tasks stop_codec ''c'' ([?p], ?r) = (res, qs, r')" by (metis prod_cases3)
  have run: "redis_run ?r" by (rule redis_run.save [OF redis_run.start]) simp
  have codec: "jc_loads stop_codec (PStr (jc_dumps stop_codec (PDict (stop_command t)))) = Inr (PDict (stop_command t))" for t
    by (simp add: stop_codec_def stop_command_def dict_or_empty_def)
  have "has_active_tasks True ''c'' (?p, ?r)" "redis_list_item_tasks ''c'' ?r = [''t'']" "tm_tasks ?p = [(''t'', 7)]" "tm_cancelled ?p = []" by code_simp+
  then show ?thesis using redis_stop_item_complete [OF codec run s, of ?p] s by (auto simp: Let_def list_all2_Cons1)
qed

subsection \<open>What is not stopped, and what is not forgotten\<close>

lemma stop_task_found:
  "map_of (tm_tasks m) t = Some h \<Longrightarrow> stop_task i t (TaskCancelled, es) (g, m) = (Inr (True, ''Task '' @ t @ '' successfully stopped.''),
     run_events i es (g, cancel_task h (m\<lparr>tm_tasks := AList.delete t (tm_tasks m)\<rparr>)))"
  by (simp add: stop_task_def stop_result_def)

text \<open>C40: Without Redis, stopping a chat can leave a task running. The loop iterates over the list from which the cleanup of a stopped task
  removes it. When three tasks run and the cleanup of the first comes while the second is awaited, which is the order in which
  the event loop schedules them, the third is neither cancelled nor taken from the registry, and the call reports that all were stopped.\<close>

theorem stop_item_skips_task:
  assumes m: "list_at (tm_items m) (Some i) = [a, b, c]" "distinct [a, b, c]" "i \<noteq> []"
    and h: "map_of (tm_tasks m) a = Some ha" "map_of (tm_tasks m) b = Some hb" "map_of (tm_tasks m) c = Some hc"
    and hc: "hc \<notin> {ha, hb} \<union> set (tm_cancelled m)"
  shows "\<exists>msg m'. stop_item_tasks i [(TaskCancelled, []), (TaskCancelled, [CleanedUp a (Some i)])] m = Some (Inr (True, msg), m')
    \<and> map_of (tm_tasks m') c = Some hc \<and> hc \<notin> set (tm_cancelled m')"
proof -
  have ids: "a \<noteq> b" "a \<noteq> c" "b \<noteq> c" "b \<noteq> a" "c \<noteq> a" "c \<noteq> b" using m(2) by auto
  define m1 where "m1 = cancel_task ha (m\<lparr>tm_tasks := AList.delete a (tm_tasks m)\<rparr>)"
  define m2 where "m2 = forget_task a (Some i) (cancel_task hb (m1\<lparr>tm_tasks := AList.delete b (tm_tasks m1)\<rparr>))"
  have items: "list_at (tm_items m1) (Some i) = [a, b, c]" "map_of (tm_tasks m1) b = Some hb" using m h ids by (simp_all add: m1_def cancel_task_def)
  have two: "list_at (tm_items m2) (Some i) = [b, c]" using items m(3) by (simp add: m2_def list_at_forget named_item_def) (simp add: cancel_task_def)
  then have there: "map_of (tm_items m2) (Some i) \<noteq> None" by (auto simp: list_at_def split: option.splits)
  have "map_of (tm_tasks m2) c = Some hc" "hc \<notin> set (tm_cancelled m2)"
    using h hc ids by (auto simp: m2_def m1_def forget_task_def cancel_task_def Let_def)
  moreover have "stop_item_tasks i [(TaskCancelled, []), (TaskCancelled, [CleanedUp a (Some i)])] m = Some (Inr (True, ''All tasks for item '' @ i @ '' stopped.''), m2)"
    using m(1) items two there h
    by (simp add: stop_item_tasks_def stop_task_found m1_def [symmetric] m2_def [symmetric] Let_def)
  ultimately show ?thesis by blast
qed

theorem stop_item_skips_task_witness:
  "\<exists>msg m'. stop_item_tasks ''c'' [(TaskCancelled, []), (TaskCancelled, [CleanedUp ''x'' (Some ''c'')])]
      (fold (\<lambda>(t, h). register_task t (Some ''c'') h) [(''x'', 0), (''y'', 1), (''z'', 2)]
        \<lparr>tm_tasks = [], tm_items = [], tm_streams = [], tm_cancelled = []\<rparr>) = Some (Inr (True, msg), m')
    \<and> map_of (tm_tasks m') ''z'' = Some 2 \<and> 2 \<notin> set (tm_cancelled m')"
  by (rule stop_item_skips_task [of _ _ _ "''y''" _ 0 1]) (simp_all add: register_task_def list_at_def)

text \<open>A task that belongs to no item is never forgotten: its id stays listed under no item, whatever the registry does
  afterwards, its own cleanup included.\<close>

theorem unnamed_task_leaks:
  "t \<in> set (list_at (tm_items (fold task_event_step es (register_task t None h m))) None)"
proof -
  have step: "set (list_at (tm_items m) None) \<subseteq> set (list_at (tm_items (task_event_step e m)) None)" for e m
    by (cases e) (auto simp: register_task_def list_at_forget named_item_def)
  have "set (list_at (tm_items m) None) \<subseteq> set (list_at (tm_items (fold task_event_step es m)) None)" for m
    by (induction es arbitrary: m) (use step in fastforce)+
  from this [of "register_task t None h m"] show ?thesis by (auto simp: register_task_def)
qed

end
