(* ===== verification/Message_Usage.thy ===== *)
theory Message_Usage
  imports Chat_Store
begin

section \<open>What the usage of a message adds up to\<close>

text \<open>
  The token counts of \<open>normalize_usage\<close> and \<open>merge_usage\<close> (utils/response.py) for the formats of the providers, and of the row of a message that is written
  again (\<open>_apply_message_data\<close> of models/chat\_messages.py, through \<open>upsert_message_to_chat_by_id_and_message_id\<close>).
\<close>

abbreviation token_keys :: "string list" where
  "token_keys \<equiv> [''input_tokens'', ''output_tokens'', ''total_tokens'']"

lemma pget_sum_key:
  "pget (sum_key cu iu k r) j = (if j = k \<and> (has_key cu k \<or> has_key iu k) \<and>
     (is_numeric_usage_value (get_default cu k (PInt 0)) \<or> is_numeric_usage_value (get_default iu k (PInt 0)))
     then numeric_add (get_default cu k (PInt 0)) (get_default iu k (PInt 0)) else pget r j)"
  by (simp add: sum_key_def Let_def)

lemma pget_fold_sum:
  "pget (fold (sum_key cu iu) ks r) j = (if j \<in> set ks \<and> (has_key cu j \<or> has_key iu j) \<and>
     (is_numeric_usage_value (get_default cu j (PInt 0)) \<or> is_numeric_usage_value (get_default iu j (PInt 0)))
     then numeric_add (get_default cu j (PInt 0)) (get_default iu j (PInt 0)) else pget r j)"
  by (induction ks arbitrary: r) (auto simp: pget_sum_key)

lemma pget_fold_detail: "j \<notin> set ks \<Longrightarrow> pget (fold (detail_key cu iu) ks r) j = pget r j"
  by (induction ks arbitrary: r) (auto simp: detail_key_def)

lemma normalize_usage_counts:
  assumes "normalize_usage u = Inr n" "u \<noteq> []" "k \<in> set token_keys"
  shows "has_key n k \<and> (\<exists>x. pget n k = PInt x)"
  using assms by (auto simp: normalize_usage_def rbind_Inr_iff Let_def dict_update_def has_key_def)

lemma merge_usage_counts:
  assumes "normalize_usage c = Inr cu" "normalize_usage i = Inr iu" "c \<noteq> []" "i \<noteq> []" "k \<in> set token_keys"
    and "pget cu k = PInt x" "pget iu k = PInt y"
  shows "\<exists>m. merge_usage c i = Inr m \<and> m \<noteq> [] \<and> pget m k = PInt (x + y)"
proof -
  have key: "has_key cu k" "has_key iu k" using normalize_usage_counts assms(1-5) by blast+
  then have ne: "cu \<noteq> []" "iu \<noteq> []" by (auto simp: has_key_def)
  have k: "k \<in> set USAGE_SUMMABLE_KEYS" "k \<notin> set USAGE_DETAIL_KEYS" "k \<noteq> ''prompt_tokens''" "k \<noteq> ''completion_tokens''"
    using assms(5) by (auto simp: USAGE_SUMMABLE_KEYS_def USAGE_DETAIL_KEYS_def)
  have "numeric_add (PInt x) (PInt y) = PInt (x + y)" by (simp add: numeric_add_def numeric_or_0_def is_numeric_usage_value_def py_add_def as_whole_def)
  then have "pget (fold (sum_key cu iu) USAGE_SUMMABLE_KEYS (dict_update cu iu)) k = PInt (x + y)"
    using k(1) key assms(6,7) by (simp add: pget_fold_sum get_default_has is_numeric_usage_value_def)
  then have m: "pget (dict_update (fold (detail_key cu iu) USAGE_DETAIL_KEYS (fold (sum_key cu iu) USAGE_SUMMABLE_KEYS (dict_update cu iu)))
      [(''prompt_tokens'', a), (''completion_tokens'', b)]) k = PInt (x + y)" for a b
    using k(2-4) by (simp add: dict_update_def pget_fold_detail)
  show ?thesis using m assms(1,2) ne by (simp add: merge_usage_def Let_def) (metis pget_Nil pyval.distinct(3))
qed

text \<open>The formats in which providers report the usage of a call (docstring of \<open>normalize_usage\<close>), by the fields that count tokens.\<close>

datatype usage_report =
    Standard int int "int option"
  | OpenAI int int "int option"
  | Ollama int int
  | LlamaCpp int int int

definition count_or_none :: "int option \<Rightarrow> pyval" where
  "count_or_none t = (case t of None \<Rightarrow> PNone | Some n \<Rightarrow> PInt n)"

fun report_fields :: "usage_report \<Rightarrow> jdict" where
  "report_fields (Standard i j t) = [(''input_tokens'', PInt i), (''output_tokens'', PInt j), (''total_tokens'', count_or_none t)]"
| "report_fields (OpenAI i j t) = [(''prompt_tokens'', PInt i), (''completion_tokens'', PInt j), (''total_tokens'', count_or_none t)]"
| "report_fields (Ollama i j) = [(''prompt_eval_count'', PInt i), (''eval_count'', PInt j)]"
| "report_fields (LlamaCpp p c j) = [(''prompt_n'', PInt p), (''cache_n'', PInt c), (''predicted_n'', PInt j)]"

definition count_fields :: "string list" where
  "count_fields = [''input_tokens'', ''prompt_tokens'', ''prompt_eval_count'', ''prompt_n'', ''cache_n'',
     ''output_tokens'', ''completion_tokens'', ''eval_count'', ''predicted_n'', ''total_tokens'']"

text \<open>The usage \<open>u\<close> is a report in this format; what else it holds (durations, costs, details) is free.\<close>

definition is_report :: "usage_report \<Rightarrow> jdict \<Rightarrow> bool" where
  "is_report r u \<longleftrightarrow> (\<forall>k \<in> set count_fields. pget u k = pget (report_fields r) k)"

text \<open>The tokens reported. A provider that reports no total, or zero, leaves it to be the sum.\<close>

fun input_of :: "usage_report \<Rightarrow> int" where
  "input_of (Standard i j t) = i"
| "input_of (OpenAI i j t) = i"
| "input_of (Ollama i j) = i"
| "input_of (LlamaCpp p c j) = p + c"

fun output_of :: "usage_report \<Rightarrow> int" where
  "output_of (Standard i j t) = j"
| "output_of (OpenAI i j t) = j"
| "output_of (Ollama i j) = j"
| "output_of (LlamaCpp p c j) = j"

fun total_of :: "usage_report \<Rightarrow> int" where
  "total_of (Standard i j (Some n)) = (if n = 0 then i + j else n)"
| "total_of (OpenAI i j (Some n)) = (if n = 0 then i + j else n)"
| "total_of r = input_of r + output_of r"

lemma report_counts:
  assumes "is_report r u"
  shows "u \<noteq> [] \<and> (\<exists>n. normalize_usage u = Inr n \<and> pget n ''input_tokens'' = PInt (input_of r) \<and> pget n ''output_tokens'' = PInt (output_of r) \<and>
    pget n ''total_tokens'' = PInt (total_of r))"
proof -
  note defs = normalize_usage_def usage_input_def usage_output_def py_or_def py_truthy_def py_int_def py_add_def as_whole_def dict_update_def Let_def
    count_or_none_def
  have ne: "u \<noteq> []" using assms by (cases r) (auto simp: is_report_def count_fields_def)
  show ?thesis
  proof (cases r)
    case (Standard i j t)
    then show ?thesis using assms ne by (cases t) (simp_all add: is_report_def count_fields_def defs)
  next
    case (OpenAI i j t)
    then show ?thesis using assms ne by (cases t) (simp_all add: is_report_def count_fields_def defs)
  qed (use assms ne in \<open>simp_all add: is_report_def count_fields_def defs\<close>)
qed

text \<open>C35: Token counts are additive, in every format of the providers. Merging the usage of two model calls, each reported in the standard
  format, or as OpenAI, Ollama or llama.cpp report it, gives the sums of the reported input, output and total tokens.\<close>

theorem merge_usage_adds_tokens:
  assumes "is_report a c" "is_report b i"
  shows "\<exists>m. merge_usage c i = Inr m \<and> pget m ''input_tokens'' = PInt (input_of a + input_of b) \<and>
    pget m ''output_tokens'' = PInt (output_of a + output_of b) \<and> pget m ''total_tokens'' = PInt (total_of a + total_of b)"
proof -
  obtain cu iu where n: "normalize_usage c = Inr cu" "normalize_usage i = Inr iu" and ne: "c \<noteq> []" "i \<noteq> []"
    and counts: "pget cu ''input_tokens'' = PInt (input_of a)" "pget cu ''output_tokens'' = PInt (output_of a)" "pget cu ''total_tokens'' = PInt (total_of a)"
      "pget iu ''input_tokens'' = PInt (input_of b)" "pget iu ''output_tokens'' = PInt (output_of b)" "pget iu ''total_tokens'' = PInt (total_of b)"
    using report_counts [OF assms(1)] report_counts [OF assms(2)] by blast
  note merge = merge_usage_counts [OF n ne]
  show ?thesis using merge [OF _ counts(1,4)] merge [OF _ counts(2,5)] merge [OF _ counts(3,6)] by auto
qed

theorem merge_usage_adds_tokens_witness:
  "\<exists>m. merge_usage [(''prompt_tokens'', PInt 3), (''completion_tokens'', PInt 4), (''cost'', PInt 1)] [(''prompt_n'', PInt 5), (''cache_n'', PInt 2), (''predicted_n'', PInt 6)]
     = Inr m \<and> pget m ''input_tokens'' = PInt 10 \<and> pget m ''output_tokens'' = PInt 10 \<and> pget m ''total_tokens'' = PInt 20"
proof -
  have "is_report (OpenAI 3 4 None) [(''prompt_tokens'', PInt 3), (''completion_tokens'', PInt 4), (''cost'', PInt 1)]"
    "is_report (LlamaCpp 5 2 6) [(''prompt_n'', PInt 5), (''cache_n'', PInt 2), (''predicted_n'', PInt 6)]"
    by (simp_all add: is_report_def count_fields_def count_or_none_def)
  from merge_usage_adds_tokens [OF this] show ?thesis by simp
qed

subsection \<open>Writing a message again\<close>

text \<open>All three counts of a usage, none of them zero.\<close>

definition counts_tokens :: "(string \<Rightarrow> int) \<Rightarrow> jdict \<Rightarrow> bool" where
  "counts_tokens x u \<longleftrightarrow> (\<forall>k \<in> set token_keys. pget u k = PInt (x k) \<and> 0 < x k)"

lemma normalize_usage_keeps:
  assumes "normalize_usage u = Inr n" "counts_tokens x u"
  shows "counts_tokens x n"
  using assms by (auto simp: counts_tokens_def normalize_usage_def usage_input_def usage_output_def py_or_def py_truthy_def py_int_def rbind_Inr_iff Let_def
      dict_update_def split: if_splits)

lemma counts_tokens_ne: "counts_tokens x u \<Longrightarrow> u \<noteq> []"
  by (auto simp: counts_tokens_def)

lemma py_eq_dict_field:
  assumes "py_eq (PDict d) (PDict e)" "pget d k = PInt x" "pget e k = PInt y"
  shows "x = y"
proof -
  have "(k, PInt x) \<in> set d" using assms(2) by (auto simp: pget_def split: option.splits dest: map_of_SomeD)
  moreover have "map_of e k = Some (PInt y)" using assms(3) by (auto simp: pget_def split: option.splits)
  ultimately have "py_eq (PInt x) (PInt y)" using assms(1) by (fastforce simp: list_all_iff)
  then show ?thesis by (simp add: number_eq_def py_number_def)
qed

lemma merged_usage_adds:
  assumes "merged_usage (PDict e) (Some u) = Inr v" "counts_tokens x e" "counts_tokens y u" "j \<in> set token_keys" "x j \<noteq> y j"
  shows "\<exists>d. v = PDict d \<and> (\<forall>k \<in> set token_keys. pget d k = PInt (x k + y k))"
proof -
  have ne: "e \<noteq> []" "u \<noteq> []" using counts_tokens_ne assms(2,3) by blast+
  with assms(1) obtain n where n: "normalize_usage e = Inr n"
    and v: "(if py_eq (PDict u) (PDict n) then Inr (PDict n) else rbind (merge_usage n u) (\<lambda>m. Inr (PDict m))) = Inr v"
    by (auto simp: merged_usage_def py_truthy_def need_dict_def rbind_Inr_iff simp del: py_eq.simps)
  note nx = normalize_usage_keeps [OF n assms(2)]
  have "\<not> py_eq (PDict u) (PDict n)" using py_eq_dict_field [of u n j "y j" "x j"] nx assms(3-5) unfolding counts_tokens_def by metis
  with v obtain m where m: "merge_usage n u = Inr m" "v = PDict m" by (auto simp: rbind_Inr_iff simp del: py_eq.simps)
  then obtain cu iu where norm: "normalize_usage n = Inr cu" "normalize_usage u = Inr iu" by (auto simp: merge_usage_def rbind_Inr_iff)
  note counts = normalize_usage_keeps [OF norm(1) nx] normalize_usage_keeps [OF norm(2) assms(3)]
  have "pget m k = PInt (x k + y k)" if "k \<in> set token_keys" for k
    using merge_usage_counts [OF norm counts_tokens_ne [OF nx] ne(2) that, of "x k" "y k"] counts that m(1) unfolding counts_tokens_def by auto
  then show ?thesis using m(2) by blast
qed

lemma get_put_message_row: "get_message_row (cm_id r) (put_message_row r t) = Some r"
  by (induction t) (auto simp: get_message_row_def put_message_row_def)

lemma upsert_row_usage:
  assumes "upsert_row now i user mid data t = Inr t'" "get_message_row (composite_id i mid) t = Some r"
  shows "\<exists>r'. get_message_row (composite_id i mid) t' = Some r' \<and> rbind (get_usage data) (merged_usage (cm_usage r)) = Inr (cm_usage r')"
proof -
  from assms obtain r' where r': "apply_message_data r data now = Inr r'" "t' = put_message_row r' t"
    by (auto simp: upsert_row_def rbind_Inr_iff Let_def split: if_splits)
  have "cm_id r' = composite_id i mid" using assms(2) apply_message_columns(1) [OF r'(1)] by (auto simp: get_message_row_def find_Some_iff)
  then have "get_message_row (composite_id i mid) t' = Some r'" using get_put_message_row [of r' t] r'(2) by simp
  moreover have "rbind (get_usage data) (merged_usage (cm_usage r)) = Inr (cm_usage r')"
    using r'(1) by (auto simp: apply_message_data_def rbind_Inr_iff)
  ultimately show ?thesis by blast
qed

text \<open>C36: A message that is written again is counted again. A write passes the whole message of the body on to its row, with the usage the body
  has for it, even when the payload itself carries no usage. So when the row of the message holds a usage that differs from the one in the body
  (as it does as soon as the usage of two model calls has been added up there, while the body keeps the last one), then every further write that goes through, whatever it writes, adds
  the input, output and total tokens of the body's usage to the row once more.\<close>

theorem usage_counted_again:
  assumes up: "upsert_message_to_chat_by_id_and_message_id py_str now i mid message touch db = (Some c, db')"
    and payload: "\<not> has_key (sanitize_dict (with_output_text py_str message)) ''usage''" "\<not> has_key (sanitize_dict (with_output_text py_str message)) ''info''"
    and saved: "pget (body_messages c) (sanitize_text_for_db mid) = PDict saved" "get_usage saved = Inr (Some u)"
    and row: "get_message_row (composite_id i (sanitize_text_for_db mid)) (cd_messages db) = Some r" "cm_usage r = PDict e" "storable (Some r) saved"
    and tokens: "counts_tokens x e" "counts_tokens y u" "j \<in> set token_keys" "x j \<noteq> y j"
  shows "\<exists>r' d. get_message_row (composite_id i (sanitize_text_for_db mid)) (cd_messages db') = Some r' \<and> cm_usage r' = PDict d \<and>
    (\<forall>k \<in> set token_keys. pget d k = PInt (x k + y k))"
proof -
  let ?mid = "sanitize_text_for_db mid"
  have db': "cd_messages db' = (case upsert_row now i (ci_user_id c) ?mid saved (cd_messages db) of Inl e \<Rightarrow> cd_messages db | Inr t \<Rightarrow> t)"
    using upsert_parts [OF up] saved(1) by (metis pyval.inject(8))
  obtain t where t: "upsert_row now i (ci_user_id c) ?mid saved (cd_messages db) = Inr t"
    using upsert_row_succeeds [of i ?mid "cd_messages db" saved] row by auto
  from upsert_row_usage [OF t row(1)] obtain r' where r': "get_message_row (composite_id i ?mid) t = Some r'"
    "merged_usage (PDict e) (Some u) = Inr (cm_usage r')" using saved(2) row(2) by auto
  from merged_usage_adds [OF r'(2) tokens] r'(1) show ?thesis using db' t by auto
qed

definition counted_row :: message_row where
  "counted_row = \<lparr>cm_id = ''x-c'', cm_chat_id = ''x'', cm_user_id = ''u'', cm_role = PStr ''assistant'', cm_parent_id = PNone, cm_content = PNone,
     cm_output = PNone, cm_model_id = PNone, cm_files = PNone, cm_sources = PNone, cm_embeds = PNone, cm_meta = PNone, cm_done = PBool True,
     cm_status_history = PNone, cm_error = PNone, cm_usage = PDict [(''input_tokens'', PInt 15), (''output_tokens'', PInt 3), (''total_tokens'', PInt 18)],
     cm_context_summary = PNone, cm_created_at = PInt 0, cm_updated_at = 0\<rparr>"

text \<open>The row has the usage of two calls, the body the usage of the second; the write marks the message as done.\<close>

definition counted_db :: chat_db where
  "counted_db = \<lparr>cd_chats = [sample_chat\<lparr>ci_chat := Some [(''history'', PDict [(''messages'', PDict [(''c'', PDict [(''role'', PStr ''assistant''),
     (''usage'', PDict [(''input_tokens'', PInt 5), (''output_tokens'', PInt 1), (''total_tokens'', PInt 6)])])])])]\<rparr>], cd_messages = [counted_row]\<rparr>"

theorem usage_counted_again_witness:
  "\<exists>c db' r' d. upsert_message_to_chat_by_id_and_message_id (\<lambda>v. []) 1 ''x'' ''c'' [(''done'', PBool True)] False counted_db = (Some c, db') \<and>
     get_message_row ''x-c'' (cd_messages db') = Some r' \<and> cm_usage r' = PDict d \<and> pget d ''input_tokens'' = PInt 20"
proof -
  let ?m = "[(''done'', PBool True)]" and ?u = "[(''input_tokens'', PInt 5), (''output_tokens'', PInt 1), (''total_tokens'', PInt 6)]"
  let ?r = "upsert_message_to_chat_by_id_and_message_id (\<lambda>v. []) 1 ''x'' ''c'' ?m False counted_db"
  have "case fst ?r of None \<Rightarrow> False | Some c \<Rightarrow> (case as_dict (pget (body_messages c) ''c'') of None \<Rightarrow> False | Some saved \<Rightarrow>
    storable (Some counted_row) saved \<and> get_usage saved = Inr (Some ?u))" by code_simp
  then obtain c db' saved where r: "?r = (Some c, db')" and saved: "pget (body_messages c) (sanitize_text_for_db ''c'') = PDict saved"
    and st: "storable (Some counted_row) saved" and u: "get_usage saved = Inr (Some ?u)"
    by (cases ?r) (auto simp: as_dict_def sanitize_text_for_db_def split: option.splits pyval.splits)
  let ?x = "\<lambda>k. if k = ''input_tokens'' then 15 else if k = ''output_tokens'' then 3 else 18 :: int"
  let ?y = "\<lambda>k. if k = ''input_tokens'' then 5 else if k = ''output_tokens'' then 1 else 6 :: int"
  have p: "\<not> has_key (sanitize_dict (with_output_text (\<lambda>v. []) ?m)) ''usage''" "\<not> has_key (sanitize_dict (with_output_text (\<lambda>v. []) ?m)) ''info''"
    "composite_id ''x'' (sanitize_text_for_db ''c'') = ''x-c''" by code_simp+
  have row: "get_message_row (composite_id ''x'' (sanitize_text_for_db ''c'')) (cd_messages counted_db) = Some counted_row"
    unfolding p(3) by (simp add: get_message_row_def counted_db_def counted_row_def)
  have "cm_usage counted_row = PDict [(''input_tokens'', PInt 15), (''output_tokens'', PInt 3), (''total_tokens'', PInt 18)]" by (simp add: counted_row_def)
  from usage_counted_again [OF r p(1,2) saved u row this st, of ?x ?y "''input_tokens''"] r show ?thesis
    unfolding p(3) by (auto simp: counts_tokens_def)
qed

end
