(* ===== verification/Spec2Isabelle.thy ===== *)
theory Spec2Isabelle
  imports Presence_Service Browser_Settings Browser_Tools Folder_Router Tool_Approval Task_Registry Message_Usage
begin

text \<open>
  \<^bold>\<open>Verification of Tide-Bot's server core.\<close>

  Tide-Bot is an Open WebUI server with two features of its own: \<^emph>\<open>companion presence\<close> (which chat a user
  has in front of them, shared between their devices) and the \<^emph>\<open>browser extension\<close> (a language model may
  drive a paired browser). This development models the Python code of both, the rate limiter and the configuration store they use,
  the access control of the server (groups, grants, permissions, folders, shared objects), the message tree of chats with its tables, and
  the tool calls and background tasks of a completion. All paths below are under \<open>src/backend/open_webui/\<close>.

  \<^bold>\<open>Parts and how they interact.\<close> A browser is paired through the endpoints of
  \<open>routers/browser_extension.py\<close>: the extension starts a pairing grant, a logged-in user approves it, the extension
  exchanges it for a device with a refresh credential and a short-lived access token, and later rotates
  the credential. The endpoints read settings (\<open>models/config.py\<close>), count requests (\<open>utils/rate_limit.py\<close>), decide
  permissions (\<open>utils/browser_extension_permissions.py\<close>) and origins, sign and check tokens
  (\<open>utils/browser_extension_auth.py\<close>, \<open>utils/browser_extension_crypto.py\<close>) and keep everything in five tables
  (\<open>models/browser_extension.py\<close>). The paired extension joins a socket (\<open>socket/browser_extension.py\<close>) with its access token
  and opens tab sessions; the chat tools (\<open>utils/browser_extension_tools.py\<close>) send commands to it and results come back through the broker
  (\<open>utils/browser_extension_broker.py\<close>). Presence updates arrive on another socket service
  (\<open>socket/companion_presence.py\<close>), are kept in memory or, with several workers, in Redis, and are sent to all
  subscribed devices of the user; the chat they name has to be one the user may read (\<open>utils/chat_access.py\<close>).
  Access is decided by ownership, roles and grants to users and groups (\<open>models/access_grants.py\<close>, \<open>models/groups.py\<close>,
  \<open>utils/access_control\<close>), along the ancestors of a folder (\<open>models/folders.py\<close>, \<open>routers/folders.py\<close>).
  A chat holds its messages as a tree in its body and once more as rows (\<open>models/chats.py\<close>, \<open>models/chat_messages.py\<close>). A completion runs as a background
  task (\<open>tasks.py\<close>); it pauses when a tool call needs an answer (\<open>utils/ask_user.py\<close>) or an approval (\<open>utils/tool_approval.py\<close>), which are
  written into the output of its message.

  \<^bold>\<open>Theories.\<close>
  \<^item> \<open>TB_Prelude\<close>, \<open>Py_Str\<close>, \<open>Py_Regex\<close>, \<open>Py_Url\<close>, \<open>Py_Json\<close>: what the code uses of Python and its standard library: results
    with errors as sums (\<open>result\<close>, \<open>rbind\<close>), JSON-like values (\<open>pyval\<close>), dictionaries as association lists, the methods of
    \<open>str\<close>, \<open>re\<close>, \<open>urllib.parse\<close>, \<open>ipaddress\<close> and \<open>json\<close>.
  \<^item> \<open>Rate_Limit\<close>: class \<open>RateLimiter\<close>. The bucketed counter refines a log of all requests (C17, through the
    locale \<open>rolling_counter\<close>).
  \<^item> \<open>Presence_Data\<close>, \<open>Presence_Memory\<close>, \<open>Presence_Redis\<close>, \<open>Presence_Service\<close>: the payload validator and the
    rule that selects the active device (C22), the two stores, each an interpretation of the locale
    \<open>presence_store\<close> (C21: the script in Redis selects as the Python code does), and the socket handlers
    on top of that contract, whose emissions are ordered by the expiring lock in Redis (\<open>emission_step\<close>, C10).
  \<^item> \<open>Browser_Crypto\<close>, \<open>Browser_Permissions\<close>, \<open>Browser_Auth\<close>: keys, token hashes, workflow encryption, redaction (C23);
    who may control a browser; the request allowlist, refresh credentials, access tokens and server origins.
  \<^item> \<open>Browser_Store\<close>: the five tables, one function per method, each a transaction with its guard and its unique
    constraints. The locales \<open>row_update\<close> and \<open>once_update\<close> are the contract of a guarded update;
    every such method is an interpretation.
  \<^item> \<open>Browser_Broker\<close>: the broker as a state machine (\<open>broker_step\<close>, \<open>broker_run\<close>); mutual exclusion of
    commands, exactly one outcome per command, authenticity of results, no leaked locks (C3, C15, C16).
  \<^item> \<open>Browser_Socket\<close>: the socket handlers on top of the broker, and the rooms commands are sent to (\<open>room_step\<close>, C14). \<open>Browser_Tools\<close>: the chat tools, the sanitising of their
    results, and the inlining of schema references, which ends on acyclic ones (C24).
  \<^item> \<open>Config_Store\<close>: class \<open>Config\<close>, with the locale \<open>settings_store\<close> as its contract (C19).
  \<^item> \<open>Browser_Forms\<close>, \<open>Browser_Router\<close>: the validators and the endpoints. An endpoint is a program of atomic steps
    (\<open>Request_Prog\<close>): what runs between two database calls is local, every database call is one step.
  \<^item> \<open>Browser_Requests\<close>: what holds however the requests of all clients interleave (C11, C18, through the locales
    \<open>step_contract\<close> and \<open>set_once\<close>), and what a successful or a replayed refresh means (C12, C13).
    \<open>Browser_Settings\<close>: which requests leave the lock on custom origins alone (another interpretation of \<open>step_contract\<close>, used by C20).
  \<^item> \<open>Group_Store\<close>, \<open>Access_Grants\<close>: groups with their members (C26) and the table of grants, which refines an access matrix (C1) and whose
    query filter agrees with the single check (C25).
  \<^item> \<open>User_Permissions\<close>: the combined permissions of a user and which grants the user may hand out (C5).
    \<open>Shared_Objects\<close>: access to models, files, the files of folders, and chats (C27, C28).
  \<^item> \<open>Folder_Store\<close>, \<open>Folder_Router\<close>: folders, access along their ancestors (C4), the two walks through a subtree (C29), and the
    endpoints, which keep and repair the forest (C30, C31).
  \<^item> \<open>Chat_History\<close>: the static methods of \<open>ChatTable\<close> on the message tree: deleting (C2), merging (C8), the branch of a message (C34).
    \<open>Chat_Messages\<close> and \<open>Message_Usage\<close>: the rows of messages and the accounting of usage (C35, C36). \<open>Chat_Store\<close>: the operations that write a chat and its messages to
    both places (C33).
  \<^item> \<open>Ask_User\<close>, \<open>Tool_Approval\<close>: questions to the user (C37, C38) and decisions on tool calls (C6, C39).
  \<^item> \<open>Task_Registry\<close>: the registry of tasks of a process and its index in Redis, as step relations (C7, C9, C40).
  \<^item> This theory: the properties that tie the endpoints to the configuration store (C20) and presence to access control (C32).

  \<^bold>\<open>Conventions.\<close> Strings are lists of characters below code point 256. Times are integers (nanoseconds or seconds) or
  rationals as the code has them, floating point sums are exact. Exceptions are values; an exception that a handler does not catch is a result of
  the handler (\<open>Uncaught\<close>, \<open>Escapes\<dots>\<close>, \<open>ServerFailed\<close>, \<open>HistoryRaised\<close>), so that the error theorems can speak of it. Random values, clocks and
  third-party code (HKDF, HMAC, AES-GCM, JWT, IDNA, the Redis client, the JSON codec, \<open>str\<close> of arbitrary values, \<open>jsonable_encoder\<close>)
  are parameters. Two functions run on fuel: \<open>json.loads\<close>, with twice the length of its text, which the round trip of \<open>Py_Json\<close> shows
  to be enough for everything the encoder writes; and \<open>resolve_refs\<close>, which inlines the references of a schema and does not end on a cyclic one: C24 shows that on an
  acyclic schema every amount from some point on is enough. All other functions are total without fuel; loops over stored trees end because they remember what
  they have visited.

  \<^bold>\<open>What the theorems do not cover.\<close> The loops of asyncio (the expiry task of the presence service, timeouts firing) are
  environment steps of the state machines, and how a stopped task ends and what runs while it is awaited are arguments of stopping it.
  The broker is that of one worker: its commands in flight are its own in the code too, but the registries of devices and sessions, which the code may share between workers through
  Redis, are private to it here, so C3 and C14 speak of the commands of one worker. A message published in Redis reaches every process at once; a listener that is
  reconnecting would miss it (C7), and no task is created while the stop of an item through Redis runs. The emission lock expires as in the code, and C10 assumes that an emission is sent
  before that. Lua compares strings by code point, as it does in the C locale (C21). The steps of the grant table in C1 are the calls that
  succeed; a \<open>set_access_control\<close> that commits and then fails to validate what it returns is none. The write of a message row may fail silently: C33 states when it
  does not, and C6 assumes that it did not.
  Requests interleave at database calls, each an atomic transaction, which is what
  the statements of the code are on both supported databases. In the repair of flattened settings the values of two rows are
  copied where the code shares them, which makes a difference only when one flattened row holds a dictionary, another lies below it and \<open>LIKE\<close>
  finds a row under two names. Surrogate code points, which the cleaning of stored data also removes, are no characters of the model.

  \<^bold>\<open>Not modelled.\<close> Of \<open>models/chats.py\<close> the queries (listing, searching, counting), sharing, importing and tagging, and of \<open>models/chat_messages.py\<close>
  the analytics: they are SQL over columns this model does not keep. Of \<open>routers/folders.py\<close> the paged listing of the chats of a shared folder and marking a folder as
  read, for the same reason. The completion middleware, the built-in tools, model provider proxies, retrieval, OAuth, migrations and the
  application assembly are mostly I/O through third-party libraries and remote services; the web, extension and desktop clients are written in other languages.
\<close>

section \<open>Properties that span components\<close>

lemma py_eq_bool_truthy: "py_eq (PBool b) w \<Longrightarrow> py_truthy w = b"
  by (cases w; cases b) (auto simp: number_eq_def py_number_def py_truthy_def)

lemma settings_unlocked:
  "run_alone (get_runtime_settings E) w = (Inr st, w') \<Longrightarrow> rs_custom_origins_unlocked st = origins_unlocked w"
  by (auto simp: get_runtime_settings_def origins_unlocked_def Let_def split: if_splits)

lemma checks_keep_world:
  "run_alone (get_runtime_settings E) w = (r, w') \<Longrightarrow> w' = w" "run_alone (require_browser_permission E st user) w = (r', w') \<Longrightarrow> w' = w"
  by (auto simp: get_runtime_settings_def require_browser_permission_def hbind_def hlift_def hcheck_def hraise_def Let_def
      split: option.splits sum.splits if_splits)

lemma update_settings_outcome:
  assumes "run_alone (update_browser_extension_settings E rq u unlocked) w = (res, w')"
  shows "case res of Inl e \<Rightarrow> w' = w
    | Inr resp \<Rightarrow> su_role u = ''admin'' \<and> wd_config w' =
        upsert (re_jsonable E) (rq_clock rq 0 div 1000000000) [(''browser_extension.custom_origins_unlocked'', PBool unlocked)] (wd_config w)"
  using assms unfolding update_browser_extension_settings_def
  by (auto simp: run_alone_hbind config_upsert_def hcheck_def hraise_def simp del: upsert.simps
      dest!: checks_keep_world split: prod.splits sum.splits if_splits)

lemma update_settings_lock:
  assumes "run_alone (update_browser_extension_settings E rq u unlocked) w = (Inr resp, w')" "re_jsonable E (PBool unlocked) = PBool unlocked"
  shows "origins_unlocked w' = unlocked"
proof -
  have "wd_config w' =
      upsert (re_jsonable E) (rq_clock rq 0 div 1000000000) [(''browser_extension.custom_origins_unlocked'', PBool unlocked)] (wd_config w)"
    using update_settings_outcome [OF assms(1)] by (simp del: upsert.simps)
  then have "origins_unlocked w' = py_truthy (re_jsonable E (PBool unlocked))" unfolding origins_unlocked_def
    by (simp only:) (rule config.read_back, use assms(2) py_eq_bool_truthy in \<open>auto simp: py_truthy_def\<close>)
  then show ?thesis using assms(2) by (simp add: py_truthy_def)
qed

text \<open>C20: The lock on custom origins is the administrators'. A request to change it that is refused, at whatever check, changes
  no setting; one that succeeds was made by an administrator. Afterwards, however many requests of any kind and of any clients run and interleave (changes of the
  settings by administrators apart), whoever reads the settings finds the lock as it was
  set, or after a refused request as it was before, whether the database or the defaults are in charge of it.\<close>

theorem custom_origins_toggle:
  assumes update: "run_alone (update_browser_extension_settings E rq u unlocked) w = (res, w')"
    and json: "re_jsonable E (PBool unlocked) = PBool unlocked"
    and later: "pool_run (other_request E) ([], w') (ps, w2)"
    and read: "run_alone (get_runtime_settings E) w2 = (Inr st, w3)"
  shows "case res of
      Inl e \<Rightarrow> wd_config w' = wd_config w \<and> rs_custom_origins_unlocked st = origins_unlocked w
    | Inr resp \<Rightarrow> su_role u = ''admin'' \<and> rs_custom_origins_unlocked st = unlocked"
proof -
  have st: "rs_custom_origins_unlocked st = origins_unlocked w'"
    using settings_unlocked [OF read] other_requests_keep_lock [OF later] by simp
  show ?thesis
  proof (cases res)
    case (Inl e)
    then show ?thesis using st update_settings_outcome [OF update] by simp
  next
    case (Inr resp)
    then show ?thesis using st update_settings_outcome [OF update] update_settings_lock [OF update [unfolded Inr] json]
      by (simp del: upsert.simps)
  qed
qed

lemma desk_toggles:
  "\<exists>resp w'. run_alone (update_browser_extension_settings desk_env desk_request \<lparr>su_id = ''u'', su_role = ''admin''\<rparr> True) desk_world = (Inr resp, w')
     \<and> wd_config w' = upsert id 1 [(''browser_extension.custom_origins_unlocked'', PBool True)] (wd_config desk_world)"
proof -
  let ?w = "desk_world\<lparr>wd_config := upsert id 1 [(''browser_extension.custom_origins_unlocked'', PBool True)] (wd_config desk_world)\<rparr>"
  have u: "run_alone (config_upsert desk_env (rq_clock desk_request 0 div 1000000000) ''browser_extension.custom_origins_unlocked'' (PBool True)) desk_world
      = (Inr (), ?w)"
    by (simp add: config_upsert_def desk_env_def desk_request_def del: upsert.simps)
  have "\<exists>resp. run_alone (update_browser_extension_settings desk_env desk_request \<lparr>su_id = ''u'', su_role = ''admin''\<rparr> True) desk_world = (Inr resp, ?w)"
    unfolding update_browser_extension_settings_def
    apply (rule exI, rule run_alone_hbindI [OF desk_settings], rule run_alone_hbindI [OF desk_permission])
    apply (rule run_alone_hbindI [where a = "()" and w' = desk_world], simp)
    by (rule run_alone_hbindI [OF u]) simp
  then show ?thesis by (auto simp del: upsert.simps)
qed

theorem custom_origins_toggle_witness:
  "\<exists>resp w' st. run_alone (update_browser_extension_settings desk_env desk_request \<lparr>su_id = ''u'', su_role = ''admin''\<rparr> True) desk_world = (Inr resp, w') \<and>
     run_alone (get_runtime_settings desk_env) w' = (Inr st, w') \<and> rs_custom_origins_unlocked st"
proof -
  obtain resp w' where up: "run_alone (update_browser_extension_settings desk_env desk_request \<lparr>su_id = ''u'', su_role = ''admin''\<rparr> True) desk_world = (Inr resp, w')"
    and c: "wd_config w' = upsert id 1 [(''browser_extension.custom_origins_unlocked'', PBool True)] (wd_config desk_world)"
    using desk_toggles by blast
  have other: "config_get (wd_config w') k d = d" if "k \<noteq> ''browser_extension.custom_origins_unlocked''" for k d
    unfolding c using that
    by (subst config_get_upsert_other) (auto simp: desk_world_def config_get_def persistent_enabled_for_def default_value_def)
  obtain st where st: "run_alone (get_runtime_settings desk_env) w' = (Inr st, w')"
    by (simp add: get_runtime_settings_def other)
  have "re_jsonable desk_env (PBool True) = PBool True" by (simp add: desk_env_def)
  from custom_origins_toggle [OF up this pool_refl st] up st show ?thesis by (auto simp del: upsert.simps)
qed

text \<open>C32: Presence shows a user's devices only chats this user may read. With the chats, folders and grants of the database
  in place, an update changes the store either to clear the entry of the socket, or to enter a chat of the database under its cleaned title,
  and then the user owns the chat, or is an administrator who may open it, or holds a read grant on it, or can read the
  folder it lies in.\<close>

theorem presence_shows_readable_chats:
  assumes "service_update_begin ops clock pool (\<lambda>u r i. map_option ct_title (get_readable_chat admin_access db u r i)) svc sid payload
      = Inr (reply, e, svc')"
    and "svc_store svc' \<noteq> svc_store svc"
  shows "\<exists>user_id role p. service_session pool sid = Some (user_id, role) \<and> validate_presence_update payload = Inr p \<and>
    (chatId p = None \<and> svc_store svc' = snd (op_clear ops (svc_store svc) user_id sid (clock (svc_tick svc))) \<or>
     (\<exists>c \<in> set (ob_chats db). chatId p = Some (ct_id c) \<and>
        svc_store svc' = snd (op_update ops (svc_store svc) user_id sid (p\<lparr>chatTitle := Some (sanitize_text_for_db (ct_title c))\<rparr>) (clock (svc_tick svc))) \<and>
        (ct_user_id c = user_id
         \<or> role = ''admin'' \<and> (admin_access \<or> is_internal_chat (ct_meta c))
         \<or> db_access db user_id ''shared_chat'' (ct_id c) ''read'' None
         \<or> (\<exists>fid f. ct_folder_id c = Some fid \<and> Folder_Store.get_folder_by_id fid (ob_folders db) = Some f
              \<and> has_folder_access (ob_groups db) (ob_grants db) (ob_folders db) user_id f ''read''))))"
proof -
  from service_update_authorised [OF assms] obtain user_id role p where
    p: "service_session pool sid = Some (user_id, role)" "validate_presence_update payload = Inr p" and
    cases: "chatId p = None \<and> svc_store svc' = snd (op_clear ops (svc_store svc) user_id sid (clock (svc_tick svc))) \<or>
      (\<exists>i c. chatId p = Some i \<and> get_readable_chat admin_access db user_id role i = Some c \<and>
        svc_store svc' = snd (op_update ops (svc_store svc) user_id sid (p\<lparr>chatTitle := Some (ct_title c)\<rparr>) (clock (svc_tick svc))))"
    by auto
  from cases show ?thesis
  proof (elim disjE exE conjE)
    fix i c
    assume i: "chatId p = Some i" "get_readable_chat admin_access db user_id role i = Some c"
      and store: "svc_store svc' = snd (op_update ops (svc_store svc) user_id sid (p\<lparr>chatTitle := Some (ct_title c)\<rparr>) (clock (svc_tick svc)))"
    from readable_chat_reason [OF i(2)] i(1) store p show ?thesis by fastforce
  qed (use p in blast)
qed

definition shared_chat_db :: objects_db where
  "shared_chat_db = forest_db\<lparr>ob_chats := [\<lparr>ct_id = ''x'', ct_user_id = ''u'', ct_title = ''DB'', ct_share_id = None, ct_folder_id = None, ct_meta = []\<rparr>]\<rparr>"

theorem presence_shows_readable_chats_witness:
  "\<exists>p. validate_presence_update (sample_payload (PInt 5)) = Inr p \<and>
     (\<exists>c. c \<in> set (ob_chats shared_chat_db) \<and> chatId p = Some (ct_id c) \<and> ct_title c = ''DB'')"
proof -
  let ?r = "service_update_begin mem_ops (\<lambda>i. of_nat i + 1) sample_pool
    (\<lambda>u r i. map_option ct_title (get_readable_chat False shared_chat_db u r i)) sample_service ''s'' (sample_payload (PInt 5))"
  obtain reply e svc' where r: "?r = Inr (reply, e, svc')" and ch: "svc_store svc' \<noteq> svc_store sample_service"
    by (simp add: service_update_begin_def sample_payload_valid service_session_def sample_pool_def pget_def
        nonempty_str_def read_clock_def consume_rate_limit_def consume_window_def sample_service_def PRESENCE_RATE_LIMIT_def
        get_readable_chat_def get_chat_by_id_and_user_id_def shared_chat_db_def sanitize_title_def mem_eval rank_def)
  from presence_shows_readable_chats [OF r ch] show ?thesis by (auto simp: sample_payload_valid shared_chat_db_def)
qed

end
